(* ===== verification/Prelude.thy ===== *)
theory Prelude
  imports
    Complex_Main
    "HOL-Library.List_Lexorder"
    "HOL-Library.Char_ord"
    "HOL-Library.Word"
begin

text \<open>
  Shared vocabulary of the development: strings and decimal renderings
  (\<open>std::to_string\<close>), the sequencing of statements that may throw, and list facts
  used by several components.  A C++ function that mutates an object and may throw is
  modelled by a function returning an \<open>outcome\<close>: the state the object is left in
  (mutations made before the throw included) and the exception, if any.
\<close>

named_theorems frame_simps \<open>evaluation of abstraction functions of the frames\<close>
named_theorems inv_intros \<open>operations that preserve a component invariant\<close>

section \<open>Strings\<close>

fun digits_of_nat :: "nat \<Rightarrow> string" where
  "digits_of_nat n =
     (if n < 10 then [char_of (48 + n)]
      else digits_of_nat (n div 10) @ [char_of (48 + n mod 10)])"

declare digits_of_nat.simps [simp del]

definition string_of_nat :: "nat \<Rightarrow> string" where
  "string_of_nat n = digits_of_nat n"

definition string_of_int :: "int \<Rightarrow> string" where
  "string_of_int i = (if i < 0 then CHR ''-'' # string_of_nat (nat (- i)) else string_of_nat (nat i))"

text \<open>A sum of \<open>size_t\<close> wraps.\<close>

definition size_plus :: "nat \<Rightarrow> nat \<Rightarrow> nat" where
  "size_plus a b = (a + b) mod 2 ^ 64"

lemma size_plus_le: "size_plus a b \<le> a + b"
  by (simp add: size_plus_def)

lemma size_plus_small: "a + b < 2 ^ 64 \<Longrightarrow> size_plus a b = a + b"
  by (simp add: size_plus_def)

definition quoted :: "string \<Rightarrow> string" where
  "quoted s = CHR 0x22 # s @ [CHR 0x22]"

fun join :: "string \<Rightarrow> string list \<Rightarrow> string" where
  "join sep [] = []"
| "join sep [x] = x"
| "join sep (x # y # xs) = x @ sep @ join sep (y # xs)"

section \<open>Statements that may throw\<close>

type_synonym ('s, 'e) outcome = "'s \<times> 'e option"

definition and_then :: "('s, 'e) outcome \<Rightarrow> ('s \<Rightarrow> ('s, 'e) outcome) \<Rightarrow> ('s, 'e) outcome" where
  "and_then r f = (case r of (s, None) \<Rightarrow> f s | (s, Some e) \<Rightarrow> (s, Some e))"

fun for_each :: "('a \<Rightarrow> 's \<Rightarrow> ('s, 'e) outcome) \<Rightarrow> 'a list \<Rightarrow> 's \<Rightarrow> ('s, 'e) outcome" where
  "for_each f [] s = (s, None)"
| "for_each f (x # xs) s = and_then (f x s) (for_each f xs)"

lemma and_then_None [simp]: "and_then (s, None) f = f s"
  by (simp add: and_then_def)

lemma and_then_Some [simp]: "and_then (s, Some e) f = (s, Some e)"
  by (simp add: and_then_def)

lemma and_then_ok_iff:
  "and_then r f = (s', None) \<longleftrightarrow> (\<exists>s. r = (s, None) \<and> f s = (s', None))"
  by (cases r; cases "snd r") auto

lemma and_then_assoc: "and_then (and_then r f) g = and_then r (\<lambda>s. and_then (f s) g)"
  by (cases r; cases "snd r") auto

lemma for_each_append:
  "for_each f (xs @ ys) s = and_then (for_each f xs s) (for_each f ys)"
proof (induction xs arbitrary: s)
  case (Cons x xs)
  then show ?case by (cases "f x s"; cases "snd (f x s)") auto
qed simp

text \<open>
  Simulation of one statement sequence by another.  \<open>sim R r r'\<close>: the two outcomes throw
  the same exception or none, and the states they leave are related.
\<close>

definition sim :: "('s \<Rightarrow> 't \<Rightarrow> bool) \<Rightarrow> ('s, 'e) outcome \<Rightarrow> ('t, 'e) outcome \<Rightarrow> bool" where
  "sim R r r' \<longleftrightarrow> snd r = snd r' \<and> R (fst r) (fst r')"

lemma simI [intro]: "e = e' \<Longrightarrow> R s t \<Longrightarrow> sim R (s, e) (t, e')"
  by (simp add: sim_def)

lemma sim_and_then:
  assumes "sim R r r'"
    and "\<And>s t. R s t \<Longrightarrow> r = (s, None) \<Longrightarrow> r' = (t, None) \<Longrightarrow> sim R (f s) (g t)"
  shows "sim R (and_then r f) (and_then r' g)"
  using assms by (cases r; cases r'; cases "snd r") (auto simp: sim_def)

lemma sim_for_each:
  assumes "R s t"
    and "\<And>x s t. x \<in> set xs \<Longrightarrow> R s t \<Longrightarrow> sim R (f x s) (g x t)"
  shows "sim R (for_each f xs s) (for_each g xs t)"
  using assms
proof (induction xs arbitrary: s t)
  case Nil
  then show ?case by (auto simp: sim_def)
next
  case (Cons x xs)
  have "sim R (f x s) (g x t)" using Cons.prems by simp
  then show ?case
    unfolding for_each.simps by (rule sim_and_then) (use Cons in auto)
qed

lemma sim_if:
  "(b \<Longrightarrow> sim R r1 r1') \<Longrightarrow> (\<not> b \<Longrightarrow> sim R r2 r2') \<Longrightarrow>
   sim R (if b then r1 else r2) (if b then r1' else r2')"
  by simp

section \<open>Functions that may throw\<close>

text \<open>
  A function whose local state is discarded by a throw returns \<open>Inl\<close> the exception or \<open>Inr\<close> the
  value.
\<close>

definition rbind :: "'e + 'a \<Rightarrow> ('a \<Rightarrow> 'e + 'b) \<Rightarrow> 'e + 'b" where
  "rbind r f = (case r of Inl e \<Rightarrow> Inl e | Inr x \<Rightarrow> f x)"

definition throw_if :: "bool \<Rightarrow> 'e \<Rightarrow> 'e + unit" where
  "throw_if b e = (if b then Inl e else Inr ())"

fun rfold :: "('a \<Rightarrow> 's \<Rightarrow> 'e + 's) \<Rightarrow> 'a list \<Rightarrow> 's \<Rightarrow> 'e + 's" where
  "rfold f [] s = Inr s"
| "rfold f (x # xs) s = rbind (f x s) (rfold f xs)"

fun rmap :: "('a \<Rightarrow> 'e + 'b) \<Rightarrow> 'a list \<Rightarrow> 'e + 'b list" where
  "rmap f [] = Inr []"
| "rmap f (x # xs) = rbind (f x) (\<lambda>y. rbind (rmap f xs) (\<lambda>ys. Inr (y # ys)))"

definition rcheck_all :: "('a \<Rightarrow> 'e + unit) \<Rightarrow> 'a list \<Rightarrow> 'e + unit" where
  "rcheck_all f xs = rfold (\<lambda>x _. f x) xs ()"

lemma rbind_simps [simp]: "rbind (Inr x) f = f x" "rbind (Inl e) f = Inl e"
  by (simp_all add: rbind_def)

lemma rbind_Inr_iff: "rbind r f = Inr y \<longleftrightarrow> (\<exists>x. r = Inr x \<and> f x = Inr y)"
  by (cases r) auto

lemma rbind_Inl_iff: "rbind r f = Inl e \<longleftrightarrow> r = Inl e \<or> (\<exists>x. r = Inr x \<and> f x = Inl e)"
  by (cases r) auto

lemma throw_if_Inr [simp]: "throw_if b e = Inr u \<longleftrightarrow> \<not> b"
  by (simp add: throw_if_def)

lemma throw_if_Inl [simp]: "throw_if b e = Inl e' \<longleftrightarrow> b \<and> e' = e"
  by (auto simp: throw_if_def)

lemma rcheck_all_simps [simp]:
  "rcheck_all f [] = Inr ()" "rcheck_all f (x # xs) = rbind (f x) (\<lambda>_. rcheck_all f xs)"
proof -
  show "rcheck_all f [] = Inr ()" by (simp add: rcheck_all_def)
  have "rfold (\<lambda>x _. f x) xs u = rcheck_all f xs" for u by (simp add: rcheck_all_def)
  then show "rcheck_all f (x # xs) = rbind (f x) (\<lambda>_. rcheck_all f xs)"
    unfolding rcheck_all_def rfold.simps by (simp add: rbind_def)
qed

lemma rcheck_all_Inr: "rcheck_all f xs = Inr u \<longleftrightarrow> (\<forall>x \<in> set xs. f x = Inr ())"
  by (induction xs) (auto simp: rbind_Inr_iff)

lemma rcheck_all_Inl: "rcheck_all f xs = Inl e \<Longrightarrow> \<exists>x \<in> set xs. f x = Inl e"
  by (induction xs) (auto simp: rbind_Inl_iff)

text \<open>A fold that keeps an invariant keeps it to the end.\<close>

text \<open>A loop that stops at the first element with an error, when an element's error does not depend on the state.\<close>

lemma rfold_first_error:
  assumes "I s" and "\<And>x s. x \<in> set xs \<Longrightarrow> I s \<Longrightarrow> (case err x of Some e \<Rightarrow> f x s = Inl e | None \<Rightarrow> \<exists>s'. f x s = Inr s' \<and> I s')"
  shows "case List.map_filter err xs of [] \<Rightarrow> \<exists>s'. rfold f xs s = Inr s' \<and> I s' | e # es \<Rightarrow> rfold f xs s = Inl e"
  using assms
proof (induction xs arbitrary: s)
  case Nil
  then show ?case by (simp add: List.map_filter_simps)
next
  case (Cons x xs)
  show ?case
  proof (cases "err x")
    case None
    then obtain t where t: "f x s = Inr t" "I t" using Cons.prems(2) [of x s] Cons.prems(1) by auto
    have "case List.map_filter err xs of [] \<Rightarrow> \<exists>s'. rfold f xs t = Inr s' \<and> I s' | e # es \<Rightarrow> rfold f xs t = Inl e"
      using Cons.prems(2) by (intro Cons.IH [OF t(2)]) simp
    then show ?thesis using t None by (simp add: List.map_filter_simps split: list.splits)
  next
    case (Some e)
    then show ?thesis using Cons.prems(2) [of x s] Cons.prems(1) by (simp add: List.map_filter_simps)
  qed
qed

lemma rfold_invariant:
  assumes "rfold f xs s = Inr s'" "I s"
    and "\<And>x s t. x \<in> set xs \<Longrightarrow> I s \<Longrightarrow> f x s = Inr t \<Longrightarrow> I t"
  shows "I s'"
  using assms by (induction xs arbitrary: s) (auto simp: rbind_Inr_iff)

section \<open>Lists\<close>


lemma map_nth_self [simp]: "map (\<lambda>i. xs ! i) [0..<length xs] = xs"
  by (rule map_nth)

lemma list_all_map_iff: "list_all P (map f xs) \<longleftrightarrow> list_all (\<lambda>x. P (f x)) xs"
  by (induction xs) auto

end
