(* ===== verification/Values.thy ===== *)
theory Values
  imports Prelude
begin

text \<open>
  The values a frame carries: \<open>double\<close>, the JSON \<open>Variant\<close> of
  \<open>include/pine/pine.hpp\<close> and \<open>src/config/json.cpp\<close>, the sorted-vector
  \<open>FlatMap\<close> of \<open>include/pine/flat_map.hpp\<close>, the error classes of
  \<open>pine.hpp\<close>, and the write-time value check of \<open>src/dataframe/frame_values.hpp\<close>.
\<close>

section \<open>IEEE doubles\<close>

text \<open>
  A finite double is a sign bit and a magnitude; the two zeros differ in the sign bit only.
  The type admits magnitudes of more than 53 bits; \<open>prec53\<close> singles out those a binary64
  significand can hold, and every theorem that depends on the precision assumes it.
\<close>

datatype double = DNaN | DInf bool | DFin bool rat

fun isfinite :: "double \<Rightarrow> bool" where
  "isfinite (DFin s q) = True"
| "isfinite d = False"

fun dval :: "double \<Rightarrow> rat" where
  "dval (DFin s q) = (if s then - q else q)"
| "dval d = 0"

fun d_lt :: "double \<Rightarrow> double \<Rightarrow> bool" where
  "d_lt DNaN b = False"
| "d_lt a DNaN = False"
| "d_lt (DInf s) (DInf t) = (s \<and> \<not> t)"
| "d_lt (DInf s) (DFin t q) = s"
| "d_lt (DFin s q) (DInf t) = (\<not> t)"
| "d_lt (DFin s q) (DFin t r) = (dval (DFin s q) < dval (DFin t r))"

definition dbl :: "int \<Rightarrow> double" where
  "dbl i = DFin (i < 0) (of_int \<bar>i\<bar>)"

definition is_integer :: "rat \<Rightarrow> bool" where
  "is_integer q \<longleftrightarrow> of_int \<lfloor>q\<rfloor> = q"

text \<open>\<open>static_cast\<close> of a finite double to an integer type: truncation towards zero.\<close>

fun dtrunc :: "double \<Rightarrow> int" where
  "dtrunc (DFin s q) = (if s then - \<lfloor>q\<rfloor> else \<lfloor>q\<rfloor>)"
| "dtrunc d = 0"

text \<open>
  \<open>static_cast\<close> of a double to a signed integer type with \<open>bits\<close> bits.  C++ leaves it undefined for a value
  that does not fit; this is what the conversion instructions of x86-64 give, the least integer.
\<close>

fun d_to_signed :: "nat \<Rightarrow> double \<Rightarrow> int" where
  "d_to_signed bits (DFin s q) =
     (let t = dtrunc (DFin s q) in if - (2 ^ (bits - 1)) \<le> t \<and> t < 2 ^ (bits - 1) then t else - (2 ^ (bits - 1)))"
| "d_to_signed bits d = - (2 ^ (bits - 1))"

definition d_to_int :: "double \<Rightarrow> int" where "d_to_int = d_to_signed 32"
definition d_to_int64 :: "double \<Rightarrow> int" where "d_to_int64 = d_to_signed 64"

text \<open>The value an \<open>int\<close> register holds after an operation whose exact result is \<open>x\<close>; undefined in C++ when it is not \<open>x\<close>.\<close>

definition int_wrap :: "int \<Rightarrow> int" where
  "int_wrap x = (x + 2 ^ 31) mod 2 ^ 32 - 2 ^ 31"

lemma int_wrap_small: "- (2 ^ 31) \<le> x \<Longrightarrow> x < 2 ^ 31 \<Longrightarrow> int_wrap x = x"
  by (simp add: int_wrap_def)

fun bit_len :: "nat \<Rightarrow> nat" where
  "bit_len n = (if n = 0 then 0 else Suc (bit_len (n div 2)))"

declare bit_len.simps [simp del]

lemma bit_len_bounds: "0 < n \<Longrightarrow> 2 ^ (bit_len n - 1) \<le> n \<and> n < 2 ^ bit_len n \<and> 0 < bit_len n"
proof (induction n rule: bit_len.induct)
  case (1 n)
  show ?case
  proof (cases "n div 2 = 0")
    case True
    then have "n = 1" using 1(2) by simp
    then show ?thesis by (simp add: bit_len.simps)
  next
    case False
    then have ih: "2 ^ (bit_len (n div 2) - 1) \<le> n div 2" "n div 2 < 2 ^ bit_len (n div 2)" "0 < bit_len (n div 2)"
      using 1 by simp_all
    have "bit_len n = Suc (bit_len (n div 2))" using 1(2) by (simp add: bit_len.simps [of n])
    moreover have "(2 :: nat) ^ bit_len (n div 2) = 2 * 2 ^ (bit_len (n div 2) - 1)" using ih(3) by (simp flip: power_Suc)
    moreover have "2 * t \<le> n \<and> n < 2 * (2 * t)" if "t \<le> n div 2" "n div 2 < 2 * t" for t
      using that by presburger
    ultimately show ?thesis using ih(1,2) by (metis diff_Suc_1 power_Suc zero_less_Suc)
  qed
qed

text \<open>
  \<open>static_cast<double>(int64_t)\<close>: round to nearest, ties to even, at 53 significant bits.
\<close>

definition round53 :: "nat \<Rightarrow> nat" where
  "round53 n =
     (if n < 2 ^ 53 then n
      else let e = bit_len n - 53; q = n div 2 ^ e; r = n mod 2 ^ e; half = 2 ^ (e - 1)
           in (if half < r \<or> r = half \<and> odd q then Suc q else q) * 2 ^ e)"

definition double_of_int :: "int \<Rightarrow> double" where
  "double_of_int i = DFin (i < 0) (of_nat (round53 (nat \<bar>i\<bar>)))"

fun prec53 :: "double \<Rightarrow> bool" where
  "prec53 (DFin s q) =
     (\<exists>m k. m < 2 ^ 53 \<and> (q = of_nat m * 2 ^ k \<or> q = of_nat m / 2 ^ k))"
| "prec53 d = True"

lemma prec53I: "m < 9007199254740992 \<Longrightarrow> q = of_nat m / 2 ^ k \<Longrightarrow> prec53 (DFin s q)"
proof -
  assume "m < 9007199254740992" "q = of_nat m / 2 ^ k"
  then have "m < 2 ^ 53 \<and> (q = of_nat m * 2 ^ k \<or> q = of_nat m / 2 ^ k)" by simp
  then show "prec53 (DFin s q)" unfolding prec53.simps by blast
qed

lemma prec53_numeral [simp]: "numeral k < (9007199254740992 :: nat) \<Longrightarrow> prec53 (DFin s (numeral k))"
  by (rule prec53I [where m = "numeral k" and k = 0]) simp_all

lemma prec53_small [simp]: "prec53 (DFin s 0)" "prec53 (DFin s 1)" "prec53 (DFin s (1 / 2))"
  by (rule prec53I [where m = 0 and k = 0] prec53I [where m = 1 and k = 0] prec53I [where m = 1 and k = 1];
      simp; fail)+

section \<open>FlatMap, std::map\<close>

text \<open>
  A \<open>FlatMap<V>\<close> is its vector \<open>entries_\<close> of key-value pairs, kept sorted by key
  (\<open>std::string\<close> order is the lexicographic order on unsigned bytes, which is the
  order of \<open>List_Lexorder\<close> over \<open>Char_ord\<close>).  A \<open>std::map\<close> with string keys is
  modelled by the same sorted vector: the code only observes its contents in key order.
\<close>

type_synonym 'v flat_map = "(string \<times> 'v) list"

definition fm_lower_bound :: "'v flat_map \<Rightarrow> string \<Rightarrow> nat" where
  "fm_lower_bound es key = length (takeWhile (\<lambda>e. fst e < key) es)"

definition fm_hit :: "'v flat_map \<Rightarrow> string \<Rightarrow> bool" where
  "fm_hit es key =
     (let it = fm_lower_bound es key in it < length es \<and> fst (es ! it) = key)"

definition fm_find :: "'v flat_map \<Rightarrow> string \<Rightarrow> 'v option" where
  "fm_find es key = (if fm_hit es key then Some (snd (es ! fm_lower_bound es key)) else None)"

text \<open>\<open>m[key] = value\<close>\<close>

definition fm_set :: "string \<Rightarrow> 'v \<Rightarrow> 'v flat_map \<Rightarrow> 'v flat_map" where
  "fm_set key v es =
     (let it = fm_lower_bound es key
      in if fm_hit es key then es[it := (key, v)]
         else take it es @ (key, v) # drop it es)"

definition fm_emplace :: "string \<Rightarrow> 'v \<Rightarrow> 'v flat_map \<Rightarrow> 'v flat_map \<times> bool" where
  "fm_emplace key v es =
     (let it = fm_lower_bound es key
      in if fm_hit es key then (es, False)
         else (take it es @ (key, v) # drop it es, True))"

definition fm_count :: "'v flat_map \<Rightarrow> string \<Rightarrow> nat" where
  "fm_count es key = (if fm_find es key \<noteq> None then 1 else 0)"

definition fm_erase :: "string \<Rightarrow> 'v flat_map \<Rightarrow> 'v flat_map \<times> nat" where
  "fm_erase key es =
     (let it = fm_lower_bound es key
      in if fm_hit es key then (take it es @ drop (Suc it) es, 1) else (es, 0))"

definition fm_of_range :: "(string \<times> 'v) list \<Rightarrow> 'v flat_map" where
  "fm_of_range es = sort_key fst es"

definition fm_ok :: "'v flat_map \<Rightarrow> bool" where
  "fm_ok es \<longleftrightarrow> sorted_wrt (<) (map fst es)"

section \<open>Variant\<close>

datatype variant =
    VNull
  | VBool bool
  | VNum double
  | VStr string
  | VArr "variant list"
  | VObj "(string \<times> variant) list"

type_synonym object = "variant flat_map"

definition is_null :: "variant \<Rightarrow> bool" where "is_null v \<longleftrightarrow> v = VNull"

fun is_bool :: "variant \<Rightarrow> bool" where "is_bool (VBool b) = True" | "is_bool v = False"
fun is_number :: "variant \<Rightarrow> bool" where "is_number (VNum d) = True" | "is_number v = False"
fun is_string :: "variant \<Rightarrow> bool" where "is_string (VStr s) = True" | "is_string v = False"
fun is_array :: "variant \<Rightarrow> bool" where "is_array (VArr a) = True" | "is_array v = False"
fun is_object :: "variant \<Rightarrow> bool" where "is_object (VObj a) = True" | "is_object v = False"

fun truthy :: "variant \<Rightarrow> bool" where
  "truthy VNull = False"
| "truthy (VBool b) = b"
| "truthy v = True"

section \<open>Errors\<close>

text \<open>
  The exception classes of \<open>pine.hpp\<close>, and \<open>StdException\<close> for an exception of the
  standard library (\<open>std::out_of_range\<close>, \<open>std::invalid_argument\<close>, \<open>std::bad_alloc\<close>).
\<close>

datatype error =
    Error string
  | ConfigError string
  | ValidationError string
  | RegistryError "string option" string
  | ExecutionError "string option" string
  | ContextError bool
  | CancelledError bool
  | PanicError string string
  | StdException string

definition context_msg :: "bool \<Rightarrow> string" where
  "context_msg deadline = (if deadline then ''context deadline exceeded'' else ''context canceled'')"

text \<open>
  An \<open>ExecutionError\<close> without an operator name (the single-string form) prints its message
  bare; the two-string form adds the prefix.
\<close>

fun what :: "error \<Rightarrow> string" where
  "what (Error m) = m"
| "what (ConfigError m) = ''pine: config error: '' @ m"
| "what (ValidationError m) = ''pine: validation error: '' @ m"
| "what (RegistryError None m) = ''pine: registry error: '' @ m"
| "what (RegistryError (Some op) m) = ''pine: registry error ['' @ op @ '']: '' @ m"
| "what (ExecutionError None inner) = inner"
| "what (ExecutionError (Some op) inner) =
     ''pine: execution error in operator '' @ quoted op @ '': '' @ inner"
| "what (ContextError dl) = context_msg dl"
| "what (CancelledError dl) = ''pine: execution cancelled: '' @ context_msg dl"
| "what (PanicError op v) = ''pine: panic in operator '' @ quoted op @ '': '' @ v"
| "what (StdException m) = m"

fun as_bool :: "variant \<Rightarrow> error + bool" where
  "as_bool (VBool b) = Inr b" | "as_bool v = Inl (ConfigError ''JSON value is not bool'')"
fun as_number :: "variant \<Rightarrow> error + double" where
  "as_number (VNum d) = Inr d" | "as_number v = Inl (ConfigError ''JSON value is not number'')"
fun as_string :: "variant \<Rightarrow> error + string" where
  "as_string (VStr s) = Inr s" | "as_string v = Inl (ConfigError ''JSON value is not string'')"
fun as_array :: "variant \<Rightarrow> error + variant list" where
  "as_array (VArr a) = Inr a" | "as_array v = Inl (ConfigError ''JSON value is not array'')"
fun as_object :: "variant \<Rightarrow> error + object" where
  "as_object (VObj ob) = Inr ob" | "as_object v = Inl (ConfigError ''JSON value is not object'')"

section \<open>The write-time value check\<close>

definition k_max_composite_scan_depth :: nat where
  "k_max_composite_scan_depth = 1000"

fun contains_non_finite :: "variant \<Rightarrow> nat \<Rightarrow> bool" where
  "contains_non_finite (VNum d) depth = (\<not> isfinite d)"
| "contains_non_finite (VArr xs) depth =
     (if depth \<ge> k_max_composite_scan_depth then False
      else list_ex (\<lambda>e. contains_non_finite e (depth + 1)) xs)"
| "contains_non_finite (VObj kvs) depth =
     (if depth \<ge> k_max_composite_scan_depth then False
      else list_ex (\<lambda>kv. contains_non_finite (snd kv) (depth + 1)) kvs)"
| "contains_non_finite v depth = False"

definition validate_frame_value :: "string \<Rightarrow> variant \<Rightarrow> string" where
  "validate_frame_value field v =
     (if contains_non_finite v 0
      then ''field '' @ quoted field @ '': NaN/Inf is not a valid JSON value'' else [])"

section \<open>Laws of the map types\<close>

text \<open>
  What the frames rely on of a string-keyed container, whichever it is: \<open>FlatMap\<close> and
  \<open>std::map\<close> (sorted), or \<open>std::unordered_map\<close> (the columns of a store).
\<close>

locale string_map =
  fixes invar :: "'m \<Rightarrow> bool"
    and empty_map :: 'm
    and lookup :: "'m \<Rightarrow> string \<Rightarrow> 'v option"
    and put :: "string \<Rightarrow> 'v \<Rightarrow> 'm \<Rightarrow> 'm"
  assumes invar_empty: "invar empty_map"
    and lookup_empty: "lookup empty_map k = None"
    and invar_put: "invar m \<Longrightarrow> invar (put k v m)"
    and lookup_put: "invar m \<Longrightarrow> lookup (put k v m) = (lookup m)(k \<mapsto> v)"
begin

lemma invar_puts: "invar m \<Longrightarrow> invar (fold (\<lambda>(k, v). put k v) kvs m)"
  by (induction kvs arbitrary: m) (auto intro: invar_put)

lemma lookup_puts:
  "invar m \<Longrightarrow> lookup (fold (\<lambda>(k, v). put k v) kvs m) = lookup m ++ map_of (rev kvs)"
proof (induction kvs arbitrary: m)
  case (Cons kv kvs)
  obtain k v where kv: "kv = (k, v)" by force
  show ?case
    using Cons.IH [OF invar_put [OF Cons.prems]] Cons.prems
    by (simp add: kv lookup_put map_add_upd_left map_add_def fun_eq_iff split: option.split)
qed simp

end

lemma fm_split:
  "takeWhile (\<lambda>e. fst e < key) es @ dropWhile (\<lambda>e. fst e < key) es = es"
  by (rule takeWhile_dropWhile_id)

lemma fm_hit_iff:
  "fm_hit es key \<longleftrightarrow>
     (\<exists>v rest. dropWhile (\<lambda>e. fst e < key) es = (key, v) # rest)"
proof -
  let ?i = "fm_lower_bound es key" and ?d = "dropWhile (\<lambda>e. fst e < key) es"
  have d: "?d = drop ?i es"
    unfolding fm_lower_bound_def by (rule dropWhile_eq_drop)
  show ?thesis
  proof (cases "?i < length es")
    case True
    then have "?d = es ! ?i # drop (Suc ?i) es" by (simp add: d Cons_nth_drop_Suc)
    then show ?thesis using True by (auto simp: fm_hit_def Let_def) (metis prod.collapse)
  next
    case False
    then show ?thesis by (simp add: fm_hit_def Let_def d)
  qed
qed

lemma fm_okD:
  assumes "fm_ok es"
  shows "\<forall>e \<in> set (takeWhile (\<lambda>e. fst e < key) es). fst e < key"
    and "dropWhile (\<lambda>e. fst e < key) es = (k, v) # rest \<Longrightarrow> \<forall>e \<in> set rest. k < fst e"
    and "dropWhile (\<lambda>e. fst e < key) es = (k, v) # rest \<Longrightarrow> key \<le> k"
proof -
  show "\<forall>e \<in> set (takeWhile (\<lambda>e. fst e < key) es). fst e < key"
    by (auto dest: set_takeWhileD)
  assume d: "dropWhile (\<lambda>e. fst e < key) es = (k, v) # rest"
  from d have "\<not> fst (k, v) < key" by (metis hd_dropWhile list.discI list.sel(1))
  then show "key \<le> k" by simp
  have "es = takeWhile (\<lambda>e. fst e < key) es @ (k, v) # rest" using fm_split [of key es] d by simp
  with assms have "sorted_wrt (<) (map fst (takeWhile (\<lambda>e. fst e < key) es @ (k, v) # rest))"
    unfolding fm_ok_def by metis
  then show "\<forall>e \<in> set rest. k < fst e" by (simp add: sorted_wrt_append)
qed

lemma fm_set_split:
  "fm_set key v es =
     takeWhile (\<lambda>e. fst e < key) es @ (key, v) #
     (if fm_hit es key then tl (dropWhile (\<lambda>e. fst e < key) es)
      else dropWhile (\<lambda>e. fst e < key) es)"
proof -
  let ?t = "takeWhile (\<lambda>e. fst e < key) es" and ?d = "dropWhile (\<lambda>e. fst e < key) es"
  have t: "take (length ?t) es = ?t" by (metis append_eq_conv_conj fm_split)
  have d: "drop (length ?t) es = ?d" by (metis dropWhile_eq_drop)
  show ?thesis
  proof (cases "fm_hit es key")
    case True
    then obtain w rest where w: "?d = (key, w) # rest" by (auto simp: fm_hit_iff)
    have "es[length ?t := (key, v)] = (?t @ ?d)[length ?t := (key, v)]"
      by (simp add: fm_split)
    also have "\<dots> = ?t @ (key, v) # rest" by (simp add: w list_update_append)
    finally show ?thesis using True w by (simp add: fm_set_def fm_lower_bound_def Let_def)
  next
    case False
    then show ?thesis by (simp add: fm_set_def fm_lower_bound_def Let_def t d)
  qed
qed

lemma fm_parts:
  assumes "fm_ok es"
  obtains (hit) t w d where "es = t @ (key, w) # d" "fm_ok t" "fm_ok d"
      "\<forall>e \<in> set t. fst e < key" "\<forall>e \<in> set d. key < fst e"
      "fm_find es key = Some w" "\<And>v. fm_set key v es = t @ (key, v) # d"
    | (miss) t d where "es = t @ d" "fm_ok t" "fm_ok d"
      "\<forall>e \<in> set t. fst e < key" "\<forall>e \<in> set d. key < fst e"
      "fm_find es key = None" "\<And>v. fm_set key v es = t @ (key, v) # d"
proof -
  define t where "t = takeWhile (\<lambda>e. fst e < key) es"
  define d where "d = dropWhile (\<lambda>e. fst e < key) es"
  have es: "es = t @ d" by (simp add: t_def d_def)
  have oks: "fm_ok t" "fm_ok d" using assms by (auto simp: es fm_ok_def sorted_wrt_append)
  have lt: "\<forall>e \<in> set t. fst e < key"
    unfolding t_def by (rule fm_okD(1) [OF assms])
  have set_eq: "fm_set key v es = t @ (key, v) # (if fm_hit es key then tl d else d)" for v
    unfolding t_def d_def by (rule fm_set_split)
  have find_eq: "fm_find es key = (if fm_hit es key then Some (snd (es ! length t)) else None)"
    by (simp add: fm_find_def fm_lower_bound_def t_def)
  show thesis
  proof (cases "fm_hit es key")
    case True
    then obtain w rest where w: "d = (key, w) # rest" by (auto simp: fm_hit_iff d_def)
    have rest: "\<forall>e \<in> set rest. key < fst e"
      using fm_okD(2) [OF assms w [unfolded d_def]] .
    show thesis
    proof (rule hit [of t w rest])
      show "fm_ok rest" using oks(2) by (simp add: w fm_ok_def)
      show "fm_find es key = Some w" using True by (simp only: find_eq if_True) (simp add: es w)
    qed (use es oks lt rest set_eq True w in simp_all)
  next
    case False
    have gt: "\<forall>e \<in> set d. key < fst e"
    proof (cases d)
      case (Cons kv rest)
      obtain k w where kv: "kv = (k, w)" by force
      note d' = Cons [unfolded kv d_def]
      from False d' have "key \<noteq> k" by (auto simp: fm_hit_iff)
      then show ?thesis
        using fm_okD(2,3) [OF assms d'] by (auto simp: Cons kv)
    qed simp
    show thesis
      by (rule miss [of t d]) (use es oks lt gt set_eq find_eq False in simp_all)
  qed
qed

lemma map_of_less_None: "\<forall>e \<in> set t. fst e < (key :: string) \<Longrightarrow> map_of t key = None"
  and map_of_greater_None: "\<forall>e \<in> set t. key < fst e \<Longrightarrow> map_of t key = None"
  by (force simp: map_of_eq_None_iff)+

lemma fm_find_map_of:
  assumes "fm_ok es"
  shows "fm_find es key = map_of es key"
  using assms
  by (cases rule: fm_parts [of es key])
    (auto simp: map_add_def map_of_less_None map_of_greater_None)

lemma fm_ok_mid:
  "fm_ok t \<Longrightarrow> fm_ok d \<Longrightarrow> \<forall>e \<in> set t. fst e < key \<Longrightarrow> \<forall>e \<in> set d. key < fst e \<Longrightarrow>
   fm_ok (t @ (key, v) # d)"
  by (auto simp: fm_ok_def sorted_wrt_append dest!: bspec intro: order_less_trans [of _ key])

lemma fm_ok_fm_set [inv_intros]:
  assumes "fm_ok es"
  shows "fm_ok (fm_set key v es)"
  using assms by (cases rule: fm_parts [of es key]) (simp_all add: fm_ok_mid)

lemma fm_emplace_set: "fm_find es key = None \<Longrightarrow> fst (fm_emplace key v es) = fm_set key v es"
  by (simp add: fm_emplace_def fm_set_def fm_find_def Let_def split: if_splits)

lemma map_of_fm_set:
  assumes "fm_ok es"
  shows "map_of (fm_set key v es) = (map_of es)(key \<mapsto> v)"
  using assms
proof (cases rule: fm_parts [of es key])
  case (hit t w d)
  then show ?thesis
    by (auto simp: fun_eq_iff map_add_def map_of_less_None split: option.split)
next
  case (miss t d)
  then show ?thesis
    by (auto simp: fun_eq_iff map_add_def map_of_less_None map_of_greater_None split: option.split)
qed

lemma fm_ok_Nil [simp]: "fm_ok []"
  by (simp add: fm_ok_def)

lemma fm_ok_distinct: "fm_ok es \<Longrightarrow> distinct (map fst es)"
  by (auto simp: fm_ok_def strict_sorted_iff)

interpretation fm: string_map fm_ok "[]" fm_find fm_set
proof unfold_locales
  show "fm_ok []" by simp
  show "fm_find [] k = None" for k by (simp add: fm_find_def fm_hit_def Let_def)
  show "fm_ok m \<Longrightarrow> fm_ok (fm_set k v m)" for m :: "'a flat_map" and k v by (rule fm_ok_fm_set)
  show "fm_ok m \<Longrightarrow> fm_find (fm_set k v m) = (fm_find m)(k \<mapsto> v)" for m :: "'a flat_map" and k v
    by (simp add: fun_eq_iff fm_find_map_of fm_ok_fm_set map_of_fm_set)
qed

text \<open>
  \<open>std::unordered_map\<close>: an association list with one entry per key, whose order stands for
  the unspecified iteration order.
\<close>

type_synonym 'v unordered_map = "(string \<times> 'v) list"

fun um_set :: "string \<Rightarrow> 'v \<Rightarrow> 'v unordered_map \<Rightarrow> 'v unordered_map" where
  "um_set k v [] = [(k, v)]"
| "um_set k v ((k', w) # m) = (if k = k' then (k, v) # m else (k', w) # um_set k v m)"

definition um_ok :: "'v unordered_map \<Rightarrow> bool" where
  "um_ok m \<longleftrightarrow> distinct (map fst m)"

lemma map_of_um_set [simp]: "map_of (um_set k v m) = (map_of m)(k \<mapsto> v)"
  by (induction k v m rule: um_set.induct) auto

lemma keys_um_set [simp]: "fst ` set (um_set k v m) = insert k (fst ` set m)"
  by (induction k v m rule: um_set.induct) auto

lemma um_ok_um_set [inv_intros]: "um_ok m \<Longrightarrow> um_ok (um_set k v m)"
  unfolding um_ok_def
proof (induction k v m rule: um_set.induct)
  case (2 k v k' w m)
  have "fst ` set (um_set k v m) = insert k (fst ` set m)" by simp
  with 2 show ?case by (auto simp flip: set_map)
qed simp

interpretation um: string_map um_ok "[]" map_of um_set
  by unfold_locales (auto simp: um_ok_def intro: um_ok_um_set [unfolded um_ok_def])

end
