(* ===== verification/Output.thy ===== *)
theory Output
  imports Values
begin

text \<open>
  \<open>OperatorOutput\<close> (\<open>include/pine/pine.hpp\<close>, \<open>src/runtime/engine.cpp\<close>): the write log an
  operator fills and the frame replays.  \<open>removed_items_\<close> is a \<open>std::set<int>\<close>, kept as its
  ascending list.
\<close>

type_synonym item_write = "int \<times> string \<times> variant"
type_synonym double_column_write = "string \<times> double list"

record operator_output =
  common_writes :: object
  item_writes :: "item_write list"
  column_writes :: "double_column_write list"
  added_items :: "object list"
  removed_items :: "int list"
  item_order :: "int list"
  has_item_order :: bool
  warning :: string
  has_warning :: bool

definition empty_output :: operator_output where
  "empty_output = \<lparr>common_writes = [], item_writes = [], column_writes = [], added_items = [],
     removed_items = [], item_order = [], has_item_order = False, warning = [], has_warning = False\<rparr>"

definition set_common :: "string \<Rightarrow> variant \<Rightarrow> operator_output \<Rightarrow> operator_output" where
  "set_common field v out = out\<lparr>common_writes := fm_set field v (common_writes out)\<rparr>"

definition set_item :: "int \<Rightarrow> string \<Rightarrow> variant \<Rightarrow> operator_output \<Rightarrow> operator_output" where
  "set_item index field v out = out\<lparr>item_writes := item_writes out @ [(index, field, v)]\<rparr>"

definition set_item_column_double ::
  "string \<Rightarrow> double list \<Rightarrow> operator_output \<Rightarrow> operator_output" where
  "set_item_column_double field vals out =
     out\<lparr>column_writes := column_writes out @ [(field, vals)]\<rparr>"

definition add_item :: "object \<Rightarrow> operator_output \<Rightarrow> operator_output" where
  "add_item row out = out\<lparr>added_items := added_items out @ [row]\<rparr>"

definition remove_item :: "int \<Rightarrow> operator_output \<Rightarrow> operator_output" where
  "remove_item index out = out\<lparr>removed_items := List.insort_insert index (removed_items out)\<rparr>"

definition set_item_order :: "int list \<Rightarrow> operator_output \<Rightarrow> operator_output" where
  "set_item_order order out = out\<lparr>item_order := order, has_item_order := True\<rparr>"

definition set_warning :: "string \<Rightarrow> operator_output \<Rightarrow> operator_output" where
  "set_warning msg out =
     (if \<not> has_warning out then out\<lparr>warning := msg, has_warning := True\<rparr> else out)"

text \<open>
  \<open>reset()\<close> empties every container (whether its storage is kept or released is not visible)
  and clears the two flags.
\<close>

definition reset :: "operator_output \<Rightarrow> operator_output" where
  "reset out = out\<lparr>item_writes := [], added_items := [], column_writes := [], item_order := [],
     common_writes := [], warning := [], removed_items := [], has_item_order := False,
     has_warning := False\<rparr>"

definition output_ok :: "operator_output \<Rightarrow> bool" where
  "output_ok out \<longleftrightarrow>
     fm_ok (common_writes out) \<and> list_all fm_ok (added_items out) \<and>
     sorted_wrt (<) (removed_items out) \<and> (\<not> has_item_order out \<longrightarrow> item_order out = [])"

lemma insort_insert_strict:
  "sorted_wrt (<) (xs :: int list) \<Longrightarrow> sorted_wrt (<) (List.insort_insert x xs)"
  by (metis distinct_insort_insert sorted_insort_insert strict_sorted_iff)

lemma output_ok_empty [inv_intros]: "output_ok empty_output"
  and output_ok_set_common [inv_intros]: "output_ok out \<Longrightarrow> output_ok (set_common f v out)"
  and output_ok_set_item [inv_intros]: "output_ok out \<Longrightarrow> output_ok (set_item i f v out)"
  and output_ok_set_column [inv_intros]: "output_ok out \<Longrightarrow> output_ok (set_item_column_double f vs out)"
  and output_ok_add_item [inv_intros]: "output_ok out \<Longrightarrow> fm_ok row \<Longrightarrow> output_ok (add_item row out)"
  and output_ok_remove_item [inv_intros]: "output_ok out \<Longrightarrow> output_ok (remove_item i out)"
  and output_ok_set_item_order [inv_intros]: "output_ok out \<Longrightarrow> output_ok (set_item_order order out)"
  and output_ok_set_warning [inv_intros]: "output_ok out \<Longrightarrow> output_ok (set_warning msg out)"
  by (auto simp: output_ok_def empty_output_def set_common_def set_item_def
      set_item_column_double_def add_item_def remove_item_def set_item_order_def set_warning_def
      intro: fm_ok_fm_set insort_insert_strict)

text \<open>
  The per-thread buffer can be reused: whatever an operator left in it, after
  \<open>reset()\<close> it is indistinguishable from a freshly constructed output, so no write, removal,
  order or warning of one operator can leak into the next.
\<close>

theorem reset_is_empty_output: "reset out = empty_output"
  by (simp add: reset_def empty_output_def)

end
