(* ===== verification/Frame_Spec.thy ===== *)
theory Frame_Spec
  imports Output
begin

text \<open>
  What a \<open>Frame\<close> (\<open>include/pine/frame.hpp\<close>) promises, independently of its storage: a frame
  is a map of common fields, a list of rows, each a map from field names to values, and the
  warnings pushed so far.  A row value is kept up to the sign of a floating-point zero (an
  integer column stores zero unsigned).  The locale \<open>frame_contract\<close> states the contract that
  \<open>RowFrame\<close> and \<open>ColumnFrame\<close> both interpret.
\<close>

section \<open>Abstract frames\<close>

fun unsign_zero :: "variant \<Rightarrow> variant" where
  "unsign_zero (VNum (DFin s q)) = VNum (if q = 0 then DFin False 0 else DFin s q)"
| "unsign_zero v = v"

lemma unsign_zero_eq_null: "unsign_zero v = VNull \<longleftrightarrow> v = VNull"
  by (cases v rule: unsign_zero.cases) auto

definition unsign_row :: "(string \<rightharpoonup> variant) \<Rightarrow> (string \<rightharpoonup> variant)" where
  "unsign_row r = (\<lambda>f. map_option unsign_zero (r f))"

record aframe =
  a_common :: "string \<rightharpoonup> variant"
  a_rows :: "(string \<rightharpoonup> variant) list"
  a_warnings :: "string list"

text \<open>The response a frame renders, and the reads both frames share.\<close>

record result =
  res_common :: object
  res_items :: "object list"

definition value_or_null :: "variant option \<Rightarrow> variant" where
  "value_or_null ov = (case ov of None \<Rightarrow> VNull | Some v \<Rightarrow> v)"

definition project :: "object \<Rightarrow> string list \<Rightarrow> object" where
  "project src fs =
     fold (\<lambda>field out. case fm_find src field of None \<Rightarrow> out | Some v \<Rightarrow> fm_set field v out) fs []"

fun add_seen :: "string list \<Rightarrow> string list \<Rightarrow> string list" where
  "add_seen [] out = out"
| "add_seen (k # ks) out = add_seen ks (if k \<in> set out then out else out @ [k])"

text \<open>A number as a double can hold it: an integer of at most 53 significant bits, or a fraction.\<close>

fun num_ok :: "variant \<Rightarrow> bool" where
  "num_ok (VNum d) = prec53 d"
| "num_ok v = True"

section \<open>The checks of apply\_output\<close>

text \<open>
  The error values of \<open>apply_output\<close>; both frames spell the messages identically.  \<open>n\<close> is
  the number of items at the time of the check.
\<close>

definition range_msg :: "string \<Rightarrow> int \<Rightarrow> nat \<Rightarrow> string" where
  "range_msg who idx n =
     who @ '' index '' @ string_of_int idx @ '' out of range [0, '' @ string_of_nat n @ '')''"

definition length_msg :: "string \<Rightarrow> nat \<Rightarrow> nat \<Rightarrow> string" where
  "length_msg who len n =
     who @ '' length '' @ string_of_nat len @ '' does not match item count '' @ string_of_nat n"

definition in_range :: "int \<Rightarrow> nat \<Rightarrow> bool" where
  "in_range idx n \<longleftrightarrow> \<not> (idx < 0 \<or> nat idx \<ge> n)"

definition exec_error :: "string \<Rightarrow> string \<Rightarrow> error" where
  "exec_error op msg = ExecutionError (Some op) msg"

definition check_common_write :: "string \<Rightarrow> string \<times> variant \<Rightarrow> error option" where
  "check_common_write op w =
     (let v = validate_frame_value (fst w) (snd w)
      in if v \<noteq> [] then Some (exec_error op (''common write: '' @ v)) else None)"

definition check_item_write :: "string \<Rightarrow> nat \<Rightarrow> item_write \<Rightarrow> error option" where
  "check_item_write op n w =
     (case w of (idx, field, value) \<Rightarrow>
        if \<not> in_range idx n then Some (exec_error op (range_msg ''SetItem'' idx n))
        else let v = validate_frame_value field value
             in if v \<noteq> []
                then Some (exec_error op (''item['' @ string_of_int idx @ ''] write: '' @ v))
                else None)"

fun first_non_finite :: "nat \<Rightarrow> double list \<Rightarrow> nat option" where
  "first_non_finite i [] = None"
| "first_non_finite i (d # ds) = (if isfinite d then first_non_finite (Suc i) ds else Some i)"

definition check_column_write :: "string \<Rightarrow> nat \<Rightarrow> double_column_write \<Rightarrow> error option" where
  "check_column_write op n w =
     (case w of (field, vals) \<Rightarrow>
        if length vals \<noteq> n
        then Some (exec_error op (length_msg (''SetItemColumnFloat64 '' @ quoted field) (length vals) n))
        else (case first_non_finite 0 vals of
                Some i \<Rightarrow> Some (exec_error op (''item['' @ string_of_nat i @ ''] write: field '' @
                            quoted field @ '': NaN/Inf is not a valid JSON value''))
              | None \<Rightarrow> None))"

fun check_removed :: "string \<Rightarrow> nat \<Rightarrow> int list \<Rightarrow> error option" where
  "check_removed op n [] = None"
| "check_removed op n (idx # rest) =
     (if \<not> in_range idx n then Some (exec_error op (range_msg ''RemoveItem'' idx n))
      else check_removed op n rest)"

fun check_order :: "string \<Rightarrow> nat \<Rightarrow> bool list \<Rightarrow> int list \<Rightarrow> error option" where
  "check_order op n seen [] = None"
| "check_order op n seen (idx # rest) =
     (if \<not> in_range idx n then Some (exec_error op (range_msg ''SetItemOrder'' idx n))
      else if seen ! nat idx
      then Some (exec_error op (''SetItemOrder duplicate index '' @ string_of_int idx @
                 '' (order must be a permutation)''))
      else check_order op n (seen[nat idx := True]) rest)"

definition check_item_order :: "string \<Rightarrow> nat \<Rightarrow> int list \<Rightarrow> error option" where
  "check_item_order op n order =
     (if length order \<noteq> n then Some (exec_error op (length_msg ''SetItemOrder'' (length order) n))
      else check_order op n (replicate n False) order)"

fun check_added :: "string \<Rightarrow> object \<Rightarrow> error option" where
  "check_added op [] = None"
| "check_added op ((field, value) # rest) =
     (let v = validate_frame_value field value
      in if v \<noteq> [] then Some (exec_error op (''added item write: '' @ v)) else check_added op rest)"

definition frame_warning :: "string \<Rightarrow> operator_output \<Rightarrow> string list" where
  "frame_warning op out =
     (if has_warning out then [''operator '' @ quoted op @ '': '' @ warning out] else [])"

section \<open>The abstract apply\_output\<close>

definition check_then :: "error option \<Rightarrow> ('s \<Rightarrow> 's) \<Rightarrow> 's \<Rightarrow> ('s, error) outcome" where
  "check_then e f s = (case e of None \<Rightarrow> (f s, None) | Some err \<Rightarrow> (s, Some err))"

definition kept_indices :: "nat \<Rightarrow> int list \<Rightarrow> nat list" where
  "kept_indices n removed = filter (\<lambda>i. int i \<notin> set removed) [0..<n]"

definition af_common_write :: "string \<Rightarrow> string \<times> variant \<Rightarrow> aframe \<Rightarrow> (aframe, error) outcome" where
  "af_common_write op w a =
     check_then (check_common_write op w)
       (\<lambda>a. a\<lparr>a_common := (a_common a)(fst w \<mapsto> snd w)\<rparr>) a"

definition af_item_write :: "string \<Rightarrow> item_write \<Rightarrow> aframe \<Rightarrow> (aframe, error) outcome" where
  "af_item_write op w a =
     check_then (check_item_write op (length (a_rows a)) w)
       (\<lambda>a. case w of (idx, field, value) \<Rightarrow>
          a\<lparr>a_rows := (a_rows a)[nat idx := (a_rows a ! nat idx)(field \<mapsto> unsign_zero value)]\<rparr>) a"

definition af_column_write ::
  "string \<Rightarrow> double_column_write \<Rightarrow> aframe \<Rightarrow> (aframe, error) outcome" where
  "af_column_write op w a =
     check_then (check_column_write op (length (a_rows a)) w)
       (\<lambda>a. a\<lparr>a_rows := map2 (\<lambda>r d. r(fst w \<mapsto> unsign_zero (VNum d))) (a_rows a) (snd w)\<rparr>) a"

definition af_removals :: "string \<Rightarrow> int list \<Rightarrow> aframe \<Rightarrow> (aframe, error) outcome" where
  "af_removals op removed a =
     check_then (check_removed op (length (a_rows a)) removed)
       (\<lambda>a. a\<lparr>a_rows := map ((!) (a_rows a)) (kept_indices (length (a_rows a)) removed)\<rparr>) a"

definition af_reorder :: "string \<Rightarrow> operator_output \<Rightarrow> aframe \<Rightarrow> (aframe, error) outcome" where
  "af_reorder op out a =
     (if has_item_order out
      then check_then (check_item_order op (length (a_rows a)) (item_order out))
             (\<lambda>a. a\<lparr>a_rows := map (\<lambda>i. a_rows a ! nat i) (item_order out)\<rparr>) a
      else (a, None))"

definition added_row :: "string \<Rightarrow> bool \<Rightarrow> object \<Rightarrow> (string \<rightharpoonup> variant)" where
  "added_row op is_recall row =
     (let r = unsign_row (map_of row)
      in if is_recall then r(''_source'' \<mapsto> VStr op) else r)"

definition af_added ::
  "string \<Rightarrow> bool \<Rightarrow> object \<Rightarrow> aframe \<Rightarrow> (aframe, error) outcome" where
  "af_added op is_recall row a =
     check_then (check_added op row)
       (\<lambda>a. a\<lparr>a_rows := a_rows a @ [added_row op is_recall row]\<rparr>) a"

text \<open>
  Common writes, item writes, whole-column writes, removals, reorder, additions, warning.
\<close>

definition af_apply_output ::
  "operator_output \<Rightarrow> string \<Rightarrow> bool \<Rightarrow> aframe \<Rightarrow> (aframe, error) outcome" where
  "af_apply_output out op is_recall a =
     and_then (for_each (af_common_write op) (common_writes out) a) (\<lambda>a.
     and_then (for_each (af_item_write op) (item_writes out) a) (\<lambda>a.
     and_then (for_each (af_column_write op) (column_writes out) a) (\<lambda>a.
     and_then (af_removals op (removed_items out) a) (\<lambda>a.
     and_then (af_reorder op out a) (\<lambda>a.
     and_then (for_each (af_added op is_recall) (added_items out) a) (\<lambda>a.
     (a\<lparr>a_warnings := a_warnings a @ frame_warning op out\<rparr>, None)))))))"

section \<open>The contract\<close>

text \<open>Every number an output writes into the frame is one a double can hold.\<close>

definition output_num_ok :: "operator_output \<Rightarrow> bool" where
  "output_num_ok out \<longleftrightarrow>
     list_all (\<lambda>w. num_ok (snd (snd w))) (item_writes out) \<and>
     list_all (list_all (\<lambda>w. num_ok (snd w))) (added_items out)"

type_synonym frame_step = "operator_output \<times> string \<times> bool"

definition step_ok :: "frame_step \<Rightarrow> bool" where
  "step_ok st \<longleftrightarrow> output_ok (fst st) \<and> output_num_ok (fst st)"

text \<open>A run of operators: their outputs are applied in order until one is refused.\<close>

fun apply_all ::
  "(operator_output \<Rightarrow> string \<Rightarrow> bool \<Rightarrow> 'f \<Rightarrow> ('f, error) outcome option) \<Rightarrow> frame_step list \<Rightarrow> 'f \<Rightarrow>
   ('f, error) outcome option" where
  "apply_all ap [] f = Some (f, None)"
| "apply_all ap ((out, op, is_recall) # steps) f =
     (case ap out op is_recall f of
        None \<Rightarrow> None
      | Some (g, Some e) \<Rightarrow> Some (g, Some e)
      | Some (g, None) \<Rightarrow> apply_all ap steps g)"

definition af_apply_all :: "frame_step list \<Rightarrow> aframe \<Rightarrow> (aframe, error) outcome" where
  "af_apply_all steps a = for_each (\<lambda>(out, op, is_recall). af_apply_output out op is_recall) steps a"

definition a_item :: "aframe \<Rightarrow> nat \<Rightarrow> string \<Rightarrow> variant" where
  "a_item a i field = (if i < length (a_rows a) then value_or_null ((a_rows a ! i) field) else VNull)"

definition a_item_has :: "aframe \<Rightarrow> nat \<Rightarrow> string \<Rightarrow> bool" where
  "a_item_has a i field \<longleftrightarrow> i < length (a_rows a) \<and> (a_rows a ! i) field \<noteq> None"

definition a_window :: "nat \<Rightarrow> nat \<Rightarrow> aframe \<Rightarrow> aframe" where
  "a_window off cnt a = a\<lparr>a_rows := take cnt (drop off (a_rows a)), a_warnings := []\<rparr>"

locale frame_contract =
  fixes inv :: "'f \<Rightarrow> bool"
    and owned :: "'f \<Rightarrow> bool"
    and abs :: "'f \<Rightarrow> aframe"
    and apply_out :: "operator_output \<Rightarrow> string \<Rightarrow> bool \<Rightarrow> 'f \<Rightarrow> ('f, error) outcome option"
    and item_count :: "'f \<Rightarrow> nat"
    and item :: "'f \<Rightarrow> nat \<Rightarrow> string \<Rightarrow> variant"
    and item_has :: "'f \<Rightarrow> nat \<Rightarrow> string \<Rightarrow> bool"
    and get_common :: "'f \<Rightarrow> string \<Rightarrow> variant"
  assumes apply_step:
      "inv f \<Longrightarrow> owned f \<Longrightarrow> output_ok out \<Longrightarrow> output_num_ok out \<Longrightarrow>
       \<exists>g e. apply_out out op is_recall f = Some (g, e) \<and> inv g \<and> owned g \<and>
         e = snd (af_apply_output out op is_recall (abs f)) \<and>
         (e = None \<or> added_items out = [] \<longrightarrow> abs g = fst (af_apply_output out op is_recall (abs f)))"
    and count_abs: "inv f \<Longrightarrow> item_count f = length (a_rows (abs f))"
    and item_abs: "inv f \<Longrightarrow> unsign_zero (item f i field) = a_item (abs f) i field"
    and has_abs: "inv f \<Longrightarrow> item_has f i field = a_item_has (abs f) i field"
    and common_abs: "inv f \<Longrightarrow> get_common f field = value_or_null (a_common (abs f) field)"
begin

lemma run:
  "inv f \<Longrightarrow> owned f \<Longrightarrow> list_all step_ok steps \<Longrightarrow>
   \<exists>g e. apply_all apply_out steps f = Some (g, e) \<and> inv g \<and> owned g \<and>
     e = snd (af_apply_all steps (abs f)) \<and> (e = None \<longrightarrow> abs g = fst (af_apply_all steps (abs f)))"
proof (induction steps arbitrary: f)
  case (Cons st steps)
  obtain out op r where st: "st = (out, op, r)" by (cases st)
  obtain g e where g: "apply_out out op r f = Some (g, e)" "inv g" "owned g"
      "e = snd (af_apply_output out op r (abs f))"
      "e = None \<longrightarrow> abs g = fst (af_apply_output out op r (abs f))"
    using apply_step [OF Cons.prems(1,2), of out op r] Cons.prems(3) by (auto simp: st step_ok_def)
  show ?case
  proof (cases e)
    case None
    then have "af_apply_output out op r (abs f) = (abs g, None)" using g(4,5) by (simp add: prod_eq_iff)
    then have "af_apply_all (st # steps) (abs f) = af_apply_all steps (abs g)"
      by (simp add: st af_apply_all_def)
    moreover have "apply_all apply_out (st # steps) f = apply_all apply_out steps g"
      using g(1) None by (simp add: st)
    moreover have "list_all step_ok steps" using Cons.prems(3) by simp
    ultimately show ?thesis using Cons.IH [OF g(2,3)] by simp
  next
    case (Some x)
    then have "af_apply_output out op r (abs f) = (fst (af_apply_output out op r (abs f)), Some x)"
      using g(4) by (simp add: prod_eq_iff)
    then have "snd (af_apply_all (st # steps) (abs f)) = Some x"
      by (metis (mono_tags) af_apply_all_def and_then_Some case_prod_conv for_each.simps(2) snd_conv st)
    moreover have "apply_all apply_out (st # steps) f = Some (g, Some x)"
      using g(1) Some by (simp add: st)
    ultimately show ?thesis using g(2,3) by (metis option.distinct(1))
  qed
qed (auto simp: af_apply_all_def)

lemma reads_determined:
  assumes "inv f" "inv g" "abs f = abs g"
  shows "item_count f = item_count g" "unsign_zero (item f i field) = unsign_zero (item g i field)"
    "item_has f i field = item_has g i field" "get_common f field = get_common g field"
  using assms by (simp_all add: count_abs item_abs has_abs common_abs)

end

locale windowed_frame = frame_contract +
  fixes make_view :: "'a \<Rightarrow> nat \<Rightarrow> nat \<Rightarrow> error + 'a"
  assumes view_some:
      "inv f \<Longrightarrow> owned f \<Longrightarrow> off + cnt \<le> item_count f \<Longrightarrow>
       \<exists>v. make_view f off cnt = Inr v \<and> inv v \<and> \<not> owned v \<and> abs v = a_window off cnt (abs f)"
    and view_refused: "inv f \<Longrightarrow> owned f \<Longrightarrow> item_count f < size_plus off cnt \<Longrightarrow> \<exists>e. make_view f off cnt = Inl e"
    and view_rejects_writes: "inv f \<Longrightarrow> \<not> owned f \<Longrightarrow> \<exists>e. apply_out out op r f = Some (f, Some e)"
begin

text \<open>A view shows exactly the rows of its window.\<close>

lemma view_reads:
  assumes "inv f" "owned f" "off + cnt \<le> item_count f" "make_view f off cnt = Inr v"
  shows "item_count v = cnt"
    and "i < cnt \<Longrightarrow> unsign_zero (item v i field) = unsign_zero (item f (off + i) field)"
    and "i < cnt \<Longrightarrow> item_has v i field = item_has f (off + i) field"
    and "get_common v field = get_common f field"
proof -
  have v: "inv v" "abs v = a_window off cnt (abs f)" using view_some [OF assms(1-3)] assms(4) by auto
  have n: "off + cnt \<le> length (a_rows (abs f))" using assms(1,3) count_abs by simp
  show "item_count v = cnt" using n by (simp add: count_abs [OF v(1)] v(2) a_window_def)
  show "i < cnt \<Longrightarrow> unsign_zero (item v i field) = unsign_zero (item f (off + i) field)"
    using n by (simp add: item_abs [OF v(1)] item_abs [OF assms(1)] v(2) a_window_def a_item_def)
  show "i < cnt \<Longrightarrow> item_has v i field = item_has f (off + i) field"
    using n by (simp add: has_abs [OF v(1)] has_abs [OF assms(1)] v(2) a_window_def a_item_has_def)
  show "get_common v field = get_common f field"
    by (simp add: common_abs [OF v(1)] common_abs [OF assms(1)] v(2) a_window_def)
qed

end

text \<open>Whole-frame reads: the response projection, the column scan and the strict-input check.\<close>

definition a_column :: "aframe \<Rightarrow> string \<Rightarrow> variant list" where
  "a_column a field = map (\<lambda>row. value_or_null (row field)) (a_rows a)"

fun a_validate_strict :: "aframe \<Rightarrow> string list \<Rightarrow> string \<times> int" where
  "a_validate_strict a [] = ([], -1)"
| "a_validate_strict a (field # rest) =
     (case find (\<lambda>i. is_null (a_column a field ! i)) [0..<length (a_rows a)] of
        Some i \<Rightarrow> (field, int i)
      | None \<Rightarrow> a_validate_strict a rest)"

definition renders :: "result \<Rightarrow> string list \<Rightarrow> string list \<Rightarrow> aframe \<Rightarrow> bool" where
  "renders r common_out item_out a \<longleftrightarrow>
     map_of (res_common r) = a_common a |` set common_out \<and>
     map (\<lambda>row. unsign_row (map_of row)) (res_items r) = map (\<lambda>row. row |` set item_out) (a_rows a)"

locale readable_frame = windowed_frame +
  fixes to_result :: "'a \<Rightarrow> string list \<Rightarrow> string list \<Rightarrow> error + result"
    and item_column :: "'a \<Rightarrow> string \<Rightarrow> variant list"
    and validate_strict :: "'a \<Rightarrow> string list \<Rightarrow> string \<times> int"
  assumes result_abs:
      "inv f \<Longrightarrow> owned f \<Longrightarrow> \<exists>r. to_result f common_out item_out = Inr r \<and> renders r common_out item_out (abs f)"
    and column_abs: "inv f \<Longrightarrow> map unsign_zero (item_column f field) = a_column (abs f) field"
    and strict_abs:
      "inv f \<Longrightarrow> a_rows (abs f) \<noteq> [] \<Longrightarrow> validate_strict f fs = a_validate_strict (abs f) fs"
begin

lemma null_column_iff:
  assumes "inv f" "i < item_count f"
  shows "is_null (a_column (abs f) field ! i) \<longleftrightarrow> item f i field = VNull"
proof -
  have "unsign_zero (item f i field) = a_column (abs f) field ! i"
    using item_abs [OF assms(1)] count_abs [OF assms(1)] assms(2) by (simp add: a_column_def a_item_def)
  then show ?thesis by (metis is_null_def unsign_zero.simps(2) unsign_zero_eq_null)
qed

text \<open>A row is reported exactly when some item lacks a strict field.\<close>

lemma strict_row_iff:
  assumes "inv f" "a_rows (abs f) \<noteq> []"
  shows "0 \<le> snd (validate_strict f fs) \<longleftrightarrow>
    (\<exists>field \<in> set fs. \<exists>i < item_count f. item f i field = VNull)"
  unfolding strict_abs [OF assms]
proof (induction fs)
  case (Cons field fs)
  then show ?case
    using null_column_iff [OF assms(1), of _ field] count_abs [OF assms(1)]
    by (auto simp: find_Some_iff find_None_iff split: option.split)
qed simp

lemma strict_ok_iff:
  assumes "inv f" "a_rows (abs f) \<noteq> []" "[] \<notin> set fs"
  shows "fst (validate_strict f fs) = [] \<longleftrightarrow>
    (\<forall>field \<in> set fs. \<forall>i < item_count f. item f i field \<noteq> VNull)"
proof -
  have "fst (a_validate_strict (abs f) fs) = [] \<longleftrightarrow>
      (\<forall>field \<in> set fs. \<forall>i < item_count f. item f i field \<noteq> VNull)"
    using assms(3)
  proof (induction fs)
    case (Cons field fs)
    note null = null_column_iff [OF assms(1), of _ field]
    show ?case
    proof (cases "find (\<lambda>i. is_null (a_column (abs f) field ! i)) [0..<length (a_rows (abs f))]")
      case None
      then have "\<forall>i < item_count f. item f i field \<noteq> VNull"
        using null count_abs [OF assms(1)] by (auto simp: find_None_iff)
      then show ?thesis using Cons None by simp
    next
      case (Some i)
      then have "i < item_count f" "item f i field = VNull"
        using null count_abs [OF assms(1)] by (auto simp: find_Some_iff)
      then show ?thesis using Cons.prems Some by auto
    qed
  qed simp
  then show ?thesis using strict_abs [OF assms(1,2)] by simp
qed

end

end
