(* ===== verification/Columns.thy ===== *)
theory Columns
  imports Frame_Spec
begin

text \<open>
  Typed columns with a presence bitmap (\<open>include/pine/column.hpp\<close>,
  \<open>src/dataframe/column.cpp\<close>): element reads and writes, appends, the bitmap-driven
  compaction, the cycle-following in-place permutation, promotion to a JSON column, and the
  type probe of \<open>make_column\<close>.  \<open>col_cells\<close> is a column's contents: \<open>None\<close> for an absent
  slot, \<open>Some v\<close> for a present one.
\<close>

section \<open>Columns\<close>

type_synonym i64 = "64 word"

datatype column =
    Int64Col "i64 list" "bool list"
  | DoubleCol "double list" "bool list"
  | StringCol "string list" "bool list"
  | BoolCol "bool list" "bool list"
  | JsonCol "variant list" "bool list"

datatype column_type = TInt64 | TDouble | TString | TBool | TJson

fun column_type_name :: "column_type \<Rightarrow> string" where
  "column_type_name TInt64 = ''int64''"
| "column_type_name TDouble = ''double''"
| "column_type_name TString = ''string''"
| "column_type_name TBool = ''bool''"
| "column_type_name TJson = ''json''"

fun col_type :: "column \<Rightarrow> column_type" where
  "col_type (Int64Col ds vs) = TInt64"
| "col_type (DoubleCol ds vs) = TDouble"
| "col_type (StringCol ds vs) = TString"
| "col_type (BoolCol ds vs) = TBool"
| "col_type (JsonCol ds vs) = TJson"

fun col_size :: "column \<Rightarrow> nat" where
  "col_size (Int64Col ds vs) = length ds"
| "col_size (DoubleCol ds vs) = length ds"
| "col_size (StringCol ds vs) = length ds"
| "col_size (BoolCol ds vs) = length ds"
| "col_size (JsonCol ds vs) = length ds"

fun col_validity :: "column \<Rightarrow> bool list" where
  "col_validity (Int64Col ds vs) = vs"
| "col_validity (DoubleCol ds vs) = vs"
| "col_validity (StringCol ds vs) = vs"
| "col_validity (BoolCol ds vs) = vs"
| "col_validity (JsonCol ds vs) = vs"

definition col_is_present :: "column \<Rightarrow> nat \<Rightarrow> bool" where
  "col_is_present c i \<longleftrightarrow> i < length (col_validity c) \<and> col_validity c ! i"

fun col_is_null :: "column \<Rightarrow> nat \<Rightarrow> bool" where
  "col_is_null (JsonCol ds vs) i = (i \<ge> length vs \<or> \<not> vs ! i \<or> is_null (ds ! i))"
| "col_is_null c i = (i \<ge> length (col_validity c) \<or> \<not> col_validity c ! i)"

definition i64_variant :: "i64 \<Rightarrow> variant" where
  "i64_variant w = VNum (double_of_int (sint w))"

fun col_get :: "column \<Rightarrow> nat \<Rightarrow> variant" where
  "col_get (Int64Col ds vs) i = (if i \<ge> length vs \<or> \<not> vs ! i then VNull else i64_variant (ds ! i))"
| "col_get (DoubleCol ds vs) i = (if i \<ge> length vs \<or> \<not> vs ! i then VNull else VNum (ds ! i))"
| "col_get (StringCol ds vs) i = (if i \<ge> length vs \<or> \<not> vs ! i then VNull else VStr (ds ! i))"
| "col_get (BoolCol ds vs) i = (if i \<ge> length vs \<or> \<not> vs ! i then VNull else VBool (ds ! i))"
| "col_get (JsonCol ds vs) i = (if i \<ge> length vs \<or> \<not> vs ! i then VNull else ds ! i)"

text \<open>\<open>int64_lossy_as_double\<close>: the 64-bit values a double may not hold exactly.\<close>

definition int64_lossy_as_double :: "i64 \<Rightarrow> bool" where
  "int64_lossy_as_double v \<longleftrightarrow> sint v > 2 ^ 53 \<or> sint v < - (2 ^ 53)"

fun is_integral_number :: "variant \<Rightarrow> bool" where
  "is_integral_number (VNum (DFin s q)) = (is_integer q \<and> q < 9223372036854775808)"
| "is_integral_number v = False"

text \<open>\<open>static_cast<int64_t>\<close> of a double\<close>

definition i64_of_double :: "double \<Rightarrow> i64" where
  "i64_of_double d = word_of_int (dtrunc d)"

text \<open>
  \<open>set\<close> and \<open>append\<close> return whether the value fits the column's type; a typed column refuses
  null, and a refused write leaves the column as it was.
\<close>

fun col_set :: "column \<Rightarrow> nat \<Rightarrow> variant \<Rightarrow> column \<times> bool" where
  "col_set (Int64Col ds vs) i v =
     (case v of
        VNum d \<Rightarrow> if is_integral_number v \<and> i < length ds
                  then (Int64Col (ds[i := i64_of_double d]) (vs[i := True]), True)
                  else (Int64Col ds vs, False)
      | _ \<Rightarrow> (Int64Col ds vs, False))"
| "col_set (DoubleCol ds vs) i v =
     (case v of
        VNum d \<Rightarrow> if i < length ds then (DoubleCol (ds[i := d]) (vs[i := True]), True)
                  else (DoubleCol ds vs, False)
      | _ \<Rightarrow> (DoubleCol ds vs, False))"
| "col_set (StringCol ds vs) i v =
     (case v of
        VStr s \<Rightarrow> if i < length ds then (StringCol (ds[i := s]) (vs[i := True]), True)
                  else (StringCol ds vs, False)
      | _ \<Rightarrow> (StringCol ds vs, False))"
| "col_set (BoolCol ds vs) i v =
     (case v of
        VBool b \<Rightarrow> if i < length ds then (BoolCol (ds[i := b]) (vs[i := True]), True)
                   else (BoolCol ds vs, False)
      | _ \<Rightarrow> (BoolCol ds vs, False))"
| "col_set (JsonCol ds vs) i v =
     (if i < length ds then (JsonCol (ds[i := v]) (vs[i := True]), True) else (JsonCol ds vs, False))"

fun col_append :: "column \<Rightarrow> variant \<Rightarrow> column \<times> bool" where
  "col_append (Int64Col ds vs) v =
     (case v of
        VNum d \<Rightarrow> if is_integral_number v then (Int64Col (ds @ [i64_of_double d]) (vs @ [True]), True)
                  else (Int64Col ds vs, False)
      | _ \<Rightarrow> (Int64Col ds vs, False))"
| "col_append (DoubleCol ds vs) v =
     (case v of VNum d \<Rightarrow> (DoubleCol (ds @ [d]) (vs @ [True]), True) | _ \<Rightarrow> (DoubleCol ds vs, False))"
| "col_append (StringCol ds vs) v =
     (case v of VStr s \<Rightarrow> (StringCol (ds @ [s]) (vs @ [True]), True) | _ \<Rightarrow> (StringCol ds vs, False))"
| "col_append (BoolCol ds vs) v =
     (case v of VBool b \<Rightarrow> (BoolCol (ds @ [b]) (vs @ [True]), True) | _ \<Rightarrow> (BoolCol ds vs, False))"
| "col_append (JsonCol ds vs) v = (JsonCol (ds @ [v]) (vs @ [True]), True)"

text \<open>\<open>append_null\<close>: a value-initialised slot, absent.\<close>

fun col_append_null :: "column \<Rightarrow> column" where
  "col_append_null (Int64Col ds vs) = Int64Col (ds @ [0]) (vs @ [False])"
| "col_append_null (DoubleCol ds vs) = DoubleCol (ds @ [DFin False 0]) (vs @ [False])"
| "col_append_null (StringCol ds vs) = StringCol (ds @ [[]]) (vs @ [False])"
| "col_append_null (BoolCol ds vs) = BoolCol (ds @ [False]) (vs @ [False])"
| "col_append_null (JsonCol ds vs) = JsonCol (ds @ [VNull]) (vs @ [False])"

text \<open>The sized constructors: \<open>n\<close> absent slots.\<close>

fun col_sized :: "column_type \<Rightarrow> nat \<Rightarrow> column" where
  "col_sized TInt64 n = Int64Col (replicate n 0) (replicate n False)"
| "col_sized TDouble n = DoubleCol (replicate n (DFin False 0)) (replicate n False)"
| "col_sized TString n = StringCol (replicate n []) (replicate n False)"
| "col_sized TBool n = BoolCol (replicate n False) (replicate n False)"
| "col_sized TJson n = JsonCol (replicate n VNull) (replicate n False)"

definition col_adopt :: "double list \<Rightarrow> column" where
  "col_adopt vals = DoubleCol vals (replicate (length vals) True)"

definition col_to_json :: "column \<Rightarrow> column" where
  "col_to_json c =
     (case c of
        JsonCol ds vs \<Rightarrow> JsonCol ds vs
      | _ \<Rightarrow> fold (\<lambda>i j. if col_validity c ! i then fst (col_append j (col_get c i))
                          else col_append_null j)
               [0..<col_size c] (JsonCol [] []))"

section \<open>Compaction\<close>

definition compact_step :: "bool list \<Rightarrow> nat \<Rightarrow> nat \<times> 'a list \<Rightarrow> nat \<times> 'a list" where
  "compact_step bitmap i st =
     (case st of (write, data) \<Rightarrow>
        if bitmap ! i then (write, data)
        else (Suc write, if write \<noteq> i then data[write := data ! i] else data))"

definition vector_resize :: "nat \<Rightarrow> 'a \<Rightarrow> 'a list \<Rightarrow> 'a list" where
  "vector_resize n x xs = take n xs @ replicate (n - length xs) x"

definition compact_with_bitmap :: "'a \<Rightarrow> 'a list \<Rightarrow> bool list \<Rightarrow> nat \<Rightarrow> 'a list" where
  "compact_with_bitmap dflt data bitmap kept_count =
     vector_resize kept_count dflt (snd (fold (compact_step bitmap) [0..<length data] (0, data)))"

definition make_remove_bitmap :: "nat \<Rightarrow> int list \<Rightarrow> bool list" where
  "make_remove_bitmap n indices = fold (\<lambda>i bm. bm[nat i := True]) indices (replicate n False)"

fun col_remove_with_bitmap :: "bool list \<Rightarrow> nat \<Rightarrow> column \<Rightarrow> column" where
  "col_remove_with_bitmap bm kept (Int64Col ds vs) =
     Int64Col (compact_with_bitmap 0 ds bm kept) (compact_with_bitmap False vs bm kept)"
| "col_remove_with_bitmap bm kept (DoubleCol ds vs) =
     DoubleCol (compact_with_bitmap (DFin False 0) ds bm kept) (compact_with_bitmap False vs bm kept)"
| "col_remove_with_bitmap bm kept (StringCol ds vs) =
     StringCol (compact_with_bitmap [] ds bm kept) (compact_with_bitmap False vs bm kept)"
| "col_remove_with_bitmap bm kept (BoolCol ds vs) =
     BoolCol (compact_with_bitmap False ds bm kept) (compact_with_bitmap False vs bm kept)"
| "col_remove_with_bitmap bm kept (JsonCol ds vs) =
     JsonCol (compact_with_bitmap VNull ds bm kept) (compact_with_bitmap False vs bm kept)"

section \<open>In-place permutation\<close>

text \<open>
  One cycle, walked from \<open>i\<close>: \<open>data[j] = data[order[j]]\<close> until the cycle closes, when the
  saved element is stored.  The loop has no bound of its own; \<open>fuel\<close> counts its turns, and
  \<open>None\<close> is a walk that has not closed when the fuel is gone.
\<close>

type_synonym 'a scratch = "'a list \<times> bool list \<times> bool list"

fun walk_cycle :: "nat \<Rightarrow> int list \<Rightarrow> nat \<Rightarrow> nat \<Rightarrow> 'a \<Rightarrow> bool \<Rightarrow> 'a scratch \<Rightarrow> 'a scratch option" where
  "walk_cycle 0 order i j tmp tmp_valid st = None"
| "walk_cycle (Suc fuel) order i j tmp tmp_valid (data, validity, visited) =
     (let src = nat (order ! j)
      in if src = i
         then Some (data[j := tmp], validity[j := tmp_valid], visited[j := True])
         else walk_cycle fuel order i src tmp tmp_valid
                (data[j := data ! src], validity[j := validity ! src], visited[j := True]))"

fun reorder_loop :: "int list \<Rightarrow> nat list \<Rightarrow> 'a scratch \<Rightarrow> 'a scratch option" where
  "reorder_loop order [] st = Some st"
| "reorder_loop order (i # is) (data, validity, visited) =
     (if visited ! i then reorder_loop order is (data, validity, visited)
      else if nat (order ! i) = i
      then reorder_loop order is (data, validity, visited[i := True])
      else Option.bind
             (walk_cycle (Suc (length order)) order i i (data ! i) (validity ! i)
                (data, validity, visited))
             (reorder_loop order is))"

definition reset_visited :: "nat \<Rightarrow> bool list \<Rightarrow> bool list" where
  "reset_visited n visited =
     (if length visited < n then replicate n False else replicate n False @ drop n visited)"

definition reorder_in_place ::
  "int list \<Rightarrow> 'a list \<Rightarrow> bool list \<Rightarrow> bool list \<Rightarrow> 'a scratch option" where
  "reorder_in_place order data validity visited =
     (let n = length order
      in if n = 0 then Some (data, validity, visited)
         else reorder_loop order [0..<n] (data, validity, reset_visited n visited))"

fun col_reorder :: "int list \<Rightarrow> column \<Rightarrow> bool list \<Rightarrow> (column \<times> bool list) option" where
  "col_reorder order (Int64Col ds vs) scratch =
     map_option (\<lambda>(d, v, s). (Int64Col d v, s)) (reorder_in_place order ds vs scratch)"
| "col_reorder order (DoubleCol ds vs) scratch =
     map_option (\<lambda>(d, v, s). (DoubleCol d v, s)) (reorder_in_place order ds vs scratch)"
| "col_reorder order (StringCol ds vs) scratch =
     map_option (\<lambda>(d, v, s). (StringCol d v, s)) (reorder_in_place order ds vs scratch)"
| "col_reorder order (BoolCol ds vs) scratch =
     map_option (\<lambda>(d, v, s). (BoolCol d v, s)) (reorder_in_place order ds vs scratch)"
| "col_reorder order (JsonCol ds vs) scratch =
     map_option (\<lambda>(d, v, s). (JsonCol d v, s)) (reorder_in_place order ds vs scratch)"

section \<open>Type inference\<close>

datatype cand = CUnknown | CInt64 | CDouble | CString | CBool | CJson

definition value_cand :: "variant \<Rightarrow> cand" where
  "value_cand v =
     (if is_bool v then CBool
      else if is_number v then (if is_integral_number v then CInt64 else CDouble)
      else if is_string v then CString
      else CJson)"

fun probe :: "variant list \<Rightarrow> cand \<Rightarrow> cand" where
  "probe [] cand = cand"
| "probe (v # vs) cand =
     (if is_null v then probe vs cand
      else let c = value_cand v
           in if cand = CUnknown then probe vs c
              else if cand = c then probe vs cand
              else if cand = CInt64 \<and> c = CDouble \<or> cand = CDouble \<and> c = CInt64 then probe vs CDouble
              else CJson)"

definition cand_column :: "cand \<Rightarrow> column_type" where
  "cand_column cand =
     (case cand of CInt64 \<Rightarrow> TInt64 | CDouble \<Rightarrow> TDouble | CString \<Rightarrow> TString | CBool \<Rightarrow> TBool
      | _ \<Rightarrow> TJson)"

text \<open>
  \<open>append\<close>, promoting to JSON where the column refuses the value.
\<close>

definition append_or_promote :: "variant \<Rightarrow> column \<Rightarrow> column" where
  "append_or_promote v col =
     (case col_append col v of
        (col', True) \<Rightarrow> col'
      | (col', False) \<Rightarrow> fst (col_append (col_to_json col') v))"

definition make_column :: "variant list \<Rightarrow> column" where
  "make_column values = fold append_or_promote values (col_sized (cand_column (probe values CUnknown)) 0)"

definition make_null_column :: "nat \<Rightarrow> column" where
  "make_null_column n = col_sized TJson n"

end
