(* ===== verification/Column_Laws.thy ===== *)
theory Column_Laws
  imports Columns
begin

text \<open>
  The laws of the columns in terms of their cells: what \<open>set\<close>, \<open>append\<close>, promotion, compaction
  and the in-place permutation do to the list of cells, and that the walk over the cycles of a
  permutation ends within its fuel.
\<close>

section \<open>Numbers\<close>

lemma round53_exact:
  assumes "m < 2 ^ 53" and n: "n = m * 2 ^ k"
  shows "round53 n = n"
proof (cases "n < 2 ^ 53")
  case False
  define e where "e = bit_len n - 53"
  have pos: "0 < n" using False by (cases n) auto
  have low: "2 ^ (bit_len n - 1) \<le> n" using bit_len_bounds [OF pos] by simp
  have "e \<le> k"
  proof (rule ccontr)
    assume "\<not> e \<le> k"
    then have k: "k + 53 \<le> bit_len n - 1" by (simp add: e_def)
    have "n < 2 ^ 53 * 2 ^ k" using assms by simp
    also have "\<dots> = (2 :: nat) ^ (k + 53)" by (simp add: power_add)
    also have "\<dots> \<le> 2 ^ (bit_len n - 1)" using k by (intro power_increasing) auto
    finally show False using low by simp
  qed
  then have "(2 :: nat) ^ e dvd n" unfolding n by (metis dvd_mult le_imp_power_dvd)
  then have "n mod 2 ^ e = 0" "n div 2 ^ e * 2 ^ e = n" by auto
  then show ?thesis by (auto simp: round53_def Let_def False simp flip: e_def)
qed (simp add: round53_def)

lemma prec53_integer:
  assumes "prec53 (DFin s q)" "is_integer q"
  shows "0 \<le> q" and "round53 (nat \<lfloor>q\<rfloor>) = nat \<lfloor>q\<rfloor>"
proof -
  obtain m k where mk: "m < 2 ^ 53" "q = of_nat m * 2 ^ k \<or> q = of_nat m / 2 ^ k"
    using assms(1) by auto
  then show "0 \<le> q" by auto
  from mk(2) show "round53 (nat \<lfloor>q\<rfloor>) = nat \<lfloor>q\<rfloor>"
  proof
    assume q: "q = of_nat m * 2 ^ k"
    then have "q = of_nat (m * 2 ^ k)" by simp
    then have "nat \<lfloor>q\<rfloor> = m * 2 ^ k" by (metis floor_of_nat nat_int)
    then show ?thesis using round53_exact [OF mk(1) refl, of k] by simp
  next
    assume q: "q = of_nat m / 2 ^ k"
    have "q \<le> of_nat m" unfolding q by (simp add: divide_le_eq mult_le_cancel_left1)
    then have "\<lfloor>q\<rfloor> \<le> int m" by (metis floor_mono floor_of_nat)
    then have "nat \<lfloor>q\<rfloor> < 2 ^ 53" using mk(1) by (simp add: nat_le_iff order_le_less_trans)
    then show ?thesis by (simp add: round53_def)
  qed
qed

definition i64_ok :: "i64 \<Rightarrow> bool" where
  "i64_ok w \<longleftrightarrow> round53 (nat \<bar>sint w\<bar>) = nat \<bar>sint w\<bar>"

text \<open>
  A double that \<open>is_integral_number\<close> accepts survives the trip through an \<open>int64_t\<close> cell; only
  the sign of a zero is lost.
\<close>

lemma int64_cell_roundtrip:
  assumes int: "is_integral_number (VNum d)" and prec: "prec53 d"
  shows "i64_variant (i64_of_double d) = unsign_zero (VNum d)" and "i64_ok (i64_of_double d)"
proof -
  obtain s q where d: "d = DFin s q" using int by (cases d) auto
  have q: "is_integer q" "q < 9223372036854775808" using int by (auto simp: d)
  note r = prec53_integer [OF prec [unfolded d] q(1)]
  define n where "n = nat \<lfloor>q\<rfloor>"
  have n: "\<lfloor>q\<rfloor> = int n" using r(1) by (simp add: n_def)
  have q': "q = of_nat n" using q(1) n by (simp add: is_integer_def)
  have "n < 9223372036854775808"
    using q(2) unfolding q' by (metis of_nat_less_iff of_nat_numeral)
  then have sint: "sint (i64_of_double d) = (if s then - int n else int n)"
    by (simp add: i64_of_double_def d n signed_of_int signed_take_bit_int_eq_self sint_sbintrunc')
  show "i64_variant (i64_of_double d) = unsign_zero (VNum d)"
    using r(2) q' unfolding n_def [symmetric]
    by (cases "n = 0") (simp_all add: i64_variant_def sint double_of_int_def, simp_all add: d)
  show "i64_ok (i64_of_double d)"
    using r(2) unfolding n_def [symmetric] by (simp add: i64_ok_def sint)
qed

section \<open>Cells\<close>

definition cells_of :: "('a \<Rightarrow> variant) \<Rightarrow> 'a list \<Rightarrow> bool list \<Rightarrow> variant option list" where
  "cells_of f ds vs = map2 (\<lambda>d b. if b then Some (unsign_zero (f d)) else None) ds vs"

fun col_cells :: "column \<Rightarrow> variant option list" where
  "col_cells (Int64Col ds vs) = cells_of i64_variant ds vs"
| "col_cells (DoubleCol ds vs) = cells_of VNum ds vs"
| "col_cells (StringCol ds vs) = cells_of VStr ds vs"
| "col_cells (BoolCol ds vs) = cells_of VBool ds vs"
| "col_cells (JsonCol ds vs) = cells_of (\<lambda>v. v) ds vs"

fun col_ok :: "column \<Rightarrow> bool" where
  "col_ok (Int64Col ds vs) = (length vs = length ds \<and> list_all i64_ok ds)"
| "col_ok (DoubleCol ds vs) = (length vs = length ds)"
| "col_ok (StringCol ds vs) = (length vs = length ds)"
| "col_ok (BoolCol ds vs) = (length vs = length ds)"
| "col_ok (JsonCol ds vs) = (length vs = length ds)"

lemma length_cells_of [simp]: "length vs = length ds \<Longrightarrow> length (cells_of f ds vs) = length ds"
  by (simp add: cells_of_def)

lemma length_col_cells [simp]: "col_ok c \<Longrightarrow> length (col_cells c) = col_size c"
  by (cases c) auto

lemma col_validity_length [simp]: "col_ok c \<Longrightarrow> length (col_validity c) = col_size c"
  by (cases c) auto

lemma nth_cells_of [simp]:
  "length vs = length ds \<Longrightarrow> i < length ds \<Longrightarrow>
   cells_of f ds vs ! i = (if vs ! i then Some (unsign_zero (f (ds ! i))) else None)"
  by (simp add: cells_of_def)

lemma cells_of_append [simp]:
  "length vs = length ds \<Longrightarrow> cells_of f (ds @ ds') (vs @ vs') = cells_of f ds vs @ cells_of f ds' vs'"
  by (simp add: cells_of_def)

lemma cells_of_single [simp]:
  "cells_of f [d] [b] = [if b then Some (unsign_zero (f d)) else None]"
  by (simp add: cells_of_def)

lemma cells_of_Nil [simp]: "cells_of f [] vs = []"
  by (simp add: cells_of_def)

lemma cells_of_update:
  "length vs = length ds \<Longrightarrow> cells_of f (ds[i := d]) (vs[i := True]) =
     (cells_of f ds vs)[i := Some (unsign_zero (f d))]"
  by (simp add: cells_of_def zip_update map_update)

lemma cells_of_map_nth:
  assumes "length vs = length ds" "\<forall>i \<in> set is. i < length ds"
  shows "cells_of f (map ((!) ds) is) (map ((!) vs) is) = map ((!) (cells_of f ds vs)) is"
  using assms by (intro nth_equalityI) simp_all

lemma cells_of_absent:
  "cells_of f (replicate n d) (replicate n False) = replicate n None"
  by (induction n) (auto simp: cells_of_def)

lemma present_iff_cell:
  "col_ok c \<Longrightarrow> i < col_size c \<Longrightarrow> col_is_present c i \<longleftrightarrow> col_cells c ! i \<noteq> None"
  by (cases c) (auto simp: col_is_present_def)

lemma get_cell:
  "col_ok c \<Longrightarrow> i < col_size c \<Longrightarrow>
   unsign_zero (col_get c i) = (case col_cells c ! i of None \<Rightarrow> VNull | Some v \<Rightarrow> v)"
  by (cases c) auto

lemma unsign_zero_idem [simp]: "unsign_zero (unsign_zero v) = unsign_zero v"
  by (cases v rule: unsign_zero.cases) auto

lemma unsign_zero_null [simp]: "unsign_zero v = VNull \<longleftrightarrow> v = VNull"
  by (cases v rule: unsign_zero.cases) auto

lemma is_null_unsign_zero [simp]: "is_null (unsign_zero v) = is_null v"
  by (simp add: is_null_def)

lemma i64_variant_not_null [simp]: "i64_variant w \<noteq> VNull"
  by (simp add: i64_variant_def)

lemma col_is_null_iff_get:
  "col_ok c \<Longrightarrow> col_is_null c i \<longleftrightarrow> col_get c i = VNull"
  by (cases c) (auto simp: is_null_def)

section \<open>Element writes\<close>

text \<open>
  An accepted \<open>set\<close> writes exactly one cell; a refused one changes nothing.  JSON columns accept
  every value, typed columns every value of their type except null.
\<close>

lemma col_set_accepted:
  assumes "col_ok c" "num_ok v" "col_set c i v = (c', True)"
  shows "col_ok c' \<and> col_size c' = col_size c \<and> col_type c' = col_type c \<and> i < col_size c \<and>
         col_cells c' = (col_cells c)[i := Some (unsign_zero v)]"
proof (cases c)
  case (Int64Col ds vs)
  then obtain d where v: "v = VNum d" using assms(3) by (cases v) auto
  then have "is_integral_number v" "i < length ds"
      "c' = Int64Col (ds[i := i64_of_double d]) (vs[i := True])"
    using assms(3) Int64Col by (auto split: if_splits)
  moreover note int64_cell_roundtrip [of d]
  ultimately show ?thesis
    using assms(1,2) v Int64Col
    by (auto simp: cells_of_update list_all_length nth_list_update)
next
  case (DoubleCol ds vs)
  then show ?thesis using assms by (cases v) (auto simp: cells_of_update split: if_splits)
next
  case (StringCol ds vs)
  then show ?thesis using assms by (cases v) (auto simp: cells_of_update split: if_splits)
next
  case (BoolCol ds vs)
  then show ?thesis using assms by (cases v) (auto simp: cells_of_update split: if_splits)
next
  case (JsonCol ds vs)
  then show ?thesis using assms by (auto simp: cells_of_update split: if_splits)
qed

lemma col_set_refused: "col_set c i v = (c', False) \<Longrightarrow> c' = c"
  by (cases c; cases v) (auto split: if_splits)

lemma col_set_json: "i < length ds \<Longrightarrow> snd (col_set (JsonCol ds vs) i v)"
  by simp

lemma col_append_accepted:
  assumes "col_ok c" "num_ok v" "col_append c v = (c', True)"
  shows "col_ok c' \<and> col_cells c' = col_cells c @ [Some (unsign_zero v)] \<and> col_size c' = Suc (col_size c)"
proof (cases c)
  case (Int64Col ds vs)
  then obtain d where v: "v = VNum d" using assms(3) by (cases v) auto
  then have "is_integral_number v" "c' = Int64Col (ds @ [i64_of_double d]) (vs @ [True])"
    using assms(3) Int64Col by (auto split: if_splits)
  then show ?thesis
    using int64_cell_roundtrip [of d] assms(1,2) v Int64Col by auto
next
  case (DoubleCol ds vs)
  then show ?thesis using assms by (cases v) auto
next
  case (StringCol ds vs)
  then show ?thesis using assms by (cases v) auto
next
  case (BoolCol ds vs)
  then show ?thesis using assms by (cases v) auto
next
  case (JsonCol ds vs)
  then show ?thesis using assms by auto
qed

lemma col_append_refused: "col_append c v = (c', False) \<Longrightarrow> c' = c"
  by (cases c; cases v) (auto split: if_splits)

lemma i64_ok_zero [simp]: "i64_ok 0"
  by (simp add: i64_ok_def round53_def)

lemma col_append_null_cells:
  "col_ok c \<Longrightarrow> col_ok (col_append_null c) \<and> col_cells (col_append_null c) = col_cells c @ [None] \<and>
     col_size (col_append_null c) = Suc (col_size c)"
  by (cases c) auto

lemma col_sized_cells [simp]:
  "col_ok (col_sized ty n)" "col_cells (col_sized ty n) = replicate n None" "col_size (col_sized ty n) = n"
  by (cases ty; auto simp: cells_of_absent list_all_length)+

lemma col_adopt_cells:
  "col_ok (col_adopt ds)" "col_size (col_adopt ds) = length ds"
  "col_cells (col_adopt ds) = map (\<lambda>d. Some (unsign_zero (VNum d))) ds"
  by (auto simp: col_adopt_def cells_of_def map2_map_map intro!: nth_equalityI)

section \<open>Promotion\<close>

lemma json_fold_cells:
  fixes c :: column
  assumes "col_ok c" "n \<le> col_size c"
  defines "step \<equiv> \<lambda>i j. if col_validity c ! i then fst (col_append j (col_get c i)) else col_append_null j"
  shows "\<exists>ds vs. fold step [0..<n] (JsonCol [] []) = JsonCol ds vs \<and> length ds = n \<and> length vs = n \<and>
           cells_of (\<lambda>v. v) ds vs = take n (col_cells c)"
  using assms(2)
proof (induction n)
  case (Suc n)
  then obtain ds vs where IH: "fold step [0..<n] (JsonCol [] []) = JsonCol ds vs"
      "length ds = n" "length vs = n" "cells_of (\<lambda>v. v) ds vs = take n (col_cells c)"
    by auto
  have n: "n < col_size c" using Suc.prems by simp
  have "take (Suc n) (col_cells c) = take n (col_cells c) @ [col_cells c ! n]"
    using n assms(1) by (simp add: take_Suc_conv_app_nth)
  moreover have "col_validity c ! n \<longleftrightarrow> col_cells c ! n \<noteq> None"
    using present_iff_cell [OF assms(1) n] n assms(1) by (simp add: col_is_present_def)
  ultimately show ?case
    using IH get_cell [OF assms(1) n] by (auto simp: step_def)
qed simp

lemma col_to_json_cells:
  assumes "col_ok c"
  shows "col_ok (col_to_json c)" "col_cells (col_to_json c) = col_cells c"
    "col_size (col_to_json c) = col_size c" "col_type (col_to_json c) = TJson"
proof -
  have "\<exists>ds vs. col_to_json c = JsonCol ds vs \<and> length ds = col_size c \<and> length vs = col_size c \<and>
      cells_of (\<lambda>v. v) ds vs = col_cells c"
  proof (cases "col_type c = TJson")
    case True
    then show ?thesis using assms by (cases c) (auto simp: col_to_json_def)
  next
    case False
    then show ?thesis
      using json_fold_cells [OF assms order.refl] assms
      by (cases c) (auto simp: col_to_json_def)
  qed
  then show "col_ok (col_to_json c)" "col_cells (col_to_json c) = col_cells c"
    "col_size (col_to_json c) = col_size c" "col_type (col_to_json c) = TJson"
    by auto
qed

section \<open>Compaction\<close>

lemma compact_step_pair:
  "compact_step bitmap i (write, data) =
     (if bitmap ! i then (write, data)
      else (Suc write, if write \<noteq> i then data[write := data ! i] else data))"
  by (simp add: compact_step_def)

lemma compact_fold:
  fixes bitmap :: "bool list" and data :: "'a list"
  assumes "k \<le> length data"
  defines "K \<equiv> filter (\<lambda>i. \<not> bitmap ! i) [0..<k]"
  shows "\<exists>data'. fold (compact_step bitmap) [0..<k] (0, data) = (length K, data') \<and>
           length data' = length data \<and> take (length K) data' = map ((!) data) K \<and>
           (\<forall>i. k \<le> i \<longrightarrow> data' ! i = data ! i)"
  using assms(1) unfolding K_def
proof (induction k)
  case (Suc k)
  let ?K = "filter (\<lambda>i. \<not> bitmap ! i) [0..<k]"
  obtain data' where IH: "fold (compact_step bitmap) [0..<k] (0, data) = (length ?K, data')"
      "length data' = length data" "take (length ?K) data' = map ((!) data) ?K"
      "\<forall>i. k \<le> i \<longrightarrow> data' ! i = data ! i"
    using Suc by auto
  have le: "length ?K \<le> k" by (metis diff_zero length_filter_le length_upt)
  then have lt: "length ?K < length data'" using Suc.prems IH(2) by simp
  show ?case
  proof (cases "bitmap ! k")
    case True
    then show ?thesis using IH by (auto simp: compact_step_pair)
  next
    case False
    have "take (Suc (length ?K)) (data'[length ?K := data' ! k]) = take (length ?K) data' @ [data' ! k]"
      using lt by (simp add: take_Suc_conv_app_nth)
    then show ?thesis
      using IH False le lt
      by (auto simp: compact_step_pair take_Suc_conv_app_nth nth_list_update)
  qed
qed simp

lemma compact_with_bitmap_eq:
  assumes "kept = length (filter (\<lambda>i. \<not> bitmap ! i) [0..<length data])"
  shows "compact_with_bitmap dflt data bitmap kept =
           map ((!) data) (filter (\<lambda>i. \<not> bitmap ! i) [0..<length data])"
proof -
  obtain data' where d: "fold (compact_step bitmap) [0..<length data] (0, data) = (kept, data')"
      "length data' = length data"
      "take kept data' = map ((!) data) (filter (\<lambda>i. \<not> bitmap ! i) [0..<length data])"
    using compact_fold [of "length data" data bitmap] assms by auto
  have "kept \<le> length data" using assms by (metis diff_zero length_filter_le length_upt)
  then show ?thesis using d by (simp add: compact_with_bitmap_def vector_resize_def)
qed

lemma remove_bitmap_nth:
  "k < n \<Longrightarrow> list_all (\<lambda>i. in_range i n) is \<Longrightarrow>
   fold (\<lambda>i bm. bm[nat i := True]) is bm0 ! k = (bm0 ! k \<or> int k \<in> set is) \<and>
   length (fold (\<lambda>i bm. bm[nat i := True]) is bm0) = length bm0"
  if "length bm0 = n" for bm0 :: "bool list" and n
  using that
proof (induction "is" arbitrary: bm0)
  case (Cons i "is")
  have "0 \<le> i" "nat i < n" using Cons.prems by (auto simp: in_range_def)
  then show ?case
    using Cons.IH [of "bm0[nat i := True]"] Cons.prems by (auto simp: nth_list_update)
qed simp

lemma make_remove_bitmap_nth:
  "k < n \<Longrightarrow> list_all (\<lambda>i. in_range i n) is \<Longrightarrow> make_remove_bitmap n is ! k \<longleftrightarrow> int k \<in> set is"
  using remove_bitmap_nth [of "replicate n False" n k "is"] by (simp add: make_remove_bitmap_def)

lemma kept_indices_bitmap:
  assumes "list_all (\<lambda>i. in_range i n) is"
  shows "filter (\<lambda>i. \<not> make_remove_bitmap n is ! i) [0..<n] = kept_indices n is"
  unfolding kept_indices_def by (rule filter_cong) (auto simp: make_remove_bitmap_nth assms)

lemma length_kept_indices:
  assumes "list_all (\<lambda>i. in_range i n) is" "distinct is"
  shows "length (kept_indices n is) = n - length is"
proof -
  have dropped: "length (filter (\<lambda>i. int i \<in> set is) [0..<n]) = length is"
  proof -
    have "set (map int (filter (\<lambda>i. int i \<in> set is) [0..<n])) = set is"
    proof (intro equalityI subsetI)
      fix x assume "x \<in> set is"
      then have "0 \<le> x" "nat x < n" using assms(1) by (auto simp: in_range_def list_all_iff)
      then show "x \<in> set (map int (filter (\<lambda>i. int i \<in> set is) [0..<n]))"
        using \<open>x \<in> set is\<close> by (auto intro!: image_eqI [of _ _ "nat x"])
    qed auto
    then have "card (set (map int (filter (\<lambda>i. int i \<in> set is) [0..<n]))) = card (set is)"
      by simp
    then show ?thesis using assms(2)
      by (simp add: distinct_card distinct_map del: set_map)
  qed
  have "length (filter (\<lambda>i. int i \<in> set is) [0..<n]) + length (kept_indices n is) = n"
    using sum_length_filter_compl [of "\<lambda>i. int i \<in> set is" "[0..<n]"] by (simp add: kept_indices_def)
  then show ?thesis using dropped by simp
qed

lemma kept_indices_less: "i \<in> set (kept_indices n is) \<Longrightarrow> i < n"
  by (simp add: kept_indices_def)

lemma compact_kept_indices:
  assumes "list_all (\<lambda>i. in_range i n) is" "distinct is" "length data = n"
  shows "compact_with_bitmap dflt data (make_remove_bitmap n is) (n - length is) =
           map ((!) data) (kept_indices n is)"
  using compact_with_bitmap_eq [of "n - length is" "make_remove_bitmap n is" data dflt] assms
  by (simp add: kept_indices_bitmap length_kept_indices)

lemma col_remove_cells:
  fixes c :: column
  assumes "col_ok c" and bm: "list_all (\<lambda>i. in_range i (col_size c)) is" "distinct is"
  defines "K \<equiv> kept_indices (col_size c) is"
  defines "c' \<equiv> col_remove_with_bitmap (make_remove_bitmap (col_size c) is) (col_size c - length is) c"
  shows "col_ok c' \<and> col_cells c' = map ((!) (col_cells c)) K \<and> col_size c' = length K"
proof -
  have lt: "\<forall>i \<in> set K. i < col_size c" by (auto simp: K_def dest: kept_indices_less)
  have ok: "list_all i64_ok (map ((!) ds) K)" if "list_all i64_ok ds" "length ds = col_size c" for ds
    using that lt by (auto simp: list_all_iff)
  show ?thesis
    using assms(1) lt bm ok
    by (cases c) (simp_all add: c'_def K_def compact_kept_indices cells_of_map_nth)
qed

end
