(* ===== verification/Permute.thy ===== *)
theory Permute
  imports Column_Laws
begin

text \<open>
  The cycle-following permutation of \<open>reorder_in_place\<close>: for every permutation \<open>order\<close> it ends
  within its fuel and leaves \<open>data[k] = old[order[k]]\<close> in every slot; and \<open>check_item_order\<close>,
  the check that guards it, accepts exactly the permutations.
\<close>

definition is_perm :: "int list \<Rightarrow> bool" where
  "is_perm order \<longleftrightarrow> distinct order \<and> set order = int ` {..<length order}"

section \<open>The walk\<close>

text \<open>
  \<open>moved p V orig data\<close>: the slots in \<open>V\<close> hold their final element, the others their original.
\<close>

definition moved :: "(nat \<Rightarrow> nat) \<Rightarrow> nat set \<Rightarrow> 'a list \<Rightarrow> 'a list \<Rightarrow> bool" where
  "moved p V orig data \<longleftrightarrow>
     length data = length orig \<and>
     (\<forall>q < length orig. data ! q = orig ! (if q \<in> V then p q else q))"

definition flags :: "nat set \<Rightarrow> nat \<Rightarrow> bool list \<Rightarrow> bool" where
  "flags V n visited \<longleftrightarrow> n \<le> length visited \<and> (\<forall>q < n. visited ! q \<longleftrightarrow> q \<in> V)"

lemma moved_step:
  "moved p V orig data \<Longrightarrow> j < length orig \<Longrightarrow> j \<notin> V \<Longrightarrow> x = orig ! p j \<Longrightarrow>
   moved p (insert j V) orig (data[j := x])"
  by (auto simp: moved_def nth_list_update)

lemma flags_step: "flags V n visited \<Longrightarrow> j < n \<Longrightarrow> flags (insert j V) n (visited[j := True])"
  by (auto simp: flags_def nth_list_update)

lemma perm_facts:
  assumes "is_perm order"
  shows "inj_on (\<lambda>k. nat (order ! k)) {..<length order}"
    and "k < length order \<Longrightarrow> nat (order ! k) < length order"
    and "k < length order \<Longrightarrow> 0 \<le> order ! k"
proof -
  have r: "0 \<le> order ! k \<and> nat (order ! k) < length order" if "k < length order" for k
    using assms nth_mem [OF that] by (auto simp: is_perm_def)
  then show "k < length order \<Longrightarrow> nat (order ! k) < length order"
    and "k < length order \<Longrightarrow> 0 \<le> order ! k" by auto
  show "inj_on (\<lambda>k. nat (order ! k)) {..<length order}"
  proof (rule inj_onI)
    fix a b assume "a \<in> {..<length order}" "b \<in> {..<length order}" "nat (order ! a) = nat (order ! b)"
    then show "a = b"
      using assms r by (simp add: is_perm_def) (metis eq_nat_nat_iff nth_eq_iff_index_eq)
  qed
qed

text \<open>
  Walking the cycle of \<open>i\<close> with \<open>j\<close> next: the slots done so far are mapped onto themselves and
  \<open>j\<close>, with \<open>i\<close> alone missing from their image.
\<close>

lemma walk_cycle_correct:
  fixes order :: "int list"
  defines "n \<equiv> length order" and "p \<equiv> \<lambda>k. nat (order ! k)"
  assumes perm: "is_perm order" and len: "length orig = n" "length origv = n"
    and tmp: "tmp = orig ! i" "tmp_valid = origv ! i"
  shows "moved p V orig data \<Longrightarrow> moved p V origv validity \<Longrightarrow> flags V n visited \<Longrightarrow>
    V \<subseteq> {..<n} \<Longrightarrow> j < n \<Longrightarrow> i < n \<Longrightarrow> j \<notin> V \<Longrightarrow> p ` V = insert j V - {i} \<Longrightarrow> n - card V < fuel \<Longrightarrow>
    i \<in> insert j V \<Longrightarrow>
    \<exists>data' validity' visited' V'.
      walk_cycle fuel order i j tmp tmp_valid (data, validity, visited) = Some (data', validity', visited') \<and>
      moved p V' orig data' \<and> moved p V' origv validity' \<and> flags V' n visited' \<and>
      insert j V \<subseteq> V' \<and> V' \<subseteq> {..<n} \<and> p ` V' = V'"
proof (induction fuel arbitrary: j V data validity visited)
  case (Suc fuel)
  note prems = Suc.prems
  have inj: "inj_on p {..<n}" and pn: "p j < n"
    using perm_facts [OF perm] prems(5) by (simp_all add: p_def n_def)
  let ?V = "insert j V"
  have V: "?V \<subseteq> {..<n}" using prems by auto
  have fl: "flags ?V n (visited[j := True])" using prems by (simp add: flags_step)
  show ?case
  proof (cases "p j = i")
    case True
    have "p ` ?V = ?V" using prems(8,10) True by auto
    moreover have "moved p ?V orig (data[j := tmp])" "moved p ?V origv (validity[j := tmp_valid])"
      using prems True tmp len by (simp_all add: moved_step)
    moreover have "walk_cycle (Suc fuel) order i j tmp tmp_valid (data, validity, visited) =
        Some (data[j := tmp], validity[j := tmp_valid], visited[j := True])"
      using True by (simp add: p_def)
    ultimately show ?thesis using fl V by blast
  next
    case False
    have new: "p j \<notin> ?V"
    proof
      assume "p j \<in> ?V"
      then have "p j \<in> p ` V" using False prems(8) by auto
      then obtain q where "q \<in> V" "p q = p j" by auto
      then show False using inj prems by (metis inj_onD lessThan_iff subsetD)
    qed
    have old: "data ! p j = orig ! p j" "validity ! p j = origv ! p j"
      using prems(1,2) new pn len by (auto simp: moved_def)
    have im: "p ` ?V = insert (p j) ?V - {i}" using prems(8) False by auto
    have fin: "finite V" using prems(4) finite_subset by blast
    then have "card ?V = Suc (card V)" using prems(7) by simp
    moreover have "card ?V \<le> n" using V by (metis card_lessThan card_mono finite_lessThan)
    ultimately have fuel: "n - card ?V < fuel" using prems(9) by simp
    have "moved p ?V orig (data[j := data ! p j])" "moved p ?V origv (validity[j := validity ! p j])"
      using prems old len by (simp_all add: moved_step)
    from Suc.IH [OF this fl V pn prems(6) new im fuel] prems(10) show ?thesis
      using False by (auto simp: p_def)
  qed
qed simp

lemma reorder_loop_correct:
  fixes order :: "int list"
  defines "n \<equiv> length order" and "p \<equiv> \<lambda>k. nat (order ! k)"
  assumes perm: "is_perm order" and len: "length orig = n" "length origv = n"
  shows "moved p V orig data \<Longrightarrow> moved p V origv validity \<Longrightarrow> flags V n visited \<Longrightarrow>
    V \<subseteq> {..<n} \<Longrightarrow> p ` V = V \<Longrightarrow> \<forall>i \<in> set is. i < n \<Longrightarrow>
    \<exists>data' validity' visited' V'.
      reorder_loop order is (data, validity, visited) = Some (data', validity', visited') \<and>
      moved p V' orig data' \<and> moved p V' origv validity' \<and> V \<union> set is \<subseteq> V'"
proof (induction "is" arbitrary: V data validity visited)
  case (Cons i "is")
  note prems = Cons.prems
  have i: "i < n" using prems by simp
  show ?case
  proof (cases "visited ! i")
    case True
    then have "i \<in> V" using prems(3) i by (simp add: flags_def)
    with Cons.IH [OF prems(1-5)] prems(6) True show ?thesis by simp blast
  next
    case False
    then have new: "i \<notin> V" using prems(3) i by (simp add: flags_def)
    have at_i: "data ! i = orig ! i" "validity ! i = origv ! i"
      using prems(1,2) new i len by (auto simp: moved_def)
    show ?thesis
    proof (cases "p i = i")
      case True
      have "moved p (insert i V) orig data" "moved p (insert i V) origv validity"
        using prems(1,2) True by (auto simp: moved_def)
      moreover have "flags (insert i V) n (visited[i := True])" "insert i V \<subseteq> {..<n}"
          "p ` insert i V = insert i V"
        using prems True i by (auto simp: flags_step)
      ultimately show ?thesis
        using Cons.IH [of "insert i V" data validity "visited[i := True]"] prems(6) False True
        by (auto simp: p_def)
    next
      case fixed: False
      have "p ` V = insert i V - {i}" using prems(5) new by auto
      from walk_cycle_correct [OF perm, folded n_def p_def, OF len at_i prems(1-4) i i new this
          le_imp_less_Suc [OF diff_le_self] insertI1]
      obtain data' validity' visited' V' where
        w: "walk_cycle (Suc n) order i i (data ! i) (validity ! i) (data, validity, visited)
              = Some (data', validity', visited')"
          "moved p V' orig data'" "moved p V' origv validity'" "flags V' n visited'"
          "insert i V \<subseteq> V'" "V' \<subseteq> {..<n}" "p ` V' = V'"
        by blast
      have "\<forall>i \<in> set is. i < n" using prems(6) by simp
      from Cons.IH [OF w(2,3,4,6,7) this]
      obtain data'' validity'' visited'' V'' where
        r: "reorder_loop order is (data', validity', visited') = Some (data'', validity'', visited'')"
          "moved p V'' orig data''" "moved p V'' origv validity''" "V' \<union> set is \<subseteq> V''"
        by blast
      have "reorder_loop order (i # is) (data, validity, visited) = Some (data'', validity'', visited'')"
        using w(1) r(1) False fixed by (simp add: p_def n_def del: walk_cycle.simps)
      moreover have "V \<union> set (i # is) \<subseteq> V''" using r(4) w(5) by auto
      ultimately show ?thesis using r(2,3) by blast
    qed
  qed
qed auto

text \<open>
  The permutation in place is total on permutations and equals the out-of-place one.
\<close>

lemma reorder_in_place_correct:
  assumes perm: "is_perm order" and len: "length data = length order" "length validity = length order"
  shows "\<exists>visited'. reorder_in_place order data validity visited =
           Some (map (\<lambda>i. data ! nat i) order, map (\<lambda>i. validity ! nat i) order, visited')"
proof (cases "order = []")
  case True
  then show ?thesis using len by (simp add: reorder_in_place_def)
next
  case False
  let ?n = "length order" and ?p = "\<lambda>k. nat (order ! k)"
  have start: "moved ?p {} data data" "moved ?p {} validity validity"
      "flags {} ?n (reset_visited ?n visited)"
    by (auto simp: moved_def flags_def reset_visited_def nth_append)
  obtain data' validity' visited' V' where
    r: "reorder_loop order [0..<?n] (data, validity, reset_visited ?n visited) = Some (data', validity', visited')"
      "moved ?p V' data data'" "moved ?p V' validity validity'" "{} \<union> set [0..<?n] \<subseteq> V'"
    using reorder_loop_correct [OF perm len start, of "[0..<?n]"] by auto
  have "data' = map (\<lambda>i. data ! nat i) order" "validity' = map (\<lambda>i. validity ! nat i) order"
    using r(2-4) len by (auto simp: moved_def intro!: nth_equalityI)
  with r(1) False show ?thesis by (simp add: reorder_in_place_def Let_def)
qed

section \<open>The permutation check\<close>

lemma check_order_None_iff:
  "length seen = n \<Longrightarrow>
   check_order op n seen order = None \<longleftrightarrow>
     distinct order \<and> (\<forall>i \<in> set order. in_range i n \<and> \<not> seen ! nat i)"
proof (induction order arbitrary: seen)
  case (Cons i order)
  have "(\<forall>k \<in> set order. in_range k n \<and> \<not> seen[nat i := True] ! nat k) \<longleftrightarrow>
        i \<notin> set order \<and> (\<forall>k \<in> set order. in_range k n \<and> \<not> seen ! nat k)"
    if "in_range i n"
    using that Cons.prems by (auto simp: in_range_def nth_list_update split: if_splits) (metis eq_nat_nat_iff linorder_not_less)+
  with Cons show ?case by auto
qed simp

lemma is_perm_iff:
  "is_perm order \<longleftrightarrow> distinct order \<and> (\<forall>i \<in> set order. in_range i (length order))"
proof
  assume "is_perm order"
  then show "distinct order \<and> (\<forall>i \<in> set order. in_range i (length order))"
    by (auto simp: is_perm_def in_range_def)
next
  assume a: "distinct order \<and> (\<forall>i \<in> set order. in_range i (length order))"
  then have sub: "set order \<subseteq> int ` {..<length order}"
  proof (intro subsetI)
    fix x assume "x \<in> set order"
    then have "0 \<le> x" "nat x < length order" using a by (auto simp: in_range_def)
    then show "x \<in> int ` {..<length order}" by (intro image_eqI [of _ _ "nat x"]) auto
  qed
  have "card (int ` {..<length order}) = card (set order)"
    using a by (simp add: card_image distinct_card)
  then have "set order = int ` {..<length order}"
    using sub by (intro card_subset_eq) auto
  then show "is_perm order" using a by (simp add: is_perm_def)
qed

lemma check_item_order_iff_perm:
  "check_item_order op n order = None \<longleftrightarrow> length order = n \<and> is_perm order"
  by (auto simp: check_item_order_def check_order_None_iff is_perm_iff nth_replicate in_range_def)

lemma check_removed_None_iff: "check_removed op n is = None \<longleftrightarrow> list_all (\<lambda>i. in_range i n) is"
  by (induction "is") auto

section \<open>Columns\<close>

lemma reorder_in_place_cells:
  assumes "is_perm order" "length order = length ds" "length vs = length ds"
  shows "\<exists>ds' vs' s'. reorder_in_place order ds vs s = Some (ds', vs', s') \<and>
    length ds' = length ds \<and> length vs' = length ds \<and> set ds' \<subseteq> set ds \<and>
    (\<forall>f. cells_of f ds' vs' = map (\<lambda>i. cells_of f ds vs ! nat i) order)"
proof -
  have lt: "\<forall>i \<in> set (map nat order). i < length ds"
    using assms by (auto simp: is_perm_iff in_range_def)
  obtain s' where s': "reorder_in_place order ds vs s =
      Some (map (\<lambda>i. ds ! nat i) order, map (\<lambda>i. vs ! nat i) order, s')"
    using reorder_in_place_correct [OF assms(1), of ds vs s] assms(2,3) by auto
  have "cells_of f (map (\<lambda>i. ds ! nat i) order) (map (\<lambda>i. vs ! nat i) order) =
      map (\<lambda>i. cells_of f ds vs ! nat i) order" for f
    using cells_of_map_nth [OF _ lt, of vs f] assms by (simp add: comp_def)
  with s' lt assms show ?thesis by auto
qed

lemma col_reorder_cells:
  assumes "col_ok c" "is_perm order" "length order = col_size c"
  shows "\<exists>c' scratch'. col_reorder order c scratch = Some (c', scratch') \<and> col_ok c' \<and>
           col_size c' = col_size c \<and> col_cells c' = map (\<lambda>i. col_cells c ! nat i) order"
proof (cases c)
  case (Int64Col ds vs)
  then show ?thesis
    using assms reorder_in_place_cells [of order ds vs scratch]
    by (auto simp: list_all_iff subset_iff)
next
  case (DoubleCol ds vs)
  then show ?thesis using assms reorder_in_place_cells [of order ds vs scratch] by auto
next
  case (StringCol ds vs)
  then show ?thesis using assms reorder_in_place_cells [of order ds vs scratch] by auto
next
  case (BoolCol ds vs)
  then show ?thesis using assms reorder_in_place_cells [of order ds vs scratch] by auto
next
  case (JsonCol ds vs)
  then show ?thesis using assms reorder_in_place_cells [of order ds vs scratch] by auto
qed

end
