(* ===== verification/Column_Store.thy ===== *)
theory Column_Store
  imports Permute
begin

text \<open>
  \<open>TypedColumnStore\<close> (\<open>include/pine/column_store.hpp\<close>, \<open>src/dataframe/column_store.cpp\<close>):
  an unordered map of columns that all have \<open>row_count()\<close> slots.  \<open>cs_rows\<close> reads the store as
  a list of rows; each operation is related to what it does to those rows.
\<close>

record column_store =
  cs_cols :: "column unordered_map"
  cs_row_count :: nat

definition cs_empty :: "nat \<Rightarrow> column_store" where
  "cs_empty n = \<lparr>cs_cols = [], cs_row_count = n\<rparr>"

definition cs_fields :: "column_store \<Rightarrow> string list" where
  "cs_fields s = sort (map fst (cs_cols s))"

definition cs_has_column :: "column_store \<Rightarrow> string \<Rightarrow> bool" where
  "cs_has_column s field \<longleftrightarrow> map_of (cs_cols s) field \<noteq> None"

definition cs_column :: "column_store \<Rightarrow> string \<Rightarrow> column option" where
  "cs_column s field = map_of (cs_cols s) field"

definition cs_size_mismatch :: error where
  "cs_size_mismatch = StdException ''TypedColumnStore::set_column: column size mismatch''"

text \<open>The first column of a store with no rows sets the row count.\<close>

definition cs_set_column :: "string \<Rightarrow> column \<Rightarrow> column_store \<Rightarrow> (column_store, error) outcome" where
  "cs_set_column field col s =
     (let stored = (\<lambda>s. s\<lparr>cs_cols := um_set field col (cs_cols s)\<rparr>)
      in if cs_cols s = [] \<and> col_size col \<noteq> cs_row_count s
         then (if cs_row_count s = 0 then (stored (s\<lparr>cs_row_count := col_size col\<rparr>), None)
               else if col_size col \<noteq> cs_row_count s then (s, Some cs_size_mismatch)
               else (stored s, None))
         else if col_size col \<noteq> cs_row_count s then (s, Some cs_size_mismatch)
         else (stored s, None))"

definition cs_map_columns :: "(column \<Rightarrow> column) \<Rightarrow> column_store \<Rightarrow> column_store" where
  "cs_map_columns g s = s\<lparr>cs_cols := map (\<lambda>(k, c). (k, g c)) (cs_cols s)\<rparr>"

definition cs_remove_rows :: "int list \<Rightarrow> column_store \<Rightarrow> (column_store, error) outcome" where
  "cs_remove_rows indices s =
     (if indices = [] then (s, None)
      else case find (\<lambda>i. \<not> in_range i (cs_row_count s)) indices of
        Some i \<Rightarrow> (s, Some (StdException (''TypedColumnStore::remove_rows: index '' @ string_of_int i @
                    '' out of range [0, '' @ string_of_nat (cs_row_count s) @ '')'')))
      | None \<Rightarrow>
          let bitmap = make_remove_bitmap (cs_row_count s) indices;
              kept = cs_row_count s - length indices
          in ((cs_map_columns (col_remove_with_bitmap bitmap kept) s)\<lparr>cs_row_count := kept\<rparr>, None))"

text \<open>
  The columns are reordered one after the other, sharing the scratch bitmap; \<open>None\<close> is a walk
  that does not end.
\<close>

fun reorder_columns ::
  "int list \<Rightarrow> column unordered_map \<Rightarrow> bool list \<Rightarrow> column unordered_map option" where
  "reorder_columns order [] scratch = Some []"
| "reorder_columns order ((k, c) # cols) scratch =
     Option.bind (col_reorder order c scratch) (\<lambda>(c', scratch').
     Option.bind (reorder_columns order cols scratch') (\<lambda>cols'. Some ((k, c') # cols')))"

definition cs_reorder_rows :: "int list \<Rightarrow> column_store \<Rightarrow> (column_store, error) outcome option" where
  "cs_reorder_rows order s =
     (if length order \<noteq> cs_row_count s
      then Some (s, Some (StdException ''TypedColumnStore::reorder_rows: order length mismatch''))
      else map_option (\<lambda>cols. (s\<lparr>cs_cols := cols\<rparr>, None)) (reorder_columns order (cs_cols s) []))"

definition cs_extend_rows :: "nat \<Rightarrow> column_store \<Rightarrow> column_store" where
  "cs_extend_rows n s =
     (if n = 0 then s
      else (cs_map_columns (col_append_null ^^ n) s)\<lparr>cs_row_count := cs_row_count s + n\<rparr>)"

definition cs_clone :: "column_store \<Rightarrow> column_store" where
  "cs_clone s = \<lparr>cs_cols = fold (\<lambda>(k, c). um_set k c) (cs_cols s) [], cs_row_count = cs_row_count s\<rparr>"

section \<open>The store as rows\<close>

definition cs_ok :: "column_store \<Rightarrow> bool" where
  "cs_ok s \<longleftrightarrow> um_ok (cs_cols s) \<and>
     (\<forall>(k, c) \<in> set (cs_cols s). col_ok c \<and> col_size c = cs_row_count s)"

definition cs_row :: "column_store \<Rightarrow> nat \<Rightarrow> (string \<rightharpoonup> variant)" where
  "cs_row s i = (\<lambda>field. case cs_column s field of None \<Rightarrow> None | Some c \<Rightarrow> col_cells c ! i)"

definition cs_rows :: "column_store \<Rightarrow> (string \<rightharpoonup> variant) list" where
  "cs_rows s = map (cs_row s) [0..<cs_row_count s]"

lemma length_cs_rows [simp, frame_simps]: "length (cs_rows s) = cs_row_count s"
  by (simp add: cs_rows_def)

lemma nth_cs_rows [simp, frame_simps]: "i < cs_row_count s \<Longrightarrow> cs_rows s ! i = cs_row s i"
  by (simp add: cs_rows_def)

lemma cs_okD:
  "cs_ok s \<Longrightarrow> cs_column s field = Some c \<Longrightarrow> col_ok c \<and> col_size c = cs_row_count s"
  by (auto simp: cs_ok_def cs_column_def dest!: map_of_SomeD)

lemma cs_ok_empty [inv_intros]: "cs_ok (cs_empty n)"
  by (simp add: cs_ok_def cs_empty_def um_ok_def)

lemma cs_row_empty [simp]: "cs_row (cs_empty n) i = Map.empty"
  by (simp add: cs_row_def cs_column_def cs_empty_def)

lemma set_um_set: "set (um_set k v m) \<subseteq> insert (k, v) (set m)"
  by (induction k v m rule: um_set.induct) auto

lemma cs_set_column_ok:
  assumes "cs_ok s" "col_ok c" "col_size c = cs_row_count s"
  shows "\<exists>s'. cs_set_column field c s = (s', None) \<and> cs_ok s' \<and> cs_row_count s' = cs_row_count s \<and>
    cs_column s' = (cs_column s)(field \<mapsto> c) \<and>
    (\<forall>i. cs_row s' i = (cs_row s i)(field := col_cells c ! i))"
  using assms set_um_set [of field c "cs_cols s"]
  by (auto simp: cs_set_column_def Let_def cs_ok_def cs_row_def cs_column_def fun_eq_iff
      intro: um_ok_um_set)

lemma cs_map_columns_column:
  "cs_column (cs_map_columns g s) field = map_option g (cs_column s field)"
  unfolding cs_map_columns_def cs_column_def
  by (simp add: map_of_map [unfolded comp_def] prod.case_distrib)

lemma cs_map_columns_ok:
  assumes "cs_ok s" "\<And>c. col_ok c \<Longrightarrow> col_size c = cs_row_count s \<Longrightarrow> col_ok (g c) \<and> col_size (g c) = n"
  shows "cs_ok ((cs_map_columns g s)\<lparr>cs_row_count := n\<rparr>)"
  using assms by (auto simp: cs_ok_def cs_map_columns_def um_ok_def comp_def case_prod_beta)

lemma cs_row_map_columns:
  "cs_row ((cs_map_columns g s)\<lparr>cs_row_count := n\<rparr>) i =
     (\<lambda>field. case cs_column s field of None \<Rightarrow> None | Some c \<Rightarrow> col_cells (g c) ! i)"
proof -
  have "cs_column ((cs_map_columns g s)\<lparr>cs_row_count := n\<rparr>) field = map_option g (cs_column s field)" for field
    using cs_map_columns_column [of g s field] by (simp add: cs_column_def)
  then show ?thesis by (simp add: cs_row_def fun_eq_iff split: option.split)
qed

lemma cs_row_map_columns_nth:
  assumes "\<And>field c. cs_column s field = Some c \<Longrightarrow> col_cells (g c) ! i = col_cells c ! j"
  shows "cs_row ((cs_map_columns g s)\<lparr>cs_row_count := n\<rparr>) i = cs_row s j"
  unfolding cs_row_map_columns by (auto simp: cs_row_def assms fun_eq_iff split: option.split)

text \<open>Removing rows keeps the others, in order.\<close>

lemma cs_remove_rows_ok:
  assumes ok: "cs_ok s" and r: "list_all (\<lambda>i. in_range i (cs_row_count s)) is" "distinct is"
  shows "\<exists>s'. cs_remove_rows is s = (s', None) \<and> cs_ok s' \<and>
    cs_rows s' = map ((!) (cs_rows s)) (kept_indices (cs_row_count s) is)"
proof (cases "is = []")
  case True
  then show ?thesis
    using ok map_nth [of "cs_rows s"] by (simp add: cs_remove_rows_def kept_indices_def)
next
  case False
  define n where "n = cs_row_count s"
  define g where "g = col_remove_with_bitmap (make_remove_bitmap n is) (n - length is)"
  let ?K = "kept_indices n is" and ?s' = "(cs_map_columns g s)\<lparr>cs_row_count := n - length is\<rparr>"
  have len: "length ?K = n - length is" using length_kept_indices r by (simp add: n_def)
  have cells: "col_ok (g c) \<and> col_cells (g c) = map ((!) (col_cells c)) ?K \<and> col_size (g c) = length ?K"
    if "col_ok c" "col_size c = n" for c
    using col_remove_cells [OF that(1), of "is"] that r by (simp add: g_def n_def)
  have "find (\<lambda>i. \<not> in_range i n) is = None"
    using r(1) by (auto simp: find_None_iff list_all_iff n_def)
  then have res: "cs_remove_rows is s = (?s', None)"
    using False by (simp add: cs_remove_rows_def g_def n_def Let_def)
  have ok': "cs_ok ?s'"
    by (rule cs_map_columns_ok [OF ok]) (use cells len in \<open>simp add: n_def\<close>)
  have "cs_rows ?s' = map ((!) (cs_rows s)) ?K"
  proof (rule nth_equalityI)
    fix i assume "i < length (cs_rows ?s')"
    then have i: "i < length ?K" by (simp add: len)
    then have "?K ! i < n" by (meson kept_indices_less nth_mem)
    moreover have "cs_row ?s' i = cs_row s (?K ! i)"
      by (rule cs_row_map_columns_nth) (use cs_okD [OF ok] cells i in \<open>auto simp: n_def\<close>)
    ultimately show "cs_rows ?s' ! i = map ((!) (cs_rows s)) ?K ! i"
      using i len by (simp add: n_def cs_rows_def)
  qed (simp add: len)
  then show ?thesis using res ok' by (simp add: n_def)
qed

lemma reorder_columns_ok:
  assumes "is_perm order"
  shows "\<forall>(k, c) \<in> set cols. col_ok c \<and> col_size c = length order \<Longrightarrow>
    \<exists>cols'. reorder_columns order cols scratch = Some cols' \<and> map fst cols' = map fst cols \<and>
      (\<forall>(k, c) \<in> set cols'. col_ok c \<and> col_size c = length order) \<and>
      (\<forall>k. map_option col_cells (map_of cols' k) =
           map_option (\<lambda>c. map (\<lambda>i. col_cells c ! nat i) order) (map_of cols k))"
proof (induction cols arbitrary: scratch)
  case (Cons kc cols)
  obtain k c where kc: "kc = (k, c)" by force
  from Cons.prems kc assms obtain c' scratch' where
    c': "col_reorder order c scratch = Some (c', scratch')" "col_ok c'" "col_size c' = length order"
      "col_cells c' = map (\<lambda>i. col_cells c ! nat i) order"
    using col_reorder_cells [of c order scratch] by auto
  from Cons kc obtain cols' where "reorder_columns order cols scratch' = Some cols'"
      "map fst cols' = map fst cols" "\<forall>(k, c) \<in> set cols'. col_ok c \<and> col_size c = length order"
      "\<forall>k. map_option col_cells (map_of cols' k) =
           map_option (\<lambda>c. map (\<lambda>i. col_cells c ! nat i) order) (map_of cols k)"
    by (metis (no_types, lifting) list.set_intros(2))
  then show ?case using c' kc by auto
qed simp

lemma cs_reorder_rows_ok:
  assumes ok: "cs_ok s" and perm: "is_perm order" and len: "length order = cs_row_count s"
  shows "\<exists>s'. cs_reorder_rows order s = Some (s', None) \<and> cs_ok s' \<and>
    cs_rows s' = map (\<lambda>i. cs_rows s ! nat i) order"
proof -
  obtain cols' where c: "reorder_columns order (cs_cols s) [] = Some cols'"
      "map fst cols' = map fst (cs_cols s)"
      "\<forall>(k, c) \<in> set cols'. col_ok c \<and> col_size c = length order"
      "\<forall>k. map_option col_cells (map_of cols' k) =
           map_option (\<lambda>c. map (\<lambda>i. col_cells c ! nat i) order) (map_of (cs_cols s) k)"
    using reorder_columns_ok [OF perm, of "cs_cols s" "[]"] ok len by (auto simp: cs_ok_def)
  let ?s' = "s\<lparr>cs_cols := cols'\<rparr>"
  have ok': "cs_ok ?s'" using c(2,3) ok len by (simp add: cs_ok_def um_ok_def)
  have row: "cs_row ?s' i = cs_row s (nat (order ! i))" if "i < length order" for i
  proof
    fix k
    show "cs_row ?s' i k = cs_row s (nat (order ! i)) k"
      using c(4) [rule_format, of k] that
      by (auto simp: cs_row_def cs_column_def split: option.splits)
  qed
  have "cs_rows ?s' = map (\<lambda>i. cs_rows s ! nat i) order"
    by (rule nth_equalityI) (use perm_facts(2) [OF perm] row len in auto)
  then show ?thesis using c(1) ok' len by (simp add: cs_reorder_rows_def)
qed

lemma append_nulls_cells:
  "col_ok c \<Longrightarrow> col_ok ((col_append_null ^^ n) c) \<and>
     col_cells ((col_append_null ^^ n) c) = col_cells c @ replicate n None \<and>
     col_size ((col_append_null ^^ n) c) = col_size c + n"
proof (induction n)
  case (Suc n)
  then show ?case
    using col_append_null_cells [of "(col_append_null ^^ n) c"]
    by (simp add: replicate_append_same)
qed simp

lemma cs_extend_rows_ok:
  assumes ok: "cs_ok s"
  shows "cs_ok (cs_extend_rows n s)" "cs_row_count (cs_extend_rows n s) = cs_row_count s + n"
    "cs_rows (cs_extend_rows n s) = cs_rows s @ replicate n Map.empty"
proof -
  show rc: "cs_row_count (cs_extend_rows n s) = cs_row_count s + n"
    by (simp add: cs_extend_rows_def)
  show "cs_ok (cs_extend_rows n s)"
    using ok append_nulls_cells by (simp add: cs_extend_rows_def cs_map_columns_ok)
  have row: "cs_row (cs_extend_rows n s) i =
      (if i < cs_row_count s then cs_row s i else Map.empty)" if "i < cs_row_count s + n" for i
  proof (cases "n = 0")
    case False
    then have e: "cs_row (cs_extend_rows n s) i = (\<lambda>field. case cs_column s field of None \<Rightarrow> None
        | Some c \<Rightarrow> col_cells ((col_append_null ^^ n) c) ! i)"
      by (simp add: cs_extend_rows_def cs_row_map_columns)
    have "(case cs_column s field of None \<Rightarrow> None | Some c \<Rightarrow> col_cells ((col_append_null ^^ n) c) ! i) =
        (if i < cs_row_count s then cs_row s i else Map.empty) field" for field
    proof (cases "cs_column s field")
      case (Some c)
      then have "col_ok c" "length (col_cells c) = cs_row_count s"
        using cs_okD [OF ok] by auto
      then show ?thesis
        using Some that append_nulls_cells [of c n] by (simp add: cs_row_def nth_append)
    qed (simp add: cs_row_def)
    then show ?thesis unfolding e by blast
  qed (use that in \<open>simp add: cs_extend_rows_def\<close>)
  show "cs_rows (cs_extend_rows n s) = cs_rows s @ replicate n Map.empty"
    by (rule nth_equalityI) (auto simp: rc row nth_append)
qed

end
