(* ===== verification/Column_Frame.thy ===== *)
theory Column_Frame
  imports Column_Store
begin

text \<open>
  \<open>ColumnFrame\<close> (\<open>src/dataframe/column_frame.cpp\<close>): the common fields in one \<open>FlatMap\<close>, the
  items in a \<open>TypedColumnStore\<close>.  As for \<open>RowFrame\<close>, a window view is modelled by its parent's
  storage and the window in \<open>cf_view\<close>.
\<close>

record column_frame =
  cf_common :: object
  cf_items :: column_store
  cf_warnings :: "string list"
  cf_view :: "(nat \<times> nat) option"

section \<open>Construction\<close>

text \<open>The constructor's column for one field: absent, present-null and typed cells.\<close>

definition present_values :: "string \<Rightarrow> object list \<Rightarrow> variant list" where
  "present_values field items =
     filter (\<lambda>v. \<not> is_null v) (concat (map (\<lambda>row. case fm_find row field of None \<Rightarrow> [] | Some v \<Rightarrow> [v]) items))"

definition any_present_null :: "string \<Rightarrow> object list \<Rightarrow> bool" where
  "any_present_null field items \<longleftrightarrow>
     list_ex (\<lambda>row. case fm_find row field of None \<Rightarrow> False | Some v \<Rightarrow> is_null v) items"

definition cf_build_column :: "string \<Rightarrow> object list \<Rightarrow> column" where
  "cf_build_column field items =
     (let col = (if any_present_null field items then col_sized TJson 0
                 else col_sized (col_type (make_column (present_values field items))) 0)
      in fold (\<lambda>row col. case fm_find row field of
                 None \<Rightarrow> col_append_null col
               | Some v \<Rightarrow> append_or_promote v col) items col)"

definition cf_field_order :: "object list \<Rightarrow> string list" where
  "cf_field_order items = add_seen (concat (map (map fst) items)) []"

definition cf_new :: "object \<Rightarrow> object list \<Rightarrow> (column_frame, error) outcome" where
  "cf_new common items =
     (let (store, e) = for_each (\<lambda>field. cs_set_column field (cf_build_column field items))
                         (cf_field_order items) (cs_empty (length items))
      in (\<lparr>cf_common = common, cf_items = store, cf_warnings = [], cf_view = None\<rparr>, e))"

definition cf_is_window_view :: "column_frame \<Rightarrow> bool" where
  "cf_is_window_view f \<longleftrightarrow> cf_view f \<noteq> None"

definition cf_make_window_view :: "column_frame \<Rightarrow> nat \<Rightarrow> nat \<Rightarrow> error + column_frame" where
  "cf_make_window_view f row_offset row_count =
     (let parent_rows = (if cf_is_window_view f then 0 else cs_row_count (cf_items f))
      in if size_plus row_offset row_count > parent_rows
         then Inl (Error (''ColumnFrame::make_window_view: window ('' @ string_of_nat row_offset @
                '', '' @ string_of_nat row_count @ '') exceeds parent row count '' @
                string_of_nat parent_rows))
         else Inr (f\<lparr>cf_warnings := [], cf_view := Some (row_offset, row_count)\<rparr>))"

section \<open>Reads\<close>

definition cf_get_common :: "column_frame \<Rightarrow> string \<Rightarrow> variant" where
  "cf_get_common f field = value_or_null (fm_find (cf_common f) field)"

definition cf_has_common :: "column_frame \<Rightarrow> string \<Rightarrow> bool" where
  "cf_has_common f field \<longleftrightarrow> fm_find (cf_common f) field \<noteq> None"

definition cf_common_fields :: "column_frame \<Rightarrow> string list" where
  "cf_common_fields f = map fst (cf_common f)"

definition cf_item_count :: "column_frame \<Rightarrow> nat" where
  "cf_item_count f = (case cf_view f of Some (off, cnt) \<Rightarrow> cnt | None \<Rightarrow> cs_row_count (cf_items f))"

text \<open>The store index a (possibly windowed) index denotes: \<open>None\<close> when it is out of range.\<close>

definition cf_index :: "column_frame \<Rightarrow> nat \<Rightarrow> nat option" where
  "cf_index f index =
     (case cf_view f of
        Some (off, cnt) \<Rightarrow> if index \<ge> cnt then None else Some (index + off)
      | None \<Rightarrow> if index \<ge> cs_row_count (cf_items f) then None else Some index)"

definition cf_item :: "column_frame \<Rightarrow> nat \<Rightarrow> string \<Rightarrow> variant" where
  "cf_item f index field =
     (case cf_index f index of
        None \<Rightarrow> VNull
      | Some i \<Rightarrow> (case cs_column (cf_items f) field of
           None \<Rightarrow> VNull
         | Some col \<Rightarrow> if col_is_null col i then VNull else col_get col i))"

definition cf_item_has :: "column_frame \<Rightarrow> nat \<Rightarrow> string \<Rightarrow> bool" where
  "cf_item_has f index field =
     (case cf_index f index of
        None \<Rightarrow> False
      | Some i \<Rightarrow> (case cs_column (cf_items f) field of
           None \<Rightarrow> False
         | Some col \<Rightarrow> col_is_present col i))"

definition cf_item_fields :: "column_frame \<Rightarrow> string list" where
  "cf_item_fields f = cs_fields (cf_items f)"

definition cf_offset :: "column_frame \<Rightarrow> nat" where
  "cf_offset f = (case cf_view f of Some (off, cnt) \<Rightarrow> off | None \<Rightarrow> 0)"

definition cf_item_column :: "column_frame \<Rightarrow> string \<Rightarrow> variant list" where
  "cf_item_column f field =
     (case cs_column (cf_items f) field of
        None \<Rightarrow> replicate (cf_item_count f) VNull
      | Some col \<Rightarrow> map (\<lambda>i. let idx = cf_offset f + i in
                        if \<not> col_is_null col idx then col_get col idx else VNull)
                     [0..<cf_item_count f])"

definition cf_item_object :: "column_frame \<Rightarrow> nat \<Rightarrow> object" where
  "cf_item_object f index =
     (case cf_index f index of
        None \<Rightarrow> []
      | Some i \<Rightarrow> fold (\<lambda>field out. case cs_column (cf_items f) field of
                     None \<Rightarrow> out
                   | Some col \<Rightarrow> if col_is_present col i then fm_set field (col_get col i) out else out)
                  (cs_fields (cf_items f)) [])"

fun cf_validate_strict_items :: "column_frame \<Rightarrow> string list \<Rightarrow> string \<times> int" where
  "cf_validate_strict_items f [] = ([], -1)"
| "cf_validate_strict_items f (field # rest) =
     (case cs_column (cf_items f) field of
        None \<Rightarrow> (field, 0)
      | Some col \<Rightarrow>
          (case find (\<lambda>i. col_is_null col (cf_offset f + i)) [0..<cf_item_count f] of
             Some i \<Rightarrow> (field, int i)
           | None \<Rightarrow> cf_validate_strict_items f rest))"

definition cf_project_row :: "column_store \<Rightarrow> string list \<Rightarrow> nat \<Rightarrow> object" where
  "cf_project_row store fs i =
     fold (\<lambda>field out. case cs_column store field of
             None \<Rightarrow> out
           | Some col \<Rightarrow> if col_is_present col i then fm_set field (col_get col i) out else out) fs []"

definition cf_to_result :: "column_frame \<Rightarrow> string list \<Rightarrow> string list \<Rightarrow> error + result" where
  "cf_to_result f common_out item_out =
     (if cf_is_window_view f
      then Inl (Error (''ColumnFrame::to_result called on window view (window views are '' @
             ''read-only shard projections, not response sources)''))
      else Inr \<lparr>res_common = project (cf_common f) common_out,
                res_items = map (cf_project_row (cf_items f) item_out) [0..<cs_row_count (cf_items f)]\<rparr>)"

section \<open>Writes\<close>

definition cf_view_error :: "string \<Rightarrow> error" where
  "cf_view_error who =
     Error (''ColumnFrame::'' @ who @ '' called on window view (parallel shard contract violation)'')"

definition cf_set_common :: "string \<Rightarrow> variant \<Rightarrow> column_frame \<Rightarrow> (column_frame, error) outcome" where
  "cf_set_common field v f =
     (if cf_is_window_view f then (f, Some (cf_view_error ''set_common''))
      else (f\<lparr>cf_common := fm_set field v (cf_common f)\<rparr>, None))"

definition cf_push_warning :: "string \<Rightarrow> column_frame \<Rightarrow> (column_frame, error) outcome" where
  "cf_push_warning msg f =
     (if cf_is_window_view f then (f, Some (cf_view_error ''push_warning''))
      else (f\<lparr>cf_warnings := cf_warnings f @ [msg]\<rparr>, None))"

definition cf_take_warnings :: "column_frame \<Rightarrow> column_frame \<times> string list" where
  "cf_take_warnings f = (f\<lparr>cf_warnings := []\<rparr>, cf_warnings f)"

text \<open>\<open>write_item_field_locked\<close>: the first value written chooses the type of a new column.\<close>

definition first_write_type :: "variant \<Rightarrow> column_type" where
  "first_write_type v =
     (if is_null v \<or> is_array v \<or> is_object v then TJson
      else if is_bool v then TBool
      else if is_number v then TDouble
      else if is_string v then TString
      else TJson)"

definition cs_mutated :: "string \<Rightarrow> column \<Rightarrow> column_store \<Rightarrow> column_store" where
  "cs_mutated field col s = s\<lparr>cs_cols := um_set field col (cs_cols s)\<rparr>"

definition the_column :: "column_store \<Rightarrow> string \<Rightarrow> column" where
  "the_column s field = (case cs_column s field of Some col \<Rightarrow> col | None \<Rightarrow> make_null_column 0)"

definition cf_write_item ::
  "nat \<Rightarrow> string \<Rightarrow> variant \<Rightarrow> column_store \<Rightarrow> (column_store, error) outcome" where
  "cf_write_item idx field v s =
     and_then (case cs_column s field of
                 None \<Rightarrow> cs_set_column field (col_sized (first_write_type v) (cs_row_count s)) s
               | Some col \<Rightarrow> (s, None)) (\<lambda>s.
     and_then (let col = the_column s field
               in if is_null v \<and> col_type col \<noteq> TJson then cs_set_column field (col_to_json col) s
                  else (s, None)) (\<lambda>s.
     (case col_set (the_column s field) idx v of
        (col, True) \<Rightarrow> (cs_mutated field col s, None)
      | (col, False) \<Rightarrow> cs_set_column field (fst (col_set (col_to_json col) idx v)) (cs_mutated field col s))))"

text \<open>A store statement run on the frame's items.\<close>

definition on_items ::
  "(column_store \<Rightarrow> (column_store, error) outcome) \<Rightarrow> column_frame \<Rightarrow> (column_frame, error) outcome" where
  "on_items g f = (let (s, e) = g (cf_items f) in (f\<lparr>cf_items := s\<rparr>, e))"

definition cf_common_write :: "string \<Rightarrow> string \<times> variant \<Rightarrow> column_frame \<Rightarrow> (column_frame, error) outcome" where
  "cf_common_write op w f =
     check_then (check_common_write op w)
       (\<lambda>f. f\<lparr>cf_common := fm_set (fst w) (snd w) (cf_common f)\<rparr>) f"

definition cf_item_write :: "string \<Rightarrow> item_write \<Rightarrow> column_frame \<Rightarrow> (column_frame, error) outcome" where
  "cf_item_write op w f =
     and_then (check_then (check_item_write op (cs_row_count (cf_items f)) w) (\<lambda>f. f) f) (\<lambda>f.
       case w of (idx, field, value) \<Rightarrow> on_items (cf_write_item (nat idx) field value) f)"

definition cf_column_write ::
  "string \<Rightarrow> double_column_write \<Rightarrow> column_frame \<Rightarrow> (column_frame, error) outcome" where
  "cf_column_write op w f =
     and_then (check_then (check_column_write op (cs_row_count (cf_items f)) w) (\<lambda>f. f) f) (\<lambda>f.
       on_items (cs_set_column (fst w) (col_adopt (snd w))) f)"

definition cf_removals :: "string \<Rightarrow> int list \<Rightarrow> column_frame \<Rightarrow> (column_frame, error) outcome" where
  "cf_removals op removed f =
     (if removed = [] then (f, None)
      else and_then (check_then (check_removed op (cs_row_count (cf_items f)) removed) (\<lambda>f. f) f) (\<lambda>f.
             on_items (cs_remove_rows removed) f))"

text \<open>\<open>None\<close>: a permutation walk that does not end.\<close>

definition cf_reorder ::
  "string \<Rightarrow> operator_output \<Rightarrow> column_frame \<Rightarrow> (column_frame, error) outcome option" where
  "cf_reorder op out f =
     (if has_item_order out
      then case check_item_order op (cs_row_count (cf_items f)) (item_order out) of
             Some e \<Rightarrow> Some (f, Some e)
           | None \<Rightarrow> map_option (\<lambda>(s, e). (f\<lparr>cf_items := s\<rparr>, e)) (cs_reorder_rows (item_order out) (cf_items f))
      else Some (f, None))"

text \<open>Validation of one field of an added row, then its write.\<close>

definition cf_added_field ::
  "string \<Rightarrow> nat \<Rightarrow> string \<times> variant \<Rightarrow> column_frame \<Rightarrow> (column_frame, error) outcome" where
  "cf_added_field op row w f =
     (let v = validate_frame_value (fst w) (snd w)
      in if v \<noteq> [] then (f, Some (exec_error op (''added item write: '' @ v)))
         else on_items (cf_write_item row (fst w) (snd w)) f)"

definition cf_added ::
  "string \<Rightarrow> bool \<Rightarrow> nat \<times> object \<Rightarrow> column_frame \<Rightarrow> (column_frame, error) outcome" where
  "cf_added op is_recall r f =
     and_then (for_each (cf_added_field op (fst r)) (snd r) f) (\<lambda>f.
       if is_recall then on_items (cf_write_item (fst r) ''_source'' (VStr op)) f else (f, None))"

text \<open>All the rows are appended before the first added value is validated.\<close>

definition cf_additions ::
  "string \<Rightarrow> bool \<Rightarrow> object list \<Rightarrow> column_frame \<Rightarrow> (column_frame, error) outcome" where
  "cf_additions op is_recall added f =
     (if added = [] then (f, None)
      else let base = cs_row_count (cf_items f)
           in for_each (cf_added op is_recall) (zip [base..<base + length added] added)
                (f\<lparr>cf_items := cs_extend_rows (length added) (cf_items f)\<rparr>))"

definition cf_writes ::
  "operator_output \<Rightarrow> string \<Rightarrow> column_frame \<Rightarrow> (column_frame, error) outcome" where
  "cf_writes out op f =
     and_then (for_each (cf_common_write op) (common_writes out) f) (\<lambda>f.
     and_then (for_each (cf_item_write op) (item_writes out) f) (\<lambda>f.
     and_then (for_each (cf_column_write op) (column_writes out) f)
       (cf_removals op (removed_items out))))"

definition cf_apply_output ::
  "operator_output \<Rightarrow> string \<Rightarrow> bool \<Rightarrow> column_frame \<Rightarrow> (column_frame, error) outcome option" where
  "cf_apply_output out op is_recall f =
     (if cf_is_window_view f then Some (f, Some (cf_view_error ''apply_output''))
      else case cf_writes out op f of
        (f, Some e) \<Rightarrow> Some (f, Some e)
      | (f, None) \<Rightarrow>
          (case cf_reorder op out f of
             None \<Rightarrow> None
           | Some (f, Some e) \<Rightarrow> Some (f, Some e)
           | Some (f, None) \<Rightarrow> Some (
               and_then (cf_additions op is_recall (added_items out) f) (\<lambda>f.
                 (f\<lparr>cf_warnings := cf_warnings f @ frame_warning op out\<rparr>, None)))))"

end
