(* ===== verification/Row_Frame.thy ===== *)
theory Row_Frame
  imports Frame_Spec
begin

text \<open>
  \<open>RowFrame\<close> (\<open>src/dataframe/row_frame.cpp\<close>): common fields in one \<open>FlatMap\<close>, one
  \<open>FlatMap\<close> per item.  A window view aliases its parent's storage: in the model of a view
  \<open>rf_common\<close> and \<open>rf_items\<close> are the parent's, and \<open>rf_view\<close> holds the window.
\<close>

record row_frame =
  rf_common :: object
  rf_items :: "object list"
  rf_warnings :: "string list"
  rf_view :: "(nat \<times> nat) option"

definition rf_new :: "object \<Rightarrow> object list \<Rightarrow> row_frame" where
  "rf_new common items = \<lparr>rf_common = common, rf_items = items, rf_warnings = [], rf_view = None\<rparr>"

definition rf_is_window_view :: "row_frame \<Rightarrow> bool" where
  "rf_is_window_view f \<longleftrightarrow> rf_view f \<noteq> None"

section \<open>Reads\<close>

definition rf_get_common :: "row_frame \<Rightarrow> string \<Rightarrow> variant" where
  "rf_get_common f field = value_or_null (fm_find (rf_common f) field)"

definition rf_has_common :: "row_frame \<Rightarrow> string \<Rightarrow> bool" where
  "rf_has_common f field \<longleftrightarrow> fm_find (rf_common f) field \<noteq> None"

definition rf_common_fields :: "row_frame \<Rightarrow> string list" where
  "rf_common_fields f = sort (map fst (rf_common f))"

definition rf_item_count :: "row_frame \<Rightarrow> nat" where
  "rf_item_count f = (case rf_view f of Some (off, cnt) \<Rightarrow> cnt | None \<Rightarrow> length (rf_items f))"

text \<open>The row a (possibly windowed) index denotes: \<open>None\<close> when it is out of range.\<close>

definition rf_row :: "row_frame \<Rightarrow> nat \<Rightarrow> object option" where
  "rf_row f index =
     (case rf_view f of
        Some (off, cnt) \<Rightarrow> if index \<ge> cnt then None else Some (rf_items f ! (index + off))
      | None \<Rightarrow> if index \<ge> length (rf_items f) then None else Some (rf_items f ! index))"

definition rf_item :: "row_frame \<Rightarrow> nat \<Rightarrow> string \<Rightarrow> variant" where
  "rf_item f index field =
     (case rf_row f index of None \<Rightarrow> VNull | Some row \<Rightarrow> value_or_null (fm_find row field))"

definition rf_item_has :: "row_frame \<Rightarrow> nat \<Rightarrow> string \<Rightarrow> bool" where
  "rf_item_has f index field =
     (case rf_row f index of None \<Rightarrow> False | Some row \<Rightarrow> fm_find row field \<noteq> None)"

definition rf_window :: "row_frame \<Rightarrow> object list" where
  "rf_window f =
     (case rf_view f of
        Some (off, cnt) \<Rightarrow> map (\<lambda>i. rf_items f ! (off + i)) [0..<cnt]
      | None \<Rightarrow> rf_items f)"

definition rf_item_fields :: "row_frame \<Rightarrow> string list" where
  "rf_item_fields f = sort (add_seen (concat (map (map fst) (rf_window f))) [])"

definition rf_item_column :: "row_frame \<Rightarrow> string \<Rightarrow> variant list" where
  "rf_item_column f field = map (\<lambda>row. value_or_null (fm_find row field)) (rf_window f)"

fun rf_first_null :: "string \<Rightarrow> nat \<Rightarrow> object list \<Rightarrow> nat option" where
  "rf_first_null field i [] = None"
| "rf_first_null field i (row # rows) =
     (if is_null (value_or_null (fm_find row field)) then Some i else rf_first_null field (Suc i) rows)"

fun rf_validate_strict_items :: "row_frame \<Rightarrow> string list \<Rightarrow> string \<times> int" where
  "rf_validate_strict_items f [] = ([], -1)"
| "rf_validate_strict_items f (field # rest) =
     (case rf_first_null field 0 (rf_window f) of
        Some i \<Rightarrow> (field, int i)
      | None \<Rightarrow> rf_validate_strict_items f rest)"

text \<open>\<open>item_object\<close> copies the non-null entries of a row.\<close>

definition rf_item_object :: "row_frame \<Rightarrow> nat \<Rightarrow> object" where
  "rf_item_object f index =
     (case rf_row f index of
        None \<Rightarrow> []
      | Some row \<Rightarrow> fold (\<lambda>(k, v) out. if is_null v then out else fm_set k v out) row [])"

section \<open>Projection and views\<close>

definition rf_to_result :: "row_frame \<Rightarrow> string list \<Rightarrow> string list \<Rightarrow> error + result" where
  "rf_to_result f common_out item_out =
     (if rf_is_window_view f
      then Inl (Error (''RowFrame::to_result called on window view (window views are '' @
             ''read-only shard projections, not response sources)''))
      else Inr \<lparr>res_common = project (rf_common f) common_out,
                res_items = map (\<lambda>row. project row item_out) (rf_items f)\<rparr>)"

definition rf_make_window_view :: "row_frame \<Rightarrow> nat \<Rightarrow> nat \<Rightarrow> error + row_frame" where
  "rf_make_window_view f row_offset row_count =
     (let parent_rows = (if rf_is_window_view f then 0 else length (rf_items f))
      in if size_plus row_offset row_count > parent_rows
         then Inl (Error (''RowFrame::make_window_view: window ('' @ string_of_nat row_offset @
                '', '' @ string_of_nat row_count @ '') exceeds parent row count '' @
                string_of_nat parent_rows))
         else Inr (f\<lparr>rf_warnings := [], rf_view := Some (row_offset, row_count)\<rparr>))"

section \<open>Writes\<close>

definition rf_view_error :: "string \<Rightarrow> error" where
  "rf_view_error who =
     Error (''RowFrame::'' @ who @ '' called on window view (parallel shard contract violation)'')"

definition rf_set_common :: "string \<Rightarrow> variant \<Rightarrow> row_frame \<Rightarrow> (row_frame, error) outcome" where
  "rf_set_common field v f =
     (if rf_is_window_view f then (f, Some (rf_view_error ''set_common''))
      else (f\<lparr>rf_common := fm_set field v (rf_common f)\<rparr>, None))"

definition rf_push_warning :: "string \<Rightarrow> row_frame \<Rightarrow> (row_frame, error) outcome" where
  "rf_push_warning msg f =
     (if rf_is_window_view f then (f, Some (rf_view_error ''push_warning''))
      else (f\<lparr>rf_warnings := rf_warnings f @ [msg]\<rparr>, None))"

definition rf_take_warnings :: "row_frame \<Rightarrow> row_frame \<times> string list" where
  "rf_take_warnings f = (f\<lparr>rf_warnings := []\<rparr>, rf_warnings f)"

definition rf_common_write :: "string \<Rightarrow> string \<times> variant \<Rightarrow> row_frame \<Rightarrow> (row_frame, error) outcome" where
  "rf_common_write op w f =
     check_then (check_common_write op w)
       (\<lambda>f. f\<lparr>rf_common := fm_set (fst w) (snd w) (rf_common f)\<rparr>) f"

definition rf_item_write :: "string \<Rightarrow> item_write \<Rightarrow> row_frame \<Rightarrow> (row_frame, error) outcome" where
  "rf_item_write op w f =
     check_then (check_item_write op (length (rf_items f)) w)
       (\<lambda>f. case w of (idx, field, value) \<Rightarrow>
          f\<lparr>rf_items := (rf_items f)[nat idx := fm_set field value (rf_items f ! nat idx)]\<rparr>) f"

definition rf_column_write :: "string \<Rightarrow> double_column_write \<Rightarrow> row_frame \<Rightarrow> (row_frame, error) outcome" where
  "rf_column_write op w f =
     check_then (check_column_write op (length (rf_items f)) w)
       (\<lambda>f. f\<lparr>rf_items := map2 (\<lambda>row d. fm_set (fst w) (VNum d) row) (rf_items f) (snd w)\<rparr>) f"

definition rf_removals :: "string \<Rightarrow> int list \<Rightarrow> row_frame \<Rightarrow> (row_frame, error) outcome" where
  "rf_removals op removed f =
     (if removed = [] then (f, None)
      else check_then (check_removed op (length (rf_items f)) removed)
             (\<lambda>f. f\<lparr>rf_items := map ((!) (rf_items f)) (kept_indices (length (rf_items f)) removed)\<rparr>) f)"

definition rf_reorder :: "string \<Rightarrow> operator_output \<Rightarrow> row_frame \<Rightarrow> (row_frame, error) outcome" where
  "rf_reorder op out f =
     (if has_item_order out
      then check_then (check_item_order op (length (rf_items f)) (item_order out))
             (\<lambda>f. f\<lparr>rf_items := map (\<lambda>i. rf_items f ! nat i) (item_order out)\<rparr>) f
      else (f, None))"

definition rf_added :: "string \<Rightarrow> bool \<Rightarrow> object \<Rightarrow> row_frame \<Rightarrow> (row_frame, error) outcome" where
  "rf_added op is_recall added f =
     check_then (check_added op added)
       (\<lambda>f. f\<lparr>rf_items := rf_items f @
          [if is_recall then fm_set ''_source'' (VStr op) added else added]\<rparr>) f"

definition rf_apply_output ::
  "operator_output \<Rightarrow> string \<Rightarrow> bool \<Rightarrow> row_frame \<Rightarrow> (row_frame, error) outcome" where
  "rf_apply_output out op is_recall f =
     (if rf_is_window_view f then (f, Some (rf_view_error ''apply_output''))
      else
       and_then (for_each (rf_common_write op) (common_writes out) f) (\<lambda>f.
       and_then (for_each (rf_item_write op) (item_writes out) f) (\<lambda>f.
       and_then (for_each (rf_column_write op) (column_writes out) f) (\<lambda>f.
       and_then (rf_removals op (removed_items out) f) (\<lambda>f.
       and_then (rf_reorder op out f) (\<lambda>f.
       and_then (for_each (rf_added op is_recall) (added_items out) f) (\<lambda>f.
       (f\<lparr>rf_warnings := rf_warnings f @ frame_warning op out\<rparr>, None))))))))"

end
