(* ===== verification/Row_Refinement.thy ===== *)
theory Row_Refinement
  imports Row_Frame
begin

text \<open>
  \<open>RowFrame\<close> keeps the frame contract: each step of \<open>apply_output\<close> is simulated by the
  abstract step.
\<close>

definition rf_ok :: "row_frame \<Rightarrow> bool" where
  "rf_ok f \<longleftrightarrow> fm_ok (rf_common f) \<and> list_all fm_ok (rf_items f) \<and>
     (case rf_view f of None \<Rightarrow> True | Some (off, cnt) \<Rightarrow> off + cnt \<le> length (rf_items f))"

definition rf_owned :: "row_frame \<Rightarrow> bool" where
  "rf_owned f \<longleftrightarrow> \<not> rf_is_window_view f"

definition rf_abs :: "row_frame \<Rightarrow> aframe" where
  "rf_abs f = \<lparr>a_common = map_of (rf_common f),
               a_rows = map (\<lambda>r. unsign_row (map_of r)) (rf_window f), a_warnings = rf_warnings f\<rparr>"

definition rf_sim :: "row_frame \<Rightarrow> aframe \<Rightarrow> bool" where
  "rf_sim f a \<longleftrightarrow> rf_ok f \<and> rf_view f = None \<and> rf_abs f = a"

lemma unsign_row_fm_set:
  "fm_ok r \<Longrightarrow> unsign_row (map_of (fm_set k v r)) = (unsign_row (map_of r))(k \<mapsto> unsign_zero v)"
  by (auto simp: unsign_row_def map_of_fm_set fun_eq_iff)

lemma rf_simD:
  assumes "rf_sim f a"
  shows "rf_view f = None" "a_common a = map_of (rf_common f)"
    "a_rows a = map (\<lambda>r. unsign_row (map_of r)) (rf_items f)" "a_warnings a = rf_warnings f"
    "length (a_rows a) = length (rf_items f)" "fm_ok (rf_common f)" "list_all fm_ok (rf_items f)"
  using assms by (auto simp: rf_sim_def rf_abs_def rf_ok_def rf_window_def)

lemma rf_simI:
  assumes "rf_view f = None" "a_common a = map_of (rf_common f)"
    "a_rows a = map (\<lambda>r. unsign_row (map_of r)) (rf_items f)" "a_warnings a = rf_warnings f"
    "fm_ok (rf_common f)" "list_all fm_ok (rf_items f)"
  shows "rf_sim f a"
  using assms by (simp add: rf_sim_def rf_abs_def rf_ok_def rf_window_def)

text \<open>A checked step simulates if the accepted update does.\<close>

lemma sim_check_then:
  assumes "R s a" "e = None \<Longrightarrow> R (f s) (g a)"
  shows "sim R (check_then e f s) (check_then e g a)"
  using assms by (cases e) (auto simp: check_then_def)

lemma rf_common_write_sim: "rf_sim f a \<Longrightarrow> sim rf_sim (rf_common_write op w f) (af_common_write op w a)"
  unfolding rf_common_write_def af_common_write_def
  by (rule sim_check_then, assumption, rule rf_simI) (auto simp: rf_simD map_of_fm_set fm_ok_fm_set)

lemma rf_item_write_sim:
  assumes s: "rf_sim f a"
  shows "sim rf_sim (rf_item_write op w f) (af_item_write op w a)"
proof -
  note D = rf_simD [OF s]
  obtain idx field v where w: "w = (idx, field, v)" by (cases w)
  have "rf_sim (f\<lparr>rf_items := (rf_items f)[nat idx := fm_set field v (rf_items f ! nat idx)]\<rparr>)
     (a\<lparr>a_rows := (a_rows a)[nat idx := (a_rows a ! nat idx)(field \<mapsto> unsign_zero v)]\<rparr>)"
    if "nat idx < length (rf_items f)"
    by (rule rf_simI) (use D that in \<open>auto simp: map_update unsign_row_fm_set list_all_length
          nth_list_update fm_ok_fm_set\<close>)
  then show ?thesis
    unfolding rf_item_write_def af_item_write_def D(5) w
    by (intro sim_check_then s)
      (auto simp: check_item_write_def in_range_def split: if_splits)
qed

lemma rf_column_write_sim:
  assumes s: "rf_sim f a"
  shows "sim rf_sim (rf_column_write op w f) (af_column_write op w a)"
proof -
  note D = rf_simD [OF s]
  have "rf_sim (f\<lparr>rf_items := map2 (\<lambda>row d. fm_set (fst w) (VNum d) row) (rf_items f) (snd w)\<rparr>)
     (a\<lparr>a_rows := map2 (\<lambda>r d. r(fst w \<mapsto> unsign_zero (VNum d))) (a_rows a) (snd w)\<rparr>)"
    if "length (snd w) = length (rf_items f)"
    by (rule rf_simI) (use D that in \<open>auto simp: list_all_length unsign_row_fm_set fm_ok_fm_set
          intro!: nth_equalityI\<close>)
  then show ?thesis
    unfolding rf_column_write_def af_column_write_def D(5)
    by (intro sim_check_then s) (auto simp: check_column_write_def split: if_splits prod.splits)
qed

lemma rf_removals_sim:
  assumes s: "rf_sim f a"
  shows "sim rf_sim (rf_removals op removed f) (af_removals op removed a)"
proof -
  note D = rf_simD [OF s]
  let ?K = "kept_indices (length (rf_items f)) removed"
  have "rf_sim (f\<lparr>rf_items := map ((!) (rf_items f)) ?K\<rparr>) (a\<lparr>a_rows := map ((!) (a_rows a)) ?K\<rparr>)"
    by (rule rf_simI) (use D in \<open>auto simp: kept_indices_def list_all_iff\<close>)
  moreover have "a\<lparr>a_rows := map ((!) (a_rows a)) ?K\<rparr> = a" if "removed = []"
    using map_nth [of "a_rows a"] D(5) that by (simp add: kept_indices_def)
  ultimately show ?thesis
    using sim_check_then [of rf_sim f a] s
    by (auto simp: rf_removals_def af_removals_def D(5) check_then_def)
qed

lemma rf_reorder_sim:
  assumes s: "rf_sim f a"
  shows "sim rf_sim (rf_reorder op out f) (af_reorder op out a)"
proof -
  note D = rf_simD [OF s]
  let ?o = "item_order out"
  have "rf_sim (f\<lparr>rf_items := map (\<lambda>i. rf_items f ! nat i) ?o\<rparr>)
      (a\<lparr>a_rows := map (\<lambda>i. a_rows a ! nat i) ?o\<rparr>)" if "\<forall>i \<in> set ?o. nat i < length (rf_items f)"
    by (rule rf_simI) (use D that in \<open>auto simp: list_all_length list_all_iff\<close>)
  moreover have "\<forall>i \<in> set ?o. nat i < length (rf_items f)"
    if "check_item_order op (length (rf_items f)) ?o = None"
  proof -
    have "\<forall>i \<in> set xs. nat i < n" if "check_order op n seen xs = None" for n seen and xs :: "int list"
      using that by (induction op n seen xs rule: check_order.induct) (auto simp: in_range_def split: if_splits)
    then show ?thesis using that by (auto simp: check_item_order_def split: if_splits)
  qed
  ultimately show ?thesis
    unfolding rf_reorder_def af_reorder_def D(5) using s
    by (intro sim_if sim_check_then) auto
qed

lemma rf_added_sim:
  assumes s: "rf_sim f a" and row: "fm_ok row"
  shows "sim rf_sim (rf_added op r row f) (af_added op r row a)"
proof -
  note D = rf_simD [OF s]
  have "rf_sim (f\<lparr>rf_items := rf_items f @ [if r then fm_set ''_source'' (VStr op) row else row]\<rparr>)
     (a\<lparr>a_rows := a_rows a @ [added_row op r row]\<rparr>)"
    by (rule rf_simI) (use D row in \<open>auto simp: added_row_def Let_def unsign_row_fm_set fm_ok_fm_set\<close>)
  then show ?thesis unfolding rf_added_def af_added_def by (intro sim_check_then s)
qed

lemma rf_apply_output_sim:
  assumes s: "rf_sim f a" and out: "output_ok out"
  shows "sim rf_sim (rf_apply_output out op r f) (af_apply_output out op r a)"
proof -
  have warn: "rf_sim (f\<lparr>rf_warnings := rf_warnings f @ ws\<rparr>) (a\<lparr>a_warnings := a_warnings a @ ws\<rparr>)"
    if "rf_sim f a" for f a ws
    by (rule rf_simI) (use rf_simD [OF that] in auto)
  have view: "\<not> rf_is_window_view f" using rf_simD [OF s] by (simp add: rf_is_window_view_def)
  have added: "fm_ok row" if "row \<in> set (added_items out)" for row
    using out that by (auto simp: output_ok_def list_all_iff)
  show ?thesis
    unfolding rf_apply_output_def af_apply_output_def if_not_P [OF view]
    by (intro sim_and_then sim_for_each simI s rf_common_write_sim rf_item_write_sim rf_column_write_sim
        rf_removals_sim rf_reorder_sim rf_added_sim warn refl added; assumption)
qed

definition rf_apply ::
  "operator_output \<Rightarrow> string \<Rightarrow> bool \<Rightarrow> row_frame \<Rightarrow> (row_frame, error) outcome option" where
  "rf_apply out op is_recall f = Some (rf_apply_output out op is_recall f)"

lemma rf_reads:
  assumes ok: "rf_ok f"
  shows "rf_item_count f = length (a_rows (rf_abs f))"
    and "unsign_zero (rf_item f i field) = a_item (rf_abs f) i field"
    and "rf_item_has f i field = a_item_has (rf_abs f) i field"
    and "rf_get_common f field = value_or_null (a_common (rf_abs f) field)"
proof -
  show cnt: "rf_item_count f = length (a_rows (rf_abs f))"
    by (auto simp: rf_item_count_def rf_abs_def rf_window_def split: option.split)
  have row: "rf_row f i = (if i < length (rf_window f) then Some (rf_window f ! i) else None)"
    by (auto simp: rf_row_def rf_window_def add.commute split: option.split)
  have fm: "fm_ok (rf_window f ! i)" if "i < length (rf_window f)"
    using ok that by (auto simp: rf_ok_def rf_window_def list_all_length split: option.splits prod.splits)
  show "unsign_zero (rf_item f i field) = a_item (rf_abs f) i field"
    using fm row by (auto simp: rf_item_def a_item_def rf_abs_def unsign_row_def value_or_null_def
        fm_find_map_of split: option.split)
  show "rf_item_has f i field = a_item_has (rf_abs f) i field"
    using fm row by (auto simp: rf_item_has_def a_item_has_def rf_abs_def unsign_row_def fm_find_map_of)
  show "rf_get_common f field = value_or_null (a_common (rf_abs f) field)"
    using ok by (simp add: rf_get_common_def rf_abs_def rf_ok_def fm_find_map_of)
qed

lemma rf_owned_iff: "rf_owned f \<longleftrightarrow> rf_view f = None"
  unfolding rf_owned_def rf_is_window_view_def by blast

lemma rf_apply_step:
  assumes "rf_ok f" "rf_owned f" "output_ok out"
  shows "\<exists>g e. rf_apply out op r f = Some (g, e) \<and> rf_ok g \<and> rf_owned g \<and>
      e = snd (af_apply_output out op r (rf_abs f)) \<and>
      (e = None \<or> added_items out = [] \<longrightarrow> rf_abs g = fst (af_apply_output out op r (rf_abs f)))"
proof -
  have s: "rf_sim f (rf_abs f)" using assms by (simp add: rf_sim_def rf_owned_iff)
  obtain g e where g: "rf_apply_output out op r f = (g, e)" by force
  then show ?thesis
    using rf_apply_output_sim [OF s assms(3), of op r]
    by (simp add: rf_apply_def sim_def rf_sim_def rf_owned_iff)
qed

lemma rf_view_some:
  assumes "rf_ok f" "rf_owned f" "off + cnt \<le> rf_item_count f"
  shows "\<exists>v. rf_make_window_view f off cnt = Inr v \<and> rf_ok v \<and> \<not> rf_owned v \<and>
      rf_abs v = a_window off cnt (rf_abs f)"
proof -
  have v: "rf_view f = None" "off + cnt \<le> length (rf_items f)"
    using assms by (auto simp: rf_owned_iff rf_item_count_def)
  let ?v = "f\<lparr>rf_warnings := [], rf_view := Some (off, cnt)\<rparr>"
  have "rf_make_window_view f off cnt = Inr ?v"
    using v size_plus_le [of off cnt] by (simp add: rf_make_window_view_def rf_is_window_view_def)
  moreover have "rf_ok ?v" using assms(1) v by (simp add: rf_ok_def)
  moreover have "map (\<lambda>i. rf_items f ! (off + i)) [0..<cnt] = take cnt (drop off (rf_items f))"
    using v(2) by (intro nth_equalityI) auto
  then have "rf_abs ?v = a_window off cnt (rf_abs f)"
    using v(1) by (simp add: rf_abs_def a_window_def rf_window_def take_map drop_map)
  ultimately show ?thesis by (auto simp: rf_owned_iff)
qed

lemma project_ok:
  assumes "fm_ok src"
  shows "fm_ok (project src fs)" "map_of (project src fs) = map_of src |` set fs"
proof -
  define step where "step = (\<lambda>field out. case fm_find src field of None \<Rightarrow> out | Some v \<Rightarrow> fm_set field v out)"
  have "fm_ok (fold step fs out) \<and>
      map_of (fold step fs out) = (\<lambda>k. if k \<in> set fs \<and> map_of src k \<noteq> None then map_of src k else map_of out k)"
    if "fm_ok out" for out
    using that
  proof (induction fs arbitrary: out)
    case (Cons field fs)
    have "fm_ok (step field out)" "map_of (step field out) =
        (\<lambda>k. if k = field \<and> map_of src k \<noteq> None then map_of src k else map_of out k)"
      using Cons.prems assms
      by (auto simp: step_def fm_find_map_of fm_ok_fm_set map_of_fm_set fun_eq_iff split: option.split)
    with Cons.IH [OF this(1)] show ?case by (auto simp: fun_eq_iff)
  qed simp
  from this [of "[]"] show "fm_ok (project src fs)" "map_of (project src fs) = map_of src |` set fs"
    by (auto simp: project_def step_def restrict_map_def fun_eq_iff)
qed

lemma rf_result_abs:
  assumes "rf_ok f" "rf_owned f"
  shows "\<exists>r. rf_to_result f common_out item_out = Inr r \<and> renders r common_out item_out (rf_abs f)"
proof -
  have "unsign_row (map_of (project row fs)) = unsign_row (map_of row) |` set fs" if "fm_ok row" for row fs
    using project_ok(2) [OF that] by (auto simp: unsign_row_def restrict_map_def fun_eq_iff)
  then show ?thesis
    using assms project_ok
    by (simp add: rf_to_result_def rf_owned_def renders_def rf_abs_def rf_ok_def rf_window_def
        rf_is_window_view_def list_all_iff split: option.splits)
qed

lemma rf_column_abs:
  assumes "rf_ok f"
  shows "map unsign_zero (rf_item_column f field) = a_column (rf_abs f) field"
proof -
  have "fm_ok row" if "row \<in> set (rf_window f)" for row
    using assms that by (force simp: rf_ok_def rf_window_def list_all_iff split: option.splits prod.splits)
  then show ?thesis
    by (simp add: rf_item_column_def a_column_def rf_abs_def fm_find_map_of unsign_row_def value_or_null_def
        split: option.split)
qed

lemma rf_first_null_find:
  "rf_first_null field k rows =
     map_option ((+) k) (find (\<lambda>i. is_null (value_or_null (fm_find (rows ! i) field))) [0..<length rows])"
proof (induction rows arbitrary: k)
  case (Cons row rows)
  have upt: "[0..<length (row # rows)] = 0 # map Suc [0..<length rows]"
    by (simp add: map_Suc_upt upt_conv_Cons del: upt_Suc)
  have "find P (map Suc xs) = map_option Suc (find (\<lambda>i. P (Suc i)) xs)" for P and xs :: "nat list"
    by (induction xs) auto
  then show ?case
    unfolding upt using Cons.IH by (simp add: option.map_comp comp_def)
qed simp

lemma plus_0: "(+) (0::nat) = (\<lambda>x. x)" "map_option (\<lambda>x. x) y = y"
  by (auto simp: option.map_ident)

lemma rf_strict_abs:
  assumes "rf_ok f"
  shows "rf_validate_strict_items f fs = a_validate_strict (rf_abs f) fs"
proof (induction fs)
  case (Cons field fs)
  have "length (rf_window f) = length (a_rows (rf_abs f))" by (simp add: rf_abs_def)
  moreover have "is_null (a_column (rf_abs f) field ! i) = is_null (value_or_null (fm_find (rf_window f ! i) field))"
    if "i < length (rf_window f)" for i
    using arg_cong [OF rf_column_abs [OF assms, of field], of "\<lambda>xs. xs ! i"] that
    by (metis is_null_def length_map nth_map rf_item_column_def unsign_zero_eq_null)
  ultimately have "find (\<lambda>i. is_null (a_column (rf_abs f) field ! i)) [0..<length (a_rows (rf_abs f))] =
      rf_first_null field 0 (rf_window f)"
    unfolding rf_first_null_find [of field 0] plus_0
    by (auto intro!: find_cong)
  then show ?case using Cons.IH by (simp split: option.split)
qed simp

interpretation row: readable_frame rf_ok rf_owned rf_abs rf_apply rf_item_count rf_item rf_item_has
  rf_get_common rf_make_window_view rf_to_result rf_item_column rf_validate_strict_items
proof unfold_locales
  fix f :: row_frame and off cnt
  assume "rf_ok f" "rf_owned f" "rf_item_count f < size_plus off cnt"
  then show "\<exists>e. rf_make_window_view f off cnt = Inl e"
    by (simp add: rf_make_window_view_def rf_is_window_view_def rf_owned_iff rf_item_count_def Let_def)
next
  fix f :: row_frame and out op r
  assume "rf_ok f" "rf_owned f" "output_ok out"
  then show "\<exists>g e. rf_apply out op r f = Some (g, e) \<and> rf_ok g \<and> rf_owned g \<and>
      e = snd (af_apply_output out op r (rf_abs f)) \<and>
      (e = None \<or> added_items out = [] \<longrightarrow> rf_abs g = fst (af_apply_output out op r (rf_abs f)))"
    by (rule rf_apply_step)
next
  fix f :: row_frame and out op r
  assume "rf_ok f" "\<not> rf_owned f"
  then show "\<exists>e. rf_apply out op r f = Some (f, Some e)"
    by (simp add: rf_owned_def rf_apply_def rf_apply_output_def)
qed (simp_all add: rf_reads rf_view_some rf_result_abs rf_column_abs rf_strict_abs)

end
