(* ===== verification/Column_Refinement.thy ===== *)
theory Column_Refinement
  imports Column_Frame Row_Refinement
begin

text \<open>
  \<open>ColumnFrame\<close> keeps the frame contract: an element write, with its type promotions, changes one
  cell, and every step of \<open>apply_output\<close> is simulated by the abstract step.
\<close>

section \<open>Element writes\<close>

lemma cs_mutated_ok:
  assumes "cs_ok s" "col_ok c" "col_size c = cs_row_count s"
  shows "cs_set_column field c s = (cs_mutated field c s, None)" "cs_ok (cs_mutated field c s)"
    "cs_row_count (cs_mutated field c s) = cs_row_count s"
    "cs_column (cs_mutated field c s) = (cs_column s)(field \<mapsto> c)"
proof -
  show "cs_set_column field c s = (cs_mutated field c s, None)"
    using assms by (simp add: cs_set_column_def cs_mutated_def Let_def)
  then show "cs_ok (cs_mutated field c s)" "cs_row_count (cs_mutated field c s) = cs_row_count s"
    "cs_column (cs_mutated field c s) = (cs_column s)(field \<mapsto> c)"
    using cs_set_column_ok [OF assms, of field] by auto
qed

definition cells_at :: "column_store \<Rightarrow> string \<Rightarrow> variant option list" where
  "cells_at s field =
     (case cs_column s field of None \<Rightarrow> replicate (cs_row_count s) None | Some c \<Rightarrow> col_cells c)"

lemma cells_at_nth: "i < cs_row_count s \<Longrightarrow> cells_at s field ! i = cs_row s i field"
  by (simp add: cells_at_def cs_row_def split: option.split)

text \<open>\<open>holds s s' field cells\<close>: \<open>s'\<close> is \<open>s\<close> with one column holding the cells.\<close>

definition holds :: "column_store \<Rightarrow> column_store \<Rightarrow> string \<Rightarrow> variant option list \<Rightarrow> bool" where
  "holds s s' field cells \<longleftrightarrow> cs_ok s' \<and> cs_row_count s' = cs_row_count s \<and>
     (\<exists>c. cs_column s' = (cs_column s)(field \<mapsto> c) \<and> col_cells c = cells)"

lemma holds_mutated:
  assumes "holds s s1 field cells" "col_ok c" "col_size c = cs_row_count s" "col_cells c = cells'"
  shows "holds s (cs_mutated field c s1) field cells'"
  using assms cs_mutated_ok [of s1 c field] by (auto simp: holds_def)

lemma holds_column:
  assumes "holds s s1 field cells"
  shows "cs_column s1 field = Some (the_column s1 field)" "col_ok (the_column s1 field)"
    "col_size (the_column s1 field) = cs_row_count s" "col_cells (the_column s1 field) = cells" "cs_ok s1"
    "cs_row_count s1 = cs_row_count s"
  using assms cs_okD [of s1 field] by (auto simp: holds_def the_column_def)

lemma holds_rows:
  assumes "holds s s' field ((cells_at s field)[idx := Some v])" "idx < cs_row_count s" "cs_ok s"
  shows "cs_rows s' = (cs_rows s)[idx := (cs_rows s ! idx)(field \<mapsto> v)]"
proof -
  obtain c where c: "cs_column s' = (cs_column s)(field \<mapsto> c)"
      "col_cells c = (cells_at s field)[idx := Some v]" and rc: "cs_row_count s' = cs_row_count s"
    using assms(1) by (auto simp: holds_def)
  have "cs_row s' i = (cs_row s i)(field := col_cells c ! i)" for i
    using c(1) by (auto simp: cs_row_def)
  moreover have len: "length (cells_at s field) = cs_row_count s"
    using cs_okD [OF assms(3)] by (auto simp: cells_at_def split: option.split)
  have "(cs_row s i)(field := col_cells c ! i) = (if i = idx then (cs_row s i)(field \<mapsto> v) else cs_row s i)"
    if "i < cs_row_count s" for i
    using that assms(2) by (auto simp: c(2) nth_list_update len cells_at_nth)
  ultimately show ?thesis
    using assms(2) rc by (intro nth_equalityI) (auto simp: nth_list_update)
qed

text \<open>The three phases of an element write: find or create, make room for null, set or promote.\<close>

lemma write_phase_create:
  assumes "cs_ok s"
  shows "\<exists>s1. (case cs_column s field of
             None \<Rightarrow> cs_set_column field (col_sized ty (cs_row_count s)) s
           | Some col \<Rightarrow> (s, None)) = (s1, None) \<and> holds s s1 field (cells_at s field)"
proof (cases "cs_column s field")
  case None
  then show ?thesis
    using cs_mutated_ok [OF assms, of "col_sized ty (cs_row_count s)" field]
    by (auto simp: holds_def cells_at_def)
next
  case (Some c)
  then have "cs_column s = (cs_column s)(field \<mapsto> c)" by (simp add: fun_upd_idem)
  then show ?thesis using assms Some by (auto simp: holds_def cells_at_def)
qed

lemma write_phase_null:
  assumes "holds s s1 field cells"
  shows "\<exists>s2. (let col = the_column s1 field
       in if is_null v \<and> col_type col \<noteq> TJson then cs_set_column field (col_to_json col) s1
          else (s1, None)) = (s2, None) \<and> holds s s2 field cells"
proof -
  note C = holds_column [OF assms]
  note J = col_to_json_cells [OF C(2)]
  show ?thesis
    using assms C J holds_mutated [OF assms J(1) _ J(2)]
      cs_mutated_ok(1) [of s1 "col_to_json (the_column s1 field)" field] by (auto simp: Let_def)
qed

lemma write_phase_set:
  assumes "holds s s2 field cells" "idx < cs_row_count s" "num_ok v"
  shows "\<exists>s3. (case col_set (the_column s2 field) idx v of
        (col, True) \<Rightarrow> (cs_mutated field col s2, None)
      | (col, False) \<Rightarrow> cs_set_column field (fst (col_set (col_to_json col) idx v)) (cs_mutated field col s2))
      = (s3, None) \<and> holds s s3 field (cells[idx := Some (unsign_zero v)])"
proof -
  let ?c = "the_column s2 field"
  note C = holds_column [OF assms(1)]
  note J = col_to_json_cells [OF C(2)]
  obtain c' b where set: "col_set ?c idx v = (c', b)" by force
  show ?thesis
  proof (cases b)
    case True
    then show ?thesis
      using col_set_accepted [OF C(2) assms(3)] holds_mutated [OF assms(1)] C set by auto
  next
    case False
    then have c': "c' = ?c" using col_set_refused [of ?c idx v c'] set by simp
    obtain ds vs where j: "col_to_json ?c = JsonCol ds vs" using J(4) by (cases "col_to_json ?c") auto
    then have acc: "col_set (col_to_json ?c) idx v = (fst (col_set (col_to_json ?c) idx v), True)"
      using J(3) C(3) assms(2) by simp
    note A = col_set_accepted [OF J(1) assms(3) acc]
    have h: "holds s (cs_mutated field ?c s2) field cells"
      using holds_mutated [OF assms(1) C(2,3)] C(4) by simp
    note M = cs_mutated_ok(1) [OF holds_column(5) [OF h], of "fst (col_set (col_to_json ?c) idx v)" field]
    show ?thesis
      using A J(3) C(3,4) M holds_column(6) [OF h] holds_mutated [OF h] J(2) False
      by (auto simp: set c')
  qed
qed

lemma cf_write_item_ok:
  assumes "cs_ok s" "idx < cs_row_count s" "num_ok v"
  shows "\<exists>s'. cf_write_item idx field v s = (s', None) \<and> cs_ok s' \<and> cs_row_count s' = cs_row_count s \<and>
     cs_rows s' = (cs_rows s)[idx := (cs_rows s ! idx)(field \<mapsto> unsign_zero v)]"
proof -
  obtain s1 where 1: "(case cs_column s field of
             None \<Rightarrow> cs_set_column field (col_sized (first_write_type v) (cs_row_count s)) s
           | Some col \<Rightarrow> (s, None)) = (s1, None)" "holds s s1 field (cells_at s field)"
    using write_phase_create [OF assms(1)] by blast
  obtain s2 where 2: "(let col = the_column s1 field
       in if is_null v \<and> col_type col \<noteq> TJson then cs_set_column field (col_to_json col) s1
          else (s1, None)) = (s2, None)" "holds s s2 field (cells_at s field)"
    using write_phase_null [OF 1(2)] by blast
  obtain s3 where 3: "(case col_set (the_column s2 field) idx v of
        (col, True) \<Rightarrow> (cs_mutated field col s2, None)
      | (col, False) \<Rightarrow> cs_set_column field (fst (col_set (col_to_json col) idx v)) (cs_mutated field col s2))
      = (s3, None)" "holds s s3 field ((cells_at s field)[idx := Some (unsign_zero v)])"
    using write_phase_set [OF 2(2) assms(2,3)] by blast
  have "cf_write_item idx field v s = (s3, None)"
    unfolding cf_write_item_def 1(1) and_then_None 2(1) 3(1) ..
  then show ?thesis
    using holds_rows [OF 3(2) assms(2,1)] 3(2) by (auto simp: holds_def)
qed

section \<open>Simulation\<close>

definition cf_ok :: "column_frame \<Rightarrow> bool" where
  "cf_ok f \<longleftrightarrow> fm_ok (cf_common f) \<and> cs_ok (cf_items f) \<and>
     (case cf_view f of None \<Rightarrow> True | Some (off, cnt) \<Rightarrow> off + cnt \<le> cs_row_count (cf_items f))"

definition cf_owned :: "column_frame \<Rightarrow> bool" where
  "cf_owned f \<longleftrightarrow> \<not> cf_is_window_view f"

definition cf_abs :: "column_frame \<Rightarrow> aframe" where
  "cf_abs f = \<lparr>a_common = map_of (cf_common f),
     a_rows = take (cf_item_count f) (drop (cf_offset f) (cs_rows (cf_items f))), a_warnings = cf_warnings f\<rparr>"

definition cf_sim :: "column_frame \<Rightarrow> aframe \<Rightarrow> bool" where
  "cf_sim f a \<longleftrightarrow> cf_ok f \<and> cf_view f = None \<and> cf_abs f = a"

lemma cf_owned_iff: "cf_owned f \<longleftrightarrow> cf_view f = None"
  unfolding cf_owned_def cf_is_window_view_def by blast

lemma cf_simD:
  assumes "cf_sim f a"
  shows "cf_view f = None" "a_common a = map_of (cf_common f)" "a_rows a = cs_rows (cf_items f)"
    "a_warnings a = cf_warnings f" "length (a_rows a) = cs_row_count (cf_items f)"
    "fm_ok (cf_common f)" "cs_ok (cf_items f)"
  using assms by (auto simp: cf_sim_def cf_abs_def cf_ok_def cf_item_count_def cf_offset_def)

lemma cf_simI:
  assumes "cf_view f = None" "a_common a = map_of (cf_common f)" "a_rows a = cs_rows (cf_items f)"
    "a_warnings a = cf_warnings f" "fm_ok (cf_common f)" "cs_ok (cf_items f)"
  shows "cf_sim f a"
  using assms by (simp add: cf_sim_def cf_abs_def cf_ok_def cf_item_count_def cf_offset_def)

lemma on_items_sim:
  assumes "cf_sim f a" "\<exists>s'. g (cf_items f) = (s', None) \<and> cs_ok s' \<and> cs_rows s' = rows'"
  shows "\<exists>f'. on_items g f = (f', None) \<and> cf_sim f' (a\<lparr>a_rows := rows'\<rparr>)"
proof -
  obtain s' where s': "g (cf_items f) = (s', None)" "cs_ok s'" "cs_rows s' = rows'"
    using assms(2) by blast
  have "cf_sim (f\<lparr>cf_items := s'\<rparr>) (a\<lparr>a_rows := rows'\<rparr>)"
    by (rule cf_simI) (use cf_simD [OF assms(1)] s' in auto)
  then show ?thesis using s'(1) by (simp add: on_items_def)
qed

lemma sim_check_do:
  assumes "R f a" "e = None \<Longrightarrow> \<exists>f'. h f = (f', None) \<and> R f' (g a)"
  shows "sim R (and_then (check_then e (\<lambda>f. f) f) h) (check_then e g a)"
  using assms by (cases e) (auto simp: check_then_def sim_def)

lemma cf_common_write_sim: "cf_sim f a \<Longrightarrow> sim cf_sim (cf_common_write op w f) (af_common_write op w a)"
  unfolding cf_common_write_def af_common_write_def
  by (rule sim_check_then, assumption, rule cf_simI) (auto simp: cf_simD map_of_fm_set fm_ok_fm_set)

text \<open>A whole element write on the frame.\<close>

lemma cf_write_cell:
  assumes "cf_sim f a" "idx < length (a_rows a)" "num_ok v"
  shows "\<exists>f'. on_items (cf_write_item idx field v) f = (f', None) \<and>
    cf_sim f' (a\<lparr>a_rows := (a_rows a)[idx := (a_rows a ! idx)(field \<mapsto> unsign_zero v)]\<rparr>)"
proof (rule on_items_sim [OF assms(1)])
  show "\<exists>s'. cf_write_item idx field v (cf_items f) = (s', None) \<and> cs_ok s' \<and>
      cs_rows s' = (a_rows a)[idx := (a_rows a ! idx)(field \<mapsto> unsign_zero v)]"
    using cf_write_item_ok [of "cf_items f" idx v field] cf_simD [OF assms(1)] assms(2,3) by auto
qed

lemma cf_item_write_sim:
  assumes s: "cf_sim f a" and num: "num_ok (snd (snd w))"
  shows "sim cf_sim (cf_item_write op w f) (af_item_write op w a)"
proof -
  obtain idx field v where w: "w = (idx, field, v)" by (cases w)
  show ?thesis
    unfolding cf_item_write_def af_item_write_def cf_simD(5) [OF s] w prod.case
    by (rule sim_check_do [of cf_sim, OF s])
      (use num w cf_write_cell [OF s, of "nat idx" v field] cf_simD(5) [OF s] in
        \<open>auto simp: check_item_write_def in_range_def split: if_splits\<close>)
qed

lemma cf_column_write_sim:
  assumes s: "cf_sim f a"
  shows "sim cf_sim (cf_column_write op w f) (af_column_write op w a)"
proof -
  note D = cf_simD [OF s]
  let ?rows = "map2 (\<lambda>r d. r(fst w \<mapsto> unsign_zero (VNum d))) (a_rows a) (snd w)"
  have "\<exists>s'. cs_set_column (fst w) (col_adopt (snd w)) (cf_items f) = (s', None) \<and> cs_ok s' \<and> cs_rows s' = ?rows"
    if len: "length (snd w) = cs_row_count (cf_items f)"
  proof -
    obtain s' where s': "cs_set_column (fst w) (col_adopt (snd w)) (cf_items f) = (s', None)" "cs_ok s'"
        "cs_row_count s' = cs_row_count (cf_items f)"
        "\<forall>i. cs_row s' i = (cs_row (cf_items f) i)(fst w := col_cells (col_adopt (snd w)) ! i)"
      using cs_set_column_ok [OF D(7) col_adopt_cells(1), of "snd w" "fst w"] len col_adopt_cells(2) by auto
    moreover have "cs_rows s' = ?rows"
      by (rule nth_equalityI) (use s' len D col_adopt_cells(3) in auto)
    ultimately show ?thesis by blast
  qed
  then show ?thesis
    unfolding cf_column_write_def af_column_write_def D(5)
    by (intro sim_check_do s on_items_sim)
      (auto simp: check_column_write_def split: if_splits prod.splits)
qed

lemma cf_removals_sim:
  assumes s: "cf_sim f a" and rm: "sorted_wrt (<) removed"
  shows "sim cf_sim (cf_removals op removed f) (af_removals op removed a)"
proof -
  note D = cf_simD [OF s]
  let ?K = "kept_indices (length (a_rows a)) removed"
  have dist: "distinct removed" using rm strict_sorted_iff by blast
  have "\<exists>s'. cs_remove_rows removed (cf_items f) = (s', None) \<and> cs_ok s' \<and> cs_rows s' = map ((!) (a_rows a)) ?K"
    if "check_removed op (length (a_rows a)) removed = None"
    using cs_remove_rows_ok [OF D(7) _ dist] that D by (simp add: check_removed_None_iff)
  then have "sim cf_sim (and_then (check_then (check_removed op (length (a_rows a)) removed) (\<lambda>f. f) f)
      (on_items (cs_remove_rows removed))) (af_removals op removed a)"
    unfolding af_removals_def by (intro sim_check_do s on_items_sim)
  moreover have "af_removals op [] a = (a, None)"
    using map_nth [of "a_rows a"] by (simp add: af_removals_def check_then_def kept_indices_def)
  ultimately show ?thesis
    using s unfolding cf_removals_def D(5) [symmetric] by (simp add: simI)
qed

lemma cf_writes_sim:
  assumes s: "cf_sim f a" and out: "output_ok out" "output_num_ok out"
  shows "sim cf_sim (cf_writes out op f)
    (and_then (for_each (af_common_write op) (common_writes out) a) (\<lambda>a.
     and_then (for_each (af_item_write op) (item_writes out) a) (\<lambda>a.
     and_then (for_each (af_column_write op) (column_writes out) a)
       (af_removals op (removed_items out)))))"
proof -
  have num: "num_ok (snd (snd w))" if "w \<in> set (item_writes out)" for w
    using out(2) that by (auto simp: output_num_ok_def list_all_iff)
  have rm: "sorted_wrt (<) (removed_items out)" using out(1) by (simp add: output_ok_def)
  show ?thesis
    unfolding cf_writes_def
    by (intro sim_and_then sim_for_each s cf_common_write_sim cf_item_write_sim cf_column_write_sim
        cf_removals_sim num rm; assumption)
qed

lemma cf_reorder_sim:
  assumes s: "cf_sim f a"
  shows "\<exists>r. cf_reorder op out f = Some r \<and> sim cf_sim r (af_reorder op out a)"
proof -
  note D = cf_simD [OF s]
  let ?o = "item_order out"
  show ?thesis
  proof (cases "has_item_order out \<and> check_item_order op (cs_row_count (cf_items f)) ?o = None")
    case True
    then obtain s' where s': "cs_reorder_rows ?o (cf_items f) = Some (s', None)" "cs_ok s'"
        "cs_rows s' = map (\<lambda>i. a_rows a ! nat i) ?o"
      using cs_reorder_rows_ok [OF D(7), of ?o] D by (auto simp: check_item_order_iff_perm)
    have "cf_sim (f\<lparr>cf_items := s'\<rparr>) (a\<lparr>a_rows := map (\<lambda>i. a_rows a ! nat i) ?o\<rparr>)"
      by (rule cf_simI) (use D s' in auto)
    then show ?thesis
      using True s' D by (simp add: cf_reorder_def af_reorder_def check_then_def sim_def)
  next
    case False
    then show ?thesis
      using s D by (auto simp: cf_reorder_def af_reorder_def check_then_def sim_def split: option.split)
  qed
qed

section \<open>Additions\<close>

definition put_field :: "string \<times> variant \<Rightarrow> (string \<rightharpoonup> variant) \<Rightarrow> (string \<rightharpoonup> variant)" where
  "put_field w r = r(fst w \<mapsto> unsign_zero (snd w))"

lemma put_fields:
  "distinct (map fst ws) \<Longrightarrow> fold put_field ws r = r ++ unsign_row (map_of ws)"
proof (induction ws arbitrary: r)
  case Nil
  show ?case by (auto simp: unsign_row_def map_add_def fun_eq_iff)
next
  case (Cons w ws)
  have "map_of ws (fst w) = None" using Cons.prems by (simp add: map_of_eq_None_iff)
  then have "put_field w r ++ unsign_row (map_of ws) = r ++ unsign_row (map_of (w # ws))"
    by (auto simp: put_field_def unsign_row_def map_add_def fun_eq_iff split: option.split)
  moreover have "fold put_field (w # ws) r = put_field w r ++ unsign_row (map_of ws)"
    using Cons by simp
  ultimately show ?case by (simp only:)
qed

text \<open>An outcome that either reaches a given abstract state or throws with the invariant intact.\<close>

definition reaches :: "(column_frame, error) outcome \<Rightarrow> error option \<Rightarrow> aframe \<Rightarrow> bool" where
  "reaches r e a \<longleftrightarrow> snd r = e \<and> (if e = None then cf_sim (fst r) a else cf_ok (fst r) \<and> cf_owned (fst r))"

lemma cf_added_fields:
  assumes "cf_sim f a" "idx < length (a_rows a)" "list_all (\<lambda>w. num_ok (snd w)) ws"
  shows "reaches (for_each (cf_added_field op idx) ws f) (check_added op ws)
           (a\<lparr>a_rows := (a_rows a)[idx := fold put_field ws (a_rows a ! idx)]\<rparr>)"
  using assms
proof (induction ws arbitrary: f a)
  case Nil
  then show ?case by (simp add: reaches_def)
next
  case (Cons w ws)
  obtain field v where w: "w = (field, v)" by force
  show ?case
  proof (cases "validate_frame_value field v = []")
    case False
    then show ?thesis
      using Cons.prems by (auto simp: w cf_added_field_def reaches_def cf_sim_def cf_owned_iff)
  next
    case True
    obtain f' where f': "on_items (cf_write_item idx field v) f = (f', None)"
        "cf_sim f' (a\<lparr>a_rows := (a_rows a)[idx := put_field w (a_rows a ! idx)]\<rparr>)"
      using cf_write_cell [OF Cons.prems(1,2), of v field] Cons.prems(3) by (auto simp: w put_field_def)
    then show ?thesis
      using Cons.IH [OF f'(2)] Cons.prems(2,3) True by (simp add: w cf_added_field_def)
  qed
qed

lemma cf_added_row:
  assumes "cf_sim f a" "idx < length (a_rows a)" "a_rows a ! idx = Map.empty" "fm_ok row"
    "list_all (\<lambda>w. num_ok (snd w)) row"
  shows "reaches (cf_added op r (idx, row) f) (check_added op row)
           (a\<lparr>a_rows := (a_rows a)[idx := added_row op r row]\<rparr>)"
proof -
  let ?a = "a\<lparr>a_rows := (a_rows a)[idx := unsign_row (map_of row)]\<rparr>"
  obtain f' e where f': "for_each (cf_added_field op idx) row f = (f', e)" by force
  have "reaches (f', e) (check_added op row) ?a"
    using cf_added_fields [OF assms(1,2,5), of op] fm_ok_distinct [OF assms(4)] assms(3) f'
    by (simp add: put_fields)
  then show ?thesis
    using cf_write_cell [of f' ?a idx "VStr op" "''_source''"] assms(2) f'
    by (cases e) (auto simp: cf_added_def reaches_def added_row_def Let_def)
qed

lemma cf_added_rows:
  assumes "cf_sim f (a\<lparr>a_rows := a_rows a @ replicate (length added) Map.empty\<rparr>)"
    "list_all fm_ok added" "list_all (list_all (\<lambda>w. num_ok (snd w))) added" "n = length (a_rows a)"
  shows "reaches (for_each (cf_added op r) (zip [n..<n + length added] added) f)
     (snd (for_each (af_added op r) added a)) (fst (for_each (af_added op r) added a))"
  using assms
proof (induction added arbitrary: f a n)
  case Nil
  then show ?case by (simp add: reaches_def)
next
  case (Cons row rows)
  let ?b = "a\<lparr>a_rows := a_rows a @ [added_row op r row]\<rparr>"
  have zip: "zip [n..<n + length (row # rows)] (row # rows) = (n, row) # zip [Suc n..<Suc n + length rows] rows"
    by (simp add: upt_conv_Cons del: upt_Suc)
  obtain f' e where f': "cf_added op r (n, row) f = (f', e)" by force
  have "reaches (f', e) (check_added op row) (?b\<lparr>a_rows := a_rows ?b @ replicate (length rows) Map.empty\<rparr>)"
    using cf_added_row [OF Cons.prems(1), of n row op r] Cons.prems f'
    by (simp add: nth_append list_update_append)
  then show ?case
    using Cons.IH [of f' ?b "Suc n"] Cons.prems(2-4) f'
    unfolding zip by (cases "check_added op row") (auto simp: reaches_def af_added_def check_then_def)
qed

lemma cf_additions_reaches:
  assumes s: "cf_sim f a" and added: "list_all fm_ok added" "list_all (list_all (\<lambda>w. num_ok (snd w))) added"
  shows "reaches (cf_additions op r added f)
     (snd (for_each (af_added op r) added a)) (fst (for_each (af_added op r) added a))"
proof (cases "added = []")
  case True
  then show ?thesis using s by (simp add: cf_additions_def reaches_def)
next
  case False
  note D = cf_simD [OF s]
  have "cf_sim (f\<lparr>cf_items := cs_extend_rows (length added) (cf_items f)\<rparr>)
      (a\<lparr>a_rows := a_rows a @ replicate (length added) Map.empty\<rparr>)"
    by (rule cf_simI) (use D cs_extend_rows_ok [OF D(7)] in auto)
  then show ?thesis
    using cf_added_rows [OF _ added D(5) [symmetric]] False by (simp add: cf_additions_def Let_def)
qed

section \<open>The contract\<close>

lemma cf_apply_step:
  assumes ok: "cf_ok f" "cf_owned f" and out: "output_ok out" "output_num_ok out"
  shows "\<exists>g e. cf_apply_output out op r f = Some (g, e) \<and> cf_ok g \<and> cf_owned g \<and>
      e = snd (af_apply_output out op r (cf_abs f)) \<and>
      (e = None \<or> added_items out = [] \<longrightarrow> cf_abs g = fst (af_apply_output out op r (cf_abs f)))"
proof -
  have s: "cf_sim f (cf_abs f)" using ok by (simp add: cf_sim_def cf_owned_iff)
  have added: "list_all fm_ok (added_items out)" "list_all (list_all (\<lambda>w. num_ok (snd w))) (added_items out)"
    using out by (auto simp: output_ok_def output_num_ok_def)
  have view: "\<not> cf_is_window_view f" using ok(2) by (simp add: cf_owned_def)
  obtain f1 e1 where f1: "cf_writes out op f = (f1, e1)" by force
  obtain a1 where a1: "and_then (for_each (af_common_write op) (common_writes out) (cf_abs f)) (\<lambda>a.
     and_then (for_each (af_item_write op) (item_writes out) a) (\<lambda>a.
     and_then (for_each (af_column_write op) (column_writes out) a)
       (af_removals op (removed_items out)))) = (a1, e1)" and s1: "cf_sim f1 a1"
    using cf_writes_sim [OF s out, of op] f1 by (metis (no_types, lifting) fst_conv prod.exhaust_sel sim_def snd_conv)
  have A: "af_apply_output out op r (cf_abs f) = and_then (a1, e1) (\<lambda>a. and_then (af_reorder op out a) (\<lambda>a.
      and_then (for_each (af_added op r) (added_items out) a) (\<lambda>a.
     (a\<lparr>a_warnings := a_warnings a @ frame_warning op out\<rparr>, None))))"
    unfolding a1 [symmetric] af_apply_output_def and_then_assoc ..
  have inv: "cf_ok g \<and> cf_owned g \<and> cf_abs g = a" if "cf_sim g a" for g a
    using that by (simp add: cf_sim_def cf_owned_iff)
  show ?thesis
  proof (cases e1)
    case (Some x)
    then show ?thesis using inv [OF s1] view f1 A by (simp add: cf_apply_output_def)
  next
    case e1: None
    obtain f2 e2 a2 where f2: "cf_reorder op out f1 = Some (f2, e2)" "af_reorder op out a1 = (a2, e2)"
        "cf_sim f2 a2"
      using cf_reorder_sim [OF s1, of op out] by (metis prod.exhaust_sel sim_def)
    show ?thesis
    proof (cases e2)
      case (Some x)
      then show ?thesis using inv [OF f2(3)] view f1 e1 f2 A by (simp add: cf_apply_output_def)
    next
      case e2: None
      obtain f3 e3 where f3: "cf_additions op r (added_items out) f2 = (f3, e3)" by force
      obtain a3 e4 where a3: "for_each (af_added op r) (added_items out) a2 = (a3, e4)" by force
      have R: "e4 = e3" "e3 = None \<Longrightarrow> cf_sim f3 a3" "cf_ok f3 \<and> cf_owned f3"
        using cf_additions_reaches [OF f2(3) added, of op r] f3 a3 inv
        by (auto simp: reaches_def split: if_splits)
      have warn: "cf_sim (f3\<lparr>cf_warnings := cf_warnings f3 @ frame_warning op out\<rparr>)
          (a3\<lparr>a_warnings := a_warnings a3 @ frame_warning op out\<rparr>)" if "cf_sim f3 a3"
        by (rule cf_simI) (use cf_simD [OF that] in auto)
      have "added_items out = [] \<Longrightarrow> e3 = None" using a3 R(1) by simp
      then show ?thesis
        using R inv [OF warn] view f1 e1 f2 e2 f3 a3 A
        by (cases e3) (auto simp: cf_apply_output_def)
    qed
  qed
qed

lemma get_cell_absent: "col_ok c \<Longrightarrow> i < col_size c \<Longrightarrow> col_cells c ! i = None \<Longrightarrow> col_get c i = VNull"
  using get_cell [of c i] by simp

lemma col_read_cell:
  assumes "col_ok c" "i < col_size c"
  shows "unsign_zero (if \<not> col_is_null c i then col_get c i else VNull) = value_or_null (col_cells c ! i)"
  using get_cell [OF assms] col_is_null_iff_get [OF assms(1), of i]
  by (cases "col_cells c ! i") (auto simp: value_or_null_def)

lemma cf_reads:
  assumes ok: "cf_ok f"
  shows "cf_item_count f = length (a_rows (cf_abs f))"
    and "unsign_zero (cf_item f i field) = a_item (cf_abs f) i field"
    and "cf_item_has f i field = a_item_has (cf_abs f) i field"
    and "cf_get_common f field = value_or_null (a_common (cf_abs f) field)"
proof -
  have cs: "cs_ok (cf_items f)" using ok by (simp add: cf_ok_def)
  have bound: "cf_offset f + cf_item_count f \<le> cs_row_count (cf_items f)"
    using ok by (auto simp: cf_ok_def cf_offset_def cf_item_count_def split: option.splits prod.splits)
  then show cnt: "cf_item_count f = length (a_rows (cf_abs f))"
    by (simp add: cf_abs_def)
  have idx: "cf_index f i = (if i < cf_item_count f then Some (cf_offset f + i) else None)"
    by (auto simp: cf_index_def cf_item_count_def cf_offset_def split: option.split)
  have row: "a_rows (cf_abs f) ! i = cs_row (cf_items f) (cf_offset f + i)" if "i < cf_item_count f"
    using that bound by (simp add: cf_abs_def)
  have lt: "cf_offset f + i < cs_row_count (cf_items f)" if "i < cf_item_count f"
    using that bound by simp
  show "unsign_zero (cf_item f i field) = a_item (cf_abs f) i field"
  proof (cases "i < cf_item_count f")
    case True
    then show ?thesis
      using idx row lt cnt cs_okD [OF cs, of field] get_cell col_is_null_iff_get get_cell_absent
      by (auto simp: cf_item_def a_item_def cs_row_def value_or_null_def split: option.split)
  qed (simp add: idx cf_item_def a_item_def cnt [symmetric])
  show "cf_item_has f i field = a_item_has (cf_abs f) i field"
  proof (cases "i < cf_item_count f")
    case True
    then show ?thesis
      using idx row lt cnt cs_okD [OF cs, of field] present_iff_cell
      by (auto simp: cf_item_has_def a_item_has_def cs_row_def split: option.split)
  qed (simp add: idx cf_item_has_def a_item_has_def cnt [symmetric])
  show "cf_get_common f field = value_or_null (a_common (cf_abs f) field)"
    using ok by (simp add: cf_get_common_def cf_abs_def cf_ok_def fm_find_map_of)
qed

lemma cf_view_some:
  assumes "cf_ok f" "cf_owned f" "off + cnt \<le> cf_item_count f"
  shows "\<exists>v. cf_make_window_view f off cnt = Inr v \<and> cf_ok v \<and> \<not> cf_owned v \<and>
      cf_abs v = a_window off cnt (cf_abs f)"
proof -
  have v: "cf_view f = None" "off + cnt \<le> cs_row_count (cf_items f)"
    using assms by (auto simp: cf_owned_iff cf_item_count_def)
  let ?v = "f\<lparr>cf_warnings := [], cf_view := Some (off, cnt)\<rparr>"
  have "cf_make_window_view f off cnt = Inr ?v"
    using v size_plus_le [of off cnt] by (simp add: cf_make_window_view_def cf_is_window_view_def)
  moreover have "cf_ok ?v" using assms(1) v by (simp add: cf_ok_def)
  moreover have "cf_abs ?v = a_window off cnt (cf_abs f)"
    using v(1) by (simp add: cf_abs_def a_window_def cf_item_count_def cf_offset_def)
  ultimately show ?thesis by (auto simp: cf_owned_iff)
qed

lemma cf_project_row_ok:
  assumes "cs_ok s" "i < cs_row_count s"
  shows "unsign_row (map_of (cf_project_row s fs i)) = cs_row s i |` set fs"
proof -
  define step where "step = (\<lambda>field out. case cs_column s field of
             None \<Rightarrow> out
           | Some col \<Rightarrow> if col_is_present col i then fm_set field (col_get col i) out else out)"
  have "fm_ok (fold step fs out) \<and> unsign_row (map_of (fold step fs out)) =
      (\<lambda>k. if k \<in> set fs \<and> cs_row s i k \<noteq> None then cs_row s i k else unsign_row (map_of out) k)"
    if "fm_ok out" for out
    using that
  proof (induction fs arbitrary: out)
    case (Cons field fs)
    have "fm_ok (step field out) \<and> unsign_row (map_of (step field out)) =
        (\<lambda>k. if k = field \<and> cs_row s i k \<noteq> None then cs_row s i k else unsign_row (map_of out) k)"
    proof (cases "cs_column s field")
      case (Some c)
      have c: "col_ok c" "i < col_size c" using cs_okD [OF assms(1) Some] assms(2) by auto
      show ?thesis
        using Some Cons.prems present_iff_cell [OF c] get_cell [OF c]
        by (auto simp: step_def cs_row_def unsign_row_fm_set fm_ok_fm_set fun_eq_iff)
    qed (use Cons.prems in \<open>auto simp: step_def cs_row_def fun_eq_iff split: option.splits\<close>)
    then show ?case using Cons.IH [of "step field out"] by (auto simp: fun_eq_iff)
  qed simp
  from this [of "[]"] show ?thesis
    by (auto simp: cf_project_row_def step_def restrict_map_def fun_eq_iff unsign_row_def)
qed

lemma cf_result_abs:
  assumes "cf_ok f" "cf_owned f"
  shows "\<exists>r. cf_to_result f common_out item_out = Inr r \<and> renders r common_out item_out (cf_abs f)"
proof -
  have "cf_view f = None" "fm_ok (cf_common f)" "cs_ok (cf_items f)"
    using assms by (auto simp: cf_ok_def cf_owned_iff)
  then show ?thesis
    using project_ok(2) cf_project_row_ok
    by (auto simp: cf_to_result_def cf_is_window_view_def renders_def cf_abs_def cf_item_count_def
        cf_offset_def cs_rows_def)
qed

lemma cf_column_abs:
  assumes "cf_ok f"
  shows "map unsign_zero (cf_item_column f field) = a_column (cf_abs f) field"
proof -
  have cs: "cs_ok (cf_items f)" using assms by (simp add: cf_ok_def)
  have bound: "cf_offset f + cf_item_count f \<le> cs_row_count (cf_items f)"
    using assms by (auto simp: cf_ok_def cf_offset_def cf_item_count_def split: option.splits prod.splits)
  show ?thesis
  proof (cases "cs_column (cf_items f) field")
    case None
    then show ?thesis
      using bound by (intro nth_equalityI) (auto simp: cf_item_column_def a_column_def cf_abs_def cs_row_def value_or_null_def)
  next
    case (Some c)
    have c: "col_ok c" "col_size c = cs_row_count (cf_items f)" using cs_okD [OF cs Some] by auto
    show ?thesis
      by (rule nth_equalityI)
        (use Some c bound col_read_cell [OF c(1)] in
          \<open>auto simp: cf_item_column_def a_column_def cf_abs_def cs_row_def Let_def\<close>)
  qed
qed

lemma cf_strict_abs:
  assumes "cf_ok f" "a_rows (cf_abs f) \<noteq> []"
  shows "cf_validate_strict_items f fs = a_validate_strict (cf_abs f) fs"
proof (induction fs)
  case (Cons field fs)
  have n: "length (a_rows (cf_abs f)) = cf_item_count f" using cf_reads(1) [OF assms(1)] by simp
  have col: "is_null (a_column (cf_abs f) field ! i) = is_null (cf_item_column f field ! i)"
    if "i < cf_item_count f" for i
    using arg_cong [OF cf_column_abs [OF assms(1), of field], of "\<lambda>xs. xs ! i"] that
    by (metis is_null_def length_map nth_map unsign_zero_eq_null cf_column_abs [OF assms(1)] n a_column_def)
  show ?case
  proof (cases "cs_column (cf_items f) field")
    case None
    have "0 < cf_item_count f" using assms(2) n by (metis length_greater_0_conv)
    then have "[0..<cf_item_count f] = 0 # [1..<cf_item_count f]" by (simp add: upt_conv_Cons)
    moreover have "is_null (a_column (cf_abs f) field ! 0)"
      using None col [of 0] \<open>0 < cf_item_count f\<close> by (simp add: cf_item_column_def is_null_def)
    ultimately show ?thesis using None n by simp
  next
    case (Some c)
    have cs: "cs_ok (cf_items f)" using assms by (simp add: cf_ok_def)
    have "is_null (a_column (cf_abs f) field ! i) = col_is_null c (cf_offset f + i)" if "i < cf_item_count f" for i
      using col [OF that] that Some cs_okD [OF cs Some] col_is_null_iff_get
      by (auto simp: cf_item_column_def is_null_def Let_def)
    then have "find (\<lambda>i. is_null (a_column (cf_abs f) field ! i)) [0..<cf_item_count f] =
        find (\<lambda>i. col_is_null c (cf_offset f + i)) [0..<cf_item_count f]"
      by (intro find_cong) auto
    then show ?thesis using Some Cons.IH n by (simp split: option.split)
  qed
qed simp

interpretation col: readable_frame cf_ok cf_owned cf_abs cf_apply_output cf_item_count cf_item cf_item_has
  cf_get_common cf_make_window_view cf_to_result cf_item_column cf_validate_strict_items
proof unfold_locales
  fix f :: column_frame and off cnt
  assume "cf_ok f" "cf_owned f" "cf_item_count f < size_plus off cnt"
  then show "\<exists>e. cf_make_window_view f off cnt = Inl e"
    by (simp add: cf_make_window_view_def cf_is_window_view_def cf_owned_iff cf_item_count_def Let_def)
next
  fix f :: column_frame and out op r
  assume "cf_ok f" "cf_owned f" "output_ok out" "output_num_ok out"
  then show "\<exists>g e. cf_apply_output out op r f = Some (g, e) \<and> cf_ok g \<and> cf_owned g \<and>
      e = snd (af_apply_output out op r (cf_abs f)) \<and>
      (e = None \<or> added_items out = [] \<longrightarrow> cf_abs g = fst (af_apply_output out op r (cf_abs f)))"
    by (rule cf_apply_step)
next
  fix f :: column_frame and out op r
  assume "cf_ok f" "\<not> cf_owned f"
  then show "\<exists>e. cf_apply_output out op r f = Some (f, Some e)"
    by (simp add: cf_owned_def cf_apply_output_def)
qed (simp_all add: cf_reads cf_view_some cf_result_abs cf_column_abs cf_strict_abs)

end
