(* ===== verification/Frame_Agreement.thy ===== *)
theory Frame_Agreement
  imports Column_Refinement
begin

text \<open>
  The two storage modes side by side: the frames built from one request denote the same abstract
  frame, and any sequence of operator outputs keeps them in agreement.
\<close>

section \<open>Construction\<close>

lemma append_or_promote_cells:
  assumes "col_ok c" "num_ok v"
  shows "col_ok (append_or_promote v c) \<and> col_cells (append_or_promote v c) = col_cells c @ [Some (unsign_zero v)] \<and>
     col_size (append_or_promote v c) = Suc (col_size c)"
proof -
  obtain c' b where a: "col_append c v = (c', b)" by force
  show ?thesis
  proof (cases b)
    case True
    then show ?thesis using col_append_accepted [OF assms] a by (simp add: append_or_promote_def)
  next
    case False
    then have c': "c' = c" using col_append_refused a by simp
    note J = col_to_json_cells [OF assms(1)]
    obtain ds vs where j: "col_to_json c = JsonCol ds vs" using J(4) by (cases "col_to_json c") auto
    then have "col_append (col_to_json c) v = (fst (col_append (col_to_json c) v), True)" by simp
    from col_append_accepted [OF J(1) assms(2) this] J(2,3)
    show ?thesis using False a c' by (simp add: append_or_promote_def)
  qed
qed

definition items_ok :: "object list \<Rightarrow> bool" where
  "items_ok items \<longleftrightarrow> list_all fm_ok items \<and> list_all (list_all (\<lambda>w. num_ok (snd w))) items"

lemma cf_build_column_cells:
  assumes "items_ok items"
  shows "col_ok (cf_build_column field items)"
    "col_cells (cf_build_column field items) = map (\<lambda>row. unsign_row (map_of row) field) items"
    "col_size (cf_build_column field items) = length items"
proof -
  define fill where "fill = (\<lambda>row col. case fm_find row field of
      None \<Rightarrow> col_append_null col | Some v \<Rightarrow> append_or_promote v col)"
  have fill: "col_ok (fold fill items c) \<and>
      col_cells (fold fill items c) = col_cells c @ map (\<lambda>row. unsign_row (map_of row) field) items \<and>
      col_size (fold fill items c) = col_size c + length items" if "col_ok c" for c
    using assms that
  proof (induction items arbitrary: c)
    case (Cons row items)
    have row: "fm_ok row" "list_all (\<lambda>w. num_ok (snd w)) row" and ok: "items_ok items"
      using Cons.prems by (auto simp: items_ok_def)
    have "col_ok (fill row c) \<and> col_cells (fill row c) = col_cells c @ [unsign_row (map_of row) field] \<and>
        col_size (fill row c) = Suc (col_size c)"
    proof (cases "map_of row field")
      case None
      then show ?thesis
        using col_append_null_cells [OF Cons.prems(2)] row by (simp add: fill_def fm_find_map_of unsign_row_def)
    next
      case (Some v)
      then have "num_ok v" using row(2) by (auto simp: list_all_iff dest!: map_of_SomeD)
      then show ?thesis
        using append_or_promote_cells [OF Cons.prems(2)] row Some by (simp add: fill_def fm_find_map_of unsign_row_def)
    qed
    then show ?case using Cons.IH [OF ok, of "fill row c"] by simp
  qed (simp add: items_ok_def)
  have "cf_build_column field items = fold fill items
      (if any_present_null field items then col_sized TJson 0
       else col_sized (col_type (make_column (present_values field items))) 0)"
    by (simp add: cf_build_column_def fill_def)
  then show "col_ok (cf_build_column field items)"
    "col_cells (cf_build_column field items) = map (\<lambda>row. unsign_row (map_of row) field) items"
    "col_size (cf_build_column field items) = length items"
    using fill by auto
qed

lemma set_add_seen [simp]: "set (add_seen ks out) = set ks \<union> set out"
  by (induction ks out rule: add_seen.induct) auto

lemma build_columns:
  assumes "items_ok items" "cs_ok s" "cs_row_count s = length items"
  shows "\<exists>s'. for_each (\<lambda>field. cs_set_column field (cf_build_column field items)) fs s = (s', None) \<and>
     cs_ok s' \<and> cs_row_count s' = length items \<and>
     (\<forall>i < length items. cs_row s' i = (\<lambda>field. if field \<in> set fs then unsign_row (map_of (items ! i)) field
        else cs_row s i field))"
  using assms(2,3)
proof (induction fs arbitrary: s)
  case (Cons field fs)
  note B = cf_build_column_cells [OF assms(1), of field]
  obtain s1 where s1: "cs_set_column field (cf_build_column field items) s = (s1, None)" "cs_ok s1"
      "cs_row_count s1 = length items"
      "\<forall>i. cs_row s1 i = (cs_row s i)(field := col_cells (cf_build_column field items) ! i)"
    using cs_set_column_ok [OF Cons.prems(1) B(1)] B(3) Cons.prems(2) by auto
  obtain s' where s': "for_each (\<lambda>field. cs_set_column field (cf_build_column field items)) fs s1 = (s', None)"
      "cs_ok s'" "cs_row_count s' = length items"
      "\<forall>i < length items. cs_row s' i = (\<lambda>field. if field \<in> set fs then unsign_row (map_of (items ! i)) field
        else cs_row s1 i field)"
    using Cons.IH [OF s1(2,3)] by blast
  have "cs_row s' i = (\<lambda>k. if k \<in> set (field # fs) then unsign_row (map_of (items ! i)) k else cs_row s i k)"
    if "i < length items" for i
    using s'(4) s1(4) that by (auto simp: B(2) fun_eq_iff)
  then show ?case using s1(1) s'(1-3) by simp
qed auto

lemma cf_new_ok:
  assumes "fm_ok common" "items_ok items"
  shows "\<exists>f. cf_new common items = (f, None) \<and> cf_ok f \<and> cf_owned f \<and> cf_abs f = rf_abs (rf_new common items)"
proof -
  obtain s where s: "for_each (\<lambda>field. cs_set_column field (cf_build_column field items))
        (cf_field_order items) (cs_empty (length items)) = (s, None)"
      "cs_ok s" "cs_row_count s = length items"
      "\<forall>i < length items. cs_row s i = (\<lambda>field. if field \<in> set (cf_field_order items)
        then unsign_row (map_of (items ! i)) field else cs_row (cs_empty (length items)) i field)"
    using build_columns [OF assms(2) cs_ok_empty, of "length items" "cf_field_order items"]
    by (auto simp: cs_empty_def)
  let ?f = "\<lparr>cf_common = common, cf_items = s, cf_warnings = [], cf_view = None\<rparr>"
  have "cs_row s i = unsign_row (map_of (items ! i))" if i: "i < length items" for i
  proof
    fix field
    have "map_of (items ! i) field = None" if "field \<notin> set (cf_field_order items)"
      using that i by (auto simp: cf_field_order_def map_of_eq_None_iff)
    then show "cs_row s i field = unsign_row (map_of (items ! i)) field"
      using s(4) i by (auto simp: unsign_row_def)
  qed
  then have "cs_rows s = map (\<lambda>r. unsign_row (map_of r)) items"
    using s(3) by (intro nth_equalityI) auto
  then have "cf_abs ?f = rf_abs (rf_new common items)"
    using s(3) by (simp add: cf_abs_def rf_abs_def rf_new_def rf_window_def cf_item_count_def cf_offset_def)
  moreover have "cf_new common items = (?f, None)" by (simp add: cf_new_def s(1))
  moreover have "cf_ok ?f" using assms(1) s(2) by (simp add: cf_ok_def)
  ultimately show ?thesis by (auto simp: cf_owned_iff)
qed

lemma rf_new_ok: "fm_ok common \<Longrightarrow> items_ok items \<Longrightarrow> rf_ok (rf_new common items) \<and> rf_owned (rf_new common items)"
  by (simp add: rf_new_def rf_ok_def rf_owned_iff items_ok_def)

section \<open>Dispatch on the storage mode\<close>

datatype frame = RowF row_frame | ColF column_frame

definition make_frame :: "string \<Rightarrow> object \<Rightarrow> object list \<Rightarrow> (frame, error) outcome" where
  "make_frame storage_mode common items =
     (if storage_mode = ''column''
      then (case cf_new common items of (f, e) \<Rightarrow> (ColF f, e))
      else (RowF (rf_new common items), None))"

definition frame_apply ::
  "operator_output \<Rightarrow> string \<Rightarrow> bool \<Rightarrow> frame \<Rightarrow> (frame, error) outcome option" where
  "frame_apply out op is_recall f =
     (case f of
        RowF g \<Rightarrow> map_option (\<lambda>(g, e). (RowF g, e)) (rf_apply out op is_recall g)
      | ColF g \<Rightarrow> map_option (\<lambda>(g, e). (ColF g, e)) (cf_apply_output out op is_recall g))"

definition frame_item_count :: "frame \<Rightarrow> nat" where
  "frame_item_count f = (case f of RowF g \<Rightarrow> rf_item_count g | ColF g \<Rightarrow> cf_item_count g)"

definition frame_item :: "frame \<Rightarrow> nat \<Rightarrow> string \<Rightarrow> variant" where
  "frame_item f i field = (case f of RowF g \<Rightarrow> rf_item g i field | ColF g \<Rightarrow> cf_item g i field)"

definition frame_item_has :: "frame \<Rightarrow> nat \<Rightarrow> string \<Rightarrow> bool" where
  "frame_item_has f i field = (case f of RowF g \<Rightarrow> rf_item_has g i field | ColF g \<Rightarrow> cf_item_has g i field)"

definition frame_get_common :: "frame \<Rightarrow> string \<Rightarrow> variant" where
  "frame_get_common f field = (case f of RowF g \<Rightarrow> rf_get_common g field | ColF g \<Rightarrow> cf_get_common g field)"

definition frame_has_common :: "frame \<Rightarrow> string \<Rightarrow> bool" where
  "frame_has_common f field = (case f of RowF g \<Rightarrow> rf_has_common g field | ColF g \<Rightarrow> cf_has_common g field)"

definition frame_view :: "frame \<Rightarrow> nat \<Rightarrow> nat \<Rightarrow> error + frame" where
  "frame_view f off cnt =
     (case f of
        RowF g \<Rightarrow> (case rf_make_window_view g off cnt of Inl e \<Rightarrow> Inl e | Inr v \<Rightarrow> Inr (RowF v))
      | ColF g \<Rightarrow> (case cf_make_window_view g off cnt of Inl e \<Rightarrow> Inl e | Inr v \<Rightarrow> Inr (ColF v)))"

definition frame_result :: "frame \<Rightarrow> string list \<Rightarrow> string list \<Rightarrow> error + result" where
  "frame_result f common_out item_out =
     (case f of RowF g \<Rightarrow> rf_to_result g common_out item_out | ColF g \<Rightarrow> cf_to_result g common_out item_out)"

definition frame_item_column :: "frame \<Rightarrow> string \<Rightarrow> variant list" where
  "frame_item_column f field = (case f of RowF g \<Rightarrow> rf_item_column g field | ColF g \<Rightarrow> cf_item_column g field)"

definition frame_validate_strict :: "frame \<Rightarrow> string list \<Rightarrow> string \<times> int" where
  "frame_validate_strict f fs =
     (case f of RowF g \<Rightarrow> rf_validate_strict_items g fs | ColF g \<Rightarrow> cf_validate_strict_items g fs)"

definition frame_item_object :: "frame \<Rightarrow> nat \<Rightarrow> object" where
  "frame_item_object f i = (case f of RowF g \<Rightarrow> rf_item_object g i | ColF g \<Rightarrow> cf_item_object g i)"

definition frame_set_common :: "string \<Rightarrow> variant \<Rightarrow> frame \<Rightarrow> (frame, error) outcome" where
  "frame_set_common field v f =
     (case f of
        RowF g \<Rightarrow> (case rf_set_common field v g of (g, e) \<Rightarrow> (RowF g, e))
      | ColF g \<Rightarrow> (case cf_set_common field v g of (g, e) \<Rightarrow> (ColF g, e)))"

definition frame_push_warning :: "string \<Rightarrow> frame \<Rightarrow> (frame, error) outcome" where
  "frame_push_warning msg f =
     (case f of
        RowF g \<Rightarrow> (case rf_push_warning msg g of (g, e) \<Rightarrow> (RowF g, e))
      | ColF g \<Rightarrow> (case cf_push_warning msg g of (g, e) \<Rightarrow> (ColF g, e)))"

definition frame_warnings :: "frame \<Rightarrow> string list" where
  "frame_warnings f = (case f of RowF g \<Rightarrow> rf_warnings g | ColF g \<Rightarrow> cf_warnings g)"

definition frame_inv :: "frame \<Rightarrow> bool" where
  "frame_inv f \<longleftrightarrow> (case f of RowF g \<Rightarrow> rf_ok g | ColF g \<Rightarrow> cf_ok g)"

definition frame_owned :: "frame \<Rightarrow> bool" where
  "frame_owned f \<longleftrightarrow> (case f of RowF g \<Rightarrow> rf_owned g | ColF g \<Rightarrow> cf_owned g)"

definition frame_abs :: "frame \<Rightarrow> aframe" where
  "frame_abs f = (case f of RowF g \<Rightarrow> rf_abs g | ColF g \<Rightarrow> cf_abs g)"

lemmas frame_dispatch = frame_apply_def frame_item_count_def frame_item_def frame_item_has_def
  frame_get_common_def frame_view_def frame_result_def frame_item_column_def frame_validate_strict_def
  frame_inv_def frame_owned_def frame_abs_def

lemma frame_apply_step:
  assumes "frame_inv f" "frame_owned f" "output_ok out" "output_num_ok out"
  shows "\<exists>g e. frame_apply out op r f = Some (g, e) \<and> frame_inv g \<and> frame_owned g \<and>
      e = snd (af_apply_output out op r (frame_abs f)) \<and>
      (e = None \<or> added_items out = [] \<longrightarrow> frame_abs g = fst (af_apply_output out op r (frame_abs f)))"
proof (cases f)
  case (RowF g)
  obtain g' e where "rf_apply out op r g = Some (g', e) \<and> rf_ok g' \<and> rf_owned g' \<and>
      e = snd (af_apply_output out op r (rf_abs g)) \<and>
      (e = None \<or> added_items out = [] \<longrightarrow> rf_abs g' = fst (af_apply_output out op r (rf_abs g)))"
    using row.apply_step [of g out op r] assms RowF by (auto simp: frame_dispatch)
  then show ?thesis using RowF by (intro exI [of _ "RowF g'"]) (auto simp: frame_dispatch)
next
  case (ColF g)
  obtain g' e where "cf_apply_output out op r g = Some (g', e) \<and> cf_ok g' \<and> cf_owned g' \<and>
      e = snd (af_apply_output out op r (cf_abs g)) \<and>
      (e = None \<or> added_items out = [] \<longrightarrow> cf_abs g' = fst (af_apply_output out op r (cf_abs g)))"
    using col.apply_step [of g out op r] assms ColF by (auto simp: frame_dispatch)
  then show ?thesis using ColF by (intro exI [of _ "ColF g'"]) (auto simp: frame_dispatch)
qed

lemma frame_view_some:
  assumes "frame_inv f" "frame_owned f" "off + cnt \<le> frame_item_count f"
  shows "\<exists>v. frame_view f off cnt = Inr v \<and> frame_inv v \<and> \<not> frame_owned v \<and>
      frame_abs v = a_window off cnt (frame_abs f)"
proof (cases f)
  case (RowF g)
  then obtain v where "rf_make_window_view g off cnt = Inr v" "rf_ok v" "\<not> rf_owned v"
      "rf_abs v = a_window off cnt (rf_abs g)"
    using row.view_some [of g off cnt] assms by (auto simp: frame_dispatch)
  then show ?thesis using RowF by (intro exI [of _ "RowF v"]) (simp add: frame_dispatch)
next
  case (ColF g)
  then obtain v where "cf_make_window_view g off cnt = Inr v" "cf_ok v" "\<not> cf_owned v"
      "cf_abs v = a_window off cnt (cf_abs g)"
    using col.view_some [of g off cnt] assms by (auto simp: frame_dispatch)
  then show ?thesis using ColF by (intro exI [of _ "ColF v"]) (simp add: frame_dispatch)
qed

interpretation fr: readable_frame frame_inv frame_owned frame_abs frame_apply frame_item_count frame_item
  frame_item_has frame_get_common frame_view frame_result frame_item_column frame_validate_strict
proof unfold_locales
  fix f out op r
  assume "frame_inv f" "frame_owned f" "output_ok out" "output_num_ok out"
  then show "\<exists>g e. frame_apply out op r f = Some (g, e) \<and> frame_inv g \<and> frame_owned g \<and>
      e = snd (af_apply_output out op r (frame_abs f)) \<and>
      (e = None \<or> added_items out = [] \<longrightarrow> frame_abs g = fst (af_apply_output out op r (frame_abs f)))"
    by (rule frame_apply_step)
next
  fix f off cnt
  assume "frame_inv f" "frame_owned f" "frame_item_count f < size_plus off cnt"
  then show "\<exists>e. frame_view f off cnt = Inl e"
    using row.view_refused [of _ off cnt] col.view_refused [of _ off cnt]
    by (cases f) (fastforce simp: frame_inv_def frame_owned_def frame_view_def frame_item_count_def)+
next
  fix f out op r
  assume "frame_inv f" "\<not> frame_owned f"
  then show "\<exists>e. frame_apply out op r f = Some (f, Some e)"
    using row.view_rejects_writes [of _ out op r] col.view_rejects_writes [of _ out op r]
    by (cases f) (fastforce simp: frame_inv_def frame_owned_def frame_apply_def)+
qed (use row.count_abs col.count_abs row.item_abs col.item_abs row.has_abs col.has_abs row.common_abs
      col.common_abs row.result_abs col.result_abs row.column_abs col.column_abs row.strict_abs
      col.strict_abs frame_view_some in \<open>simp_all add: frame_dispatch split: frame.splits\<close>)

lemma make_frame_ok:
  assumes "fm_ok common" "items_ok items"
  shows "\<exists>f. make_frame mode common items = (f, None) \<and> frame_inv f \<and> frame_owned f \<and>
     frame_abs f = rf_abs (rf_new common items)"
  using cf_new_ok [OF assms] rf_new_ok [OF assms]
  by (auto simp: make_frame_def frame_inv_def frame_owned_def frame_abs_def)

end
