(* ===== verification/Frame_Theorems.thy ===== *)
theory Frame_Theorems
  imports Frame_Agreement
begin

text \<open>
  The properties of the data frame: the contract of \<open>apply_output\<close>, the agreement of the two
  storage modes, windows, and the places where the two modes do differ.
\<close>

definition run_mode ::
  "string \<Rightarrow> object \<Rightarrow> object list \<Rightarrow> frame_step list \<Rightarrow> (frame, error) outcome option" where
  "run_mode mode common items steps =
     (case make_frame mode common items of
        (f, None) \<Rightarrow> apply_all frame_apply steps f
      | (f, Some e) \<Rightarrow> Some (f, Some e))"

lemma run_mode_abs:
  assumes "fm_ok common" "items_ok items" "list_all step_ok steps"
  shows "\<exists>g e. run_mode mode common items steps = Some (g, e) \<and> frame_inv g \<and> frame_owned g \<and>
     e = snd (af_apply_all steps (rf_abs (rf_new common items))) \<and>
     (e = None \<longrightarrow> frame_abs g = fst (af_apply_all steps (rf_abs (rf_new common items))))"
proof -
  obtain f where f: "make_frame mode common items = (f, None)" "frame_inv f" "frame_owned f"
      "frame_abs f = rf_abs (rf_new common items)"
    using make_frame_ok [OF assms(1,2)] by blast
  show ?thesis using fr.run [OF f(2,3) assms(3)] by (simp add: run_mode_def f(1,4))
qed

definition same_reads :: "frame \<Rightarrow> frame \<Rightarrow> bool" where
  "same_reads f g \<longleftrightarrow>
     frame_item_count f = frame_item_count g \<and>
     (\<forall>i field. unsign_zero (frame_item f i field) = unsign_zero (frame_item g i field) \<and>
        frame_item_has f i field = frame_item_has g i field) \<and>
     (\<forall>field. frame_get_common f field = frame_get_common g field)"

text \<open>
  Two frames that read alike, give the same columns and are projected to the same response, all numbers of items taken up to
  the sign of a zero.
\<close>

definition same_contents :: "frame \<Rightarrow> frame \<Rightarrow> bool" where
  "same_contents f g \<longleftrightarrow> same_reads f g \<and>
     (\<forall>field. map unsign_zero (frame_item_column f field) = map unsign_zero (frame_item_column g field)) \<and>
     (\<forall>common_out item_out. \<exists>r r'. frame_result f common_out item_out = Inr r \<and> frame_result g common_out item_out = Inr r' \<and>
        map_of (res_common r) = map_of (res_common r') \<and>
        map (\<lambda>row. unsign_row (map_of row)) (res_items r) = map (\<lambda>row. unsign_row (map_of row)) (res_items r'))"

lemma same_contents_abs:
  assumes "frame_inv f" "frame_owned f" "frame_inv g" "frame_owned g" "frame_abs f = frame_abs g"
  shows "same_contents f g"
proof -
  have "same_reads f g"
    using fr.reads_determined [OF assms(1,3,5)] by (simp add: same_reads_def)
  moreover have "map unsign_zero (frame_item_column f field) = map unsign_zero (frame_item_column g field)" for field
    using fr.column_abs [OF assms(1), of field] fr.column_abs [OF assms(3), of field] assms(5) by simp
  moreover have "\<exists>r r'. frame_result f common_out item_out = Inr r \<and> frame_result g common_out item_out = Inr r' \<and>
        map_of (res_common r) = map_of (res_common r') \<and>
        map (\<lambda>row. unsign_row (map_of row)) (res_items r) = map (\<lambda>row. unsign_row (map_of row)) (res_items r')" for common_out item_out
    using fr.result_abs [OF assms(1,2), of common_out item_out] fr.result_abs [OF assms(3,4), of common_out item_out] assms(5)
    by (auto simp: renders_def)
  ultimately show ?thesis by (simp add: same_contents_def)
qed

text \<open>A request and a sequence of operator outputs on which the properties are evaluated.\<close>

definition demo_common :: object where
  "demo_common = [(''city'', VStr ''hz'')]"

definition demo_items :: "object list" where
  "demo_items = [[(''id'', VNum (DFin False 1)), (''score'', VNum (DFin False (1 / 2)))],
                 [(''id'', VNum (DFin False 2))], [(''id'', VNum (DFin False 3)), (''score'', VNull)]]"

definition demo_output :: operator_output where
  "demo_output = set_item_order [1, 0] (remove_item 2 (set_item 1 ''score'' (VStr ''high'')
     (set_item 0 ''id'' (VNum (DFin False 7)) (set_common ''k'' (VBool True)
       (add_item [(''id'', VNum (DFin False 9))] empty_output)))))"

definition demo_steps :: "frame_step list" where
  "demo_steps = [(demo_output, ''op1'', True), (set_warning ''slow'' empty_output, ''op2'', False)]"

lemmas output_defs = set_common_def set_item_def set_item_column_double_def add_item_def remove_item_def
  set_item_order_def set_warning_def empty_output_def

lemma demo_ok: "fm_ok demo_common" "items_ok demo_items" "list_all step_ok demo_steps"
proof -
  show "fm_ok demo_common" by (simp add: demo_common_def fm_ok_def)
  show "items_ok demo_items"
    by (simp add: demo_items_def items_ok_def fm_ok_def del: prec53.simps)
  show "list_all step_ok demo_steps"
    by (simp add: demo_steps_def demo_output_def step_ok_def output_num_ok_def output_ok_def output_defs
        fm_ok_def fm_set_def fm_lower_bound_def fm_hit_def insort_insert_key_def del: prec53.simps)
qed

text \<open>
  C20: a row frame and a column frame built from the same request and fed the same sequence of operator outputs
  either both refuse the same output with the same error, or end in frames with the same number of items, the same common
  values, the same fields present on every item and, up to the sign of a zero, the same item values, columns and projected
  response.  An integer column stores no negative zero, so that sign can differ; validation of a strict item field on a frame
  without items and the nulls of an item taken as an object are not compared, and do differ.
\<close>

theorem storage_modes_agree:
  assumes "fm_ok common" "items_ok items" "list_all step_ok steps"
  shows "\<exists>f g e. run_mode ''row'' common items steps = Some (f, e) \<and>
     run_mode ''column'' common items steps = Some (g, e) \<and> (e = None \<longrightarrow> same_contents f g)"
proof -
  obtain f e where f: "run_mode ''row'' common items steps = Some (f, e)" "frame_inv f" "frame_owned f"
      "e = snd (af_apply_all steps (rf_abs (rf_new common items)))"
      "e = None \<longrightarrow> frame_abs f = fst (af_apply_all steps (rf_abs (rf_new common items)))"
    using run_mode_abs [OF assms] by blast
  obtain g where g: "run_mode ''column'' common items steps = Some (g, e)" "frame_inv g" "frame_owned g"
      "e = None \<longrightarrow> frame_abs g = fst (af_apply_all steps (rf_abs (rf_new common items)))"
    using run_mode_abs [OF assms] f(4) by blast
  have "same_contents f g" if "e = None"
    using f(5) g(4) that by (intro same_contents_abs f g) simp
  then show ?thesis using f(1) g(1) by blast
qed

theorem storage_modes_agree_witness:
  "\<exists>f g e. run_mode ''row'' demo_common demo_items demo_steps = Some (f, e) \<and>
     run_mode ''column'' demo_common demo_items demo_steps = Some (g, e) \<and> (e = None \<longrightarrow> same_contents f g)"
  by (rule storage_modes_agree [OF demo_ok])

lemma demo_frame: "\<exists>f. make_frame mode demo_common demo_items = (f, None) \<and> frame_inv f \<and> frame_owned f"
  using make_frame_ok [OF demo_ok(1,2)] by blast

lemma demo_step: "step_ok (demo_output, ''op1'', True)"
  using demo_ok(3) by (simp add: demo_steps_def)

text \<open>
  C5: in both storage modes \<open>apply_output\<close> refines the storage-independent specification: it
  always returns (the in-place permutation ends), keeps the frame invariant even when it throws,
  throws exactly the error of the specification, and otherwise leaves the specified contents.
\<close>

theorem apply_output_refines_spec:
  assumes "frame_inv f" "frame_owned f" "step_ok (out, op, is_recall)"
  shows "\<exists>g e. frame_apply out op is_recall f = Some (g, e) \<and> frame_inv g \<and> frame_owned g \<and>
     e = snd (af_apply_output out op is_recall (frame_abs f)) \<and>
     (e = None \<longrightarrow> frame_abs g = fst (af_apply_output out op is_recall (frame_abs f)))"
  using fr.apply_step [OF assms(1,2), of out op is_recall] assms(3) by (auto simp: step_ok_def)

theorem apply_output_refines_spec_witness:
  "\<exists>f. make_frame ''column'' demo_common demo_items = (f, None) \<and>
     (\<exists>g e. frame_apply demo_output ''op1'' True f = Some (g, e) \<and> frame_inv g \<and>
        e = snd (af_apply_output demo_output ''op1'' True (frame_abs f)))"
proof -
  obtain f where f: "make_frame ''column'' demo_common demo_items = (f, None)" "frame_inv f" "frame_owned f"
    using demo_frame by blast
  show ?thesis using apply_output_refines_spec [OF f(2,3) demo_step] f(1) by blast
qed

text \<open>
  a window view is exactly a slice of its parent.  For a window inside the parent,
  \<open>make_window_view\<close> succeeds, the view counts and reads the rows of the window only, shares the
  common fields, and refuses every \<open>apply_output\<close>; a window that leaves the parent is refused, if its
  end is a \<open>size_t\<close>: the end of a larger one wraps around, and such a window is accepted.
\<close>

theorem window_view_is_a_slice:
  assumes "frame_inv f" "frame_owned f" "off + cnt < 2 ^ 64"
  shows "if off + cnt \<le> frame_item_count f
     then \<exists>v. frame_view f off cnt = Inr v \<and> frame_item_count v = cnt \<and>
       (\<forall>i field. frame_item_has v i field = (i < cnt \<and> frame_item_has f (off + i) field)) \<and>
       (\<forall>i field. unsign_zero (frame_item v i field) =
          (if i < cnt then unsign_zero (frame_item f (off + i) field) else VNull)) \<and>
       (\<forall>field. frame_get_common v field = frame_get_common f field) \<and>
       (\<forall>out op r. \<exists>e. frame_apply out op r v = Some (v, Some e))
     else \<exists>e. frame_view f off cnt = Inl e"
proof (cases "off + cnt \<le> frame_item_count f")
  case True
  obtain v where v: "frame_view f off cnt = Inr v" "frame_inv v" "\<not> frame_owned v"
    using fr.view_some [OF assms(1,2) True] by blast
  note R = fr.view_reads [OF assms(1,2) True v(1)]
  have "frame_item_has v i field = (i < cnt \<and> frame_item_has f (off + i) field)" for i field
    using R(1) R(3) [of i field] fr.has_abs [OF v(2), of i field] fr.count_abs [OF v(2)]
    by (cases "i < cnt") (auto simp: a_item_has_def)
  moreover have "unsign_zero (frame_item v i field) =
      (if i < cnt then unsign_zero (frame_item f (off + i) field) else VNull)" for i field
    using R(1) R(2) [of i field] fr.item_abs [OF v(2), of i field] fr.count_abs [OF v(2)]
    by (cases "i < cnt") (auto simp: a_item_def)
  moreover have "\<exists>e. frame_apply out op r v = Some (v, Some e)" for out op r
    using fr.view_rejects_writes [OF v(2,3)] .
  ultimately show ?thesis using True v(1) R(1,4) by auto
next
  case False
  then show ?thesis using fr.view_refused [OF assms(1,2), of off cnt] size_plus_small [OF assms(3)] by simp
qed

theorem window_view_is_a_slice_witness:
  "\<exists>f v. make_frame ''column'' demo_common demo_items = (f, None) \<and>
     frame_view f 1 2 = Inr v \<and> frame_item_count v = 2 \<and>
     unsign_zero (frame_item v 0 ''id'') = unsign_zero (frame_item f 1 ''id'')"
proof -
  obtain f where f: "make_frame ''column'' demo_common demo_items = (f, None)" "frame_inv f" "frame_owned f"
      "frame_abs f = rf_abs (rf_new demo_common demo_items)"
    using make_frame_ok [OF demo_ok(1,2)] by blast
  have "frame_item_count f = 3"
    using fr.count_abs [OF f(2)] by (simp add: f(4) rf_abs_def rf_new_def rf_window_def demo_items_def)
  then show ?thesis
    using window_view_is_a_slice [OF f(2,3), of 1 2] f(1) by auto
qed

text \<open>The end of this window is zero: a frame without rows accepts it, and the view counts a row.\<close>

lemma window_end_wraps:
  "\<exists>v. rf_make_window_view (rf_new [] []) (2 ^ 64 - 1) 1 = Inr v \<and> rf_item_count v = 1"
  by (simp add: rf_make_window_view_def rf_new_def rf_is_window_view_def size_plus_def rf_item_count_def)

section \<open>Single writes\<close>

text \<open>What the specification does with an output that only reorders, only removes, only writes.\<close>

lemma af_order_only:
  "af_apply_output (set_item_order order empty_output) op r a =
     (case check_item_order op (length (a_rows a)) order of
        None \<Rightarrow> (a\<lparr>a_rows := map (\<lambda>i. a_rows a ! nat i) order\<rparr>, None)
      | Some e \<Rightarrow> (a, Some e))"
proof -
  have "af_removals op [] a = (a, None)"
    using map_nth [of "a_rows a"] by (simp add: af_removals_def check_then_def kept_indices_def)
  then show ?thesis
    by (auto simp: af_apply_output_def set_item_order_def empty_output_def af_reorder_def check_then_def
        frame_warning_def split: option.split)
qed

lemma output_parts_order [simp]:
  "output_ok (set_item_order order empty_output)" "output_num_ok (set_item_order order empty_output)"
  "added_items (set_item_order order empty_output) = []"
  by (auto simp: output_num_ok_def set_item_order_def empty_output_def output_ok_def)

text \<open>
  C21: \<open>SetItemOrder\<close> is applied exactly when it is a permutation of the items, and then item \<open>i\<close>
  of the frame is the old item \<open>order[i]\<close>; any other order (wrong length, index out of range,
  duplicate index) is an error and leaves every item as it was.
\<close>

theorem item_order_exactly_permutations:
  assumes "frame_inv f" "frame_owned f"
  shows "\<exists>g e. frame_apply (set_item_order order empty_output) op r f = Some (g, e) \<and>
     (e = None \<longleftrightarrow> length order = frame_item_count f \<and> is_perm order) \<and>
     (if e = None
      then \<forall>i < frame_item_count f. \<forall>field.
             unsign_zero (frame_item g i field) = unsign_zero (frame_item f (nat (order ! i)) field)
      else same_reads f g)"
proof -
  obtain g e where g: "frame_apply (set_item_order order empty_output) op r f = Some (g, e)" "frame_inv g"
      "e = snd (af_apply_output (set_item_order order empty_output) op r (frame_abs f))"
      "frame_abs g = fst (af_apply_output (set_item_order order empty_output) op r (frame_abs f))"
    using fr.apply_step [OF assms, of "set_item_order order empty_output" op r] by auto
  note n = fr.count_abs [OF assms(1)]
  show ?thesis
  proof (cases "check_item_order op (length (a_rows (frame_abs f))) order")
    case None
    then have p: "length order = frame_item_count f \<and> is_perm order"
      by (simp add: check_item_order_iff_perm n)
    have ga: "e = None" "frame_abs g = (frame_abs f)\<lparr>a_rows := map (\<lambda>i. a_rows (frame_abs f) ! nat i) order\<rparr>"
      using g(3,4) None by (simp_all add: af_order_only)
    have "unsign_zero (frame_item g i field) = unsign_zero (frame_item f (nat (order ! i)) field)"
      if "i < frame_item_count f" for i field
      using that p perm_facts(2) [of order i] n
      by (simp add: fr.item_abs [OF g(2)] fr.item_abs [OF assms(1)] ga(2) a_item_def)
    then show ?thesis using g(1) ga(1) p by auto
  next
    case (Some x)
    then have p: "\<not> (length order = frame_item_count f \<and> is_perm order)"
      using check_item_order_iff_perm [of op "length (a_rows (frame_abs f))" order] n by simp
    have ga: "e = Some x" "frame_abs g = frame_abs f"
      using g(3,4) Some by (simp_all add: af_order_only)
    then have "same_reads f g"
      using fr.reads_determined [OF assms(1) g(2)] by (simp add: same_reads_def)
    then show ?thesis using g(1) ga(1) p by auto
  qed
qed

theorem item_order_exactly_permutations_witness:
  "\<exists>f g e. make_frame ''column'' demo_common demo_items = (f, None) \<and>
     frame_apply (set_item_order [2, 0, 1] empty_output) ''op'' False f = Some (g, e) \<and>
     (e = None \<longleftrightarrow> length [2, 0, 1 :: int] = frame_item_count f \<and> is_perm [2, 0, 1])"
proof -
  obtain f where f: "make_frame ''column'' demo_common demo_items = (f, None)" "frame_inv f" "frame_owned f"
    using demo_frame by blast
  show ?thesis using item_order_exactly_permutations [OF f(2,3), of "[2, 0, 1]"] f(1) by blast
qed

lemma af_item_only:
  "af_apply_output (set_item idx field v empty_output) op r a = af_item_write op (idx, field, v) a"
proof -
  have "af_removals op [] b = (b, None)" for b
    using map_nth [of "a_rows b"] by (simp add: af_removals_def check_then_def kept_indices_def)
  then show ?thesis
    by (cases "check_item_write op (length (a_rows a)) (idx, field, v)")
      (auto simp: af_apply_output_def set_item_def empty_output_def af_reorder_def af_item_write_def
        check_then_def frame_warning_def)
qed

text \<open>
  C22: an element write is local and readable.  Writing a representable value that
  \<open>validate_frame_value\<close> accepts at an index inside the frame succeeds; the cell then reads as the
  value (present, and null if null was written), and every other cell reads as before, whatever
  column types are promoted on the way.
\<close>

theorem item_write_is_local:
  assumes "frame_inv f" "frame_owned f" "0 \<le> idx" "nat idx < frame_item_count f"
    and "validate_frame_value field v = []" "num_ok v"
  shows "\<exists>g. frame_apply (set_item idx field v empty_output) op r f = Some (g, None) \<and> frame_inv g \<and>
     frame_item_count g = frame_item_count f \<and>
     unsign_zero (frame_item g (nat idx) field) = unsign_zero v \<and> frame_item_has g (nat idx) field \<and>
     (\<forall>i k. i \<noteq> nat idx \<or> k \<noteq> field \<longrightarrow>
        unsign_zero (frame_item g i k) = unsign_zero (frame_item f i k) \<and>
        frame_item_has g i k = frame_item_has f i k)"
proof -
  let ?out = "set_item idx field v empty_output"
  have out: "output_ok ?out" "output_num_ok ?out" "added_items ?out = []"
    using assms(6) by (auto simp: output_num_ok_def set_item_def empty_output_def output_ok_def)
  obtain g e where g: "frame_apply ?out op r f = Some (g, e)" "frame_inv g"
      "e = snd (af_apply_output ?out op r (frame_abs f))" "frame_abs g = fst (af_apply_output ?out op r (frame_abs f))"
    using fr.apply_step [OF assms(1,2) out(1,2), of op r] out(3) by auto
  note n = fr.count_abs [OF assms(1)]
  let ?rows = "a_rows (frame_abs f)"
  have ga: "e = None" "a_rows (frame_abs g) = ?rows[nat idx := (?rows ! nat idx)(field \<mapsto> unsign_zero v)]"
    using g(3,4) assms(3-5) n
    by (simp_all add: af_item_only af_item_write_def check_then_def check_item_write_def in_range_def)
  note reads = fr.item_abs [OF g(2)] fr.item_abs [OF assms(1)] fr.has_abs [OF g(2)] fr.has_abs [OF assms(1)]
  have "frame_item_count g = frame_item_count f" using fr.count_abs [OF g(2)] n ga(2) by simp
  moreover have "unsign_zero (frame_item g (nat idx) field) = unsign_zero v" "frame_item_has g (nat idx) field"
    using assms(4) n by (simp_all add: reads a_item_def a_item_has_def ga(2) value_or_null_def)
  moreover have "unsign_zero (frame_item g i k) = unsign_zero (frame_item f i k) \<and>
      frame_item_has g i k = frame_item_has f i k" if "i \<noteq> nat idx \<or> k \<noteq> field" for i k
    using that by (cases "i = nat idx") (auto simp: reads a_item_def a_item_has_def ga(2))
  ultimately show ?thesis using g(1,2) ga(1) by auto
qed

theorem item_write_is_local_witness:
  "\<exists>f g. make_frame ''column'' demo_common demo_items = (f, None) \<and>
     frame_apply (set_item 1 ''id'' (VStr ''x'') empty_output) ''op'' False f = Some (g, None) \<and>
     unsign_zero (frame_item g 1 ''id'') = VStr ''x''"
proof -
  obtain f where f: "make_frame ''column'' demo_common demo_items = (f, None)" "frame_inv f" "frame_owned f"
      "frame_abs f = rf_abs (rf_new demo_common demo_items)"
    using make_frame_ok [OF demo_ok(1,2)] by blast
  have "nat 1 < frame_item_count f"
    using fr.count_abs [OF f(2)] by (simp add: f(4) rf_abs_def rf_new_def rf_window_def demo_items_def)
  moreover have "validate_frame_value ''id'' (VStr ''x'') = []" by (simp add: validate_frame_value_def)
  ultimately show ?thesis
    using item_write_is_local [OF f(2,3), of 1 "''id''" "VStr ''x''" "''op''" False] f(1) by fastforce
qed

section \<open>Where the storage modes differ\<close>

text \<open>
  After an error in an added item the two frames are left in different states: the column
  frame has already appended all the rows, the row frame only those before the failing one.  (The
  run fails in both, but the partial result it returns differs.)
\<close>

definition bad_addition :: operator_output where
  "bad_addition = add_item [(''a'', VNum DNaN)] empty_output"

theorem addition_error_states_differ:
  "map_option (\<lambda>(f, e). (frame_item_count f, map_option what e))
     (run_mode ''row'' [] [] [(bad_addition, ''op'', False)]) =
     Some (0, map_option what (check_added ''op'' [(''a'', VNum DNaN)])) \<and>
   map_option (\<lambda>(f, e). (frame_item_count f, map_option what e))
     (run_mode ''column'' [] [] [(bad_addition, ''op'', False)]) =
     Some (1, map_option what (check_added ''op'' [(''a'', VNum DNaN)]))"
  by code_simp

text \<open>
  The strict-input check of the two frames differs on an empty item set: the column frame
  reports a missing column at item 0, the row frame reports nothing.
\<close>

theorem strict_check_differs_on_no_items:
  "frame_validate_strict (fst (make_frame ''row'' [] [])) [''a''] = ([], -1) \<and>
   frame_validate_strict (fst (make_frame ''column'' [] [])) [''a''] = (''a'', 0)"
  by code_simp

end
