(* ===== verification/Config_Data.thy ===== *)
theory Config_Data
  imports Values
begin

text \<open>
  The configuration data (\<open>include/pine/pine.hpp\<close>, \<open>include/pine/operator.hpp\<close>): operator
  metadata and configurations, the root configuration, the registry's schemas.  A
  \<open>std::map\<close> with string keys is a \<open>flat_map\<close>.
\<close>

record metadata =
  common_input :: "string list"
  common_input_skip :: "string list"
  common_input_template :: "string list"
  common_output :: "string list"
  item_input :: "string list"
  item_output :: "string list"

fun add_unseen :: "string list \<Rightarrow> string list \<Rightarrow> string list" where
  "add_unseen [] out = out"
| "add_unseen (f # fs) out = add_unseen fs (if f \<in> set out then out else out @ [f])"

text \<open>
  \<open>common_read_fields\<close>: the three input buckets in declaration order without duplicates; a
  metadata with only business inputs is returned as it is.
\<close>

definition common_read_fields :: "metadata \<Rightarrow> string list" where
  "common_read_fields m =
     (if common_input_skip m = [] \<and> common_input_template m = [] then common_input m
      else add_unseen (common_input_template m)
             (add_unseen (common_input_skip m) (add_unseen (common_input m) [])))"

lemma set_add_unseen [simp]: "set (add_unseen fs out) = set fs \<union> set out"
  by (induction fs out rule: add_unseen.induct) auto

lemma distinct_add_unseen [simp]: "distinct out \<Longrightarrow> distinct (add_unseen fs out)"
  by (induction fs out rule: add_unseen.induct) auto

lemma set_common_read_fields [simp]:
  "set (common_read_fields m) =
     set (common_input m) \<union> set (common_input_skip m) \<union> set (common_input_template m)"
  by (auto simp: common_read_fields_def)

record operator_config =
  oc_name :: string
  oc_type_name :: string
  oc_metadata :: metadata
  oc_skip :: "string list"
  oc_recall :: bool
  oc_consumes_row_set :: bool
  oc_mutates_row_set :: bool
  oc_additive_writes_row_set :: bool
  oc_concurrent_safe :: bool
  oc_debug :: "bool option"
  oc_for_branch_control :: bool
  oc_common_defaults :: "variant flat_map"
  oc_item_defaults :: "variant flat_map"
  oc_strict_common :: "string list"
  oc_strict_item :: "string list"
  oc_sources :: "string list"
  oc_params :: variant
  oc_operator_type :: string
  oc_data_parallel :: int

record flow_contract =
  fc_common_input :: "string list"
  fc_item_input :: "string list"
  fc_common_output :: "string list"
  fc_item_output :: "string list"

record resource_entry =
  re_type :: string
  re_interval :: int
  re_params :: variant

record config =
  cg_operators :: "operator_config flat_map"
  cg_pipeline_map :: "string list flat_map"
  cg_pipeline_group :: "string list flat_map"
  cg_flow_contract :: flow_contract
  cg_storage_mode :: string
  cg_debug :: bool
  cg_log_prefix :: string
  cg_pineapple_version :: string
  cg_pineapple_create_time :: string
  cg_resource_config :: "resource_entry flat_map"

record expanded_sequence =
  ex_sequence :: "string list"
  ex_op_to_subflow :: "string flat_map"

section \<open>Operator schemas\<close>

datatype op_type = Recall | Transform | Filter | Merge | Reorder | Observe

fun op_type_to_string :: "op_type \<Rightarrow> string" where
  "op_type_to_string Recall = ''recall''"
| "op_type_to_string Transform = ''transform''"
| "op_type_to_string Filter = ''filter''"
| "op_type_to_string Merge = ''merge''"
| "op_type_to_string Reorder = ''reorder''"
| "op_type_to_string Observe = ''observe''"

fun op_type_to_schema_string :: "op_type \<Rightarrow> string" where
  "op_type_to_schema_string Recall = ''Recall''"
| "op_type_to_schema_string Transform = ''Transform''"
| "op_type_to_schema_string Filter = ''Filter''"
| "op_type_to_schema_string Merge = ''Merge''"
| "op_type_to_schema_string Reorder = ''Reorder''"
| "op_type_to_schema_string Observe = ''Observe''"

record param_schema =
  ps_type :: string
  ps_required :: bool
  ps_default :: variant
  ps_description :: string
  ps_templatable :: bool

record operator_schema =
  os_name :: string
  os_type :: op_type
  os_description :: string
  os_params :: "param_schema flat_map"

text \<open>An entry of the registry; the factory is a C++ closure and is not modelled.\<close>

record operator_entry =
  en_schema :: operator_schema
  en_consumes_row_set :: bool
  en_mutates_row_set :: bool
  en_additive_writes_row_set :: bool
  en_concurrent_safe :: bool

type_synonym registry = "operator_entry flat_map"

end
