(* ===== verification/Operator_Input.thy ===== *)
theory Operator_Input
  imports Frame_Agreement Config_Data
begin

text \<open>
  The read side of an operator (\<open>src/dataframe/operator_input.cpp\<close>): the field buckets computed
  from a configuration, the checks made once before an operator runs, and the lazy proxy through
  which it reads the frame.
\<close>

section \<open>The field buckets\<close>

record input_field_spec =
  sp_strict_common :: "string list"
  sp_defaulted_common :: "(string \<times> variant) list"
  sp_nullable_common :: "string list"
  sp_strict_item :: "string list"
  sp_defaulted_item :: "(string \<times> variant) list"
  sp_nullable_item :: "string list"
  sp_excluded_common :: "string list"

text \<open>The fields hidden from the operator; a \<open>std::set\<close>, of which only membership is observed.\<close>

definition excluded_fields :: "operator_config \<Rightarrow> string list" where
  "excluded_fields op = oc_skip op @ common_input_skip (oc_metadata op) @ common_input_template (oc_metadata op)"

definition add_common_field :: "operator_config \<Rightarrow> string \<Rightarrow> input_field_spec \<Rightarrow> input_field_spec" where
  "add_common_field op field spec =
     (if field \<in> set (excluded_fields op) then spec
      else case fm_find (oc_common_defaults op) field of
        Some d \<Rightarrow> spec\<lparr>sp_defaulted_common := sp_defaulted_common spec @ [(field, d)]\<rparr>
      | None \<Rightarrow>
          if field \<in> set (oc_strict_common op)
          then spec\<lparr>sp_strict_common := sp_strict_common spec @ [field]\<rparr>
          else spec\<lparr>sp_nullable_common := sp_nullable_common spec @ [field]\<rparr>)"

definition add_item_field :: "operator_config \<Rightarrow> string \<Rightarrow> input_field_spec \<Rightarrow> input_field_spec" where
  "add_item_field op field spec =
     (case fm_find (oc_item_defaults op) field of
        Some d \<Rightarrow> spec\<lparr>sp_defaulted_item := sp_defaulted_item spec @ [(field, d)]\<rparr>
      | None \<Rightarrow>
          if field \<in> set (oc_strict_item op)
          then spec\<lparr>sp_strict_item := sp_strict_item spec @ [field]\<rparr>
          else spec\<lparr>sp_nullable_item := sp_nullable_item spec @ [field]\<rparr>)"

definition compute_input_field_spec :: "operator_config \<Rightarrow> input_field_spec" where
  "compute_input_field_spec op =
     fold (add_item_field op) (item_input (oc_metadata op))
       (fold (add_common_field op) (common_input (oc_metadata op))
          \<lparr>sp_strict_common = [], sp_defaulted_common = [], sp_nullable_common = [],
           sp_strict_item = [], sp_defaulted_item = [], sp_nullable_item = [],
           sp_excluded_common = excluded_fields op\<rparr>)"

section \<open>The proxy\<close>

text \<open>
  \<open>in_templated\<close> is the resolved map of templated parameters, if one is attached; the context
  and the resources of an operator are parameters of the operator, not of its input.
\<close>

record operator_input =
  in_frame :: frame
  in_spec :: input_field_spec
  in_item_count :: nat
  in_templated :: "variant unordered_map option"

definition operator_input_of :: "frame \<Rightarrow> input_field_spec \<Rightarrow> operator_input" where
  "operator_input_of f spec =
     \<lparr>in_frame = f, in_spec = spec, in_item_count = frame_item_count f, in_templated = None\<rparr>"

text \<open>The default of a field: the first entry for it, null when there is none.\<close>

definition default_of :: "(string \<times> variant) list \<Rightarrow> string \<Rightarrow> variant" where
  "default_of ds field = value_or_null (map_of ds field)"

definition in_common :: "operator_input \<Rightarrow> string \<Rightarrow> variant" where
  "in_common inp field =
     (if field \<in> set (sp_excluded_common (in_spec inp)) then VNull
      else let v = frame_get_common (in_frame inp) field
           in if \<not> is_null v then v else default_of (sp_defaulted_common (in_spec inp)) field)"

definition in_item :: "operator_input \<Rightarrow> nat \<Rightarrow> string \<Rightarrow> variant" where
  "in_item inp index field =
     (if index \<ge> in_item_count inp then VNull
      else let v = frame_item (in_frame inp) index field
           in if \<not> is_null v then v else default_of (sp_defaulted_item (in_spec inp)) field)"

definition in_item_column :: "operator_input \<Rightarrow> string \<Rightarrow> variant list" where
  "in_item_column inp field =
     (let col = frame_item_column (in_frame inp) field
      in case map_of (sp_defaulted_item (in_spec inp)) field of
           None \<Rightarrow> col
         | Some d \<Rightarrow> map (\<lambda>v. if is_null v then d else v) col)"

definition common_keys :: "operator_input \<Rightarrow> string list" where
  "common_keys inp =
     (let s = in_spec inp in sp_strict_common s @ map fst (sp_defaulted_common s) @ sp_nullable_common s)"

definition item_keys :: "operator_input \<Rightarrow> string list" where
  "item_keys inp =
     (let s = in_spec inp in sp_strict_item s @ map fst (sp_defaulted_item s) @ sp_nullable_item s)"

definition in_templated_param :: "operator_input \<Rightarrow> string \<Rightarrow> variant" where
  "in_templated_param inp name =
     (case in_templated inp of None \<Rightarrow> VNull | Some m \<Rightarrow> value_or_null (map_of m name))"

definition set_templated_params :: "variant unordered_map option \<Rightarrow> operator_input \<Rightarrow> operator_input" where
  "set_templated_params resolved inp = inp\<lparr>in_templated := resolved\<rparr>"

section \<open>The checks\<close>

definition field_error :: "string \<Rightarrow> string \<Rightarrow> string \<Rightarrow> error" where
  "field_error op field msg = exec_error op (''required field '' @ quoted field @ msg)"

definition check_strict_common :: "frame \<Rightarrow> string \<Rightarrow> input_field_spec \<Rightarrow> error + unit" where
  "check_strict_common f op spec =
     rcheck_all (\<lambda>field. throw_if (is_null (frame_get_common f field)) (field_error op field '' is nil in common''))
       (sp_strict_common spec)"

definition check_nullable_common :: "frame \<Rightarrow> string \<Rightarrow> input_field_spec \<Rightarrow> error + unit" where
  "check_nullable_common f op spec =
     rcheck_all (\<lambda>field. throw_if (\<not> frame_has_common f field) (field_error op field '' is missing in common''))
       (sp_nullable_common spec)"

definition check_strict_item :: "frame \<Rightarrow> string \<Rightarrow> input_field_spec \<Rightarrow> error + unit" where
  "check_strict_item f op spec =
     (if sp_strict_item spec = [] then Inr ()
      else let (bad_field, bad_row) = frame_validate_strict f (sp_strict_item spec)
           in throw_if (bad_row \<ge> 0)
                (field_error op bad_field ('' is nil on item['' @ string_of_int bad_row @ '']'')))"

definition check_nullable_item :: "frame \<Rightarrow> string \<Rightarrow> input_field_spec \<Rightarrow> error + unit" where
  "check_nullable_item f op spec =
     rcheck_all (\<lambda>field.
       rcheck_all (\<lambda>i. throw_if (\<not> frame_item_has f i field)
                          (field_error op field ('' is missing on item['' @ string_of_nat i @ '']'')))
         [0..<frame_item_count f])
       (sp_nullable_item spec)"

definition build_operator_input ::
  "frame \<Rightarrow> string \<Rightarrow> input_field_spec \<Rightarrow> error + operator_input" where
  "build_operator_input f op spec =
     rbind (check_strict_common f op spec) (\<lambda>_.
     rbind (check_nullable_common f op spec) (\<lambda>_.
     rbind (check_strict_item f op spec) (\<lambda>_.
     rbind (check_nullable_item f op spec) (\<lambda>_.
     Inr (operator_input_of f spec)))))"

section \<open>Laws\<close>

lemma frame_has_common_abs:
  "frame_inv f \<Longrightarrow> frame_has_common f field \<longleftrightarrow> a_common (frame_abs f) field \<noteq> None"
  by (cases f) (auto simp: frame_inv_def frame_has_common_def frame_abs_def rf_ok_def cf_ok_def rf_abs_def
      cf_abs_def rf_has_common_def cf_has_common_def fm_find_map_of)

text \<open>What each bucket holds.\<close>

definition defaulted :: "variant flat_map \<Rightarrow> string list \<Rightarrow> (string \<times> variant) list" where
  "defaulted ds fs = map (\<lambda>f. (f, the (fm_find ds f))) (filter (\<lambda>f. fm_find ds f \<noteq> None) fs)"

lemma fold_add_common_field:
  "fold (add_common_field op) fs spec =
     (let vis = filter (\<lambda>f. f \<notin> set (excluded_fields op)) fs; ds = oc_common_defaults op;
          und = filter (\<lambda>f. fm_find ds f = None) vis
      in spec\<lparr>sp_strict_common := sp_strict_common spec @ filter (\<lambda>f. f \<in> set (oc_strict_common op)) und,
              sp_defaulted_common := sp_defaulted_common spec @ defaulted ds vis,
              sp_nullable_common := sp_nullable_common spec @ filter (\<lambda>f. f \<notin> set (oc_strict_common op)) und\<rparr>)"
  by (induction fs arbitrary: spec)
    (simp_all add: add_common_field_def defaulted_def Let_def split: option.split)

lemma fold_add_item_field:
  "fold (add_item_field op) fs spec =
     (let ds = oc_item_defaults op; und = filter (\<lambda>f. fm_find ds f = None) fs
      in spec\<lparr>sp_strict_item := sp_strict_item spec @ filter (\<lambda>f. f \<in> set (oc_strict_item op)) und,
              sp_defaulted_item := sp_defaulted_item spec @ defaulted ds fs,
              sp_nullable_item := sp_nullable_item spec @ filter (\<lambda>f. f \<notin> set (oc_strict_item op)) und\<rparr>)"
  by (induction fs arbitrary: spec)
    (simp_all add: add_item_field_def defaulted_def Let_def split: option.split)

lemma compute_spec_buckets:
  fixes op
  defines "spec \<equiv> compute_input_field_spec op" and "md \<equiv> oc_metadata op"
  shows "sp_excluded_common spec = excluded_fields op"
    and "set (sp_strict_common spec) = {f \<in> set (common_input md). f \<notin> set (excluded_fields op) \<and>
           fm_find (oc_common_defaults op) f = None \<and> f \<in> set (oc_strict_common op)}"
    and "set (sp_nullable_common spec) = {f \<in> set (common_input md). f \<notin> set (excluded_fields op) \<and>
           fm_find (oc_common_defaults op) f = None \<and> f \<notin> set (oc_strict_common op)}"
    and "sp_defaulted_common spec =
           defaulted (oc_common_defaults op) (filter (\<lambda>f. f \<notin> set (excluded_fields op)) (common_input md))"
    and "set (sp_strict_item spec) = {f \<in> set (item_input md).
           fm_find (oc_item_defaults op) f = None \<and> f \<in> set (oc_strict_item op)}"
    and "set (sp_nullable_item spec) = {f \<in> set (item_input md).
           fm_find (oc_item_defaults op) f = None \<and> f \<notin> set (oc_strict_item op)}"
    and "sp_defaulted_item spec = defaulted (oc_item_defaults op) (item_input md)"
  unfolding spec_def md_def compute_input_field_spec_def
  by (auto simp: fold_add_common_field fold_add_item_field Let_def)

lemma default_of_defaulted:
  "default_of (defaulted ds fs) f =
     (if f \<in> set fs then value_or_null (fm_find ds f) else VNull)"
proof -
  have "map_of (map (\<lambda>f. (f, the (fm_find ds f))) (filter (\<lambda>f. fm_find ds f \<noteq> None) fs)) f =
      (if f \<in> set fs then fm_find ds f else None)"
    by (induction fs) auto
  then show ?thesis by (simp add: default_of_def defaulted_def value_or_null_def)
qed

lemma build_operator_input_Inr:
  "build_operator_input f op spec = Inr inp \<longleftrightarrow>
     check_strict_common f op spec = Inr () \<and> check_nullable_common f op spec = Inr () \<and>
     check_strict_item f op spec = Inr () \<and> check_nullable_item f op spec = Inr () \<and>
     inp = operator_input_of f spec"
  by (auto simp: build_operator_input_def rbind_Inr_iff)

lemma checks_Inr:
  "check_strict_common f op spec = Inr () \<longleftrightarrow> (\<forall>field \<in> set (sp_strict_common spec). frame_get_common f field \<noteq> VNull)"
  "check_nullable_common f op spec = Inr () \<longleftrightarrow> (\<forall>field \<in> set (sp_nullable_common spec). frame_has_common f field)"
  "check_nullable_item f op spec = Inr () \<longleftrightarrow>
     (\<forall>field \<in> set (sp_nullable_item spec). \<forall>i < frame_item_count f. frame_item_has f i field)"
  by (auto simp: check_strict_common_def check_nullable_common_def check_nullable_item_def rcheck_all_Inr
      is_null_def)

lemma check_strict_item_Inr:
  assumes "frame_inv f" "0 < frame_item_count f"
  shows "check_strict_item f op spec = Inr () \<longleftrightarrow>
     (\<forall>field \<in> set (sp_strict_item spec). \<forall>i < frame_item_count f. frame_item f i field \<noteq> VNull)"
proof -
  have "a_rows (frame_abs f) \<noteq> []" using assms fr.count_abs [OF assms(1)] by auto
  from fr.strict_row_iff [OF assms(1) this, of "sp_strict_item spec"] show ?thesis
    by (auto simp: check_strict_item_def not_le split: prod.split)
qed

end
