(* ===== verification/Input_Theorems.thy ===== *)
theory Input_Theorems
  imports Operator_Input
begin

text \<open>Properties of the operator input: what a built input guarantees, and when it is built.\<close>

section \<open>What the operator sees\<close>

lemma in_item_of:
  "i < frame_item_count f \<Longrightarrow>
   in_item (operator_input_of f spec) i field =
     (if frame_item f i field \<noteq> VNull then frame_item f i field else default_of (sp_defaulted_item spec) field)"
  by (simp add: in_item_def operator_input_of_def is_null_def)

lemma in_common_of:
  "in_common (operator_input_of f spec) field =
     (if field \<in> set (sp_excluded_common spec) then VNull
      else if frame_get_common f field \<noteq> VNull then frame_get_common f field
      else default_of (sp_defaulted_common spec) field)"
  by (simp add: in_common_def operator_input_of_def is_null_def)

lemma num_numeral_simps: "VNum d \<noteq> VNull" "VStr x \<noteq> VNull" by simp_all

definition demo_input_config :: operator_config where
  "demo_input_config =
     \<lparr>oc_name = ''score'', oc_type_name = ''transform_copy'',
      oc_metadata = \<lparr>common_input = [''_if_1'', ''user'', ''limit''], common_input_skip = [''_if_1''],
        common_input_template = [], common_output = [], item_input = [''id'', ''boost''], item_output = []\<rparr>,
      oc_skip = [''_if_1''], oc_recall = False, oc_consumes_row_set = False, oc_mutates_row_set = False,
      oc_additive_writes_row_set = False, oc_concurrent_safe = True, oc_debug = None,
      oc_for_branch_control = False, oc_common_defaults = [(''limit'', VNum (dbl 10))],
      oc_item_defaults = [(''boost'', VNum (dbl 1))], oc_strict_common = [''user''], oc_strict_item = [''id''],
      oc_sources = [], oc_params = VObj [], oc_operator_type = ''transform'', oc_data_parallel = 0\<rparr>"

definition demo_input_frame :: frame where
  "demo_input_frame =
     RowF (rf_new [(''_if_1'', VBool True), (''user'', VStr ''u1'')]
       [[(''boost'', VNum (dbl 3)), (''id'', VStr ''a'')], [(''id'', VStr ''b'')]])"

lemma demo_input_ok: "frame_inv demo_input_frame" "frame_item_count demo_input_frame = 2"
    "build_operator_input demo_input_frame ''score'' (compute_input_field_spec demo_input_config) =
       Inr (operator_input_of demo_input_frame (compute_input_field_spec demo_input_config))"
proof -
  show "frame_inv demo_input_frame"
    by (simp add: demo_input_frame_def frame_inv_def rf_ok_def rf_new_def fm_ok_def; code_simp)
qed code_simp+

text \<open>
  C23: an input that was built keeps the promises of its configuration.  A control or template field
  reads as null whatever the frame holds.  Every other declared common field reads as the frame's
  value, a null being replaced by the declared default; without a default a strict field is not null
  and any other field is present in the frame.  The same holds of the item fields on every item.
\<close>

theorem operator_input_guarantee:
  assumes "frame_inv f" "0 < frame_item_count f"
    and built: "build_operator_input f name (compute_input_field_spec op) = Inr inp"
  shows "(\<forall>field \<in> set (excluded_fields op). in_common inp field = VNull) \<and>
    (\<forall>field \<in> set (common_input (oc_metadata op)) - set (excluded_fields op).
       (let v = frame_get_common f field
        in case fm_find (oc_common_defaults op) field of
             Some d \<Rightarrow> in_common inp field = (if v = VNull then d else v)
           | None \<Rightarrow> in_common inp field = v \<and>
               (if field \<in> set (oc_strict_common op) then v \<noteq> VNull else frame_has_common f field))) \<and>
    (\<forall>field \<in> set (item_input (oc_metadata op)). \<forall>i < in_item_count inp.
       (let v = frame_item f i field
        in case fm_find (oc_item_defaults op) field of
             Some d \<Rightarrow> in_item inp i field = (if v = VNull then d else v)
           | None \<Rightarrow> in_item inp i field = v \<and>
               (if field \<in> set (oc_strict_item op) then v \<noteq> VNull else frame_item_has f i field)))"
proof -
  note b = built [unfolded build_operator_input_Inr checks_Inr check_strict_item_Inr [OF assms(1,2)]]
  then have inp: "inp = operator_input_of f (compute_input_field_spec op)" by blast
  then have n: "in_item_count inp = frame_item_count f" by (simp add: operator_input_of_def)
  note s = compute_spec_buckets [of op]
  show ?thesis
  proof (intro conjI ballI allI impI)
    fix field assume "field \<in> set (excluded_fields op)"
    then show "in_common inp field = VNull" by (simp add: inp in_common_of s(1))
  next
    fix field assume "field \<in> set (common_input (oc_metadata op)) - set (excluded_fields op)"
    then show "let v = frame_get_common f field
        in case fm_find (oc_common_defaults op) field of
             Some d \<Rightarrow> in_common inp field = (if v = VNull then d else v)
           | None \<Rightarrow> in_common inp field = v \<and>
               (if field \<in> set (oc_strict_common op) then v \<noteq> VNull else frame_has_common f field)"
      using b s(2,3)
      by (auto simp: inp in_common_of s(1,4) default_of_defaulted value_or_null_def Let_def split: option.split)
  next
    fix field i assume "field \<in> set (item_input (oc_metadata op))" "i < in_item_count inp"
    then show "let v = frame_item f i field
        in case fm_find (oc_item_defaults op) field of
             Some d \<Rightarrow> in_item inp i field = (if v = VNull then d else v)
           | None \<Rightarrow> in_item inp i field = v \<and>
               (if field \<in> set (oc_strict_item op) then v \<noteq> VNull else frame_item_has f i field)"
      using b s(5,6) n
      by (auto simp: inp in_item_of s(7) default_of_defaulted value_or_null_def Let_def split: option.split)
  qed
qed

theorem operator_input_guarantee_witness:
  "in_common (operator_input_of demo_input_frame (compute_input_field_spec demo_input_config)) ''_if_1'' = VNull"
  using operator_input_guarantee [OF demo_input_ok(1) _ demo_input_ok(3)] demo_input_ok(2)
  by (auto simp: excluded_fields_def demo_input_config_def)

section \<open>When it is built\<close>

text \<open>Checks of the two buckets of undefaulted fields, as one check of the declared fields.\<close>

lemma buckets_common:
  "(\<forall>f \<in> {f \<in> A. f \<notin> X \<and> D f = None \<and> f \<in> S}. P f) \<and> (\<forall>f \<in> {f \<in> A. f \<notin> X \<and> D f = None \<and> f \<notin> S}. Q f) \<longleftrightarrow>
   (\<forall>f \<in> A - X. D f = None \<longrightarrow> (if f \<in> S then P f else Q f))"
  by auto

lemma buckets_item:
  "(\<forall>f \<in> {f \<in> A. D f = None \<and> f \<in> S}. \<forall>i < n. P f i) \<and> (\<forall>f \<in> {f \<in> A. D f = None \<and> f \<notin> S}. \<forall>i < n. Q f i) \<longleftrightarrow>
   (\<forall>f \<in> A. D f = None \<longrightarrow> (\<forall>i < n. if f \<in> S then P f i else Q f i))"
  by auto

lemma build_error_names_field:
  assumes "frame_inv f" "0 < frame_item_count f" "build_operator_input f name spec = Inl e"
  shows "\<exists>field msg. e = field_error name field msg \<and>
    field \<in> set (sp_strict_common spec) \<union> set (sp_nullable_common spec) \<union>
      set (sp_strict_item spec) \<union> set (sp_nullable_item spec)"
proof -
  have rows: "a_rows (frame_abs f) \<noteq> []" using assms fr.count_abs [OF assms(1)] by auto
  have strict: "fst (frame_validate_strict f fs) \<in> set fs" if "0 \<le> snd (frame_validate_strict f fs)" for fs
    using that unfolding fr.strict_abs [OF assms(1) rows]
    by (induction fs) (auto split: option.splits)
  from assms(3) consider "check_strict_common f name spec = Inl e" | "check_nullable_common f name spec = Inl e" |
      "check_strict_item f name spec = Inl e" | "check_nullable_item f name spec = Inl e"
    by (auto simp: build_operator_input_def rbind_Inl_iff)
  then show ?thesis
  proof cases
    case 3
    then show ?thesis
      using strict [of "sp_strict_item spec"]
      by (force simp: check_strict_item_def split: if_splits prod.splits)
  next
    case 1
    then show ?thesis unfolding check_strict_common_def by (force dest!: rcheck_all_Inl)
  next
    case 2
    then show ?thesis unfolding check_nullable_common_def by (force dest!: rcheck_all_Inl)
  next
    case 4
    then obtain field i where "field \<in> set (sp_nullable_item spec)"
        "e = field_error name field ('' is missing on item['' @ string_of_nat i @ '']'')"
      unfolding check_nullable_item_def by (auto dest!: rcheck_all_Inl)
    then show ?thesis by blast
  qed
qed

text \<open>
  C24: on a frame with items the input is built exactly when every strict common field is not null,
  every other declared common field without a default is present, every strict item field is not null
  on every item and every other item field without a default is present on every item; a failure
  carries the name of the operator.
\<close>

theorem build_input_succeeds_iff:
  assumes "frame_inv f" "0 < frame_item_count f"
  shows "(case build_operator_input f name (compute_input_field_spec op) of
       Inr inp \<Rightarrow> inp = operator_input_of f (compute_input_field_spec op)
     | Inl e \<Rightarrow> (\<exists>field msg. e = field_error name field msg \<and>
         field \<in> set (common_input (oc_metadata op)) \<union> set (item_input (oc_metadata op)))) \<and>
     ((\<exists>inp. build_operator_input f name (compute_input_field_spec op) = Inr inp) \<longleftrightarrow>
       (\<forall>field \<in> set (common_input (oc_metadata op)) - set (excluded_fields op).
          fm_find (oc_common_defaults op) field = None \<longrightarrow>
          (if field \<in> set (oc_strict_common op) then frame_get_common f field \<noteq> VNull
           else frame_has_common f field)) \<and>
       (\<forall>field \<in> set (item_input (oc_metadata op)). fm_find (oc_item_defaults op) field = None \<longrightarrow>
          (\<forall>i < frame_item_count f. if field \<in> set (oc_strict_item op) then frame_item f i field \<noteq> VNull
             else frame_item_has f i field)))"
proof -
  note s = compute_spec_buckets [of op]
  have "case build_operator_input f name (compute_input_field_spec op) of
       Inr inp \<Rightarrow> inp = operator_input_of f (compute_input_field_spec op)
     | Inl e \<Rightarrow> (\<exists>field msg. e = field_error name field msg \<and>
         field \<in> set (common_input (oc_metadata op)) \<union> set (item_input (oc_metadata op)))"
  proof (cases "build_operator_input f name (compute_input_field_spec op)")
    case (Inl e)
    obtain field msg where "e = field_error name field msg"
        "field \<in> set (common_input (oc_metadata op)) \<union> set (item_input (oc_metadata op))"
      using build_error_names_field [OF assms Inl] unfolding s(2,3,5,6) by blast
    then show ?thesis unfolding Inl sum.case by blast
  next
    case (Inr inp)
    then have "inp = operator_input_of f (compute_input_field_spec op)" unfolding build_operator_input_Inr by blast
    then show ?thesis using Inr by simp
  qed
  moreover have "(\<exists>inp. build_operator_input f name (compute_input_field_spec op) = Inr inp) \<longleftrightarrow>
      (\<forall>field \<in> set (common_input (oc_metadata op)) - set (excluded_fields op).
         fm_find (oc_common_defaults op) field = None \<longrightarrow>
         (if field \<in> set (oc_strict_common op) then frame_get_common f field \<noteq> VNull
          else frame_has_common f field)) \<and>
      (\<forall>field \<in> set (item_input (oc_metadata op)). fm_find (oc_item_defaults op) field = None \<longrightarrow>
         (\<forall>i < frame_item_count f. if field \<in> set (oc_strict_item op) then frame_item f i field \<noteq> VNull
            else frame_item_has f i field))"
    unfolding build_operator_input_Inr checks_Inr check_strict_item_Inr [OF assms] s(2,3,5,6)
    by (subst buckets_common [symmetric], subst buckets_item [symmetric]) blast
  ultimately show ?thesis by (rule conjI)
qed

theorem build_input_succeeds_iff_witness:
  "build_operator_input demo_input_frame ''score'' (compute_input_field_spec demo_input_config) =
     Inr (operator_input_of demo_input_frame (compute_input_field_spec demo_input_config))"
proof -
  have "0 < frame_item_count demo_input_frame" using demo_input_ok(2) by simp
  from build_input_succeeds_iff [OF demo_input_ok(1) this, of "''score''" demo_input_config] demo_input_ok(3)
  show ?thesis by (auto split: sum.splits)
qed

section \<open>Reads of whole columns\<close>

text \<open>
  Reading a whole column gives, position by position, what reading the items one by one gives,
  defaults included, up to the sign of a zero.
\<close>

theorem item_column_is_items:
  assumes "frame_inv f"
  shows "map unsign_zero (in_item_column (operator_input_of f spec) field) =
    map (\<lambda>i. unsign_zero (in_item (operator_input_of f spec) i field)) [0..<frame_item_count f]"
proof -
  let ?col = "frame_item_column f field"
  have len: "length ?col = frame_item_count f"
    using arg_cong [OF fr.column_abs [OF assms, of field], of length] fr.count_abs [OF assms]
    by (simp add: a_column_def)
  have nth: "unsign_zero (?col ! i) = unsign_zero (frame_item f i field)" if "i < frame_item_count f" for i
    using arg_cong [OF fr.column_abs [OF assms, of field], of "\<lambda>xs. xs ! i"] that len
      fr.item_abs [OF assms, of i field] fr.count_abs [OF assms]
    by (simp add: a_column_def a_item_def)
  then have null: "?col ! i = VNull \<longleftrightarrow> frame_item f i field = VNull" if "i < frame_item_count f" for i
    using that by (metis unsign_zero.simps(2) unsign_zero_eq_null)
  have col: "in_item_column (operator_input_of f spec) field =
      (case map_of (sp_defaulted_item spec) field of None \<Rightarrow> ?col | Some d \<Rightarrow> map (\<lambda>v. if v = VNull then d else v) ?col)"
    by (simp add: in_item_column_def operator_input_of_def is_null_def Let_def split: option.split)
  show ?thesis
  proof (cases "map_of (sp_defaulted_item spec) field")
    case None
    then show ?thesis
      using nth null
      by (intro nth_equalityI) (simp_all add: col len in_item_of default_of_def value_or_null_def)
  next
    case (Some d)
    then show ?thesis
      using nth null
      by (intro nth_equalityI) (simp_all add: col len in_item_of default_of_def value_or_null_def)
  qed
qed

theorem item_column_is_items_witness:
  "length (in_item_column (operator_input_of demo_input_frame (compute_input_field_spec demo_input_config)) ''boost'') = 2"
  using arg_cong [OF item_column_is_items [OF demo_input_ok(1)], of length] demo_input_ok(2) by simp

section \<open>Both storage modes\<close>

text \<open>
  two frames with the same contents and at least one item, whatever their storage mode, fail to
  build the input with the same error, or give inputs with the same item count, the same common
  reads and, up to the sign of a zero, the same item reads.
\<close>

theorem storage_modes_build_same_input:
  assumes "frame_inv f" "frame_inv g" "frame_abs f = frame_abs g" "0 < frame_item_count f"
  shows "case (build_operator_input f name spec, build_operator_input g name spec) of
      (Inl e, Inl e') \<Rightarrow> e = e'
    | (Inr i, Inr j) \<Rightarrow> in_item_count i = in_item_count j \<and> in_common i = in_common j \<and>
        (\<forall>k field. unsign_zero (in_item i k field) = unsign_zero (in_item j k field))
    | _ \<Rightarrow> False"
proof -
  note same = fr.reads_determined [OF assms(1-3)]
  have rows: "a_rows (frame_abs f) \<noteq> []" using assms fr.count_abs [OF assms(1)] by auto
  have common: "frame_has_common f = frame_has_common g"
    by (simp add: fun_eq_iff frame_has_common_abs assms)
  have checks: "check_strict_common f name spec = check_strict_common g name spec"
      "check_nullable_common f name spec = check_nullable_common g name spec"
      "check_strict_item f name spec = check_strict_item g name spec"
      "check_nullable_item f name spec = check_nullable_item g name spec"
    using fr.strict_abs [OF assms(1) rows] fr.strict_abs [OF assms(2)] rows assms(3)
    by (simp_all add: check_strict_common_def check_nullable_common_def check_strict_item_def
        check_nullable_item_def same(1,3,4) common)
  have nulls: "frame_item f k field = VNull \<longleftrightarrow> frame_item g k field = VNull" for k field
    using same(2) [of k field] by (metis unsign_zero.simps(2) unsign_zero_eq_null)
  let ?i = "operator_input_of f spec" and ?j = "operator_input_of g spec"
  have "in_common ?i = in_common ?j" by (simp add: fun_eq_iff in_common_of same(4))
  moreover have "unsign_zero (in_item ?i k field) = unsign_zero (in_item ?j k field)" for k field
    using same(1) same(2) [of k field] nulls [of k field]
    by (simp add: in_item_def operator_input_of_def is_null_def)
  moreover have "in_item_count ?i = in_item_count ?j" by (simp add: operator_input_of_def same(1))
  ultimately show ?thesis
    unfolding build_operator_input_def checks
    by (cases "check_strict_common g name spec"; cases "check_nullable_common g name spec";
        cases "check_strict_item g name spec"; cases "check_nullable_item g name spec"; simp)
qed

definition demo_input_column :: frame where
  "demo_input_column = fst (make_frame ''column'' [(''_if_1'', VBool True), (''user'', VStr ''u1'')]
     [[(''boost'', VNum (dbl 3)), (''id'', VStr ''a'')], [(''id'', VStr ''b'')]])"

lemma demo_input_column_ok: "frame_inv demo_input_column" "frame_abs demo_input_column = frame_abs demo_input_frame"
proof -
  have "items_ok [[(''boost'', VNum (dbl 3)), (''id'', VStr ''a'')], [(''id'', VStr ''b'')]]"
    by (simp add: items_ok_def dbl_def fm_ok_def del: prec53.simps)
  moreover have "fm_ok [(''_if_1'', VBool True), (''user'', VStr ''u1'')]" by code_simp
  ultimately show "frame_inv demo_input_column" "frame_abs demo_input_column = frame_abs demo_input_frame"
    using make_frame_ok [of _ _ "''column''"]
    by (fastforce simp: demo_input_column_def demo_input_frame_def frame_abs_def)+
qed

theorem storage_modes_build_same_input_witness:
  "case (build_operator_input demo_input_frame ''score'' (compute_input_field_spec demo_input_config),
         build_operator_input demo_input_column ''score'' (compute_input_field_spec demo_input_config)) of
     (Inl e, Inl e') \<Rightarrow> e = e'
   | (Inr i, Inr j) \<Rightarrow> in_item_count i = in_item_count j \<and> in_common i = in_common j \<and>
       (\<forall>k field. unsign_zero (in_item i k field) = unsign_zero (in_item j k field))
   | _ \<Rightarrow> False"
proof -
  have "0 < frame_item_count demo_input_frame" using demo_input_ok(2) by simp
  from storage_modes_build_same_input [OF demo_input_ok(1) demo_input_column_ok(1)
      demo_input_column_ok(2) [symmetric] this, of "''score''" "compute_input_field_spec demo_input_config"]
  show ?thesis .
qed

end
