(* ===== verification/Registry.thy ===== *)
theory Registry
  imports Config_Data
begin

text \<open>
  The operator registry (\<open>src/registry/registry.cpp\<close>): registration with its checks, lookup,
  and the traits copied from an entry into each configured operator.
\<close>

definition register_operator_with_traits ::
  "operator_schema \<Rightarrow> bool \<Rightarrow> bool \<Rightarrow> bool \<Rightarrow> bool \<Rightarrow> bool \<Rightarrow> registry \<Rightarrow> (registry, error) outcome" where
  "register_operator_with_traits schema has_factory consumes mutates adds safe reg =
     (if os_name schema = []
      then (reg, Some (RegistryError None ''pine: register_operator_with_traits called with empty name''))
      else if os_description schema = []
      then (reg, Some (RegistryError None
             (''pine: operator '' @ quoted (os_name schema) @ '': description is required'')))
      else case find (\<lambda>p. ps_description (snd p) = []) (os_params schema) of
        Some p \<Rightarrow> (reg, Some (RegistryError None (''pine: operator '' @ quoted (os_name schema) @
                     '' param '' @ quoted (fst p) @ '': description is required'')))
      | None \<Rightarrow>
          if \<not> has_factory
          then (reg, Some (RegistryError None
                 (''pine: operator '' @ quoted (os_name schema) @ '': factory must not be null'')))
          else if fm_count reg (os_name schema) > 0
          then (reg, Some (RegistryError None
                 (''pine: duplicate operator registration: '' @ quoted (os_name schema))))
          else (fst (fm_emplace (os_name schema)
                       \<lparr>en_schema = schema, en_consumes_row_set = consumes, en_mutates_row_set = mutates,
                        en_additive_writes_row_set = adds, en_concurrent_safe = safe\<rparr> reg), None))"

definition registry_entry :: "registry \<Rightarrow> string \<Rightarrow> operator_entry option" where
  "registry_entry reg type_name = fm_find reg type_name"

definition registered_operator_names :: "registry \<Rightarrow> string list" where
  "registered_operator_names reg = map fst reg"

definition with_traits :: "operator_entry \<Rightarrow> operator_config \<Rightarrow> operator_config" where
  "with_traits entry op =
     op\<lparr>oc_operator_type := op_type_to_string (os_type (en_schema entry)),
        oc_consumes_row_set := en_consumes_row_set entry \<or> oc_consumes_row_set op,
        oc_mutates_row_set := en_mutates_row_set entry \<or> oc_mutates_row_set op,
        oc_additive_writes_row_set := en_additive_writes_row_set entry \<or> oc_additive_writes_row_set op,
        oc_concurrent_safe := en_concurrent_safe entry \<or> oc_concurrent_safe op\<rparr>"

definition apply_traits_to :: "registry \<Rightarrow> string \<times> operator_config \<Rightarrow> error + string \<times> operator_config" where
  "apply_traits_to reg named =
     (case registry_entry reg (oc_type_name (snd named)) of
        None \<Rightarrow> Inl (RegistryError None (''operator '' @ quoted (fst named) @
                  '': operator type not registered: '' @ quoted (oc_type_name (snd named))))
      | Some entry \<Rightarrow> Inr (fst named, with_traits entry (snd named)))"

definition apply_registry_traits :: "registry \<Rightarrow> config \<Rightarrow> error + config" where
  "apply_registry_traits reg cfg =
     rbind (rmap (apply_traits_to reg) (cg_operators cfg)) (\<lambda>ops. Inr (cfg\<lparr>cg_operators := ops\<rparr>))"

end
