(* ===== verification/Markers.thy ===== *)
theory Markers
  imports Config_Data
begin

text \<open>
  Template markers (\<open>src/runtime/template.cpp\<close>): the regular expression of two opening braces, one
  or more word characters and two closing braces, searched anywhere in a string or matched against
  the whole of it, and the plan built from an operator's raw parameters.
\<close>

definition is_word_char :: "char \<Rightarrow> bool" where
  "is_word_char c \<longleftrightarrow>
     (let n = of_char c :: nat in 48 \<le> n \<and> n \<le> 57 \<or> 65 \<le> n \<and> n \<le> 90 \<or> 97 \<le> n \<and> n \<le> 122 \<or> n = 95)"

text \<open>The marker at the start of the string: its field and what follows it.\<close>

definition marker_prefix :: "string \<Rightarrow> (string \<times> string) option" where
  "marker_prefix s =
     (if take 2 s = ''{{''
      then let rest = drop 2 s; word = takeWhile is_word_char rest; tail = dropWhile is_word_char rest
           in if word \<noteq> [] \<and> take 2 tail = ''}}'' then Some (word, drop 2 tail) else None
      else None)"

definition extract_bare_field :: "string \<Rightarrow> string option" where
  "extract_bare_field s =
     (case marker_prefix s of Some (word, rest) \<Rightarrow> if rest = [] then Some word else None | None \<Rightarrow> None)"

definition is_bare_marker :: "string \<Rightarrow> bool" where
  "is_bare_marker s \<longleftrightarrow> extract_bare_field s \<noteq> None"

fun contains_marker :: "string \<Rightarrow> bool" where
  "contains_marker [] = False"
| "contains_marker (c # s) \<longleftrightarrow> marker_prefix (c # s) \<noteq> None \<or> contains_marker s"

fun is_templated_string :: "variant \<Rightarrow> bool" where
  "is_templated_string (VStr s) = contains_marker s"
| "is_templated_string v = False"

lemma marker_prefix_Some:
  "marker_prefix s = Some (w, rest) \<longleftrightarrow>
     s = ''{{'' @ w @ ''}}'' @ rest \<and> w \<noteq> [] \<and> list_all is_word_char w"
proof
  assume "marker_prefix s = Some (w, rest)"
  then have w: "take 2 s = ''{{''" "w = takeWhile is_word_char (drop 2 s)" "w \<noteq> []"
      "take 2 (dropWhile is_word_char (drop 2 s)) = ''}}''" "rest = drop 2 (dropWhile is_word_char (drop 2 s))"
    by (auto simp: marker_prefix_def Let_def split: if_splits)
  have "drop 2 s = w @ ''}}'' @ rest"
    using w by (metis append_take_drop_id takeWhile_dropWhile_id)
  moreover have "list_all is_word_char w"
    using w(2) by (auto simp: list_all_iff dest: set_takeWhileD)
  ultimately show "s = ''{{'' @ w @ ''}}'' @ rest \<and> w \<noteq> [] \<and> list_all is_word_char w"
    using w(1,3) by (metis append_take_drop_id)
next
  assume s: "s = ''{{'' @ w @ ''}}'' @ rest \<and> w \<noteq> [] \<and> list_all is_word_char w"
  have brace: "\<not> is_word_char (CHR ''}'')" by (simp add: is_word_char_def)
  have "takeWhile is_word_char (w @ ''}}'' @ rest) = w" "dropWhile is_word_char (w @ ''}}'' @ rest) = ''}}'' @ rest"
    using s brace by (auto simp: list_all_iff takeWhile_append dropWhile_append)
  then show "marker_prefix s = Some (w, rest)"
    using s by (auto simp: marker_prefix_def Let_def)
qed

lemma extract_bare_field_Some:
  "extract_bare_field s = Some w \<longleftrightarrow> s = ''{{'' @ w @ ''}}'' \<and> w \<noteq> [] \<and> list_all is_word_char w"
proof -
  have "extract_bare_field s = Some w \<longleftrightarrow> marker_prefix s = Some (w, [])"
    by (auto simp: extract_bare_field_def split: option.splits if_splits)
  then show ?thesis by (simp add: marker_prefix_Some)
qed

section \<open>The plan\<close>

record templated_param =
  tp_name :: string
  tp_scalar_type :: string
  tp_field :: string

definition templatable_scalar_types :: "string list" where
  "templatable_scalar_types = [''string'', ''int'', ''int64'', ''float'', ''float64'', ''bool'']"

definition normalize_scalar_type :: "string \<Rightarrow> string" where
  "normalize_scalar_type t =
     (if t = ''int'' \<or> t = ''int64'' then ''int64''
      else if t = ''float'' \<or> t = ''float64'' then ''float64''
      else t)"

definition param_error :: "string \<Rightarrow> string \<Rightarrow> string \<Rightarrow> error" where
  "param_error op_name param msg =
     ConfigError (''operator '' @ quoted op_name @ '': param '' @ quoted param @ msg)"

definition plan_param ::
  "string \<Rightarrow> operator_schema \<Rightarrow> string \<times> variant \<Rightarrow> templated_param list \<Rightarrow> error + templated_param list" where
  "plan_param op_name schema p plan =
     (case p of (param_name, raw) \<Rightarrow>
        if \<not> is_templated_string raw then Inr plan
        else case fm_find (os_params schema) param_name of
          None \<Rightarrow> Inl (param_error op_name param_name '' is not declared in schema'')
        | Some spec \<Rightarrow>
            if \<not> ps_templatable spec
            then Inl (param_error op_name param_name '' is not declared templatable in schema'')
            else if ps_type spec \<notin> set templatable_scalar_types
            then Inl (param_error op_name param_name ('' has declared type '' @ quoted (ps_type spec) @
                       '' which does not support templating''))
            else rbind (as_string raw) (\<lambda>tmpl.
              case extract_bare_field tmpl of
                None \<Rightarrow> Inl (param_error op_name param_name ('' value '' @ quoted tmpl @
                               '' must be a bare {{field}} marker''))
              | Some field \<Rightarrow> Inr (plan @ [\<lparr>tp_name = param_name,
                    tp_scalar_type = normalize_scalar_type (ps_type spec), tp_field = field\<rparr>])))"

definition build_templated_param_plan ::
  "string \<Rightarrow> operator_schema \<Rightarrow> variant \<Rightarrow> error + templated_param list" where
  "build_templated_param_plan op_name schema raw_params =
     (case raw_params of
        VObj obj \<Rightarrow> rfold (plan_param op_name schema) obj []
      | _ \<Rightarrow> Inr [])"

end
