(* ===== verification/Config.thy ===== *)
theory Config
  imports Registry Markers
begin

text \<open>
  Configuration loading (\<open>src/config/config.cpp\<close>): the operators parsed from the JSON root, the
  validation of the whole configuration, and the expansion of the pipeline tree into the operator
  sequence.  The registry is an argument: the C++ process fills it from static initialisers.
\<close>

section \<open>Parsing\<close>

definition as_string_list :: "object \<Rightarrow> string \<Rightarrow> error + string list" where
  "as_string_list obj key =
     (case fm_find obj key of None \<Rightarrow> Inr [] | Some v \<Rightarrow> rbind (as_array v) (rmap as_string))"

definition as_value_map :: "object \<Rightarrow> string \<Rightarrow> error + variant flat_map" where
  "as_value_map obj key =
     (case fm_find obj key of
        None \<Rightarrow> Inr []
      | Some v \<Rightarrow> rbind (as_object v) (\<lambda>m. Inr (fold (\<lambda>(k, x). fm_set k x) m [])))"

definition parse_metadata :: "object \<Rightarrow> error + metadata" where
  "parse_metadata obj =
     (case fm_find obj ''$metadata'' of
        None \<Rightarrow> Inl (ConfigError ''operator missing $metadata'')
      | Some v \<Rightarrow>
          rbind (as_object v) (\<lambda>mo.
          rbind (as_string_list mo ''common_input'') (\<lambda>ci.
          rbind (as_string_list mo ''common_input_skip'') (\<lambda>cs.
          rbind (as_string_list mo ''common_input_template'') (\<lambda>ct.
          rbind (as_string_list mo ''common_output'') (\<lambda>co.
          rbind (as_string_list mo ''item_input'') (\<lambda>ii.
          rbind (as_string_list mo ''item_output'') (\<lambda>io.
            Inr \<lparr>common_input = ci, common_input_skip = cs, common_input_template = ct,
                 common_output = co, item_input = ii, item_output = io\<rparr>))))))))"

definition parse_skip :: "object \<Rightarrow> error + string list" where
  "parse_skip obj =
     (case fm_find obj ''skip'' of
        None \<Rightarrow> Inr []
      | Some (VStr s) \<Rightarrow> Inr (if s \<noteq> [] then [s] else [])
      | Some v \<Rightarrow> rbind (as_array v) (rmap as_string))"

definition bool_flag :: "object \<Rightarrow> string \<Rightarrow> bool" where
  "bool_flag obj key = (case fm_find obj key of Some (VBool b) \<Rightarrow> b | _ \<Rightarrow> False)"

definition reserved_keys :: "string list" where
  "reserved_keys =
     [''type_name'', ''$metadata'', ''$code_info'', ''skip'', ''recall'', ''sources'', ''debug'',
      ''consumes_row_set'', ''mutates_row_set'', ''additive_writes_row_set'', ''common_defaults'',
      ''item_defaults'', ''strict_common'', ''strict_item'', ''for_branch_control'', ''data_parallel'']"

definition operator_params :: "object \<Rightarrow> object" where
  "operator_params obj =
     fold (\<lambda>(key, item) params. if key \<in> set reserved_keys then params else fm_set key item params) obj []"

definition parse_operator :: "string \<Rightarrow> variant \<Rightarrow> error + operator_config" where
  "parse_operator name value =
     rbind (as_object value) (\<lambda>obj.
     case fm_find obj ''type_name'' of
       None \<Rightarrow> Inl (ConfigError (''operator '' @ quoted name @ '': missing type_name''))
     | Some tv \<Rightarrow>
       rbind (as_string tv) (\<lambda>type_name.
       rbind (parse_metadata obj) (\<lambda>meta.
       rbind (parse_skip obj) (\<lambda>skip.
       rbind (as_value_map obj ''common_defaults'') (\<lambda>cdef.
       rbind (as_value_map obj ''item_defaults'') (\<lambda>idef.
       rbind (as_string_list obj ''strict_common'') (\<lambda>sc.
       rbind (as_string_list obj ''strict_item'') (\<lambda>si.
       rbind (as_string_list obj ''sources'') (\<lambda>sources.
         Inr \<lparr>oc_name = name, oc_type_name = type_name, oc_metadata = meta, oc_skip = skip,
              oc_recall = bool_flag obj ''recall'',
              oc_consumes_row_set = bool_flag obj ''consumes_row_set'',
              oc_mutates_row_set = bool_flag obj ''mutates_row_set'',
              oc_additive_writes_row_set = bool_flag obj ''additive_writes_row_set'',
              oc_concurrent_safe = False,
              oc_debug = (case fm_find obj ''debug'' of Some (VBool b) \<Rightarrow> Some b | _ \<Rightarrow> None),
              oc_for_branch_control = bool_flag obj ''for_branch_control'',
              oc_common_defaults = cdef, oc_item_defaults = idef,
              oc_strict_common = sc, oc_strict_item = si, oc_sources = sources,
              oc_params = VObj (operator_params obj), oc_operator_type = [],
              oc_data_parallel = (case fm_find obj ''data_parallel'' of Some (VNum d) \<Rightarrow> d_to_int d | _ \<Rightarrow> 0)\<rparr>)))))))))"

section \<open>Validation\<close>

definition validate_storage_mode :: "string \<Rightarrow> error + unit" where
  "validate_storage_mode mode =
     throw_if (mode \<noteq> [] \<and> mode \<noteq> ''row'' \<and> mode \<noteq> ''column'')
       (ConfigError (''storage_mode '' @ quoted mode @ '' is invalid, must be '' @ quoted ''row'' @ '' or '' @
                     quoted ''column''))"

definition op_msg :: "string \<Rightarrow> string \<Rightarrow> string" where
  "op_msg name msg = ''operator '' @ quoted name @ '': '' @ msg"

definition validate_skip :: "string \<Rightarrow> operator_config \<Rightarrow> string \<Rightarrow> error + unit" where
  "validate_skip name op skip =
     (if skip = [] \<or> hd skip \<noteq> CHR ''_''
      then Inl (ConfigError (op_msg name (''skip field '' @ quoted skip @
                  '' must start with '' @ [CHR 0x27] @ ''_'' @ [CHR 0x27] @
                  '' (control fields are engine-internal)'')))
      else throw_if (skip \<notin> set (common_input (oc_metadata op)) \<and>
                     skip \<notin> set (common_input_skip (oc_metadata op)))
             (ConfigError (op_msg name (''skip field '' @ quoted skip @
                '' must also appear in $metadata.common_input or $metadata.common_input_skip to '' @
                ''ensure correct DAG ordering''))))"

definition validate_source :: "config \<Rightarrow> string \<Rightarrow> string \<Rightarrow> error + unit" where
  "validate_source cfg name src =
     throw_if (fm_count (cg_operators cfg) src = 0)
       (ConfigError (op_msg name (''sources references undefined operator '' @ quoted src)))"

definition validate_filter_condition :: "string \<Rightarrow> operator_config \<Rightarrow> error + unit" where
  "validate_filter_condition name op =
     (if oc_type_name op = ''filter_condition''
      then throw_if (case oc_params op of VObj ps \<Rightarrow> fm_find ps ''value'' = None | _ \<Rightarrow> True)
             (RegistryError None (op_msg name (''required parameter '' @ quoted ''value'' @
                '' missing for operator '' @ quoted name)))
      else Inr ())"

text \<open>A parameter that must be a number or a bare marker.\<close>

definition numeric_or_marker :: "string \<Rightarrow> string \<Rightarrow> variant \<Rightarrow> error + unit" where
  "numeric_or_marker name param v =
     throw_if (case v of VStr s \<Rightarrow> \<not> is_bare_marker s | VNum d \<Rightarrow> False | _ \<Rightarrow> True)
       (RegistryError None (op_msg name (param @ '' must be numeric'')))"

definition validate_filter_truncate :: "string \<Rightarrow> operator_config \<Rightarrow> error + unit" where
  "validate_filter_truncate name op =
     (if oc_type_name op = ''filter_truncate''
      then rbind (as_object (oc_params op)) (\<lambda>ps.
           case fm_find ps ''top_n'' of
             None \<Rightarrow> Inr ()
           | Some v \<Rightarrow> rbind (numeric_or_marker name ''top_n'' v) (\<lambda>_.
               case v of
                 VNum d \<Rightarrow> throw_if (d_lt d (dbl 0))
                   (RegistryError None (op_msg name
                      (''filter_truncate: top_n must be non-negative, got '' @ string_of_int (d_to_int d))))
               | _ \<Rightarrow> Inr ()))
      else Inr ())"

definition validate_reorder_sort :: "string \<Rightarrow> operator_config \<Rightarrow> error + unit" where
  "validate_reorder_sort name op =
     (if oc_type_name op = ''reorder_sort''
      then rbind (as_object (oc_params op)) (\<lambda>ps.
           case fm_find ps ''order'' of
             Some (VStr order) \<Rightarrow> throw_if (order \<noteq> ''asc'' \<and> order \<noteq> ''desc'')
               (RegistryError None (op_msg name (''unsupported order '' @ quoted order)))
           | _ \<Rightarrow> Inr ())
      else Inr ())"

definition validate_redis_set :: "string \<Rightarrow> operator_config \<Rightarrow> error + unit" where
  "validate_redis_set name op =
     (if oc_type_name op = ''transform_redis_set''
      then rbind (as_object (oc_params op)) (\<lambda>ps.
           case fm_find ps ''ttl'' of Some v \<Rightarrow> numeric_or_marker name ''ttl'' v | None \<Rightarrow> Inr ())
      else Inr ())"

definition dp_msg :: "string \<Rightarrow> operator_config \<Rightarrow> string \<Rightarrow> error" where
  "dp_msg name op msg =
     ValidationError (op_msg name (''data_parallel='' @ string_of_int (oc_data_parallel op) @ msg))"

definition validate_data_parallel :: "string \<Rightarrow> operator_config \<Rightarrow> error + unit" where
  "validate_data_parallel name op =
     (if oc_data_parallel op < 0
      then Inl (ValidationError (op_msg name (''data_parallel must be >= 1, got '' @
                  string_of_int (oc_data_parallel op))))
      else if oc_data_parallel op > 1
      then (if oc_operator_type op \<noteq> ''transform''
            then Inl (dp_msg name op ('' is only supported for Transform operators, got '' @ oc_operator_type op))
            else if common_output (oc_metadata op) \<noteq> []
            then Inl (dp_msg name op '' requires empty $metadata.common_output for Transform operators'')
            else throw_if (\<not> oc_concurrent_safe op)
                   (dp_msg name op ('' requires the operator to implement ConcurrentSafe interface (type '' @
                      quoted (oc_type_name op) @ '' does not)'')))
      else Inr ())"

definition validate_operator :: "config \<Rightarrow> string \<times> operator_config \<Rightarrow> error + unit" where
  "validate_operator cfg named =
     (case named of (name, op) \<Rightarrow>
        rbind (rcheck_all (validate_skip name op) (oc_skip op)) (\<lambda>_.
        rbind (rcheck_all (validate_source cfg name) (oc_sources op)) (\<lambda>_.
        rbind (throw_if (oc_additive_writes_row_set op \<and> oc_mutates_row_set op)
                 (RegistryError None (op_msg name
                    ''additive_writes_row_set and mutates_row_set are mutually exclusive''))) (\<lambda>_.
        rbind (validate_filter_condition name op) (\<lambda>_.
        rbind (validate_filter_truncate name op) (\<lambda>_.
        rbind (validate_reorder_sort name op) (\<lambda>_.
        rbind (validate_redis_set name op) (\<lambda>_.
        validate_data_parallel name op))))))))"

definition validate_config :: "config \<Rightarrow> error + unit" where
  "validate_config cfg =
     rbind (throw_if (cg_operators cfg = []) (ConfigError ''pipeline_config.operators is empty'')) (\<lambda>_.
     rbind (throw_if (cg_pipeline_group cfg = []) (ConfigError ''pipeline_group is empty'')) (\<lambda>_.
     rbind (rcheck_all (validate_operator cfg) (cg_operators cfg)) (\<lambda>_.
     rcheck_all (\<lambda>(name, _). throw_if (fm_count (cg_pipeline_map cfg) name > 0)
       (ConfigError (''name '' @ quoted name @ '' exists in both operators and pipeline_map'')))
       (cg_operators cfg))))"

section \<open>Loading\<close>

definition require_obj :: "object \<Rightarrow> string \<Rightarrow> error + object" where
  "require_obj parent key =
     (case fm_find parent key of
        None \<Rightarrow> Inl (ConfigError (''missing required top-level field '' @ quoted key))
      | Some v \<Rightarrow> as_object v)"

text \<open>\<open>require_string\<close>: absent and null leave the default \<open>dflt\<close>.\<close>

definition require_string :: "object \<Rightarrow> string \<Rightarrow> string \<Rightarrow> error + string" where
  "require_string parent key dflt =
     (case fm_find parent key of
        None \<Rightarrow> Inr dflt
      | Some VNull \<Rightarrow> Inr dflt
      | Some (VStr s) \<Rightarrow> Inr s
      | Some v \<Rightarrow> Inl (ConfigError (''config field '' @ quoted key @ '' must be a string'')))"

definition parse_resource ::
  "string \<times> variant \<Rightarrow> resource_entry flat_map \<Rightarrow> error + resource_entry flat_map" where
  "parse_resource named rs =
     (case snd named of
        VObj eo \<Rightarrow> Inr (fm_set (fst named)
          \<lparr>re_type = (case fm_find eo ''type'' of Some (VStr s) \<Rightarrow> s | _ \<Rightarrow> []),
           re_interval = (case fm_find eo ''interval'' of Some (VNum d) \<Rightarrow> d_to_int d | _ \<Rightarrow> 0),
           re_params = (case fm_find eo ''params'' of Some v \<Rightarrow> v | None \<Rightarrow> VNull)\<rparr> rs)
      | _ \<Rightarrow> Inl (ConfigError (''resource_config entry '' @ quoted (fst named) @ '' must be an object'')))"

definition parse_resources :: "object \<Rightarrow> error + resource_entry flat_map" where
  "parse_resources rt =
     (case fm_find rt ''resource_config'' of
        Some (VObj rc) \<Rightarrow> rfold parse_resource rc []
      | _ \<Rightarrow> Inr [])"

definition parse_flow_contract :: "object \<Rightarrow> error + flow_contract" where
  "parse_flow_contract rt =
     (case fm_find rt ''flow_contract'' of
        Some (VObj flow) \<Rightarrow>
          rbind (as_string_list flow ''common_input'') (\<lambda>ci.
          rbind (as_string_list flow ''item_input'') (\<lambda>ii.
          rbind (as_string_list flow ''common_output'') (\<lambda>co.
          rbind (as_string_list flow ''item_output'') (\<lambda>io.
            Inr \<lparr>fc_common_input = ci, fc_item_input = ii, fc_common_output = co, fc_item_output = io\<rparr>))))
      | _ \<Rightarrow> Inr \<lparr>fc_common_input = [], fc_item_input = [], fc_common_output = [], fc_item_output = []\<rparr>)"

definition parse_pipeline ::
  "string \<times> variant \<Rightarrow> string list flat_map \<Rightarrow> error + string list flat_map" where
  "parse_pipeline named m =
     rbind (as_object (snd named)) (\<lambda>o'.
     rbind (as_string_list o' ''pipeline'') (\<lambda>entries. Inr (fm_set (fst named) entries m)))"

definition parse_pipelines :: "object \<Rightarrow> error + string list flat_map" where
  "parse_pipelines obj = rfold parse_pipeline obj []"

definition add_operator ::
  "string \<times> variant \<Rightarrow> operator_config flat_map \<Rightarrow> error + operator_config flat_map" where
  "add_operator named m =
     rbind (parse_operator (fst named) (snd named)) (\<lambda>op. Inr (fm_set (fst named) op m))"

definition parse_pipeline_map :: "object \<Rightarrow> error + string list flat_map" where
  "parse_pipeline_map pc =
     (case fm_find pc ''pipeline_map'' of
        None \<Rightarrow> Inr []
      | Some v \<Rightarrow> rbind (as_object v) parse_pipelines)"

definition parse_operators :: "object \<Rightarrow> error + operator_config flat_map" where
  "parse_operators pc =
     (case fm_find pc ''operators'' of
        None \<Rightarrow> Inl (ConfigError (''missing required top-level field '' @ quoted ''pipeline_config.operators''))
      | Some v \<Rightarrow> rbind (as_object v) (\<lambda>oo. rfold add_operator oo []))"

text \<open>\<open>load_config_from_json\<close> after \<open>parse_json\<close>: \<open>root_value\<close> is the parsed document.\<close>

definition load_config :: "registry \<Rightarrow> variant \<Rightarrow> error + config" where
  "load_config reg root_value =
     rbind (as_object root_value) (\<lambda>rt.
     rbind (require_string rt ''_PINEAPPLE_VERSION'' []) (\<lambda>ver.
     rbind (require_string rt ''_PINEAPPLE_CREATE_TIME'' []) (\<lambda>time.
     rbind (require_string rt ''storage_mode'' ''row'') (\<lambda>mode.
     rbind (require_string rt ''log_prefix'' []) (\<lambda>prefix.
     rbind (validate_storage_mode mode) (\<lambda>_.
     rbind (parse_resources rt) (\<lambda>resources.
     rbind (parse_flow_contract rt) (\<lambda>flow.
     rbind (require_obj rt ''pipeline_group'') (\<lambda>group.
     rbind (parse_pipelines group) (\<lambda>pgroup.
     rbind (require_obj rt ''pipeline_config'') (\<lambda>pc.
     rbind (parse_pipeline_map pc) (\<lambda>pmap.
     rbind (parse_operators pc) (\<lambda>ops.
     rbind (apply_registry_traits reg
              \<lparr>cg_operators = ops, cg_pipeline_map = pmap, cg_pipeline_group = pgroup,
               cg_flow_contract = flow, cg_storage_mode = mode,
               cg_debug = bool_flag rt ''debug'', cg_log_prefix = prefix,
               cg_pineapple_version = ver, cg_pineapple_create_time = time,
               cg_resource_config = resources\<rparr>) (\<lambda>cfg.
     rbind (validate_config cfg) (\<lambda>_. Inr cfg)))))))))))))))"

section \<open>Expansion of the pipeline tree\<close>

text \<open>
  The accumulators of \<open>expand_entries\<close>.  \<open>visiting\<close> is a parameter: the C++ set has the sub-flow
  inserted before the recursive call and erased after it.
\<close>

record expansion =
  xp_sequence :: "string list"
  xp_mapping :: "string flat_map"
  xp_seen :: "string list"

lemma fm_find_mem: "fm_find es key = Some v \<Longrightarrow> key \<in> fst ` set es"
  unfolding fm_find_def fm_hit_def Let_def by (metis image_eqI nth_mem option.distinct(1))

function expand_entries :: "config \<Rightarrow> string list \<Rightarrow> string \<Rightarrow> string list \<Rightarrow> expansion \<Rightarrow> error + expansion" where
  "expand_entries cfg [] parent visiting st = Inr st"
| "expand_entries cfg (entry # entries) parent visiting st =
     (if fm_count (cg_operators cfg) entry > 0
      then if entry \<in> set (xp_seen st)
           then Inl (ConfigError (''operator '' @ quoted entry @ '' referenced more than once in pipeline tree''))
           else expand_entries cfg entries parent visiting
                  \<lparr>xp_sequence = xp_sequence st @ [entry],
                   xp_mapping = fm_set entry parent (xp_mapping st), xp_seen = entry # xp_seen st\<rparr>
      else case fm_find (cg_pipeline_map cfg) entry of
        Some sub \<Rightarrow>
          if entry \<in> set visiting
          then Inl (ConfigError (''cycle detected in sub-flow expansion: '' @ quoted entry))
          else rbind (expand_entries cfg sub entry (entry # visiting) st)
                 (expand_entries cfg entries parent visiting)
      | None \<Rightarrow> Inl (ConfigError (''pipeline entry '' @ quoted entry @
                      '' is neither an operator nor a sub-flow'')))"
  by pat_completeness auto
termination
proof (relation "measures [\<lambda>(cfg, es, p, visiting, st). card (fst ` set (cg_pipeline_map cfg) - set visiting),
                           \<lambda>(cfg, es, p, visiting, st). length es]")
  fix cfg entry entries parent visiting st sub
  assume a: "fm_find (cg_pipeline_map cfg) entry = Some sub" "entry \<notin> set visiting"
  have "fst ` set (cg_pipeline_map cfg) - set (entry # visiting) \<subset> fst ` set (cg_pipeline_map cfg) - set visiting"
    using fm_find_mem [OF a(1)] a(2) by auto
  then show "((cfg, sub, entry, entry # visiting, st), cfg, entry # entries, parent, visiting, st) \<in>
      measures [\<lambda>(cfg, es, p, visiting, st). card (fst ` set (cg_pipeline_map cfg) - set visiting),
                \<lambda>(cfg, es, p, visiting, st). length es]"
    by (simp add: psubset_card_mono)
qed auto

definition expand_operator_sequence :: "config \<Rightarrow> error + expanded_sequence" where
  "expand_operator_sequence cfg =
     rbind (case fm_find (cg_pipeline_group cfg) ''main'' of
              Some entries \<Rightarrow> Inr entries
            | None \<Rightarrow> if length (cg_pipeline_group cfg) = 1 then Inr (snd (hd (cg_pipeline_group cfg)))
                      else Inl (ConfigError (''pipeline_group must contain a '' @ quoted ''main'' @
                                  '' entry or exactly one entry''))) (\<lambda>root_entries.
     rbind (expand_entries cfg root_entries [] [] \<lparr>xp_sequence = [], xp_mapping = [], xp_seen = []\<rparr>) (\<lambda>st.
     Inr \<lparr>ex_sequence = xp_sequence st, ex_op_to_subflow = xp_mapping st\<rparr>))"

end
