(* ===== verification/Dag.thy ===== *)
theory Dag
  imports Config
begin

text \<open>
  The DAG builder (\<open>src/dag/dag.cpp\<close>): data-hazard edges derived by one scan over the operator
  sequence per field kind, edges for explicit sources, Kahn's cycle check and the transitive
  reduction by breadth-first search.  Node indices are naturals; \<open>last_mut_writer == -1\<close> is \<open>None\<close>;
  a node holds its operator's configuration, where the code holds a pointer to it.
\<close>

record node =
  nd_name :: string
  nd_subflow :: string
  nd_preds :: "nat list"
  nd_succs :: "nat list"
  nd_config :: operator_config

record graph =
  g_nodes :: "node list"
  g_name_to_index :: "nat flat_map"

definition k_row_set :: string where
  "k_row_set = ''_row_set_''"

definition succs_of :: "graph \<Rightarrow> nat \<Rightarrow> nat list" where
  "succs_of g u = (if u < length (g_nodes g) then nd_succs (g_nodes g ! u) else [])"

definition preds_of :: "graph \<Rightarrow> nat \<Rightarrow> nat list" where
  "preds_of g u = (if u < length (g_nodes g) then nd_preds (g_nodes g ! u) else [])"

definition upd_node :: "nat \<Rightarrow> (node \<Rightarrow> node) \<Rightarrow> graph \<Rightarrow> graph" where
  "upd_node i f g = g\<lparr>g_nodes := (g_nodes g)[i := f (g_nodes g ! i)]\<rparr>"

definition add_edge :: "nat \<Rightarrow> nat \<Rightarrow> graph \<Rightarrow> graph" where
  "add_edge src dst g =
     (if src = dst then g
      else if dst \<in> set (succs_of g src) then g
      else upd_node dst (\<lambda>n. n\<lparr>nd_preds := nd_preds n @ [src]\<rparr>)
             (upd_node src (\<lambda>n. n\<lparr>nd_succs := nd_succs n @ [dst]\<rparr>) g))"

section \<open>Hazard scan\<close>

record field_tracker =
  last_mut_writer :: "nat option"
  additive_writers :: "nat list"
  active_readers :: "nat list"

definition empty_tracker :: field_tracker where
  "empty_tracker = \<lparr>last_mut_writer = None, additive_writers = [], active_readers = []\<rparr>"

type_synonym scan_state = "graph \<times> field_tracker flat_map"

definition tracker_of :: "field_tracker flat_map \<Rightarrow> string \<Rightarrow> field_tracker" where
  "tracker_of ts field = (case fm_find ts field of None \<Rightarrow> empty_tracker | Some t \<Rightarrow> t)"

definition edges_from :: "nat list \<Rightarrow> nat \<Rightarrow> graph \<Rightarrow> graph" where
  "edges_from us i g = fold (\<lambda>u. add_edge u i) us g"

definition writer_edge :: "field_tracker \<Rightarrow> nat \<Rightarrow> graph \<Rightarrow> graph" where
  "writer_edge t i g = (case last_mut_writer t of Some w \<Rightarrow> add_edge w i g | None \<Rightarrow> g)"

definition scan_read :: "nat \<Rightarrow> string \<Rightarrow> scan_state \<Rightarrow> scan_state" where
  "scan_read i field st =
     (case st of (g, ts) \<Rightarrow>
        let t = tracker_of ts field
        in (edges_from (additive_writers t) i (writer_edge t i g),
            fm_set field (t\<lparr>active_readers := active_readers t @ [i]\<rparr>) ts))"

definition scan_additive_write :: "nat \<Rightarrow> string \<Rightarrow> scan_state \<Rightarrow> scan_state" where
  "scan_additive_write i field st =
     (case st of (g, ts) \<Rightarrow>
        let t = tracker_of ts field
        in (edges_from (filter (\<lambda>r. r \<noteq> i) (active_readers t)) i (writer_edge t i g),
            fm_set field (t\<lparr>additive_writers := additive_writers t @ [i]\<rparr>) ts))"

definition scan_mut_write :: "nat \<Rightarrow> string \<Rightarrow> scan_state \<Rightarrow> scan_state" where
  "scan_mut_write i field st =
     (case st of (g, ts) \<Rightarrow>
        let t = tracker_of ts field
        in (edges_from (filter (\<lambda>r. r \<noteq> i) (active_readers t)) i
              (edges_from (additive_writers t) i (writer_edge t i g)),
            fm_set field \<lparr>last_mut_writer = Some i, additive_writers = [], active_readers = []\<rparr> ts))"

definition is_additive :: "bool \<Rightarrow> operator_config \<Rightarrow> bool" where
  "is_additive common op \<longleftrightarrow> \<not> common \<and> oc_additive_writes_row_set op"

definition scan_writes :: "bool \<Rightarrow> operator_config \<Rightarrow> string list" where
  "scan_writes common op =
     (if common then common_output (oc_metadata op)
      else item_output (oc_metadata op) @ (if is_additive common op then [k_row_set] else []))"

definition scan_reads :: "bool \<Rightarrow> operator_config \<Rightarrow> string list" where
  "scan_reads common op =
     (if common then common_read_fields (oc_metadata op)
      else let reads = item_input (oc_metadata op) @ (if oc_consumes_row_set op then [k_row_set] else [])
           in if \<not> is_additive common op \<and> \<not> oc_consumes_row_set op \<and> (reads \<noteq> [] \<or> scan_writes common op \<noteq> [])
              then reads @ [k_row_set] else reads)"

definition scan_op :: "bool \<Rightarrow> nat \<Rightarrow> operator_config \<Rightarrow> scan_state \<Rightarrow> scan_state" where
  "scan_op common i op st =
     (let st = fold (scan_read i) (scan_reads common op) st;
          st = fold (if is_additive common op then scan_additive_write i else scan_mut_write i)
                 (scan_writes common op) st
      in if \<not> common \<and> oc_mutates_row_set op then scan_mut_write i k_row_set st else st)"

definition scan_fields :: "bool \<Rightarrow> graph \<Rightarrow> graph" where
  "scan_fields common g =
     fst (fold (\<lambda>i st. scan_op common i (nd_config (g_nodes g ! i)) st) [0..<length (g_nodes g)] (g, []))"

section \<open>Reachability and reduction\<close>

definition bfs_push :: "nat \<Rightarrow> nat list \<times> nat list \<Rightarrow> nat list \<times> nat list" where
  "bfs_push next st =
     (case st of (visited, queue) \<Rightarrow>
        if next \<in> set visited then (visited, queue) else (next # visited, queue @ [next]))"

definition all_succs :: "graph \<Rightarrow> nat set" where
  "all_succs g = (\<Union>n \<in> set (g_nodes g). set (nd_succs n))"

lemma finite_all_succs [simp]: "finite (all_succs g)"
  by (simp add: all_succs_def)

lemma succs_in_all_succs: "set (succs_of g u) \<subseteq> all_succs g"
  by (auto simp: succs_of_def all_succs_def intro!: bexI nth_mem split: if_splits)

lemma bfs_push_measure:
  "set xs \<subseteq> U \<Longrightarrow> finite U \<Longrightarrow> fold bfs_push xs (vis, q) = (vis', q') \<Longrightarrow>
   card (U - set vis') + length q' = card (U - set vis) + length q"
proof (induction xs arbitrary: vis q)
  case (Cons x xs)
  show ?case
  proof (cases "x \<in> set vis")
    case True
    then show ?thesis using Cons by (simp add: bfs_push_def)
  next
    case False
    have "card (U - set vis) = Suc (card (U - set (x # vis)))"
      using False Cons.prems(1,2) by (metis DiffI Diff_insert card_Suc_Diff1 finite_Diff list.set_intros(1)
          list.simps(15) subsetD)
    then show ?thesis using Cons.IH [of "x # vis" "q @ [x]"] Cons.prems False by (simp add: bfs_push_def)
  qed
qed simp

function bfs_loop :: "graph \<Rightarrow> nat \<Rightarrow> nat list \<Rightarrow> nat list \<Rightarrow> bool" where
  "bfs_loop g dst visited [] = False"
| "bfs_loop g dst visited (current # queue) =
     (if current = dst then True
      else let (visited', queue') = fold bfs_push (succs_of g current) (visited, queue)
           in bfs_loop g dst visited' queue')"
  by pat_completeness auto
termination
proof (relation "measure (\<lambda>(g, dst, vis, q). card (all_succs g - set vis) + length q)")
  fix g dst vis current q x vis' q'
  assume "x = fold bfs_push (succs_of g current) (vis, q)" "(vis', q') = x"
  then have "card (all_succs g - set vis') + length q' = card (all_succs g - set vis) + length q"
    using bfs_push_measure [OF succs_in_all_succs finite_all_succs] by metis
  then show "((g, dst, vis', q'), g, dst, vis, current # q) \<in>
      measure (\<lambda>(g, dst, vis, q). card (all_succs g - set vis) + length q)" by simp
qed auto

definition reachable_without :: "graph \<Rightarrow> nat \<Rightarrow> nat \<Rightarrow> bool" where
  "reachable_without g src dst =
     (let starts = filter (\<lambda>next. next \<noteq> dst) (succs_of g src)
      in bfs_loop g dst (rev starts @ [src]) starts)"

definition kept_edges :: "graph \<Rightarrow> (nat \<times> nat) list" where
  "kept_edges g =
     concat (map (\<lambda>u. map (Pair u) (filter (\<lambda>v. \<not> reachable_without g u v) (succs_of g u)))
       [0..<length (g_nodes g)])"

definition clear_edges :: "graph \<Rightarrow> graph" where
  "clear_edges g = g\<lparr>g_nodes := map (\<lambda>n. n\<lparr>nd_preds := [], nd_succs := []\<rparr>) (g_nodes g)\<rparr>"

definition reduce :: "graph \<Rightarrow> graph" where
  "reduce g = fold (\<lambda>(u, v). add_edge u v) (kept_edges g) (clear_edges g)"

section \<open>Kahn's check\<close>

definition relax :: "nat \<Rightarrow> int list \<times> nat list \<Rightarrow> int list \<times> nat list" where
  "relax succ st =
     (case st of (indegree, queue) \<Rightarrow>
        let d = indegree ! succ - 1; indegree' = indegree[succ := d]
        in (indegree', if succ < length indegree \<and> d = 0 then queue @ [succ] else queue))"

definition positive_count :: "int list \<Rightarrow> nat" where
  "positive_count ds = length (filter (\<lambda>d. d > 0) ds)"

lemma positive_count_update:
  "i < length ds \<Longrightarrow> ds ! i > 0 \<Longrightarrow> \<not> d > 0 \<Longrightarrow> Suc (positive_count (ds[i := d])) = positive_count ds"
  unfolding positive_count_def by (induction ds arbitrary: i) (auto simp: nth_Cons' split: nat.splits)

lemma positive_count_le: "d \<le> ds ! i \<Longrightarrow> positive_count (ds[i := d]) \<le> positive_count ds"
  unfolding positive_count_def by (induction ds arbitrary: i) (auto simp: nth_Cons' split: nat.splits)

lemma relax_measure:
  "relax s (ds, q) = (ds', q') \<Longrightarrow> positive_count ds' + length q' \<le> positive_count ds + length q"
  using positive_count_update [of s ds "ds ! s - 1"] positive_count_le [of "ds ! s - 1" ds s]
  by (auto simp: relax_def Let_def split: if_splits)

lemma relax_fold_measure:
  "fold relax xs (ds, q) = (ds', q') \<Longrightarrow> positive_count ds' + length q' \<le> positive_count ds + length q"
proof (induction xs arbitrary: ds q)
  case (Cons x xs)
  obtain ds1 q1 where "relax x (ds, q) = (ds1, q1)" by force
  then show ?case using Cons relax_measure [of x ds q ds1 q1] by fastforce
qed simp

function kahn_loop :: "graph \<Rightarrow> int list \<Rightarrow> nat list \<Rightarrow> nat \<Rightarrow> int list \<times> nat" where
  "kahn_loop g indegree [] seen = (indegree, seen)"
| "kahn_loop g indegree (current # queue) seen =
     (let (indegree', queue') = fold relax (succs_of g current) (indegree, queue)
      in kahn_loop g indegree' queue' (Suc seen))"
  by pat_completeness auto
termination
proof (relation "measure (\<lambda>(g, ds, q, seen). positive_count ds + length q)")
  fix g ds current q and seen :: nat and x ds' q'
  assume "x = fold relax (succs_of g current) (ds, q)" "(ds', q') = x"
  then show "((g, ds', q', Suc seen), g, ds, current # q, seen) \<in>
      measure (\<lambda>(g, ds, q, seen). positive_count ds + length q)"
    using relax_fold_measure [of "succs_of g current" ds q ds' q'] by simp
qed simp

definition cycle_message :: "graph \<Rightarrow> int list \<Rightarrow> string" where
  "cycle_message g indegree =
     ''DAG contains a cycle involving operators: ['' @
     join '' '' (map (\<lambda>i. nd_name (g_nodes g ! i)) (filter (\<lambda>i. indegree ! i > 0) [0..<length indegree])) @ '']''"

definition topological_check :: "graph \<Rightarrow> error + unit" where
  "topological_check g =
     (let indegree = map (\<lambda>n. int (length (nd_preds n))) (g_nodes g);
          queue = filter (\<lambda>i. indegree ! i = 0) [0..<length indegree];
          (indegree', seen) = kahn_loop g indegree queue 0
      in throw_if (seen \<noteq> length (g_nodes g)) (ConfigError (cycle_message g indegree')))"

section \<open>build\_dag\<close>

definition add_node :: "config \<Rightarrow> expanded_sequence \<Rightarrow> string \<Rightarrow> graph \<Rightarrow> error + graph" where
  "add_node cfg ex name g =
     (case fm_find (cg_operators cfg) name of
        None \<Rightarrow> Inl (ConfigError (''operator '' @ quoted name @ '' not found''))
      | Some op \<Rightarrow> Inr \<lparr>
          g_nodes = g_nodes g @ [\<lparr>nd_name = name,
            nd_subflow = (case fm_find (ex_op_to_subflow ex) name of Some s \<Rightarrow> s | None \<Rightarrow> []),
            nd_preds = [], nd_succs = [], nd_config = op\<rparr>],
          g_name_to_index = fm_set name (length (g_nodes g)) (g_name_to_index g)\<rparr>)"

definition add_source :: "nat \<Rightarrow> operator_config \<Rightarrow> string \<Rightarrow> graph \<Rightarrow> error + graph" where
  "add_source i op src g =
     (case fm_find (g_name_to_index g) src of
        None \<Rightarrow> Inl (ConfigError (op_msg (oc_name op) (''sources references unknown operator '' @ quoted src)))
      | Some j \<Rightarrow>
          if j \<ge> i
          then Inl (ValidationError (op_msg (oc_name op) (''sources references '' @ quoted src @
                 '' which is declared after the current operator (forward reference)'')))
          else Inr (add_edge j i g))"

definition add_sources :: "nat \<Rightarrow> graph \<Rightarrow> error + graph" where
  "add_sources i g =
     (let op = nd_config (g_nodes g ! i) in rfold (add_source i op) (oc_sources op) g)"

definition build_dag :: "config \<Rightarrow> expanded_sequence \<Rightarrow> error + graph" where
  "build_dag cfg ex =
     rbind (rfold (add_node cfg ex) (ex_sequence ex) \<lparr>g_nodes = [], g_name_to_index = []\<rparr>) (\<lambda>g.
     let g = scan_fields False (scan_fields True g) in
     rbind (rfold add_sources [0..<length (ex_sequence ex)] g) (\<lambda>g.
     rbind (topological_check g) (\<lambda>_. Inr (reduce g))))"

end
