(* ===== verification/Dag_Laws.thy ===== *)
theory Dag_Laws
  imports Dag
begin

text \<open>
  The graphs \<open>build_dag\<close> handles have forward edges only.  On such graphs the breadth-first
  search decides reachability around a direct edge, Kahn's check always succeeds, and the
  reduction keeps the reachability relation with no redundant edge left.
\<close>

section \<open>Edges\<close>

definition edges :: "graph \<Rightarrow> (nat \<times> nat) set" where
  "edges g = {(u, v). v \<in> set (succs_of g u)}"

definition node_count :: "graph \<Rightarrow> nat" where
  "node_count g = length (g_nodes g)"

definition graph_ok :: "graph \<Rightarrow> bool" where
  "graph_ok g \<longleftrightarrow>
     (\<forall>u v. v \<in> set (succs_of g u) \<longrightarrow> u < v \<and> v < node_count g) \<and>
     (\<forall>u v. u \<in> set (preds_of g v) \<longleftrightarrow> v \<in> set (succs_of g u)) \<and>
     (\<forall>u. distinct (succs_of g u) \<and> distinct (preds_of g u))"

text \<open>Two graphs with the same nodes up to their edges.\<close>

definition same_nodes :: "graph \<Rightarrow> graph \<Rightarrow> bool" where
  "same_nodes g h \<longleftrightarrow> node_count h = node_count g \<and> g_name_to_index h = g_name_to_index g \<and>
     (\<forall>i < node_count g. nd_config (g_nodes h ! i) = nd_config (g_nodes g ! i) \<and>
        nd_name (g_nodes h ! i) = nd_name (g_nodes g ! i) \<and> nd_subflow (g_nodes h ! i) = nd_subflow (g_nodes g ! i))"

lemma same_nodes_refl [simp]: "same_nodes g g"
  by (simp add: same_nodes_def)

lemma same_nodes_trans: "same_nodes g h \<Longrightarrow> same_nodes h k \<Longrightarrow> same_nodes g k"
  by (simp add: same_nodes_def)

lemma upd_node_simps:
  "length (g_nodes (upd_node i f g)) = length (g_nodes g)"
  "g_name_to_index (upd_node i f g) = g_name_to_index g"
  "j < length (g_nodes g) \<Longrightarrow> g_nodes (upd_node i f g) ! j = (if j = i then f (g_nodes g ! i) else g_nodes g ! j)"
  by (auto simp: upd_node_def nth_list_update)

lemma add_edge_parts:
  assumes "u < node_count g" "v < node_count g" "u \<noteq> v"
  shows "succs_of (add_edge u v g) w =
      (if w = u \<and> v \<notin> set (succs_of g u) then succs_of g u @ [v] else succs_of g w)"
    and "preds_of (add_edge u v g) w =
      (if w = v \<and> v \<notin> set (succs_of g u) then preds_of g v @ [u] else preds_of g w)"
    and "same_nodes g (add_edge u v g)"
  using assms by (auto simp: add_edge_def succs_of_def preds_of_def same_nodes_def node_count_def upd_node_simps)

lemma same_nodes_add_edge: "same_nodes g (add_edge u v g)"
  by (auto simp: add_edge_def same_nodes_def node_count_def upd_node_simps)

lemma add_edge_ok:
  assumes "graph_ok g" "u < v" "v < node_count g"
  shows "graph_ok (add_edge u v g) \<and> edges (add_edge u v g) = insert (u, v) (edges g) \<and>
     same_nodes g (add_edge u v g)"
proof -
  have uv: "u < node_count g" "u \<noteq> v" using assms by auto
  note P = add_edge_parts [OF uv(1) assms(3) uv(2)]
  have n: "node_count (add_edge u v g) = node_count g" using P(3) by (simp add: same_nodes_def)
  have "graph_ok (add_edge u v g)"
    using assms unfolding graph_ok_def P(1,2) n by auto
  moreover have "edges (add_edge u v g) = insert (u, v) (edges g)"
    unfolding edges_def P(1) by (auto split: if_splits)
  ultimately show ?thesis using P(3) by blast
qed

lemma graph_okD:
  assumes "graph_ok g" "(u, v) \<in> edges g"
  shows "u < v" "v < node_count g"
  using assms by (auto simp: graph_ok_def edges_def)

lemma path_forward: "graph_ok g \<Longrightarrow> (u, v) \<in> (edges g)\<^sup>+ \<Longrightarrow> u < v \<and> v < node_count g"
  by (erule trancl_induct) (auto dest: graph_okD)

lemma path_forward_refl: "graph_ok g \<Longrightarrow> (u, v) \<in> (edges g)\<^sup>* \<Longrightarrow> u \<le> v"
  by (metis path_forward nat_less_le order_refl rtranclD)

section \<open>Breadth-first search\<close>

lemma bfs_push_fold:
  "fold bfs_push xs (vis, q) = (vis', q') \<Longrightarrow>
   set vis' = set vis \<union> set xs \<and> set q \<subseteq> set q' \<and> set q' \<subseteq> set q \<union> set xs \<and>
   (\<forall>x \<in> set xs. x \<in> set vis \<or> x \<in> set q')"
proof (induction xs arbitrary: vis q)
  case (Cons x xs)
  show ?case
  proof (cases "x \<in> set vis")
    case True
    then show ?thesis using Cons by (simp add: bfs_push_def) blast
  next
    case False
    then show ?thesis using Cons.IH [of "x # vis" "q @ [x]"] Cons.prems False
      by (auto simp: bfs_push_def)
  qed
qed simp

text \<open>
  \<open>visited\<close> is closed: its members are queued or have all their successors visited, the source
  \<open>src\<close> excepted.
\<close>

lemma bfs_loop_correct:
  assumes "set q \<subseteq> set vis" "dst \<notin> set vis - set q"
    and "\<And>x y. x \<in> set vis - set q \<Longrightarrow> x \<noteq> src \<Longrightarrow> (x, y) \<in> edges g \<Longrightarrow> y \<in> set vis"
    and "\<And>x. x \<in> set q \<Longrightarrow> (x, src) \<notin> (edges g)\<^sup>*"
  shows "bfs_loop g dst vis q \<longleftrightarrow> (\<exists>x \<in> set q. (x, dst) \<in> (edges g)\<^sup>*)"
  using assms
proof (induction g dst vis q rule: bfs_loop.induct)
  case (2 g dst vis current queue)
  show ?case
  proof (cases "current = dst")
    case False
    obtain vis' q' where p: "fold bfs_push (succs_of g current) (vis, queue) = (vis', q')" by force
    note F = bfs_push_fold [OF p]
    have sub: "set q' \<subseteq> set vis'" using F "2.prems"(1) by auto
    have src: "(x, src) \<notin> (edges g)\<^sup>*" if "x \<in> set q'" for x
    proof -
      have "x \<in> set queue \<or> (current, x) \<in> edges g" using F that by (auto simp: edges_def)
      then show ?thesis using "2.prems"(4) by (metis converse_rtrancl_into_rtrancl list.set_intros)
    qed
    have notsrc: "current \<noteq> src" using "2.prems"(4) [of current] by auto
    have old: "x \<in> set vis - set (current # queue) \<or> x = current" if "x \<in> set vis' - set q'" for x
      using that F by auto
    have closed: "y \<in> set vis'" if "x \<in> set vis' - set q'" "x \<noteq> src" "(x, y) \<in> edges g" for x y
      using old [OF that(1)]
    proof
      assume "x \<in> set vis - set (current # queue)"
      then show ?thesis using "2.prems"(3) that(2,3) F by blast
    next
      assume "x = current"
      then show ?thesis using that(3) F by (auto simp: edges_def)
    qed
    have "dst \<notin> set vis' - set q'" using old "2.prems"(2) False by blast
    then have IH: "bfs_loop g dst vis' q' \<longleftrightarrow> (\<exists>x \<in> set q'. (x, dst) \<in> (edges g)\<^sup>*)"
      using "2.IH" [OF False p [symmetric] refl] sub closed src by blast
    have "(\<exists>x \<in> set q'. (x, dst) \<in> (edges g)\<^sup>*) \<longleftrightarrow> (\<exists>x \<in> set (current # queue). (x, dst) \<in> (edges g)\<^sup>*)"
    proof
      assume "\<exists>x \<in> set q'. (x, dst) \<in> (edges g)\<^sup>*"
      then obtain x where "x \<in> set q'" "(x, dst) \<in> (edges g)\<^sup>*" by blast
      moreover have "x \<in> set queue \<or> (current, x) \<in> edges g" using F calculation(1) by (auto simp: edges_def)
      ultimately show "\<exists>x \<in> set (current # queue). (x, dst) \<in> (edges g)\<^sup>*"
        by (metis converse_rtrancl_into_rtrancl list.set_intros)
    next
      assume "\<exists>x \<in> set (current # queue). (x, dst) \<in> (edges g)\<^sup>*"
      then obtain x where x: "x \<in> set (current # queue)" "(x, dst) \<in> (edges g)\<^sup>*" by blast
      have nosrc: "(x, src) \<notin> (edges g)\<^sup>*" using "2.prems"(4) x(1) by blast
      have "x = dst \<or> (\<exists>y \<in> set q'. (y, dst) \<in> (edges g)\<^sup>*)" if "x \<in> set vis'" 
        using x(2) nosrc that
      proof (induction rule: converse_rtrancl_induct)
        case (step a b)
        show ?case
        proof (cases "a \<in> set q'")
          case True
          then show ?thesis using step.hyps by (meson converse_rtrancl_into_rtrancl)
        next
          case a: False
          have "a \<noteq> src" using step.prems by auto
          then have "b \<in> set vis'" using closed [of a b] step.hyps(1) step.prems a by blast
          moreover have "(b, src) \<notin> (edges g)\<^sup>*"
            using step.hyps(1) step.prems(1) by (meson converse_rtrancl_into_rtrancl)
          ultimately have "b = dst \<or> (\<exists>y \<in> set q'. (y, dst) \<in> (edges g)\<^sup>*)" using step.IH by blast
          moreover have "dst \<in> set q'" if "b = dst"
            using \<open>dst \<notin> set vis' - set q'\<close> \<open>b \<in> set vis'\<close> that by blast
          ultimately show ?thesis by blast
        qed
      qed simp
      moreover have "x \<in> set vis'" using x(1) "2.prems"(1) F by auto
      moreover have "x = dst \<Longrightarrow> x \<in> set q'" using \<open>dst \<notin> set vis' - set q'\<close> \<open>x \<in> set vis'\<close> by blast
      ultimately show "\<exists>x \<in> set q'. (x, dst) \<in> (edges g)\<^sup>*" using x(2) by blast
    qed
    then show ?thesis using False p IH by simp
  qed auto
qed simp

lemma reachable_without_correct:
  assumes "graph_ok g" "u \<noteq> v"
  shows "reachable_without g u v \<longleftrightarrow> (\<exists>w. (u, w) \<in> edges g \<and> w \<noteq> v \<and> (w, v) \<in> (edges g)\<^sup>*)"
proof -
  let ?s = "filter (\<lambda>next. next \<noteq> v) (succs_of g u)"
  have q: "set ?s \<subseteq> set (rev ?s @ [u])" "v \<notin> set (rev ?s @ [u]) - set ?s" using assms(2) by auto
  have closed: "y \<in> set (rev ?s @ [u])"
    if "x \<in> set (rev ?s @ [u]) - set ?s" "x \<noteq> u" "(x, y) \<in> edges g" for x y
    using that by auto
  have nosrc: "(x, u) \<notin> (edges g)\<^sup>*" if "x \<in> set ?s" for x
  proof
    assume "(x, u) \<in> (edges g)\<^sup>*"
    moreover have "u < x" using that graph_okD(1) [OF assms(1), of u x] by (simp add: edges_def)
    ultimately show False using path_forward_refl [OF assms(1)] by fastforce
  qed
  have "reachable_without g u v \<longleftrightarrow> (\<exists>x \<in> set ?s. (x, v) \<in> (edges g)\<^sup>*)"
    unfolding reachable_without_def Let_def by (rule bfs_loop_correct [OF q closed nosrc])
  then show ?thesis by (auto simp: edges_def)
qed

section \<open>Reduction\<close>

definition redundant :: "graph \<Rightarrow> nat \<Rightarrow> nat \<Rightarrow> bool" where
  "redundant g u v \<longleftrightarrow> (\<exists>w. (u, w) \<in> edges g \<and> w \<noteq> v \<and> (w, v) \<in> (edges g)\<^sup>*)"

lemma kept_edges_set:
  assumes "graph_ok g"
  shows "set (kept_edges g) = {(u, v). (u, v) \<in> edges g \<and> \<not> redundant g u v}"
proof -
  have "u < node_count g \<and> u \<noteq> v" if "(u, v) \<in> edges g" for u v
    using graph_okD [OF assms that] by simp
  moreover have "reachable_without g u v \<longleftrightarrow> redundant g u v" if "(u, v) \<in> edges g" for u v
    using reachable_without_correct [OF assms, of u v] graph_okD [OF assms that] by (auto simp: redundant_def)
  moreover have "set (kept_edges g) =
      {(u, v). u < node_count g \<and> (u, v) \<in> edges g \<and> \<not> reachable_without g u v}"
    by (force simp: kept_edges_def edges_def node_count_def)
  ultimately show ?thesis by auto
qed

lemma add_edges_ok:
  assumes "graph_ok g" "\<forall>(u, v) \<in> set es. u < v \<and> v < node_count g"
  shows "graph_ok (fold (\<lambda>(u, v). add_edge u v) es g) \<and>
     edges (fold (\<lambda>(u, v). add_edge u v) es g) = edges g \<union> set es \<and>
     same_nodes g (fold (\<lambda>(u, v). add_edge u v) es g)"
  using assms
proof (induction es arbitrary: g)
  case (Cons e es)
  obtain u v where e: "e = (u, v)" by force
  have A: "graph_ok (add_edge u v g)" "edges (add_edge u v g) = insert (u, v) (edges g)"
      "same_nodes g (add_edge u v g)"
    using add_edge_ok [OF Cons.prems(1), of u v] Cons.prems(2) e by auto
  have "\<forall>(a, b) \<in> set es. a < b \<and> b < node_count (add_edge u v g)"
    using Cons.prems(2) A(3) by (auto simp: same_nodes_def)
  then show ?case using Cons.IH [OF A(1)] A(2,3) e same_nodes_trans by auto
qed simp

lemma clear_edges_ok: "graph_ok (clear_edges g) \<and> edges (clear_edges g) = {} \<and> same_nodes g (clear_edges g)"
  by (auto simp: graph_ok_def clear_edges_def succs_of_def preds_of_def edges_def same_nodes_def node_count_def)

text \<open>The reduced graph holds exactly the edges that no longer path shortcuts.\<close>

lemma reduce_edges:
  assumes "graph_ok g"
  shows "graph_ok (reduce g) \<and> edges (reduce g) = {(u, v). (u, v) \<in> edges g \<and> \<not> redundant g u v} \<and>
    same_nodes g (reduce g)"
proof -
  have "node_count (clear_edges g) = node_count g" by (simp add: clear_edges_def node_count_def)
  then have "\<forall>(u, v) \<in> set (kept_edges g). u < v \<and> v < node_count (clear_edges g)"
    using kept_edges_set [OF assms] graph_okD [OF assms] by auto
  then show ?thesis
    using add_edges_ok [of "clear_edges g" "kept_edges g"] clear_edges_ok [of g] kept_edges_set [OF assms]
      same_nodes_trans by (auto simp: reduce_def)
qed

lemma reduce_edge_path:
  assumes ok: "graph_ok g" and e: "(u, v) \<in> edges g"
  shows "(u, v) \<in> (edges (reduce g))\<^sup>+"
  using e
proof (induction "v - u" arbitrary: u v rule: less_induct)
  case less
  let ?E = "edges g" and ?R = "edges (reduce g)"
  show ?case
  proof (cases "redundant g u v")
    case False
    then show ?thesis using reduce_edges [OF ok] less.prems by auto
  next
    case True
    then obtain w where w: "(u, w) \<in> ?E" "w \<noteq> v" "(w, v) \<in> ?E\<^sup>*" by (auto simp: redundant_def)
    have uw: "u < w" using graph_okD(1) [OF ok w(1)] .
    have wv: "w < v" using path_forward_refl [OF ok w(3)] w(2) by simp
    have "(w, x) \<in> ?R\<^sup>*" if "(w, x) \<in> ?E\<^sup>*" "x \<le> v" for x
      using that
    proof (induction rule: rtrancl_induct)
      case (step y z)
      have yz: "y < z" "w \<le> y" using graph_okD(1) [OF ok step.hyps(2)] path_forward_refl [OF ok step.hyps(1)] by auto
      then have "(y, z) \<in> ?R\<^sup>+" using less.hyps [OF _ step.hyps(2)] step.prems uw by simp
      then show ?case using step.IH yz step.prems by (meson le_trans less_imp_le rtrancl_trans trancl_into_rtrancl)
    qed simp
    then have "(w, v) \<in> ?R\<^sup>*" using w(3) by simp
    moreover have "(u, w) \<in> ?R\<^sup>+" using less.hyps [OF _ w(1)] uw wv by simp
    ultimately show ?thesis by (meson trancl_rtrancl_trancl)
  qed
qed

lemma reduce_paths:
  assumes "graph_ok g"
  shows "(edges (reduce g))\<^sup>+ = (edges g)\<^sup>+"
proof (intro equalityI subrelI)
  fix u v assume "(u, v) \<in> (edges (reduce g))\<^sup>+"
  moreover have "edges (reduce g) \<subseteq> edges g" using reduce_edges [OF assms] by auto
  ultimately show "(u, v) \<in> (edges g)\<^sup>+" by (meson trancl_mono_subset subsetD)
next
  fix u v assume "(u, v) \<in> (edges g)\<^sup>+"
  then show "(u, v) \<in> (edges (reduce g))\<^sup>+"
    by (induction rule: trancl_induct) (auto intro: reduce_edge_path [OF assms] trancl_trans)
qed

lemma reduce_minimal:
  assumes "graph_ok g" "(u, v) \<in> edges (reduce g)"
  shows "\<not> redundant (reduce g) u v"
proof -
  have R: "edges (reduce g) \<subseteq> edges g" "\<not> redundant g u v" using reduce_edges [OF assms(1)] assms(2) by auto
  then show ?thesis unfolding redundant_def using rtrancl_mono [OF R(1)] by blast
qed

section \<open>Kahn's check\<close>

text \<open>
  The state of the loop: \<open>D\<close> is the set of processed nodes; every counter holds the number of
  unprocessed predecessors, and the nodes at zero are the processed and the queued ones.
\<close>

definition kahn_inv :: "graph \<Rightarrow> nat set \<Rightarrow> int list \<Rightarrow> nat list \<Rightarrow> bool" where
  "kahn_inv g D ds q \<longleftrightarrow>
     length ds = node_count g \<and> D \<subseteq> {..<node_count g} \<and> distinct q \<and> D \<inter> set q = {} \<and>
     (\<forall>v < node_count g. ds ! v = int (card (set (preds_of g v) - D)) \<and> (ds ! v = 0 \<longleftrightarrow> v \<in> D \<union> set q)) \<and>
     set q \<subseteq> {..<node_count g}"

lemma relax_fold:
  assumes "distinct xs" "set xs \<subseteq> {..<length ds}" "fold relax xs (ds, q) = (ds', q')"
    and "\<forall>x \<in> set xs. ds ! x > 0"
  shows "length ds' = length ds \<and>
     (\<forall>v < length ds. ds' ! v = (if v \<in> set xs then ds ! v - 1 else ds ! v)) \<and>
     q' = q @ filter (\<lambda>x. ds ! x = 1) xs"
  using assms
proof (induction xs arbitrary: ds q)
  case (Cons x xs)
  let ?ds = "ds[x := ds ! x - 1]" and ?q = "if ds ! x = 1 then q @ [x] else q"
  have x: "x < length ds" "x \<notin> set xs" using Cons.prems by auto
  have "relax x (ds, q) = (?ds, ?q)" using x by (auto simp: relax_def Let_def)
  then have "fold relax xs (?ds, ?q) = (ds', q')" using Cons.prems(3) by simp
  moreover have same: "?ds ! y = ds ! y" if "y \<in> set xs" for y using that x(2) by (metis nth_list_update_neq)
  moreover have "filter (\<lambda>y. ?ds ! y = 1) xs = filter (\<lambda>y. ds ! y = 1) xs"
    using same by (intro filter_cong) auto
  ultimately have "length ds' = length ds \<and>
     (\<forall>v < length ds. ds' ! v = (if v \<in> set xs then ?ds ! v - 1 else ?ds ! v)) \<and>
     q' = ?q @ filter (\<lambda>y. ds ! y = 1) xs"
    using Cons.IH [of ?ds ?q] Cons.prems(1,2,4) by auto
  then show ?case using x by (auto simp: nth_list_update)
qed simp

lemma kahn_step:
  assumes ok: "graph_ok g" and inv: "kahn_inv g D ds (c # q)"
    and fold: "fold relax (succs_of g c) (ds, q) = (ds', q')"
  shows "kahn_inv g (insert c D) ds' q'"
proof -
  let ?n = "node_count g" and ?P = "\<lambda>v. set (preds_of g v)"
  have c: "c < ?n" "c \<notin> D" "c \<notin> set q" and len: "length ds = ?n"
    using inv by (auto simp: kahn_inv_def)
  have edge: "c \<in> ?P v \<longleftrightarrow> v \<in> set (succs_of g c)" for v using ok by (simp add: graph_ok_def)
  have K: "\<forall>v < ?n. ds ! v = int (card (?P v - D)) \<and> (ds ! v = 0 \<longleftrightarrow> v \<in> D \<union> set (c # q))"
    using inv unfolding kahn_inv_def by blast
  have ds: "ds ! v = int (card (?P v - D))" "ds ! v = 0 \<longleftrightarrow> v \<in> D \<or> v = c \<or> v \<in> set q" if "v < ?n" for v
    using K [rule_format, OF that] unfolding Un_iff list.set insert_iff by blast+
  have succs: "distinct (succs_of g c)" "set (succs_of g c) \<subseteq> {..<length ds}"
    using ok len by (auto simp: graph_ok_def)
  have pos: "ds ! v > 0" if "v \<in> set (succs_of g c)" for v
  proof -
    have "c \<in> ?P v - D" using that edge c by blast
    then have "0 < card (?P v - D)" by (auto simp: card_gt_0_iff)
    then show ?thesis using ds(1) succs(2) that len by auto
  qed
  note R = relax_fold [OF succs fold] 
  have R': "length ds' = ?n" "\<And>v. v < ?n \<Longrightarrow> ds' ! v = (if v \<in> set (succs_of g c) then ds ! v - 1 else ds ! v)"
      "q' = q @ filter (\<lambda>x. ds ! x = 1) (succs_of g c)"
    using R pos len by auto
  have ds': "ds' ! v = int (card (?P v - insert c D))" if "v < ?n" for v
  proof (cases "v \<in> set (succs_of g c)")
    case True
    then have "c \<in> ?P v - D" using edge c by blast
    moreover have "?P v - insert c D = (?P v - D) - {c}" by auto
    ultimately have "Suc (card (?P v - insert c D)) = card (?P v - D)"
      by (metis List.finite_set card_Suc_Diff1 finite_Diff)
    then show ?thesis using ds(1) [OF that] R'(2) [OF that] True by simp
  next
    case False
    then have "?P v - insert c D = ?P v - D" using edge by auto
    then show ?thesis using ds(1) [OF that] R'(2) [OF that] False by simp
  qed
  have zero: "ds' ! v = 0 \<longleftrightarrow> v \<in> insert c D \<union> set q'" if v: "v < ?n" for v
  proof (cases "v \<in> set (succs_of g c)")
    case True
    then have "ds ! v > 0" using pos by blast
    then have "v \<notin> D" "v \<noteq> c" "v \<notin> set q" using ds(2) [OF v] by auto
    then show ?thesis using R' v True by auto
  next
    case False
    then show ?thesis using R' v ds(2) [OF v] by auto
  qed
  have new: "set (filter (\<lambda>x. ds ! x = 1) (succs_of g c)) \<inter> (insert c D \<union> set q) = {}"
  proof -
    have "v \<notin> insert c D \<union> set q" if "v \<in> set (succs_of g c)" for v
      using pos [OF that] ds(2) [of v] succs(2) that len by auto
    then show ?thesis by auto
  qed
  show ?thesis
    using inv R' ds' zero new c succs len by (auto simp: kahn_inv_def)
qed

lemma kahn_loop_seen:
  assumes "graph_ok g" "kahn_inv g D ds q" "kahn_loop g ds q seen = (ds', seen')" "seen = card D"
  shows "\<exists>D'. kahn_inv g D' ds' [] \<and> seen' = card D'"
  using assms
proof (induction g ds q seen arbitrary: D rule: kahn_loop.induct)
  case (2 g ds c q seen)
  obtain ds1 q1 where p: "fold relax (succs_of g c) (ds, q) = (ds1, q1)" by force
  have "kahn_inv g (insert c D) ds1 q1" using kahn_step [OF "2.prems"(1,2) p] .
  moreover have "Suc seen = card (insert c D)"
  proof -
    have "c \<notin> D" "finite D" using "2.prems"(2) finite_subset by (auto simp: kahn_inv_def)
    then show ?thesis using "2.prems"(4) by simp
  qed
  ultimately show ?case using "2.IH" [OF p [symmetric] refl "2.prems"(1)] "2.prems"(3) p by simp
qed auto

text \<open>On a graph with forward edges every node is processed.\<close>

lemma topological_check_ok:
  assumes "graph_ok g"
  shows "topological_check g = Inr ()"
proof -
  let ?ds = "map (\<lambda>n. int (length (nd_preds n))) (g_nodes g)"
  let ?q = "filter (\<lambda>i. ?ds ! i = 0) [0..<length ?ds]"
  obtain ds' seen where k: "kahn_loop g ?ds ?q 0 = (ds', seen)" by force
  have "card (set (nd_preds (g_nodes g ! v))) = length (nd_preds (g_nodes g ! v))" if "v < length (g_nodes g)" for v
  proof -
    have "distinct (preds_of g v)" using assms by (simp add: graph_ok_def)
    then show ?thesis using that by (simp add: preds_of_def distinct_card)
  qed
  then have "kahn_inv g {} ?ds ?q"
    by (auto simp: kahn_inv_def node_count_def preds_of_def)
  then obtain D where D: "kahn_inv g D ds' []" "seen = card D"
    using kahn_loop_seen [OF assms _ k, of "{}"] by auto
  have "v \<in> D" if "v < node_count g" for v
    using that
  proof (induction v rule: less_induct)
    case (less v)
    have "u \<in> D" if "u \<in> set (preds_of g v)" for u
    proof -
      have "u < v" using that assms by (auto simp: graph_ok_def)
      then show ?thesis using less by simp
    qed
    then have "card (set (preds_of g v) - D) = 0" by (metis Diff_eq_empty_iff card.empty subsetI)
    then show ?case using D(1) less.prems by (auto simp: kahn_inv_def)
  qed
  then have "D = {..<node_count g}" using D(1) by (auto simp: kahn_inv_def)
  then show ?thesis
    using D(2) k by (simp add: topological_check_def node_count_def Let_def throw_if_def)
qed

end
