(* ===== verification/Dag_Hazards.thy ===== *)
theory Dag_Hazards
  imports Dag_Laws
begin

text \<open>
  The hazard scan seen as a sequence of field accesses.  The invariant says that whatever access
  the trackers have forgotten is ordered before the last mutating writer they remember; it gives a
  path between any two conflicting accesses.
\<close>

datatype access = R | A | W

definition conflicting :: "access \<Rightarrow> access \<Rightarrow> bool" where
  "conflicting a b \<longleftrightarrow> \<not> (a = R \<and> b = R) \<and> \<not> (a = A \<and> b = A)"

definition op_accesses :: "bool \<Rightarrow> operator_config \<Rightarrow> (string \<times> access) list" where
  "op_accesses common op =
     map (\<lambda>f. (f, R)) (scan_reads common op) @
     map (\<lambda>f. (f, if is_additive common op then A else W)) (scan_writes common op) @
     (if \<not> common \<and> oc_mutates_row_set op then [(k_row_set, W)] else [])"

fun scan_access :: "nat \<Rightarrow> string \<times> access \<Rightarrow> scan_state \<Rightarrow> scan_state" where
  "scan_access i (f, R) st = scan_read i f st"
| "scan_access i (f, A) st = scan_additive_write i f st"
| "scan_access i (f, W) st = scan_mut_write i f st"

lemma scan_op_accesses: "scan_op common i op st = fold (scan_access i) (op_accesses common op) st"
proof -
  have "fold (scan_access i) (map (\<lambda>f. (f, R)) fs) st = fold (scan_read i) fs st" for fs st
    by (induction fs arbitrary: st) auto
  moreover have "fold (scan_access i) (map (\<lambda>f. (f, if b then A else W)) fs) st =
      fold (if b then scan_additive_write i else scan_mut_write i) fs st" for b fs st
    by (induction fs arbitrary: st) auto
  ultimately show ?thesis by (simp add: scan_op_def op_accesses_def Let_def)
qed

lemma edges_from_ok:
  assumes "graph_ok g" "\<forall>u \<in> set us. u \<le> i" "i < node_count g"
  shows "graph_ok (edges_from us i g) \<and> edges (edges_from us i g) = edges g \<union> {(u, i) | u. u \<in> set us \<and> u \<noteq> i} \<and>
     same_nodes g (edges_from us i g)"
  using assms
proof (induction us arbitrary: g)
  case (Cons u us)
  have "graph_ok (add_edge u i g) \<and> edges (add_edge u i g) = edges g \<union> {(w, i) | w. w = u \<and> w \<noteq> i} \<and>
      same_nodes g (add_edge u i g)"
  proof (cases "u = i")
    case True
    then show ?thesis using Cons.prems by (simp add: add_edge_def)
  next
    case False
    then show ?thesis using add_edge_ok [OF Cons.prems(1), of u i] Cons.prems by auto
  qed
  moreover have "i < node_count (add_edge u i g)" using calculation Cons.prems(3) by (simp add: same_nodes_def)
  ultimately show ?case
    using Cons.IH [of "add_edge u i g"] Cons.prems(2) same_nodes_trans by (auto simp: edges_from_def)
qed (simp add: edges_from_def)

definition tracker_indices :: "field_tracker \<Rightarrow> nat set" where
  "tracker_indices t = set_option (last_mut_writer t) \<union> set (additive_writers t) \<union> set (active_readers t)"

text \<open>The sources of the edges an access adds.\<close>

definition access_preds :: "field_tracker \<Rightarrow> access \<Rightarrow> nat set" where
  "access_preds t a = set_option (last_mut_writer t) \<union>
     (if a = A then {} else set (additive_writers t)) \<union> (if a = R then {} else set (active_readers t))"

definition next_tracker :: "nat \<Rightarrow> access \<Rightarrow> field_tracker \<Rightarrow> field_tracker" where
  "next_tracker i a t =
     (case a of R \<Rightarrow> t\<lparr>active_readers := active_readers t @ [i]\<rparr>
      | A \<Rightarrow> t\<lparr>additive_writers := additive_writers t @ [i]\<rparr>
      | W \<Rightarrow> \<lparr>last_mut_writer = Some i, additive_writers = [], active_readers = []\<rparr>)"

lemma writer_edge_alt: "writer_edge t i g = edges_from (case last_mut_writer t of Some w \<Rightarrow> [w] | None \<Rightarrow> []) i g"
  by (simp add: writer_edge_def edges_from_def split: option.split)

lemma edges_from_append: "edges_from vs i (edges_from us i g) = edges_from (us @ vs) i g"
  by (simp add: edges_from_def)

lemma scan_access_ok:
  assumes "graph_ok g" "i < node_count g" "fm_ok ts" "\<forall>u \<in> tracker_indices (tracker_of ts f). u \<le> i"
    and "scan_access i (f, a) (g, ts) = (g', ts')"
  shows "graph_ok g' \<and> edges g' = edges g \<union> {(u, i) | u. u \<in> access_preds (tracker_of ts f) a \<and> u \<noteq> i} \<and>
     same_nodes g g' \<and> fm_ok ts' \<and>
     tracker_of ts' = (tracker_of ts)(f := next_tracker i a (tracker_of ts f))"
proof -
  let ?t = "tracker_of ts f"
  define us where "us = (case last_mut_writer ?t of Some w \<Rightarrow> [w] | None \<Rightarrow> []) @
     (case a of R \<Rightarrow> additive_writers ?t | A \<Rightarrow> filter (\<lambda>r. r \<noteq> i) (active_readers ?t)
      | W \<Rightarrow> additive_writers ?t @ filter (\<lambda>r. r \<noteq> i) (active_readers ?t))"
  have "g' = edges_from us i g \<and> ts' = fm_set f (next_tracker i a ?t) ts"
    using assms(5) by (cases a) (auto simp: scan_read_def scan_additive_write_def scan_mut_write_def
        Let_def next_tracker_def us_def writer_edge_alt edges_from_append)
  moreover have us: "set us = access_preds ?t a - (if a = R then {} else {i}) \<union>
      (if a = R then {} else {i} \<inter> (set_option (last_mut_writer ?t) \<union> (if a = A then {} else set (additive_writers ?t))))"
    by (cases a) (auto simp: us_def access_preds_def split: option.splits)
  have "\<forall>u \<in> set us. u \<le> i"
    using assms(4) by (auto simp: us access_preds_def tracker_indices_def split: if_splits)
  note E = edges_from_ok [OF assms(1) this assms(2)]
  moreover have "{(u, i) | u. u \<in> set us \<and> u \<noteq> i} = {(u, i) | u. u \<in> access_preds ?t a \<and> u \<noteq> i}"
    unfolding us by auto
  moreover have "tracker_of (fm_set f t ts) = (tracker_of ts)(f := t)" for t
    using assms(3) by (auto simp: tracker_of_def fun_eq_iff fm_find_map_of map_of_fm_set fm_ok_fm_set)
  ultimately show ?thesis using fm_ok_fm_set [OF assms(3)] by auto
qed

section \<open>The scan invariant\<close>

type_synonym event = "nat \<times> string \<times> access"

definition remembered :: "graph \<Rightarrow> field_tracker \<Rightarrow> nat \<Rightarrow> access \<Rightarrow> bool" where
  "remembered g t i a \<longleftrightarrow>
     a = A \<and> i \<in> set (additive_writers t) \<or> a = R \<and> i \<in> set (active_readers t) \<or>
     (\<exists>w. last_mut_writer t = Some w \<and> (i, w) \<in> (edges g)\<^sup>*)"

definition scan_inv :: "graph \<Rightarrow> event list \<Rightarrow> scan_state \<Rightarrow> bool" where
  "scan_inv g0 hist st \<longleftrightarrow>
     graph_ok (fst st) \<and> same_nodes g0 (fst st) \<and> edges g0 \<subseteq> edges (fst st) \<and> fm_ok (snd st) \<and>
     (\<forall>f. tracker_indices (tracker_of (snd st) f) \<subseteq> fst ` set hist) \<and>
     (\<forall>(i, f, a) \<in> set hist. remembered (fst st) (tracker_of (snd st) f) i a) \<and>
     (\<forall>m n i j f a b. m < n \<longrightarrow> n < length hist \<longrightarrow> hist ! m = (i, f, a) \<longrightarrow> hist ! n = (j, f, b) \<longrightarrow>
        conflicting a b \<longrightarrow> (i, j) \<in> (edges (fst st))\<^sup>*)"

lemma remembered_pred:
  assumes "remembered g t i a" "conflicting a b"
    and "\<And>u. u \<in> access_preds t b \<Longrightarrow> (u, j) \<in> E\<^sup>*" "edges g \<subseteq> E"
  shows "(i, j) \<in> E\<^sup>*"
proof -
  have "i \<in> access_preds t b \<or> (\<exists>w. last_mut_writer t = Some w \<and> (i, w) \<in> (edges g)\<^sup>*)"
    using assms(1,2) by (cases b) (auto simp: remembered_def conflicting_def access_preds_def)
  then show ?thesis
  proof
    assume "\<exists>w. last_mut_writer t = Some w \<and> (i, w) \<in> (edges g)\<^sup>*"
    then obtain w where w: "last_mut_writer t = Some w" "(i, w) \<in> (edges g)\<^sup>*" by blast
    then have "(w, j) \<in> E\<^sup>*" using assms(3) by (simp add: access_preds_def)
    moreover have "(i, w) \<in> E\<^sup>*" using w(2) assms(4) rtrancl_mono by blast
    ultimately show ?thesis by (meson rtrancl_trans)
  qed (rule assms(3))
qed

lemma scan_inv_step:
  assumes inv: "scan_inv g0 hist (g, ts)" and j: "j < node_count g0" "\<forall>e \<in> set hist. fst e \<le> j"
  shows "scan_inv g0 (hist @ [(j, f, b)]) (scan_access j (f, b) (g, ts))"
proof -
  obtain g' ts' where st: "scan_access j (f, b) (g, ts) = (g', ts')" by force
  let ?t = "tracker_of ts"
  have I: "graph_ok g" "same_nodes g0 g" "edges g0 \<subseteq> edges g" "fm_ok ts"
      "\<And>f. tracker_indices (?t f) \<subseteq> fst ` set hist"
      "\<And>i f a. (i, f, a) \<in> set hist \<Longrightarrow> remembered g (?t f) i a"
      "\<And>m n i k f a c. m < n \<Longrightarrow> n < length hist \<Longrightarrow> hist ! m = (i, f, a) \<Longrightarrow> hist ! n = (k, f, c) \<Longrightarrow>
        conflicting a c \<Longrightarrow> (i, k) \<in> (edges g)\<^sup>*"
    using inv unfolding scan_inv_def fst_conv snd_conv by blast+
  have bound: "\<forall>u \<in> tracker_indices (?t f). u \<le> j" using I(5) j(2) by blast
  have n: "j < node_count g" using I(2) j(1) by (simp add: same_nodes_def)
  note S = scan_access_ok [OF I(1) n I(4) bound st]
  have mono: "edges g \<subseteq> edges g'" using S by blast
  have pred: "(u, j) \<in> (edges g')\<^sup>*" if "u \<in> access_preds (?t f) b" for u
    using S that by (cases "u = j") auto
  have reach: "(i, j) \<in> (edges g')\<^sup>*" if "(i, f, a) \<in> set hist" "conflicting a b" for i a
    using remembered_pred [OF I(6) [OF that(1)] that(2) pred mono] .
  have rem: "remembered g' (tracker_of ts' k) i a" if "(i, k, a) \<in> set hist" for i k a
  proof (cases "k = f")
    case False
    then show ?thesis using I(6) [OF that] S rtrancl_mono [OF mono] by (auto simp: remembered_def)
  next
    case True
    have t': "tracker_of ts' k = next_tracker j b (?t f)" using S True by simp
    show ?thesis
    proof (cases "b = W")
      case True
      then have "(i, j) \<in> (edges g')\<^sup>*" using reach [of i a] that \<open>k = f\<close> by (auto simp: conflicting_def)
      then show ?thesis unfolding t' using True by (simp add: remembered_def next_tracker_def)
    next
      case False
      then show ?thesis
        using I(6) [OF that] rtrancl_mono [OF mono] \<open>k = f\<close> unfolding t'
        by (cases b) (auto simp: remembered_def next_tracker_def)
    qed
  qed
  have new: "remembered g' (tracker_of ts' f) j b"
    using S by (cases b) (auto simp: remembered_def next_tracker_def)
  have idx: "tracker_indices (tracker_of ts' k) \<subseteq> fst ` set (hist @ [(j, f, b)])" for k
    using S I(5) [of k] I(5) [of f] by (cases b) (auto simp: tracker_indices_def next_tracker_def)
  have pairs: "(i, k) \<in> (edges g')\<^sup>*"
    if "m < n" "n < length (hist @ [(j, f, b)])" "(hist @ [(j, f, b)]) ! m = (i, h, a)"
      "(hist @ [(j, f, b)]) ! n = (k, h, c)" "conflicting a c" for m n i k h a c
  proof (cases "n < length hist")
    case True
    then have "(i, k) \<in> (edges g)\<^sup>*" using that I(7) by (simp add: nth_append)
    then show ?thesis using rtrancl_mono [OF mono] by blast
  next
    case False
    then have "n = length hist" using that(2) by simp
    then have "(k, h, c) = (j, f, b)" "hist ! m = (i, h, a)" using that by (auto simp: nth_append)
    then show ?thesis using reach [of i a] that(1,5) \<open>n = length hist\<close> nth_mem [of m hist] by auto
  qed
  have "same_nodes g0 g'" "edges g0 \<subseteq> edges g'" using S I(2,3) mono same_nodes_trans by blast+
  then show ?thesis
    unfolding scan_inv_def st fst_conv snd_conv
    using S rem new idx pairs by (intro conjI allI ballI impI) auto
qed

lemma scan_inv_accesses:
  "scan_inv g0 hist st \<Longrightarrow> j < node_count g0 \<Longrightarrow> \<forall>e \<in> set hist. fst e \<le> j \<Longrightarrow>
   scan_inv g0 (hist @ map (Pair j) accs) (fold (scan_access j) accs st)"
proof (induction accs arbitrary: hist st)
  case (Cons acc accs)
  obtain f a where acc: "acc = (f, a)" by force
  obtain g ts where st: "st = (g, ts)" by force
  have "scan_inv g0 (hist @ [(j, f, a)]) (scan_access j (f, a) (g, ts))"
    using scan_inv_step Cons.prems st by blast
  then show ?case
    using Cons.IH [of "hist @ [(j, f, a)]" "scan_access j (f, a) (g, ts)"] Cons.prems(2,3) acc st by auto
qed simp

definition scan_hist :: "bool \<Rightarrow> graph \<Rightarrow> nat \<Rightarrow> event list" where
  "scan_hist common g k =
     concat (map (\<lambda>i. map (Pair i) (op_accesses common (nd_config (g_nodes g ! i)))) [0..<k])"

lemma scan_hist_Suc:
  "scan_hist common g (Suc k) =
     scan_hist common g k @ map (Pair k) (op_accesses common (nd_config (g_nodes g ! k)))"
  by (simp add: scan_hist_def)

lemma scan_hist_less: "e \<in> set (scan_hist common g k) \<Longrightarrow> fst e < k"
  by (auto simp: scan_hist_def)

lemma scan_inv_ops:
  assumes "graph_ok g"
  shows "k \<le> node_count g \<Longrightarrow> scan_inv g (scan_hist common g k)
    (fold (\<lambda>i st. scan_op common i (nd_config (g_nodes g ! i)) st) [0..<k] (g, []))"
proof (induction k)
  case 0
  have "tracker_of [] f = empty_tracker" for f by (simp add: tracker_of_def fm_find_def fm_hit_def fm_lower_bound_def)
  then show ?case
    using assms by (auto simp: scan_inv_def scan_hist_def tracker_indices_def empty_tracker_def)
next
  case (Suc k)
  have "\<forall>e \<in> set (scan_hist common g k). fst e \<le> k" by (auto dest: scan_hist_less)
  then show ?case
    using scan_inv_accesses [OF Suc.IH, of k "op_accesses common (nd_config (g_nodes g ! k))"] Suc.prems
    by (simp add: scan_hist_Suc scan_op_accesses)
qed

lemma scan_hist_before:
  assumes "i < j" "j < k" "(f, a) \<in> set (op_accesses common (nd_config (g_nodes g ! i)))"
    "(f, b) \<in> set (op_accesses common (nd_config (g_nodes g ! j)))"
  shows "\<exists>m n. m < n \<and> n < length (scan_hist common g k) \<and> scan_hist common g k ! m = (i, f, a) \<and>
     scan_hist common g k ! n = (j, f, b)"
proof -
  let ?H = "\<lambda>k. scan_hist common g k"
  have split: "\<exists>rest. ?H k = ?H l @ rest" if "l \<le> k" for k l
    using that by (induction k) (auto simp: scan_hist_Suc le_Suc_eq)
  have mem: "(l, f, c) \<in> set (map (Pair l) (op_accesses common (nd_config (g_nodes g ! l))))"
    if "(f, c) \<in> set (op_accesses common (nd_config (g_nodes g ! l)))" for l c
    using that by force
  obtain rest where rest: "?H k = ?H (Suc j) @ rest" using split [of "Suc j" k] assms(2) by auto
  obtain mid where mid: "?H j = ?H (Suc i) @ mid" using split [of "Suc i" j] assms(1) by auto
  have "(i, f, a) \<in> set (?H j)" using mem [OF assms(3)] by (simp add: mid scan_hist_Suc)
  then obtain m where m: "m < length (?H j)" "?H j ! m = (i, f, a)" by (auto simp: in_set_conv_nth)
  let ?J = "map (Pair j) (op_accesses common (nd_config (g_nodes g ! j)))"
  obtain n where n: "n < length ?J" "?J ! n = (j, f, b)"
    using mem [OF assms(4)] unfolding in_set_conv_nth by blast
  have "?H k = ?H j @ ?J @ rest" by (simp add: rest scan_hist_Suc)
  then have "?H k ! m = (i, f, a)" "?H k ! (length (?H j) + n) = (j, f, b)" "length (?H j) + n < length (?H k)"
    using m n by (auto simp: nth_append)
  then show ?thesis using m(1) by (intro exI [of _ m] exI [of _ "length (?H j) + n"]) auto
qed

lemma scan_fields_ok:
  assumes "graph_ok g"
  shows "graph_ok (scan_fields common g)" "same_nodes g (scan_fields common g)"
    "edges g \<subseteq> edges (scan_fields common g)"
    "i < j \<Longrightarrow> j < node_count g \<Longrightarrow> (f, a) \<in> set (op_accesses common (nd_config (g_nodes g ! i))) \<Longrightarrow>
     (f, b) \<in> set (op_accesses common (nd_config (g_nodes g ! j))) \<Longrightarrow> conflicting a b \<Longrightarrow>
     (i, j) \<in> (edges (scan_fields common g))\<^sup>+"
proof -
  let ?n = "node_count g"
  obtain g' ts where fin: "fold (\<lambda>i st. scan_op common i (nd_config (g_nodes g ! i)) st) [0..<?n] (g, []) = (g', ts)"
    by force
  then have g': "scan_fields common g = g'" by (simp add: scan_fields_def node_count_def)
  have inv: "scan_inv g (scan_hist common g ?n) (g', ts)" using scan_inv_ops [OF assms order.refl] fin by metis
  show "graph_ok (scan_fields common g)" "same_nodes g (scan_fields common g)"
    "edges g \<subseteq> edges (scan_fields common g)"
    using inv unfolding scan_inv_def g' fst_conv by blast+
  show "(i, j) \<in> (edges (scan_fields common g))\<^sup>+"
    if "i < j" "j < ?n" "(f, a) \<in> set (op_accesses common (nd_config (g_nodes g ! i)))"
      "(f, b) \<in> set (op_accesses common (nd_config (g_nodes g ! j)))" "conflicting a b"
  proof -
    note H = that
    obtain m n where mn: "m < n" "n < length (scan_hist common g ?n)" "scan_hist common g ?n ! m = (i, f, a)"
        "scan_hist common g ?n ! n = (j, f, b)"
      using scan_hist_before [OF H(1-4)] by blast
    have "(i, j) \<in> (edges g')\<^sup>*"
      using inv mn H(5) unfolding scan_inv_def fst_conv snd_conv by blast
    then show ?thesis using H(1) unfolding g' by (auto simp: rtrancl_eq_or_trancl)
  qed
qed

end
