(* ===== verification/Config_Theorems.thy ===== *)
theory Config_Theorems
  imports Config
begin

text \<open>
  Properties of configuration loading: the expansion of the pipeline tree against the flattening of
  a well-founded tree, and what a configuration that loads satisfies.
\<close>

section \<open>Flattening\<close>

text \<open>
  The operators of the tree in order, \<open>None\<close> if an entry is unknown or a sub-flow is nested deeper
  than \<open>n\<close>: a tree flattens at some depth exactly if it is well-founded and all of it is known.
\<close>

fun flatten :: "config \<Rightarrow> nat \<Rightarrow> string list \<Rightarrow> string list option" where
  "flatten cfg n [] = Some []"
| "flatten cfg n (e # es) =
     (if fm_count (cg_operators cfg) e > 0 then map_option ((#) e) (flatten cfg n es)
      else case fm_find (cg_pipeline_map cfg) e of
        None \<Rightarrow> None
      | Some sub \<Rightarrow>
          (case n of
             0 \<Rightarrow> None
           | Suc m \<Rightarrow> Option.bind (flatten cfg m sub) (\<lambda>xs. map_option ((@) xs) (flatten cfg n es))))"

lemma flatten_mono: "flatten cfg n es = Some ops \<Longrightarrow> n \<le> m \<Longrightarrow> flatten cfg m es = Some ops"
proof (induction cfg n es arbitrary: m ops rule: flatten.induct)
  case (2 cfg n e es)
  show ?case
  proof (cases "fm_count (cg_operators cfg) e > 0")
    case True
    then obtain ops' where o: "flatten cfg n es = Some ops'" "ops = e # ops'" using "2.prems"(1) by auto
    have "flatten cfg m es = Some ops'" using "2.IH"(1) [OF True o(1) "2.prems"(2)] .
    then show ?thesis using True o(2) by simp
  next
    case False
    then obtain sub k where s: "fm_find (cg_pipeline_map cfg) e = Some sub" "n = Suc k"
      using "2.prems"(1) by (auto split: option.splits nat.splits)
    then obtain xs ys where f: "flatten cfg k sub = Some xs" "flatten cfg n es = Some ys" "ops = xs @ ys"
      using "2.prems"(1) False by (auto simp: Option.bind_eq_Some_conv)
    obtain k' where k': "m = Suc k'" "k \<le> k'" using "2.prems"(2) s(2) by (cases m) auto
    have "flatten cfg k' sub = Some xs"
      using "2.IH"(2) [OF False s(1) s(2) f(1) k'(2)] .
    moreover have "flatten cfg m es = Some ys" using "2.IH"(3) [OF False s(1) s(2)] f "2.prems"(2) by blast
    ultimately show ?thesis using False s f(3) k' by simp
  qed
qed simp

definition expands :: "expansion \<Rightarrow> string list \<Rightarrow> expansion \<Rightarrow> bool" where
  "expands st ops st' \<longleftrightarrow>
     xp_sequence st' = xp_sequence st @ ops \<and> set (xp_seen st') = set (xp_seen st) \<union> set ops \<and>
     distinct ops \<and> set ops \<inter> set (xp_seen st) = {} \<and>
     (fm_ok (xp_mapping st) \<longrightarrow> fm_ok (xp_mapping st') \<and>
        dom (map_of (xp_mapping st')) = dom (map_of (xp_mapping st)) \<union> set ops)"

lemma expands_trans:
  "expands st xs st1 \<Longrightarrow> expands st1 ys st2 \<Longrightarrow> expands st (xs @ ys) st2"
  unfolding expands_def by auto

lemma expands_push:
  "e \<notin> set (xp_seen st) \<Longrightarrow> expands st [e] \<lparr>xp_sequence = xp_sequence st @ [e],
     xp_mapping = fm_set e parent (xp_mapping st), xp_seen = e # xp_seen st\<rparr>"
  unfolding expands_def by (auto simp: fm_ok_fm_set map_of_fm_set split: if_splits)

lemma expand_sound:
  "expand_entries cfg es parent vis st = Inr st' \<Longrightarrow> \<exists>n ops. flatten cfg n es = Some ops \<and> expands st ops st'"
proof (induction cfg es parent vis st arbitrary: st' rule: expand_entries.induct)
  case (1 cfg parent vis st)
  then show ?case by (auto simp: expands_def intro!: exI [of _ 0])
next
  case (2 cfg e es parent vis st)
  show ?case
  proof (cases "fm_count (cg_operators cfg) e > 0")
    case True
    then have seen: "e \<notin> set (xp_seen st)" using "2.prems" by (auto split: if_splits)
    let ?st = "\<lparr>xp_sequence = xp_sequence st @ [e], xp_mapping = fm_set e parent (xp_mapping st),
      xp_seen = e # xp_seen st\<rparr>"
    obtain n ops where n: "flatten cfg n es = Some ops" "expands ?st ops st'"
      using "2.IH"(1) [OF True seen] "2.prems" True seen by auto
    have "expands st (e # ops) st'" using expands_trans [OF expands_push [OF seen] n(2)] by simp
    then show ?thesis using n(1) True by (intro exI [of _ n] exI [of _ "e # ops"]) simp
  next
    case False
    then obtain sub where sub: "fm_find (cg_pipeline_map cfg) e = Some sub" "e \<notin> set vis"
      using "2.prems" by (auto split: option.splits if_splits)
    then obtain st1 where st1: "expand_entries cfg sub e (e # vis) st = Inr st1"
        "expand_entries cfg es parent vis st1 = Inr st'"
      using "2.prems" False by (auto simp: rbind_Inr_iff)
    obtain n ops where n: "flatten cfg n sub = Some ops" "expands st ops st1"
      using "2.IH"(2) [OF False sub st1(1)] by blast
    obtain m ops' where m: "flatten cfg m es = Some ops'" "expands st1 ops' st'"
      using "2.IH"(3) [OF False sub st1(2)] by blast
    have "flatten cfg (max n m) sub = Some ops" by (rule flatten_mono [OF n(1)]) simp
    moreover have "flatten cfg (Suc (max n m)) es = Some ops'" by (rule flatten_mono [OF m(1)]) simp
    ultimately show ?thesis
      using False sub(1) expands_trans [OF n(2) m(2)]
      by (intro exI [of _ "Suc (max n m)"] exI [of _ "ops @ ops'"]) simp
  qed
qed

text \<open>
  Conversely, a tree that flattens is expanded: no sub-flow being visited can be met again, since
  it would have to flatten at a smaller depth than itself.
\<close>

lemma expand_complete:
  assumes "flatten cfg n es = Some ops" "\<And>v. v \<in> set vis \<Longrightarrow> flatten cfg n [v] = None"
    and "distinct ops" "set ops \<inter> set (xp_seen st) = {}"
  shows "\<exists>st'. expand_entries cfg es parent vis st = Inr st'"
  using assms
proof (induction cfg es parent vis st arbitrary: n ops rule: expand_entries.induct)
  case (2 cfg e es parent vis st)
  show ?case
  proof (cases "fm_count (cg_operators cfg) e > 0")
    case True
    then obtain ops' where o: "flatten cfg n es = Some ops'" "ops = e # ops'"
      using "2.prems"(1) by auto
    then have "e \<notin> set (xp_seen st)" using "2.prems"(4) by auto
    moreover have "set ops' \<inter> set (e # xp_seen st) = {}" using o(2) "2.prems"(3,4) by auto
    ultimately show ?thesis
      using "2.IH"(1) [OF True _ o(1) "2.prems"(2)] "2.prems"(3) o(2) True by auto
  next
    case False
    then obtain sub k where s: "fm_find (cg_pipeline_map cfg) e = Some sub" "n = Suc k"
      using "2.prems"(1) by (auto split: option.splits nat.splits)
    then obtain xs ys where f: "flatten cfg k sub = Some xs" "flatten cfg n es = Some ys" "ops = xs @ ys"
      using "2.prems"(1) False by (auto simp: Option.bind_eq_Some_conv)
    have vis: "e \<notin> set vis"
    proof
      assume "e \<in> set vis"
      then have "flatten cfg n [e] = None" by (rule "2.prems"(2))
      then show False using False s f(1) by simp
    qed
    define m where "m = (LEAST m. flatten cfg m sub \<noteq> None)"
    have m: "flatten cfg m sub \<noteq> None" "m \<le> k"
      unfolding m_def using f(1) by (auto intro: LeastI [of _ k] Least_le)
    then have sub: "flatten cfg m sub = Some xs" using flatten_mono [of cfg m sub _ k] f(1) by auto
    have none: "flatten cfg m [v] = None" if "v \<in> set (e # vis)" for v
    proof (cases "v = e")
      case True
      show ?thesis
      proof (cases m)
        case (Suc l)
        then have "flatten cfg l sub = None" using not_less_Least [of l "\<lambda>m. flatten cfg m sub \<noteq> None"]
          by (auto simp: m_def)
        then show ?thesis using True False s Suc by simp
      qed (use True False s in simp)
    next
      case False
      then have "flatten cfg n [v] = None" using that "2.prems"(2) by simp
      then show ?thesis using flatten_mono [of cfg m "[v]" _ n] m(2) s(2) by fastforce
    qed
    obtain st1 where st1: "expand_entries cfg sub e (e # vis) st = Inr st1"
      using "2.IH"(2) [OF False s(1) vis sub none] "2.prems"(3,4) f(3) by auto
    obtain l ops1 where "flatten cfg l sub = Some ops1" "expands st ops1 st1"
      using expand_sound [OF st1] by blast
    moreover have "ops1 = xs"
      using flatten_mono [OF calculation(1), of "max l k"] flatten_mono [OF f(1), of "max l k"] by simp
    ultimately have ex: "expands st xs st1" by simp
    have "set ys \<inter> set (xp_seen st1) = {}" using ex f(3) "2.prems"(3,4) by (auto simp: expands_def)
    then obtain st' where "expand_entries cfg es parent vis st1 = Inr st'"
      using "2.IH"(3) [OF False s(1) vis f(2) "2.prems"(2)] "2.prems"(3) f(3) distinct_append by blast
    then show ?thesis using st1 False s(1) vis by simp
  qed
qed simp

definition root_entries :: "config \<Rightarrow> string list option" where
  "root_entries cfg =
     (case fm_find (cg_pipeline_group cfg) ''main'' of
        Some entries \<Rightarrow> Some entries
      | None \<Rightarrow> if length (cg_pipeline_group cfg) = 1 then Some (snd (hd (cg_pipeline_group cfg))) else None)"

text \<open>
  C3: the expansion of the pipeline tree is total and exact.  It returns the sequence \<open>ops\<close> exactly
  when the group has a root, the tree below it is well-founded with every entry known, \<open>ops\<close> is its
  left-to-right flattening, and no operator occurs twice; every other configuration is an error
  (in particular a cyclic one: the recursion always ends).
\<close>

theorem expansion_is_flattening:
  "(\<exists>ex. expand_operator_sequence cfg = Inr ex \<and> ex_sequence ex = ops) \<longleftrightarrow>
   (\<exists>entries n. root_entries cfg = Some entries \<and> flatten cfg n entries = Some ops \<and> distinct ops)"
proof -
  let ?st = "\<lparr>xp_sequence = [], xp_mapping = [], xp_seen = []\<rparr> :: expansion"
  have roots: "expand_operator_sequence cfg =
     (case root_entries cfg of
        None \<Rightarrow> Inl (ConfigError (''pipeline_group must contain a '' @ quoted ''main'' @ '' entry or exactly one entry''))
      | Some entries \<Rightarrow> rbind (expand_entries cfg entries [] [] ?st)
          (\<lambda>st. Inr \<lparr>ex_sequence = xp_sequence st, ex_op_to_subflow = xp_mapping st\<rparr>))"
    by (auto simp: expand_operator_sequence_def root_entries_def split: option.split)
  show ?thesis
  proof
    assume "\<exists>ex. expand_operator_sequence cfg = Inr ex \<and> ex_sequence ex = ops"
    then obtain entries st where e: "root_entries cfg = Some entries" "expand_entries cfg entries [] [] ?st = Inr st"
        "xp_sequence st = ops"
      by (auto simp: roots rbind_Inr_iff split: option.splits)
    then show "\<exists>entries n. root_entries cfg = Some entries \<and> flatten cfg n entries = Some ops \<and> distinct ops"
      using expand_sound [OF e(2)] by (auto simp: expands_def)
  next
    assume "\<exists>entries n. root_entries cfg = Some entries \<and> flatten cfg n entries = Some ops \<and> distinct ops"
    then obtain entries n where e: "root_entries cfg = Some entries" "flatten cfg n entries = Some ops" "distinct ops"
      by blast
    obtain st where st: "expand_entries cfg entries [] [] ?st = Inr st"
      using expand_complete [OF e(2), of "[]" ?st "[]"] e(3) by auto
    obtain m ops' where m: "flatten cfg m entries = Some ops'" "expands ?st ops' st"
      using expand_sound [OF st] by blast
    have "ops' = ops"
      using flatten_mono [OF m(1), of "max m n"] flatten_mono [OF e(2), of "max m n"] by simp
    then show "\<exists>ex. expand_operator_sequence cfg = Inr ex \<and> ex_sequence ex = ops"
      using m(2) st e(1) by (simp add: roots expands_def)
  qed
qed

section \<open>Loaded configurations\<close>

definition operator_valid :: "registry \<Rightarrow> config \<Rightarrow> string \<times> operator_config \<Rightarrow> bool" where
  "operator_valid reg cfg named \<longleftrightarrow> (case named of (name, op) \<Rightarrow>
     oc_name op = name \<and>
     (\<exists>entry. registry_entry reg (oc_type_name op) = Some entry \<and>
        oc_operator_type op = op_type_to_string (os_type (en_schema entry)) \<and>
        (en_consumes_row_set entry \<longrightarrow> oc_consumes_row_set op) \<and>
        (en_mutates_row_set entry \<longrightarrow> oc_mutates_row_set op) \<and>
        (en_additive_writes_row_set entry \<longrightarrow> oc_additive_writes_row_set op) \<and>
        oc_concurrent_safe op = en_concurrent_safe entry) \<and>
     list_all (\<lambda>skip. skip \<noteq> [] \<and> hd skip = CHR ''_'' \<and> skip \<in> set (common_read_fields (oc_metadata op))) (oc_skip op) \<and>
     list_all (\<lambda>src. fm_find (cg_operators cfg) src \<noteq> None) (oc_sources op) \<and>
     \<not> (oc_additive_writes_row_set op \<and> oc_mutates_row_set op) \<and>
     oc_data_parallel op \<ge> 0 \<and>
     (oc_data_parallel op > 1 \<longrightarrow>
        oc_operator_type op = ''transform'' \<and> common_output (oc_metadata op) = [] \<and> oc_concurrent_safe op) \<and>
     fm_find (cg_pipeline_map cfg) name = None)"

definition config_valid :: "registry \<Rightarrow> config \<Rightarrow> bool" where
  "config_valid reg cfg \<longleftrightarrow>
     cg_storage_mode cfg \<in> {[], ''row'', ''column''} \<and> cg_operators cfg \<noteq> [] \<and> cg_pipeline_group cfg \<noteq> [] \<and>
     fm_ok (cg_operators cfg) \<and> list_all (operator_valid reg cfg) (cg_operators cfg)"

definition named_ok :: "operator_config flat_map \<Rightarrow> bool" where
  "named_ok ops \<longleftrightarrow> fm_ok ops \<and> (\<forall>(name, op) \<in> set ops. oc_name op = name \<and> \<not> oc_concurrent_safe op)"

lemma set_fm_set:
  assumes "fm_ok es" "(k, v) \<in> set (fm_set key x es)"
  shows "(k, v) = (key, x) \<or> (k, v) \<in> set es"
proof -
  have "map_of (fm_set key x es) k = Some v"
    using assms by (simp add: fm_ok_distinct fm_ok_fm_set)
  then have "(if k = key then Some x else map_of es k) = Some v"
    using map_of_fm_set [OF assms(1), of key x] by simp
  then show ?thesis by (auto split: if_splits dest: map_of_SomeD)
qed

lemma parse_operator_name: "parse_operator name v = Inr op \<Longrightarrow> oc_name op = name \<and> \<not> oc_concurrent_safe op"
  by (auto simp: parse_operator_def rbind_Inr_iff split: option.splits)

lemma parsed_named_ok:
  assumes "rfold add_operator oo [] = Inr ops"
  shows "named_ok ops"
proof (rule rfold_invariant [OF assms, where I = named_ok])
  show "named_ok []" by (simp add: named_ok_def)
next
  fix x s t assume s: "named_ok s" and t: "add_operator x s = Inr t"
  obtain op where op: "parse_operator (fst x) (snd x) = Inr op" "t = fm_set (fst x) op s"
    using t by (auto simp: add_operator_def rbind_Inr_iff)
  have "fm_ok s" using s by (simp add: named_ok_def)
  then show "named_ok t"
    using s parse_operator_name [OF op(1)] set_fm_set [OF \<open>fm_ok s\<close>, of _ _ "fst x" op]
    by (fastforce simp: named_ok_def fm_ok_fm_set op(2))
qed

lemma rmap_Inr: "rmap f xs = Inr ys \<longleftrightarrow> list_all2 (\<lambda>x y. f x = Inr y) xs ys"
  by (induction xs arbitrary: ys) (auto simp: rbind_Inr_iff list_all2_Cons1)

lemma apply_traits_keys: "apply_traits_to reg x = Inr y \<Longrightarrow> fst y = fst x"
  by (auto simp: apply_traits_to_def split: option.splits)

lemma traits_applied:
  assumes "apply_registry_traits reg cfg = Inr cfg'" "named_ok (cg_operators cfg)" "(name, op) \<in> set (cg_operators cfg')"
  shows "\<exists>entry. registry_entry reg (oc_type_name op) = Some entry \<and>
        oc_operator_type op = op_type_to_string (os_type (en_schema entry)) \<and>
        (en_consumes_row_set entry \<longrightarrow> oc_consumes_row_set op) \<and>
        (en_mutates_row_set entry \<longrightarrow> oc_mutates_row_set op) \<and>
        (en_additive_writes_row_set entry \<longrightarrow> oc_additive_writes_row_set op) \<and>
        oc_concurrent_safe op = en_concurrent_safe entry \<and> oc_name op = name"
proof -
  have l: "list_all2 (\<lambda>x y. apply_traits_to reg x = Inr y) (cg_operators cfg) (cg_operators cfg')"
    using assms(1) by (auto simp: apply_registry_traits_def rbind_Inr_iff rmap_Inr)
  obtain i where i: "i < length (cg_operators cfg')" "cg_operators cfg' ! i = (name, op)"
    using assms(3) by (auto simp: in_set_conv_nth)
  obtain n0 op0 where o: "cg_operators cfg ! i = (n0, op0)" by force
  have "apply_traits_to reg (n0, op0) = Inr (name, op)" using l i o by (auto simp: list_all2_conv_all_nth)
  moreover have "(n0, op0) \<in> set (cg_operators cfg)" using l i o by (metis list_all2_lengthD nth_mem)
  then have "oc_name op0 = n0 \<and> \<not> oc_concurrent_safe op0" using assms(2) by (auto simp: named_ok_def)
  ultimately show ?thesis
    by (auto simp: apply_traits_to_def with_traits_def split: option.splits)
qed

lemma traits_fm_ok:
  assumes "apply_registry_traits reg cfg = Inr cfg'" "fm_ok (cg_operators cfg)"
  shows "fm_ok (cg_operators cfg')"
proof -
  have l: "list_all2 (\<lambda>x y. apply_traits_to reg x = Inr y) (cg_operators cfg) (cg_operators cfg')"
    using assms(1) by (auto simp: apply_registry_traits_def rbind_Inr_iff rmap_Inr)
  have "map fst (cg_operators cfg') = map fst (cg_operators cfg)"
    using l by (auto simp: list_all2_conv_all_nth intro!: nth_equalityI dest!: apply_traits_keys)
  then show ?thesis using assms(2) by (simp add: fm_ok_def)
qed

lemma parse_operators_named_ok: "parse_operators pc = Inr ops \<Longrightarrow> named_ok ops"
  by (auto simp: parse_operators_def rbind_Inr_iff parsed_named_ok split: option.splits)

lemma load_config_parts:
  assumes "load_config reg rt = Inr cfg"
  shows "\<exists>pre. apply_registry_traits reg pre = Inr cfg \<and> named_ok (cg_operators pre) \<and>
    validate_storage_mode (cg_storage_mode pre) = Inr () \<and> validate_config cfg = Inr ()"
  using assms unfolding load_config_def rbind_Inr_iff
  by (elim exE conjE, intro exI conjI) (assumption | simp add: parse_operators_named_ok)+

lemma fm_count_zero: "fm_count m k = 0 \<longleftrightarrow> fm_find m k = None"
  by (simp add: fm_count_def)

lemma validate_operator_Inr:
  assumes "validate_operator cfg (name, op) = Inr ()"
  shows "list_all (\<lambda>skip. skip \<noteq> [] \<and> hd skip = CHR ''_'' \<and> skip \<in> set (common_read_fields (oc_metadata op))) (oc_skip op)"
    "list_all (\<lambda>src. fm_find (cg_operators cfg) src \<noteq> None) (oc_sources op)"
    "\<not> (oc_additive_writes_row_set op \<and> oc_mutates_row_set op)" "oc_data_parallel op \<ge> 0"
    "oc_data_parallel op > 1 \<longrightarrow>
        oc_operator_type op = ''transform'' \<and> common_output (oc_metadata op) = [] \<and> oc_concurrent_safe op"
proof -
  have v: "rcheck_all (validate_skip name op) (oc_skip op) = Inr ()"
      "rcheck_all (validate_source cfg name) (oc_sources op) = Inr ()"
      "\<not> (oc_additive_writes_row_set op \<and> oc_mutates_row_set op)" "validate_data_parallel name op = Inr ()"
    using assms by (auto simp: validate_operator_def rbind_Inr_iff)
  show "list_all (\<lambda>skip. skip \<noteq> [] \<and> hd skip = CHR ''_'' \<and> skip \<in> set (common_read_fields (oc_metadata op))) (oc_skip op)"
    using v(1) by (auto simp: rcheck_all_Inr validate_skip_def list_all_iff split: if_splits)
  show "list_all (\<lambda>src. fm_find (cg_operators cfg) src \<noteq> None) (oc_sources op)"
    using v(2) by (auto simp: rcheck_all_Inr validate_source_def list_all_iff fm_count_zero)
  show "\<not> (oc_additive_writes_row_set op \<and> oc_mutates_row_set op)" by (rule v(3))
  show "oc_data_parallel op \<ge> 0"
    "oc_data_parallel op > 1 \<longrightarrow>
        oc_operator_type op = ''transform'' \<and> common_output (oc_metadata op) = [] \<and> oc_concurrent_safe op"
    using v(4) by (auto simp: validate_data_parallel_def split: if_splits)
qed

lemma storage_mode_kept: "apply_registry_traits reg pre = Inr cfg \<Longrightarrow> cg_storage_mode cfg = cg_storage_mode pre"
  by (auto simp: apply_registry_traits_def rbind_Inr_iff)

text \<open>A document that loads, with one data-parallel transform behind a sub-flow.\<close>

definition demo_registry :: registry where
  "demo_registry = [(''transform_x'', \<lparr>en_schema = \<lparr>os_name = ''transform_x'', os_type = Transform,
     os_description = ''x'', os_params = []\<rparr>, en_consumes_row_set = False, en_mutates_row_set = False,
     en_additive_writes_row_set = False, en_concurrent_safe = True\<rparr>)]"

definition demo_operator :: "string \<Rightarrow> string \<Rightarrow> variant" where
  "demo_operator reads writes = VObj
     [(''$metadata'', VObj [(''item_input'', VArr [VStr reads]), (''item_output'', VArr [VStr writes])]),
      (''data_parallel'', VNum (DFin False 2)), (''type_name'', VStr ''transform_x'')]"

definition demo_root :: variant where
  "demo_root = VObj
     [(''pipeline_config'', VObj
        [(''operators'', VObj [(''a'', demo_operator ''x'' ''y''), (''b'', demo_operator ''y'' ''z'')]),
         (''pipeline_map'', VObj [(''flow'', VObj [(''pipeline'', VArr [VStr ''b''])])])]),
      (''pipeline_group'', VObj [(''main'', VObj [(''pipeline'', VArr [VStr ''a'', VStr ''flow''])])])]"

definition demo_config :: config where
  "demo_config = (case load_config demo_registry demo_root of Inr cfg \<Rightarrow> cfg | Inl e \<Rightarrow> undefined)"

lemma demo_loads: "load_config demo_registry demo_root = Inr demo_config"
proof -
  have "case load_config demo_registry demo_root of Inr cfg \<Rightarrow> True | Inl e \<Rightarrow> False" by code_simp
  then show ?thesis by (simp add: demo_config_def split: sum.splits)
qed

text \<open>
  C4: a configuration that loads is well-formed: the storage mode is empty, row or column; every
  operator carries its own name, a registered type with that type's traits, control fields that
  start with an underscore and are among its read fields, sources that exist, and not both row-set
  write modes; data parallelism is only left on concurrency-safe transforms without common output;
  and no operator shares its name with a sub-flow.
\<close>

theorem loaded_config_valid:
  assumes "load_config reg rt = Inr cfg"
  shows "config_valid reg cfg"
proof -
  obtain pre where pre: "apply_registry_traits reg pre = Inr cfg" "named_ok (cg_operators pre)"
      "validate_storage_mode (cg_storage_mode pre) = Inr ()" "validate_config cfg = Inr ()"
    using load_config_parts [OF assms] by blast
  have "operator_valid reg cfg named" if "named \<in> set (cg_operators cfg)" for named
  proof -
    obtain name op where n: "named = (name, op)" by force
    have "validate_operator cfg (name, op) = Inr ()" "fm_find (cg_pipeline_map cfg) name = None"
      using pre(4) that n by (auto simp: validate_config_def rbind_Inr_iff rcheck_all_Inr fm_count_zero)
    then show ?thesis
      using traits_applied [OF pre(1,2)] that n validate_operator_Inr [of cfg name op]
      unfolding operator_valid_def n prod.case by blast
  qed
  moreover have "cg_operators cfg \<noteq> []" "cg_pipeline_group cfg \<noteq> []"
    using pre(4) by (auto simp: validate_config_def rbind_Inr_iff)
  moreover have "fm_ok (cg_operators cfg)"
    using traits_fm_ok [OF pre(1)] pre(2) by (simp add: named_ok_def)
  moreover have "cg_storage_mode cfg \<in> {[], ''row'', ''column''}"
    using pre(3) storage_mode_kept [OF pre(1)] by (auto simp: validate_storage_mode_def)
  ultimately show ?thesis by (simp add: config_valid_def list_all_iff)
qed

theorem loaded_config_valid_witness: "config_valid demo_registry demo_config"
  by (rule loaded_config_valid [OF demo_loads])

end
