(* ===== verification/Dag_Theorems.thy ===== *)
theory Dag_Theorems
  imports Dag_Hazards Config_Theorems
begin

text \<open>
  What \<open>build_dag\<close> promises: it succeeds exactly on well-formed configurations, its graph has
  forward edges only, every hazard and every declared source is ordered by a path, and no edge is
  redundant.
\<close>

definition op_at :: "config \<Rightarrow> expanded_sequence \<Rightarrow> nat \<Rightarrow> operator_config" where
  "op_at cfg ex i = (case fm_find (cg_operators cfg) (ex_sequence ex ! i) of
     Some op \<Rightarrow> op | None \<Rightarrow> undefined)"



section \<open>Nodes\<close>

definition nodes_inv :: "config \<Rightarrow> expanded_sequence \<Rightarrow> string list \<Rightarrow> graph \<Rightarrow> bool" where
  "nodes_inv cfg ex names g \<longleftrightarrow>
     map nd_name (g_nodes g) = names \<and>
     (\<forall>n \<in> set (g_nodes g). nd_preds n = [] \<and> nd_succs n = [] \<and>
        fm_find (cg_operators cfg) (nd_name n) = Some (nd_config n)) \<and>
     fm_ok (g_name_to_index g) \<and>
     (distinct names \<longrightarrow> (\<forall>name j. fm_find (g_name_to_index g) name = Some j \<longleftrightarrow> j < length names \<and> names ! j = name))"

lemma add_node_inv:
  assumes "nodes_inv cfg ex names g" "add_node cfg ex name g = Inr g'"
  shows "nodes_inv cfg ex (names @ [name]) g'"
proof -
  have len: "length (g_nodes g) = length names"
    using assms(1) by (auto simp: nodes_inv_def dest: arg_cong [of _ _ length])
  have idx: "fm_find (fm_set name (length names) (g_name_to_index g)) k =
      (if k = name then Some (length names) else fm_find (g_name_to_index g) k)" for k
    using assms(1) by (simp add: nodes_inv_def fm_find_map_of fm_ok_fm_set map_of_fm_set)
  have "fm_find (fm_set name (length names) (g_name_to_index g)) k = Some j \<longleftrightarrow>
      j < length (names @ [name]) \<and> (names @ [name]) ! j = k" if "distinct (names @ [name])" for k j
  proof -
    have "fm_find (g_name_to_index g) k = Some j \<longleftrightarrow> j < length names \<and> names ! j = k"
      using assms(1) that by (simp add: nodes_inv_def)
    then show ?thesis
      using that idx [of k] by (auto simp: nth_append less_Suc_eq dest: nth_mem)
  qed
  then show ?thesis
    using assms len by (auto simp: nodes_inv_def add_node_def fm_ok_fm_set split: option.splits)
qed

lemma add_nodes:
  assumes "nodes_inv cfg ex names g"
  shows "if list_all (\<lambda>name. fm_find (cg_operators cfg) name \<noteq> None) rest
     then \<exists>g'. rfold (add_node cfg ex) rest g = Inr g' \<and> nodes_inv cfg ex (names @ rest) g'
     else \<exists>e. rfold (add_node cfg ex) rest g = Inl e"
  using assms
proof (induction rest arbitrary: names g)
  case (Cons name rest)
  show ?case
  proof (cases "add_node cfg ex name g")
    case (Inl e)
    then have "fm_find (cg_operators cfg) name = None" by (auto simp: add_node_def split: option.splits)
    then show ?thesis using Inl by simp
  next
    case (Inr g')
    then have "fm_find (cg_operators cfg) name \<noteq> None" by (auto simp: add_node_def split: option.splits)
    then show ?thesis
      using Cons.IH [OF add_node_inv [OF Cons.prems Inr]] Inr by (auto split: if_splits)
  qed
qed simp

lemma nodes_inv_empty: "nodes_inv cfg ex [] \<lparr>g_nodes = [], g_name_to_index = []\<rparr>"
  by (simp add: nodes_inv_def fm_find_def fm_hit_def fm_lower_bound_def)

lemma nodes_inv_graph_ok: "nodes_inv cfg ex names g \<Longrightarrow> graph_ok g \<and> node_count g = length names"
  by (auto simp: nodes_inv_def graph_ok_def succs_of_def preds_of_def node_count_def all_set_conv_all_nth
      dest: arg_cong [of _ _ length])

section \<open>Sources\<close>

lemma add_source_list:
  assumes "graph_ok g" "i < node_count g"
  shows "if (\<forall>s \<in> set srcs. \<exists>j < i. fm_find (g_name_to_index g) s = Some j)
     then \<exists>g'. rfold (add_source i op) srcs g = Inr g' \<and> graph_ok g' \<and> same_nodes g g' \<and> edges g \<subseteq> edges g' \<and>
       (\<forall>s \<in> set srcs. \<forall>j. fm_find (g_name_to_index g) s = Some j \<longrightarrow> (j, i) \<in> edges g')
     else \<exists>e. rfold (add_source i op) srcs g = Inl e"
  using assms
proof (induction srcs arbitrary: g)
  case (Cons s srcs)
  show ?case
  proof (cases "\<exists>j < i. fm_find (g_name_to_index g) s = Some j")
    case False
    then have "\<exists>e. add_source i op s g = Inl e" by (auto simp: add_source_def split: option.split)
    then show ?thesis using False by auto
  next
    case True
    then obtain j where j: "j < i" "fm_find (g_name_to_index g) s = Some j" by blast
    have a: "add_source i op s g = Inr (add_edge j i g)" using j by (simp add: add_source_def)
    have E: "graph_ok (add_edge j i g)" "edges (add_edge j i g) = insert (j, i) (edges g)"
        "same_nodes g (add_edge j i g)"
      using add_edge_ok [OF Cons.prems(1) j(1) Cons.prems(2)] by auto
    have n: "i < node_count (add_edge j i g)" "g_name_to_index (add_edge j i g) = g_name_to_index g"
      using E(3) Cons.prems(2) by (simp_all add: same_nodes_def)
    show ?thesis
      using Cons.IH [OF E(1) n(1)] True j(2) E same_nodes_trans [OF E(3)]
      unfolding rfold.simps a rbind_simps n(2) by (auto split: if_splits)
  qed
qed simp

definition sources_known :: "nat \<Rightarrow> graph \<Rightarrow> bool" where
  "sources_known i g \<longleftrightarrow> (\<forall>s \<in> set (oc_sources (nd_config (g_nodes g ! i))).
     \<exists>j < i. fm_find (g_name_to_index g) s = Some j)"

lemma add_all_sources:
  assumes "graph_ok g" "\<forall>i \<in> set is. i < node_count g"
  shows "if \<forall>i \<in> set is. sources_known i g
     then \<exists>g'. rfold add_sources is g = Inr g' \<and> graph_ok g' \<and> same_nodes g g' \<and> edges g \<subseteq> edges g' \<and>
       (\<forall>i \<in> set is. \<forall>s \<in> set (oc_sources (nd_config (g_nodes g ! i))). \<forall>j.
          fm_find (g_name_to_index g) s = Some j \<longrightarrow> (j, i) \<in> edges g')
     else \<exists>e. rfold add_sources is g = Inl e"
  using assms
proof (induction "is" arbitrary: g)
  case (Cons i "is")
  have i: "i < node_count g" using Cons.prems by simp
  have S: "if sources_known i g
     then \<exists>g'. add_sources i g = Inr g' \<and> graph_ok g' \<and> same_nodes g g' \<and> edges g \<subseteq> edges g' \<and>
       (\<forall>s \<in> set (oc_sources (nd_config (g_nodes g ! i))). \<forall>j.
          fm_find (g_name_to_index g) s = Some j \<longrightarrow> (j, i) \<in> edges g')
     else \<exists>e. add_sources i g = Inl e"
    using add_source_list [OF Cons.prems(1) i, of "oc_sources (nd_config (g_nodes g ! i))"
        "nd_config (g_nodes g ! i)"]
    unfolding sources_known_def add_sources_def Let_def .
  show ?case
  proof (cases "sources_known i g")
    case False
    then have "\<exists>e. add_sources i g = Inl e" using S by simp
    then show ?thesis using False by auto
  next
    case True
    then obtain h where h: "add_sources i g = Inr h" "graph_ok h" "same_nodes g h" "edges g \<subseteq> edges h"
        "\<forall>s \<in> set (oc_sources (nd_config (g_nodes g ! i))). \<forall>j.
          fm_find (g_name_to_index g) s = Some j \<longrightarrow> (j, i) \<in> edges h"
      using S by auto
    have same: "nd_config (g_nodes h ! k) = nd_config (g_nodes g ! k)" "sources_known k h = sources_known k g"
      if "k \<in> set is" for k
      using h(3) Cons.prems(2) that by (auto simp: same_nodes_def sources_known_def)
    have names: "g_name_to_index h = g_name_to_index g" "node_count h = node_count g"
      using h(3) by (auto simp: same_nodes_def)
    show ?thesis
      using Cons.IH [OF h(2)] Cons.prems(2) True h same names same_nodes_trans [OF h(3)]
      by (auto split: if_splits) blast+
  qed
qed simp

section \<open>The whole build\<close>

definition ordered_hazards :: "config \<Rightarrow> expanded_sequence \<Rightarrow> graph \<Rightarrow> bool" where
  "ordered_hazards cfg ex g \<longleftrightarrow>
     (\<forall>i j. i < j \<longrightarrow> j < length (ex_sequence ex) \<longrightarrow> (\<forall>common f a b.
        (f, a) \<in> set (op_accesses common (op_at cfg ex i)) \<longrightarrow>
        (f, b) \<in> set (op_accesses common (op_at cfg ex j)) \<longrightarrow> conflicting a b \<longrightarrow> (i, j) \<in> (edges g)\<^sup>+))"

definition scanned :: "config \<Rightarrow> expanded_sequence \<Rightarrow> graph \<Rightarrow> bool" where
  "scanned cfg ex g \<longleftrightarrow> graph_ok g \<and> node_count g = length (ex_sequence ex) \<and>
     (\<forall>i < node_count g. nd_config (g_nodes g ! i) = op_at cfg ex i \<and> nd_name (g_nodes g ! i) = ex_sequence ex ! i) \<and>
     (distinct (ex_sequence ex) \<longrightarrow> (\<forall>name j. fm_find (g_name_to_index g) name = Some j \<longleftrightarrow>
        j < length (ex_sequence ex) \<and> ex_sequence ex ! j = name)) \<and>
     ordered_hazards cfg ex g"

lemma scan_both:
  assumes inv: "nodes_inv cfg ex (ex_sequence ex) g0"
  shows "scanned cfg ex (scan_fields False (scan_fields True g0))"
proof -
  let ?g1 = "scan_fields True g0" and ?g2 = "scan_fields False (scan_fields True g0)"
  have g0: "graph_ok g0" "node_count g0 = length (ex_sequence ex)"
    using nodes_inv_graph_ok [OF inv] by auto
  have cfg0: "nd_config (g_nodes g0 ! i) = op_at cfg ex i \<and> nd_name (g_nodes g0 ! i) = ex_sequence ex ! i"
    if "i < node_count g0" for i
  proof -
    have "g_nodes g0 ! i \<in> set (g_nodes g0)" using that by (simp add: node_count_def)
    moreover have "nd_name (g_nodes g0 ! i) = ex_sequence ex ! i"
      using inv that unfolding nodes_inv_def node_count_def by (metis nth_map)
    ultimately show ?thesis using inv unfolding nodes_inv_def op_at_def by (metis option.simps(5))
  qed
  note S1 = scan_fields_ok [OF g0(1), where common = True]
  note S2 = scan_fields_ok [OF S1(1), where common = False]
  have same: "same_nodes g0 ?g2" using S1(2) S2(2) same_nodes_trans by blast
  have c1: "nd_config (g_nodes ?g1 ! i) = op_at cfg ex i" if "i < node_count g0" for i
    using S1(2) cfg0 [OF that] that by (simp add: same_nodes_def)
  have "(i, j) \<in> (edges ?g2)\<^sup>+"
    if "i < j" "j < length (ex_sequence ex)" "(f, a) \<in> set (op_accesses common (op_at cfg ex i))"
      "(f, b) \<in> set (op_accesses common (op_at cfg ex j))" "conflicting a b" for i j common f a b
  proof (cases common)
    case True
    then have "(i, j) \<in> (edges ?g1)\<^sup>+"
      using S1(4) [OF that(1), of f a b] that g0(2) cfg0 by simp
    then show ?thesis using trancl_mono_subset [OF S2(3)] by blast
  next
    case False
    then show ?thesis
      using S2(4) [OF that(1), of f a b] that g0(2) c1 S1(2) by (simp add: same_nodes_def)
  qed
  then have "ordered_hazards cfg ex ?g2" by (auto simp: ordered_hazards_def)
  moreover have "g_name_to_index ?g2 = g_name_to_index g0" "node_count ?g2 = node_count g0"
    using same by (simp_all add: same_nodes_def)
  ultimately show ?thesis
    using S2(1) same cfg0 inv g0(2) by (auto simp: scanned_def same_nodes_def nodes_inv_def)
qed

lemma ordered_hazards_mono: "ordered_hazards cfg ex g \<Longrightarrow> (edges g)\<^sup>+ \<subseteq> (edges h)\<^sup>+ \<Longrightarrow> ordered_hazards cfg ex h"
  unfolding ordered_hazards_def by blast

lemma build_dag_Inr:
  assumes "build_dag cfg ex = Inr g"
  shows "\<exists>full. g = reduce full \<and> graph_ok full \<and> node_count full = length (ex_sequence ex) \<and>
     ordered_hazards cfg ex full \<and> (\<forall>i < node_count full. nd_config (g_nodes full ! i) = op_at cfg ex i \<and>
       nd_name (g_nodes full ! i) = ex_sequence ex ! i) \<and>
     (distinct (ex_sequence ex) \<longrightarrow> (\<forall>i < length (ex_sequence ex). \<forall>s \<in> set (oc_sources (op_at cfg ex i)).
        \<exists>j < i. ex_sequence ex ! j = s \<and> (j, i) \<in> edges full))"
proof -
  let ?ns = "ex_sequence ex" and ?e = "\<lparr>g_nodes = [], g_name_to_index = []\<rparr> :: graph"
  obtain g0 where g0: "rfold (add_node cfg ex) ?ns ?e = Inr g0"
    using assms by (auto simp: build_dag_def rbind_Inr_iff)
  then have inv: "nodes_inv cfg ex ?ns g0"
    using add_nodes [OF nodes_inv_empty, of cfg ?ns ex] by (auto split: if_splits)
  define g2 where "g2 = scan_fields False (scan_fields True g0)"
  have sc: "scanned cfg ex g2" using scan_both [OF inv] by (simp add: g2_def)
  obtain full where full: "rfold add_sources [0..<length ?ns] g2 = Inr full" "g = reduce full"
    using assms g0 by (auto simp: build_dag_def rbind_Inr_iff g2_def Let_def)
  have G: "graph_ok g2" "\<forall>i \<in> set [0..<length ?ns]. i < node_count g2" using sc by (auto simp: scanned_def)
  have A: "\<forall>i < length ?ns. sources_known i g2" "graph_ok full" "same_nodes g2 full" "edges g2 \<subseteq> edges full"
      "\<forall>i < length ?ns. \<forall>s \<in> set (oc_sources (nd_config (g_nodes g2 ! i))). \<forall>j.
          fm_find (g_name_to_index g2) s = Some j \<longrightarrow> (j, i) \<in> edges full"
    using add_all_sources [OF G] full(1) by (auto split: if_splits)
  have "ordered_hazards cfg ex full"
    using sc ordered_hazards_mono trancl_mono_subset [OF A(4)] by (auto simp: scanned_def)
  moreover have "\<exists>j < i. ?ns ! j = s \<and> (j, i) \<in> edges full"
    if "distinct ?ns" "i < length ?ns" "s \<in> set (oc_sources (op_at cfg ex i))" for i s
  proof -
    note H = that
    have c: "nd_config (g_nodes g2 ! i) = op_at cfg ex i" using sc H(2) by (simp add: scanned_def)
    then obtain j where j: "j < i" "fm_find (g_name_to_index g2) s = Some j"
      using A(1) H(2,3) unfolding sources_known_def by metis
    then have "(j, i) \<in> edges full" using A(5) c H(2,3) by auto
    moreover have "?ns ! j = s" using sc H(1) j(2) by (auto simp: scanned_def)
    ultimately show ?thesis using j(1) by blast
  qed
  ultimately show ?thesis
    using full(2) A(2,3) sc by (intro exI [of _ full]) (auto simp: scanned_def same_nodes_def)
qed


section \<open>The error of a build\<close>






section \<open>Properties\<close>

definition demo_expanded :: expanded_sequence where
  "demo_expanded = \<lparr>ex_sequence = [''a'', ''b''], ex_op_to_subflow = [(''a'', []), (''b'', ''flow'')]\<rparr>"

lemma demo_expands: "expand_operator_sequence demo_config = Inr demo_expanded"
proof -
  have "expand_operator_sequence (case load_config demo_registry demo_root of Inr cfg \<Rightarrow> cfg | Inl e \<Rightarrow> undefined) =
      Inr demo_expanded" by code_simp
  then show ?thesis by (simp add: demo_config_def)
qed



lemma demo_builds: "\<exists>g. build_dag demo_config demo_expanded = Inr g"
proof -
  have "case build_dag (case load_config demo_registry demo_root of Inr cfg \<Rightarrow> cfg | Inl e \<Rightarrow> undefined) demo_expanded of
      Inr g \<Rightarrow> True | Inl e \<Rightarrow> False" by code_simp
  then show ?thesis by (simp add: demo_config_def split: sum.splits)
qed

text \<open>
  C19: the graph is a DAG over the operator sequence: it has one node per operator, in order, every
  edge goes from an earlier to a later operator, and the predecessor and successor lists are each
  other's inverse without duplicates.
\<close>

theorem build_dag_forward:
  assumes "build_dag cfg ex = Inr g"
  shows "map nd_name (g_nodes g) = ex_sequence ex \<and>
    (\<forall>u v. v \<in> set (succs_of g u) \<longrightarrow> u < v \<and> v < length (ex_sequence ex)) \<and>
    (\<forall>u v. u \<in> set (preds_of g v) \<longleftrightarrow> v \<in> set (succs_of g u)) \<and>
    (\<forall>u. distinct (succs_of g u) \<and> distinct (preds_of g u))"
proof -
  obtain full where f: "g = reduce full" "graph_ok full" "node_count full = length (ex_sequence ex)"
      "\<forall>i < node_count full. nd_name (g_nodes full ! i) = ex_sequence ex ! i"
    using build_dag_Inr [OF assms] by blast
  note R = reduce_edges [OF f(2), folded f(1)]
  have "node_count g = length (ex_sequence ex)" using R f(3) by (simp add: same_nodes_def)
  moreover have "map nd_name (g_nodes g) = ex_sequence ex"
    using R f(3,4) calculation by (intro nth_equalityI) (auto simp: same_nodes_def node_count_def)
  ultimately show ?thesis using R by (auto simp: graph_ok_def)
qed

theorem build_dag_forward_witness:
  "\<exists>g. build_dag demo_config demo_expanded = Inr g \<and> map nd_name (g_nodes g) = [''a'', ''b'']"
proof -
  obtain g where g: "build_dag demo_config demo_expanded = Inr g" using demo_builds by blast
  then show ?thesis using build_dag_forward [OF g] by (simp add: demo_expanded_def)
qed

text \<open>
  C1: every hazard is ordered.  If two operators of the sequence access the same common field, item
  field or the row set, and the accesses conflict (they are not both reads and not both additive
  writes), then the graph has a path from the earlier to the later operator.
\<close>

theorem build_dag_orders_hazards:
  assumes "build_dag cfg ex = Inr g" and "i < j" and "j < length (ex_sequence ex)"
    and "(f, a) \<in> set (op_accesses common (op_at cfg ex i))"
    and "(f, b) \<in> set (op_accesses common (op_at cfg ex j))" and "conflicting a b"
  shows "(i, j) \<in> (edges g)\<^sup>+"
proof -
  obtain full where f: "g = reduce full" "graph_ok full" "ordered_hazards cfg ex full"
    using build_dag_Inr [OF assms(1)] by blast
  then show ?thesis using assms(2-) reduce_paths [OF f(2)] unfolding ordered_hazards_def by simp
qed

theorem build_dag_orders_hazards_witness:
  "\<exists>g. build_dag demo_config demo_expanded = Inr g \<and> (0, 1) \<in> (edges g)\<^sup>+"
proof -
  obtain g where g: "build_dag demo_config demo_expanded = Inr g" using demo_builds by blast
  have "(''y'', W) \<in> set (op_accesses False (op_at (case load_config demo_registry demo_root of Inr cfg \<Rightarrow> cfg | Inl e \<Rightarrow> undefined) demo_expanded 0))"
    by code_simp
  moreover have "(''y'', R) \<in> set (op_accesses False (op_at (case load_config demo_registry demo_root of Inr cfg \<Rightarrow> cfg | Inl e \<Rightarrow> undefined) demo_expanded 1))"
    by code_simp
  ultimately have "(0, 1) \<in> (edges g)\<^sup>+"
    using build_dag_orders_hazards [OF g, of 0 1 "''y''" W False R]
    by (simp add: demo_config_def demo_expanded_def conflicting_def)
  then show ?thesis using g by blast
qed

text \<open>
  C18: a declared source always has a path to the operator that declares it, although the edge
  itself may be removed by the reduction.
\<close>

theorem build_dag_orders_sources:
  assumes "build_dag cfg ex = Inr g" and "distinct (ex_sequence ex)" and "i < length (ex_sequence ex)"
    and "src \<in> set (oc_sources (op_at cfg ex i))"
  shows "\<exists>j < i. ex_sequence ex ! j = src \<and> (j, i) \<in> (edges g)\<^sup>+"
proof -
  obtain full where f: "g = reduce full" "graph_ok full"
      "distinct (ex_sequence ex) \<longrightarrow> (\<forall>i < length (ex_sequence ex). \<forall>s \<in> set (oc_sources (op_at cfg ex i)).
        \<exists>j < i. ex_sequence ex ! j = s \<and> (j, i) \<in> edges full)"
    using build_dag_Inr [OF assms(1)] by blast
  then obtain j where "j < i" "ex_sequence ex ! j = src" "(j, i) \<in> edges full" using assms(2-4) by blast
  then show ?thesis using reduce_paths [OF f(2)] f(1) by blast
qed

text \<open>Two operators of which the second names the first as its source.\<close>

definition source_op :: "string \<Rightarrow> string list \<Rightarrow> operator_config" where
  "source_op name sources =
     \<lparr>oc_name = name, oc_type_name = [], oc_metadata = \<lparr>common_input = [], common_input_skip = [],
        common_input_template = [], common_output = [], item_input = [], item_output = []\<rparr>,
      oc_skip = [], oc_recall = False, oc_consumes_row_set = False, oc_mutates_row_set = False,
      oc_additive_writes_row_set = False, oc_concurrent_safe = False, oc_debug = None,
      oc_for_branch_control = False, oc_common_defaults = [], oc_item_defaults = [], oc_strict_common = [],
      oc_strict_item = [], oc_sources = sources, oc_params = VNull, oc_operator_type = [], oc_data_parallel = 0\<rparr>"

definition source_config :: config where
  "source_config = \<lparr>cg_operators = [(''p'', source_op ''p'' []), (''q'', source_op ''q'' [''p''])],
     cg_pipeline_map = [], cg_pipeline_group = [(''main'', [''p'', ''q''])],
     cg_flow_contract = \<lparr>fc_common_input = [], fc_item_input = [], fc_common_output = [], fc_item_output = []\<rparr>,
     cg_storage_mode = [], cg_debug = False, cg_log_prefix = [], cg_pineapple_version = [],
     cg_pineapple_create_time = [], cg_resource_config = []\<rparr>"

definition source_expanded :: expanded_sequence where
  "source_expanded = \<lparr>ex_sequence = [''p'', ''q''], ex_op_to_subflow = []\<rparr>"

theorem build_dag_orders_sources_witness:
  "\<exists>g. build_dag source_config source_expanded = Inr g \<and>
     (\<exists>j < 1. ex_sequence source_expanded ! j = ''p'' \<and> (j, 1) \<in> (edges g)\<^sup>+)"
proof -
  have "case build_dag source_config source_expanded of Inr g \<Rightarrow> True | Inl e \<Rightarrow> False" by code_simp
  then obtain g where g: "build_dag source_config source_expanded = Inr g" by (auto split: sum.splits)
  have "''p'' \<in> set (oc_sources (op_at source_config source_expanded 1))" by code_simp
  then have "\<exists>j < 1. ex_sequence source_expanded ! j = ''p'' \<and> (j, 1) \<in> (edges g)\<^sup>+"
    using build_dag_orders_sources [OF g, of 1 "''p''"] by (simp add: source_expanded_def)
  then show ?thesis using g by blast
qed

text \<open>
  C17: the reduction is a transitive reduction: on a graph with forward edges it keeps exactly the
  reachability relation, and in the result no edge is shortcut by a longer path.
\<close>

theorem reduce_is_transitive_reduction:
  assumes "graph_ok g"
  shows "(edges (reduce g))\<^sup>+ = (edges g)\<^sup>+ \<and>
    (\<forall>u v. v \<in> set (succs_of (reduce g) u) \<longrightarrow>
       \<not> (\<exists>w. w \<in> set (succs_of (reduce g) u) \<and> w \<noteq> v \<and> (w, v) \<in> (edges (reduce g))\<^sup>*))"
proof -
  have "\<not> redundant (reduce g) u v" if "v \<in> set (succs_of (reduce g) u)" for u v
    using reduce_minimal [OF assms, of u v] that by (simp add: edges_def)
  moreover have "(u, w) \<in> edges (reduce g) \<longleftrightarrow> w \<in> set (succs_of (reduce g) u)" for u w
    by (simp add: edges_def)
  ultimately show ?thesis using reduce_paths [OF assms] unfolding redundant_def by blast
qed

definition triangle :: graph where
  "triangle = (let nd = (\<lambda>n p s. \<lparr>nd_name = n, nd_subflow = [], nd_preds = p, nd_succs = s,
                   nd_config = source_op n []\<rparr>)
     in \<lparr>g_nodes = [nd ''p'' [] [1, 2], nd ''q'' [0] [2], nd ''r'' [1, 0] []], g_name_to_index = []\<rparr>)"

theorem reduce_is_transitive_reduction_witness:
  "(edges (reduce triangle))\<^sup>+ = (edges triangle)\<^sup>+ \<and> succs_of (reduce triangle) 0 = [1]"
proof -
  have "graph_ok triangle"
    by (auto simp: graph_ok_def triangle_def Let_def succs_of_def preds_of_def node_count_def
        less_Suc_eq numeral_3_eq_3 nth_Cons' split: if_splits)
  moreover have "succs_of (reduce triangle) 0 = [1]" by code_simp
  ultimately show ?thesis using reduce_is_transitive_reduction [of triangle] by blast
qed

end
