(* ===== verification/Engine_Checks.thy ===== *)
theory Engine_Checks
  imports Operator_Input
begin

text \<open>
  The checks the engine makes around an operator (\<open>src/runtime/engine.cpp\<close>): the request against
  the flow contract, the skip fields, the output against the operator type and against the declared
  outputs; the wrapping of exceptions; the debug snapshots.
\<close>

section \<open>Requests and skip fields\<close>

record request =
  rq_common :: object
  rq_items :: "object list"

definition validate_request :: "request \<Rightarrow> flow_contract \<Rightarrow> error + unit" where
  "validate_request rq contract =
     rbind (rcheck_all (\<lambda>field. throw_if (fm_count (rq_common rq) field = 0)
              (ValidationError (''missing required common input field '' @ quoted field)))
              (fc_common_input contract)) (\<lambda>_.
     rcheck_all (\<lambda>i. rcheck_all (\<lambda>field. throw_if (fm_count (rq_items rq ! i) field = 0)
         (ValidationError (''item['' @ string_of_nat i @ ''] missing required item input field '' @ quoted field)))
         (fc_item_input contract))
       [0..<length (rq_items rq)])"

definition should_skip :: "frame \<Rightarrow> operator_config \<Rightarrow> bool" where
  "should_skip f op \<longleftrightarrow>
     list_ex (\<lambda>field. let v = frame_get_common f field in \<not> is_null v \<and> truthy v) (oc_skip op)"

section \<open>The output of an operator\<close>

definition has_cw :: "operator_output \<Rightarrow> bool" where "has_cw out \<longleftrightarrow> common_writes out \<noteq> []"
definition has_iw :: "operator_output \<Rightarrow> bool" where
  "has_iw out \<longleftrightarrow> item_writes out \<noteq> [] \<or> column_writes out \<noteq> []"
definition has_ai :: "operator_output \<Rightarrow> bool" where "has_ai out \<longleftrightarrow> added_items out \<noteq> []"
definition has_ri :: "operator_output \<Rightarrow> bool" where "has_ri out \<longleftrightarrow> removed_items out \<noteq> []"

definition flagged :: "bool \<Rightarrow> string \<Rightarrow> string list" where
  "flagged b s = (if b then [s] else [])"

text \<open>The methods called in violation of the operator type, and the type's display name.\<close>

definition type_violations :: "string \<Rightarrow> operator_output \<Rightarrow> (string \<times> string list) option" where
  "type_violations op_type out =
     (if op_type = ''recall'' then Some (''Recall'',
        flagged (has_iw out) ''SetItem'' @ flagged (has_ri out) ''RemoveItem'' @
        flagged (has_item_order out) ''SetItemOrder'')
      else if op_type = ''transform'' then Some (''Transform'',
        flagged (has_ai out) ''AddItem'' @ flagged (has_ri out) ''RemoveItem'' @
        flagged (has_item_order out) ''SetItemOrder'')
      else if op_type = ''filter'' then Some (''Filter'',
        flagged (has_cw out) ''SetCommon'' @ flagged (has_iw out) ''SetItem'' @ flagged (has_ai out) ''AddItem'' @
        flagged (has_item_order out) ''SetItemOrder'')
      else if op_type = ''merge'' then Some (''Merge'',
        flagged (has_cw out) ''SetCommon'' @ flagged (has_ai out) ''AddItem'' @
        flagged (has_item_order out) ''SetItemOrder'')
      else if op_type = ''reorder'' then Some (''Reorder'',
        flagged (has_cw out) ''SetCommon'' @ flagged (has_iw out) ''SetItem'' @ flagged (has_ai out) ''AddItem'' @
        flagged (has_ri out) ''RemoveItem'')
      else if op_type = ''observe'' then Some (''Observe'',
        flagged (has_cw out) ''SetCommon'' @ flagged (has_iw out) ''SetItem'' @ flagged (has_ai out) ''AddItem'' @
        flagged (has_ri out) ''RemoveItem'' @ flagged (has_item_order out) ''SetItemOrder'')
      else None)"

definition bracketed :: "string list \<Rightarrow> string" where
  "bracketed xs = ''['' @ join '' '' xs @ '']''"

definition validate_output_against_type :: "string \<Rightarrow> string \<Rightarrow> operator_output \<Rightarrow> error + unit" where
  "validate_output_against_type op_name op_type out =
     (case type_violations op_type out of
        None \<Rightarrow> Inr ()
      | Some (display_type, violations) \<Rightarrow>
          throw_if (violations \<noteq> [])
            (exec_error op_name (''type violation: operator type '' @ display_type @ '' must not call '' @
               bracketed violations)))"

text \<open>A \<open>std::set<std::string>\<close> of field names, ascending.\<close>

definition string_set :: "string list \<Rightarrow> string list" where
  "string_set xs = fold List.insort_insert xs []"

definition source_rewrite :: "operator_config \<Rightarrow> bool" where
  "source_rewrite op \<longleftrightarrow> oc_mutates_row_set op \<and> ''_source'' \<in> set (item_input (oc_metadata op))"

definition undeclared_common :: "operator_config \<Rightarrow> operator_output \<Rightarrow> string list" where
  "undeclared_common op out =
     string_set (filter (\<lambda>f. f \<notin> set (common_output (oc_metadata op))) (map fst (common_writes out)))"

definition undeclared_item :: "operator_config \<Rightarrow> operator_output \<Rightarrow> string list" where
  "undeclared_item op out =
     (let undeclared = (\<lambda>f. f \<notin> set (item_output (oc_metadata op)));
          existing = (\<lambda>f. undeclared f \<and> \<not> (source_rewrite op \<and> f = ''_source''))
      in string_set (filter existing (map (\<lambda>w. fst (snd w)) (item_writes out)) @
                     filter existing (map fst (column_writes out)) @
                     filter undeclared (concat (map (map fst) (added_items out)))))"

definition validate_declared_outputs :: "string \<Rightarrow> operator_config \<Rightarrow> operator_output \<Rightarrow> error + unit" where
  "validate_declared_outputs op_name op out =
     rbind (throw_if (undeclared_common op out \<noteq> [])
              (exec_error op_name (''output contract violation: operator wrote undeclared common output field(s) '' @
                 bracketed (undeclared_common op out)))) (\<lambda>_.
     throw_if (undeclared_item op out \<noteq> [])
       (exec_error op_name (''output contract violation: operator wrote undeclared item output field(s) '' @
          bracketed (undeclared_item op out))))"

section \<open>Exceptions of operators\<close>

text \<open>
  What an operator may throw: an exception of the pine hierarchy or of the standard library, or a
  payload that is no \<open>std::exception\<close>.
\<close>

datatype thrown = Typed error | Foreign

text \<open>
  \<open>dispatch_with_recovery\<close> after the call.  A \<open>ContextError\<close> is an \<open>ExecutionError\<close> without an
  operator name.
\<close>

definition wrap_inner :: "string \<Rightarrow> error \<Rightarrow> string \<Rightarrow> error" where
  "wrap_inner op e inner = exec_error op (if inner = [] then what e else inner)"

fun recovered :: "string \<Rightarrow> thrown \<Rightarrow> error" where
  "recovered op (Typed (ExecutionError None inner)) = wrap_inner op (ExecutionError None inner) inner"
| "recovered op (Typed (ExecutionError (Some name) inner)) =
     (if name = [] then wrap_inner op (ExecutionError (Some name) inner) inner
      else ExecutionError (Some name) inner)"
| "recovered op (Typed (ContextError dl)) = wrap_inner op (ContextError dl) (context_msg dl)"
| "recovered op (Typed (StdException msg)) = PanicError op msg"
| "recovered op (Typed e) = e"
| "recovered op Foreign = PanicError op ''unknown exception''"

text \<open>
  The operators are code of their own: an operator is a function of the request context and its
  input that fills an output buffer and may throw.
\<close>

type_synonym 'c op_fun = "'c \<Rightarrow> operator_input \<Rightarrow> operator_output \<Rightarrow> (operator_output, thrown) outcome"

definition dispatch_operator ::
  "'c op_fun flat_map \<Rightarrow> 'c \<Rightarrow> operator_config \<Rightarrow> operator_input \<Rightarrow> operator_output \<Rightarrow>
   (operator_output, thrown) outcome" where
  "dispatch_operator operators ctx op inp out =
     (case fm_find operators (oc_name op) of
        None \<Rightarrow> (out, Some (Typed (RegistryError None (''operator '' @ quoted (oc_name op) @
                  '': operator type not registered: '' @ quoted (oc_type_name op)))))
      | Some execute \<Rightarrow> execute ctx inp out)"

definition dispatch_with_recovery ::
  "'c op_fun flat_map \<Rightarrow> 'c \<Rightarrow> operator_config \<Rightarrow> operator_input \<Rightarrow> operator_output \<Rightarrow>
   (operator_output, error) outcome" where
  "dispatch_with_recovery operators ctx op inp out =
     (case dispatch_operator operators ctx op inp out of
        (out, None) \<Rightarrow> (out, None)
      | (out, Some t) \<Rightarrow> (out, Some (recovered (oc_name op) t)))"

section \<open>Debug snapshots\<close>

text \<open>\<open>snap[key] = value\<close> for the pairs that are present.\<close>

definition set_when :: "bool \<Rightarrow> string \<Rightarrow> variant \<Rightarrow> object \<Rightarrow> object" where
  "set_when b key v ob = (if b then fm_set key v ob else ob)"

definition snapshot_field :: "variant flat_map \<Rightarrow> string \<Rightarrow> variant \<Rightarrow> object \<Rightarrow> object" where
  "snapshot_field defaults field v ob =
     (if \<not> is_null v then fm_set field v ob
      else case fm_find defaults field of Some d \<Rightarrow> fm_set field d ob | None \<Rightarrow> ob)"

definition snapshot_common :: "frame \<Rightarrow> operator_config \<Rightarrow> object" where
  "snapshot_common f op =
     fold (\<lambda>field ob. if field \<in> set (excluded_fields op) then ob
             else snapshot_field (oc_common_defaults op) field (frame_get_common f field) ob)
       (common_input (oc_metadata op)) []"

definition snapshot_item :: "frame \<Rightarrow> operator_config \<Rightarrow> nat \<Rightarrow> object" where
  "snapshot_item f op i =
     fold (\<lambda>field ob. snapshot_field (oc_item_defaults op) field (frame_item f i field) ob)
       (item_input (oc_metadata op)) []"

definition snapshot_input :: "frame \<Rightarrow> operator_config \<Rightarrow> variant" where
  "snapshot_input f op =
     (let common = snapshot_common f op; rows = map (snapshot_item f op) [0..<frame_item_count f];
          snap = set_when (common \<noteq> []) ''common'' (VObj common) []
      in VObj (set_when (frame_item_count f > 0 \<and> item_input (oc_metadata op) \<noteq> [] \<and> list_ex (\<lambda>row. row \<noteq> []) rows)
                 ''items'' (VArr (map VObj rows)) snap))"

text \<open>\<open>grouped[idx][field] = value\<close> on a \<open>std::map<int, std::map<std::string, Variant>>\<close>.\<close>

fun grouped_set :: "int \<Rightarrow> string \<Rightarrow> variant \<Rightarrow> (int \<times> object) list \<Rightarrow> (int \<times> object) list" where
  "grouped_set idx field v [] = [(idx, fm_set field v [])]"
| "grouped_set idx field v ((i, row) # rest) =
     (if idx < i then (idx, fm_set field v []) # (i, row) # rest
      else if idx = i then (i, fm_set field v row) # rest
      else (i, row) # grouped_set idx field v rest)"

definition grouped_writes :: "operator_output \<Rightarrow> (int \<times> object) list" where
  "grouped_writes out =
     fold (\<lambda>(field, vals) g. fold (\<lambda>(i, d) g. grouped_set (int i) field (VNum d) g) (enumerate 0 vals) g)
       (column_writes out)
       (fold (\<lambda>(idx, field, v) g. grouped_set idx field v g) (item_writes out) [])"

definition snapshot_output :: "operator_output \<Rightarrow> variant" where
  "snapshot_output out =
     VObj (set_when (has_ri out) ''removed_items'' (VArr (map (\<lambda>i. VNum (double_of_int i)) (removed_items out)))
          (set_when (has_ai out) ''added_items'' (VArr (map VObj (added_items out)))
          (set_when (has_iw out) ''item_writes''
             (VObj (fold (\<lambda>(idx, row) ob. fm_set (string_of_int idx) (VObj row) ob) (grouped_writes out) []))
          (set_when (has_cw out) ''common_writes'' (VObj (common_writes out)) []))))"

end
