(* ===== verification/Engine_Laws.thy ===== *)
theory Engine_Laws
  imports Engine_Checks "HOL-Library.Multiset" "HOL-Library.Sublist"
begin

text \<open>
  What an output that passed the engine's checks can change: the frame conditions of the six
  operator types.
\<close>

section \<open>What the checks establish\<close>

lemma bracketed_flags [simp]: "flagged b s = [] \<longleftrightarrow> \<not> b"
  by (simp add: flagged_def)

lemma has_no [simp]:
  "has_cw out \<longleftrightarrow> common_writes out \<noteq> []" "has_ai out \<longleftrightarrow> added_items out \<noteq> []"
  "has_ri out \<longleftrightarrow> removed_items out \<noteq> []" "\<not> has_iw out \<longleftrightarrow> item_writes out = [] \<and> column_writes out = []"
  by (auto simp: has_cw_def has_ai_def has_ri_def has_iw_def)

lemma type_check_Inr:
  assumes "validate_output_against_type name ty out = Inr ()"
  shows "ty = ''recall'' \<Longrightarrow> \<not> has_iw out \<and> removed_items out = [] \<and> \<not> has_item_order out"
    and "ty = ''transform'' \<Longrightarrow> added_items out = [] \<and> removed_items out = [] \<and> \<not> has_item_order out"
    and "ty = ''filter'' \<Longrightarrow> common_writes out = [] \<and> \<not> has_iw out \<and> added_items out = [] \<and> \<not> has_item_order out"
    and "ty = ''merge'' \<Longrightarrow> common_writes out = [] \<and> added_items out = [] \<and> \<not> has_item_order out"
    and "ty = ''reorder'' \<Longrightarrow> common_writes out = [] \<and> \<not> has_iw out \<and> added_items out = [] \<and> removed_items out = []"
    and "ty = ''observe'' \<Longrightarrow> common_writes out = [] \<and> \<not> has_iw out \<and> added_items out = [] \<and>
           removed_items out = [] \<and> \<not> has_item_order out"
  using assms by (auto simp: validate_output_against_type_def type_violations_def)

lemma set_string_set [simp]: "set (string_set xs) = set xs"
proof -
  have "set (fold List.insort_insert xs ys) = set xs \<union> set ys" for ys
    by (induction xs arbitrary: ys) (auto simp: set_insort_insert)
  then show ?thesis by (simp add: string_set_def)
qed

lemma string_set_Nil [simp]: "string_set xs = [] \<longleftrightarrow> xs = []"
  using set_string_set [of xs] by (metis set_empty)

definition writable :: "operator_config \<Rightarrow> string set" where
  "writable op = set (item_output (oc_metadata op)) \<union> (if source_rewrite op then {''_source''} else {})"

lemma declared_check_Inr:
  assumes "validate_declared_outputs name op out = Inr ()"
  shows "fst ` set (common_writes out) \<subseteq> set (common_output (oc_metadata op))"
    and "(\<lambda>w. fst (snd w)) ` set (item_writes out) \<subseteq> writable op"
    and "fst ` set (column_writes out) \<subseteq> writable op"
    and "row \<in> set (added_items out) \<Longrightarrow> fst ` set row \<subseteq> set (item_output (oc_metadata op))"
  using assms
  by (auto simp: validate_declared_outputs_def undeclared_common_def undeclared_item_def rbind_Inr_iff Let_def
      filter_empty_conv writable_def)

section \<open>The abstract steps\<close>

lemma for_each_invariant:
  assumes "for_each f xs s = (t, None)" "I s"
    and "\<And>x s t. x \<in> set xs \<Longrightarrow> I s \<Longrightarrow> f x s = (t, None) \<Longrightarrow> I t"
  shows "I t"
  using assms by (induction xs arbitrary: s) (auto simp: and_then_ok_iff)

lemma check_then_None [simp]: "check_then e f s = (t, None) \<longleftrightarrow> e = None \<and> t = f s"
  by (auto simp: check_then_def split: option.splits)

lemma af_common_writes:
  assumes "for_each (af_common_write op) ws a = (b, None)"
  shows "a_rows b = a_rows a \<and> (\<forall>k. k \<notin> fst ` set ws \<longrightarrow> a_common b k = a_common a k)"
  by (rule for_each_invariant [OF assms]) (auto simp: af_common_write_def)

text \<open>Rows of which only the fields in \<open>F\<close> may differ.\<close>

definition rows_agree :: "string set \<Rightarrow> (string \<rightharpoonup> variant) list \<Rightarrow> (string \<rightharpoonup> variant) list \<Rightarrow> bool" where
  "rows_agree F rs ts \<longleftrightarrow> length rs = length ts \<and> (\<forall>i < length rs. \<forall>k. k \<notin> F \<longrightarrow> (ts ! i) k = (rs ! i) k)"

lemma rows_agree_refl [simp]: "rows_agree F rs rs"
  by (simp add: rows_agree_def)

lemma rows_agree_empty [simp]: "rows_agree {} rs ts \<longleftrightarrow> ts = rs"
  by (auto simp: rows_agree_def fun_eq_iff intro: nth_equalityI)

lemma nth_field_update:
  "k \<noteq> field \<Longrightarrow> i < length rs \<Longrightarrow> (rs[j := (rs ! j)(field \<mapsto> v)] ! i) k = (rs ! i) k"
  by (cases "j = i") auto

lemma rows_agree_trans:
  "rows_agree F rs ss \<Longrightarrow> rows_agree G ss ts \<Longrightarrow> rows_agree (F \<union> G) rs ts"
  by (auto simp: rows_agree_def)

lemma rows_agree_mono: "rows_agree F rs ts \<Longrightarrow> F \<subseteq> G \<Longrightarrow> rows_agree G rs ts"
  unfolding rows_agree_def by blast

lemma af_item_write_agree:
  "af_item_write op w a = (b, None) \<Longrightarrow> a_common b = a_common a \<and> rows_agree {fst (snd w)} (a_rows a) (a_rows b)"
  by (cases w) (auto simp: af_item_write_def rows_agree_def nth_field_update)

lemma af_item_writes:
  assumes "for_each (af_item_write op) ws a = (b, None)"
  shows "a_common b = a_common a \<and> rows_agree ((\<lambda>w. fst (snd w)) ` set ws) (a_rows a) (a_rows b)"
proof (rule for_each_invariant [OF assms])
  let ?F = "(\<lambda>w. fst (snd w)) ` set ws"
  fix w s t
  assume a: "w \<in> set ws" "a_common s = a_common a \<and> rows_agree ?F (a_rows a) (a_rows s)"
    "af_item_write op w s = (t, None)"
  then have "rows_agree (?F \<union> {fst (snd w)}) (a_rows a) (a_rows t)"
    using af_item_write_agree rows_agree_trans by blast
  moreover have "?F \<union> {fst (snd w)} = ?F" using a(1) by auto
  ultimately show "a_common t = a_common a \<and> rows_agree ?F (a_rows a) (a_rows t)"
    using a af_item_write_agree [of op w s t] by simp
qed simp

lemma af_column_writes:
  assumes "for_each (af_column_write op) ws a = (b, None)"
  shows "a_common b = a_common a \<and> rows_agree (fst ` set ws) (a_rows a) (a_rows b)"
  by (rule for_each_invariant [OF assms])
    (auto simp: af_column_write_def check_column_write_def rows_agree_def image_iff split: prod.splits if_splits)

lemma af_removals_subseq:
  assumes "af_removals op removed a = (b, None)"
  shows "a_common b = a_common a \<and> subseq (a_rows b) (a_rows a)"
proof -
  have "subseq (map ((!) rs) (filter P [0..<length rs])) rs" for P and rs :: "(string \<rightharpoonup> variant) list"
    by (metis map_nth subseq_filter_left subseq_map)
  then show ?thesis using assms by (auto simp: af_removals_def kept_indices_def)
qed

lemma af_reorder_mset:
  assumes "af_reorder op out a = (b, None)"
  shows "a_common b = a_common a \<and> mset (a_rows b) = mset (a_rows a)"
proof (cases "has_item_order out")
  case True
  let ?n = "length (a_rows a)"
  have "check_item_order op ?n (item_order out) = None" "b = a\<lparr>a_rows := map (\<lambda>i. a_rows a ! nat i) (item_order out)\<rparr>"
    using assms True by (auto simp: af_reorder_def)
  moreover from this(1) have "mset (map nat (item_order out)) = mset [0..<?n]"
  proof -
    assume "check_item_order op ?n (item_order out) = None"
    then have o: "length (item_order out) = ?n" "distinct (item_order out)" "set (item_order out) = int ` {..<?n}"
      by (auto simp: check_item_order_iff_perm is_perm_def)
    then have "distinct (map nat (item_order out))" "set (map nat (item_order out)) = set [0..<?n]"
      by (auto simp: distinct_map inj_on_def image_image)
    then show ?thesis using set_eq_iff_mset_eq_distinct distinct_upt by blast
  qed
  then have "mset (map ((!) (a_rows a)) (map nat (item_order out))) = mset (map ((!) (a_rows a)) [0..<?n])"
    by (metis mset_map)
  then have "mset (map (\<lambda>i. a_rows a ! nat i) (item_order out)) = mset (a_rows a)"
    by (simp add: comp_def)
  ultimately show ?thesis by simp
next
  case False
  then show ?thesis using assms by (auto simp: af_reorder_def)
qed

lemma af_added_appends:
  assumes "for_each (af_added op r) rows a = (b, None)"
  shows "a_common b = a_common a \<and> (\<exists>new. a_rows b = a_rows a @ new \<and> length new = length rows)"
  using assms
proof (induction rows arbitrary: a)
  case (Cons row rows)
  define c where "c = a\<lparr>a_rows := a_rows a @ [added_row op r row]\<rparr>"
  have c: "for_each (af_added op r) rows c = (b, None)"
    using Cons.prems by (auto simp: and_then_ok_iff af_added_def [of op r row] c_def)
  from Cons.IH [OF c] obtain new where "a_common b = a_common c" "a_rows b = a_rows c @ new" "length new = length rows"
    by blast
  then show ?case by (intro conjI exI [of _ "added_row op r row # new"]) (auto simp: c_def)
qed simp


text \<open>The whole of \<open>apply_output\<close>, phase by phase.\<close>

lemma af_apply_phases:
  assumes "af_apply_output out op r a = (b, None)"
  shows "\<exists>(c :: aframe) (d :: aframe) e. a_rows c = a_rows a \<and>
    (\<forall>k. k \<notin> fst ` set (common_writes out) \<longrightarrow> a_common c k = a_common a k) \<and>
    rows_agree ((\<lambda>w. fst (snd w)) ` set (item_writes out) \<union> fst ` set (column_writes out)) (a_rows c) (a_rows d) \<and>
    a_common d = a_common c \<and> a_common b = a_common d \<and>
    af_removals op (removed_items out) d = (e, None) \<and>
    (\<exists>f. af_reorder op out e = (f, None) \<and>
       (\<exists>new. a_rows b = a_rows f @ new \<and> length new = length (added_items out)))"
proof -
  from assms obtain c c1 d e f g where s:
      "for_each (af_common_write op) (common_writes out) a = (c, None)"
      "for_each (af_item_write op) (item_writes out) c = (c1, None)"
      "for_each (af_column_write op) (column_writes out) c1 = (d, None)"
      "af_removals op (removed_items out) d = (e, None)" "af_reorder op out e = (f, None)"
      "for_each (af_added op r) (added_items out) f = (g, None)"
      "b = g\<lparr>a_warnings := a_warnings g @ frame_warning op out\<rparr>"
    unfolding af_apply_output_def and_then_ok_iff by auto
  note L = af_common_writes [OF s(1)] af_item_writes [OF s(2)] af_column_writes [OF s(3)]
    af_removals_subseq [OF s(4)] af_reorder_mset [OF s(5)] af_added_appends [OF s(6)]
  have "rows_agree ((\<lambda>w. fst (snd w)) ` set (item_writes out) \<union> fst ` set (column_writes out)) (a_rows c) (a_rows d)"
    using L rows_agree_trans by blast
  moreover have "\<exists>f. af_reorder op out e = (f, None) \<and>
      (\<exists>new. a_rows b = a_rows f @ new \<and> length new = length (added_items out))"
    using L s(5,7) by auto
  ultimately show ?thesis using L s by (intro exI [of _ c] exI [of _ d] exI [of _ e]) auto
qed

end
