(* ===== verification/Engine_Theorems.thy ===== *)
theory Engine_Theorems
  imports Engine_Laws Input_Theorems
begin

text \<open>Properties of the engine's checks around an operator.\<close>

definition frame_rows :: "frame \<Rightarrow> (string \<rightharpoonup> variant) list" where
  "frame_rows f = a_rows (frame_abs f)"

definition frame_commons :: "frame \<Rightarrow> (string \<rightharpoonup> variant)" where
  "frame_commons f = a_common (frame_abs f)"

text \<open>
  What the phases of an accepted and applied output leave: the rows after the item writes, after
  the removals, and at the end.
\<close>

lemma applied_parts:
  assumes "frame_inv f" "frame_owned f" "step_ok (out, name, is_recall)"
    and applied: "frame_apply out name is_recall f = Some (g, None)"
    and "validate_declared_outputs name op out = Inr ()"
  obtains ds es where "\<forall>k. k \<notin> set (common_output (oc_metadata op)) \<longrightarrow> frame_commons g k = frame_commons f k"
    "common_writes out = [] \<longrightarrow> frame_commons g = frame_commons f"
    "rows_agree (writable op) (frame_rows f) ds" "\<not> has_iw out \<longrightarrow> ds = frame_rows f"
    "subseq es ds" "removed_items out = [] \<longrightarrow> es = ds"
    "\<not> has_item_order out \<longrightarrow> (\<exists>new. frame_rows g = es @ new \<and> length new = length (added_items out))"
    "added_items out = [] \<longrightarrow> mset (frame_rows g) = mset es"
proof -
  have "output_ok out" "output_num_ok out" using assms(3) by (simp_all add: step_ok_def)
  from fr.apply_step [OF assms(1,2) this, of name is_recall] applied
  have "af_apply_output out name is_recall (frame_abs f) = (frame_abs g, None)"
    by (auto simp: prod_eq_iff)
  from af_apply_phases [OF this] obtain c d e h :: aframe and new where "a_rows c = a_rows (frame_abs f)"
      "\<forall>k. k \<notin> fst ` set (common_writes out) \<longrightarrow> a_common c k = a_common (frame_abs f) k"
      "rows_agree ((\<lambda>w. fst (snd w)) ` set (item_writes out) \<union> fst ` set (column_writes out)) (a_rows c) (a_rows d)"
      "a_common d = a_common c" "a_common (frame_abs g) = a_common d"
      "af_removals name (removed_items out) d = (e, None)" "af_reorder name out e = (h, None)"
      "a_rows (frame_abs g) = a_rows h @ new" "length new = length (added_items out)"
    by (elim exE conjE) (rule that)
  note p = this [folded frame_rows_def frame_commons_def]
  note D = declared_check_Inr [OF assms(5)]
  have out_of: "frame_commons g k = frame_commons f k" if "k \<notin> set (common_output (oc_metadata op))" for k
    using p(2,4,5) D(1) that by auto
  have cd: "rows_agree (writable op) (frame_rows f) (a_rows d)"
    using rows_agree_mono [OF p(3) Un_least [OF D(2,3)]] p(1) by simp
  have no_writes: "a_rows d = frame_rows f" if "\<not> has_iw out" using p(1,3) that by (simp add: has_iw_def)
  have no_common: "frame_commons g = frame_commons f" if "common_writes out = []"
    using p(2,4,5) that by (simp add: fun_eq_iff)
  have no_removal: "e = d" if "removed_items out = []"
    using p(6) that by (simp add: af_removals_def kept_indices_def)
  have no_order: "frame_rows g = a_rows e @ new" if "\<not> has_item_order out"
    using p(7,8) that by (simp add: af_reorder_def)
  have order: "mset (frame_rows g) = mset (a_rows e)" if "added_items out = []"
    using p(8,9) that af_reorder_mset [OF p(7)] by simp
  have sub: "subseq (a_rows e) (a_rows d)" using af_removals_subseq [OF p(6)] by simp
  show ?thesis
    by (rule that [OF _ _ cd _ sub]) (use out_of no_common no_writes no_removal no_order order p(9) in simp_all)
qed

text \<open>
  C25: an output that passed the two checks and was applied changed nothing outside its operator's
  declaration.  Common fields outside \<open>common_output\<close> are as before, and the items: a transform
  keeps them all in place and changes only fields of \<open>item_output\<close> (and \<open>_source\<close> for the merge
  exemption); a filter drops some and changes none; a merge does both of these; a reorder permutes
  them; a recall appends; an observer changes nothing.
\<close>

theorem operator_type_effects:
  assumes "frame_inv f" "frame_owned f" "step_ok (out, name, is_recall)"
    and applied: "frame_apply out name is_recall f = Some (g, None)"
    and "validate_output_against_type name ty out = Inr ()"
    and "validate_declared_outputs name op out = Inr ()"
  shows "(\<forall>k. k \<notin> set (common_output (oc_metadata op)) \<longrightarrow> frame_commons g k = frame_commons f k) \<and>
    (ty = ''transform'' \<longrightarrow> rows_agree (writable op) (frame_rows f) (frame_rows g)) \<and>
    (ty = ''filter'' \<longrightarrow> frame_commons g = frame_commons f \<and> subseq (frame_rows g) (frame_rows f)) \<and>
    (ty = ''merge'' \<longrightarrow> frame_commons g = frame_commons f \<and>
       (\<exists>rs. rows_agree (writable op) (frame_rows f) rs \<and> subseq (frame_rows g) rs)) \<and>
    (ty = ''reorder'' \<longrightarrow> frame_commons g = frame_commons f \<and> mset (frame_rows g) = mset (frame_rows f)) \<and>
    (ty = ''recall'' \<longrightarrow> (\<exists>new. frame_rows g = frame_rows f @ new \<and> length new = length (added_items out))) \<and>
    (ty = ''observe'' \<longrightarrow> frame_commons g = frame_commons f \<and> frame_rows g = frame_rows f)"
proof -
  obtain ds es where common: "\<forall>k. k \<notin> set (common_output (oc_metadata op)) \<longrightarrow> frame_commons g k = frame_commons f k"
    and no_common: "common_writes out = [] \<longrightarrow> frame_commons g = frame_commons f"
    and agree: "rows_agree (writable op) (frame_rows f) ds" and no_writes: "\<not> has_iw out \<longrightarrow> ds = frame_rows f"
    and sub: "subseq es ds" and no_removal: "removed_items out = [] \<longrightarrow> es = ds"
    and no_order: "\<not> has_item_order out \<longrightarrow> (\<exists>new. frame_rows g = es @ new \<and> length new = length (added_items out))"
    and order: "added_items out = [] \<longrightarrow> mset (frame_rows g) = mset es"
    by (rule applied_parts [OF assms(1-4,6)]) (rule that)
  note ty = type_check_Inr [OF assms(5)]
  have "frame_commons g = frame_commons f" if "ty = ''filter'' \<or> ty = ''merge'' \<or> ty = ''reorder'' \<or> ty = ''observe''"
    using that by (elim disjE) (use no_common ty(3-6) in simp_all)
  moreover have "rows_agree (writable op) (frame_rows f) (frame_rows g)" if "ty = ''transform''"
    using ty(2) [OF that] no_removal no_order agree by auto
  moreover have "subseq (frame_rows g) (frame_rows f)" if "ty = ''filter''"
    using ty(3) [OF that] no_writes no_order sub by auto
  moreover have "\<exists>rs. rows_agree (writable op) (frame_rows f) rs \<and> subseq (frame_rows g) rs" if "ty = ''merge''"
    using ty(4) [OF that] agree sub no_order by auto
  moreover have "mset (frame_rows g) = mset (frame_rows f)" if "ty = ''reorder''"
    using ty(5) [OF that] no_writes no_removal order by simp
  moreover have "\<exists>new. frame_rows g = frame_rows f @ new \<and> length new = length (added_items out)" if "ty = ''recall''"
    using ty(1) [OF that] no_writes no_removal no_order by auto
  moreover have "frame_rows g = frame_rows f" if "ty = ''observe''"
    using ty(6) [OF that] no_writes no_removal no_order by auto
  ultimately show ?thesis using common by simp
qed

definition demo_score_config :: operator_config where
  "demo_score_config = demo_input_config\<lparr>oc_metadata := (oc_metadata demo_input_config)\<lparr>item_output := [''score'']\<rparr>\<rparr>"

definition demo_score_output :: operator_output where
  "demo_score_output = set_item 1 ''score'' (VStr ''high'') empty_output"

theorem operator_type_effects_witness:
  "rows_agree (writable demo_score_config) (frame_rows demo_input_frame)
     (frame_rows (fst (the (frame_apply demo_score_output ''score'' False demo_input_frame))))"
proof -
  have owned: "frame_owned demo_input_frame" by code_simp
  have step: "step_ok (demo_score_output, ''score'', False)"
    by (simp add: step_ok_def output_num_ok_def output_ok_def demo_score_output_def set_item_def empty_output_def)
  have "case frame_apply demo_score_output ''score'' False demo_input_frame of Some (g, None) \<Rightarrow> True | _ \<Rightarrow> False"
    by code_simp
  then obtain g where g: "frame_apply demo_score_output ''score'' False demo_input_frame = Some (g, None)"
    by (auto split: option.splits prod.splits)
  have "validate_output_against_type ''score'' ''transform'' demo_score_output = Inr ()"
    "validate_declared_outputs ''score'' demo_score_config demo_score_output = Inr ()"
    by code_simp+
  from operator_type_effects [OF demo_input_ok(1) owned step g this] show ?thesis by (simp add: g)
qed

end
