(* ===== verification/Decimal.thy ===== *)
theory Decimal
  imports Values
begin

text \<open>
  Decimal text and binary64 numbers: what the program uses of \<open>std::from_chars\<close> and
  \<open>std::to_chars\<close> (scientific format).  Reading rounds the exact value of the text to the nearest
  double, ties to even; writing gives the fewest digits that read back as the same double, and of
  those the closest to it.
\<close>

section \<open>Rounding to binary64\<close>

definition pow2 :: "int \<Rightarrow> rat" where
  "pow2 k = (if 0 \<le> k then 2 ^ nat k else 1 / 2 ^ nat (- k))"

definition pow10 :: "int \<Rightarrow> rat" where
  "pow10 k = (if 0 \<le> k then 10 ^ nat k else 1 / 10 ^ nat (- k))"

definition round_even :: "rat \<Rightarrow> int" where
  "round_even r =
     (let f = \<lfloor>r\<rfloor>; d = r - of_int f
      in if d < 1 / 2 then f else if 1 / 2 < d then f + 1 else if even f then f else f + 1)"

text \<open>\<open>\<lfloor>log2 q\<rfloor>\<close> of a positive rational, from the bit lengths of its numerator and denominator.\<close>

definition binary_exponent :: "rat \<Rightarrow> int" where
  "binary_exponent q =
     (let (a, b) = quotient_of q; d = int (bit_len (nat a)) - int (bit_len (nat b))
      in if pow2 d \<le> q then d else d - 1)"

text \<open>
  The magnitude of the nearest double; \<open>None\<close> on overflow.  The exponent of the last place is at
  least -1074 (subnormals) and at most 971, where the significand stays below \<open>2 ^ 53\<close>.
\<close>

definition round64 :: "rat \<Rightarrow> rat option" where
  "round64 q =
     (if q = 0 then Some 0
      else let k = max (binary_exponent q - 52) (- 1074); m = round_even (q / pow2 k)
           in if k < 971 \<or> k = 971 \<and> m < 2 ^ 53 then Some (of_int m * pow2 k) else None)"

text \<open>The doubles proper: finite, with a magnitude that rounding leaves alone.\<close>

fun representable :: "double \<Rightarrow> bool" where
  "representable (DFin s q) \<longleftrightarrow> 0 \<le> q \<and> round64 q = Some q"
| "representable d \<longleftrightarrow> False"

section \<open>Reading\<close>

definition is_digit :: "char \<Rightarrow> bool" where
  "is_digit c \<longleftrightarrow> (let n = of_char c :: nat in 48 \<le> n \<and> n \<le> 57)"

definition digit_val :: "char \<Rightarrow> nat" where
  "digit_val c = of_char c - 48"

definition nat_of_digits :: "string \<Rightarrow> nat" where
  "nat_of_digits s = foldl (\<lambda>n c. 10 * n + digit_val c) 0 s"

text \<open>An exponent part: absent unless the letter is followed by digits, after an optional sign.\<close>

definition scan_exponent :: "string \<Rightarrow> int" where
  "scan_exponent s =
     (case s of
        [] \<Rightarrow> 0
      | c # rest \<Rightarrow>
          if c = CHR ''e'' \<or> c = CHR ''E''
          then let sgn = (if rest \<noteq> [] \<and> hd rest = CHR ''-'' then - 1 else 1);
                   body = (if rest \<noteq> [] \<and> (hd rest = CHR ''-'' \<or> hd rest = CHR ''+'') then tl rest else rest)
               in sgn * int (nat_of_digits (takeWhile is_digit body))
          else 0)"

datatype from_chars_result = InvalidArgument | OutOfRange | Parsed double

definition from_chars :: "string \<Rightarrow> from_chars_result" where
  "from_chars s =
     (let neg = (s \<noteq> [] \<and> hd s = CHR ''-''); body = (if neg then tl s else s);
          ip = takeWhile is_digit body; s1 = dropWhile is_digit body;
          fp = (if s1 \<noteq> [] \<and> hd s1 = CHR ''.'' then takeWhile is_digit (tl s1) else []);
          s2 = (if s1 \<noteq> [] \<and> hd s1 = CHR ''.'' then dropWhile is_digit (tl s1) else s1);
          m = nat_of_digits (ip @ fp)
      in if ip @ fp = [] then InvalidArgument
         else case round64 (of_nat m * pow10 (scan_exponent s2 - int (length fp))) of
                None \<Rightarrow> OutOfRange
              | Some q \<Rightarrow> if q = 0 \<and> m \<noteq> 0 then OutOfRange else Parsed (DFin neg q))"

section \<open>Writing\<close>

definition decimal_exponent :: "rat \<Rightarrow> int" where
  "decimal_exponent q =
     (let (a, b) = quotient_of q;
          d = int (length (string_of_nat (nat a))) - int (length (string_of_nat (nat b)))
      in if pow10 d \<le> q then d else d - 1)"

text \<open>A decimal \<open>m * 10 ^ k\<close>.\<close>

definition decimal_val :: "nat \<times> int \<Rightarrow> rat" where
  "decimal_val c = of_nat (fst c) * pow10 (snd c)"

definition reads_back :: "rat \<Rightarrow> nat \<times> int \<Rightarrow> bool" where
  "reads_back q c \<longleftrightarrow> 0 < fst c \<and> round64 (decimal_val c) = Some q"

text \<open>The decimals of \<open>n\<close> digits next to \<open>q\<close>, below and above.\<close>

definition nearby :: "rat \<Rightarrow> nat \<Rightarrow> (nat \<times> int) list" where
  "nearby q n =
     (let k = decimal_exponent q - int n + 1; lo = nat \<lfloor>q / pow10 k\<rfloor>
      in if 2 * (q - decimal_val (lo, k)) \<le> pow10 k then [(lo, k), (Suc lo, k)] else [(Suc lo, k), (lo, k)])"

text \<open>The exact expansion of a dyadic rational.\<close>

definition exact_decimal :: "rat \<Rightarrow> nat \<times> int" where
  "exact_decimal q =
     (let (a, b) = quotient_of q; s = bit_len (nat b) - 1 in (nat a * 5 ^ s, - int s))"

fun first_decimal :: "rat \<Rightarrow> nat \<Rightarrow> nat \<Rightarrow> nat \<times> int" where
  "first_decimal q n 0 = exact_decimal q"
| "first_decimal q n (Suc fuel) =
     (case find (reads_back q) (nearby q n) of Some c \<Rightarrow> c | None \<Rightarrow> first_decimal q (Suc n) fuel)"

definition shortest_decimal :: "rat \<Rightarrow> nat \<times> int" where
  "shortest_decimal q = first_decimal q 1 17"

fun strip_zeros :: "string \<Rightarrow> string" where
  "strip_zeros s = (if s \<noteq> [] \<and> last s = CHR ''0'' then strip_zeros (butlast s) else s)"

declare strip_zeros.simps [simp del]

definition exponent_text :: "int \<Rightarrow> string" where
  "exponent_text e =
     (if e < 0 then ''-'' else ''+'') @
     (if \<bar>e\<bar> < 10 then ''0'' else []) @ string_of_nat (nat \<bar>e\<bar>)"

definition scientific :: "bool \<Rightarrow> nat \<times> int \<Rightarrow> string" where
  "scientific neg c =
     (let all = string_of_nat (fst c); ds = strip_zeros all; e = snd c + int (length all) - 1
      in (if neg then ''-'' else []) @ [hd ds] @ (if tl ds = [] then [] else CHR ''.'' # tl ds) @
         ''e'' @ exponent_text e)"

text \<open>\<open>std::to_chars(..., std::chars_format::scientific)\<close> of a finite non-zero double.\<close>

fun to_chars :: "double \<Rightarrow> string" where
  "to_chars (DFin s q) = scientific s (shortest_decimal q)"
| "to_chars d = []"

end
