(* ===== verification/Json_Text.thy ===== *)
theory Json_Text
  imports Decimal
begin

text \<open>
  The JSON reader and writer (\<open>src/config/json.cpp\<close>, \<open>src/config/json_writer.hpp\<close>,
  \<open>src/config/json_writer.cpp\<close>).  The parser's position is the rest of the text.  The third-party
  writer that lays out the document is a parameter: a function from the calls the code makes to the
  text it produces.
\<close>

section \<open>Parser\<close>

definition parse_error :: "string \<Rightarrow> error" where
  "parse_error msg = ConfigError (''failed to parse config JSON: '' @ msg)"

definition is_space :: "char \<Rightarrow> bool" where
  "is_space c \<longleftrightarrow> (let n = of_char c :: nat in n = 32 \<or> 9 \<le> n \<and> n \<le> 13)"

definition skip_ws :: "string \<Rightarrow> string" where
  "skip_ws s = dropWhile is_space s"

definition expect :: "string \<Rightarrow> string \<Rightarrow> error + string" where
  "expect token s =
     (if take (length token) s = token then Inr (drop (length token) s)
      else Inl (parse_error (''expected '' @ token)))"

definition hex_val :: "char \<Rightarrow> nat option" where
  "hex_val c =
     (let n = of_char c in
      if 48 \<le> n \<and> n \<le> 57 then Some (n - 48)
      else if 97 \<le> n \<and> n \<le> 102 then Some (n - 97 + 10)
      else if 65 \<le> n \<and> n \<le> 70 then Some (n - 65 + 10) else None)"

fun hex_digits :: "nat \<Rightarrow> nat \<Rightarrow> string \<Rightarrow> (nat \<times> string) option" where
  "hex_digits 0 cp s = Some (cp, s)"
| "hex_digits (Suc k) cp [] = None"
| "hex_digits (Suc k) cp (c # s) =
     (case hex_val c of None \<Rightarrow> None | Some d \<Rightarrow> hex_digits k (16 * cp + d) s)"

definition utf8 :: "nat \<Rightarrow> string" where
  "utf8 cp =
     (if cp < 0x80 then [char_of cp]
      else if cp < 0x800 then [char_of (0xC0 + cp div 0x40), char_of (0x80 + cp mod 0x40)]
      else if cp < 0x10000 then
        [char_of (0xE0 + cp div 0x1000), char_of (0x80 + cp div 0x40 mod 0x40), char_of (0x80 + cp mod 0x40)]
      else
        [char_of (0xF0 + cp div 0x40000), char_of (0x80 + cp div 0x1000 mod 0x40),
         char_of (0x80 + cp div 0x40 mod 0x40), char_of (0x80 + cp mod 0x40)])"

text \<open>After \<open>\u\<close>: four hexadecimal digits, and a low surrogate after a high one.\<close>

definition parse_unicode :: "string \<Rightarrow> error + string \<times> string" where
  "parse_unicode s =
     (if length s < 4 then Inl (parse_error ''incomplete unicode escape'')
      else case hex_digits 4 0 s of
        None \<Rightarrow> Inl (parse_error ''invalid unicode escape'')
      | Some (cp, s) \<Rightarrow>
          if 0xD800 \<le> cp \<and> cp \<le> 0xDBFF
          then (if length s < 6 \<or> take 2 s \<noteq> [CHR 0x5C, CHR ''u'']
                then Inl (parse_error ''missing low surrogate'')
                else case hex_digits 4 0 (drop 2 s) of
                  None \<Rightarrow> Inl (parse_error ''invalid unicode escape'')
                | Some (lo, s) \<Rightarrow>
                    if lo < 0xDC00 \<or> 0xDFFF < lo then Inl (parse_error ''invalid low surrogate'')
                    else Inr (utf8 (0x10000 + (cp - 0xD800) * 0x400 + (lo - 0xDC00)), s))
          else Inr (utf8 cp, s))"

text \<open>After a backslash: the bytes the escape stands for.\<close>

fun parse_escape :: "string \<Rightarrow> error + string \<times> string" where
  "parse_escape [] = Inl (parse_error ''invalid escape'')"
| "parse_escape (esc # s) =
     (if esc = CHR 0x22 \<or> esc = CHR 0x5C \<or> esc = CHR ''/'' then Inr ([esc], s)
      else if esc = CHR ''b'' then Inr ([CHR 0x08], s)
      else if esc = CHR ''f'' then Inr ([CHR 0x0C], s)
      else if esc = CHR ''n'' then Inr ([CHR 0x0A], s)
      else if esc = CHR ''r'' then Inr ([CHR 0x0D], s)
      else if esc = CHR ''t'' then Inr ([CHR 0x09], s)
      else if esc = CHR ''u'' then parse_unicode s
      else Inl (parse_error ''unsupported escape''))"

lemma hex_digits_rest: "hex_digits k cp s = Some (n, t) \<Longrightarrow> length t \<le> length s"
  by (induction k cp s rule: hex_digits.induct) (auto split: option.splits)

lemma parse_unicode_rest: "parse_unicode s = Inr (bs, t) \<Longrightarrow> length t \<le> length s"
proof -
  assume a: "parse_unicode s = Inr (bs, t)"
  then obtain cp s1 where s1: "hex_digits 4 0 s = Some (cp, s1)"
    by (auto simp: parse_unicode_def split: if_splits option.splits)
  have "length t \<le> length s1"
    using a s1 hex_digits_rest [of 4 0 "drop 2 s1"]
    by (fastforce simp: parse_unicode_def split: if_splits option.splits)
  then show ?thesis using hex_digits_rest [OF s1] by simp
qed

lemma parse_escape_rest: "parse_escape s = Inr (bs, t) \<Longrightarrow> length t < length s"
  by (cases s) (auto split: if_splits dest: parse_unicode_rest)

function parse_chars :: "string \<Rightarrow> string \<Rightarrow> error + string \<times> string" where
  "parse_chars [] out = Inl (parse_error ''unterminated string'')"
| "parse_chars (ch # s) out =
     (if ch = CHR 0x22 then Inr (out, s)
      else if ch = CHR 0x5C
      then (case parse_escape s of Inl e \<Rightarrow> Inl e | Inr (bytes, t) \<Rightarrow> parse_chars t (out @ bytes))
      else parse_chars s (out @ [ch]))"
  by pat_completeness auto
termination
  by (relation "measure (\<lambda>(s, out). length s)") (auto dest: parse_escape_rest)

definition parse_string :: "string \<Rightarrow> error + string \<times> string" where
  "parse_string s =
     (if s \<noteq> [] \<and> hd s = CHR 0x22 then parse_chars (tl s) []
      else Inl (parse_error ''expected string''))"

text \<open>The extent of a number: sign, digits, fraction, exponent, each optional.\<close>

definition number_end :: "string \<Rightarrow> string" where
  "number_end s =
     (let s = (if s \<noteq> [] \<and> hd s = CHR ''-'' then tl s else s);
          s = dropWhile is_digit s;
          s = (if s \<noteq> [] \<and> hd s = CHR ''.'' then dropWhile is_digit (tl s) else s)
      in if s \<noteq> [] \<and> (hd s = CHR ''e'' \<or> hd s = CHR ''E'')
         then (let s = tl s; s = (if s \<noteq> [] \<and> (hd s = CHR ''+'' \<or> hd s = CHR ''-'') then tl s else s)
               in dropWhile is_digit s)
         else s)"

definition parse_number :: "string \<Rightarrow> error + double \<times> string" where
  "parse_number s =
     (let rest = number_end s
      in case from_chars (take (length s - length rest) s) of
           Parsed d \<Rightarrow> Inr (d, rest)
         | _ \<Rightarrow> Inl (parse_error ''invalid number''))"

text \<open>
  The recursive descent.  The first argument bounds the number of calls; \<open>None\<close> is its exhaustion,
  which a bound above twice the length of the text rules out.
\<close>

type_synonym 'a parsed = "(error + 'a \<times> string) option"

definition parse_then :: "'a parsed \<Rightarrow> ('a \<Rightarrow> string \<Rightarrow> 'b parsed) \<Rightarrow> 'b parsed" where
  "parse_then p f =
     (case p of None \<Rightarrow> None | Some (Inl e) \<Rightarrow> Some (Inl e) | Some (Inr (x, s)) \<Rightarrow> f x s)"

lemma parse_then_cong [fundef_cong]:
  "p = q \<Longrightarrow> (\<And>x s. q = Some (Inr (x, s)) \<Longrightarrow> f x s = g x s) \<Longrightarrow> parse_then p f = parse_then q g"
  by (auto simp: parse_then_def split: option.split sum.split)

fun parse_value :: "nat \<Rightarrow> string \<Rightarrow> variant parsed"
and parse_elements :: "nat \<Rightarrow> variant list \<Rightarrow> string \<Rightarrow> variant list parsed"
and parse_members :: "nat \<Rightarrow> object \<Rightarrow> string \<Rightarrow> object parsed" where
  "parse_value 0 s = None"
| "parse_value (Suc n) s =
     (case skip_ws s of
        [] \<Rightarrow> Some (Inl (parse_error ''unexpected end of input''))
      | ch # t \<Rightarrow>
          if ch = CHR ''{''
          then (let t = skip_ws t
                in if t \<noteq> [] \<and> hd t = CHR ''}'' then Some (Inr (VObj [], tl t))
                   else parse_then (parse_members n [] t) (\<lambda>ob r. Some (Inr (VObj ob, r))))
          else if ch = CHR ''[''
          then (let t = skip_ws t
                in if t \<noteq> [] \<and> hd t = CHR '']'' then Some (Inr (VArr [], tl t))
                   else parse_then (parse_elements n [] t) (\<lambda>xs r. Some (Inr (VArr xs, r))))
          else if ch = CHR 0x22
          then Some (case parse_string (ch # t) of Inl e \<Rightarrow> Inl e | Inr (str, r) \<Rightarrow> Inr (VStr str, r))
          else if ch = CHR ''t''
          then Some (case expect ''true'' (ch # t) of Inl e \<Rightarrow> Inl e | Inr r \<Rightarrow> Inr (VBool True, r))
          else if ch = CHR ''f''
          then Some (case expect ''false'' (ch # t) of Inl e \<Rightarrow> Inl e | Inr r \<Rightarrow> Inr (VBool False, r))
          else if ch = CHR ''n''
          then Some (case expect ''null'' (ch # t) of Inl e \<Rightarrow> Inl e | Inr r \<Rightarrow> Inr (VNull, r))
          else Some (case parse_number (ch # t) of Inl e \<Rightarrow> Inl e | Inr (d, r) \<Rightarrow> Inr (VNum d, r)))"
| "parse_elements 0 xs s = None"
| "parse_elements (Suc n) xs s =
     parse_then (parse_value n (skip_ws s)) (\<lambda>v s.
       let s = skip_ws s; xs = xs @ [v]
       in if s \<noteq> [] \<and> hd s = CHR '']'' then Some (Inr (xs, tl s))
          else if s \<noteq> [] \<and> hd s = CHR '','' then parse_elements n xs (tl s)
          else Some (Inl (parse_error (''expected '' @ [CHR 0x27, CHR '','', CHR 0x27]))))"
| "parse_members 0 ob s = None"
| "parse_members (Suc n) ob s =
     (case parse_string (skip_ws s) of
        Inl e \<Rightarrow> Some (Inl e)
      | Inr (key, s) \<Rightarrow>
          let s = skip_ws s
          in if \<not> (s \<noteq> [] \<and> hd s = CHR '':'')
             then Some (Inl (parse_error (''expected '' @ [CHR 0x27, CHR '':'', CHR 0x27])))
             else parse_then (parse_value n (skip_ws (tl s))) (\<lambda>v s.
               let s = skip_ws s; ob = fst (fm_emplace key v ob)
               in if s \<noteq> [] \<and> hd s = CHR ''}'' then Some (Inr (ob, tl s))
                  else if s \<noteq> [] \<and> hd s = CHR '','' then parse_members n ob (tl s)
                  else Some (Inl (parse_error (''expected '' @ [CHR 0x27, CHR '','', CHR 0x27])))))"

definition parse_fuel :: "string \<Rightarrow> nat" where
  "parse_fuel s = 2 * length s + 2"

definition parse_json :: "string \<Rightarrow> (error + variant) option" where
  "parse_json text =
     (case parse_value (parse_fuel text) (skip_ws text) of
        None \<Rightarrow> None
      | Some (Inl e) \<Rightarrow> Some (Inl e)
      | Some (Inr (v, s)) \<Rightarrow>
          Some (if skip_ws s = [] then Inr v else Inl (parse_error ''trailing characters'')))"

section \<open>Numbers\<close>

record decimal_parts =
  dp_negative :: bool
  dp_digits :: string
  dp_exp10 :: int

text \<open>\<open>e = e * 10 + (s[i] - '0')\<close> over the rest of the text.\<close>

definition exponent_value :: "string \<Rightarrow> int" where
  "exponent_value s = foldl (\<lambda>e c. e * 10 + (int (of_char c) - 48)) 0 s"

definition signed_exponent :: "string \<Rightarrow> int" where
  "signed_exponent s =
     (if s \<noteq> [] \<and> (hd s = CHR ''-'' \<or> hd s = CHR ''+'')
      then (if hd s = CHR ''-'' then - 1 else 1) * exponent_value (tl s) else exponent_value s)"

text \<open>The mantissa digits read so far, the position of the point, and the explicit exponent.\<close>

fun scan_decimal :: "string \<Rightarrow> string \<Rightarrow> nat option \<Rightarrow> string \<times> nat option \<times> int" where
  "scan_decimal [] mantissa point = (mantissa, point, 0)"
| "scan_decimal (c # s) mantissa point =
     (if c = CHR ''.'' then scan_decimal s mantissa (Some (length mantissa))
      else if c = CHR ''e'' \<or> c = CHR ''E'' then (mantissa, point, signed_exponent s)
      else scan_decimal s (mantissa @ [c]) point)"

definition go_json_decompose :: "string \<Rightarrow> decimal_parts" where
  "go_json_decompose s =
     (let signed = s \<noteq> [] \<and> (hd s = CHR ''-'' \<or> hd s = CHR ''+'');
          (mantissa, point, e) = scan_decimal (if signed then tl s else s) [] None;
          point_pos = (case point of Some p \<Rightarrow> p | None \<Rightarrow> length mantissa);
          lead = length (takeWhile (\<lambda>c. c = CHR ''0'') mantissa)
      in \<lparr>dp_negative = signed \<and> hd s = CHR ''-'', dp_digits = strip_zeros (drop lead mantissa),
          dp_exp10 = e + int point_pos - int lead\<rparr>)"

definition go_json_to_fixed :: "string \<Rightarrow> string" where
  "go_json_to_fixed shortest =
     (let p = go_json_decompose shortest; ds = dp_digits p; nd = int (length ds); e = dp_exp10 p
      in if ds = [] then (if dp_negative p then ''-0'' else ''0'')
         else (if dp_negative p then ''-'' else []) @
           (if e \<le> 0 then ''0.'' @ replicate (nat (- e)) CHR ''0'' @ ds
            else if e \<ge> nd then ds @ replicate (nat (e - nd)) CHR ''0''
            else take (nat e) ds @ ''.'' @ drop (nat e) ds))"

definition go_json_to_scientific :: "string \<Rightarrow> string" where
  "go_json_to_scientific shortest =
     (let p = go_json_decompose shortest; ds = dp_digits p
      in if ds = [] then (if dp_negative p then ''-0'' else ''0'')
         else let e = dp_exp10 p - 1
              in (if dp_negative p then ''-'' else []) @ [hd ds] @
                 (if length ds > 1 then CHR ''.'' # tl ds else []) @
                 ''e'' @ (if e < 0 then ''-'' else ''+'') @ string_of_int (if e < 0 then - e else e))"

text \<open>The literal \<open>1e-6\<close>, a double slightly below one millionth.\<close>

definition lit_1e_minus_6 :: rat where
  "lit_1e_minus_6 = 4722366482869645 / 2 ^ 72"

fun go_format_json_number :: "double \<Rightarrow> string" where
  "go_format_json_number DNaN = ''nan''"
| "go_format_json_number (DInf s) = (if s then ''-inf'' else ''inf'')"
| "go_format_json_number (DFin s q) =
     (if q = 0 then (if s then ''-0'' else ''0'')
      else if q < lit_1e_minus_6 \<or> 10 ^ 21 \<le> q then go_json_to_scientific (to_chars (DFin s q))
      else go_json_to_fixed (to_chars (DFin s q)))"

section \<open>Writer\<close>

definition hex_char :: "nat \<Rightarrow> char" where
  "hex_char n = (if n < 10 then char_of (48 + n) else char_of (87 + n))"

definition u_escape :: "string \<Rightarrow> string" where
  "u_escape digits = CHR 0x5C # CHR ''u'' # digits"

definition escape_byte :: "char \<Rightarrow> string" where
  "escape_byte ch =
     (if ch = CHR 0x22 then [CHR 0x5C, CHR 0x22]
      else if ch = CHR 0x5C then [CHR 0x5C, CHR 0x5C]
      else if ch = CHR 0x0A then [CHR 0x5C, CHR ''n'']
      else if ch = CHR 0x0D then [CHR 0x5C, CHR ''r'']
      else if ch = CHR 0x09 then [CHR 0x5C, CHR ''t'']
      else if ch = CHR 0x08 then [CHR 0x5C, CHR ''b'']
      else if ch = CHR 0x0C then [CHR 0x5C, CHR ''f'']
      else if ch = CHR ''<'' then u_escape ''003c''
      else if ch = CHR ''>'' then u_escape ''003e''
      else if ch = CHR ''&'' then u_escape ''0026''
      else let n = of_char ch :: nat
           in if n < 0x20 then u_escape (''00'' @ [hex_char (n div 16), hex_char (n mod 16)]) else [ch])"

text \<open>U+2028 and U+2029 are escaped too; their UTF-8 bytes are E2 80 A8 and E2 80 A9.\<close>

fun go_escaped :: "string \<Rightarrow> string" where
  "go_escaped [] = []"
| "go_escaped (a # b # c # s) =
     (if a = CHR 0xE2 \<and> b = CHR 0x80 \<and> (c = CHR 0xA8 \<or> c = CHR 0xA9)
      then u_escape (if c = CHR 0xA8 then ''2028'' else ''2029'') @ go_escaped s
      else escape_byte a @ go_escaped (b # c # s))"
| "go_escaped (a # s) = escape_byte a @ go_escaped s"

definition write_go_string :: "string \<Rightarrow> string" where
  "write_go_string s = CHR 0x22 # go_escaped s @ [CHR 0x22]"

text \<open>The calls made on the third-party writer.\<close>

datatype writer_call = WNull | WBool bool | WRaw string | WStartArray | WEndArray | WStartObject | WEndObject

fun write_json_value :: "variant \<Rightarrow> writer_call list" where
  "write_json_value VNull = [WNull]"
| "write_json_value (VBool b) = [WBool b]"
| "write_json_value (VNum d) = [WRaw (go_format_json_number d)]"
| "write_json_value (VStr s) = [WRaw (write_go_string s)]"
| "write_json_value (VArr xs) = WStartArray # concat (map write_json_value xs) @ [WEndArray]"
| "write_json_value (VObj kvs) =
     WStartObject #
       concat (map (\<lambda>kv. WRaw (write_go_string (fst kv)) # snd kv)
         (sort_key fst (map (\<lambda>kv. (fst kv, write_json_value (snd kv))) kvs))) @
     [WEndObject]"

text \<open>
  \<open>rj\<close> and \<open>rj_pretty\<close> are the third-party writers; \<open>rj_pretty\<close> takes the indentation width.
\<close>

definition dump_json ::
  "(writer_call list \<Rightarrow> string) \<Rightarrow> (nat \<Rightarrow> writer_call list \<Rightarrow> string) \<Rightarrow> variant \<Rightarrow> nat \<Rightarrow> string" where
  "dump_json rj rj_pretty v indent =
     (if indent = 0 then rj (write_json_value v)
      else rj_pretty indent (write_json_value v) @ [CHR 0x0A])"

definition result_common_to_json :: "(writer_call list \<Rightarrow> string) \<Rightarrow> object \<Rightarrow> string" where
  "result_common_to_json rj common = rj (write_json_value (VObj common))"

definition result_items_to_json :: "(writer_call list \<Rightarrow> string) \<Rightarrow> object list \<Rightarrow> string" where
  "result_items_to_json rj items = rj (write_json_value (VArr (map VObj items)))"

end
