(* ===== verification/Json_Laws.thy ===== *)
theory Json_Laws
  imports Json_Text "HOL-Library.Sublist"
begin

text \<open>Laws of the parser: strings are read back as they were written, every success consumes text,
  the fuel is enough, and more fuel changes nothing.\<close>

section \<open>Strings\<close>

lemma hex_val_char: "d < 16 \<Longrightarrow> hex_val (hex_char d) = Some d"
  by (auto simp: hex_val_def hex_char_def)

lemma parse_unicode_plain:
  assumes "hex_val a = Some i" "hex_val b = Some j" "hex_val c = Some k" "hex_val d = Some l"
    and "cp = 16 * (16 * (16 * i + j) + k) + l" "cp < 0xD800"
  shows "parse_unicode (a # b # c # d # t) = Inr (utf8 cp, t)"
proof -
  have "hex_digits 4 0 (a # b # c # d # t) = Some (cp, t)"
    using assms(1-5) by (simp add: eval_nat_numeral)
  then show ?thesis using assms(6) by (simp add: parse_unicode_def)
qed

lemma hex_vals:
  "hex_val CHR ''0'' = Some 0" "hex_val CHR ''2'' = Some 2" "hex_val CHR ''3'' = Some 3"
  "hex_val CHR ''6'' = Some 6" "hex_val CHR ''8'' = Some 8" "hex_val CHR ''9'' = Some 9"
  "hex_val CHR ''c'' = Some 12" "hex_val CHR ''e'' = Some 14"
  by (simp_all add: hex_val_def)

lemma parse_escape_control:
  assumes "n < 32"
  shows "parse_escape (CHR ''u'' # ''00'' @ [hex_char (n div 16), hex_char (n mod 16)] @ t) = Inr ([char_of n], t)"
proof -
  have "n div 16 < 16" "n mod 16 < 16" "n = 16 * (16 * (16 * 0 + 0) + n div 16) + n mod 16" "n < 0xD800"
    using assms by simp_all
  note plain = parse_unicode_plain [OF hex_vals(1) hex_vals(1) hex_val_char hex_val_char, OF this, of t]
  then have "parse_unicode (CHR ''0'' # CHR ''0'' # hex_char (n div 16) # hex_char (n mod 16) # t) = Inr (utf8 n, t)"
    by simp
  then show ?thesis using assms by (simp add: utf8_def)
qed

lemma parse_escape_byte: "parse_chars (escape_byte ch @ t) out = parse_chars t (out @ [ch])"
proof -
  let ?html = "{CHR ''<'', CHR ''>'', CHR ''&''}"
  let ?short = "{CHR 0x22, CHR 0x5C, CHR 0x0A, CHR 0x0D, CHR 0x09, CHR 0x08, CHR 0x0C}"
  consider "ch \<in> ?html" | "ch \<in> ?short" | "ch \<notin> ?short" "ch \<notin> ?html" by metis
  then show ?thesis
  proof cases
    case 1
    have "parse_unicode (''003c'' @ t) = Inr (utf8 60, t)"
      using parse_unicode_plain [OF hex_vals(1) hex_vals(1) hex_vals(3) hex_vals(7), of 60 t] by simp
    moreover have "parse_unicode (''003e'' @ t) = Inr (utf8 62, t)"
      using parse_unicode_plain [OF hex_vals(1) hex_vals(1) hex_vals(3) hex_vals(8), of 62 t] by simp
    moreover have "parse_unicode (''0026'' @ t) = Inr (utf8 38, t)"
      using parse_unicode_plain [OF hex_vals(1) hex_vals(1) hex_vals(2) hex_vals(4), of 38 t] by simp
    moreover have "utf8 60 = ''<''" "utf8 62 = ''>''" "utf8 38 = ''&''"
      by (simp_all add: utf8_def char_of_eq_iff)
    ultimately show ?thesis using 1 by (auto simp: escape_byte_def u_escape_def)
  next
    case 2
    then show ?thesis by (auto simp: escape_byte_def)
  next
    case 3
    then show ?thesis
      using parse_escape_control [of "of_char ch" t] by (simp add: escape_byte_def u_escape_def Let_def)
  qed
qed

lemma utf8_separators:
  "utf8 0x2028 = [CHR 0xE2, CHR 0x80, CHR 0xA8]" "utf8 0x2029 = [CHR 0xE2, CHR 0x80, CHR 0xA9]"
  by (simp_all add: utf8_def char_of_eq_iff)

lemma parse_separator:
  "parse_chars (u_escape ''2028'' @ t) out = parse_chars t (out @ [CHR 0xE2, CHR 0x80, CHR 0xA8])"
  "parse_chars (u_escape ''2029'' @ t) out = parse_chars t (out @ [CHR 0xE2, CHR 0x80, CHR 0xA9])"
proof -
  have "parse_unicode (''2028'' @ t) = Inr (utf8 0x2028, t)"
    using parse_unicode_plain [OF hex_vals(2) hex_vals(1) hex_vals(2) hex_vals(5), of "0x2028" t] by simp
  moreover have "parse_unicode (''2029'' @ t) = Inr (utf8 0x2029, t)"
    using parse_unicode_plain [OF hex_vals(2) hex_vals(1) hex_vals(2) hex_vals(6), of "0x2029" t] by simp
  ultimately show
    "parse_chars (u_escape ''2028'' @ t) out = parse_chars t (out @ [CHR 0xE2, CHR 0x80, CHR 0xA8])"
    "parse_chars (u_escape ''2029'' @ t) out = parse_chars t (out @ [CHR 0xE2, CHR 0x80, CHR 0xA9])"
    by (simp_all add: u_escape_def utf8_separators)
qed

text \<open>Every byte string is read back as it was written.\<close>

lemma parse_go_escaped: "parse_chars (go_escaped s @ CHR 0x22 # rest) out = Inr (out @ s, rest)"
proof (induction s arbitrary: out rule: go_escaped.induct)
  case (2 a b c s)
  show ?case
  proof (cases "a = CHR 0xE2 \<and> b = CHR 0x80 \<and> (c = CHR 0xA8 \<or> c = CHR 0xA9)")
    case True
    then show ?thesis using 2(1) by (auto simp: parse_separator)
  next
    case False
    then have "go_escaped (a # b # c # s) = escape_byte a @ go_escaped (b # c # s)" by (simp only: go_escaped.simps if_False)
    then show ?thesis using 2(2) [OF False] by (simp add: parse_escape_byte)
  qed
qed (simp_all add: parse_escape_byte)

lemma parse_write_string: "parse_string (write_go_string s @ rest) = Inr (s, rest)"
  by (simp add: parse_string_def write_go_string_def parse_go_escaped)

section \<open>What is left of the text\<close>

lemma skip_ws_rest: "length (skip_ws s) \<le> length s"
  by (simp add: skip_ws_def length_dropWhile_le)

lemma parse_chars_rest: "parse_chars s out = Inr (str, t) \<Longrightarrow> length t < length s"
  by (induction s out rule: parse_chars.induct)
    (fastforce split: if_splits sum.splits dest: parse_escape_rest)+

lemma parse_string_rest: "parse_string s = Inr (str, t) \<Longrightarrow> length t < length s"
  by (cases s) (auto simp: parse_string_def split: if_splits dest: parse_chars_rest)

lemma expect_rest: "expect token s = Inr t \<Longrightarrow> token \<noteq> [] \<Longrightarrow> length t < length s"
  by (cases s) (auto simp: expect_def split: if_splits)

lemma dropWhile_rest [simp]: "length (dropWhile p s) \<le> length s"
  by (rule length_dropWhile_le)

lemma suffix_parts:
  "suffix t s \<Longrightarrow> suffix (tl t) s" "suffix t s \<Longrightarrow> suffix (dropWhile p t) s"
  "suffix t s \<Longrightarrow> suffix u s \<Longrightarrow> suffix (if b then t else u) s"
  by (cases t; fastforce simp: suffix_ConsD) (auto intro: suffix_order.order_trans suffix_dropWhile)

lemma number_end_suffix: "suffix (number_end s) s"
  unfolding number_end_def Let_def by (intro suffix_parts suffix_order.order_refl)

lemma number_end_rest: "length (number_end s) \<le> length s"
  by (rule suffix_length_le [OF number_end_suffix])

lemma parse_number_rest:
  assumes "parse_number s = Inr (d, t)"
  shows "length t < length s"
proof (rule ccontr)
  assume "\<not> length t < length s"
  then have "from_chars [] = Parsed d"
    using assms by (auto simp: parse_number_def Let_def split: from_chars_result.splits)
  then show False by (simp add: from_chars_def)
qed

section \<open>Fuel\<close>

lemma parse_then_Some:
  "parse_then p f = Some (Inr z) \<longleftrightarrow> (\<exists>x s. p = Some (Inr (x, s)) \<and> f x s = Some (Inr z))"
  by (auto simp: parse_then_def split: option.splits sum.splits)

lemma parse_then_None:
  "parse_then p f = None \<longleftrightarrow> p = None \<or> (\<exists>x s. p = Some (Inr (x, s)) \<and> f x s = None)"
  by (auto simp: parse_then_def split: option.splits sum.splits)

lemma parse_then_mono:
  assumes "parse_then p f = Some r" "\<And>q. p = Some q \<Longrightarrow> p' = Some q"
    and "\<And>x s q. p = Some (Inr (x, s)) \<Longrightarrow> f x s = Some q \<Longrightarrow> f' x s = Some q"
  shows "parse_then p' f' = Some r"
  using assms by (fastforce simp: parse_then_def split: option.splits sum.splits)

text \<open>The three parsers step by step, in the form the inductions below use.\<close>

lemma skip_ws_Cons: "skip_ws s = c # t \<Longrightarrow> length t < length s"
  using skip_ws_rest [of s] by simp

lemma tl_rest: "t \<noteq> [] \<Longrightarrow> length (tl t) < length t"
  by (cases t) simp_all

lemma parse_rest:
  "parse_value n s = Some (Inr (v, t)) \<Longrightarrow> length t < length s"
  "parse_elements n xs s = Some (Inr (ys, t)) \<Longrightarrow> length t < length s"
  "parse_members n ob s = Some (Inr (ob', t)) \<Longrightarrow> length t < length s"
proof (induction n arbitrary: s v t xs ys ob ob')
  case (Suc n)
  {
    case 1
    show ?case
    proof (cases "skip_ws s")
      case (Cons c u)
      have "length u < length s" "length (skip_ws u) < length s" "length (tl (skip_ws u)) < length s"
        using skip_ws_Cons [OF Cons] skip_ws_rest [of u] by simp_all
      then show ?thesis
        using 1 Suc.IH(2,3) [of _ "skip_ws u"] Cons
        by (fastforce simp: Let_def parse_then_Some split: if_splits sum.splits
            dest: parse_string_rest parse_number_rest expect_rest)
    qed (use 1 in simp)
  next
    case 2
    then obtain w s1 where w: "parse_value n (skip_ws s) = Some (Inr (w, s1))"
      by (auto simp: parse_then_Some)
    have "length (skip_ws s1) < length s" "length (tl (skip_ws s1)) < length s"
      using Suc.IH(1) [OF w] skip_ws_rest [of s] skip_ws_rest [of s1] by simp_all
    then show ?case using 2 Suc.IH(2) [of _ "tl (skip_ws s1)"]
      by (fastforce simp: w parse_then_def Let_def split: if_splits)
  next
    case 3
    then obtain key s1 w s2 where k: "parse_string (skip_ws s) = Inr (key, s1)"
      and w: "parse_value n (skip_ws (tl (skip_ws s1))) = Some (Inr (w, s2))"
      by (auto simp: parse_then_Some Let_def split: sum.splits if_splits)
    have "length (skip_ws s2) < length s" "length (tl (skip_ws s2)) < length s"
      using Suc.IH(1) [OF w] parse_string_rest [OF k] skip_ws_rest [of s] skip_ws_rest [of s1]
        skip_ws_rest [of s2] skip_ws_rest [of "tl (skip_ws s1)"] by simp_all
    then show ?case using 3 Suc.IH(3) [of _ "tl (skip_ws s2)"]
      by (fastforce simp: k w parse_then_def Let_def split: if_splits)
  }
qed simp_all

lemma parse_value_object:
  "skip_ws s = CHR ''{'' # u \<Longrightarrow> parse_value (Suc n) s =
     (if skip_ws u \<noteq> [] \<and> hd (skip_ws u) = CHR ''}'' then Some (Inr (VObj [], tl (skip_ws u)))
      else parse_then (parse_members n [] (skip_ws u)) (\<lambda>ob r. Some (Inr (VObj ob, r))))"
  by (simp add: Let_def)

lemma parse_value_array:
  "skip_ws s = CHR ''['' # u \<Longrightarrow> parse_value (Suc n) s =
     (if skip_ws u \<noteq> [] \<and> hd (skip_ws u) = CHR '']'' then Some (Inr (VArr [], tl (skip_ws u)))
      else parse_then (parse_elements n [] (skip_ws u)) (\<lambda>xs r. Some (Inr (VArr xs, r))))"
  by (simp add: Let_def)

lemma parse_value_cases:
  obtains (object) u where "skip_ws s = CHR ''{'' # u"
    | (array) u where "skip_ws s = CHR ''['' # u"
    | (scalar) r where "\<And>n. parse_value (Suc n) s = Some r"
proof (cases "skip_ws s")
  case Nil
  then show ?thesis by (intro scalar) simp
next
  case (Cons c u)
  then show ?thesis using object array scalar [of "the (parse_value (Suc 0) s)"]
    by (cases "c = CHR ''{''"; cases "c = CHR ''[''") simp_all
qed

text \<open>More fuel does not change an answer.\<close>

lemma parse_mono:
  "parse_value n s = Some r \<Longrightarrow> n \<le> m \<Longrightarrow> parse_value m s = Some r"
  "parse_elements n xs s = Some r' \<Longrightarrow> n \<le> m \<Longrightarrow> parse_elements m xs s = Some r'"
  "parse_members n ob s = Some r'' \<Longrightarrow> n \<le> m \<Longrightarrow> parse_members m ob s = Some r''"
proof (induction n arbitrary: m s xs ob r r' r'')
  case (Suc n)
  {
    case 1
    then obtain k where m: "m = Suc k" "n \<le> k" by (cases m) auto
    show ?case
    proof (cases s rule: parse_value_cases)
      case (object u)
      then show ?thesis using 1(1) unfolding m(1) parse_value_object [OF object]
        by (auto split: if_splits elim!: parse_then_mono intro: Suc.IH(3) [OF _ m(2)])
    next
      case (array u)
      then show ?thesis using 1(1) unfolding m(1) parse_value_array [OF array]
        by (auto split: if_splits elim!: parse_then_mono intro: Suc.IH(2) [OF _ m(2)])
    next
      case (scalar r')
      then show ?thesis using 1(1) unfolding m(1) by simp
    qed
  next
    case 2
    then obtain k where m: "m = Suc k" "n \<le> k" by (cases m) auto
    show ?case
      using 2(1) unfolding m(1) parse_elements.simps
      by (rule parse_then_mono) (auto simp: Let_def split: if_splits intro: Suc.IH(1,2) [OF _ m(2)])
  next
    case 3
    then obtain k where m: "m = Suc k" "n \<le> k" by (cases m) auto
    have step: "parse_then (parse_value n u) (\<lambda>v s. let s = skip_ws s; ob = fst (fm_emplace key v ob)
               in if s \<noteq> [] \<and> hd s = CHR ''}'' then Some (Inr (ob, tl s))
                  else if s \<noteq> [] \<and> hd s = CHR '','' then parse_members n ob (tl s)
                  else Some (Inl (parse_error (''expected '' @ [CHR 0x27, CHR '','', CHR 0x27])))) = Some r'' \<Longrightarrow>
      parse_then (parse_value k u) (\<lambda>v s. let s = skip_ws s; ob = fst (fm_emplace key v ob)
               in if s \<noteq> [] \<and> hd s = CHR ''}'' then Some (Inr (ob, tl s))
                  else if s \<noteq> [] \<and> hd s = CHR '','' then parse_members k ob (tl s)
                  else Some (Inl (parse_error (''expected '' @ [CHR 0x27, CHR '','', CHR 0x27])))) = Some r''" for u key
      by (erule parse_then_mono) (auto simp: Let_def split: if_splits intro: Suc.IH(1,3) [OF _ m(2)])
    show ?case using 3(1) unfolding m(1)
      by (auto simp: Let_def split: sum.splits if_splits dest!: step [unfolded Let_def])
  }
qed simp_all

lemma parse_enough:
  "2 * length s < n \<Longrightarrow> parse_value n s \<noteq> None"
  "2 * length s + 1 < n \<Longrightarrow> parse_elements n xs s \<noteq> None"
  "2 * length s + 1 < n \<Longrightarrow> parse_members n ob s \<noteq> None"
proof (induction n arbitrary: s xs ob)
  case (Suc n)
  {
    case 1
    have inner: "2 * length (skip_ws u) + 1 < n" if "skip_ws s = c # u" for c u
      using skip_ws_Cons [OF that] skip_ws_rest [of u] 1 by simp
    show ?case
    proof (cases s rule: parse_value_cases)
      case (object u)
      then show ?thesis unfolding parse_value_object [OF object]
        using Suc.IH(3) [OF inner [OF object], of "[]"] by (simp add: parse_then_None del: not_None_eq)
    next
      case (array u)
      then show ?thesis unfolding parse_value_array [OF array]
        using Suc.IH(2) [OF inner [OF array], of "[]"] by (simp add: parse_then_None del: not_None_eq)
    qed simp
  next
    case 2
    have v: "parse_value n (skip_ws s) \<noteq> None" using Suc.IH(1) 2 skip_ws_rest [of s] by simp
    have "parse_elements n ys (tl (skip_ws s1)) \<noteq> None"
      if "parse_value n (skip_ws s) = Some (Inr (w, s1))" "skip_ws s1 \<noteq> []" for w s1 ys
      using parse_rest(1) [OF that(1)] skip_ws_rest [of s] skip_ws_rest [of s1] 2
        tl_rest [OF that(2)] by (intro Suc.IH(2)) linarith
    then show ?case using v by (auto simp: parse_then_None Let_def)
  next
    case 3
    show ?case
    proof (cases "parse_string (skip_ws s)")
      case (Inr ks)
      obtain key s1 where ks: "ks = (key, s1)" by (cases ks)
      let ?u = "skip_ws (tl (skip_ws s1))"
      have l: "length ?u < length s"
        using parse_string_rest [OF Inr [unfolded ks]] skip_ws_rest [of s] skip_ws_rest [of s1]
          skip_ws_rest [of "tl (skip_ws s1)"] by simp
      have v: "parse_value n ?u \<noteq> None" using Suc.IH(1) [of ?u] l 3 by simp
      have "parse_members n ob' (tl (skip_ws s2)) \<noteq> None"
        if "parse_value n ?u = Some (Inr (w, s2))" for w s2 ob'
        using parse_rest(1) [OF that] skip_ws_rest [of s2] l 3 by (intro Suc.IH(3)) simp
      then show ?thesis using v by (simp add: Inr ks parse_then_None Let_def del: not_None_eq)
    qed simp
  }
qed simp_all

end
