(* ===== verification/Decimal_Laws.thy ===== *)
theory Decimal_Laws
  imports Decimal
begin

text \<open>
  Laws of the decimal texts: digits and their value, powers of ten, the fact that the shortest
  decimal of a double reads back as that double, and that what was rounded once is a double.
\<close>

section \<open>Digits\<close>

lemma of_char_digit: "d < 10 \<Longrightarrow> (of_char (char_of (48 + d :: nat) :: char) :: nat) = 48 + d"
  by (simp add: of_char_of take_bit_eq_mod)

lemma is_digit_char: "d < (10 :: nat) \<Longrightarrow> is_digit (char_of (48 + d))"
  by (simp add: is_digit_def of_char_digit)

lemma digit_val_char: "d < 10 \<Longrightarrow> digit_val (char_of (48 + d)) = d"
  by (simp add: digit_val_def of_char_digit)

lemma nat_of_digits_from:
  "foldl (\<lambda>n c. 10 * n + digit_val c) a s = a * 10 ^ length s + nat_of_digits s"
proof (induction s arbitrary: a)
  case (Cons c s)
  have "nat_of_digits (c # s) = foldl (\<lambda>n c. 10 * n + digit_val c) (digit_val c) s"
    by (simp add: nat_of_digits_def)
  also have "\<dots> = digit_val c * 10 ^ length s + nat_of_digits s" by (rule Cons)
  finally show ?case using Cons [of "10 * a + digit_val c"] by (simp add: algebra_simps)
qed (simp add: nat_of_digits_def)

lemma nat_of_digits_append: "nat_of_digits (s @ t) = nat_of_digits s * 10 ^ length t + nat_of_digits t"
proof -
  have "nat_of_digits (s @ t) = foldl (\<lambda>n c. 10 * n + digit_val c) (nat_of_digits s) t"
    by (simp add: nat_of_digits_def)
  then show ?thesis by (simp only: nat_of_digits_from)
qed

lemma nat_of_digits_simps [simp]:
  "nat_of_digits [] = 0"
  "nat_of_digits (c # s) = digit_val c * 10 ^ length s + nat_of_digits s"
  using nat_of_digits_append [of "[c]" s] by (simp_all add: nat_of_digits_def)

lemma nat_of_digits_zeros [simp]: "nat_of_digits (replicate k CHR ''0'') = 0"
  by (induction k) (simp_all add: digit_val_def)

lemma digits_of_nat_laws:
  "list_all is_digit (digits_of_nat n) \<and> digits_of_nat n \<noteq> [] \<and> nat_of_digits (digits_of_nat n) = n"
proof (induction n rule: digits_of_nat.induct)
  case (1 n)
  then show ?case
    by (subst (1 2 3) digits_of_nat.simps)
      (auto simp: is_digit_char digit_val_char nat_of_digits_append)
qed

lemma string_of_nat_laws [simp]:
  "list_all is_digit (string_of_nat n)" "string_of_nat n \<noteq> []" "nat_of_digits (string_of_nat n) = n"
  using digits_of_nat_laws by (simp_all add: string_of_nat_def)

lemma hd_digits_of_nat: "0 < n \<Longrightarrow> hd (digits_of_nat n) \<noteq> CHR ''0''"
proof (induction n rule: digits_of_nat.induct)
  case (1 n)
  show ?case
  proof (cases "n < 10")
    case True
    have "digit_val (char_of (48 + n)) \<noteq> digit_val CHR ''0''"
      using True 1(2) by (simp add: digit_val_char) (simp add: digit_val_def)
    then show ?thesis using True by (subst digits_of_nat.simps) auto
  next
    case False
    then have "hd (digits_of_nat (n div 10)) \<noteq> CHR ''0''" using 1(1) by simp
    then show ?thesis using False digits_of_nat_laws [of "n div 10"]
      by (subst digits_of_nat.simps) simp
  qed
qed

lemma hd_string_of_nat: "0 < n \<Longrightarrow> hd (string_of_nat n) \<noteq> CHR ''0''"
  by (simp add: string_of_nat_def hd_digits_of_nat)

lemma strip_zeros_append:
  "\<exists>z. s = strip_zeros s @ replicate z CHR ''0'' \<and> (strip_zeros s \<noteq> [] \<longrightarrow> last (strip_zeros s) \<noteq> CHR ''0'')"
proof (induction s rule: strip_zeros.induct)
  case (1 s)
  show ?case
  proof (cases "s \<noteq> [] \<and> last s = CHR ''0''")
    case True
    then obtain z where z: "butlast s = strip_zeros (butlast s) @ replicate z CHR ''0''"
      "strip_zeros (butlast s) \<noteq> [] \<longrightarrow> last (strip_zeros (butlast s)) \<noteq> CHR ''0''"
      using 1 by blast
    have "s = butlast s @ [CHR ''0'']" using True append_butlast_last_id [of s] by simp
    then have "s = strip_zeros (butlast s) @ replicate (Suc z) CHR ''0''"
      using z(1) by (metis append.assoc replicate_append_same replicate_Suc)
    moreover have "strip_zeros s = strip_zeros (butlast s)" using True by (simp add: strip_zeros.simps [of s])
    ultimately show ?thesis using z(2) by metis
  next
    case False
    then have "strip_zeros s = s" by (subst strip_zeros.simps) (rule if_not_P)
    then show ?thesis using False by (auto intro: exI [of _ 0])
  qed
qed

section \<open>Powers\<close>

lemma pow10_add: "pow10 (a + b) = pow10 a * pow10 b"
proof -
  have "pow10 k = 10 powi k" for k by (simp add: pow10_def power_int_def power_one_over inverse_eq_divide)
  then show ?thesis by (simp add: power_int_add)
qed

lemma pow10_nat: "pow10 (int n) = 10 ^ n" "pow10 (- int n) = 1 / 10 ^ n"
  by (auto simp: pow10_def)

lemma pow10_pos: "0 < pow10 k"
  by (simp add: pow10_def)

text \<open>Trailing zeros of a mantissa move into the exponent.\<close>

lemma decimal_val_zeros:
  "of_nat (nat_of_digits (s @ replicate z CHR ''0'')) * pow10 k = of_nat (nat_of_digits s) * pow10 (k + int z)"
  by (simp add: nat_of_digits_append pow10_add pow10_nat)

section \<open>The shortest decimal\<close>

lemma dvd_pow2: "b dvd 2 ^ n \<Longrightarrow> \<exists>j. b = 2 ^ j" for b :: nat
proof (induction n arbitrary: b)
  case (Suc n)
  show ?case
  proof (cases "even b")
    case True
    then obtain c where c: "b = 2 * c" by blast
    with Suc.prems have "c dvd 2 ^ n" by simp
    then show ?thesis using Suc.IH c by (metis power_Suc)
  next
    case False
    then have "coprime b (2 ^ Suc n)" by simp
    then show ?thesis using Suc.prems by (metis coprime_absorb_left is_unit_power_iff nat_dvd_1_iff_1 power_0)
  qed
qed (auto intro: exI [of _ 0])

lemma bit_len_pow2: "bit_len (2 ^ j) = Suc j"
  by (induction j) (simp_all add: bit_len.simps)

text \<open>A rational that is an integer multiple of a power of two has a power of two as denominator.\<close>

lemma dyadic_quotient:
  assumes "q = of_int m * pow2 k"
  obtains a j where "quotient_of q = (a, 2 ^ j)"
proof -
  obtain a b where q: "quotient_of q = (a, b)" by (cases "quotient_of q")
  have b: "0 < b" "coprime a b" "q = of_int a / of_int b"
    using quotient_of_denom_pos [OF q] quotient_of_coprime [OF q] quotient_of_div [OF q] by simp_all
  define n where "n = nat (- k)"
  have "\<exists>i :: int. q * 2 ^ n = of_int i"
    using assms by (cases "0 \<le> k") (auto simp: pow2_def n_def intro!: exI [of _ "m * 2 ^ nat k"])
  then obtain i :: int where "q * 2 ^ n = of_int i" by blast
  then have "of_int (a * 2 ^ n) = (of_int (i * b) :: rat)" using b by (simp add: field_simps)
  then have "b dvd a * 2 ^ n" by (metis dvd_triv_right of_int_eq_iff)
  then have "b dvd 2 ^ n" using b(2) by (simp add: coprime_commute coprime_dvd_mult_right_iff)
  then have "nat b dvd 2 ^ n" using b(1) by (metis nat_dvd_iff nat_int nat_power_eq of_nat_numeral zero_le_numeral int_dvd_int_iff nat_eq_iff2 order_less_imp_le int_nat_eq of_nat_power)
  then obtain j where "nat b = 2 ^ j" using dvd_pow2 by blast
  then have "b = 2 ^ j" using b(1) by (metis int_nat_eq less_imp_le of_nat_numeral of_nat_power)
  then show ?thesis using q that by blast
qed

lemma exact_decimal_val:
  assumes "0 < q" "round64 q = Some q"
  shows "decimal_val (exact_decimal q) = q" "0 < fst (exact_decimal q)"
proof -
  let ?k = "max (binary_exponent q - 52) (- 1074)"
  from assms have "q = of_int (round_even (q / pow2 ?k)) * pow2 ?k"
    by (auto simp: round64_def Let_def split: if_splits)
  then obtain a j where q: "quotient_of q = (a, 2 ^ j)" by (rule dyadic_quotient)
  have d: "q = of_int a / 2 ^ j" using quotient_of_div [OF q] by simp
  then have a: "0 < a" using assms(1) by (simp add: zero_less_divide_iff)
  have e: "exact_decimal q = (nat a * 5 ^ j, - int j)"
    by (simp add: exact_decimal_def q nat_power_eq bit_len_pow2)
  have "(10 :: rat) ^ j = 5 ^ j * 2 ^ j" by (simp flip: power_mult_distrib)
  then have "decimal_val (exact_decimal q) = of_int a / 2 ^ j"
    using a unfolding e decimal_val_def by (simp add: pow10_nat)
  then show "decimal_val (exact_decimal q) = q" by (simp only: d)
  show "0 < fst (exact_decimal q)" using a by (simp add: e)
qed

lemma shortest_decimal_reads_back:
  assumes "0 < q" "round64 q = Some q"
  shows "reads_back q (shortest_decimal q)"
proof -
  have "reads_back q (first_decimal q n fuel)" for n fuel
  proof (induction fuel arbitrary: n)
    case 0
    then show ?case using exact_decimal_val [OF assms] assms(2) by (simp add: reads_back_def)
  next
    case (Suc fuel)
    then show ?case by (auto simp: find_Some_iff split: option.split)
  qed
  then show ?thesis by (simp add: shortest_decimal_def)
qed

section \<open>Rounding is idempotent\<close>

lemma pow2_add: "pow2 (a + b) = pow2 a * pow2 b"
proof -
  have "pow2 k = 2 powi k" for k by (simp add: pow2_def power_int_def power_one_over inverse_eq_divide)
  then show ?thesis by (simp add: power_int_add)
qed

lemma pow2_pos: "0 < pow2 k"
  by (simp add: pow2_def)

lemma pow2_nat: "pow2 (int n) = 2 ^ n"
  by (simp add: pow2_def)

lemma pow2_diff: "k' \<le> k \<Longrightarrow> pow2 k = 2 ^ nat (k - k') * pow2 k'"
  using pow2_add [of "k - k'" k'] pow2_nat [of "nat (k - k')"] by simp

lemma pow2_mono: "pow2 a < pow2 b \<longleftrightarrow> a < b"
proof -
  have less: "pow2 a < pow2 b" if "a < b" for a b
  proof -
    have "(1 :: rat) < 2 ^ nat (b - a)" using that by simp
    then show ?thesis using pow2_diff [of a b] pow2_pos [of a] that by simp
  qed
  then show ?thesis using less [of a b] less [of b a] by (cases a b rule: linorder_cases) force+
qed

lemma binary_exponent_bounds:
  assumes "0 < q"
  shows "pow2 (binary_exponent q) \<le> q" "q < pow2 (binary_exponent q + 1)"
proof -
  obtain a b where q: "quotient_of q = (a, b)" by (cases "quotient_of q")
  have b: "0 < b" "q = of_int a / of_int b"
    using quotient_of_denom_pos [OF q] quotient_of_div [OF q] by simp_all
  then have a: "0 < a" using assms by (simp add: zero_less_divide_iff)
  define i where "i = bit_len (nat a)"
  define j where "j = bit_len (nat b)"
  have "2 ^ (i - 1) \<le> nat a" "nat a < 2 ^ i" "0 < i" "2 ^ (j - 1) \<le> nat b" "nat b < 2 ^ j" "0 < j"
    using bit_len_bounds [of "nat a"] bit_len_bounds [of "nat b"] a b by (auto simp: i_def j_def)
  then have ij: "2 ^ (i - 1) \<le> (of_int a :: rat)" "of_int a < (2 :: rat) ^ i" "2 ^ (j - 1) \<le> (of_int b :: rat)"
      "of_int b < (2 :: rat) ^ j" "0 < i" "0 < j"
    using a b by (auto simp: nat_less_iff le_nat_iff)
  have 1: "q < pow2 (int i - int j + 1)"
  proof -
    have "pow2 (int i - int j + 1) * 2 ^ (j - 1) = 2 ^ i"
    proof -
      have "pow2 (int i - int j + 1) * 2 ^ (j - 1) = pow2 (int i - int j + 1 + int (j - 1))"
        by (simp only: pow2_add pow2_nat)
      also have "int i - int j + 1 + int (j - 1) = int i" using ij(6) by (simp add: of_nat_diff)
      finally show ?thesis by (simp only: pow2_nat)
    qed
    then have "of_int a < pow2 (int i - int j + 1) * of_int b"
      using ij(2) mult_left_mono [OF ij(3), of "pow2 (int i - int j + 1)"] pow2_pos [of "int i - int j + 1"] by linarith
    then show ?thesis using b by (simp add: divide_less_eq)
  qed
  have 2: "pow2 (int i - int j - 1) \<le> q"
  proof -
    have "pow2 (int i - int j - 1) * 2 ^ j = 2 ^ (i - 1)"
      using pow2_add [of "int i - int j - 1" "int j"] ij(5,6) by (simp add: pow2_def nat_diff_distrib)
    then have "pow2 (int i - int j - 1) * of_int b \<le> of_int a"
      using ij(1) mult_left_mono [OF less_imp_le [OF ij(4)], of "pow2 (int i - int j - 1)"] pow2_pos [of "int i - int j - 1"] by linarith
    then show ?thesis using b by (simp add: le_divide_eq)
  qed
  have "binary_exponent q = (if pow2 (int i - int j) \<le> q then int i - int j else int i - int j - 1)"
    by (simp add: binary_exponent_def q i_def j_def)
  then show "pow2 (binary_exponent q) \<le> q" "q < pow2 (binary_exponent q + 1)" using 1 2 by auto
qed

lemma binary_exponent_eq:
  assumes "0 < q" "pow2 e \<le> q" "q < pow2 (e + 1)"
  shows "binary_exponent q = e"
proof -
  have "pow2 e < pow2 (binary_exponent q + 1)" "pow2 (binary_exponent q) < pow2 (e + 1)"
    using assms binary_exponent_bounds [OF assms(1)] by auto
  then show ?thesis by (simp add: pow2_mono)
qed

lemma round_even_of_int: "round_even (of_int m) = m"
  by (simp add: round_even_def)

lemma round_even_bounds: "0 \<le> r \<Longrightarrow> 0 \<le> round_even r" "r < of_int b \<Longrightarrow> round_even r \<le> b"
proof -
  have "round_even r = \<lfloor>r\<rfloor> \<or> round_even r = \<lfloor>r\<rfloor> + 1" by (simp add: round_even_def Let_def)
  then show "0 \<le> r \<Longrightarrow> 0 \<le> round_even r" "r < of_int b \<Longrightarrow> round_even r \<le> b"
    by (auto simp: floor_less_iff [symmetric])
qed

lemma round64_idem:
  assumes "0 \<le> q" "round64 q = Some p"
  shows "round64 p = Some p \<and> 0 \<le> p"
proof (cases "p = 0")
  case False
  then have q: "0 < q" using assms by (cases "q = 0") (simp_all add: round64_def)
  let ?e = "binary_exponent q"
  define k where "k = max (?e - 52) (- 1074)"
  define m where "m = round_even (q / pow2 k)"
  have p: "p = of_int m * pow2 k" "k < 971 \<or> k = 971 \<and> m < 2 ^ 53"
    using assms q by (auto simp: round64_def Let_def k_def m_def split: if_splits)
  have "0 \<le> m" unfolding m_def using q pow2_pos [of k] by (intro round_even_bounds) simp
  then have m: "0 < m" using False p(1) by (cases "m = 0") auto
  then have p0: "0 < p" using p(1) pow2_pos [of k] by simp
  have "q < pow2 (k + 53)"
  proof -
    have "pow2 (?e + 1) \<le> pow2 (k + 53)" using pow2_mono [of "k + 53" "?e + 1"] by (simp add: k_def not_less [symmetric])
    then show ?thesis using binary_exponent_bounds(2) [OF q] by simp
  qed
  then have "q / pow2 k < of_int (2 ^ 53)"
    using pow2_add [of 53 k] pow2_pos [of k] by (simp add: divide_less_eq add.commute pow2_nat [of 53, simplified])
  then have m53: "m \<le> 2 ^ 53" unfolding m_def by (rule round_even_bounds)
  show ?thesis
  proof (cases "m = 2 ^ 53")
    case True
    have p53: "p = pow2 (k + 53)" using p(1) pow2_add [of 53 k] by (simp add: True add.commute pow2_nat [of 53, simplified])
    have "binary_exponent p = k + 53" using p0 by (intro binary_exponent_eq) (simp_all add: p53 pow2_mono)
    then have k1: "max (binary_exponent p - 52) (- 1074) = k + 1" by (simp add: k_def)
    have pk: "p / pow2 (k + 1) = of_int (2 ^ 52)" "of_int (2 ^ 52) * pow2 (k + 1) = p"
      using pow2_add [of 52 "k + 1"] pow2_pos [of "k + 1"] by (simp_all add: p53 pow2_nat [of 52, simplified] add.commute)
    have "k + 1 < 971 \<or> k + 1 = 971 \<and> (2 :: int) ^ 52 < 2 ^ 53" using p(2) True by auto
    then have "round64 p = Some p"
      using p0 unfolding round64_def Let_def k1 pk(1) round_even_of_int pk(2) by simp
    then show ?thesis using p0 by simp
  next
    case False
    define k' where "k' = max (binary_exponent p - 52) (- 1074)"
    have "p < pow2 (k + 53)"
    proof -
      have "(of_int m :: rat) < 2 ^ 53" using m53 False by (metis of_int_less_iff of_int_power of_int_numeral order_le_neq_trans)
      then show ?thesis using p(1) pow2_add [of 53 k] pow2_pos [of k] by (simp add: pow2_nat [of 53, simplified] add.commute)
    qed
    then have "pow2 (binary_exponent p) < pow2 (k + 53)" using binary_exponent_bounds(1) [OF p0] by simp
    then have k': "k' \<le> k" by (simp add: pow2_mono k'_def k_def)
    have pk: "p / pow2 k' = of_int (m * 2 ^ nat (k - k'))" "of_int (m * 2 ^ nat (k - k')) * pow2 k' = p"
      using pow2_diff [OF k'] pow2_pos [of k'] by (simp_all add: p(1))
    have "k' < 971 \<or> k' = 971 \<and> m * 2 ^ nat (k - k') < 2 ^ 53" using k' p(2) by auto
    then have "round64 p = Some p"
      using p0 unfolding round64_def Let_def k'_def [symmetric] pk(1) round_even_of_int pk(2) by simp
    then show ?thesis using p0 by simp
  qed
qed (simp add: round64_def)

end
