(* ===== verification/Json_Number_Laws.thy ===== *)
theory Json_Number_Laws
  imports Json_Laws Decimal_Laws
begin

text \<open>
  The number formatter and the number reader: every text the formatter produces is read back as
  the double it was made from.
\<close>

section \<open>Number texts\<close>

text \<open>
  The texts the number formatter produces: sign, integer digits, fraction digits, decimal exponent.
\<close>

definition number_text :: "bool \<Rightarrow> string \<Rightarrow> string \<Rightarrow> int option \<Rightarrow> string" where
  "number_text neg ip fp x =
     (if neg then ''-'' else []) @ ip @ (if fp = [] then [] else CHR ''.'' # fp) @
     (case x of None \<Rightarrow> []
      | Some e \<Rightarrow> ''e'' @ (if e < 0 then ''-'' else ''+'') @ string_of_nat (nat \<bar>e\<bar>))"

text \<open>What cannot continue a number.\<close>

definition ends_number :: "string \<Rightarrow> bool" where
  "ends_number rest \<longleftrightarrow> rest = [] \<or> \<not> is_digit (hd rest) \<and> hd rest \<notin> {CHR ''.'', CHR ''e'', CHR ''E''}"

lemma dropWhile_digits:
  assumes "list_all is_digit ds" "t = [] \<or> \<not> is_digit (hd t)"
  shows "dropWhile is_digit (ds @ t) = t" "takeWhile is_digit (ds @ t) = ds"
  using assms by (induction ds; cases t; simp)+

lemma digits_only: "takeWhile is_digit (string_of_nat n) = string_of_nat n"
  using string_of_nat_laws(1) [of n] by (simp only: takeWhile_eq_all_conv list_all_iff)

lemma not_digits: "\<not> is_digit CHR ''.''" "\<not> is_digit CHR ''-''" "\<not> is_digit CHR ''+''" "\<not> is_digit CHR ''e''"
  "\<not> is_digit CHR ''E''"
  by (simp_all add: is_digit_def)

lemma hd_digits:
  assumes "list_all is_digit ds" "ds \<noteq> []"
  shows "hd (ds @ t) \<noteq> CHR ''-''" "hd (ds @ t) \<noteq> CHR ''+''"
  using assms not_digits by (cases ds; auto)+

lemma number_end_text:
  assumes ds: "list_all is_digit ip" "ip \<noteq> []" "list_all is_digit fp" and r: "ends_number rest"
  shows "number_end (number_text neg ip fp x @ rest) = rest"
proof -
  define ex where "ex = (case x of None \<Rightarrow> []
      | Some e \<Rightarrow> ''e'' @ (if e < 0 then ''-'' else ''+'') @ string_of_nat (nat \<bar>e\<bar>))"
  define fr where "fr = (if fp = [] then [] else CHR ''.'' # fp)"
  have r': "rest = [] \<or> \<not> is_digit (hd rest)" using r by (auto simp: ends_number_def)
  have ex: "ex @ rest = [] \<or> \<not> is_digit (hd (ex @ rest))" "hd (ex @ rest) \<noteq> CHR ''.'' \<or> ex @ rest = []"
    using r r' by (auto simp: ex_def ends_number_def not_digits split: option.split)
  have fr: "fr @ ex @ rest = [] \<or> \<not> is_digit (hd (fr @ ex @ rest))"
    using ex by (auto simp: fr_def not_digits)
  have s: "number_text neg ip fp x @ rest = (if neg then ''-'' else []) @ ip @ fr @ ex @ rest"
    by (simp add: number_text_def ex_def fr_def)
  have 1: "(let s = number_text neg ip fp x @ rest in if s \<noteq> [] \<and> hd s = CHR ''-'' then tl s else s) = ip @ fr @ ex @ rest"
    using hd_digits(1) [OF ds(1,2)] ds(2) by (simp add: s Let_def)
  have 2: "(let s = fr @ ex @ rest in if s \<noteq> [] \<and> hd s = CHR ''.'' then dropWhile is_digit (tl s) else s) = ex @ rest"
    using dropWhile_digits(1) [OF ds(3) ex(1)] ex(2) by (auto simp: fr_def Let_def)
  have 3: "(let s = ex @ rest in if s \<noteq> [] \<and> (hd s = CHR ''e'' \<or> hd s = CHR ''E'')
         then (let s = tl s; s = (if s \<noteq> [] \<and> (hd s = CHR ''+'' \<or> hd s = CHR ''-'') then tl s else s)
               in dropWhile is_digit s)
         else s) = rest"
    using r dropWhile_digits(1) [OF string_of_nat_laws(1) r']
    by (cases x) (auto simp: ex_def ends_number_def Let_def)
  show ?thesis
    unfolding number_end_def Let_def 1 [unfolded Let_def] dropWhile_digits(1) [OF ds(1) fr]
      2 [unfolded Let_def] 3 [unfolded Let_def] by (rule refl)
qed

lemma scan_exponent_text:
  "scan_exponent (case x of None \<Rightarrow> []
      | Some e \<Rightarrow> ''e'' @ (if e < 0 then ''-'' else ''+'') @ string_of_nat (nat \<bar>e\<bar>)) = (case x of None \<Rightarrow> 0 | Some e \<Rightarrow> e)"
  by (auto simp: digits_only scan_exponent_def Let_def split: option.split)

lemma from_chars_text:
  assumes ds: "list_all is_digit ip" "ip \<noteq> []" "list_all is_digit fp"
    and q: "round64 (of_nat (nat_of_digits (ip @ fp)) * pow10 ((case x of None \<Rightarrow> 0 | Some e \<Rightarrow> e) - int (length fp))) = Some q"
    and z: "q = 0 \<longrightarrow> nat_of_digits (ip @ fp) = 0"
  shows "from_chars (number_text neg ip fp x) = Parsed (DFin neg q)"
proof -
  let ?ex = "case x of None \<Rightarrow> []
      | Some e \<Rightarrow> ''e'' @ (if e < 0 then ''-'' else ''+'') @ string_of_nat (nat \<bar>e\<bar>)"
  let ?fr = "if fp = [] then [] else CHR ''.'' # fp"
  let ?s = "number_text neg ip fp x"
  have ex: "?ex = [] \<or> \<not> is_digit (hd ?ex)" "hd ?ex \<noteq> CHR ''.'' \<or> ?ex = []"
    by (auto simp: not_digits split: option.split)
  have fr: "?fr @ ?ex = [] \<or> \<not> is_digit (hd (?fr @ ?ex))"
    using ex by (auto simp: not_digits)
  have body: "(?s \<noteq> [] \<and> hd ?s = CHR ''-'') = neg" "(if neg then tl ?s else ?s) = ip @ ?fr @ ?ex"
    using hd_digits(1) [OF ds(1,2)] ds(2) by (auto simp: number_text_def)
  have fp: "(if ?fr @ ?ex \<noteq> [] \<and> hd (?fr @ ?ex) = CHR ''.'' then takeWhile is_digit (tl (?fr @ ?ex)) else []) = fp"
    "(if ?fr @ ?ex \<noteq> [] \<and> hd (?fr @ ?ex) = CHR ''.'' then dropWhile is_digit (tl (?fr @ ?ex)) else ?fr @ ?ex) = ?ex"
    using dropWhile_digits [OF ds(3) ex(1)] ex(2) by auto
  show ?thesis
    unfolding from_chars_def Let_def body dropWhile_digits [OF ds(1) fr] fp scan_exponent_text q
    using ds(2) z by simp
qed

lemma parse_number_text:
  assumes "list_all is_digit ip" "ip \<noteq> []" "list_all is_digit fp" "ends_number rest"
    and "round64 (of_nat (nat_of_digits (ip @ fp)) * pow10 ((case x of None \<Rightarrow> 0 | Some e \<Rightarrow> e) - int (length fp))) = Some q"
    and "q = 0 \<longrightarrow> nat_of_digits (ip @ fp) = 0"
  shows "parse_number (number_text neg ip fp x @ rest) = Inr (DFin neg q, rest)"
  using number_end_text [OF assms(1-4)] from_chars_text [OF assms(1-3,5,6)] by (simp add: parse_number_def)

section \<open>The formatter\<close>

text \<open>The threshold of the scientific form is the double nearest to one millionth.\<close>

lemma lit_1e_minus_6_rounded: "round64 (1 / 10 ^ 6) = Some lit_1e_minus_6"
proof -
  have "binary_exponent (1 / 10 ^ 6) = - 20" by (rule binary_exponent_eq) (simp_all add: pow2_def)
  moreover have "\<lfloor>(1 / 10 ^ 6 :: rat) / pow2 (- 72)\<rfloor> = 4722366482869645"
    by (intro floor_unique) (simp_all add: pow2_def)
  then have "round_even (1 / 10 ^ 6 / pow2 (- 72)) = 4722366482869645"
    by (simp add: round_even_def pow2_def)
  ultimately show ?thesis by (simp add: round64_def lit_1e_minus_6_def pow2_def)
qed

lemma exponent_value_digits: "list_all is_digit s \<Longrightarrow> exponent_value s = int (nat_of_digits s)"
proof -
  have "foldl (\<lambda>e c. e * 10 + (int (of_char c) - 48)) (int n) s = int (foldl (\<lambda>n c. 10 * n + digit_val c) n s)"
    if "list_all is_digit s" for n
    using that
  proof (induction s arbitrary: n)
    case (Cons c s)
    have "int n * 10 + (int (of_char c) - 48) = int (10 * n + digit_val c)"
      using Cons.prems by (auto simp: is_digit_def digit_val_def Let_def)
    then show ?case using Cons.IH [of "10 * n + digit_val c"] Cons.prems by (simp add: mult.commute)
  qed simp
  from this [of 0] show "list_all is_digit s \<Longrightarrow> ?thesis"
    by (simp add: exponent_value_def nat_of_digits_def)
qed

lemma signed_exponent_text: "signed_exponent (exponent_text e) = e"
proof -
  have "exponent_value (CHR ''0'' # string_of_nat n) = int n" "exponent_value (string_of_nat n) = int n" for n
    using exponent_value_digits [of "CHR ''0'' # string_of_nat n"] exponent_value_digits [of "string_of_nat n"]
    by (simp_all add: is_digit_def digit_val_def)
  then show ?thesis by (auto simp: exponent_text_def signed_exponent_def)
qed

lemma scan_decimal_digits:
  "list_all is_digit ds \<Longrightarrow> scan_decimal (ds @ s) mantissa p = scan_decimal s (mantissa @ ds) p"
proof (induction ds arbitrary: mantissa)
  case (Cons c ds)
  then have "c \<notin> {CHR ''.'', CHR ''e'', CHR ''E''}" using not_digits by auto
  then show ?case using Cons by simp
qed simp

text \<open>The digits of a positive number without its trailing zeros.\<close>

lemma significant_digits:
  assumes "0 < m"
  obtains d ds z where "strip_zeros (string_of_nat m) = d # ds" "string_of_nat m = (d # ds) @ replicate z CHR ''0''"
    "list_all is_digit (d # ds)" "d \<noteq> CHR ''0''" "strip_zeros (d # ds) = d # ds"
proof -
  obtain z where z: "string_of_nat m = strip_zeros (string_of_nat m) @ replicate z CHR ''0''"
    "strip_zeros (string_of_nat m) \<noteq> [] \<longrightarrow> last (strip_zeros (string_of_nat m)) \<noteq> CHR ''0''"
    using strip_zeros_append by blast
  have "strip_zeros (string_of_nat m) \<noteq> []"
    using z(1) assms string_of_nat_laws(3) [of m] nat_of_digits_zeros [of z] by (metis append_Nil less_irrefl)
  then obtain d ds where ds: "strip_zeros (string_of_nat m) = d # ds" by (meson neq_Nil_conv)
  have all: "string_of_nat m = (d # ds) @ replicate z CHR ''0''" using z(1) ds by simp
  show ?thesis
  proof (rule that [OF ds all])
    show "list_all is_digit (d # ds)" using string_of_nat_laws(1) [of m] unfolding all by simp
    show "d \<noteq> CHR ''0''" using hd_string_of_nat [OF assms] unfolding all by simp
    show "strip_zeros (d # ds) = d # ds" using z(2) ds by (subst strip_zeros.simps) simp
  qed
qed

lemma decompose_scientific:
  assumes "0 < m"
  shows "go_json_decompose (scientific neg (m, k)) =
    \<lparr>dp_negative = neg, dp_digits = strip_zeros (string_of_nat m), dp_exp10 = k + int (length (string_of_nat m))\<rparr>"
proof -
  obtain d ds z where ds: "strip_zeros (string_of_nat m) = d # ds" "list_all is_digit (d # ds)" "d \<noteq> CHR ''0''"
      "strip_zeros (d # ds) = d # ds"
    by (rule significant_digits [OF assms])
  let ?e = "k + int (length (string_of_nat m)) - 1"
  let ?body = "[d] @ (if ds = [] then [] else CHR ''.'' # ds) @ ''e'' @ exponent_text ?e"
  have d: "d \<noteq> CHR ''-''" "d \<noteq> CHR ''+''" using ds(2) not_digits by auto
  have "scan_decimal ?body [] None = (d # ds, if ds = [] then None else Some 1, ?e)"
    using ds(2) scan_decimal_digits [of "[d]" "(if ds = [] then [] else CHR ''.'' # ds) @ ''e'' @ exponent_text ?e"]
      scan_decimal_digits [of ds "''e'' @ exponent_text ?e" "[d]" "Some 1"]
    by (simp add: signed_exponent_text)
  moreover have "scientific neg (m, k) = (if neg then ''-'' else []) @ ?body"
    by (simp add: scientific_def ds(1))
  ultimately show ?thesis
    using d ds(3,4) by (auto simp: go_json_decompose_def ds(1))
qed

lemma zero_digits [simp]: "is_digit CHR ''0''" "digit_val CHR ''0'' = 0" "list_all is_digit (replicate n CHR ''0'')"
  by (simp_all add: is_digit_def digit_val_def list_all_iff)

text \<open>The significant digits of a positive double and the place of its decimal point.\<close>

lemma shortest_significand:
  assumes q: "0 < q" "round64 q = Some q"
  obtains m k d ds where "shortest_decimal q = (m, k)" "0 < m" "strip_zeros (string_of_nat m) = d # ds"
    "list_all is_digit (d # ds)"
    "round64 (of_nat (nat_of_digits (d # ds)) * pow10 (k + int (length (string_of_nat m)) - int (length (d # ds)))) = Some q"
proof -
  obtain m k where mk: "shortest_decimal q = (m, k)" by (cases "shortest_decimal q")
  have m: "0 < m" and rd: "round64 (of_nat m * pow10 k) = Some q"
    using shortest_decimal_reads_back [OF q] by (simp_all add: mk reads_back_def decimal_val_def)
  obtain d ds z where ds: "strip_zeros (string_of_nat m) = d # ds"
      "string_of_nat m = (d # ds) @ replicate z CHR ''0''" "list_all is_digit (d # ds)"
    by (rule significant_digits [OF m])
  have E: "k + int (length (string_of_nat m)) - int (length (d # ds)) = k + int z" by (simp add: ds(2))
  have "nat_of_digits ((d # ds) @ replicate z CHR ''0'') = m" using string_of_nat_laws(3) [of m] by (simp only: ds(2))
  then have "round64 (of_nat (nat_of_digits (d # ds)) * pow10 (k + int z)) = Some q"
    using rd decimal_val_zeros [of "d # ds" z k] by simp
  then show ?thesis by (intro that [OF mk m ds(1,3)]) (simp only: E)
qed

text \<open>Digits with the decimal point after the first \<open>E\<close> of them, zeros filled in.\<close>

definition positioned :: "string \<Rightarrow> int \<Rightarrow> string" where
  "positioned ds E =
     (if E \<le> 0 then ''0.'' @ replicate (nat (- E)) CHR ''0'' @ ds
      else if E \<ge> int (length ds) then ds @ replicate (nat (E - int (length ds))) CHR ''0''
      else take (nat E) ds @ ''.'' @ drop (nat E) ds)"

lemma positioned_text:
  assumes ds: "list_all is_digit (d # ds)"
    and val: "round64 (of_nat (nat_of_digits (d # ds)) * pow10 (E - int (length (d # ds)))) = Some q"
  obtains ip fp where "positioned (d # ds) E = ip @ (if fp = [] then [] else CHR ''.'' # fp)"
    "list_all is_digit ip" "ip \<noteq> []" "list_all is_digit fp"
    "round64 (of_nat (nat_of_digits (ip @ fp)) * pow10 (- int (length fp))) = Some q"
proof -
  define nd where "nd = int (length (d # ds))"
  note val = val [folded nd_def]
  consider (small) "E \<le> 0" | (large) "0 < E" "nd \<le> E" | (mid) "0 < E" "E < nd" by linarith
  then show ?thesis
  proof cases
    case small
    have "positioned (d # ds) E = ''0'' @ (if replicate (nat (- E)) CHR ''0'' @ d # ds = [] then []
        else CHR ''.'' # replicate (nat (- E)) CHR ''0'' @ d # ds)"
      using small by (simp add: positioned_def)
    then show ?thesis
      by (rule that) (use val ds small in \<open>simp_all add: nd_def nat_of_digits_append algebra_simps\<close>)
  next
    case large
    have "positioned (d # ds) E = ((d # ds) @ replicate (nat (E - nd)) CHR ''0'') @ (if [] = [] then [] else CHR ''.'' # [])"
      using large by (simp add: positioned_def nd_def)
    then show ?thesis
      by (rule that) (use val ds large(2) decimal_val_zeros [of "d # ds" "nat (E - nd)" 0] in \<open>simp_all\<close>)
  next
    case mid
    have t: "positioned (d # ds) E = take (nat E) (d # ds) @ (if drop (nat E) (d # ds) = [] then [] else CHR ''.'' # drop (nat E) (d # ds))"
      using mid by (simp add: positioned_def nd_def)
    have parts: "list_all is_digit (take (nat E) (d # ds))" "list_all is_digit (drop (nat E) (d # ds))"
      using ds append_take_drop_id [of "nat E" "d # ds"] by (metis list_all_append)+
    show ?thesis
      by (rule that [OF t parts(1) _ parts(2)]) (use val mid in \<open>simp_all add: nd_def\<close>)
  qed
qed

text \<open>Every text of a formatted double is a number text with the value of the shortest decimal.\<close>

lemma format_positive:
  assumes q: "0 < q" "round64 q = Some q"
  obtains ip fp x where "go_format_json_number (DFin neg q) = number_text neg ip fp x"
    "list_all is_digit ip" "ip \<noteq> []" "list_all is_digit fp"
    "round64 (of_nat (nat_of_digits (ip @ fp)) * pow10 ((case x of None \<Rightarrow> 0 | Some e \<Rightarrow> e) - int (length fp))) = Some q"
proof -
  obtain m k d ds where mk: "shortest_decimal q = (m, k)" "0 < m" and ds: "strip_zeros (string_of_nat m) = d # ds"
      "list_all is_digit (d # ds)"
    and val: "round64 (of_nat (nat_of_digits (d # ds)) * pow10 (k + int (length (string_of_nat m)) - int (length (d # ds)))) = Some q"
    by (rule shortest_significand [OF q])
  define E where "E = k + int (length (string_of_nat m))"
  note val = val [folded E_def]
  have dec: "go_json_decompose (to_chars (DFin neg q)) = \<lparr>dp_negative = neg, dp_digits = d # ds, dp_exp10 = E\<rparr>"
    by (simp add: mk decompose_scientific ds(1) E_def)
  show ?thesis
  proof (cases "q < lit_1e_minus_6 \<or> 10 ^ 21 \<le> q")
    case True
    have "go_format_json_number (DFin neg q) = go_json_to_scientific (to_chars (DFin neg q))"
      using True q(1) by simp
    also have "\<dots> = number_text neg [d] ds (Some (E - 1))"
      unfolding go_json_to_scientific_def dec Let_def by (simp add: number_text_def string_of_int_def)
    finally show ?thesis
      by (rule that) (use val ds(2) in \<open>simp_all add: diff_diff_eq\<close>)
  next
    case False
    obtain ip fp where t: "positioned (d # ds) E = ip @ (if fp = [] then [] else CHR ''.'' # fp)"
        "list_all is_digit ip" "ip \<noteq> []" "list_all is_digit fp"
        "round64 (of_nat (nat_of_digits (ip @ fp)) * pow10 (- int (length fp))) = Some q"
      by (rule positioned_text [OF ds(2) val])
    have "go_format_json_number (DFin neg q) = go_json_to_fixed (to_chars (DFin neg q))"
      using False q(1) by simp
    also have "\<dots> = (if neg then ''-'' else []) @ positioned (d # ds) E"
      unfolding go_json_to_fixed_def dec Let_def by (simp add: positioned_def)
    also have "\<dots> = number_text neg ip fp None" unfolding t(1) by (simp add: number_text_def)
    finally show ?thesis by (rule that [OF _ t(2-4)]) (use t(5) in simp)
  qed
qed

lemma parse_formatted_number:
  assumes "representable d" "ends_number rest"
  shows "parse_number (go_format_json_number d @ rest) = Inr (d, rest)"
proof -
  from assms(1) obtain neg q where d: "d = DFin neg q" and q: "0 \<le> q" "round64 q = Some q"
    by (cases d) auto
  show ?thesis
  proof (cases "q = 0")
    case True
    have "go_format_json_number d = number_text neg ''0'' [] None" by (simp add: d True number_text_def)
    then show ?thesis
      using parse_number_text [of "''0''" "[]" rest None 0 neg] assms(2)
      by (simp add: d True is_digit_def digit_val_def round64_def)
  next
    case False
    with q have "0 < q" by simp
    from this q(2) obtain ip fp x where "go_format_json_number (DFin neg q) = number_text neg ip fp x"
      "list_all is_digit ip" "ip \<noteq> []" "list_all is_digit fp"
      "round64 (of_nat (nat_of_digits (ip @ fp)) * pow10 ((case x of None \<Rightarrow> 0 | Some e \<Rightarrow> e) - int (length fp))) = Some q"
      by (rule format_positive)
    then show ?thesis using parse_number_text [of ip fp rest x q neg] assms(2) False by (simp add: d)
  qed
qed

end
