(* ===== verification/Json_Theorems.thy ===== *)
theory Json_Theorems
  imports Json_Number_Laws
begin

text \<open>
  The JSON properties: the parser always returns, formatted numbers and written documents are read
  back as the values they were made from.
\<close>

section \<open>Documents\<close>

text \<open>
  What the third-party writer is documented to do: the calls of a well-nested document give its
  compact text.  Raw calls are copied; keys are written by raw calls too.
\<close>

datatype doc = DNull | DBool bool | DRaw string | DArr "doc list" | DObj "(string \<times> doc) list"

fun calls :: "doc \<Rightarrow> writer_call list" where
  "calls DNull = [WNull]"
| "calls (DBool b) = [WBool b]"
| "calls (DRaw s) = [WRaw s]"
| "calls (DArr ds) = WStartArray # concat (map calls ds) @ [WEndArray]"
| "calls (DObj kds) = WStartObject # concat (map (\<lambda>kd. WRaw (fst kd) # snd kd) (map (map_prod id calls) kds)) @ [WEndObject]"

fun compact_text :: "doc \<Rightarrow> string" where
  "compact_text DNull = ''null''"
| "compact_text (DBool b) = (if b then ''true'' else ''false'')"
| "compact_text (DRaw s) = s"
| "compact_text (DArr ds) = ''['' @ join '','' (map compact_text ds) @ '']''"
| "compact_text (DObj kds) =
     ''{'' @ join '','' (map (\<lambda>kd. fst kd @ '':'' @ snd kd) (map (map_prod id compact_text) kds)) @ ''}''"

definition compact_writer :: "(writer_call list \<Rightarrow> string) \<Rightarrow> bool" where
  "compact_writer rj \<longleftrightarrow> (\<forall>d. rj (calls d) = compact_text d)"

text \<open>Values whose objects are maps and whose numbers are finite doubles.\<close>

fun json_ok :: "variant \<Rightarrow> bool" where
  "json_ok (VNum d) \<longleftrightarrow> representable d"
| "json_ok (VArr xs) \<longleftrightarrow> (\<forall>x \<in> set xs. json_ok x)"
| "json_ok (VObj kvs) \<longleftrightarrow> fm_ok kvs \<and> (\<forall>kv \<in> set kvs. json_ok (snd kv))"
| "json_ok v \<longleftrightarrow> True"

fun doc_of :: "variant \<Rightarrow> doc" where
  "doc_of VNull = DNull"
| "doc_of (VBool b) = DBool b"
| "doc_of (VNum d) = DRaw (go_format_json_number d)"
| "doc_of (VStr s) = DRaw (write_go_string s)"
| "doc_of (VArr xs) = DArr (map doc_of xs)"
| "doc_of (VObj kvs) = DObj (map (map_prod write_go_string doc_of) kvs)"

lemma sort_fm_ok:
  assumes "fm_ok kvs"
  shows "sort_key fst (map (\<lambda>kv. (fst kv, f (snd kv))) kvs) = map (\<lambda>kv. (fst kv, f (snd kv))) kvs"
proof -
  have "sorted (map fst kvs)" using assms by (simp add: fm_ok_def strict_sorted_iff)
  then show ?thesis by (intro sort_key_id_if_sorted) (simp add: comp_def)
qed

lemma write_is_doc: "json_ok v \<Longrightarrow> write_json_value v = calls (doc_of v)"
proof (induction v)
  case (VArr xs)
  then show ?case by (auto simp: comp_def intro!: arg_cong [where f = concat])
next
  case (VObj kvs)
  have "write_json_value (snd kv) = calls (doc_of (snd kv))" if "kv \<in> set kvs" for kv
    using VObj that by (cases kv) fastforce
  then show ?case using VObj.prems
    by (auto simp: sort_fm_ok comp_def intro!: arg_cong [where f = concat])
qed simp_all

section \<open>Reading the compact text\<close>

abbreviation json_text :: "variant \<Rightarrow> string" where
  "json_text v \<equiv> compact_text (doc_of v)"

lemma hd_number:
  assumes "representable d"
  obtains c s where "go_format_json_number d = c # s" "c = CHR ''-'' \<or> is_digit c"
proof -
  have head: "\<exists>c s. number_text neg ip fp x = c # s \<and> (c = CHR ''-'' \<or> is_digit c)"
    if "list_all is_digit ip" "ip \<noteq> []" for neg ip fp x
    using that by (cases ip) (auto simp: number_text_def)
  obtain neg q where d: "d = DFin neg q" "0 \<le> q" "round64 q = Some q" using assms by (cases d) auto
  obtain ip fp x where "go_format_json_number d = number_text neg ip fp x" "list_all is_digit ip" "ip \<noteq> []"
  proof (cases "q = 0")
    case True
    then have "go_format_json_number d = number_text neg ''0'' [] None" by (simp add: d number_text_def)
    then show ?thesis using that by simp
  next
    case False
    with d have "0 < q" by simp
    from this d(3) show ?thesis by (rule format_positive [of q neg]) (use that d(1) in blast)
  qed
  then show ?thesis using head that by metis
qed

text \<open>A value stands at the head of a text: no blank before it, and reading it leaves the rest.\<close>

definition reads :: "string \<Rightarrow> variant \<Rightarrow> bool" where
  "reads s v \<longleftrightarrow> s \<noteq> [] \<and> \<not> is_space (hd s) \<and> hd s \<noteq> CHR '']'' \<and>
     (\<forall>rest. ends_number rest \<longrightarrow> (\<exists>n. parse_value n (s @ rest) = Some (Inr (v, rest))))"

lemma readsI:
  assumes "s = c # t" "\<not> is_space c" "c \<noteq> CHR '']''"
    and "\<And>rest. ends_number rest \<Longrightarrow> \<exists>n. parse_value n ((c # t) @ rest) = Some (Inr (v, rest))"
  shows "reads s v"
  using assms unfolding reads_def by (metis list.discI list.sel(1))

lemma skip_ws_head: "\<not> is_space c \<Longrightarrow> skip_ws (c # t) = c # t"
  by (simp add: skip_ws_def)

lemma ends_number_seps [simp]:
  "ends_number (CHR '','' # s)" "ends_number (CHR '']'' # s)" "ends_number (CHR ''}'' # s)" "ends_number []"
  by (simp_all add: ends_number_def is_digit_def)

lemma skip_ws_seps [simp]:
  "skip_ws (CHR '','' # s) = CHR '','' # s" "skip_ws (CHR '']'' # s) = CHR '']'' # s"
  "skip_ws (CHR ''}'' # s) = CHR ''}'' # s" "skip_ws (CHR '':'' # s) = CHR '':'' # s"
  "skip_ws (CHR 0x22 # s) = CHR 0x22 # s" "skip_ws (CHR ''{'' # s) = CHR ''{'' # s"
  "skip_ws (CHR ''['' # s) = CHR ''['' # s" "skip_ws [] = []"
  by (simp_all add: skip_ws_def is_space_def)

lemma reads_scalars:
  "reads ''null'' VNull" "reads (if b then ''true'' else ''false'') (VBool b)"
  by (auto simp: reads_def is_space_def skip_ws_def expect_def intro!: exI [of _ "Suc 0"])

lemma reads_string: "reads (write_go_string s) (VStr s)"
proof (rule readsI)
  show "write_go_string s = CHR 0x22 # go_escaped s @ [CHR 0x22]" by (simp add: write_go_string_def)
  have "parse_value (Suc 0) ((CHR 0x22 # go_escaped s @ [CHR 0x22]) @ rest) = Some (Inr (VStr s, rest))" for rest
    using parse_write_string [of s rest] by (simp add: write_go_string_def)
  then show "\<exists>n. parse_value n ((CHR 0x22 # go_escaped s @ [CHR 0x22]) @ rest) = Some (Inr (VStr s, rest))" for rest
    by metis
qed (simp_all add: is_space_def)

lemma reads_number:
  assumes "representable d"
  shows "reads (go_format_json_number d) (VNum d)"
proof -
  obtain c s where c: "go_format_json_number d = c # s" "c = CHR ''-'' \<or> is_digit c"
    by (rule hd_number [OF assms])
  have h: "\<not> is_space c" "c \<notin> {CHR ''{'', CHR ''['', CHR 0x22, CHR ''t'', CHR ''f'', CHR ''n'', CHR '']''}"
    using c(2) by (auto simp: is_space_def is_digit_def Let_def)
  show ?thesis
  proof (rule readsI [OF c(1) h(1)])
    fix rest assume r: "ends_number rest"
    have "parse_value (Suc 0) ((c # s) @ rest) = Some (Inr (VNum d, rest))"
      using parse_formatted_number [OF assms r] h by (simp add: c(1) skip_ws_head)
    then show "\<exists>n. parse_value n ((c # s) @ rest) = Some (Inr (VNum d, rest))" by metis
  qed (use h in simp)
qed

lemma join_Cons: "ys \<noteq> [] \<Longrightarrow> join sep (x # ys) = x @ sep @ join sep ys"
  by (cases ys) simp_all

lemma reads_skip:
  assumes "reads s v"
  shows "skip_ws (s @ t) = s @ t"
  using assms by (cases s) (simp_all add: reads_def skip_ws_head)

lemma reads_rest:
  assumes "reads s v" "ends_number rest"
  obtains n where "\<And>m. n \<le> m \<Longrightarrow> parse_value m (s @ rest) = Some (Inr (v, rest))"
  using assms parse_mono(1) unfolding reads_def by metis

lemma read_elements:
  assumes "xs \<noteq> []" "\<forall>x \<in> set xs. reads (f x) x"
  shows "\<exists>n. parse_elements n acc (join '','' (map f xs) @ '']'' @ rest) = Some (Inr (acc @ xs, rest))"
  using assms
proof (induction xs arbitrary: acc rule: list_nonempty_induct)
  case (single x)
  then have x: "reads (f x) x" by simp
  obtain n where "parse_value n (f x @ CHR '']'' # rest) = Some (Inr (x, CHR '']'' # rest))"
    by (rule reads_rest [OF x ends_number_seps(2) [of rest]]) blast
  then have "parse_elements (Suc n) acc (f x @ CHR '']'' # rest) = Some (Inr (acc @ [x], rest))"
    by (simp add: reads_skip [OF x] parse_then_def)
  then show ?case by (simp only: list.map join.simps append.simps) metis
next
  case (cons x xs)
  let ?r = "join '','' (map f xs) @ '']'' @ rest"
  have x: "reads (f x) x" using cons by simp
  obtain n where n: "\<And>m. n \<le> m \<Longrightarrow> parse_value m (f x @ CHR '','' # ?r) = Some (Inr (x, CHR '','' # ?r))"
    by (rule reads_rest [OF x ends_number_seps(1) [of ?r]]) blast
  obtain k where k: "parse_elements k (acc @ [x]) ?r = Some (Inr ((acc @ [x]) @ xs, rest))"
    using cons.IH [of "acc @ [x]"] cons.prems by auto
  have "parse_elements (Suc (max n k)) acc (f x @ CHR '','' # ?r) = Some (Inr (acc @ x # xs, rest))"
    using n [of "max n k"] parse_mono(2) [OF k, of "max n k"] by (simp add: reads_skip [OF x] parse_then_def)
  moreover have "join '','' (map f (x # xs)) @ '']'' @ rest = f x @ CHR '','' # ?r"
    using cons.hyps by (simp add: join_Cons)
  ultimately show ?case by (simp only:) (rule exI)
qed

lemma skip_key: "skip_ws (write_go_string k @ t) = write_go_string k @ t"
  by (simp add: write_go_string_def)

lemma emplace_last:
  assumes "fm_ok (acc @ (k, v) # r)"
  shows "fst (fm_emplace k v acc) = acc @ [(k, v)]"
proof -
  have "\<forall>e \<in> set acc. fst e < k" using assms by (auto simp: fm_ok_def sorted_wrt_append)
  then have "fm_lower_bound acc k = length acc" by (simp add: fm_lower_bound_def takeWhile_eq_all_conv [THEN iffD2])
  then show ?thesis by (simp add: fm_emplace_def fm_hit_def)
qed

lemma read_members:
  assumes "kvs \<noteq> []" "\<forall>kv \<in> set kvs. reads (f (snd kv)) (snd kv)" "fm_ok (acc @ kvs)"
  shows "\<exists>n. parse_members n acc (join '','' (map (\<lambda>kv. write_go_string (fst kv) @ '':'' @ f (snd kv)) kvs) @ ''}'' @ rest) =
    Some (Inr (acc @ kvs, rest))"
  using assms
proof (induction kvs arbitrary: acc rule: list_nonempty_induct)
  case (single kv)
  obtain k v where kv: "kv = (k, v)" by (cases kv)
  have x: "reads (f v) v" using single by (simp add: kv)
  obtain n where "parse_value n (f v @ CHR ''}'' # rest) = Some (Inr (v, CHR ''}'' # rest))"
    by (rule reads_rest [OF x ends_number_seps(3) [of rest]]) blast
  then have "parse_members (Suc n) acc (write_go_string k @ CHR '':'' # f v @ CHR ''}'' # rest) = Some (Inr (acc @ [(k, v)], rest))"
    using emplace_last [of acc k v "[]"] single(2)
    by (simp add: reads_skip [OF x] skip_key parse_write_string parse_then_def kv)
  moreover have "join '','' (map (\<lambda>kv. write_go_string (fst kv) @ '':'' @ f (snd kv)) [kv]) @ ''}'' @ rest =
      write_go_string k @ CHR '':'' # f v @ CHR ''}'' # rest" by (simp add: kv)
  ultimately show ?case unfolding kv by (simp only:) (rule exI)
next
  case (cons kv kvs)
  obtain k v where kv: "kv = (k, v)" by (cases kv)
  let ?r = "join '','' (map (\<lambda>kv. write_go_string (fst kv) @ '':'' @ f (snd kv)) kvs) @ ''}'' @ rest"
  have x: "reads (f v) v" using cons by (simp add: kv)
  obtain n where n: "\<And>m. n \<le> m \<Longrightarrow> parse_value m (f v @ CHR '','' # ?r) = Some (Inr (v, CHR '','' # ?r))"
    by (rule reads_rest [OF x ends_number_seps(1) [of ?r]]) blast
  obtain j where j: "parse_members j (acc @ [(k, v)]) ?r = Some (Inr ((acc @ [(k, v)]) @ kvs, rest))"
    using cons.IH [of "acc @ [(k, v)]"] cons.prems by (auto simp: kv)
  have "parse_members (Suc (max n j)) acc (write_go_string k @ CHR '':'' # f v @ CHR '','' # ?r) =
      Some (Inr (acc @ kv # kvs, rest))"
    using n [of "max n j"] parse_mono(3) [OF j, of "max n j"] emplace_last [of acc k v kvs] cons.prems(2)
    by (simp add: reads_skip [OF x] skip_key parse_write_string parse_then_def kv)
  moreover have "join '','' (map (\<lambda>kv. write_go_string (fst kv) @ '':'' @ f (snd kv)) (kv # kvs)) @ ''}'' @ rest =
      write_go_string k @ CHR '':'' # f v @ CHR '','' # ?r"
    using cons.hyps by (simp add: join_Cons kv)
  ultimately show ?case by (simp only:) (rule exI)
qed

lemma reads_array:
  assumes "\<forall>x \<in> set xs. reads (f x) x"
  shows "reads (''['' @ join '','' (map f xs) @ '']'') (VArr xs)"
proof (cases "xs = []")
  case True
  then show ?thesis by (auto intro!: readsI [of _ "CHR ''[''" "'']''"] exI [of _ "Suc 0"] simp: is_space_def)
next
  case False
  let ?b = "join '','' (map f xs) @ '']''"
  have hd: "?b @ rest \<noteq> []" "hd (?b @ rest) \<noteq> CHR '']''" "skip_ws (?b @ rest) = ?b @ rest" for rest
  proof -
    obtain y ys where ys: "xs = y # ys" using False by (cases xs) auto
    obtain c t where c: "f y = c # t" "\<not> is_space c" "c \<noteq> CHR '']''"
      using assms ys by (cases "f y") (auto simp: reads_def)
    have "\<exists>u. ?b @ rest = c # u" by (cases ys) (auto simp: ys c)
    then show "?b @ rest \<noteq> []" "hd (?b @ rest) \<noteq> CHR '']''" "skip_ws (?b @ rest) = ?b @ rest"
      using c by (auto simp: skip_ws_head)
  qed
  show ?thesis
  proof (rule readsI [of _ "CHR ''[''" ?b])
    fix rest
    obtain n where "parse_elements n [] (?b @ rest) = Some (Inr (xs, rest))"
      using read_elements [OF False assms, of "[]" rest] by auto
    then have "parse_value (Suc n) ((CHR ''['' # ?b) @ rest) = Some (Inr (VArr xs, rest))"
      using hd [of rest] by (simp add: parse_value_array [of _ "?b @ rest"] parse_then_def)
    then show "\<exists>n. parse_value n ((CHR ''['' # ?b) @ rest) = Some (Inr (VArr xs, rest))" by (rule exI)
  qed (simp_all add: is_space_def)
qed

lemma reads_object:
  assumes "\<forall>kv \<in> set kvs. reads (f (snd kv)) (snd kv)" "fm_ok kvs"
  shows "reads (''{'' @ join '','' (map (\<lambda>kv. write_go_string (fst kv) @ '':'' @ f (snd kv)) kvs) @ ''}'') (VObj kvs)"
proof (cases "kvs = []")
  case True
  then show ?thesis by (auto intro!: readsI [of _ "CHR ''{''" "''}''"] exI [of _ "Suc 0"] simp: is_space_def)
next
  case False
  let ?b = "join '','' (map (\<lambda>kv. write_go_string (fst kv) @ '':'' @ f (snd kv)) kvs) @ ''}''"
  have hd: "?b @ rest \<noteq> []" "hd (?b @ rest) \<noteq> CHR ''}''" "skip_ws (?b @ rest) = ?b @ rest" for rest
  proof -
    obtain kv r where "kvs = kv # r" using False by (cases kvs) auto
    then have "\<exists>u. ?b @ rest = CHR 0x22 # u" by (cases r) (simp_all add: write_go_string_def)
    then obtain u where "?b @ rest = CHR 0x22 # u" ..
    then show "?b @ rest \<noteq> []" "hd (?b @ rest) \<noteq> CHR ''}''" "skip_ws (?b @ rest) = ?b @ rest" by simp_all
  qed
  show ?thesis
  proof (rule readsI [of _ "CHR ''{''" ?b])
    fix rest
    obtain n where "parse_members n [] (?b @ rest) = Some (Inr (kvs, rest))"
      using read_members [OF False assms(1), of "[]" rest] assms(2) by auto
    then have "parse_value (Suc n) ((CHR ''{'' # ?b) @ rest) = Some (Inr (VObj kvs, rest))"
      using hd [of rest] by (simp add: parse_value_object [of _ "?b @ rest"] parse_then_def)
    then show "\<exists>n. parse_value n ((CHR ''{'' # ?b) @ rest) = Some (Inr (VObj kvs, rest))" by (rule exI)
  qed (simp_all add: is_space_def)
qed

lemma reads_json_text: "json_ok v \<Longrightarrow> reads (json_text v) v"
proof (induction v)
  case (VArr xs)
  then have "\<forall>x \<in> set xs. reads (json_text x) x" by simp
  then show ?case using reads_array [of xs json_text] by (simp add: comp_def)
next
  case (VObj kvs)
  then have "\<forall>kv \<in> set kvs. reads (json_text (snd kv)) (snd kv)" by (metis json_ok.simps(3) snds.intros prod.collapse)
  then show ?case using reads_object [of kvs json_text] VObj.prems by (simp add: comp_def)
qed (simp_all add: reads_scalars reads_string reads_number del: compact_text.simps(2) add: compact_text.simps(2))

section \<open>What the parser builds\<close>

lemma parse_number_representable:
  assumes "parse_number s = Inr (d, t)"
  shows "representable d"
proof -
  obtain u where "from_chars u = Parsed d"
    using assms by (auto simp: parse_number_def Let_def split: from_chars_result.splits)
  then obtain neg q m k where d: "d = DFin neg q" "round64 (of_nat m * pow10 k) = Some q"
    unfolding from_chars_def Let_def by (auto split: if_splits option.splits)
  have "0 \<le> of_nat m * pow10 k" using pow10_pos [of k] by simp
  from round64_idem [OF this d(2)] show ?thesis by (simp add: d(1))
qed

lemma emplace_cases:
  obtains "fst (fm_emplace k v ob) = ob" | "fst (fm_emplace k v ob) = fm_set k v ob"
  by (cases "fm_hit ob k") (simp_all add: fm_emplace_def fm_set_def Let_def)

lemma json_ok_emplace:
  assumes "json_ok (VObj ob)" "json_ok v"
  shows "json_ok (VObj (fst (fm_emplace k v ob)))"
proof (rule emplace_cases [of k v ob])
  assume e: "fst (fm_emplace k v ob) = fm_set k v ob"
  have "set (fm_set k v ob) \<subseteq> insert (k, v) (set ob)"
    by (auto simp: fm_set_def Let_def split: if_splits dest: set_update_subset_insert [THEN subsetD] in_set_takeD in_set_dropD)
  then show ?thesis using assms e by (auto intro: fm_ok_fm_set)
qed (use assms in simp)

lemma parse_scalar_ok: "parse_value (Suc 0) s = Some (Inr (v, t)) \<Longrightarrow> json_ok v"
  by (auto simp: Let_def parse_then_def split: list.splits if_splits sum.splits dest: parse_number_representable)

lemma parse_json_ok:
  "parse_value n s = Some (Inr (v, t)) \<Longrightarrow> json_ok v"
  "parse_elements n xs s = Some (Inr (ys, t)) \<Longrightarrow> json_ok (VArr xs) \<Longrightarrow> json_ok (VArr ys)"
  "parse_members n ob s = Some (Inr (ob', t)) \<Longrightarrow> json_ok (VObj ob) \<Longrightarrow> json_ok (VObj ob')"
proof (induction n arbitrary: s v t xs ys ob ob')
  case (Suc n)
  {
    case 1
    show ?case
    proof (cases s rule: parse_value_cases)
      case (object u)
      then show ?thesis using 1 Suc.IH(3) [of "[]"] unfolding parse_value_object [OF object]
        by (auto simp: parse_then_Some split: if_splits)
    next
      case (array u)
      then show ?thesis using 1 Suc.IH(2) [of "[]"] unfolding parse_value_array [OF array]
        by (auto simp: parse_then_Some split: if_splits)
    next
      case (scalar r)
      then show ?thesis using 1 scalar [of 0] by (intro parse_scalar_ok) simp
    qed
  next
    case 2
    then obtain w s1 where w: "parse_value n (skip_ws s) = Some (Inr (w, s1))"
      by (auto simp: parse_then_Some)
    have "json_ok (VArr (xs @ [w]))" using Suc.IH(1) [OF w] 2(2) by auto
    then show ?case using 2(1) Suc.IH(2) [of "xs @ [w]"] by (auto simp: w parse_then_def Let_def split: if_splits)
  next
    case 3
    then obtain key s1 w s2 where k: "parse_string (skip_ws s) = Inr (key, s1)"
      and w: "parse_value n (skip_ws (tl (skip_ws s1))) = Some (Inr (w, s2))"
      by (auto simp: parse_then_Some Let_def split: sum.splits if_splits)
    have "json_ok (VObj (fst (fm_emplace key w ob)))" using json_ok_emplace [OF 3(2) Suc.IH(1) [OF w]] .
    then show ?case using 3(1) Suc.IH(3) [of "fst (fm_emplace key w ob)"]
      by (auto simp: k w parse_then_def Let_def split: if_splits)
  }
qed simp_all

definition is_parse_error :: "error \<Rightarrow> bool" where
  "is_parse_error e \<longleftrightarrow> (\<exists>msg. e = parse_error msg)"

lemma is_parse_error [simp]: "is_parse_error (parse_error msg)"
  by (auto simp: is_parse_error_def)

lemma parse_token_errors:
  "parse_unicode s = Inl e \<Longrightarrow> is_parse_error e"
  "parse_escape s = Inl e \<Longrightarrow> is_parse_error e"
  "parse_chars s out = Inl e \<Longrightarrow> is_parse_error e"
  "parse_string s = Inl e \<Longrightarrow> is_parse_error e"
  "expect token s = Inl e \<Longrightarrow> is_parse_error e"
  "parse_number s = Inl e \<Longrightarrow> is_parse_error e"
proof -
  show u: "parse_unicode s = Inl e \<Longrightarrow> is_parse_error e" for s
    by (auto simp: parse_unicode_def split: if_splits option.splits)
  show esc: "parse_escape s = Inl e \<Longrightarrow> is_parse_error e" for s
    by (cases s) (auto split: if_splits dest: u)
  show chars: "parse_chars s out = Inl e \<Longrightarrow> is_parse_error e" for s out
    by (induction s out rule: parse_chars.induct) (auto split: if_splits sum.splits dest: esc)
  show "parse_string s = Inl e \<Longrightarrow> is_parse_error e"
    by (auto simp: parse_string_def split: if_splits dest: chars)
  show "expect token s = Inl e \<Longrightarrow> is_parse_error e"
    by (auto simp: expect_def split: if_splits)
  show "parse_number s = Inl e \<Longrightarrow> is_parse_error e"
    by (auto simp: parse_number_def Let_def split: from_chars_result.splits)
qed

lemma parse_scalar_error: "parse_value (Suc 0) s = Some (Inl e) \<Longrightarrow> is_parse_error e"
  by (auto simp: Let_def parse_then_def split: list.splits if_splits sum.splits dest: parse_token_errors)

lemma parse_then_error:
  "parse_then p f = Some (Inl e) \<longleftrightarrow> p = Some (Inl e) \<or> (\<exists>x s. p = Some (Inr (x, s)) \<and> f x s = Some (Inl e))"
  by (auto simp: parse_then_def split: option.splits sum.splits)

lemma parse_errors:
  "parse_value n s = Some (Inl e) \<Longrightarrow> is_parse_error e"
  "parse_elements n xs s = Some (Inl e) \<Longrightarrow> is_parse_error e"
  "parse_members n ob s = Some (Inl e) \<Longrightarrow> is_parse_error e"
proof (induction n arbitrary: s xs ob)
  case (Suc n)
  {
    case 1
    show ?case
    proof (cases s rule: parse_value_cases)
      case (object u)
      then show ?thesis using 1 Suc.IH(3) unfolding parse_value_object [OF object]
        by (auto simp: parse_then_error split: if_splits)
    next
      case (array u)
      then show ?thesis using 1 Suc.IH(2) unfolding parse_value_array [OF array]
        by (auto simp: parse_then_error split: if_splits)
    next
      case (scalar r)
      then show ?thesis using 1 scalar [of 0] by (intro parse_scalar_error) simp
    qed
  next
    case 2
    then show ?case using Suc.IH(1,2) by (auto simp: parse_then_error Let_def split: if_splits)
  next
    case 3
    then show ?case using Suc.IH(1,3)
      by (auto simp: parse_then_error Let_def split: sum.splits if_splits dest: parse_token_errors(4))
  }
qed simp_all

section \<open>Properties\<close>

text \<open>
  C16: The JSON parser terminates on every text: the fuel it is given, twice the length of the text
  and two, is always enough, so it returns a value or an error.
\<close>

theorem parse_json_returns: "\<exists>r. parse_json s = Some r"
proof -
  have "2 * length (skip_ws s) < parse_fuel s" using skip_ws_rest [of s] by (simp add: parse_fuel_def)
  then obtain r where "parse_value (parse_fuel s) (skip_ws s) = Some r"
    using parse_enough(1) by (metis not_None_eq)
  then show ?thesis by (auto simp: parse_json_def split: sum.split)
qed

text \<open>
  C15: What the JSON parser returns is well formed: an error is a configuration error with the
  parser's prefix; in a value every object is a map sorted by distinct keys, at every depth, and
  every number is a finite double.
\<close>

theorem parse_json_well_formed:
  assumes "parse_json s = Some r"
  shows "case r of Inl e \<Rightarrow> \<exists>msg. e = ConfigError (''failed to parse config JSON: '' @ msg) | Inr v \<Rightarrow> json_ok v"
  using assms parse_json_ok(1) [of "parse_fuel s" "skip_ws s"] parse_errors(1) [of "parse_fuel s" "skip_ws s"]
  by (auto simp: parse_json_def is_parse_error_def parse_error_def split: option.splits sum.splits if_splits)

theorem parse_json_well_formed_witness:
  "case Inr (VArr [VNull, VObj [(''a'', VBool True)]]) :: error + variant of
     Inl e \<Rightarrow> \<exists>msg. e = ConfigError (''failed to parse config JSON: '' @ msg) | Inr v \<Rightarrow> json_ok v"
proof (rule parse_json_well_formed)
  show "parse_json (''[null, {'' @ [CHR 0x22, CHR ''a'', CHR 0x22] @ '':true}]'') =
      Some (Inr (VArr [VNull, VObj [(''a'', VBool True)]]))"
    by code_simp
qed

text \<open>A document is read whole, whatever blanks follow it.\<close>

lemma reads_document:
  assumes "reads s v" "ends_number rest" "skip_ws rest = []"
  shows "parse_json (s @ rest) = Some (Inr v)"
proof -
  obtain n where n: "\<And>m. n \<le> m \<Longrightarrow> parse_value m (s @ rest) = Some (Inr (v, rest))"
    by (rule reads_rest [OF assms(1,2)]) blast
  obtain x where x: "parse_value (parse_fuel (s @ rest)) (s @ rest) = Some x"
    using parse_enough(1) [of "s @ rest" "parse_fuel (s @ rest)"] by (auto simp: parse_fuel_def)
  have "x = Inr (v, rest)"
    using parse_mono(1) [OF x, of "max n (parse_fuel (s @ rest))"] n [of "max n (parse_fuel (s @ rest))"] by simp
  then show ?thesis by (simp add: parse_json_def reads_skip [OF assms(1)] x assms(3))
qed

text \<open>
  C14: Writing a value and parsing the text gives the value back, exactly: every byte of every
  string and key, every finite double, nesting of any depth.  The third-party writer is any
  function that lays a well-nested document out compactly.
\<close>

theorem json_document_roundtrip:
  assumes "compact_writer rj" "json_ok v"
  shows "parse_json (dump_json rj rj_pretty v 0) = Some (Inr v)"
proof -
  have "dump_json rj rj_pretty v 0 = json_text v"
    using assms by (simp add: dump_json_def write_is_doc compact_writer_def)
  then show ?thesis using reads_document [OF reads_json_text [OF assms(2)], of "[]"] by simp
qed

text \<open>A writer of that kind, with a stack of open levels: in an array or not, values written.\<close>

fun before_value :: "(bool \<times> nat) list \<Rightarrow> string" where
  "before_value [] = []"
| "before_value ((arr, n) # st) = (if n = 0 then [] else if arr \<or> even n then '','' else '':'')"

fun counted :: "(bool \<times> nat) list \<Rightarrow> (bool \<times> nat) list" where
  "counted [] = []"
| "counted ((arr, n) # st) = (arr, Suc n) # st"

fun emit :: "(bool \<times> nat) list \<Rightarrow> writer_call list \<Rightarrow> string" where
  "emit st [] = []"
| "emit st (WNull # cs) = before_value st @ ''null'' @ emit (counted st) cs"
| "emit st (WBool b # cs) = before_value st @ (if b then ''true'' else ''false'') @ emit (counted st) cs"
| "emit st (WRaw s # cs) = before_value st @ s @ emit (counted st) cs"
| "emit st (WStartArray # cs) = before_value st @ ''['' @ emit ((True, 0) # counted st) cs"
| "emit st (WStartObject # cs) = before_value st @ ''{'' @ emit ((False, 0) # counted st) cs"
| "emit st (WEndArray # cs) = '']'' @ emit (tl st) cs"
| "emit st (WEndObject # cs) = ''}'' @ emit (tl st) cs"

lemma join_append_one: "join sep (xs @ [x]) = (if xs = [] then x else join sep xs @ sep @ x)"
  by (induction xs rule: induct_list012) simp_all

lemma emit_calls: "emit st (calls d @ cs) = before_value st @ compact_text d @ emit (counted st) cs"
proof (induction d arbitrary: st cs)
  case (DArr ds)
  have "emit ((True, n) # st) (concat (map calls xs) @ cs) =
      (if xs = [] then [] else (if n = 0 then [] else '','') @ join '','' (map compact_text xs)) @
      emit ((True, n + length xs) # st) cs" if "set xs \<subseteq> set ds" for xs n st cs
    using that
  proof (induction xs arbitrary: n)
    case (Cons x xs)
    then have "emit s (calls x @ c) = before_value s @ compact_text x @ emit (counted s) c" for s c
      using DArr by simp
    then show ?case using Cons by (cases xs) simp_all
  qed simp
  from this [of ds 0] show ?case by simp
next
  case (DObj kds)
  have "emit ((False, 2 * n) # st) (concat (map (\<lambda>kd. WRaw (fst kd) # calls (snd kd)) xs) @ cs) =
      (if xs = [] then [] else (if n = 0 then [] else '','') @ join '','' (map (\<lambda>kd. fst kd @ '':'' @ compact_text (snd kd)) xs)) @
      emit ((False, 2 * (n + length xs)) # st) cs" if "set xs \<subseteq> set kds" for xs n st cs
    using that
  proof (induction xs arbitrary: n)
    case (Cons x xs)
    have x: "emit s (calls (snd x) @ c) = before_value s @ compact_text (snd x) @ emit (counted s) c" for s c
      using DObj [of x "snd x"] Cons.prems by (cases x) (auto simp: prod_set_defs)
    show ?case using Cons.IH [of "Suc n"] Cons.prems by (cases xs) (simp_all add: x)
  qed simp
  from this [of kds 0] show ?case by (simp add: comp_def)
qed simp_all

lemma compact_writer_emit: "compact_writer (emit [])"
  using emit_calls [of "[]" _ "[]"] by (simp add: compact_writer_def)

theorem json_document_roundtrip_witness:
  "parse_json (dump_json (emit []) (\<lambda>_ _. [])
      (VObj [(''a'', VArr [VNum (DFin True (1 / 8)), VNull]), (''b'', VStr ''<x>'')]) 0) =
    Some (Inr (VObj [(''a'', VArr [VNum (DFin True (1 / 8)), VNull]), (''b'', VStr ''<x>'')]))"
proof (rule json_document_roundtrip [OF compact_writer_emit])
  have "round64 (1 / 8) = Some (1 / 8)" by code_simp
  then show "json_ok (VObj [(''a'', VArr [VNum (DFin True (1 / 8)), VNull]), (''b'', VStr ''<x>'')])"
    by (simp add: fm_ok_def)
qed

end
