(* ===== verification/Format_Helpers.thy ===== *)
theory Format_Helpers
  imports Json_Text Operator_Input
begin

text \<open>
  The helpers shared by the operators and the template resolver
  (\<open>operators/_helpers.cpp\<close>): conversions, required fields, Go's \<open>%v\<close> rendering of numbers, the
  keys for deduplication and cache suffixes.  An \<open>OperatorError\<close> is a \<open>std::runtime_error\<close>.
\<close>

section \<open>Types and required fields\<close>

fun to_double :: "variant \<Rightarrow> error + double" where
  "to_double (VBool b) = Inl (StdException ''cannot convert bool to float64'')"
| "to_double (VNum d) = Inr d"
| "to_double VNull = Inl (StdException ''cannot convert <nil> to float64'')"
| "to_double (VStr s) = Inl (StdException ''cannot convert string to float64'')"
| "to_double (VArr xs) = Inl (StdException ''cannot convert []interface {} to float64'')"
| "to_double (VObj kvs) = Inl (StdException ''cannot convert map[string]interface {} to float64'')"

fun json_type_name :: "variant \<Rightarrow> string" where
  "json_type_name VNull = ''<nil>''"
| "json_type_name (VBool b) = ''bool''"
| "json_type_name (VNum d) = ''float64''"
| "json_type_name (VStr s) = ''string''"
| "json_type_name (VArr xs) = ''[]interface {}''"
| "json_type_name (VObj kvs) = ''map[string]interface {}''"

definition require_common_by_name :: "frame \<Rightarrow> variant flat_map \<Rightarrow> string \<Rightarrow> error + variant" where
  "require_common_by_name f defaults field =
     (let v = frame_get_common f field
      in if \<not> is_null v then Inr v
         else case fm_find defaults field of
                Some d \<Rightarrow> Inr d
              | None \<Rightarrow> Inl (ExecutionError None (''required field '' @ quoted field @ '' is nil in common'')))"

definition require_item_by_name :: "frame \<Rightarrow> nat \<Rightarrow> variant flat_map \<Rightarrow> string \<Rightarrow> error + variant" where
  "require_item_by_name f i defaults field =
     (let v = frame_item f i field
      in if \<not> is_null v then Inr v
         else case fm_find defaults field of
                Some d \<Rightarrow> Inr d
              | None \<Rightarrow> Inl (ExecutionError None (''required field '' @ quoted field @ '' is nil on item['' @
                          string_of_nat i @ '']'')))"

definition require_common :: "frame \<Rightarrow> operator_config \<Rightarrow> string \<Rightarrow> error + variant" where
  "require_common f op field = require_common_by_name f (oc_common_defaults op) field"

definition require_item :: "frame \<Rightarrow> operator_config \<Rightarrow> nat \<Rightarrow> string \<Rightarrow> error + variant" where
  "require_item f op i field = require_item_by_name f i (oc_item_defaults op) field"

section \<open>Numbers\<close>

text \<open>The scientific rendering taken apart: sign, mantissa digits, exponent.\<close>

definition go_format_g_parts :: "string \<Rightarrow> bool \<times> string \<times> int" where
  "go_format_g_parts s =
     (let neg = s \<noteq> [] \<and> hd s = CHR ''-''; body = (if neg then tl s else s);
          is_exp = (\<lambda>c. c = CHR ''e'' \<or> c = CHR ''E'');
          mantissa = filter (\<lambda>c. c \<noteq> CHR ''.'') (takeWhile (\<lambda>c. \<not> is_exp c) body)
      in (neg, mantissa, signed_exponent (tl (dropWhile (\<lambda>c. \<not> is_exp c) body))))"

fun go_format_g :: "double \<Rightarrow> string" where
  "go_format_g DNaN = ''NaN''"
| "go_format_g (DInf s) = (if s then ''-Inf'' else ''+Inf'')"
| "go_format_g (DFin s q) =
     (if q = 0 then (if s then ''-0'' else ''0'')
      else let (neg, mantissa, e) = go_format_g_parts (to_chars (DFin s q)); nd = int (length mantissa); dp_pos = e + 1
           in (if neg then ''-'' else []) @
              (if e < - 4 \<or> e \<ge> 6
               then [hd mantissa] @ (if nd > 1 then CHR ''.'' # tl mantissa else []) @ ''e'' @ exponent_text e
               else if dp_pos \<le> 0 then ''0.'' @ replicate (nat (- dp_pos)) CHR ''0'' @ mantissa
               else if dp_pos \<ge> nd then mantissa @ replicate (nat (dp_pos - nd)) CHR ''0''
               else take (nat dp_pos) mantissa @ ''.'' @ drop (nat dp_pos) mantissa))"

text \<open>
  \<open>std::to_chars(..., std::chars_format::fixed)\<close>: the shortest digits, and the exact value where
  these end above the units.
\<close>

definition fixed_chars :: "bool \<Rightarrow> rat \<Rightarrow> string" where
  "fixed_chars s q =
     (let (m, k) = shortest_decimal q; ds = string_of_nat m
      in (if s then ''-'' else []) @
         (if q = 0 then ''0''
          else if 0 \<le> k then string_of_nat (nat \<lfloor>q\<rfloor>)
          else let dp = int (length ds) + k
               in if dp \<le> 0 then ''0.'' @ replicate (nat (- dp)) CHR ''0'' @ ds
                  else take (nat dp) ds @ ''.'' @ drop (nat dp) ds))"

text \<open>
  The cast to \<open>int64_t\<close> is undefined outside the range of the type; the comparison that follows it
  is taken to fail there, as it does on the platforms in use.
\<close>

fun go_format_lookup_key :: "double \<Rightarrow> string" where
  "go_format_lookup_key (DFin s q) =
     (let i = dtrunc (DFin s q)
      in if is_integer q \<and> - (2 ^ 63) \<le> i \<and> i < 2 ^ 63 then string_of_int i else fixed_chars s q)"
| "go_format_lookup_key d = go_format_g d"

section \<open>Renderings\<close>

fun sprint_value :: "variant \<Rightarrow> string" where
  "sprint_value VNull = ''<nil>''"
| "sprint_value (VBool b) = (if b then ''true'' else ''false'')"
| "sprint_value (VNum d) = go_format_g d"
| "sprint_value (VStr s) = s"
| "sprint_value v = ''<complex>''"

text \<open>\<open>rj\<close> is the third-party JSON writer of \<open>dump_json\<close>, used in its compact form.\<close>

definition compact_json :: "(writer_call list \<Rightarrow> string) \<Rightarrow> variant \<Rightarrow> string" where
  "compact_json rj v = dump_json rj (\<lambda>_. rj) v 0"

fun any_to_string :: "(writer_call list \<Rightarrow> string) \<Rightarrow> variant \<Rightarrow> string" where
  "any_to_string rj VNull = []"
| "any_to_string rj (VStr s) = s"
| "any_to_string rj (VNum d) = go_format_g d"
| "any_to_string rj (VBool b) = (if b then ''true'' else ''false'')"
| "any_to_string rj v = compact_json rj v"

text \<open>\<open>d == 0.0\<close> is turned into positive zero before it is printed.\<close>

fun positive_zero :: "double \<Rightarrow> double" where
  "positive_zero (DFin s q) = (if q = 0 then DFin False 0 else DFin s q)"
| "positive_zero d = d"

fun dedup_key :: "(writer_call list \<Rightarrow> string) \<Rightarrow> variant \<Rightarrow> string" where
  "dedup_key rj VNull = ''N:''"
| "dedup_key rj (VBool b) = (if b then ''B:1'' else ''B:0'')"
| "dedup_key rj (VNum d) = ''F:'' @ go_format_g (positive_zero d)"
| "dedup_key rj (VStr s) = ''S:'' @ s"
| "dedup_key rj v = ''O:'' @ compact_json rj v"

definition build_key_suffix :: "operator_input \<Rightarrow> string list \<Rightarrow> string" where
  "build_key_suffix inp fs = join '':'' (map (\<lambda>field. sprint_value (in_common inp field)) fs)"

definition frame_key_suffix :: "frame \<Rightarrow> string list \<Rightarrow> string" where
  "frame_key_suffix f fs = join '':'' (map (\<lambda>field. sprint_value (frame_get_common f field)) fs)"

fun json_to_string_slice :: "variant \<Rightarrow> string list" where
  "json_to_string_slice (VArr xs) = map sprint_value xs"
| "json_to_string_slice v = []"

end
