(* ===== verification/Templates.thy ===== *)
theory Templates
  imports Format_Helpers Markers
begin

text \<open>
  Template parameters at run time (\<open>src/runtime/template.cpp\<close>): a parameter whose value is a marker
  takes the text of a common field, read as the declared scalar type.
\<close>

section \<open>Texts of common fields\<close>

fun stringify_common :: "(writer_call list \<Rightarrow> string) \<Rightarrow> variant \<Rightarrow> string" where
  "stringify_common rj (VStr s) = s"
| "stringify_common rj (VBool b) = (if b then ''true'' else ''false'')"
| "stringify_common rj (VNum d) = go_format_g d"
| "stringify_common rj v = compact_json rj v"

section \<open>Integers\<close>

text \<open>
  \<open>strtoll\<close> in base ten on the whole text: blanks before the number, an optional sign, digits.
  \<open>errno\<close> reports a value outside 64 bits.
\<close>

definition split_sign :: "string \<Rightarrow> bool \<times> string" where
  "split_sign s =
     (if s \<noteq> [] \<and> hd s = CHR ''-'' then (True, tl s)
      else if s \<noteq> [] \<and> hd s = CHR ''+'' then (False, tl s) else (False, s))"

definition parse_int64_strict :: "string \<Rightarrow> int option" where
  "parse_int64_strict s =
     (let (neg, ds) = split_sign (skip_ws s)
      in if ds = [] \<or> \<not> list_all is_digit ds then None
         else let v = (if neg then - int (nat_of_digits ds) else int (nat_of_digits ds))
              in if - (2 ^ 63) \<le> v \<and> v < 2 ^ 63 then Some v else None)"

section \<open>Floating point numbers\<close>

definition lower :: "char \<Rightarrow> char" where
  "lower c = (let n = of_char c :: nat in if 65 \<le> n \<and> n \<le> 90 then char_of (n + 32) else c)"

text \<open>The nearest double, infinite on overflow.\<close>

definition nearest :: "bool \<Rightarrow> rat \<Rightarrow> double" where
  "nearest neg q = (case round64 q of Some r \<Rightarrow> DFin neg r | None \<Rightarrow> DInf neg)"

text \<open>An exponent after the letter: sign and digits to the end of the text.\<close>

definition whole_exponent :: "string \<Rightarrow> int option" where
  "whole_exponent s =
     (let (neg, ds) = split_sign s
      in if ds = [] \<or> \<not> list_all is_digit ds then None
         else Some (if neg then - int (nat_of_digits ds) else int (nat_of_digits ds)))"

text \<open>Integer digits, fraction digits after a point, and what follows.\<close>

definition split_mantissa :: "(char \<Rightarrow> bool) \<Rightarrow> string \<Rightarrow> string \<times> string \<times> string" where
  "split_mantissa digit s =
     (let ip = takeWhile digit s; t = dropWhile digit s
      in if t \<noteq> [] \<and> hd t = CHR ''.'' then (ip, takeWhile digit (tl t), dropWhile digit (tl t)) else (ip, [], t))"

definition decimal_float :: "bool \<Rightarrow> string \<Rightarrow> double option" where
  "decimal_float neg s =
     (let (ip, fp, t) = split_mantissa is_digit s;
          e = (if t = [] then Some 0 else if lower (hd t) = CHR ''e'' then whole_exponent (tl t) else None)
      in if ip @ fp = [] then None
         else map_option (\<lambda>e. nearest neg (of_nat (nat_of_digits (ip @ fp)) * pow10 (e - int (length fp)))) e)"

definition nat_of_hex :: "string \<Rightarrow> nat" where
  "nat_of_hex s = foldl (\<lambda>n c. 16 * n + (case hex_val c of Some d \<Rightarrow> d | None \<Rightarrow> 0)) 0 s"

definition hex_float :: "bool \<Rightarrow> string \<Rightarrow> double option" where
  "hex_float neg s =
     (let (ip, fp, t) = split_mantissa (\<lambda>c. hex_val c \<noteq> None) s;
          e = (if t = [] then Some 0 else if lower (hd t) = CHR ''p'' then whole_exponent (tl t) else None)
      in if ip @ fp = [] then None
         else map_option (\<lambda>e. nearest neg (of_nat (nat_of_hex (ip @ fp)) * pow2 (e - 4 * int (length fp)))) e)"

text \<open>\<open>nan\<close>, or \<open>nan(...)\<close> with word characters in the parentheses.\<close>

definition is_nan_text :: "string \<Rightarrow> bool" where
  "is_nan_text s \<longleftrightarrow>
     map lower (take 3 s) = ''nan'' \<and>
     (let t = drop 3 s in t = [] \<or> hd t = CHR ''('' \<and> dropWhile is_word_char (tl t) = '')'')"

text \<open>\<open>strtod\<close> on the whole text; overflow gives an infinity.\<close>

definition parse_float64_strict :: "string \<Rightarrow> double option" where
  "parse_float64_strict s =
     (let (neg, t) = split_sign (skip_ws s)
      in if map lower t = ''inf'' \<or> map lower t = ''infinity'' then Some (DInf neg)
         else if is_nan_text t then Some DNaN
         else if map lower (take 2 t) = ''0x'' then hex_float neg (drop 2 t)
         else decimal_float neg t)"

section \<open>Coercion\<close>

definition parse_strict_bool :: "string \<Rightarrow> bool option" where
  "parse_strict_bool s =
     (if s \<in> {''1'', ''t'', ''T'', ''true'', ''TRUE'', ''True''} then Some True
      else if s \<in> {''0'', ''f'', ''F'', ''false'', ''FALSE'', ''False''} then Some False else None)"

definition coerce_error_message :: "string \<Rightarrow> string \<Rightarrow> string \<Rightarrow> string" where
  "coerce_error_message param_name scalar_type s =
     ''templated param '' @ quoted param_name @ '' cannot coerce '' @ quoted s @ '' to '' @ scalar_type"

definition coerced :: "string \<Rightarrow> string \<Rightarrow> string \<Rightarrow> variant option \<Rightarrow> error + variant" where
  "coerced param_name scalar_type s r =
     (case r of Some v \<Rightarrow> Inr v
      | None \<Rightarrow> Inl (ExecutionError None (coerce_error_message param_name scalar_type s)))"

definition coerce_scalar :: "string \<Rightarrow> string \<Rightarrow> string \<Rightarrow> error + variant" where
  "coerce_scalar param_name scalar_type s =
     (if scalar_type = ''string'' then Inr (VStr s)
      else if scalar_type = ''int64''
      then coerced param_name scalar_type s (map_option (\<lambda>i. VNum (double_of_int i)) (parse_int64_strict s))
      else if scalar_type = ''float64'' then coerced param_name scalar_type s (map_option VNum (parse_float64_strict s))
      else if scalar_type = ''bool'' then coerced param_name scalar_type s (map_option VBool (parse_strict_bool s))
      else Inl (ExecutionError None (''templated param '' @ quoted param_name @ '' has unsupported scalar type '' @
             quoted scalar_type)))"

section \<open>Resolution\<close>

definition resolve_param ::
  "(writer_call list \<Rightarrow> string) \<Rightarrow> frame \<Rightarrow> templated_param \<Rightarrow> variant unordered_map \<Rightarrow>
   error + variant unordered_map" where
  "resolve_param rj f p out =
     (let val = frame_get_common f (tp_field p)
      in if is_null val
         then Inl (ExecutionError None (''templated param '' @ quoted (tp_name p) @ '' references common field '' @
                quoted (tp_field p) @ '' which is missing''))
         else rbind (coerce_scalar (tp_name p) (tp_scalar_type p) (stringify_common rj val)) (\<lambda>v.
           Inr (if map_of out (tp_name p) = None then um_set (tp_name p) v out else out)))"

definition resolve_templated_params ::
  "(writer_call list \<Rightarrow> string) \<Rightarrow> templated_param list \<Rightarrow> frame \<Rightarrow> error + variant unordered_map" where
  "resolve_templated_params rj plan f = rfold (resolve_param rj f) plan []"

end
