(* ===== verification/Template_Theorems.thy ===== *)
theory Template_Theorems
  imports Templates Json_Number_Laws Input_Theorems
begin

text \<open>
  What template parameters resolve to: the value of a common field, read as the declared scalar type, or the error of the first
  parameter whose field is missing or refused by its type.
\<close>

section \<open>Texts of numbers\<close>

definition frac_text :: "string \<Rightarrow> string" where
  "frac_text fp = (if fp = [] then [] else CHR ''.'' # fp)"

definition exp_text :: "int option \<Rightarrow> string" where
  "exp_text x = (case x of None \<Rightarrow> [] | Some e \<Rightarrow> ''e'' @ exponent_text e)"

lemma lower_letters:
  "lower (CHR ''e'') = CHR ''e''" "lower (CHR ''.'') = CHR ''.''" "lower (CHR ''-'') = CHR ''-''"
  "lower (CHR ''+'') = CHR ''+''" "is_digit c \<Longrightarrow> lower c = c"
  by (auto simp: lower_def is_digit_def Let_def)

lemma not_digit_letters: "\<not> is_digit CHR ''i''" "\<not> is_digit CHR ''n''"
  by (simp_all add: is_digit_def)

lemma lower_not_x:
  assumes "is_digit c \<or> c = CHR ''.'' \<or> c = CHR ''e'' \<or> c = CHR ''-'' \<or> c = CHR ''+''"
  shows "lower c \<noteq> CHR ''x''"
proof -
  have "\<not> is_digit CHR ''x''" by (simp add: is_digit_def)
  then have "is_digit c \<Longrightarrow> lower c \<noteq> CHR ''x''" using lower_letters(5) by metis
  then show ?thesis using assms lower_letters(1-4) by (elim disjE) simp_all
qed

lemma go_format_g_parts_scientific:
  assumes "strip_zeros (string_of_nat m) = d # ds" "list_all is_digit (d # ds)"
  shows "go_format_g_parts (scientific neg (m, k)) = (neg, d # ds, k + int (length (string_of_nat m)) - 1)"
proof -
  let ?e = "k + int (length (string_of_nat m)) - 1"
  let ?mant = "d # frac_text ds"
  have d: "d \<noteq> CHR ''-''" using assms(2) not_digits by auto
  have s: "scientific neg (m, k) = (if neg then ''-'' else []) @ ?mant @ CHR ''e'' # exponent_text ?e"
    by (simp add: scientific_def assms(1) frac_text_def)
  have letters: "\<forall>c \<in> set ?mant. \<not> (c = CHR ''e'' \<or> c = CHR ''E'')"
    using assms(2) not_digits by (auto simp: frac_text_def list_all_iff)
  have digits: "filter (\<lambda>c. c \<noteq> CHR ''.'') ?mant = d # ds"
    using assms(2) not_digits by (auto simp: frac_text_def list_all_iff intro!: filter_True)
  show ?thesis
    using letters digits d by (simp add: go_format_g_parts_def s Let_def takeWhile_append dropWhile_append signed_exponent_text)
qed

lemma go_format_g_text:
  assumes q: "0 < q" "round64 q = Some q"
  obtains ip fp x where "go_format_g (DFin neg q) = (if neg then ''-'' else []) @ ip @ frac_text fp @ exp_text x"
    "list_all is_digit ip" "ip \<noteq> []" "list_all is_digit fp"
    "round64 (of_nat (nat_of_digits (ip @ fp)) * pow10 ((case x of None \<Rightarrow> 0 | Some e \<Rightarrow> e) - int (length fp))) = Some q"
proof -
  obtain m k d ds where mk: "shortest_decimal q = (m, k)" "0 < m" and ds: "strip_zeros (string_of_nat m) = d # ds"
      "list_all is_digit (d # ds)"
    and val: "round64 (of_nat (nat_of_digits (d # ds)) * pow10 (k + int (length (string_of_nat m)) - int (length (d # ds)))) = Some q"
    by (rule shortest_significand [OF q])
  define E where "E = k + int (length (string_of_nat m))"
  note val = val [folded E_def]
  have parts: "go_format_g_parts (to_chars (DFin neg q)) = (neg, d # ds, E - 1)"
    by (simp add: mk go_format_g_parts_scientific [OF ds] E_def)
  show ?thesis
  proof (cases "E - 1 < - 4 \<or> E - 1 \<ge> 6")
    case True
    have "go_format_g (DFin neg q) = (if neg then ''-'' else []) @ [d] @ frac_text ds @ exp_text (Some (E - 1))"
      using True q(1) unfolding go_format_g.simps parts by (simp add: frac_text_def exp_text_def)
    then show ?thesis by (rule that) (use val ds(2) in \<open>simp_all add: diff_diff_eq\<close>)
  next
    case False
    obtain ip fp where t: "positioned (d # ds) E = ip @ (if fp = [] then [] else CHR ''.'' # fp)"
        "list_all is_digit ip" "ip \<noteq> []" "list_all is_digit fp"
        "round64 (of_nat (nat_of_digits (ip @ fp)) * pow10 (- int (length fp))) = Some q"
      by (rule positioned_text [OF ds(2) val])
    have "go_format_g (DFin neg q) = (if neg then ''-'' else []) @ positioned (d # ds) E"
      using False q(1) unfolding go_format_g.simps parts by (simp add: positioned_def)
    also have "\<dots> = (if neg then ''-'' else []) @ ip @ frac_text fp @ exp_text None"
      by (simp add: t(1) frac_text_def exp_text_def)
    finally show ?thesis by (rule that [OF _ t(2-4)]) (use t(5) in simp)
  qed
qed

lemma whole_exponent_text: "whole_exponent (exponent_text e) = Some e"
proof -
  define ds where "ds = (if \<bar>e\<bar> < 10 then ''0'' else []) @ string_of_nat (nat \<bar>e\<bar>)"
  have ds: "ds \<noteq> []" "list_all is_digit ds" "nat_of_digits ds = nat \<bar>e\<bar>" by (auto simp: ds_def)
  have "exponent_text e = (if e < 0 then CHR ''-'' else CHR ''+'') # ds"
    by (simp add: exponent_text_def ds_def)
  then show ?thesis using ds by (simp add: whole_exponent_def split_sign_def)
qed

lemma decimal_float_text:
  assumes ds: "list_all is_digit ip" "ip \<noteq> []" "list_all is_digit fp"
    and q: "round64 (of_nat (nat_of_digits (ip @ fp)) * pow10 ((case x of None \<Rightarrow> 0 | Some e \<Rightarrow> e) - int (length fp))) = Some q"
  shows "decimal_float neg (ip @ frac_text fp @ exp_text x) = Some (DFin neg q)"
proof -
  have ex: "exp_text x = [] \<or> \<not> is_digit (hd (exp_text x))" "hd (exp_text x) \<noteq> CHR ''.'' \<or> exp_text x = []"
    by (auto simp: exp_text_def not_digits split: option.split)
  have fr: "frac_text fp @ exp_text x = [] \<or> \<not> is_digit (hd (frac_text fp @ exp_text x))"
    using ex by (auto simp: frac_text_def not_digits)
  have "split_mantissa is_digit (ip @ frac_text fp @ exp_text x) = (ip, fp, exp_text x)"
    using dropWhile_digits [OF ds(1) fr] dropWhile_digits [OF ds(3) ex(1)] ex(2)
    by (auto simp: split_mantissa_def Let_def frac_text_def)
  then show ?thesis
    using ds(2) q by (cases x) (auto simp: decimal_float_def exp_text_def whole_exponent_text lower_letters nearest_def)
qed

lemma parse_float_text:
  assumes "representable d"
  shows "parse_float64_strict (go_format_g d) = Some d"
proof -
  from assms obtain neg q where d: "d = DFin neg q" and q: "0 \<le> q" "round64 q = Some q" by (cases d) auto
  obtain ip fp x where t: "go_format_g d = (if neg then ''-'' else []) @ ip @ frac_text fp @ exp_text x"
    "list_all is_digit ip" "ip \<noteq> []" "list_all is_digit fp"
    "round64 (of_nat (nat_of_digits (ip @ fp)) * pow10 ((case x of None \<Rightarrow> 0 | Some e \<Rightarrow> e) - int (length fp))) = Some q"
  proof (cases "q = 0")
    case True
    then have "go_format_g d = (if neg then ''-'' else []) @ ''0'' @ frac_text [] @ exp_text None"
      by (simp add: d frac_text_def exp_text_def)
    then show ?thesis by (rule that) (use True in \<open>simp_all add: round64_def\<close>)
  next
    case False
    then have "0 < q" using q(1) by simp
    from this q(2) show ?thesis by (rule go_format_g_text [of q neg]) (rule that, simp_all add: d)
  qed
  let ?body = "ip @ frac_text fp @ exp_text x"
  obtain c r where c: "?body = c # r" "is_digit c" using t(2,3) by (cases ip) auto
  have second: "r = [] \<or> lower (hd r) \<noteq> CHR ''x''"
  proof -
    have "list_all (\<lambda>c. lower c \<noteq> CHR ''x'') s" if "list_all is_digit s" for s
      using that lower_not_x by (simp add: list_all_iff)
    note digits = this [OF t(2)] this [OF t(4)] this [OF string_of_nat_laws(1)]
    have "list_all (\<lambda>c. lower c \<noteq> CHR ''x'') ?body"
      using digits lower_letters(1-4)
      by (cases x) (simp_all add: frac_text_def exp_text_def exponent_text_def lower_not_x)
    then show ?thesis unfolding c(1) by (cases r) simp_all
  qed
  have sp: "\<not> is_space c" "c \<noteq> CHR ''-''" "c \<noteq> CHR ''+''" using c(2) not_digits by (auto simp: is_space_def is_digit_def Let_def)
  have "split_sign (skip_ws (go_format_g d)) = (neg, ?body)"
    using sp by (cases neg) (auto simp: t(1) c(1) skip_ws_def split_sign_def is_space_def)
  moreover have c': "lower c = c" "c \<noteq> CHR ''i''" "c \<noteq> CHR ''n''" using c(2) lower_letters(5) not_digit_letters by auto
  have "map lower ?body \<noteq> ''inf''" "map lower ?body \<noteq> ''infinity''" using c' by (simp_all add: c(1))
  moreover have "\<not> is_nan_text ?body" using c' by (simp add: c(1) is_nan_text_def)
  moreover have "map lower (take 2 ?body) \<noteq> ''0x''"
    using second unfolding c(1) by (cases r) simp_all
  ultimately show ?thesis
    using decimal_float_text [OF t(2-5)] by (simp add: parse_float64_strict_def d)
qed

section \<open>Resolution\<close>

text \<open>
  What a parameter of a declared scalar type takes from the value of its field: the value itself when it has the type (a double
  must be finite), and the value its text denotes otherwise.
\<close>

inductive reads_as :: "string \<Rightarrow> variant \<Rightarrow> variant \<Rightarrow> bool" where
  string_string: "reads_as ''string'' (VStr s) (VStr s)"
| string_bool: "reads_as ''string'' (VBool b) (VStr (if b then ''true'' else ''false''))"
| string_number: "reads_as ''string'' (VNum d) (VStr (go_format_g d))"
| bool_bool: "reads_as ''bool'' (VBool b) (VBool b)"
| bool_true: "s \<in> {''1'', ''t'', ''T'', ''true'', ''TRUE'', ''True''} \<Longrightarrow> reads_as ''bool'' (VStr s) (VBool True)"
| bool_false: "s \<in> {''0'', ''f'', ''F'', ''false'', ''FALSE'', ''False''} \<Longrightarrow> reads_as ''bool'' (VStr s) (VBool False)"
| float_number: "representable d \<Longrightarrow> reads_as ''float64'' (VNum d) (VNum d)"
| float_text: "representable d \<Longrightarrow> reads_as ''float64'' (VStr (go_format_g d)) (VNum d)"
| int_text: "- (2 ^ 63) \<le> i \<Longrightarrow> i < 2 ^ 63 \<Longrightarrow> reads_as ''int64'' (VStr (string_of_int i)) (VNum (double_of_int i))"

text \<open>
  Values no parameter of the type takes: for a boolean a text that is none of the twelve spellings; for an integer a text
  without digits or with a character that is no digit, sign or blank, and a number that is not whole; for both kinds of number a boolean.
\<close>

fun refused :: "string \<Rightarrow> variant \<Rightarrow> bool" where
  "refused t (VStr s) \<longleftrightarrow>
     t = ''bool'' \<and> s \<notin> {''1'', ''t'', ''T'', ''true'', ''TRUE'', ''True'', ''0'', ''f'', ''F'', ''false'', ''FALSE'', ''False''} \<or>
     t = ''int64'' \<and> (list_all (\<lambda>c. \<not> is_digit c) s \<or> \<not> list_all (\<lambda>c. is_digit c \<or> is_space c \<or> c = CHR ''+'' \<or> c = CHR ''-'') s)"
| "refused t (VBool b) \<longleftrightarrow> t = ''int64'' \<or> t = ''float64''"
| "refused t (VNum d) \<longleftrightarrow> t = ''int64'' \<and> representable d \<and> \<not> is_integer (dval d)"
| "refused t v \<longleftrightarrow> False"

lemma digit_is_no_sign: "is_digit c \<Longrightarrow> \<not> is_space c \<and> c \<noteq> CHR ''-'' \<and> c \<noteq> CHR ''+''"
  using not_digits by (auto simp: is_space_def is_digit_def Let_def)

inductive_cases reads_asE: "reads_as t (VBool b) w" "reads_as t (VStr s) w"

lemma parse_int_text: "- (2 ^ 63) \<le> i \<Longrightarrow> i < 2 ^ 63 \<Longrightarrow> parse_int64_strict (string_of_int i) = Some i"
proof -
  assume i: "- (2 ^ 63) \<le> i" "i < 2 ^ 63"
  have first: "ds \<noteq> [] \<and> \<not> is_space (hd ds) \<and> hd ds \<noteq> CHR ''-'' \<and> hd ds \<noteq> CHR ''+''" if "ds = string_of_nat n" for ds n
  proof -
    have "ds \<noteq> []" "list_all is_digit ds" using that by simp_all
    then show ?thesis using digit_is_no_sign [of "hd ds"] by (cases ds) simp_all
  qed
  show ?thesis
  proof (cases "i < 0")
    case True
    then have "split_sign (skip_ws (string_of_int i)) = (True, string_of_nat (nat (- i)))"
      by (simp add: string_of_int_def skip_ws_def split_sign_def is_space_def)
    then show ?thesis using True i by (simp add: parse_int64_strict_def)
  next
    case False
    define ds where "ds = string_of_nat (nat i)"
    have "skip_ws ds = ds" using first [OF ds_def] by (cases ds) (simp_all add: skip_ws_def)
    then have "split_sign (skip_ws (string_of_int i)) = (False, ds)"
      using False first [OF ds_def] by (simp add: string_of_int_def split_sign_def flip: ds_def)
    then show ?thesis using False i by (simp add: parse_int64_strict_def ds_def)
  qed
qed

lemma coerce_reads_as: "reads_as t v w \<Longrightarrow> coerce_scalar name t (stringify_common rj v) = Inr w \<and> v \<noteq> VNull"
proof (induction rule: reads_as.induct)
  case (bool_true s)
  then show ?case by (auto simp: coerce_scalar_def coerced_def parse_strict_bool_def)
next
  case (bool_false s)
  then show ?case by (auto simp: coerce_scalar_def coerced_def parse_strict_bool_def)
next
  case (bool_bool b)
  then show ?case by (cases b) (simp_all add: coerce_scalar_def coerced_def parse_strict_bool_def)
qed (simp_all add: coerce_scalar_def coerced_def parse_float_text parse_int_text)

lemma int_chars:
  assumes "parse_int64_strict s = Some i"
  shows "list_all (\<lambda>c. is_digit c \<or> is_space c \<or> c = CHR ''+'' \<or> c = CHR ''-'') s \<and> \<not> list_all (\<lambda>c. \<not> is_digit c) s"
proof -
  obtain neg ds where ds: "split_sign (skip_ws s) = (neg, ds)" by fastforce
  then have d: "ds \<noteq> []" "list_all is_digit ds" using assms by (auto simp: parse_int64_strict_def split: if_splits)
  have "s = takeWhile is_space s @ skip_ws s" by (simp add: skip_ws_def)
  moreover have "\<exists>sg. skip_ws s = sg @ ds \<and> set sg \<subseteq> {CHR ''+'', CHR ''-''}"
    using ds by (cases "skip_ws s") (auto simp: split_sign_def split: if_splits intro: exI [of _ "[]"] exI [of _ "[_]"])
  ultimately obtain sg where s: "s = takeWhile is_space s @ sg @ ds" "set sg \<subseteq> {CHR ''+'', CHR ''-''}" by metis
  have "c \<in> set s \<Longrightarrow> is_digit c \<or> is_space c \<or> c = CHR ''+'' \<or> c = CHR ''-''" for c
  proof -
    assume "c \<in> set s"
    then have "c \<in> set (takeWhile is_space s @ sg @ ds)" by (subst (asm) s(1))
    then show ?thesis using d(2) s(2) by (auto simp: list_all_iff dest: set_takeWhileD)
  qed
  moreover have "hd ds \<in> set s" using d(1) by (subst s(1)) simp
  moreover have "is_digit (hd ds)" using d by (cases ds) simp_all
  ultimately show ?thesis by (auto simp: list_all_iff)
qed

lemma is_integer_iff: "is_integer q \<longleftrightarrow> q \<in> \<int>"
  by (auto simp: is_integer_def Ints_def)

lemma round64_whole:
  assumes "round64 (of_nat n) = Some q"
  shows "is_integer q"
proof (cases "n = 0")
  case True
  then show ?thesis using assms by (simp add: round64_def is_integer_iff)
next
  case False
  define k where "k = max (binary_exponent (of_nat n) - 52) (- 1074)"
  have q: "q = of_int (round_even (of_nat n / pow2 k)) * pow2 k"
    using assms False by (auto simp: round64_def Let_def k_def [symmetric] split: if_splits)
  show ?thesis
  proof (cases "0 \<le> k")
    case True
    then show ?thesis by (simp add: q pow2_def is_integer_iff)
  next
    case False
    then have "(of_nat n :: rat) / pow2 k = of_int (int n * 2 ^ nat (- k))" by (simp add: pow2_def)
    then show ?thesis using False by (simp add: q round_even_of_int del: of_int_mult) (simp add: pow2_def is_integer_iff)
  qed
qed

lemma refused_number:
  assumes "representable d" "\<not> is_integer (dval d)"
  shows "parse_int64_strict (go_format_g d) = None"
proof -
  from assms(1) obtain neg q where d: "d = DFin neg q" and q: "0 \<le> q" "round64 q = Some q" by (cases d) auto
  have "q \<noteq> 0" using assms(2) by (cases neg) (auto simp: d is_integer_iff)
  then have "0 < q" using q(1) by simp
  then obtain ip fp x where t: "go_format_g d = (if neg then ''-'' else []) @ ip @ frac_text fp @ exp_text x"
    "list_all is_digit ip"
    "round64 (of_nat (nat_of_digits (ip @ fp)) * pow10 ((case x of None \<Rightarrow> 0 | Some e \<Rightarrow> e) - int (length fp))) = Some q"
    using q(2) go_format_g_text [of q neg] by (metis d)
  have "fp \<noteq> [] \<or> x \<noteq> None"
  proof (rule ccontr)
    assume "\<not> (fp \<noteq> [] \<or> x \<noteq> None)"
    then have "round64 (of_nat (nat_of_digits ip)) = Some q" using t(3) by (simp add: pow10_def)
    then have "is_integer q" by (rule round64_whole)
    then show False using assms(2) by (cases neg) (simp_all add: d is_integer_iff)
  qed
  then have "CHR ''.'' \<in> set (go_format_g d) \<or> CHR ''e'' \<in> set (go_format_g d)"
    by (auto simp: t(1) frac_text_def exp_text_def)
  moreover have "\<not> is_digit CHR ''.''" "\<not> is_digit CHR ''e''" "\<not> is_space CHR ''.''" "\<not> is_space CHR ''e''"
    by (simp_all add: is_digit_def is_space_def)
  ultimately show ?thesis
    using int_chars [of "go_format_g d"] by (cases "parse_int64_strict (go_format_g d)") (auto simp: list_all_iff)
qed

lemma coerce_refused:
  "refused t v \<Longrightarrow> v \<noteq> VNull \<and> coerce_scalar name t (stringify_common rj v) =
     Inl (ExecutionError None (coerce_error_message name t (stringify_common rj v)))"
proof (cases v)
  case (VStr s)
  moreover assume "refused t v"
  ultimately show ?thesis
    using int_chars [of s] by (cases "parse_int64_strict s") (auto simp: coerce_scalar_def coerced_def parse_strict_bool_def)
next
  case (VBool b)
  have "parse_int64_strict (if b then ''true'' else ''false'') = None"
    by (simp add: parse_int64_strict_def split_sign_def skip_ws_def is_space_def is_digit_def)
  moreover have "parse_float64_strict (if b then ''true'' else ''false'') = None"
    by (simp add: parse_float64_strict_def split_sign_def skip_ws_def is_space_def lower_def is_nan_text_def decimal_float_def
        split_mantissa_def is_digit_def)
  moreover assume "refused t v"
  ultimately show ?thesis unfolding VBool by (auto simp: coerce_scalar_def coerced_def)
next
  case (VNum d)
  moreover assume "refused t v"
  ultimately show ?thesis using refused_number by (auto simp: coerce_scalar_def coerced_def)
qed auto

lemma resolve_all:
  assumes "distinct (map tp_name plan)" "\<forall>p \<in> set plan. map_of out (tp_name p) = None"
    and "\<forall>p \<in> set plan. reads_as (tp_scalar_type p) (frame_get_common f (tp_field p)) (w p)"
  shows "\<exists>m. rfold (resolve_param rj f) plan out = Inr m \<and>
    map_of m = map_of out ++ map_of (map (\<lambda>p. (tp_name p, w p)) plan)"
  using assms
proof (induction plan arbitrary: out)
  case (Cons p plan)
  let ?v = "frame_get_common f (tp_field p)"
  have m: "reads_as (tp_scalar_type p) ?v (w p)" using Cons.prems by simp
  have step: "resolve_param rj f p out = Inr (um_set (tp_name p) (w p) out)"
    using Cons.prems(2) coerce_reads_as [OF m, of "tp_name p" rj] by (simp add: resolve_param_def is_null_def)
  have "\<forall>p' \<in> set plan. map_of (um_set (tp_name p) (w p) out) (tp_name p') = None"
    using Cons.prems by (auto simp: image_iff)
  then have "\<exists>m. rfold (resolve_param rj f) plan (um_set (tp_name p) (w p) out) = Inr m \<and>
      map_of m = map_of (um_set (tp_name p) (w p) out) ++ map_of (map (\<lambda>p. (tp_name p, w p)) plan)"
    using Cons.prems by (intro Cons.IH) simp_all
  then obtain m where "rfold (resolve_param rj f) plan (um_set (tp_name p) (w p) out) = Inr m"
      "map_of m = map_of (um_set (tp_name p) (w p) out) ++ map_of (map (\<lambda>p. (tp_name p, w p)) plan)"
    by blast
  moreover have "tp_name p \<notin> dom (map_of (map (\<lambda>p. (tp_name p, w p)) plan))"
    using Cons.prems(1) by (auto simp: dom_map_of_conv_image_fst)
  ultimately show ?case by (simp add: step map_add_upd_left) (simp add: fun_eq_iff map_add_def)
qed simp

lemma rfold_append: "rfold f (xs @ ys) s = rbind (rfold f xs s) (rfold f ys)"
  by (induction xs arbitrary: s) (auto simp: rbind_def split: sum.splits)

lemma plan_names:
  assumes "rfold (plan_param op_name schema) obj plan = Inr plan'"
  shows "\<exists>names. subseq names (map fst obj) \<and> map tp_name plan' = map tp_name plan @ names"
  using assms
proof (induction obj arbitrary: plan)
  case (Cons p obj)
  obtain name raw where p: "p = (name, raw)" by (cases p)
  from Cons.prems obtain plan1 where 1: "plan_param op_name schema p plan = Inr plan1"
      "rfold (plan_param op_name schema) obj plan1 = Inr plan'"
    by (auto simp: rbind_Inr_iff)
  from 1(1) have "map tp_name plan1 = map tp_name plan \<or> map tp_name plan1 = map tp_name plan @ [name]"
    by (auto simp: p plan_param_def rbind_Inr_iff split: if_splits option.splits)
  moreover obtain names where "subseq names (map fst obj)" "map tp_name plan' = map tp_name plan1 @ names"
    using Cons.IH [OF 1(2)] by blast
  ultimately show ?case by (auto simp: p intro: exI [of _ names] exI [of _ "name # names"])
qed (auto intro: exI [of _ "[]"])

lemma plan_distinct:
  assumes "fm_ok obj" "build_templated_param_plan op_name schema (VObj obj) = Inr plan"
  shows "distinct (map tp_name plan)"
proof -
  from assms(2) obtain names where "subseq names (map fst obj)" "map tp_name plan = names"
    using plan_names by (fastforce simp: build_templated_param_plan_def)
  then show ?thesis using fm_ok_distinct [OF assms(1)] by (auto simp: subseq_conv_nths intro: distinct_nthsI)
qed

text \<open>
  C33: the parameters of an operator's plan are resolved in order.  While every field holds a value that its parameter's type
  takes (its own value when it has the type: a string, a boolean, a finite double for \<open>float64\<close>; a text that is a decimal \<open>int64\<close>, the rendering of a
  double or a spelling of a boolean, for these types; the rendering of a boolean or a number, for \<open>string\<close>), resolution goes on, and if it reaches the end each
  planned parameter reads as that value.  At the first parameter whose field is missing, and at the first whose field holds a
  value the type refuses (no spelling of a boolean; a text that cannot be an integer or a number that is not whole, for
  \<open>int64\<close>; a boolean, for a number), it stops with the error that names the parameter.
\<close>

theorem templated_params_resolve:
  assumes "fm_ok obj" "build_templated_param_plan op_name schema (VObj obj) = Inr plan"
    and "k \<le> length plan"
    and "\<forall>p \<in> set (take k plan). \<exists>v. reads_as (tp_scalar_type p) (frame_get_common f (tp_field p)) v"
  shows "(k = length plan \<longrightarrow> (\<exists>m. resolve_templated_params rj plan f = Inr m \<and>
      (\<forall>p \<in> set plan. reads_as (tp_scalar_type p) (frame_get_common f (tp_field p))
         (in_templated_param (set_templated_params (Some m) inp) (tp_name p))))) \<and>
    (k < length plan \<longrightarrow> frame_get_common f (tp_field (plan ! k)) = VNull \<longrightarrow>
       resolve_templated_params rj plan f = Inl (ExecutionError None (''templated param '' @ quoted (tp_name (plan ! k)) @
         '' references common field '' @ quoted (tp_field (plan ! k)) @ '' which is missing''))) \<and>
    (k < length plan \<longrightarrow> refused (tp_scalar_type (plan ! k)) (frame_get_common f (tp_field (plan ! k))) \<longrightarrow>
       resolve_templated_params rj plan f = Inl (ExecutionError None (coerce_error_message (tp_name (plan ! k))
         (tp_scalar_type (plan ! k)) (stringify_common rj (frame_get_common f (tp_field (plan ! k)))))))"
proof -
  have d: "distinct (map tp_name plan)" by (rule plan_distinct [OF assms(1,2)])
  obtain w where w: "\<forall>p \<in> set (take k plan). reads_as (tp_scalar_type p) (frame_get_common f (tp_field p)) (w p)"
    using assms(4) by metis
  have "distinct (map tp_name (take k plan))" using distinct_take [OF d, of k] by (simp add: take_map)
  then obtain m where m: "rfold (resolve_param rj f) (take k plan) [] = Inr m"
      "map_of m = map_of (map (\<lambda>p. (tp_name p, w p)) (take k plan))"
    using resolve_all [OF _ _ w, of "[]" rj] by auto
  have "resolve_templated_params rj plan f = rbind (rfold (resolve_param rj f) (take k plan) []) (rfold (resolve_param rj f) (drop k plan))"
    unfolding resolve_templated_params_def rfold_append [symmetric] by simp
  then have r: "resolve_templated_params rj plan f = rfold (resolve_param rj f) (drop k plan) m" by (simp add: m(1))
  have whole: "\<exists>m. resolve_templated_params rj plan f = Inr m \<and> (\<forall>p \<in> set plan. reads_as (tp_scalar_type p)
      (frame_get_common f (tp_field p)) (in_templated_param (set_templated_params (Some m) inp) (tp_name p)))"
    if k: "k = length plan"
  proof -
    have "map_of m (tp_name p) = Some (w p)" if "p \<in> set plan" for p
      unfolding m(2) using that d k by (intro map_of_is_SomeI) (auto simp: comp_def)
    then show ?thesis
      using r w k by (auto simp: in_templated_param_def set_templated_params_def value_or_null_def)
  qed
  have stop: "resolve_templated_params rj plan f = Inl e" if "k < length plan" "resolve_param rj f (plan ! k) m = Inl e" for e
    using r that by (simp add: Cons_nth_drop_Suc [symmetric])
  show ?thesis
  proof (intro conjI impI)
    assume "refused (tp_scalar_type (plan ! k)) (frame_get_common f (tp_field (plan ! k)))"
    from coerce_refused [OF this, of "tp_name (plan ! k)" rj] show "k < length plan \<Longrightarrow> resolve_templated_params rj plan f =
        Inl (ExecutionError None (coerce_error_message (tp_name (plan ! k)) (tp_scalar_type (plan ! k))
          (stringify_common rj (frame_get_common f (tp_field (plan ! k))))))"
      by (intro stop) (simp_all add: resolve_param_def is_null_def)
  qed (use whole in blast, rule stop, simp_all add: resolve_param_def is_null_def)
qed

definition demo_schema :: operator_schema where
  "demo_schema = \<lparr>os_name = ''greet'', os_type = Transform, os_description = [],
     os_params = [(''flag'', \<lparr>ps_type = ''bool'', ps_required = True, ps_default = VNull, ps_description = [], ps_templatable = True\<rparr>),
                  (''who'', \<lparr>ps_type = ''string'', ps_required = True, ps_default = VNull, ps_description = [], ps_templatable = True\<rparr>)]\<rparr>"

definition demo_templated_input :: operator_input where
  "demo_templated_input = operator_input_of demo_input_frame (compute_input_field_spec demo_input_config)"

definition demo_plan :: "templated_param list" where
  "demo_plan = [\<lparr>tp_name = ''flag'', tp_scalar_type = ''bool'', tp_field = ''_if_1''\<rparr>,
                \<lparr>tp_name = ''who'', tp_scalar_type = ''string'', tp_field = ''user''\<rparr>]"

theorem templated_params_resolve_witness:
  "\<exists>m. resolve_templated_params (\<lambda>_. []) demo_plan demo_input_frame = Inr m \<and>
     in_templated_param (set_templated_params (Some m) demo_templated_input) ''flag'' = VBool True \<and>
     in_templated_param (set_templated_params (Some m) demo_templated_input) ''who'' = VStr ''u1''"
proof -
  have "fm_ok [(''flag'', VStr ''{{_if_1}}''), (''who'', VStr ''{{user}}'')]" by (simp add: fm_ok_def)
  moreover have "build_templated_param_plan ''greet'' demo_schema
      (VObj [(''flag'', VStr ''{{_if_1}}''), (''who'', VStr ''{{user}}'')]) = Inr demo_plan"
    by code_simp
  moreover have get: "frame_get_common demo_input_frame ''_if_1'' = VBool True"
      "frame_get_common demo_input_frame ''user'' = VStr ''u1''"
    by code_simp+
  have "reads_as ''bool'' (VBool True) (VBool True)" "reads_as ''string'' (VStr ''u1'') (VStr ''u1'')" by (rule reads_as.intros)+
  then have "\<forall>p \<in> set (take (length demo_plan) demo_plan). \<exists>v. reads_as (tp_scalar_type p) (frame_get_common demo_input_frame (tp_field p)) v"
    using get by (auto simp: demo_plan_def)
  ultimately obtain m where "resolve_templated_params (\<lambda>_. []) demo_plan demo_input_frame = Inr m"
      "\<forall>p \<in> set demo_plan. reads_as (tp_scalar_type p) (frame_get_common demo_input_frame (tp_field p))
         (in_templated_param (set_templated_params (Some m) demo_templated_input) (tp_name p))"
    using templated_params_resolve [of _ _ _ demo_plan "length demo_plan" demo_input_frame "\<lambda>_. []" demo_templated_input] by blast
  then show ?thesis using get by (auto simp: demo_plan_def elim!: reads_asE)
qed

section \<open>A million\<close>

lemma shortest_million: "shortest_decimal 1000000 = (1, 6)"
proof -
  have len: "string_of_nat 1000000 = ''1000000''" "string_of_nat 1 = ''1''"
    by (simp_all add: string_of_nat_def digits_of_nat.simps char_of_eq_iff)
  have e: "decimal_exponent 1000000 = 6"
    using len by (simp add: decimal_exponent_def pow10_def)
  have "binary_exponent 1000000 = 19" by (rule binary_exponent_eq) (simp_all add: pow2_def)
  moreover have "round_even (1000000 / pow2 (- 33)) = 1000000 * 2 ^ 33"
    using round_even_of_int [of "1000000 * 2 ^ 33"] by (simp add: pow2_def)
  ultimately have "round64 1000000 = Some 1000000" by (simp add: round64_def pow2_def)
  then have "reads_back 1000000 (1, 6)" by (simp add: reads_back_def decimal_val_def pow10_def)
  moreover have "hd (nearby 1000000 1) = (1, 6)" "nearby 1000000 1 \<noteq> []"
    by (simp_all add: nearby_def e decimal_val_def pow10_def)
  ultimately have "find (reads_back 1000000) (nearby 1000000 1) = Some (1, 6)"
    by (cases "nearby 1000000 1") simp_all
  then show ?thesis by (simp add: shortest_decimal_def eval_nat_numeral)
qed

text \<open>
  An integer of a million or more is printed with an exponent, which the integer reader refuses: a
  templated \<open>int64\<close> parameter cannot be fed from such a field.
\<close>

lemma million_is_no_int64_text:
  "go_format_g (dbl 1000000) = ''1e+06''"
  "coerce_scalar ''n'' ''int64'' (stringify_common rj (VNum (dbl 1000000))) =
     Inl (ExecutionError None (coerce_error_message ''n'' ''int64'' ''1e+06''))"
proof -
  have z: "strip_zeros (string_of_nat 1) = ''1''" 
    by (simp add: string_of_nat_def digits_of_nat.simps char_of_eq_iff strip_zeros.simps)
  have "go_format_g_parts (to_chars (DFin False 1000000)) = (False, ''1'', 6)"
    using go_format_g_parts_scientific [OF z, of False 6]
    by (simp add: shortest_million is_digit_def string_of_nat_def digits_of_nat.simps)
  then have "go_format_g (DFin False 1000000) = ''1'' @ ''e'' @ exponent_text 6"
    unfolding go_format_g.simps by simp
  also have "\<dots> = ''1e+06''"
    by (simp add: exponent_text_def string_of_nat_def digits_of_nat.simps char_of_eq_iff)
  finally show t: "go_format_g (dbl 1000000) = ''1e+06''" by (simp add: dbl_def)
  have "parse_int64_strict ''1e+06'' = None"
    by (simp add: parse_int64_strict_def skip_ws_def is_space_def split_sign_def is_digit_def)
  then show "coerce_scalar ''n'' ''int64'' (stringify_common rj (VNum (dbl 1000000))) =
     Inl (ExecutionError None (coerce_error_message ''n'' ''int64'' ''1e+06''))"
    by (simp add: coerce_scalar_def coerced_def t)
qed

text \<open>Blanks before an integer are skipped by \<open>strtoll\<close>; they are not rejected.\<close>

lemma blanks_before_an_integer: "parse_int64_strict '' 12'' = Some 12"
  by (simp add: parse_int64_strict_def skip_ws_def is_space_def split_sign_def is_digit_def digit_val_def)

end
