(* ===== verification/Request_Context.thy ===== *)
theory Request_Context
  imports Values
begin

text \<open>
  Request contexts (\<open>src/runtime/request_context.cpp\<close>).  A context is a chain of nodes (values,
  resources, a provider) and a cancellation signal.  Signals live in a store and are addressed by
  their position, as shared pointers are; the deadline timer's entries are part of the store.  Time
  is an integer.  Stop callbacks run synchronously, as \<open>std::stop_source\<close> runs them.
\<close>

section \<open>The store\<close>

definition k_not_done :: nat where "k_not_done = 0"
definition k_canceled :: nat where "k_canceled = 1"
definition k_deadline_exceeded :: nat where "k_deadline_exceeded = 2"

record context_signal =
  sg_deadline :: "int option"
  sg_cause :: nat
  sg_link :: "nat option"
  sg_timer :: nat

record context_store =
  st_signals :: "context_signal list"
  st_timers :: "(int \<times> nat \<times> nat) list"
  st_next_id :: nat

definition empty_store :: context_store where
  "empty_store = \<lparr>st_signals = [], st_timers = [], st_next_id = 1\<rparr>"

definition signal_of :: "context_store \<Rightarrow> nat \<Rightarrow> context_signal" where
  "signal_of st i = st_signals st ! i"

definition signal_done :: "context_store \<Rightarrow> nat \<Rightarrow> bool" where
  "signal_done st i \<longleftrightarrow> sg_cause (signal_of st i) \<noteq> k_not_done"

definition upd_signal :: "nat \<Rightarrow> (context_signal \<Rightarrow> context_signal) \<Rightarrow> context_store \<Rightarrow> context_store" where
  "upd_signal i f st = st\<lparr>st_signals := (st_signals st)[i := f (signal_of st i)]\<rparr>"

section \<open>The deadline timer\<close>

text \<open>Entries in the order of their times, and of insertion among equal ones: time, tid, signal.\<close>

definition timer_add :: "int \<Rightarrow> nat \<Rightarrow> context_store \<Rightarrow> nat \<times> context_store" where
  "timer_add due_at i st =
     (let tid = st_next_id st; before = takeWhile (\<lambda>e. fst e \<le> due_at) (st_timers st)
      in (tid, st\<lparr>st_timers := before @ (due_at, tid, i) # drop (length before) (st_timers st), st_next_id := Suc tid\<rparr>))"

definition timer_remove :: "nat \<Rightarrow> context_store \<Rightarrow> context_store" where
  "timer_remove tid st = st\<lparr>st_timers := filter (\<lambda>e. fst (snd e) \<noteq> tid) (st_timers st)\<rparr>"

section \<open>Cancellation\<close>

definition release_link :: "nat \<Rightarrow> context_store \<Rightarrow> context_store" where
  "release_link i = upd_signal i (sg_link_update (\<lambda>_. None))"

definition linked_children :: "context_store \<Rightarrow> nat \<Rightarrow> nat list" where
  "linked_children st i = filter (\<lambda>k. sg_link (signal_of st k) = Some i) [0..<length (st_signals st)]"

definition drop_timer :: "nat \<Rightarrow> context_store \<Rightarrow> context_store" where
  "drop_timer i st = (let tid = sg_timer (signal_of st i) in if tid \<noteq> 0 then timer_remove tid st else st)"

text \<open>
  The first cause wins.  \<open>request_stop\<close> calls the callbacks of the linked children, which cancel
  themselves with this signal's cause.  Links point to older signals, so the first argument, the
  number of signals, bounds the depth.
\<close>

fun signal_cancel :: "nat \<Rightarrow> nat \<Rightarrow> nat \<Rightarrow> bool \<Rightarrow> context_store \<Rightarrow> context_store" where
  "signal_cancel 0 i cause from_parent st = st"
| "signal_cancel (Suc n) i cause from_parent st =
     (if signal_done st i then st
      else let st = upd_signal i (sg_cause_update (\<lambda>_. cause)) st;
               st = fold (\<lambda>k st. signal_cancel n k (sg_cause (signal_of st i)) True st) (linked_children st i) st;
               st = drop_timer i st
           in if from_parent then st else release_link i st)"

definition cancel_signal :: "nat \<Rightarrow> nat \<Rightarrow> bool \<Rightarrow> context_store \<Rightarrow> context_store" where
  "cancel_signal i cause from_parent st = signal_cancel (length (st_signals st)) i cause from_parent st"

text \<open>Linking to a parent that was stopped already runs the callback at once.\<close>

definition link_signal :: "nat \<Rightarrow> nat \<Rightarrow> context_store \<Rightarrow> context_store" where
  "link_signal i parent st =
     (let st = upd_signal i (sg_link_update (\<lambda>_. Some parent)) st
      in if signal_done st parent then cancel_signal i (sg_cause (signal_of st parent)) True st else st)"

definition new_child_signal :: "nat option \<Rightarrow> int option \<Rightarrow> context_store \<Rightarrow> nat \<times> context_store" where
  "new_child_signal parent deadline st =
     (let i = length (st_signals st);
          st = st\<lparr>st_signals := st_signals st @ [\<lparr>sg_deadline = deadline, sg_cause = k_not_done, sg_link = None, sg_timer = 0\<rparr>]\<rparr>
      in (i, case parent of None \<Rightarrow> st | Some p \<Rightarrow> link_signal i p st))"

definition arm_deadline :: "int \<Rightarrow> nat \<Rightarrow> context_store \<Rightarrow> context_store" where
  "arm_deadline now i st =
     (if signal_done st i then st
      else case sg_deadline (signal_of st i) of
             None \<Rightarrow> st
           | Some d \<Rightarrow>
               if d \<le> now then cancel_signal i k_deadline_exceeded False st
               else let (tid, st) = timer_add d i st in upd_signal i (sg_timer_update (\<lambda>_. tid)) st)"

text \<open>One round of the timer thread: the due entries leave the queue, then their signals end.\<close>

definition timer_round :: "int \<Rightarrow> context_store \<Rightarrow> context_store" where
  "timer_round now st =
     (let due = takeWhile (\<lambda>e. fst e \<le> now) (st_timers st)
      in fold (\<lambda>e st. cancel_signal (snd (snd e)) k_deadline_exceeded False st) due
           (st\<lparr>st_timers := drop (length due) (st_timers st)\<rparr>))"

text \<open>The destructor of a signal.\<close>

definition destroy_signal :: "nat \<Rightarrow> context_store \<Rightarrow> context_store" where
  "destroy_signal i st = drop_timer i (release_link i st)"

section \<open>Contexts\<close>

datatype 'v context_node =
    ValueNode nat 'v
  | ResourcesNode "object option"
  | ProviderNode "nat option"

text \<open>The chain of nodes, the newest first; addresses of keys and providers are numbers, 0 the null pointer.\<close>

record 'v request_context =
  rc_nodes :: "'v context_node list"
  rc_signal :: "nat option"

definition background :: "'v request_context" where
  "background = \<lparr>rc_nodes = [], rc_signal = None\<rparr>"

definition ctx_deadline :: "context_store \<Rightarrow> 'v request_context \<Rightarrow> int option" where
  "ctx_deadline st ctx = (case rc_signal ctx of None \<Rightarrow> None | Some i \<Rightarrow> sg_deadline (signal_of st i))"

definition with_cancel :: "'v request_context \<Rightarrow> context_store \<Rightarrow> 'v request_context \<times> context_store" where
  "with_cancel parent st =
     (let (i, st) = new_child_signal (rc_signal parent) (ctx_deadline st parent) st
      in (parent\<lparr>rc_signal := Some i\<rparr>, st))"

definition with_deadline ::
  "int \<Rightarrow> 'v request_context \<Rightarrow> int \<Rightarrow> context_store \<Rightarrow> 'v request_context \<times> context_store" where
  "with_deadline now parent deadline st =
     (case ctx_deadline st parent of
        Some d \<Rightarrow> if d \<le> deadline then with_cancel parent st
          else (let (i, st) = new_child_signal (rc_signal parent) (Some deadline) st
                in (parent\<lparr>rc_signal := Some i\<rparr>, arm_deadline now i st))
      | None \<Rightarrow>
          (let (i, st) = new_child_signal (rc_signal parent) (Some deadline) st
           in (parent\<lparr>rc_signal := Some i\<rparr>, arm_deadline now i st)))"

definition with_timeout ::
  "int \<Rightarrow> 'v request_context \<Rightarrow> int \<Rightarrow> context_store \<Rightarrow> 'v request_context \<times> context_store" where
  "with_timeout now parent timeout st = with_deadline now parent (now + timeout) st"

definition with_value :: "'v request_context \<Rightarrow> nat \<Rightarrow> 'v \<Rightarrow> error + 'v request_context" where
  "with_value parent key v =
     (if key = 0 then Inl (StdException ''RequestContext::with_value: key must not be null'')
      else Inr (parent\<lparr>rc_nodes := ValueNode key v # rc_nodes parent\<rparr>))"

definition with_resources :: "'v request_context \<Rightarrow> object option \<Rightarrow> 'v request_context" where
  "with_resources parent resources = parent\<lparr>rc_nodes := ResourcesNode resources # rc_nodes parent\<rparr>"

definition with_resource_provider :: "'v request_context \<Rightarrow> nat option \<Rightarrow> 'v request_context" where
  "with_resource_provider parent provider = parent\<lparr>rc_nodes := ProviderNode provider # rc_nodes parent\<rparr>"

definition ctx_cancelled :: "context_store \<Rightarrow> 'v request_context \<Rightarrow> bool" where
  "ctx_cancelled st ctx \<longleftrightarrow> (case rc_signal ctx of None \<Rightarrow> False | Some i \<Rightarrow> signal_done st i)"

definition ctx_err :: "context_store \<Rightarrow> 'v request_context \<Rightarrow> error option" where
  "ctx_err st ctx =
     (case rc_signal ctx of
        None \<Rightarrow> None
      | Some i \<Rightarrow>
          let cause = sg_cause (signal_of st i)
          in if cause = k_canceled then Some (ContextError False)
             else if cause = k_deadline_exceeded then Some (ContextError True) else None)"

definition throw_if_cancelled :: "context_store \<Rightarrow> 'v request_context \<Rightarrow> error + unit" where
  "throw_if_cancelled st ctx = (case ctx_err st ctx of Some e \<Rightarrow> Inl e | None \<Rightarrow> Inr ())"

fun nodes_value :: "'v context_node list \<Rightarrow> nat \<Rightarrow> 'v option" where
  "nodes_value [] key = None"
| "nodes_value (ValueNode k v # ns) key = (if k \<noteq> 0 \<and> k = key then Some v else nodes_value ns key)"
| "nodes_value (n # ns) key = nodes_value ns key"

fun nodes_resources :: "'v context_node list \<Rightarrow> object option" where
  "nodes_resources [] = None"
| "nodes_resources (ResourcesNode (Some r) # ns) = Some r"
| "nodes_resources (n # ns) = nodes_resources ns"

fun nodes_provider :: "'v context_node list \<Rightarrow> nat option" where
  "nodes_provider [] = None"
| "nodes_provider (ProviderNode (Some p) # ns) = Some p"
| "nodes_provider (n # ns) = nodes_provider ns"

definition ctx_value :: "'v request_context \<Rightarrow> nat \<Rightarrow> 'v option" where
  "ctx_value ctx key = nodes_value (rc_nodes ctx) key"

definition ctx_resources :: "'v request_context \<Rightarrow> object option" where
  "ctx_resources ctx = nodes_resources (rc_nodes ctx)"

definition ctx_provider :: "'v request_context \<Rightarrow> nat option" where
  "ctx_provider ctx = nodes_provider (rc_nodes ctx)"

text \<open>\<open>Cancelable::cancel\<close>, also run by the destructor.\<close>

definition ctx_cancel :: "'v request_context \<Rightarrow> context_store \<Rightarrow> context_store" where
  "ctx_cancel ctx st = (case rc_signal ctx of None \<Rightarrow> st | Some i \<Rightarrow> cancel_signal i k_canceled False st)"

end
