(* ===== verification/Context_Theorems.thy ===== *)
theory Context_Theorems
  imports Request_Context
begin

text \<open>
  Cancellation: the first cause wins, a cancelled signal cancels exactly its descendants, and a
  context never outlives its parent.
\<close>

section \<open>Observations of the store\<close>

abbreviation cause_at :: "context_store \<Rightarrow> nat \<Rightarrow> nat" where
  "cause_at st i \<equiv> sg_cause (signal_of st i)"

abbreviation link_at :: "context_store \<Rightarrow> nat \<Rightarrow> nat option" where
  "link_at st i \<equiv> sg_link (signal_of st i)"

abbreviation deadline_at :: "context_store \<Rightarrow> nat \<Rightarrow> int option" where
  "deadline_at st i \<equiv> sg_deadline (signal_of st i)"

abbreviation signal_count :: "context_store \<Rightarrow> nat" where
  "signal_count st \<equiv> length (st_signals st)"

lemma signal_of_upd:
  "signal_of (upd_signal i f st) j = (if j = i \<and> i < signal_count st then f (signal_of st i) else signal_of st j)"
  by (auto simp: upd_signal_def signal_of_def nth_list_update list_update_beyond)

lemma count_simps [simp]:
  "signal_count (upd_signal i f st) = signal_count st" "signal_count (timer_remove tid st) = signal_count st"
  "signal_count (drop_timer i st) = signal_count st" "signal_count (release_link i st) = signal_count st"
  by (simp_all add: upd_signal_def timer_remove_def drop_timer_def release_link_def Let_def)

lemma signal_of_timer [simp]: "signal_of (timer_remove tid st) i = signal_of st i" "signal_of (drop_timer k st) i = signal_of st i"
  by (simp_all add: signal_of_def timer_remove_def drop_timer_def Let_def)

section \<open>Descendants\<close>

inductive descends :: "context_store \<Rightarrow> nat \<Rightarrow> nat \<Rightarrow> bool" for st where
  descends_self: "descends st i i"
| descends_link: "descends st k i \<Longrightarrow> j < signal_count st \<Longrightarrow> link_at st j = Some k \<Longrightarrow> descends st j i"

definition links_ok :: "context_store \<Rightarrow> bool" where
  "links_ok st \<longleftrightarrow> (\<forall>i < signal_count st. \<forall>p. link_at st i = Some p \<longrightarrow> p < i)"

text \<open>From the given signal on, a linked child of a finished signal is finished.\<close>

definition closed_from :: "nat \<Rightarrow> context_store \<Rightarrow> bool" where
  "closed_from i st \<longleftrightarrow>
     (\<forall>j < signal_count st. \<forall>p \<ge> i. link_at st j = Some p \<longrightarrow> signal_done st p \<longrightarrow> signal_done st j)"

lemma descends_ge: "links_ok st \<Longrightarrow> descends st j i \<Longrightarrow> i \<le> j"
  by (rotate_tac, induction rule: descends.induct) (auto simp: links_ok_def)

lemma closed_descends:
  assumes "descends st j i" "links_ok st" "closed_from i st" "signal_done st i"
  shows "signal_done st j"
  using assms
proof (induction rule: descends.induct)
  case (descends_link k i j)
  then show ?case using descends_ge [of st k i] by (auto simp: closed_from_def)
qed

lemma descends_cases:
  "descends st j i \<longleftrightarrow> j = i \<or> (\<exists>k \<in> set (linked_children st i). descends st j k)"
proof
  assume "descends st j i"
  then show "j = i \<or> (\<exists>k \<in> set (linked_children st i). descends st j k)"
  proof (induction rule: descends.induct)
    case (descends_link k i j)
    then show ?case
      by (auto simp: linked_children_def intro: descends.intros)
  qed simp
next
  have "descends st j i" if "descends st j k" "k < signal_count st" "link_at st k = Some i" for k
    using that by (induction rule: descends.induct) (auto intro: descends.intros)
  then show "j = i \<or> (\<exists>k \<in> set (linked_children st i). descends st j k) \<Longrightarrow> descends st j i"
    by (auto simp: linked_children_def intro: descends.intros)
qed

text \<open>Two stores with the same links and deadlines.\<close>

definition same_shape :: "context_store \<Rightarrow> context_store \<Rightarrow> bool" where
  "same_shape st st' \<longleftrightarrow> signal_count st' = signal_count st \<and>
     (\<forall>i. link_at st' i = link_at st i \<and> deadline_at st' i = deadline_at st i)"

lemma same_shape_trans: "same_shape a b \<Longrightarrow> same_shape b c \<Longrightarrow> same_shape a c"
  by (simp add: same_shape_def)

lemma same_shape_descends:
  assumes "same_shape st st'"
  shows "descends st' j i \<longleftrightarrow> descends st j i"
proof -
  have one: "descends st' j i" if "same_shape st st'" "descends st j i" for st st'
    using that(2,1) by (induction rule: descends.induct) (auto simp: same_shape_def intro: descends.intros)
  have "same_shape st' st" using assms by (simp add: same_shape_def)
  then show ?thesis using one assms by blast
qed

section \<open>What cancelling a signal does\<close>

definition cancelled_to :: "nat \<Rightarrow> nat set \<Rightarrow> context_store \<Rightarrow> context_store \<Rightarrow> bool" where
  "cancelled_to c D st st' \<longleftrightarrow> same_shape st st' \<and>
     (\<forall>j < signal_count st. cause_at st' j = (if signal_done st j then cause_at st j else if j \<in> D then c else k_not_done))"

lemma fold_cancel:
  assumes "c \<noteq> k_not_done" "links_ok st" "closed_from (Suc i) st" "cause_at st i = c" "i < signal_count st"
    and "\<And>k st'. k \<in> set ks \<Longrightarrow> signal_count st' = signal_count st \<Longrightarrow> links_ok st' \<Longrightarrow> closed_from k st' \<Longrightarrow>
       k < signal_count st' \<Longrightarrow> cancelled_to c {j. descends st' j k} st' (f k c st')"
    and "set ks \<subseteq> set (linked_children st i)"
  shows "cancelled_to c {j. \<exists>k \<in> set ks. descends st j k} st (fold (\<lambda>k st. f k (cause_at st i) st) ks st)"
  using assms(6,7)
proof (induction ks rule: rev_induct)
  case Nil
  then show ?case by (simp add: cancelled_to_def same_shape_def signal_done_def)
next
  case (snoc k ks)
  let ?mid = "fold (\<lambda>k st. f k (cause_at st i) st) ks st"
  have mid: "cancelled_to c {j. \<exists>k \<in> set ks. descends st j k} st ?mid"
    using snoc by simp
  then have shape: "same_shape st ?mid" by (simp add: cancelled_to_def)
  have k: "k < signal_count st" "link_at st k = Some i" "i < k"
    using snoc.prems(2) assms(2) by (auto simp: linked_children_def links_ok_def)
  have done_mid: "signal_done ?mid j \<longleftrightarrow> signal_done st j \<or> (\<exists>k \<in> set ks. descends st j k)" if "j < signal_count st" for j
    using mid that assms(1) by (auto simp: cancelled_to_def signal_done_def)
  have links: "links_ok ?mid" using assms(2) shape by (simp add: links_ok_def same_shape_def)
  have closed: "closed_from k ?mid"
    unfolding closed_from_def
  proof (intro allI impI)
    fix j p assume j: "j < signal_count ?mid" "k \<le> p" "link_at ?mid j = Some p" "signal_done ?mid p"
    then have j': "j < signal_count st" "link_at st j = Some p" "p < signal_count st"
      using shape assms(2) by (fastforce simp: same_shape_def links_ok_def)+
    then show "signal_done ?mid j"
      using j(2,4) k(3) assms(3) done_mid by (auto simp: closed_from_def intro: descends.intros)
  qed
  have ci: "cause_at ?mid i = c" using mid assms(1,4,5) by (auto simp: cancelled_to_def signal_done_def)
  have "cancelled_to c {j. descends ?mid j k} ?mid (f k c ?mid)"
    using snoc.prems(1) [of k ?mid] links closed k(1) shape by (simp add: same_shape_def)
  then show ?case
    using mid ci same_shape_descends [OF shape] done_mid
    by (auto simp: cancelled_to_def same_shape_def signal_done_def)
qed

lemma signal_cancel_to:
  assumes "c \<noteq> k_not_done" "links_ok st" "closed_from i st" "i < signal_count st" "signal_count st - i \<le> n"
  shows "cancelled_to c {j. descends st j i} st (signal_cancel n i c True st)"
  using assms(2-5)
proof (induction n arbitrary: i st)
  case (Suc n)
  show ?case
  proof (cases "signal_done st i")
    case True
    then have "signal_done st j" if "descends st j i" for j
      using closed_descends [OF that Suc.prems(1,2)] by blast
    then show ?thesis using True
      by (auto simp: cancelled_to_def same_shape_def signal_done_def)
  next
    case False
    let ?st1 = "upd_signal i (sg_cause_update (\<lambda>_. c)) st"
    have shape: "same_shape st ?st1" by (simp add: same_shape_def signal_of_upd)
    have done1: "signal_done ?st1 j \<longleftrightarrow> signal_done st j \<or> j = i" for j
      using Suc.prems(3) assms(1) by (auto simp: signal_done_def signal_of_upd)
    have "closed_from (Suc i) ?st1"
      using Suc.prems(2) shape done1 by (fastforce simp: closed_from_def same_shape_def)
    moreover have "links_ok ?st1" using Suc.prems(1) shape by (simp add: links_ok_def same_shape_def)
    moreover have "cancelled_to c {j. descends st' j k} st' (signal_cancel n k c True st')"
      if "k \<in> set (linked_children ?st1 i)" "signal_count st' = signal_count ?st1" "links_ok st'" "closed_from k st'"
        "k < signal_count st'" for k st'
    proof (rule Suc.IH [OF that(3-5)])
      have "i < k" using that(1) \<open>links_ok ?st1\<close> by (auto simp: linked_children_def links_ok_def)
      then show "signal_count st' - k \<le> n" using that(2) Suc.prems(4) by simp
    qed
    ultimately have "cancelled_to c {j. \<exists>k \<in> set (linked_children ?st1 i). descends ?st1 j k} ?st1
        (fold (\<lambda>k st. signal_cancel n k (cause_at st i) True st) (linked_children ?st1 i) ?st1)"
      using Suc.prems(3) assms(1)
      by (intro fold_cancel [where f = "\<lambda>k c st. signal_cancel n k c True st"]) (auto simp: signal_of_upd)
    moreover have "linked_children ?st1 i = linked_children st i"
      using shape by (simp add: linked_children_def same_shape_def)
    ultimately show ?thesis
      using False shape done1 same_shape_descends [OF shape] descends_cases [of st _ i] Suc.prems(3)
      by (auto simp: cancelled_to_def same_shape_def Let_def signal_of_upd signal_done_def)
  qed
qed simp

text \<open>The same for a cancellation that does not come from the parent; it releases the link.\<close>

lemma signal_cancel_not_from_parent:
  "signal_cancel n i c False st =
     (if n = 0 \<or> signal_done st i then st else release_link i (signal_cancel n i c True st))"
  by (cases n) (simp_all add: Let_def)

section \<open>The invariant of the store\<close>

definition deadlines_ok :: "context_store \<Rightarrow> bool" where
  "deadlines_ok st \<longleftrightarrow> (\<forall>i < signal_count st. \<forall>p d. link_at st i = Some p \<longrightarrow> deadline_at st p = Some d \<longrightarrow>
     (\<exists>e \<le> d. deadline_at st i = Some e))"

definition store_inv :: "context_store \<Rightarrow> bool" where
  "store_inv st \<longleftrightarrow> links_ok st \<and> closed_from 0 st \<and> deadlines_ok st \<and>
     (\<forall>i < signal_count st. cause_at st i \<in> {k_not_done, k_canceled, k_deadline_exceeded}) \<and>
     (\<forall>e \<in> set (st_timers st). snd (snd e) < signal_count st \<and> deadline_at st (snd (snd e)) = Some (fst e))"

text \<open>
  What can happen to the store: contexts made from a parent's signal, a cancellation, a round of the
  timer, the destruction of a signal no child is linked to.
\<close>

datatype ctx_op = NewCancel "nat option" | NewDeadline int "nat option" int | Cancel nat | Tick int | Destroy nat

abbreviation at_signal :: "nat option \<Rightarrow> unit request_context" where
  "at_signal p \<equiv> \<lparr>rc_nodes = [], rc_signal = p\<rparr>"

definition parent_exists :: "context_store \<Rightarrow> nat option \<Rightarrow> bool" where
  "parent_exists st p \<longleftrightarrow> (case p of None \<Rightarrow> True | Some i \<Rightarrow> i < signal_count st)"

fun run_ctx_op :: "ctx_op \<Rightarrow> context_store \<Rightarrow> context_store" where
  "run_ctx_op (NewCancel p) st = (if parent_exists st p then snd (with_cancel (at_signal p) st) else st)"
| "run_ctx_op (NewDeadline now p d) st = (if parent_exists st p then snd (with_deadline now (at_signal p) d st) else st)"
| "run_ctx_op (Cancel i) st = (if i < signal_count st then ctx_cancel (at_signal (Some i)) st else st)"
| "run_ctx_op (Tick now) st = timer_round now st"
| "run_ctx_op (Destroy i) st = (if i < signal_count st \<and> linked_children st i = [] then destroy_signal i st else st)"

lemma timers_subset:
  "set (st_timers (drop_timer i st)) \<subseteq> set (st_timers st)" "st_timers (upd_signal i f st) = st_timers st"
  by (auto simp: drop_timer_def timer_remove_def upd_signal_def Let_def)

lemma signal_cancel_timers: "set (st_timers (signal_cancel n i c fp st)) \<subseteq> set (st_timers st)"
proof (induction n arbitrary: i c fp st)
  case (Suc n)
  have fold: "set (st_timers (fold (\<lambda>k st. signal_cancel n k (cause_at st i) True st) ks s)) \<subseteq> set (st_timers s)" for ks s
    by (induction ks arbitrary: s) (use Suc in \<open>fastforce+\<close>)
  let ?st1 = "upd_signal i (sg_cause_update (\<lambda>_. c)) st"
  let ?st2 = "fold (\<lambda>k st. signal_cancel n k (cause_at st i) True st) (linked_children ?st1 i) ?st1"
  have "set (st_timers (drop_timer i ?st2)) \<subseteq> set (st_timers st)"
    by (rule subset_trans [OF timers_subset(1)]) (use fold [of "linked_children ?st1 i" ?st1] in \<open>simp add: timers_subset(2)\<close>)
  then show ?case by (simp add: Let_def release_link_def timers_subset(2))
qed simp

lemma release_link_inv:
  assumes "store_inv st"
  shows "store_inv (release_link i st)"
  using assms unfolding store_inv_def links_ok_def closed_from_def deadlines_ok_def signal_done_def release_link_def
  by (auto simp: signal_of_upd timers_subset(2))

lemma drop_timer_inv:
  assumes "store_inv st"
  shows "store_inv (drop_timer i st)"
  using assms timers_subset(1) [of i st]
  unfolding store_inv_def links_ok_def closed_from_def deadlines_ok_def signal_done_def by auto

lemma store_inv_parts:
  assumes "store_inv st"
  shows "links_ok st" "closed_from i st" "deadlines_ok st"
  using assms by (auto simp: store_inv_def closed_from_def)

lemma cancelled_inv:
  assumes "store_inv st" "c \<in> {k_canceled, k_deadline_exceeded}" "i < signal_count st"
    and "cancelled_to c {j. descends st j i} st st'" "set (st_timers st') \<subseteq> set (st_timers st)"
  shows "store_inv st'"
proof -
  have c: "c \<noteq> k_not_done" using assms(2) by (auto simp: k_not_done_def k_canceled_def k_deadline_exceeded_def)
  have shape: "same_shape st st'" using assms(4) by (simp add: cancelled_to_def)
  have fin: "signal_done st' j \<longleftrightarrow> signal_done st j \<or> descends st j i" if "j < signal_count st" for j
    using assms(4) that c by (auto simp: cancelled_to_def signal_done_def)
  have "closed_from 0 st'"
    unfolding closed_from_def
  proof (intro allI impI)
    fix j p assume j: "j < signal_count st'" "link_at st' j = Some p" "signal_done st' p"
    then have j': "j < signal_count st" "link_at st j = Some p" "p < signal_count st"
      using shape store_inv_parts(1) [OF assms(1)] by (fastforce simp: same_shape_def links_ok_def)+
    then show "signal_done st' j"
      using j(3) fin store_inv_parts(2) [OF assms(1), of 0] by (auto simp: closed_from_def intro: descends.intros)
  qed
  moreover have "links_ok st'" "deadlines_ok st'"
    using store_inv_parts [OF assms(1)] shape by (simp_all add: links_ok_def deadlines_ok_def same_shape_def)
  moreover have "cause_at st' j \<in> {k_not_done, k_canceled, k_deadline_exceeded}" if "j < signal_count st'" for j
    using assms(1,2,4) that by (auto simp: cancelled_to_def same_shape_def store_inv_def)
  moreover have "snd (snd e) < signal_count st' \<and> deadline_at st' (snd (snd e)) = Some (fst e)" if "e \<in> set (st_timers st')" for e
    using assms(1,5) that shape by (auto simp: store_inv_def same_shape_def)
  ultimately show ?thesis by (auto simp: store_inv_def)
qed

lemma cancel_signal_to:
  assumes "store_inv st" "c \<noteq> k_not_done" "i < signal_count st"
  shows "cancelled_to c {j. descends st j i} st (cancel_signal i c True st)"
  unfolding cancel_signal_def
  by (rule signal_cancel_to) (use assms store_inv_parts in auto)

lemma cancel_signal_inv:
  assumes "store_inv st" "c \<in> {k_canceled, k_deadline_exceeded}" "i < signal_count st"
  shows "store_inv (cancel_signal i c fp st)" "signal_count (cancel_signal i c fp st) = signal_count st"
proof -
  have c: "c \<noteq> k_not_done" using assms(2) by (auto simp: k_not_done_def k_canceled_def k_deadline_exceeded_def)
  have to: "cancelled_to c {j. descends st j i} st (cancel_signal i c True st)"
    by (rule cancel_signal_to [OF assms(1) c assms(3)])
  have inv: "store_inv (cancel_signal i c True st)"
    by (rule cancelled_inv [OF assms to]) (simp add: cancel_signal_def signal_cancel_timers)
  have n: "cancel_signal i c False st = (if signal_done st i then st else release_link i (cancel_signal i c True st))"
    using assms(3) by (cases "st_signals st") (simp_all add: cancel_signal_def signal_cancel_not_from_parent)
  show "store_inv (cancel_signal i c fp st)" using inv assms(1) by (cases fp) (auto simp: n release_link_inv)
  show "signal_count (cancel_signal i c fp st) = signal_count st"
    using to by (cases fp) (auto simp: n cancelled_to_def same_shape_def)
qed

text \<open>A new signal, linked to its parent and cancelled with it when the parent is done.\<close>

lemma signal_of_append:
  "signal_of (st\<lparr>st_signals := st_signals st @ [s]\<rparr>) j = (if j = signal_count st then s else
     if j < signal_count st then signal_of st j else signal_of (st\<lparr>st_signals := st_signals st @ [s]\<rparr>) j)"
  by (auto simp: signal_of_def nth_append)

lemma new_child_inv:
  assumes inv: "store_inv st" and par: "parent_exists st parent"
    and dl: "\<And>p d. parent = Some p \<Longrightarrow> deadline_at st p = Some d \<Longrightarrow> \<exists>e \<le> d. deadline = Some e"
    and new: "new_child_signal parent deadline st = (i, st')"
  shows "store_inv st' \<and> i = signal_count st \<and> signal_count st' = Suc (signal_count st) \<and>
    deadline_at st' i = deadline \<and>
    (\<forall>j < signal_count st. cause_at st' j = cause_at st j \<and> link_at st' j = link_at st j \<and> deadline_at st' j = deadline_at st j) \<and>
    cause_at st' i = (case parent of None \<Rightarrow> k_not_done | Some p \<Rightarrow> cause_at st p)"
proof -
  let ?n = "signal_count st"
  let ?st0 = "st\<lparr>st_signals := st_signals st @ [\<lparr>sg_deadline = deadline, sg_cause = k_not_done, sg_link = None, sg_timer = 0\<rparr>]\<rparr>"
  have i: "i = ?n" using new by (simp add: new_child_signal_def Let_def)
  have old: "signal_of ?st0 j = signal_of st j" if "j < ?n" for j using that by (simp add: signal_of_def nth_append)
  have fresh: "signal_of ?st0 ?n = \<lparr>sg_deadline = deadline, sg_cause = k_not_done, sg_link = None, sg_timer = 0\<rparr>"
    by (simp add: signal_of_def)
  have inv0: "store_inv ?st0"
    using inv old fresh unfolding store_inv_def links_ok_def closed_from_def deadlines_ok_def signal_done_def
    by (auto simp: less_Suc_eq)
  show ?thesis
  proof (cases parent)
    case None
    then have "st' = ?st0" using new by (simp add: new_child_signal_def Let_def)
    then show ?thesis using inv0 i old fresh None by simp
  next
    case (Some p)
    let ?st1 = "upd_signal ?n (sg_link_update (\<lambda>_. Some p)) ?st0"
    have p: "p < ?n" using par Some by (simp add: parent_exists_def)
    have one: "signal_of ?st1 j = (if j = ?n then (signal_of ?st0 ?n)\<lparr>sg_link := Some p\<rparr> else signal_of ?st0 j)" for j
      by (simp add: signal_of_upd)
    have sp: "signal_of ?st1 p = signal_of st p" using one p old by simp
    have dp: "signal_done ?st1 p = signal_done st p" by (simp add: signal_done_def sp)
    have "st' = link_signal ?n p ?st0" using new Some by (auto simp: new_child_signal_def Let_def)
    then have st': "st' = (if signal_done st p then cancel_signal ?n (cause_at st p) True ?st1 else ?st1)"
      by (simp only: link_signal_def Let_def sp dp)
    have links: "links_ok ?st1" "deadlines_ok ?st1"
      using inv0 p dl [OF Some] old [OF p] fresh one
      unfolding store_inv_def links_ok_def deadlines_ok_def by (auto simp: less_Suc_eq)
    have timers: "snd (snd e) < signal_count ?st1 \<and> deadline_at ?st1 (snd (snd e)) = Some (fst e)"
      if "e \<in> set (st_timers ?st1)" for e
      using inv0 that one unfolding store_inv_def by (auto simp: timers_subset(2))
    show ?thesis
    proof (cases "signal_done st p")
      case False
      have "closed_from 0 ?st1"
        using inv0 p False old one unfolding store_inv_def closed_from_def signal_done_def by (auto simp: less_Suc_eq)
      moreover have "cause_at ?st1 j \<in> {k_not_done, k_canceled, k_deadline_exceeded}" if "j < signal_count ?st1" for j
        using inv0 that one unfolding store_inv_def by auto
      ultimately have "store_inv ?st1" using links timers unfolding store_inv_def by blast
      then show ?thesis using False st' i old fresh one Some by (auto simp: signal_done_def)
    next
      case True
      let ?c = "cause_at st p"
      have c: "?c \<noteq> k_not_done" "?c \<in> {k_canceled, k_deadline_exceeded}"
        using True inv p by (auto simp: signal_done_def store_inv_def)
      have "closed_from ?n ?st1" using links(1) by (auto simp: closed_from_def links_ok_def)
      have "cancelled_to ?c {j. descends ?st1 j ?n} ?st1 (signal_cancel (signal_count ?st1) ?n ?c True ?st1)"
        by (rule signal_cancel_to [OF c(1) links(1) \<open>closed_from ?n ?st1\<close>]) simp_all
      moreover have eq: "st' = signal_cancel (signal_count ?st1) ?n ?c True ?st1"
        by (simp only: st' True if_True cancel_signal_def)
      ultimately have to: "cancelled_to ?c {j. descends ?st1 j ?n} ?st1 st'" by (simp only:)
      have below: "cause_at st' j = cause_at st j" if "j < ?n" for j
        using to that old one descends_ge [OF links(1), of j ?n] by (auto simp: cancelled_to_def signal_done_def)
      have self: "cause_at st' ?n = ?c"
        using to one fresh by (auto simp: cancelled_to_def signal_done_def intro: descends.intros)
      have shape: "same_shape ?st1 st'" using to by (simp add: cancelled_to_def)
      have lk: "link_at st' j = link_at st j" "deadline_at st' j = deadline_at st j" if "j < ?n" for j
        using shape that old one by (auto simp: same_shape_def)
      have self': "link_at st' ?n = Some p" "deadline_at st' ?n = deadline" "signal_count st' = Suc ?n"
        using shape one fresh by (auto simp: same_shape_def)
      have "closed_from 0 st'"
        using store_inv_parts(1) [OF inv] store_inv_parts(2) [OF inv, of 0] below self self' lk c(1) True p
        unfolding closed_from_def links_ok_def signal_done_def by (auto simp: less_Suc_eq)
      moreover have "cause_at st' j \<in> {k_not_done, k_canceled, k_deadline_exceeded}" if "j < signal_count st'" for j
        using inv that below self self'(3) c(2) by (auto simp: store_inv_def less_Suc_eq)
      moreover have "links_ok st'" "deadlines_ok st'"
        using links shape by (simp_all add: links_ok_def deadlines_ok_def same_shape_def)
      moreover have "snd (snd e) < signal_count st' \<and> deadline_at st' (snd (snd e)) = Some (fst e)" if "e \<in> set (st_timers st')" for e
      proof -
        have "e \<in> set (st_timers ?st1)" by (rule subsetD [OF signal_cancel_timers that [unfolded eq]])
        then show ?thesis using timers [of e] shape by (simp add: same_shape_def)
      qed
      ultimately have "store_inv st'" unfolding store_inv_def by blast
      then show ?thesis using i self self' below lk Some by auto
    qed
  qed
qed


lemma same_store_inv:
  assumes "store_inv st" "same_shape st st'" "\<And>j. cause_at st' j = cause_at st j"
    and "\<And>e. e \<in> set (st_timers st') \<Longrightarrow> snd (snd e) < signal_count st \<and> deadline_at st (snd (snd e)) = Some (fst e)"
  shows "store_inv st'"
  using assms by (simp add: store_inv_def links_ok_def closed_from_def deadlines_ok_def signal_done_def same_shape_def)

lemma arm_deadline_inv:
  assumes "store_inv st" "i < signal_count st"
  shows "store_inv (arm_deadline now i st)"
proof (cases "sg_deadline (signal_of st i)")
  case (Some d)
  have "store_inv (upd_signal i (sg_timer_update (\<lambda>_. tid)) st')" if "timer_add d i st = (tid, st')" for tid st'
  proof (rule same_store_inv [OF assms(1)])
    have st': "st_signals st' = st_signals st" "set (st_timers st') \<subseteq> insert (d, tid, i) (set (st_timers st))"
      using that by (auto simp: timer_add_def Let_def dest: set_takeWhileD in_set_dropD)
    then have same: "signal_of st' j = signal_of st j" for j by (simp add: signal_of_def)
    then show "same_shape st (upd_signal i (sg_timer_update (\<lambda>_. tid)) st')"
      "\<And>j. cause_at (upd_signal i (sg_timer_update (\<lambda>_. tid)) st') j = cause_at st j"
      using st'(1) by (simp_all add: same_shape_def signal_of_upd)
    fix e assume "e \<in> set (st_timers (upd_signal i (sg_timer_update (\<lambda>_. tid)) st'))"
    then have "e = (d, tid, i) \<or> e \<in> set (st_timers st)" using st'(2) by (auto simp: timers_subset(2))
    then show "snd (snd e) < signal_count st \<and> deadline_at st (snd (snd e)) = Some (fst e)"
      using assms Some by (auto simp: store_inv_def)
  qed
  then show ?thesis using assms Some by (auto simp: arm_deadline_def cancel_signal_inv split: prod.splits)
qed (use assms in \<open>simp add: arm_deadline_def\<close>)

lemma with_cancel_inv:
  assumes "store_inv st" "parent_exists st p"
  shows "store_inv (snd (with_cancel (at_signal p) st))"
proof -
  obtain i st' where new: "new_child_signal p (ctx_deadline st (at_signal p)) st = (i, st')" by fastforce
  have "store_inv st'" using new_child_inv [OF assms _ new] by (simp add: ctx_deadline_def)
  then show ?thesis using new by (simp add: with_cancel_def)
qed

lemma with_deadline_inv:
  assumes "store_inv st" "parent_exists st p"
  shows "store_inv (snd (with_deadline now (at_signal p) d st))"
proof (cases "\<exists>e \<le> d. ctx_deadline st (at_signal p) = Some e")
  case True
  then show ?thesis using with_cancel_inv [OF assms] by (auto simp: with_deadline_def)
next
  case False
  obtain i st' where new: "new_child_signal p (Some d) st = (i, st')" by fastforce
  have "store_inv st' \<and> i < signal_count st'"
  proof -
    have "\<exists>e \<le> d'. Some d = Some e" if "p = Some q" "deadline_at st q = Some d'" for q d'
      using that False by (simp add: ctx_deadline_def)
    then show ?thesis using new_child_inv [OF assms _ new] by simp
  qed
  then have "store_inv (arm_deadline now i st')" by (simp add: arm_deadline_inv)
  then show ?thesis using False new by (auto simp: with_deadline_def split: option.splits)
qed

lemma timer_round_inv:
  assumes "store_inv st"
  shows "store_inv (timer_round now st)"
proof -
  have ends: "store_inv (fold (\<lambda>e st. cancel_signal (snd (snd e)) k_deadline_exceeded False st) es st)"
    if "store_inv st" "\<forall>e \<in> set es. snd (snd e) < signal_count st" for es st
    using that
    by (induction es arbitrary: st) (auto simp: cancel_signal_inv)
  have "store_inv (st\<lparr>st_timers := drop n (st_timers st)\<rparr>)" for n
    using assms unfolding store_inv_def links_ok_def closed_from_def deadlines_ok_def signal_done_def
    by (auto simp: signal_of_def dest: in_set_dropD)
  moreover have "\<forall>e \<in> set (takeWhile (\<lambda>e. fst e \<le> now) (st_timers st)). snd (snd e) < signal_count st"
    using assms by (auto simp: store_inv_def dest!: set_takeWhileD)
  ultimately show ?thesis unfolding timer_round_def Let_def by (intro ends) simp_all
qed

lemma run_ctx_op_inv: "store_inv st \<Longrightarrow> store_inv (run_ctx_op o' st)"
  by (cases o')
    (auto simp: with_cancel_inv with_deadline_inv timer_round_inv destroy_signal_def drop_timer_inv release_link_inv
       ctx_cancel_def cancel_signal_inv)

lemma store_inv_fold: "store_inv (fold run_ctx_op ops empty_store)"
proof -
  have "store_inv (fold run_ctx_op ops st)" if "store_inv st" for st
    using that by (induction ops arbitrary: st) (auto simp: run_ctx_op_inv)
  moreover have "store_inv empty_store"
    by (simp add: store_inv_def empty_store_def links_ok_def closed_from_def deadlines_ok_def)
  ultimately show ?thesis by blast
qed

section \<open>The properties\<close>

text \<open>
  C31: Cancelling a context reaches exactly the contexts derived from it: a signal that had ended
  already keeps its cause, the cancelled signal and its descendants along the links end with the
  given cause, and every other signal goes on.
\<close>

theorem cancel_reaches_exactly_descendants:
  assumes "store_inv st" "i < length (st_signals st)" "j < length (st_signals st)" "cause \<in> {k_canceled, k_deadline_exceeded}"
  shows "sg_cause (signal_of (cancel_signal i cause from_parent st) j) =
    (if signal_done st j then sg_cause (signal_of st j) else if descends st j i then cause else k_not_done)"
proof -
  have c: "cause \<noteq> k_not_done" using assms(4) by (auto simp: k_not_done_def k_canceled_def k_deadline_exceeded_def)
  have to: "cancelled_to cause {j. descends st j i} st (cancel_signal i cause True st)"
    by (rule cancel_signal_to [OF assms(1) c assms(2)])
  have rel: "cause_at (release_link i s) j = cause_at s j" for s by (simp add: release_link_def signal_of_upd)
  have closed: "signal_done st j" if "signal_done st i" "descends st j i"
    using closed_descends [OF that(2)] store_inv_parts [OF assms(1)] that(1) by blast
  show ?thesis
    using to assms(2,3) rel closed
    by (cases from_parent) (auto simp: cancelled_to_def cancel_signal_def signal_cancel_not_from_parent signal_done_def)
qed

definition three_contexts :: context_store where
  "three_contexts = fold run_ctx_op [NewCancel None, NewCancel (Some 0), NewCancel None] empty_store"

lemma three_contexts_signals:
  "st_signals three_contexts =
     [\<lparr>sg_deadline = None, sg_cause = k_not_done, sg_link = None, sg_timer = 0\<rparr>,
      \<lparr>sg_deadline = None, sg_cause = k_not_done, sg_link = Some 0, sg_timer = 0\<rparr>,
      \<lparr>sg_deadline = None, sg_cause = k_not_done, sg_link = None, sg_timer = 0\<rparr>]"
  by code_simp

theorem cancel_reaches_exactly_descendants_witness:
  "sg_cause (signal_of (cancel_signal 0 k_canceled False three_contexts) 1) = k_canceled \<and>
   sg_cause (signal_of (cancel_signal 0 k_canceled False three_contexts) 2) = k_not_done"
proof -
  have inv: "store_inv three_contexts" unfolding three_contexts_def by (rule store_inv_fold)
  have parts: "linked_children three_contexts 0 = [1]" "linked_children three_contexts 1 = []"
      "\<not> signal_done three_contexts 1" "\<not> signal_done three_contexts 2"
    by (simp_all add: linked_children_def signal_of_def signal_done_def three_contexts_signals upt_rec)
  have "descends three_contexts 1 0" "\<not> descends three_contexts 2 0"
    using parts(1,2) descends_cases [of three_contexts _ 0] descends_cases [of three_contexts _ 1] by auto
  then show ?thesis
    using cancel_reaches_exactly_descendants [OF inv, of 0 1 k_canceled False]
      cancel_reaches_exactly_descendants [OF inv, of 0 2 k_canceled False] parts(3,4)
    by (simp add: three_contexts_signals)
qed

text \<open>
  C32: Whatever contexts are made, cancelled, timed out and destroyed, in any order: a context made
  from a finished one is finished, its deadline is at most its parent's, causes are the three known
  ones, and every timer entry belongs to a signal with that deadline.
\<close>

theorem context_store_invariant: "store_inv (fold run_ctx_op ops empty_store)"
  by (rule store_inv_fold)

end
