(* ===== verification/Shards.thy ===== *)
theory Shards
  imports Engine_Checks Templates Request_Context
begin

text \<open>
  \<open>parallel_execute\<close> (\<open>src/runtime/engine.cpp\<close>): an operator runs on shards of the items, one
  window view each, on threads of their own; the shard outputs are merged in shard order.  The
  threads are a step relation: one atomic step per access to the state the shards share
  (\<open>shard_ctx\<close>, \<open>first_err\<close>, \<open>skipped\<close>).  An operator is called with what it observes of its
  context while it runs, an arbitrary value of type \<open>'c\<close>.
\<close>

section \<open>The layout\<close>

text \<open>The loop over the shards: shard \<open>i\<close> starts at the cursor; the first \<open>rem\<close> get one item more.\<close>

fun layout :: "nat \<Rightarrow> nat \<Rightarrow> nat \<Rightarrow> nat \<Rightarrow> nat \<Rightarrow> (nat \<times> nat) list" where
  "layout base rem i 0 cursor = []"
| "layout base rem i (Suc k) cursor =
     (let width = base + (if i < rem then 1 else 0) in (cursor, width) # layout base rem (Suc i) k (cursor + width))"

definition shard_windows :: "nat \<Rightarrow> nat \<Rightarrow> (nat \<times> nat) list" where
  "shard_windows items n = layout (items div n) (items mod n) 0 n 0"

fun make_shards :: "frame \<Rightarrow> (nat \<times> nat) list \<Rightarrow> error + frame list" where
  "make_shards f [] = Inr []"
| "make_shards f ((cursor, width) # ws) =
     rbind (frame_view f cursor width) (\<lambda>shard. rbind (make_shards f ws) (\<lambda>shards. Inr (shard # shards)))"

section \<open>Merging\<close>

definition merge_shard_output ::
  "string \<Rightarrow> operator_output \<times> nat \<Rightarrow> operator_output \<Rightarrow> (operator_output, error) outcome" where
  "merge_shard_output op_name src_offset dst =
     (case src_offset of (src, offset) \<Rightarrow>
        if added_items src \<noteq> [] \<or> has_item_order src \<or> common_writes src \<noteq> []
        then (dst, Some (PanicError op_name (''data_parallel shard emitted added_items, item_order, or common '' @
                ''writes; only item_writes / removed_items / warnings are allowed'')))
        else let dst = fold (\<lambda>(idx, field, v). set_item (idx + int offset) field v) (item_writes src) dst;
                 dst = fold (\<lambda>(field, vals). fold (\<lambda>(i, d). set_item (int i + int offset) field (VNum d)) (enumerate 0 vals))
                         (column_writes src) dst;
                 dst = fold (\<lambda>idx. remove_item (idx + int offset)) (removed_items src) dst
             in (if has_warning src then set_warning (warning src) dst else dst, None))"

section \<open>The threads\<close>

datatype shard_phase = ShardPending | ShardRunning | ShardEnded

record shard_run =
  sh_phase :: "shard_phase list"
  sh_outs :: "operator_output list"
  sh_first_err :: "error option"
  sh_cause :: nat
  sh_skipped :: bool

definition shards_start :: "nat \<Rightarrow> nat \<Rightarrow> shard_run" where
  "shards_start cause n = \<lparr>sh_phase = replicate n ShardPending, sh_outs = replicate n empty_output,
     sh_first_err = None, sh_cause = cause, sh_skipped = False\<rparr>"

definition set_phase :: "nat \<Rightarrow> shard_phase \<Rightarrow> shard_run \<Rightarrow> shard_run" where
  "set_phase i p st = st\<lparr>sh_phase := (sh_phase st)[i := p]\<rparr>"

text \<open>The handler of a shard that threw: the first error is kept and cancels the others.\<close>

definition shard_failed :: "error \<Rightarrow> shard_run \<Rightarrow> shard_run" where
  "shard_failed e st =
     (if sh_first_err st = None
      then st\<lparr>sh_first_err := Some e, sh_cause := (if sh_cause st = k_not_done then k_canceled else sh_cause st)\<rparr>
      else st)"

definition shard_returned :: "nat \<Rightarrow> operator_output \<Rightarrow> shard_run \<Rightarrow> shard_run" where
  "shard_returned i out st = set_phase i ShardEnded (st\<lparr>sh_outs := (sh_outs st)[i := out]\<rparr>)"

text \<open>
  \<open>call c i out\<close> is what the body of shard \<open>i\<close> does after its context check.  The last rule is the
  caller: its cancellation or deadline reaches \<open>shard_ctx\<close> at any time.
\<close>

inductive shard_step ::
  "('c \<Rightarrow> nat \<Rightarrow> operator_output \<Rightarrow> (operator_output, error) outcome) \<Rightarrow> shard_run \<Rightarrow> shard_run \<Rightarrow> bool"
  for call where
  shard_skip: "i < length (sh_phase st) \<Longrightarrow> sh_phase st ! i = ShardPending \<Longrightarrow> sh_cause st \<noteq> k_not_done \<Longrightarrow>
     shard_step call st (set_phase i ShardEnded (st\<lparr>sh_skipped := True\<rparr>))"
| shard_begin: "i < length (sh_phase st) \<Longrightarrow> sh_phase st ! i = ShardPending \<Longrightarrow> sh_cause st = k_not_done \<Longrightarrow>
     shard_step call st (set_phase i ShardRunning st)"
| shard_return: "i < length (sh_phase st) \<Longrightarrow> sh_phase st ! i = ShardRunning \<Longrightarrow>
     call c i (sh_outs st ! i) = (out, None) \<Longrightarrow> shard_step call st (shard_returned i out st)"
| shard_throw: "i < length (sh_phase st) \<Longrightarrow> sh_phase st ! i = ShardRunning \<Longrightarrow>
     call c i (sh_outs st ! i) = (out, Some e) \<Longrightarrow>
     shard_step call st (shard_failed e (shard_returned i out st))"
| shard_ctx_done: "sh_cause st = k_not_done \<Longrightarrow> cause \<in> {k_canceled, k_deadline_exceeded} \<Longrightarrow>
     shard_step call st (st\<lparr>sh_cause := cause\<rparr>)"

definition shards_joined :: "shard_run \<Rightarrow> bool" where
  "shards_joined st \<longleftrightarrow> list_all (\<lambda>p. p = ShardEnded) (sh_phase st)"

text \<open>After the join: the first error, or an error for a skipped shard, or the merge.\<close>

definition shards_result ::
  "string \<Rightarrow> nat list \<Rightarrow> shard_run \<Rightarrow> operator_output \<Rightarrow> (operator_output, error) outcome" where
  "shards_result op_name offsets st out =
     (case sh_first_err st of
        Some e \<Rightarrow> (out, Some e)
      | None \<Rightarrow>
          if sh_skipped st
          then (out, Some (exec_error op_name (context_msg (sh_cause st = k_deadline_exceeded))))
          else for_each (merge_shard_output op_name) (zip (sh_outs st) offsets) out)"

section \<open>The function\<close>

text \<open>The common part of both branches: build the input from a frame, run the operator on it.\<close>

definition execute_on ::
  "'c op_fun flat_map \<Rightarrow> operator_config \<Rightarrow> input_field_spec \<Rightarrow> variant unordered_map option \<Rightarrow> 'c \<Rightarrow> frame \<Rightarrow>
   operator_output \<Rightarrow> (operator_output, error) outcome" where
  "execute_on operators op spec resolved ctx f out =
     (case build_operator_input f (oc_name op) spec of
        Inl e \<Rightarrow> (out, Some e)
      | Inr inp \<Rightarrow> dispatch_with_recovery operators ctx op (set_templated_params resolved inp) out)"

text \<open>\<open>catch (const ExecutionError& e)\<close> around the resolver.\<close>

fun named_error :: "string \<Rightarrow> error \<Rightarrow> error" where
  "named_error op (ExecutionError name inner) = wrap_inner op (ExecutionError name inner) inner"
| "named_error op (ContextError dl) = wrap_inner op (ContextError dl) (context_msg dl)"
| "named_error op e = e"

definition resolve_plan ::
  "(writer_call list \<Rightarrow> string) \<Rightarrow> string \<Rightarrow> templated_param list \<Rightarrow> frame \<Rightarrow> error + variant unordered_map option" where
  "resolve_plan rj op_name plan f =
     (if plan = [] then Inr None
      else case resolve_templated_params rj plan f of
             Inl e \<Rightarrow> Inl (named_error op_name e)
           | Inr m \<Rightarrow> Inr (Some m))"

definition shard_count :: "operator_config \<Rightarrow> frame \<Rightarrow> nat" where
  "shard_count op f =
     (let total = frame_item_count f; n = oc_data_parallel op
      in if n \<le> 1 \<or> total = 0 then 1 else if n > int total then total else nat n)"

definition sharded :: "operator_config \<Rightarrow> frame \<Rightarrow> bool" where
  "sharded op f \<longleftrightarrow> \<not> (oc_data_parallel op \<le> 1 \<or> frame_item_count f = 0)"

inductive parallel_execute ::
  "(writer_call list \<Rightarrow> string) \<Rightarrow> 'c op_fun flat_map \<Rightarrow> operator_config \<Rightarrow> input_field_spec \<Rightarrow> templated_param list \<Rightarrow>
   frame \<Rightarrow> operator_output \<Rightarrow> (operator_output, error) outcome \<Rightarrow> bool"
  for rj operators op spec plan f out where
  pe_unresolved: "resolve_plan rj (oc_name op) plan f = Inl e \<Longrightarrow>
     parallel_execute rj operators op spec plan f out (out, Some e)"
| pe_single: "resolve_plan rj (oc_name op) plan f = Inr resolved \<Longrightarrow> \<not> sharded op f \<Longrightarrow>
     parallel_execute rj operators op spec plan f out (execute_on operators op spec resolved ctx f out)"
| pe_no_view: "resolve_plan rj (oc_name op) plan f = Inr resolved \<Longrightarrow> sharded op f \<Longrightarrow>
     make_shards f (shard_windows (frame_item_count f) (shard_count op f)) = Inl e \<Longrightarrow>
     parallel_execute rj operators op spec plan f out (out, Some e)"
| pe_sharded: "resolve_plan rj (oc_name op) plan f = Inr resolved \<Longrightarrow> sharded op f \<Longrightarrow>
     windows = shard_windows (frame_item_count f) (shard_count op f) \<Longrightarrow> make_shards f windows = Inr shards \<Longrightarrow>
     cause \<in> {k_not_done, k_canceled, k_deadline_exceeded} \<Longrightarrow>
     (shard_step (\<lambda>c i. execute_on operators op spec resolved c (shards ! i)))\<^sup>*\<^sup>*
       (shards_start cause (length shards)) st \<Longrightarrow>
     shards_joined st \<Longrightarrow>
     parallel_execute rj operators op spec plan f out (shards_result (oc_name op) (map fst windows) st out)"

inductive_simps shard_step_iff: "shard_step call st st'"
inductive_cases parallel_executeE: "parallel_execute rj operators op spec plan f out r"

end
