(* ===== verification/Shard_Theorems.thy ===== *)
theory Shard_Theorems
  imports Shards Input_Theorems
begin

text \<open>
  Sharded execution: the windows partition the items, no failure and no skipped shard is lost
  whatever the interleaving, and an operator that treats every item by itself cannot tell that it
  runs on shards.
\<close>

section \<open>The windows\<close>

abbreviation covered :: "(nat \<times> nat) list \<Rightarrow> nat list" where
  "covered ws \<equiv> concat (map (\<lambda>(off, w). [off..<off + w]) ws)"

lemma layout_widths: "map snd (layout base rem i k cursor) = map (\<lambda>j. base + (if j < rem then 1 else 0)) [i..<i + k]"
  by (induction k arbitrary: i cursor) (simp_all add: Let_def upt_conv_Cons)

lemma layout_covers: "covered (layout base rem i k cursor) = [cursor..<cursor + sum_list (map snd (layout base rem i k cursor))]"
proof (induction k arbitrary: i cursor)
  case (Suc k)
  have join: "[a..<a + w] @ [a + w..<a + w + s] = [a..<a + (w + s)]" for a w s :: nat
    using upt_add_eq_append [of a "a + w" s] by (simp add: add.assoc)
  show ?case unfolding layout.simps Let_def by (simp only: list.map concat.simps prod.case snd_conv sum_list.Cons Suc join)
qed simp

lemma widths_sum: "sum_list (map (\<lambda>j. base + (if j < rem then 1 else 0)) [0..<n]) = n * base + min n rem"
  by (induction n) auto

lemma shard_windows_facts:
  assumes "0 < n" "n \<le> items"
  shows "length (shard_windows items n) = n \<and> covered (shard_windows items n) = [0..<items] \<and>
    set (map snd (shard_windows items n)) \<subseteq> {items div n, Suc (items div n)} \<and> 0 \<notin> set (map snd (shard_windows items n))"
proof -
  have widths: "map snd (shard_windows items n) = map (\<lambda>j. items div n + (if j < items mod n then 1 else 0)) [0..<n]"
    using layout_widths [of _ _ 0 n 0] by (simp add: shard_windows_def)
  have "min n (items mod n) = items mod n" using assms(1) mod_less_divisor [of n items] by linarith
  then have "sum_list (map snd (shard_windows items n)) = items"
    unfolding widths widths_sum by simp
  then have "covered (shard_windows items n) = [0..<items]"
    using layout_covers [of "items div n" "items mod n" 0 n 0] by (simp add: shard_windows_def)
  moreover have "0 < items div n" using assms by (simp add: div_greater_zero_iff)
  moreover have "length (shard_windows items n) = n" using arg_cong [OF widths, of length] by simp
  ultimately show ?thesis unfolding widths by (auto split: if_splits)
qed

text \<open>
  C10: the windows of \<open>n\<close> shards are the items cut into \<open>n\<close> consecutive, non-empty pieces, in order:
  every item is in exactly one window, and two windows differ by at most one item.
\<close>

theorem shard_windows_partition:
  assumes "0 < n" "n \<le> items"
  shows "length (shard_windows items n) = n \<and> covered (shard_windows items n) = [0..<items] \<and>
    set (map snd (shard_windows items n)) \<subseteq> {items div n, Suc (items div n)} \<and> 0 \<notin> set (map snd (shard_windows items n))"
  by (rule shard_windows_facts [OF assms])

theorem shard_windows_partition_witness:
  "covered (shard_windows 7 3) = [0..<7] \<and> shard_windows 7 3 = [(0, 3), (3, 2), (5, 2)]"
proof
  show "covered (shard_windows 7 3) = [0..<7]" using shard_windows_partition [of 3 7] by simp
qed code_simp

lemma window_bounds:
  assumes "(off, w) \<in> set (shard_windows items n)" "0 < n" "n \<le> items"
  shows "off + w \<le> items"
proof -
  have "w \<in> set (map snd (shard_windows items n))" using assms(1) by (metis image_eqI set_map snd_conv)
  then have "0 < w" using shard_windows_facts [OF assms(2,3)] by (metis gr0I)
  then have "off + w - 1 \<in> set [off..<off + w]" by simp
  also have "\<dots> \<subseteq> set (covered (shard_windows items n))" using assms(1) by fastforce
  also have "\<dots> = set [0..<items]" using shard_windows_facts [OF assms(2,3)] by simp
  finally show ?thesis using \<open>0 < w\<close> by simp
qed

section \<open>The threads\<close>

definition shards_inv ::
  "('c \<Rightarrow> nat \<Rightarrow> operator_output \<Rightarrow> (operator_output, error) outcome) \<Rightarrow> nat \<Rightarrow> shard_run \<Rightarrow> bool" where
  "shards_inv call n st \<longleftrightarrow>
     length (sh_phase st) = n \<and> length (sh_outs st) = n \<and>
     (\<forall>i < n. sh_phase st ! i \<noteq> ShardEnded \<longrightarrow> sh_outs st ! i = empty_output) \<and>
     (\<forall>e. sh_first_err st = Some e \<longrightarrow> sh_cause st \<noteq> k_not_done \<and> (\<exists>i < n. \<exists>c out. call c i empty_output = (out, Some e))) \<and>
     (sh_skipped st \<longrightarrow> sh_cause st \<noteq> k_not_done) \<and>
     (sh_first_err st = None \<longrightarrow> \<not> sh_skipped st \<longrightarrow>
       (\<forall>i < n. sh_phase st ! i = ShardEnded \<longrightarrow> (\<exists>c. call c i empty_output = (sh_outs st ! i, None))))"

lemma shards_inv_start: "shards_inv call n (shards_start cause n)"
  by (simp add: shards_inv_def shards_start_def)

lemmas shard_updates = set_phase_def shard_returned_def shard_failed_def nth_list_update k_not_done_def k_canceled_def
  k_deadline_exceeded_def

lemma shards_inv_step:
  assumes "shard_step call st st'" "shards_inv call n st"
  shows "shards_inv call n st'"
  using assms
proof (cases rule: shard_step.cases)
  case (shard_return i c out)
  then have "call c i empty_output = (out, None)" using assms(2) by (simp add: shards_inv_def)
  then show ?thesis using assms(2) shard_return unfolding shards_inv_def by (auto simp: shard_updates)
next
  case (shard_throw i c out e)
  then have "i < n" "call c i empty_output = (out, Some e)" using assms(2) by (simp_all add: shards_inv_def)
  then show ?thesis using assms(2) shard_throw unfolding shards_inv_def by (auto simp: shard_updates)
qed (auto simp: shards_inv_def shard_updates)

lemma shards_inv_run: "(shard_step call)\<^sup>*\<^sup>* st st' \<Longrightarrow> shards_inv call n st \<Longrightarrow> shards_inv call n st'"
  by (induction rule: rtranclp_induct) (auto intro: shards_inv_step)

text \<open>The threads always reach the join: some step other than the caller's is possible, and steps run out.\<close>

fun phase_weight :: "shard_phase \<Rightarrow> nat" where
  "phase_weight ShardPending = 2" | "phase_weight ShardRunning = 1" | "phase_weight ShardEnded = 0"

definition shards_left :: "shard_run \<Rightarrow> nat" where
  "shards_left st = sum_list (map phase_weight (sh_phase st)) + (if sh_cause st = k_not_done then 1 else 0)"

lemma shard_weight_update:
  assumes "i < length ps" "phase_weight p < phase_weight (ps ! i)"
  shows "sum_list (map phase_weight (ps[i := p])) < sum_list (map phase_weight ps)"
proof -
  have "sum_list (map phase_weight ps) = phase_weight (ps ! i) + (sum_list (map phase_weight ps) - phase_weight (ps ! i))"
    using assms(1) member_le_sum_list [of "phase_weight (ps ! i)" "map phase_weight ps"] by simp
  then show ?thesis using assms by (simp add: map_update sum_list_update)
qed

lemma shard_step_decreases: "shard_step call st st' \<Longrightarrow> shards_left st' < shards_left st"
proof (induction rule: shard_step.induct)
  case (shard_throw i st c out e)
  then have "sum_list (map phase_weight ((sh_phase st)[i := ShardEnded])) < sum_list (map phase_weight (sh_phase st))"
    by (intro shard_weight_update) simp_all
  then show ?case by (simp add: shards_left_def shard_updates)
qed (auto simp: shards_left_def shard_updates shard_weight_update)

lemma shard_progress:
  assumes "\<not> shards_joined st"
  shows "\<exists>st'. shard_step call st st'"
proof -
  obtain i where i: "i < length (sh_phase st)" "sh_phase st ! i \<noteq> ShardEnded"
    using assms by (auto simp: shards_joined_def list_all_length)
  show ?thesis
  proof (cases "sh_phase st ! i")
    case ShardRunning
    obtain out e where "call undefined i (sh_outs st ! i) = (out, e)" by fastforce
    then show ?thesis using i(1) ShardRunning by (cases e) (auto intro: shard_return shard_throw)
  qed (use i in \<open>auto intro: shard_skip shard_begin\<close>)
qed

lemma shards_join: "\<exists>st'. (shard_step call)\<^sup>*\<^sup>* st st' \<and> shards_joined st'"
proof (induction st rule: measure_induct_rule [of shards_left])
  case (less st)
  then show ?case
    using shard_progress [of st call] shard_step_decreases [of call st] by (meson converse_rtranclp_into_rtranclp rtranclp.rtrancl_refl)
qed

section \<open>The outcome\<close>

lemma shard_count_bounds: "sharded op f \<Longrightarrow> 0 < shard_count op f \<and> shard_count op f \<le> frame_item_count f"
  by (auto simp: sharded_def shard_count_def Let_def)

lemma make_shards_some:
  assumes "frame_inv f" "frame_owned f" "\<forall>(off, w) \<in> set ws. off + w \<le> frame_item_count f"
  shows "\<exists>shards. make_shards f ws = Inr shards \<and> length shards = length ws \<and>
    (\<forall>i < length ws. frame_view f (fst (ws ! i)) (snd (ws ! i)) = Inr (shards ! i))"
  using assms(3)
proof (induction ws)
  case (Cons x ws)
  obtain off w where x: "x = (off, w)" by fastforce
  then obtain v where v: "frame_view f off w = Inr v" using frame_view_some [OF assms(1,2), of off w] Cons.prems by auto
  obtain shards where "make_shards f ws = Inr shards" "length shards = length ws"
      "\<forall>i < length ws. frame_view f (fst (ws ! i)) (snd (ws ! i)) = Inr (shards ! i)"
    using Cons by auto
  then show ?case using v x by (auto simp: rbind_def nth_Cons split: nat.split)
qed simp

lemma shards_made:
  assumes "frame_inv f" "frame_owned f" "sharded op f"
  defines "ws \<equiv> shard_windows (frame_item_count f) (shard_count op f)"
  shows "\<exists>shards. make_shards f ws = Inr shards \<and> length shards = shard_count op f \<and>
    (\<forall>i < shard_count op f. frame_view f (fst (ws ! i)) (snd (ws ! i)) = Inr (shards ! i))"
proof -
  note n = shard_count_bounds [OF assms(3)]
  have "length ws = shard_count op f" using shard_windows_facts n by (simp add: ws_def)
  moreover have "\<forall>(off, w) \<in> set ws. off + w \<le> frame_item_count f" using window_bounds n by (auto simp: ws_def)
  ultimately show ?thesis using make_shards_some [OF assms(1,2)] by metis
qed

lemma parallel_execute_outcome:
  assumes run: "parallel_execute rj operators op spec plan f out r"
    and f: "frame_inv f" "frame_owned f" and sh: "sharded op f"
    and res: "resolve_plan rj (oc_name op) plan f = Inr resolved"
  defines "ws \<equiv> shard_windows (frame_item_count f) (shard_count op f)"
  shows "\<exists>shards. make_shards f ws = Inr shards \<and> length shards = shard_count op f \<and>
    ((\<exists>outs. length outs = length shards \<and>
        (\<forall>i < length shards. \<exists>c. execute_on operators op spec resolved c (shards ! i) empty_output = (outs ! i, None)) \<and>
        r = for_each (merge_shard_output (oc_name op)) (zip outs (map fst ws)) out) \<or>
     (\<exists>i < length shards. \<exists>c o' e. execute_on operators op spec resolved c (shards ! i) empty_output = (o', Some e) \<and>
        r = (out, Some e)) \<or>
     (\<exists>dl. r = (out, Some (exec_error (oc_name op) (context_msg dl)))))"
proof -
  obtain shards where shards: "make_shards f ws = Inr shards" "length shards = shard_count op f"
    using shards_made [OF f sh] by (auto simp: ws_def)
  obtain cause st where st: "(shard_step (\<lambda>c i. execute_on operators op spec resolved c (shards ! i)))\<^sup>*\<^sup>*
      (shards_start cause (length shards)) st" "shards_joined st" "r = shards_result (oc_name op) (map fst ws) st out"
    using run by (rule parallel_executeE) (use res sh shards in \<open>auto simp: ws_def\<close>)
  have "shards_inv (\<lambda>c i. execute_on operators op spec resolved c (shards ! i)) (length shards) st"
    by (rule shards_inv_run [OF st(1) shards_inv_start])
  then have inv: "length (sh_outs st) = length shards"
      "\<forall>e. sh_first_err st = Some e \<longrightarrow> (\<exists>i < length shards. \<exists>c out. execute_on operators op spec resolved c (shards ! i) empty_output = (out, Some e))"
      "sh_first_err st = None \<longrightarrow> \<not> sh_skipped st \<longrightarrow> (\<forall>i < length shards. \<exists>c. execute_on operators op spec resolved c (shards ! i) empty_output = (sh_outs st ! i, None))"
    using st(2) by (auto simp: shards_inv_def shards_joined_def list_all_length)
  show ?thesis
  proof (cases "sh_first_err st")
    case (Some e)
    then show ?thesis using inv(2) shards st(3) by (auto simp: shards_result_def)
  next
    case None
    then show ?thesis using inv(1,3) shards st(3) by (cases "sh_skipped st") (auto simp: shards_result_def)
  qed
qed

section \<open>Operators that treat every item by itself\<close>

text \<open>
  Such an operator writes, for every item, fields that depend on the common fields, the templated
  parameters and the fields of that item only; it neither looks at its context nor fails.
\<close>

type_synonym item_rule = "(string \<Rightarrow> variant) \<Rightarrow> (string \<Rightarrow> variant) \<Rightarrow> (string \<Rightarrow> variant) \<Rightarrow> (string \<times> variant) list"

definition item_writes_of :: "item_rule \<Rightarrow> operator_input \<Rightarrow> nat \<Rightarrow> item_write list" where
  "item_writes_of g inp i =
     map (\<lambda>(field, v). (int i, field, v)) (g (in_common inp) (in_templated_param inp) (in_item inp i))"

definition itemwise :: "item_rule \<Rightarrow> 'c op_fun \<Rightarrow> bool" where
  "itemwise g execute \<longleftrightarrow> (\<forall>c inp out. execute c inp out =
     (out\<lparr>item_writes := item_writes out @ concat (map (item_writes_of g inp) [0..<in_item_count inp])\<rparr>, None))"

lemma view_item:
  assumes "frame_owned f" "off + w \<le> frame_item_count f" "frame_view f off w = Inr v" "i < w"
  shows "frame_item v i field = frame_item f (off + i) field"
proof (cases f)
  case (RowF g)
  then show ?thesis using assms
    by (auto simp: frame_dispatch rf_make_window_view_def rf_owned_iff rf_is_window_view_def rf_item_def rf_row_def rf_item_count_def Let_def
      add.commute split: sum.splits if_splits)
next
  case (ColF g)
  then show ?thesis using assms
    by (auto simp: frame_dispatch cf_make_window_view_def cf_owned_iff cf_is_window_view_def cf_item_def cf_index_def cf_item_count_def Let_def
      add.commute split: sum.splits if_splits)
qed

lemma build_input_on_view:
  assumes f: "frame_inv f" "frame_owned f" "off + w \<le> frame_item_count f" "0 < w" and v: "frame_view f off w = Inr v"
    and build: "build_operator_input f op spec = Inr inp"
  shows "build_operator_input v op spec = Inr (operator_input_of v spec)" "inp = operator_input_of f spec"
proof -
  note reads = fr.view_reads [OF f(1-3) v]
  have inv: "frame_inv v" using frame_view_some [OF f(1-3)] v by auto
  have has: "frame_has_common v field = frame_has_common f field" for field
    using frame_view_some [OF f(1-3)] v frame_has_common_abs [OF f(1)] frame_has_common_abs [OF inv] by (auto simp: a_window_def)
  show "inp = operator_input_of f spec" using build by (simp add: build_operator_input_Inr)
  have pos: "0 < frame_item_count v" "0 < frame_item_count f" using reads(1) f(3,4) by simp_all
  note strict = check_strict_item_Inr [OF inv pos(1)] check_strict_item_Inr [OF f(1) pos(2)]
  show "build_operator_input v op spec = Inr (operator_input_of v spec)"
    using build f(3) view_item [OF f(2,3) v]
    by (simp add: build_operator_input_Inr checks_Inr strict reads has)
qed

lemma input_on_view:
  assumes f: "frame_inv f" "frame_owned f" "off + w \<le> frame_item_count f" and v: "frame_view f off w = Inr v"
  shows "in_item_count (operator_input_of v spec) = w" "in_common (operator_input_of v spec) = in_common (operator_input_of f spec)"
    "i < w \<Longrightarrow> in_item (operator_input_of v spec) i = in_item (operator_input_of f spec) (off + i)"
  using f(3) fr.view_reads [OF f v] view_item [OF f(2,3) v]
  by (auto simp: operator_input_of_def in_common_def in_item_def fun_eq_iff Let_def)

text \<open>What merging such a shard adds, and what the shards add together.\<close>

definition shift :: "nat \<Rightarrow> item_write \<Rightarrow> item_write" where
  "shift off wr = (case wr of (idx, field, v) \<Rightarrow> (idx + int off, field, v))"

lemma fold_set_item:
  "fold (\<lambda>(idx, field, v). set_item (idx + int off) field v) ws dst = dst\<lparr>item_writes := item_writes dst @ map (shift off) ws\<rparr>"
  by (induction ws arbitrary: dst) (auto simp: set_item_def shift_def)

lemma merge_item_writes:
  "merge_shard_output op (empty_output\<lparr>item_writes := ws\<rparr>, off) dst =
     (dst\<lparr>item_writes := item_writes dst @ map (shift off) ws\<rparr>, None)"
  by (simp add: merge_shard_output_def fold_set_item empty_output_def)

lemma merge_all_item_writes:
  "for_each (merge_shard_output op) (map (\<lambda>(ws, off). (empty_output\<lparr>item_writes := ws\<rparr>, off)) xs) dst =
     (dst\<lparr>item_writes := item_writes dst @ concat (map (\<lambda>(ws, off). map (shift off) ws) xs)\<rparr>, None)"
  by (induction xs arbitrary: dst) (auto simp: merge_item_writes)

lemma itemwise_dispatch:
  assumes "itemwise g execute" "fm_find operators (oc_name op) = Some execute"
  shows "dispatch_with_recovery operators ctx op inp out =
    (out\<lparr>item_writes := item_writes out @ concat (map (item_writes_of g inp) [0..<in_item_count inp])\<rparr>, None)"
  using assms by (simp add: dispatch_with_recovery_def dispatch_operator_def itemwise_def)

lemma templated_inputs [simp]:
  "in_common (set_templated_params r inp) = in_common inp" "in_item (set_templated_params r inp) i = in_item inp i"
  "in_item_count (set_templated_params r inp) = in_item_count inp"
  "in_templated_param (set_templated_params r inp) =
     (\<lambda>name. case r of None \<Rightarrow> VNull | Some m \<Rightarrow> value_or_null (map_of m name))"
  by (auto simp: set_templated_params_def in_common_def in_item_def in_templated_param_def fun_eq_iff Let_def)

lemma itemwise_on_shard:
  fixes resolved :: "variant unordered_map option"
  assumes op: "itemwise g execute" "fm_find operators (oc_name op) = Some execute"
    and f: "frame_inv f" "frame_owned f" "off + w \<le> frame_item_count f" "0 < w" and v: "frame_view f off w = Inr v"
    and build: "build_operator_input f (oc_name op) spec = Inr inp"
  defines "all \<equiv> item_writes_of g (set_templated_params resolved inp)"
  shows "\<exists>ws. (\<forall>c. execute_on operators op spec resolved c v empty_output = (empty_output\<lparr>item_writes := ws\<rparr>, None)) \<and>
    map (shift off) ws = concat (map all [off..<off + w])"
proof -
  let ?small = "set_templated_params resolved (operator_input_of v spec)"
  let ?big = "set_templated_params resolved inp"
  note in_v = input_on_view [OF f(1-3) v, where spec = spec]
  have big: "inp = operator_input_of f spec" by (rule build_input_on_view(2) [OF f v build])
  have same: "in_common ?small = in_common ?big" "in_templated_param ?small = in_templated_param ?big"
    "in_item_count ?small = w" "\<And>i. i < w \<Longrightarrow> in_item ?small i = in_item ?big (off + i)"
    using in_v by (simp_all add: big)
  have one: "map (shift off) (item_writes_of g ?small i) = all (off + i)" if "i < w" for i
    using in_v(3) [OF that] in_v(2) by (simp add: item_writes_of_def all_def big shift_def case_prod_beta comp_def add.commute)
  have "map (shift off) (concat (map (item_writes_of g ?small) [0..<w])) = concat (map (\<lambda>i. all (off + i)) [0..<w])"
    unfolding map_concat map_map by (rule arg_cong [of _ _ concat]) (use one in \<open>auto simp: comp_def\<close>)
  also have "\<dots> = concat (map all [off..<off + w])"
    by (simp add: map_add_upt [symmetric] comp_def add.commute [of off])
  finally show ?thesis
    using build_input_on_view(1) [OF f v build] by (auto simp: execute_on_def itemwise_dispatch [OF op] in_v(1) empty_output_def)
qed

lemma parallel_single:
  assumes "resolve_plan rj (oc_name op) plan f = Inr resolved" "itemwise g execute"
    "fm_find operators (oc_name op) = Some execute" "build_operator_input f (oc_name op) spec = Inr inp"
  defines "all \<equiv> item_writes_of g (set_templated_params resolved inp)"
  shows "parallel_execute rj operators (op\<lparr>oc_data_parallel := 1\<rparr>) spec plan f out
    (out\<lparr>item_writes := item_writes out @ concat (map all [0..<frame_item_count f])\<rparr>, None)"
proof -
  let ?op = "op\<lparr>oc_data_parallel := 1\<rparr>"
  have "inp = operator_input_of f spec" using assms(4) by (simp add: build_operator_input_Inr)
  then have "execute_on operators ?op spec resolved undefined f out =
      (out\<lparr>item_writes := item_writes out @ concat (map all [0..<frame_item_count f])\<rparr>, None)"
    using assms(4) itemwise_dispatch [OF assms(2), of operators ?op] assms(3)
    by (simp add: execute_on_def all_def operator_input_of_def set_templated_params_def)
  then show ?thesis
    using pe_single [of rj ?op plan f resolved operators spec out undefined] assms(1) by (simp add: sharded_def)
qed

lemma itemwise_shards:
  fixes resolved :: "variant unordered_map option"
  assumes op: "itemwise g execute" "fm_find operators (oc_name op) = Some execute"
    and f: "frame_inv f" "frame_owned f" "sharded op f" and build: "build_operator_input f (oc_name op) spec = Inr inp"
    and shards: "make_shards f (shard_windows (frame_item_count f) (shard_count op f)) = Inr shards" and i: "i < length shards"
  defines "all \<equiv> item_writes_of g (set_templated_params resolved inp)"
    and "ws \<equiv> shard_windows (frame_item_count f) (shard_count op f)"
  shows "\<exists>wr. (\<forall>c. execute_on operators op spec resolved c (shards ! i) empty_output = (empty_output\<lparr>item_writes := wr\<rparr>, None)) \<and>
    map (shift (fst (ws ! i))) wr = concat (map all [fst (ws ! i)..<fst (ws ! i) + snd (ws ! i)])"
proof -
  note n = shard_count_bounds [OF f(3)]
  note part = shard_windows_facts [OF n [THEN conjunct1] n [THEN conjunct2], folded ws_def]
  have v: "frame_view f (fst (ws ! i)) (snd (ws ! i)) = Inr (shards ! i)" "i < length ws"
    using shards_made [OF f] shards i part by (auto simp: ws_def)
  then have "ws ! i \<in> set ws" by simp
  then have "fst (ws ! i) + snd (ws ! i) \<le> frame_item_count f" "0 < snd (ws ! i)"
    using window_bounds [of "fst (ws ! i)" "snd (ws ! i)"] n part by (auto simp: ws_def image_iff)
  then show ?thesis
    using itemwise_on_shard [OF op f(1,2) _ _ v(1) build, where resolved = resolved] unfolding all_def by blast
qed

lemma shards_write_the_same:
  assumes op: "itemwise g execute" "fm_find operators (oc_name op) = Some execute"
    and f: "frame_inv f" "frame_owned f" "sharded op f" and build: "build_operator_input f (oc_name op) spec = Inr inp"
    and shards: "make_shards f (shard_windows (frame_item_count f) (shard_count op f)) = Inr shards"
    and outs: "length outs = length shards"
      "\<forall>i < length shards. \<exists>c. execute_on operators op spec resolved c (shards ! i) empty_output = (outs ! i, None)"
  defines "all \<equiv> item_writes_of g (set_templated_params resolved inp)"
    and "offs \<equiv> map fst (shard_windows (frame_item_count f) (shard_count op f))"
  shows "for_each (merge_shard_output (oc_name op)) (zip outs offs) out =
    (out\<lparr>item_writes := item_writes out @ concat (map all [0..<frame_item_count f])\<rparr>, None)"
proof -
  let ?ws = "shard_windows (frame_item_count f) (shard_count op f)"
  note n = shard_count_bounds [OF f(3)]
  note part = shard_windows_facts [OF n [THEN conjunct1] n [THEN conjunct2]]
  have len: "length shards = length ?ws" using shards_made [OF f] shards part by auto
  have "\<exists>wr. outs ! i = empty_output\<lparr>item_writes := wr\<rparr> \<and>
      map (shift (fst (?ws ! i))) wr = concat (map all [fst (?ws ! i)..<fst (?ws ! i) + snd (?ws ! i)])"
    if i: "i < length ?ws" for i
  proof -
    obtain c where "execute_on operators op spec resolved c (shards ! i) empty_output = (outs ! i, None)"
      using outs(2) len i by auto
    moreover obtain wr where
      "\<forall>c. execute_on operators op spec resolved c (shards ! i) empty_output = (empty_output\<lparr>item_writes := wr\<rparr>, None)"
      "map (shift (fst (?ws ! i))) wr = concat (map all [fst (?ws ! i)..<fst (?ws ! i) + snd (?ws ! i)])"
      using itemwise_shards [OF op f build shards, of i resolved] len i unfolding all_def by auto
    ultimately show ?thesis by (intro exI [of _ wr]) simp
  qed
  then have "\<forall>i. \<exists>wr. i < length ?ws \<longrightarrow> outs ! i = empty_output\<lparr>item_writes := wr\<rparr> \<and>
      map (shift (fst (?ws ! i))) wr = concat (map all [fst (?ws ! i)..<fst (?ws ! i) + snd (?ws ! i)])"
    by blast
  from choice [OF this] obtain W where W: "\<And>i. i < length ?ws \<Longrightarrow> outs ! i = empty_output\<lparr>item_writes := W i\<rparr> \<and>
      map (shift (fst (?ws ! i))) (W i) = concat (map all [fst (?ws ! i)..<fst (?ws ! i) + snd (?ws ! i)])"
    by blast
  let ?xs = "map (\<lambda>i. (W i, fst (?ws ! i))) [0..<length ?ws]"
  have zips: "zip outs offs = map (\<lambda>(ws, off). (empty_output\<lparr>item_writes := ws\<rparr>, off)) ?xs"
    using outs(1) len W by (intro nth_equalityI) (auto simp: offs_def)
  have maps: "map (\<lambda>(ws, off). map (shift off) ws) ?xs = map (\<lambda>(off, w). concat (map all [off..<off + w])) ?ws"
    using W by (intro nth_equalityI) (auto simp: case_prod_beta)
  have "concat (map (\<lambda>(off, w). concat (map all [off..<off + w])) ws) = concat (map all (covered ws))" for ws
    by (induction ws) auto
  then show ?thesis unfolding zips merge_all_item_writes maps using part by simp
qed

section \<open>A run of two shards\<close>

lemma parallel_execute_returns:
  assumes "frame_inv f" "frame_owned f"
  shows "\<exists>r. parallel_execute rj operators op spec plan f out r"
proof (cases "resolve_plan rj (oc_name op) plan f")
  case (Inl e)
  then show ?thesis by (blast intro: pe_unresolved)
next
  case (Inr resolved)
  show ?thesis
  proof (cases "sharded op f")
    case True
    obtain shards where shards: "make_shards f (shard_windows (frame_item_count f) (shard_count op f)) = Inr shards"
      using shards_made [OF assms True] by blast
    obtain st where st: "(shard_step (\<lambda>c i. execute_on operators op spec resolved c (shards ! i)))\<^sup>*\<^sup>*
        (shards_start k_not_done (length shards)) st" "shards_joined st"
      using shards_join by blast
    show ?thesis by (rule exI, rule pe_sharded [OF Inr True refl shards _ st]) simp
  qed (use Inr in \<open>blast intro: pe_single\<close>)
qed

definition demo_copy :: "unit op_fun" where
  "demo_copy c inp out =
     (out\<lparr>item_writes := item_writes out @
        concat (map (item_writes_of (\<lambda>common params item. [(''copy'', item ''id'')]) inp) [0..<in_item_count inp])\<rparr>, None)"

definition demo_parallel_op :: operator_config where
  "demo_parallel_op = demo_input_config\<lparr>oc_data_parallel := 2\<rparr>"

abbreviation demo_parallel_run :: "(operator_output, error) outcome \<Rightarrow> bool" where
  "demo_parallel_run \<equiv> parallel_execute (\<lambda>_. []) [(''score'', demo_copy)] demo_parallel_op
     (compute_input_field_spec demo_input_config) [] demo_input_frame empty_output"

lemma demo_parallel_ok: "frame_owned demo_input_frame" "sharded demo_parallel_op demo_input_frame"
    "oc_name demo_parallel_op = ''score''" "\<exists>r. demo_parallel_run r"
proof -
  show owned: "frame_owned demo_input_frame" by code_simp
  show "sharded demo_parallel_op demo_input_frame"
    by (simp add: sharded_def demo_input_ok(2)) (simp add: demo_parallel_op_def)
  show "oc_name demo_parallel_op = ''score''" by (simp add: demo_parallel_op_def demo_input_config_def)
  show "\<exists>r. demo_parallel_run r" by (rule parallel_execute_returns [OF demo_input_ok(1) owned])
qed

section \<open>The properties\<close>

text \<open>
  C11: sharding loses nothing.  Whatever the interleaving of the shards, of their failures and of a
  cancellation: either every shard ran and returned, and the result is the merge of all their outputs
  in shard order; or the result is an error some shard raised, or the error for a run cut short by its
  caller, and the output buffer is as it was.
\<close>

theorem parallel_execute_loses_nothing:
  assumes "parallel_execute rj operators op spec plan f out r" and "frame_inv f" "frame_owned f" and "sharded op f"
    and "resolve_plan rj (oc_name op) plan f = Inr resolved"
  defines "ws \<equiv> shard_windows (frame_item_count f) (shard_count op f)"
  shows "\<exists>shards. make_shards f ws = Inr shards \<and> length shards = shard_count op f \<and>
    ((\<exists>outs. length outs = length shards \<and>
        (\<forall>i < length shards. \<exists>c. execute_on operators op spec resolved c (shards ! i) empty_output = (outs ! i, None)) \<and>
        r = for_each (merge_shard_output (oc_name op)) (zip outs (map fst ws)) out) \<or>
     (\<exists>i < length shards. \<exists>c o' e. execute_on operators op spec resolved c (shards ! i) empty_output = (o', Some e) \<and>
        r = (out, Some e)) \<or>
     (\<exists>dl. r = (out, Some (exec_error (oc_name op) (context_msg dl)))))"
  unfolding ws_def by (rule parallel_execute_outcome [OF assms(1-5)])

theorem parallel_execute_loses_nothing_witness:
  "\<exists>r shards. demo_parallel_run r \<and>
     make_shards demo_input_frame (shard_windows 2 (shard_count demo_parallel_op demo_input_frame)) = Inr shards"
proof -
  obtain r where r: "demo_parallel_run r" using demo_parallel_ok(4) by blast
  have "resolve_plan (\<lambda>_. []) (oc_name demo_parallel_op) [] demo_input_frame = Inr None" by (simp add: resolve_plan_def)
  from parallel_execute_loses_nothing [OF r demo_input_ok(1) demo_parallel_ok(1,2) this, unfolded demo_input_ok(2)]
  obtain shards where "make_shards demo_input_frame (shard_windows 2 (shard_count demo_parallel_op demo_input_frame)) = Inr shards"
    by blast
  with r show ?thesis by blast
qed

text \<open>
  the threads always reach the join: no run of the shards is infinite, and as long as they are not
  joined some step is possible.
\<close>

theorem shards_always_join:
  "wfp (\<lambda>st' st. shard_step call st st') \<and> (shards_joined st \<or> (\<exists>st'. shard_step call st st'))"
proof -
  have "wfp (\<lambda>st' st. shards_left st' < shards_left st)" by (rule wfp_if_convertible_to_nat)
  then have "wfp (\<lambda>st' st. shard_step call st st')"
    by (rule wfp_subset) (auto dest: shard_step_decreases)
  then show ?thesis using shard_progress by blast
qed

text \<open>
  C9: sharding is transparent.  An operator that treats every item by itself gives on shards what it
  gives on the whole frame, the same writes in the same order and to the same items, or its caller
  ended the run.
\<close>

theorem sharding_is_transparent:
  assumes "parallel_execute rj operators op spec plan f out r" and "frame_inv f" "frame_owned f"
    and "itemwise g execute" "fm_find operators (oc_name op) = Some execute"
    and "build_operator_input f (oc_name op) spec = Inr inp"
  shows "parallel_execute rj operators (op\<lparr>oc_data_parallel := 1\<rparr>) spec plan f out r \<or>
    (\<exists>dl. r = (out, Some (exec_error (oc_name op) (context_msg dl))))"
proof (cases "resolve_plan rj (oc_name op) plan f")
  case (Inl e)
  then have "r = (out, Some e)" using assms(1) by (auto elim: parallel_executeE)
  then show ?thesis using Inl by (auto intro: pe_unresolved)
next
  case (Inr resolved)
  note single = parallel_single [OF Inr assms(4-6)]
  show ?thesis
  proof (cases "sharded op f")
    case False
    then obtain c where "r = execute_on operators op spec resolved c f out" using assms(1) Inr by (auto elim: parallel_executeE)
    moreover have "inp = operator_input_of f spec" using assms(6) by (simp add: build_operator_input_Inr)
    ultimately have "r = (out\<lparr>item_writes := item_writes out @
        concat (map (item_writes_of g (set_templated_params resolved inp)) [0..<frame_item_count f])\<rparr>, None)"
      using assms(6) itemwise_dispatch [OF assms(4,5)]
      by (simp add: execute_on_def operator_input_of_def set_templated_params_def)
    then show ?thesis using single by blast
  next
    case True
    obtain shards where shards: "make_shards f (shard_windows (frame_item_count f) (shard_count op f)) = Inr shards"
      and cases: "(\<exists>outs. length outs = length shards \<and>
        (\<forall>i < length shards. \<exists>c. execute_on operators op spec resolved c (shards ! i) empty_output = (outs ! i, None)) \<and>
        r = for_each (merge_shard_output (oc_name op)) (zip outs (map fst (shard_windows (frame_item_count f) (shard_count op f)))) out) \<or>
       (\<exists>i < length shards. \<exists>c o' e. execute_on operators op spec resolved c (shards ! i) empty_output = (o', Some e) \<and>
        r = (out, Some e)) \<or>
       (\<exists>dl. r = (out, Some (exec_error (oc_name op) (context_msg dl))))"
      using parallel_execute_outcome [OF assms(1-3) True Inr] by blast
    from cases show ?thesis
    proof (elim disjE exE conjE)
      fix outs assume "length outs = length shards"
        "\<forall>i < length shards. \<exists>c. execute_on operators op spec resolved c (shards ! i) empty_output = (outs ! i, None)"
        "r = for_each (merge_shard_output (oc_name op)) (zip outs (map fst (shard_windows (frame_item_count f) (shard_count op f)))) out"
      then show ?thesis using shards_write_the_same [OF assms(4,5,2,3) True assms(6) shards] single by simp
    next
      fix i c o' e assume "i < length shards" "execute_on operators op spec resolved c (shards ! i) empty_output = (o', Some e)"
      then show ?thesis using itemwise_shards [OF assms(4,5,2,3) True assms(6) shards, where resolved = resolved] by fastforce
    qed blast
  qed
qed

theorem sharding_is_transparent_witness:
  "\<exists>r. demo_parallel_run r \<and>
     (parallel_execute (\<lambda>_. []) [(''score'', demo_copy)] (demo_parallel_op\<lparr>oc_data_parallel := 1\<rparr>)
        (compute_input_field_spec demo_input_config) [] demo_input_frame empty_output r \<or>
      (\<exists>dl. r = (empty_output, Some (exec_error ''score'' (context_msg dl)))))"
proof -
  obtain r where r: "demo_parallel_run r" using demo_parallel_ok(4) by blast
  have itemwise: "itemwise (\<lambda>common params item. [(''copy'', item ''id'')]) demo_copy"
    by (simp add: itemwise_def demo_copy_def)
  have found: "fm_find [(''score'', demo_copy)] (oc_name demo_parallel_op) = Some demo_copy"
    unfolding demo_parallel_ok(3) by (subst fm_find_map_of) (simp_all add: fm_ok_def)
  from sharding_is_transparent [OF r demo_input_ok(1) demo_parallel_ok(1) itemwise found
      demo_input_ok(3) [folded demo_parallel_ok(3)], unfolded demo_parallel_ok(3)] r
  show ?thesis by blast
qed

end
