(* ===== verification/Scheduler.thy ===== *)
theory Scheduler
  imports Shards Dag
begin

text \<open>
  The ready-queue scheduler \<open>run_dag\<close> (\<open>src/runtime/engine.cpp\<close>).  The nodes run on a pool of
  threads; the model is a step relation over what they share: the in-degrees, the latch, the frame,
  the run's context, the first error.  A step is one access to that state; the labels say what it
  does.  A node whose \<open>submit\<close> fails runs on the submitting thread, an interleaving among the
  others.  Metrics, traces, the debug log and the arena are not part of the state.
\<close>

section \<open>The engine a run reads\<close>

record 'c engine =
  eg_config :: config
  eg_expanded :: expanded_sequence
  eg_graph :: graph
  eg_operators :: "'c op_fun flat_map"
  eg_input_specs :: "input_field_spec flat_map"
  eg_templated_plans :: "templated_param list flat_map"

definition node_op :: "'c engine \<Rightarrow> nat \<Rightarrow> operator_config" where
  "node_op eg i =
     (let node = g_nodes (eg_graph eg) ! i
      in case fm_find (cg_operators (eg_config eg)) (nd_name node) of Some op \<Rightarrow> op | None \<Rightarrow> nd_config node)"

definition node_plan :: "'c engine \<Rightarrow> operator_config \<Rightarrow> templated_param list" where
  "node_plan eg op = (case fm_find (eg_templated_plans eg) (oc_name op) of Some plan \<Rightarrow> plan | None \<Rightarrow> [])"

definition node_spec :: "'c engine \<Rightarrow> operator_config \<Rightarrow> input_field_spec" where
  "node_spec eg op =
     (case fm_find (eg_input_specs eg) (oc_name op) of Some spec \<Rightarrow> spec | None \<Rightarrow> compute_input_field_spec op)"

section \<open>The state of a run\<close>

text \<open>
  Where a node is: not ready; submitted; past the check of the context; past the check of the skip
  fields; with a checked output to apply; walking its successors; counted off the latch.
\<close>

datatype node_phase = Waiting | Ready | Started | Admitted | Produced operator_output | Leaving "nat list" | Left

record run_state =
  rs_phase :: "node_phase list"
  rs_in_degree :: "int list"
  rs_remaining :: nat
  rs_done :: bool
  rs_seed :: nat
  rs_fatal :: "error option"
  rs_not_run :: bool
  rs_cause :: nat
  rs_caller :: nat
  rs_frame :: frame

definition run_start :: "'c engine \<Rightarrow> nat \<Rightarrow> frame \<Rightarrow> run_state" where
  "run_start eg caller f =
     (let n = length (g_nodes (eg_graph eg))
      in \<lparr>rs_phase = replicate n Waiting,
          rs_in_degree = map (\<lambda>node. int (length (nd_preds node))) (g_nodes (eg_graph eg)),
          rs_remaining = n, rs_done = False, rs_seed = 0, rs_fatal = None, rs_not_run = False,
          rs_cause = caller, rs_caller = caller, rs_frame = f\<rparr>)"

definition set_node :: "nat \<Rightarrow> node_phase \<Rightarrow> run_state \<Rightarrow> run_state" where
  "set_node i p st = st\<lparr>rs_phase := (rs_phase st)[i := p]\<rparr>"

definition leave :: "'c engine \<Rightarrow> nat \<Rightarrow> run_state \<Rightarrow> run_state" where
  "leave eg i = set_node i (Leaving (succs_of (eg_graph eg) i))"

text \<open>\<open>fail\<close>: the first error is kept and cancels the run's context.\<close>

definition fail_run :: "error \<Rightarrow> run_state \<Rightarrow> run_state" where
  "fail_run e st =
     (if rs_fatal st = None
      then st\<lparr>rs_fatal := Some e, rs_cause := (if rs_cause st = k_not_done then k_canceled else rs_cause st)\<rparr>
      else st)"

text \<open>The handler of a node body: a warning of the operator still reaches the frame.\<close>

definition node_failed :: "'c engine \<Rightarrow> nat \<Rightarrow> operator_output \<Rightarrow> error \<Rightarrow> run_state \<Rightarrow> run_state" where
  "node_failed eg i out e st =
     (let st = (if has_warning out
                then st\<lparr>rs_frame := fst (frame_push_warning
                        (''operator '' @ quoted (oc_name (node_op eg i)) @ '': '' @ warning out) (rs_frame st))\<rparr>
                else st)
      in leave eg i (fail_run e st))"

text \<open>The body between the skip check and \<open>apply_output\<close>: run the operator, check what it wrote.\<close>

definition checked_output :: "operator_config \<Rightarrow> (operator_output, error) outcome \<Rightarrow> (operator_output, error) outcome" where
  "checked_output op r =
     and_then r (\<lambda>out.
       case rbind (validate_output_against_type (oc_name op) (oc_operator_type op) out)
              (\<lambda>_. validate_declared_outputs (oc_name op) op out) of
         Inl e \<Rightarrow> (out, Some e)
       | Inr _ \<Rightarrow> (out, None))"

inductive node_output ::
  "(writer_call list \<Rightarrow> string) \<Rightarrow> 'c engine \<Rightarrow> nat \<Rightarrow> frame \<Rightarrow> (operator_output, error) outcome \<Rightarrow> bool"
  for rj eg i f where
  node_outputI: "op = node_op eg i \<Longrightarrow>
     parallel_execute rj (eg_operators eg) op (node_spec eg op) (node_plan eg op) f empty_output r \<Longrightarrow>
     node_output rj eg i f (checked_output op r)"

section \<open>The steps\<close>

datatype run_event =
    Seeded nat
  | CallerDone nat
  | NotRun nat
  | Began nat
  | Skipped nat
  | Checked nat
  | Executed nat
  | Applied nat
  | Failed nat error
  | Signalled nat nat
  | Finished nat

definition succ_ready :: "nat \<Rightarrow> run_state \<Rightarrow> run_state" where
  "succ_ready s st =
     (let prev = rs_in_degree st ! s; st = st\<lparr>rs_in_degree := (rs_in_degree st)[s := prev - 1]\<rparr>
      in if prev = 1 then set_node s Ready st else st)"

definition count_off :: "nat \<Rightarrow> run_state \<Rightarrow> run_state" where
  "count_off i st =
     (let prev = rs_remaining st; st = set_node i Left (st\<lparr>rs_remaining := prev - 1\<rparr>)
      in if prev = 1 then st\<lparr>rs_done := True\<rparr> else st)"

definition in_phase :: "run_state \<Rightarrow> nat \<Rightarrow> node_phase \<Rightarrow> bool" where
  "in_phase st i p \<longleftrightarrow> i < length (rs_phase st) \<and> rs_phase st ! i = p"

text \<open>
  A produced output is applied to the frame of that moment; \<open>frame_apply\<close> is undefined when its
  reordering does not return.
\<close>

inductive run_step ::
  "(writer_call list \<Rightarrow> string) \<Rightarrow> 'c engine \<Rightarrow> run_event \<Rightarrow> run_state \<Rightarrow> run_state \<Rightarrow> bool" for rj eg where
  seed_root: "rs_seed st = i \<Longrightarrow> i < length (rs_phase st) \<Longrightarrow> preds_of (eg_graph eg) i = [] \<Longrightarrow>
     run_step rj eg (Seeded i) st (set_node i Ready (st\<lparr>rs_seed := Suc i\<rparr>))"
| seed_other: "rs_seed st = i \<Longrightarrow> i < length (rs_phase st) \<Longrightarrow> preds_of (eg_graph eg) i \<noteq> [] \<Longrightarrow>
     run_step rj eg (Seeded i) st (st\<lparr>rs_seed := Suc i\<rparr>)"
| caller_done: "rs_caller st = k_not_done \<Longrightarrow> c \<in> {k_canceled, k_deadline_exceeded} \<Longrightarrow>
     run_step rj eg (CallerDone c) st
       (st\<lparr>rs_caller := c, rs_cause := (if rs_cause st = k_not_done then c else rs_cause st)\<rparr>)"
| node_not_run: "in_phase st i Ready \<Longrightarrow> rs_cause st \<noteq> k_not_done \<Longrightarrow>
     run_step rj eg (NotRun i) st (leave eg i (st\<lparr>rs_not_run := True\<rparr>))"
| node_begin: "in_phase st i Ready \<Longrightarrow> rs_cause st = k_not_done \<Longrightarrow>
     run_step rj eg (Began i) st (set_node i Started st)"
| node_skip: "in_phase st i Started \<Longrightarrow> should_skip (rs_frame st) (node_op eg i) \<Longrightarrow>
     run_step rj eg (Skipped i) st (leave eg i st)"
| node_admit: "in_phase st i Started \<Longrightarrow> \<not> should_skip (rs_frame st) (node_op eg i) \<Longrightarrow>
     run_step rj eg (Checked i) st (set_node i Admitted st)"
| node_execute: "in_phase st i Admitted \<Longrightarrow> node_output rj eg i (rs_frame st) (out, None) \<Longrightarrow>
     run_step rj eg (Executed i) st (set_node i (Produced out) st)"
| node_throw: "in_phase st i Admitted \<Longrightarrow> node_output rj eg i (rs_frame st) (out, Some e) \<Longrightarrow>
     run_step rj eg (Failed i e) st (node_failed eg i out e st)"
| node_apply: "in_phase st i (Produced out) \<Longrightarrow> op = node_op eg i \<Longrightarrow>
     frame_apply out (oc_name op) (oc_operator_type op = ''recall'') (rs_frame st) = Some (f, None) \<Longrightarrow>
     run_step rj eg (Applied i) st (leave eg i (st\<lparr>rs_frame := f\<rparr>))"
| node_apply_throw: "in_phase st i (Produced out) \<Longrightarrow> op = node_op eg i \<Longrightarrow>
     frame_apply out (oc_name op) (oc_operator_type op = ''recall'') (rs_frame st) = Some (f, Some e) \<Longrightarrow>
     run_step rj eg (Failed i e) st (node_failed eg i out e (st\<lparr>rs_frame := f\<rparr>))"
| node_propagate: "in_phase st i (Leaving (s # ss)) \<Longrightarrow>
     run_step rj eg (Signalled i s) st (succ_ready s (set_node i (Leaving ss) st))"
| node_finish: "in_phase st i (Leaving []) \<Longrightarrow>
     run_step rj eg (Finished i) st (count_off i st)"

inductive run_trace ::
  "(writer_call list \<Rightarrow> string) \<Rightarrow> 'c engine \<Rightarrow> run_state \<Rightarrow> run_event list \<Rightarrow> run_state \<Rightarrow> bool" for rj eg st0 where
  trace_start: "run_trace rj eg st0 [] st0"
| trace_step: "run_trace rj eg st0 tr st \<Longrightarrow> run_step rj eg ev st st' \<Longrightarrow> run_trace rj eg st0 (tr @ [ev]) st'"

text \<open>After the wait: a fatal error wins; an operator left unrun means the caller ended the run.\<close>

definition run_error :: "run_state \<Rightarrow> error option" where
  "run_error st =
     (case rs_fatal st of
        Some e \<Rightarrow> Some e
      | None \<Rightarrow> if rs_not_run st then Some (CancelledError (rs_caller st = k_deadline_exceeded)) else None)"

inductive_cases run_traceE: "run_trace rj eg st0 tr st"

end
