(* ===== verification/Scheduler_Laws.thy ===== *)
theory Scheduler_Laws
  imports Scheduler Shard_Theorems Dag_Theorems
begin

text \<open>
  Invariants of the scheduler: the in-degrees count the predecessors that still owe a signal, the
  latch counts the nodes that have not finished; what the first error and the flags say of the trace.
\<close>

section \<open>The structure of a run\<close>

text \<open>Whether a node in the given phase still owes its successor \<open>j\<close> the signal.\<close>

fun owing :: "node_phase \<Rightarrow> nat \<Rightarrow> bool" where
  "owing (Leaving ss) j = (j \<in> set ss)"
| "owing Left j = False"
| "owing p j = True"

fun active :: "node_phase \<Rightarrow> bool" where
  "active Waiting = False"
| "active Left = False"
| "active p = True"

definition owed :: "'c engine \<Rightarrow> node_phase list \<Rightarrow> nat \<Rightarrow> nat" where
  "owed eg ph j = length (filter (\<lambda>p. owing (ph ! p) j) (preds_of (eg_graph eg) j))"

definition struct_inv :: "'c engine \<Rightarrow> run_state \<Rightarrow> bool" where
  "struct_inv eg st \<longleftrightarrow>
     (let n = node_count (eg_graph eg); ph = rs_phase st
      in length ph = n \<and> length (rs_in_degree st) = n \<and> rs_seed st \<le> n \<and>
         (\<forall>j < n. rs_in_degree st ! j = int (owed eg ph j)) \<and>
         (\<forall>j < n. ph ! j = Waiting \<longleftrightarrow> (if preds_of (eg_graph eg) j = [] then rs_seed st \<le> j else 0 < owed eg ph j)) \<and>
         (\<forall>j < n. \<forall>ss. ph ! j = Leaving ss \<longrightarrow> (\<exists>ds. succs_of (eg_graph eg) j = ds @ ss)) \<and>
         rs_remaining st = length (filter (\<lambda>j. ph ! j \<noteq> Left) [0..<n]) \<and>
         (rs_done st \<longleftrightarrow> 0 < n \<and> rs_remaining st = 0))"

lemma struct_invD:
  assumes "struct_inv eg st"
  shows "length (rs_phase st) = node_count (eg_graph eg)" "length (rs_in_degree st) = node_count (eg_graph eg)"
    "rs_seed st \<le> node_count (eg_graph eg)"
    "j < node_count (eg_graph eg) \<Longrightarrow> rs_in_degree st ! j = int (owed eg (rs_phase st) j)"
    "j < node_count (eg_graph eg) \<Longrightarrow> rs_phase st ! j = Waiting \<longleftrightarrow>
       (if preds_of (eg_graph eg) j = [] then rs_seed st \<le> j else 0 < owed eg (rs_phase st) j)"
    "j < node_count (eg_graph eg) \<Longrightarrow> rs_phase st ! j = Leaving ss \<Longrightarrow> \<exists>ds. succs_of (eg_graph eg) j = ds @ ss"
    "rs_remaining st = length (filter (\<lambda>j. rs_phase st ! j \<noteq> Left) [0..<node_count (eg_graph eg)])"
    "rs_done st \<longleftrightarrow> 0 < node_count (eg_graph eg) \<and> rs_remaining st = 0"
  using assms unfolding struct_inv_def Let_def by blast+

lemma struct_invI:
  assumes "length (rs_phase st) = node_count (eg_graph eg)" "length (rs_in_degree st) = node_count (eg_graph eg)"
    "rs_seed st \<le> node_count (eg_graph eg)"
    "\<And>j. j < node_count (eg_graph eg) \<Longrightarrow> rs_in_degree st ! j = int (owed eg (rs_phase st) j)"
    "\<And>j. j < node_count (eg_graph eg) \<Longrightarrow> rs_phase st ! j = Waiting \<longleftrightarrow>
       (if preds_of (eg_graph eg) j = [] then rs_seed st \<le> j else 0 < owed eg (rs_phase st) j)"
    "\<And>j ss. j < node_count (eg_graph eg) \<Longrightarrow> rs_phase st ! j = Leaving ss \<Longrightarrow> \<exists>ds. succs_of (eg_graph eg) j = ds @ ss"
    "rs_remaining st = length (filter (\<lambda>j. rs_phase st ! j \<noteq> Left) [0..<node_count (eg_graph eg)])"
    "rs_done st \<longleftrightarrow> 0 < node_count (eg_graph eg) \<and> rs_remaining st = 0"
  shows "struct_inv eg st"
  using assms unfolding struct_inv_def Let_def by blast

lemma struct_inv_other [simp]:
  "struct_inv eg (st\<lparr>rs_frame := f\<rparr>) = struct_inv eg st" "struct_inv eg (st\<lparr>rs_not_run := b\<rparr>) = struct_inv eg st"
  "struct_inv eg (st\<lparr>rs_caller := c, rs_cause := d\<rparr>) = struct_inv eg st"
  "struct_inv eg (fail_run e st) = struct_inv eg st"
  by (simp_all add: struct_inv_def fail_run_def)

lemma fail_run_phase [simp]: "rs_phase (fail_run e st) = rs_phase st" "rs_frame (fail_run e st) = rs_frame st"
  by (simp_all add: fail_run_def)

lemma struct_inv_set_node:
  assumes inv: "struct_inv eg st" and i: "in_phase st i p" and act: "active p" "active q"
    and owe: "\<And>j. i \<in> set (preds_of (eg_graph eg) j) \<Longrightarrow> owing q j = owing p j"
    and suf: "\<And>ss. q = Leaving ss \<Longrightarrow> \<exists>ds. succs_of (eg_graph eg) i = ds @ ss"
  shows "struct_inv eg (set_node i q st)"
proof -
  let ?ph = "(rs_phase st)[i := q]"
  have i': "i < node_count (eg_graph eg)" "rs_phase st ! i = p"
    using inv i by (auto simp: struct_inv_def in_phase_def Let_def)
  have len: "length (rs_phase st) = node_count (eg_graph eg)" using inv by (simp add: struct_inv_def Let_def)
  have same: "owed eg ?ph j = owed eg (rs_phase st) j" for j
    unfolding owed_def using owe i' len by (intro arg_cong [of _ _ length] filter_cong) (auto simp: nth_list_update)
  have left: "filter (\<lambda>j. ?ph ! j \<noteq> Left) [0..<node_count (eg_graph eg)] =
      filter (\<lambda>j. rs_phase st ! j \<noteq> Left) [0..<node_count (eg_graph eg)]"
    using act i' len by (intro filter_cong) (auto simp: nth_list_update)
  have wait: "?ph ! j = Waiting \<longleftrightarrow> rs_phase st ! j = Waiting" if "j < node_count (eg_graph eg)" for j
    using act i' len that by (auto simp: nth_list_update)
  have suffix: "\<exists>ds. succs_of (eg_graph eg) j = ds @ ss"
    if "j < node_count (eg_graph eg)" "?ph ! j = Leaving ss" for j ss
    using that suf len struct_invD(6) [OF inv] by (cases "j = i") auto
  show ?thesis
    by (rule struct_invI) (use suffix struct_invD [OF inv] in \<open>simp_all add: set_node_def same left wait\<close>)
qed

lemma node_degree: "i < node_count g \<Longrightarrow> nd_preds (g_nodes g ! i) = preds_of g i"
  by (simp add: preds_of_def node_count_def)

lemma struct_inv_start:
  assumes "graph_ok (eg_graph eg)"
  shows "struct_inv eg (run_start eg c f)"
proof -
  let ?n = "node_count (eg_graph eg)"
  have "owed eg (replicate ?n Waiting) j = length (preds_of (eg_graph eg) j)" if "j < ?n" for j
  proof -
    have "\<forall>p \<in> set (preds_of (eg_graph eg) j). p < ?n" using assms that unfolding graph_ok_def by fastforce
    then show ?thesis unfolding owed_def by (subst filter_True) auto
  qed
  moreover have "filter (\<lambda>j. replicate ?n Waiting ! j \<noteq> Left) [0..<?n] = [0..<?n]" by (rule filter_True) simp
  ultimately show ?thesis
    by (intro struct_invI) (auto simp: run_start_def Let_def node_count_def [symmetric] node_degree)
qed

text \<open>The two steps that settle a debt.\<close>

lemma struct_inv_signal:
  assumes g: "graph_ok (eg_graph eg)" and inv: "struct_inv eg st" and i: "in_phase st i (Leaving (s # ss))"
  shows "struct_inv eg (succ_ready s (set_node i (Leaving ss) st)) \<and> (rs_in_degree st ! s = 1 \<longrightarrow> rs_phase st ! s = Waiting) \<and>
    s < node_count (eg_graph eg) \<and> s \<noteq> i"
proof -
  let ?g = "eg_graph eg" and ?ph = "rs_phase st" and ?ph1 = "(rs_phase st)[i := Leaving ss]"
  let ?n = "node_count ?g"
  have I: "length ?ph = ?n" "length (rs_in_degree st) = ?n" "\<And>j. j < ?n \<Longrightarrow> rs_in_degree st ! j = int (owed eg ?ph j)"
      "\<And>j. j < ?n \<Longrightarrow> ?ph ! j = Waiting \<longleftrightarrow> (if preds_of ?g j = [] then rs_seed st \<le> j else 0 < owed eg ?ph j)"
    using struct_invD [OF inv] by blast+
  have i': "i < ?n" "?ph ! i = Leaving (s # ss)" using i I(1) by (auto simp: in_phase_def)
  obtain ds where ds: "succs_of ?g i = ds @ s # ss" using struct_invD(6) [OF inv i'] by blast
  then have s: "i < s" "s < ?n" "i \<in> set (preds_of ?g s)" "s \<notin> set ss"
    using g unfolding graph_ok_def by (metis in_set_conv_decomp distinct.simps(2) distinct_append)+
  have others: "owed eg ?ph1 j = owed eg ?ph j" if "j \<noteq> s" for j
    unfolding owed_def using i' I(1) that by (intro arg_cong [of _ _ length] filter_cong) (auto simp: nth_list_update)
  have dist: "distinct (preds_of ?g s)" using g by (simp add: graph_ok_def)
  have "filter (\<lambda>p. owing (?ph ! p) s) (preds_of ?g s) = filter (\<lambda>p. p = i \<or> owing (?ph1 ! p) s) (preds_of ?g s)"
    using i' I(1) s(4) by (intro filter_cong) (auto simp: nth_list_update)
  moreover have "length (filter (\<lambda>p. p = i \<or> Q p) xs) = Suc (length (filter Q xs))"
    if "distinct xs" "i \<in> set xs" "\<not> Q i" for xs :: "nat list" and Q
    using that
  proof (induction xs)
    case (Cons x xs)
    have "filter (\<lambda>p. p = i \<or> Q p) xs = filter Q xs" if "i \<notin> set xs"
      using that by (intro filter_cong) auto
    then show ?case using Cons by auto
  qed simp
  ultimately have one: "owed eg ?ph s = Suc (owed eg ?ph1 s)"
    using dist s(3,4) i' I(1) unfolding owed_def by simp
  have wait: "?ph ! s = Waiting" using I(4) [OF s(2)] s(3) one by auto
  let ?st = "succ_ready s (set_node i (Leaving ss) st)"
  define ph2 where "ph2 = (if rs_in_degree st ! s = 1 then ?ph1[s := Ready] else ?ph1)"
  have parts: "rs_phase ?st = ph2" "rs_in_degree ?st = (rs_in_degree st)[s := rs_in_degree st ! s - 1]"
    "rs_seed ?st = rs_seed st" "rs_remaining ?st = rs_remaining st" "rs_done ?st = rs_done st"
    by (simp_all add: succ_ready_def set_node_def Let_def ph2_def)
  have at: "ph2 ! j = (if j = i then Leaving ss else if j = s \<and> rs_in_degree st ! s = 1 then Ready else ?ph ! j)"
    if "j < ?n" for j
    using that i' I(1) s(1,2) by (auto simp: ph2_def nth_list_update)
  have owed2: "owed eg ph2 j = owed eg ?ph1 j" if "j < ?n" for j
  proof -
    have "owing (ph2 ! p) j = owing (?ph1 ! p) j" if "p \<in> set (preds_of ?g j)" for p
      using wait s(1,2) I(1) by (cases "p = s") (auto simp: ph2_def nth_list_update)
    then show ?thesis unfolding owed_def by (intro arg_cong [of _ _ length] filter_cong) auto
  qed
  have deg: "rs_in_degree ?st ! j = int (owed eg ph2 j)" if "j < ?n" for j
    using that others [of j] one I(2,3) s(2) by (simp add: owed2 parts nth_list_update)
  have waiting: "ph2 ! j = Waiting \<longleftrightarrow> (if preds_of ?g j = [] then rs_seed st \<le> j else 0 < owed eg ph2 j)" if "j < ?n" for j
    using I(4) [OF that] I(4) [OF i'(1)] i'(2) others [of j] others [of i] one wait s I(3) [OF s(2)]
    by (cases "j = s") (auto simp: at [OF that] owed2 [OF that] at [OF s(2)] owed2 [OF s(2)])
  have leaving: "\<exists>ds. succs_of ?g j = ds @ xs" if "j < ?n" "ph2 ! j = Leaving xs" for j xs
    using that at [OF that(1)] ds struct_invD(6) [OF inv that(1)] by (auto split: if_splits)
  have left: "filter (\<lambda>j. ph2 ! j \<noteq> Left) [0..<?n] = filter (\<lambda>j. ?ph ! j \<noteq> Left) [0..<?n]"
    using i'(2) wait by (intro filter_cong) (auto simp: at)
  have "length ph2 = ?n" using I(1) by (simp add: ph2_def)
  then have "struct_inv eg ?st"
    by (intro struct_invI) (use deg waiting leaving struct_invD [OF inv] in \<open>simp_all add: parts left\<close>)
  then show ?thesis using wait s by simp
qed


lemma struct_inv_finish:
  assumes inv: "struct_inv eg st" and i: "in_phase st i (Leaving [])"
  shows "struct_inv eg (count_off i st)"
proof -
  let ?n = "node_count (eg_graph eg)"
  note I = struct_invD [OF inv]
  have i': "i < ?n" "rs_phase st ! i = Leaving []" using i I(1) by (auto simp: in_phase_def)
  let ?ph = "(rs_phase st)[i := Left]"
  have at: "?ph ! j = (if j = i then Left else rs_phase st ! j)" if "j < ?n" for j
    using that I(1) by (simp add: nth_list_update)
  have same: "owed eg ?ph j = owed eg (rs_phase st) j" for j
    unfolding owed_def using i' I(1) by (intro arg_cong [of _ _ length] filter_cong) (auto simp: nth_list_update)
  have "length (filter Q [0..<n]) = Suc (length (filter (\<lambda>j. j \<noteq> i \<and> Q j) [0..<n]))" if "i < n" "Q i" for n and Q
    using that
  proof (induction n)
    case (Suc n)
    have "filter (\<lambda>j. j \<noteq> i \<and> Q j) [0..<n] = filter Q [0..<n]" if "i = n" using that by (intro filter_cong) auto
    then show ?case using Suc by (cases "i = n") auto
  qed simp
  from this [of ?n "\<lambda>j. rs_phase st ! j \<noteq> Left"]
  have left: "rs_remaining st = Suc (length (filter (\<lambda>j. j \<noteq> i \<and> rs_phase st ! j \<noteq> Left) [0..<?n]))"
    using i' I(7) by simp
  have "filter (\<lambda>j. ?ph ! j \<noteq> Left) [0..<?n] = filter (\<lambda>j. j \<noteq> i \<and> rs_phase st ! j \<noteq> Left) [0..<?n]"
    by (intro filter_cong) (auto simp: at)
  then have left': "filter (\<lambda>j. ?ph ! j \<noteq> Left) [0..<?n] = filter (\<lambda>j. j \<noteq> i \<and> rs_phase st ! j \<noteq> Left) [0..<?n]" .
  have waiting: "?ph ! j = Waiting \<longleftrightarrow> (if preds_of (eg_graph eg) j = [] then rs_seed st \<le> j else 0 < owed eg (rs_phase st) j)"
    if "j < ?n" for j
    using I(5) [OF that] i'(2) by (auto simp: at [OF that])
  have leaving: "\<exists>ds. succs_of (eg_graph eg) j = ds @ ss" if "j < ?n" "?ph ! j = Leaving ss" for j ss
    using that I(6) [of j ss] at [OF that(1)] by (simp split: if_splits)
  have parts: "rs_phase (count_off i st) = ?ph" "rs_in_degree (count_off i st) = rs_in_degree st"
    "rs_seed (count_off i st) = rs_seed st" "rs_remaining (count_off i st) = rs_remaining st - 1"
    "rs_done (count_off i st) \<longleftrightarrow> rs_done st \<or> rs_remaining st = 1"
    by (auto simp: count_off_def set_node_def Let_def)
  show ?thesis
    by (rule struct_invI) (use I waiting leaving left left' i' in \<open>auto simp: parts same\<close>)
qed

lemma struct_inv_seed:
  assumes g: "graph_ok (eg_graph eg)" and inv: "struct_inv eg st" and i: "rs_seed st = i" "i < length (rs_phase st)"
  shows "preds_of (eg_graph eg) i \<noteq> [] \<Longrightarrow> struct_inv eg (st\<lparr>rs_seed := Suc i\<rparr>)"
    and "preds_of (eg_graph eg) i = [] \<Longrightarrow> struct_inv eg (set_node i Ready (st\<lparr>rs_seed := Suc i\<rparr>)) \<and> rs_phase st ! i = Waiting"
proof -
  let ?n = "node_count (eg_graph eg)"
  note I = struct_invD [OF inv]
  have i': "i < ?n" using i(2) I(1) by simp
  have step: "rs_seed st \<le> j \<longleftrightarrow> Suc i \<le> j \<or> j = i" for j using i(1) by auto
  show "preds_of (eg_graph eg) i \<noteq> [] \<Longrightarrow> struct_inv eg (st\<lparr>rs_seed := Suc i\<rparr>)"
    using I i' step by (intro struct_invI) auto
  assume none: "preds_of (eg_graph eg) i = []"
  have wait: "rs_phase st ! i = Waiting" using I(5) [OF i'] none i(1) by simp
  let ?ph = "(rs_phase st)[i := Ready]"
  have at: "?ph ! j = (if j = i then Ready else rs_phase st ! j)" if "j < ?n" for j
    using that I(1) by (simp add: nth_list_update)
  have same: "owed eg ?ph j = owed eg (rs_phase st) j" for j
    unfolding owed_def using i' I(1) wait by (intro arg_cong [of _ _ length] filter_cong) (auto simp: nth_list_update)
  have left: "filter (\<lambda>j. ?ph ! j \<noteq> Left) [0..<?n] = filter (\<lambda>j. rs_phase st ! j \<noteq> Left) [0..<?n]"
    using wait by (intro filter_cong) (auto simp: at)
  have "struct_inv eg (set_node i Ready (st\<lparr>rs_seed := Suc i\<rparr>))"
  proof (rule struct_invI)
    fix j assume "j < ?n"
    then show "rs_phase (set_node i Ready (st\<lparr>rs_seed := Suc i\<rparr>)) ! j = Waiting \<longleftrightarrow>
        (if preds_of (eg_graph eg) j = [] then rs_seed (set_node i Ready (st\<lparr>rs_seed := Suc i\<rparr>)) \<le> j
         else 0 < owed eg (rs_phase (set_node i Ready (st\<lparr>rs_seed := Suc i\<rparr>))) j)"
      using I(5) [of j] step [of j] none by (auto simp: set_node_def at same)
  qed (use I i' in \<open>auto simp: set_node_def at same left split: if_splits\<close>)
  then show "struct_inv eg (set_node i Ready (st\<lparr>rs_seed := Suc i\<rparr>)) \<and> rs_phase st ! i = Waiting" using wait by blast
qed

lemma pred_succ: "graph_ok g \<Longrightarrow> i \<in> set (preds_of g j) \<longleftrightarrow> j \<in> set (succs_of g i)"
  by (simp add: graph_ok_def)

lemma struct_inv_leave:
  assumes "graph_ok (eg_graph eg)" "struct_inv eg st" "in_phase st i p" "active p" "\<And>ss. p \<noteq> Leaving ss"
  shows "struct_inv eg (leave eg i st)"
  unfolding leave_def
  by (rule struct_inv_set_node [OF assms(2-4)]) (use assms in \<open>cases p; auto simp: pred_succ\<close>)+

lemma struct_inv_failed:
  assumes "graph_ok (eg_graph eg)" "struct_inv eg st" "in_phase st i p" "active p" "\<And>ss. p \<noteq> Leaving ss"
  shows "struct_inv eg (node_failed eg i out e st)"
  using assms by (auto simp: node_failed_def Let_def in_phase_def intro!: struct_inv_leave [where p = p])

lemma run_step_struct:
  assumes "run_step rj eg ev st st'" "graph_ok (eg_graph eg)" "struct_inv eg st"
  shows "struct_inv eg st'"
  using assms
proof (induction rule: run_step.induct)
  case (node_begin st i)
  show ?case by (rule struct_inv_set_node [OF node_begin(4,1)]) auto
next
  case (node_admit st i)
  show ?case by (rule struct_inv_set_node [OF node_admit(4,1)]) auto
next
  case (node_execute st i out)
  show ?case by (rule struct_inv_set_node [OF node_execute(4,1)]) auto
next
  case (node_not_run st i)
  show ?case by (rule struct_inv_leave [where p = Ready]) (use node_not_run in \<open>auto simp: in_phase_def\<close>)
next
  case (node_skip st i)
  show ?case by (rule struct_inv_leave [where p = Started]) (use node_skip in auto)
next
  case (node_apply st i out op f)
  show ?case by (rule struct_inv_leave [where p = "Produced out"]) (use node_apply in \<open>auto simp: in_phase_def\<close>)
next
  case (node_throw st i out e)
  show ?case by (rule struct_inv_failed [where p = Admitted]) (use node_throw in auto)
next
  case (node_apply_throw st i out op f e)
  show ?case by (rule struct_inv_failed [where p = "Produced out"]) (use node_apply_throw in \<open>auto simp: in_phase_def\<close>)
next
  case (seed_root st i)
  then show ?case using struct_inv_seed(2) by blast
next
  case (seed_other st i)
  then show ?case using struct_inv_seed(1) by blast
next
  case (node_propagate st i s ss)
  then show ?case using struct_inv_signal by blast
next
  case (node_finish st i)
  then show ?case using struct_inv_finish by blast
qed simp

end
