(* ===== verification/Scheduler_Progress.thy ===== *)
theory Scheduler_Progress
  imports Scheduler_Laws
begin

text \<open>
  The scheduler always finishes: the values that flow through a run stay well formed, some step of
  the pool is possible until the latch opens, and the number of steps is bounded.
\<close>

section \<open>Well-formed outputs\<close>

definition output_good :: "operator_output \<Rightarrow> bool" where
  "output_good out \<longleftrightarrow> output_ok out \<and> output_num_ok out \<and> list_all (\<lambda>cw. list_all prec53 (snd cw)) (column_writes out)"

text \<open>What the operators, code of their own, do with the buffer: a \<open>std::set\<close> stays sorted, a double is a double.\<close>

definition operators_ok :: "'c op_fun flat_map \<Rightarrow> bool" where
  "operators_ok operators \<longleftrightarrow> (\<forall>name execute c inp out. fm_find operators name = Some execute \<longrightarrow> output_good out \<longrightarrow>
     output_good (fst (execute c inp out)))"

lemma output_good_empty: "output_good empty_output"
  by (simp add: output_good_def output_ok_empty) (simp add: output_num_ok_def empty_output_def)

lemma output_good_writes:
  assumes "output_good out"
  shows "num_ok v \<Longrightarrow> output_good (set_item i field v out)" "output_good (remove_item i out)"
    "output_good (set_warning msg out)"
  using assms
  by (auto simp: output_good_def output_ok_set_item output_ok_remove_item output_ok_set_warning)
    (auto simp: output_num_ok_def set_item_def remove_item_def set_warning_def)

lemma fold_good: "(\<And>x out. x \<in> set xs \<Longrightarrow> output_good out \<Longrightarrow> output_good (h x out)) \<Longrightarrow> output_good out \<Longrightarrow> output_good (fold h xs out)"
  by (induction xs arbitrary: out) auto

lemma merge_good:
  assumes "output_good src" "output_good dst"
  shows "output_good (fst (merge_shard_output op (src, off) dst))"
proof -
  let ?d1 = "fold (\<lambda>(idx, field, v). set_item (idx + int off) field v) (item_writes src) dst"
  let ?d2 = "fold (\<lambda>(field, vals). fold (\<lambda>(i, d). set_item (int i + int off) field (VNum d)) (enumerate 0 vals)) (column_writes src) ?d1"
  let ?d3 = "fold (\<lambda>idx. remove_item (idx + int off)) (removed_items src) ?d2"
  have "output_good ?d1"
  proof (rule fold_good)
    fix w out assume "w \<in> set (item_writes src)" "output_good out"
    moreover obtain idx field v where "w = (idx, field, v)" by (cases w)
    ultimately show "output_good ((case w of (idx, field, v) \<Rightarrow> set_item (idx + int off) field v) out)"
      using assms(1) output_good_writes(1) by (fastforce simp: output_good_def [of src] output_num_ok_def list_all_iff)
  qed (rule assms(2))
  moreover have "output_good ((case cw of (field, vals) \<Rightarrow>
      fold (\<lambda>(i, d). set_item (int i + int off) field (VNum d)) (enumerate 0 vals)) out)"
    if "cw \<in> set (column_writes src)" "output_good out" for cw out
  proof -
    obtain field vals where cw: "cw = (field, vals)" by (cases cw)
    have "\<forall>d \<in> set vals. prec53 d" using assms(1) that(1) by (auto simp: cw output_good_def list_all_iff)
    then have "\<forall>w \<in> set (enumerate 0 vals). prec53 (snd w)" by (metis in_set_zip in_set_conv_nth nth_mem enumerate_eq_zip)
    then show ?thesis
      using that(2) by (auto simp: cw intro!: fold_good output_good_writes(1))
  qed
  ultimately have "output_good ?d2" by (intro fold_good [of "column_writes src"])
  then have "output_good ?d3" using output_good_writes(2) by (intro fold_good [of "removed_items src"])
  then show ?thesis using assms(2) by (simp add: merge_shard_output_def Let_def output_good_writes(3))
qed

lemma execute_on_good:
  assumes "operators_ok operators" "output_good out"
  shows "output_good (fst (execute_on operators op spec resolved c f out))"
  using assms
  by (auto simp: execute_on_def dispatch_with_recovery_def dispatch_operator_def operators_ok_def
      split: sum.splits option.splits prod.splits) (metis fst_conv)+

lemma shards_good:
  assumes "(shard_step (\<lambda>c i. execute_on operators op spec resolved c (shards ! i)))\<^sup>*\<^sup>* st st'" "operators_ok operators"
    and "list_all output_good (sh_outs st)"
  shows "list_all output_good (sh_outs st')"
  using assms
proof (induction rule: rtranclp_induct)
  case (step st' st'')
  have ran: "output_good out" if "execute_on operators op spec resolved c (shards ! i) (sh_outs st' ! i) = (out, e)"
      "i < length (sh_outs st')" for c i out e
    using execute_on_good [OF assms(2), of "sh_outs st' ! i" op spec resolved c "shards ! i"] that step
    by (auto simp: list_all_length)
  from step(2) show ?case
  proof (cases rule: shard_step.cases)
    case (shard_return i c out)
    then show ?thesis using step ran [of c i out None]
      by (cases "i < length (sh_outs st')") (auto simp: shard_updates list_all_length list_update_beyond)
  next
    case (shard_throw i c out e)
    then show ?thesis using step ran [of c i out "Some e"]
      by (cases "i < length (sh_outs st')") (auto simp: shard_updates list_all_length list_update_beyond)
  qed (use step in \<open>auto simp: set_phase_def\<close>)
qed simp

lemma merges_good:
  assumes "list_all output_good outs" "output_good dst"
  shows "output_good (fst (for_each (merge_shard_output op) (zip outs offs) dst))"
  using assms
proof (induction outs arbitrary: offs dst)
  case (Cons src outs)
  show ?case
  proof (cases offs)
    case (Cons off offs')
    obtain d e where d: "merge_shard_output op (src, off) dst = (d, e)" by fastforce
    then have "output_good d" using merge_good [of src dst op off] Cons.prems by simp
    then show ?thesis using Cons.IH Cons.prems Cons d by (cases e) auto
  qed (use Cons.prems in simp)
qed simp

lemma parallel_good:
  assumes "parallel_execute rj operators op spec plan f out r" "operators_ok operators" "output_good out"
  shows "output_good (fst r)"
  using assms
proof (cases rule: parallel_execute.cases)
  case (pe_sharded resolved windows shards cause st)
  have "list_all output_good (sh_outs (shards_start cause (length shards)))"
    by (simp add: shards_start_def output_good_empty list_all_length)
  then show ?thesis using merges_good [OF shards_good [OF pe_sharded(7) assms(2)] assms(3)] pe_sharded(1) assms(3)
    by (auto simp: shards_result_def split: option.splits)
qed (auto simp: execute_on_good)

lemma node_output_good:
  assumes "node_output rj eg i f (out, e)" "operators_ok (eg_operators eg)"
  shows "output_good out"
  using assms(1)
proof (cases rule: node_output.cases)
  case (node_outputI op r)
  then have "output_good (fst r)" using parallel_good assms(2) output_good_empty by blast
  then show ?thesis using node_outputI(1)
    by (cases r; cases "snd r") (auto simp: checked_output_def split: sum.splits)
qed

section \<open>The data of a run\<close>

definition data_inv :: "run_state \<Rightarrow> bool" where
  "data_inv st \<longleftrightarrow> frame_inv (rs_frame st) \<and> frame_owned (rs_frame st) \<and>
     (\<forall>i < length (rs_phase st). \<forall>out. rs_phase st ! i = Produced out \<longrightarrow> output_good out)"

lemma push_warning_parts:
  "fst (rf_push_warning msg g) = (if rf_is_window_view g then g else g\<lparr>rf_warnings := rf_warnings g @ [msg]\<rparr>)"
  "fst (cf_push_warning msg h) = (if cf_is_window_view h then h else h\<lparr>cf_warnings := cf_warnings h @ [msg]\<rparr>)"
  by (simp_all add: rf_push_warning_def cf_push_warning_def)

lemma warnings_irrelevant:
  "rf_ok (g\<lparr>rf_warnings := ws\<rparr>) = rf_ok g" "rf_owned (g\<lparr>rf_warnings := ws\<rparr>) = rf_owned g"
  "cf_ok (h\<lparr>cf_warnings := ws\<rparr>) = cf_ok h" "cf_owned (h\<lparr>cf_warnings := ws\<rparr>) = cf_owned h"
  by (simp_all add: rf_ok_def rf_owned_iff cf_ok_def cf_owned_iff split: option.split)

lemma push_warning_inv:
  "frame_inv (fst (frame_push_warning msg f)) = frame_inv f" "frame_owned (fst (frame_push_warning msg f)) = frame_owned f"
  by (cases f; simp add: frame_push_warning_def frame_inv_def frame_owned_def case_prod_beta push_warning_parts warnings_irrelevant)+

lemma data_inv_set:
  assumes "data_inv st" "\<And>out. p = Produced out \<Longrightarrow> output_good out"
  shows "data_inv (set_node i p st)"
proof -
  have "output_good out" if "k < length (rs_phase st)" "(rs_phase st)[i := p] ! k = Produced out" for k out
    using assms that by (cases "k = i") (auto simp: data_inv_def)
  then show ?thesis using assms(1) by (simp add: data_inv_def set_node_def)
qed

lemma data_inv_frame: "data_inv st \<Longrightarrow> frame_inv f \<Longrightarrow> frame_owned f \<Longrightarrow> data_inv (st\<lparr>rs_frame := f\<rparr>)"
  by (simp add: data_inv_def)

lemma data_inv_failed:
  assumes "data_inv st"
  shows "data_inv (node_failed eg i out e st)"
  using assms
  by (auto simp: node_failed_def leave_def Let_def intro!: data_inv_set)
    (auto simp: data_inv_def push_warning_inv)

lemma applied:
  assumes "data_inv st" "in_phase st i (Produced out)"
  shows "\<exists>f e. frame_apply out op r (rs_frame st) = Some (f, e) \<and> frame_inv f \<and> frame_owned f"
proof -
  have "output_ok out" "output_num_ok out" using assms by (auto simp: data_inv_def in_phase_def output_good_def)
  then show ?thesis using frame_apply_step [of "rs_frame st" out op r] assms(1) by (auto simp: data_inv_def)
qed

lemma run_step_data:
  assumes "run_step rj eg ev st st'" "operators_ok (eg_operators eg)" "data_inv st"
  shows "data_inv st'"
  using assms
proof (induction rule: run_step.induct)
  case (node_execute st i out)
  then show ?case by (auto intro!: data_inv_set dest: node_output_good)
next
  case (node_apply st i out op f)
  then have "frame_inv f \<and> frame_owned f" using applied [of st i out "oc_name op" "oc_operator_type op = ''recall''"] by auto
  then show ?case using node_apply by (auto simp: leave_def intro!: data_inv_set data_inv_frame)
next
  case (node_apply_throw st i out op f e)
  then have "frame_inv f \<and> frame_owned f" using applied [of st i out "oc_name op" "oc_operator_type op = ''recall''"] by auto
  then show ?case using node_apply_throw by (auto intro!: data_inv_failed data_inv_frame)
next
  case (node_propagate st i s ss)
  then have "data_inv (set_node i (Leaving ss) st)" by (auto intro: data_inv_set)
  then have "data_inv ((set_node i (Leaving ss) st)\<lparr>rs_in_degree := d\<rparr>)" for d by (simp add: data_inv_def)
  then show ?case by (auto simp: succ_ready_def Let_def intro!: data_inv_set)
next
  case (node_finish st i)
  then have "data_inv (st\<lparr>rs_remaining := rs_remaining st - 1\<rparr>)" by (simp add: data_inv_def)
  then have "data_inv (set_node i Left (st\<lparr>rs_remaining := rs_remaining st - 1\<rparr>))" by (rule data_inv_set) simp
  then have "data_inv ((set_node i Left (st\<lparr>rs_remaining := rs_remaining st - 1\<rparr>))\<lparr>rs_done := b\<rparr>)"
    "data_inv (set_node i Left (st\<lparr>rs_remaining := rs_remaining st - 1\<rparr>))" for b
    by (simp_all add: data_inv_def)
  then show ?case by (simp only: count_off_def Let_def split: if_split) blast
next
  case (node_not_run st i)
  then have "data_inv (st\<lparr>rs_not_run := True\<rparr>)" by (simp add: data_inv_def)
  then show ?case by (auto simp: leave_def intro: data_inv_set)
next
  case (seed_root st i)
  then have "data_inv (st\<lparr>rs_seed := Suc i\<rparr>)" by (simp add: data_inv_def)
  then show ?case by (auto intro: data_inv_set)
qed (auto simp: leave_def data_inv_failed intro: data_inv_set, auto simp: data_inv_def)

section \<open>Progress\<close>

lemma node_output_exists:
  assumes "frame_inv f" "frame_owned f"
  shows "\<exists>out e. node_output rj eg i f (out, e)"
proof -
  obtain r where "parallel_execute rj (eg_operators eg) (node_op eg i) (node_spec eg (node_op eg i))
      (node_plan eg (node_op eg i)) f empty_output r"
    using parallel_execute_returns [OF assms] by blast
  then show ?thesis by (metis node_outputI surj_pair)
qed

lemma active_steps:
  assumes "data_inv st" "in_phase st i p" "active p"
  shows "\<exists>ev st'. run_step rj eg ev st st' \<and> (\<forall>c. ev \<noteq> CallerDone c)"
proof (cases p)
  case Ready
  then show ?thesis using assms by (cases "rs_cause st = k_not_done") (blast intro: node_begin node_not_run)+
next
  case Started
  then show ?thesis using assms by (cases "should_skip (rs_frame st) (node_op eg i)") (blast intro: node_skip node_admit)+
next
  case Admitted
  obtain out e where "node_output rj eg i (rs_frame st) (out, e)"
    using node_output_exists assms(1) by (metis data_inv_def)
  then show ?thesis using assms Admitted by (cases e) (blast intro: node_execute node_throw)+
next
  case (Produced out)
  then obtain f e where "frame_apply out (oc_name (node_op eg i)) (oc_operator_type (node_op eg i) = ''recall'') (rs_frame st) = Some (f, e)"
    using applied assms by blast
  then show ?thesis using assms Produced by (cases e) (blast intro: node_apply node_apply_throw)+
next
  case (Leaving ss)
  then show ?thesis using assms by (cases ss) (blast intro: node_finish node_propagate)+
qed (use assms in auto)

lemma run_progress:
  assumes g: "graph_ok (eg_graph eg)" and inv: "struct_inv eg st" "data_inv st"
    and n: "0 < node_count (eg_graph eg)" and "\<not> rs_done st"
  shows "\<exists>ev st'. run_step rj eg ev st st' \<and> (\<forall>c. ev \<noteq> CallerDone c)"
proof (cases "rs_seed st < node_count (eg_graph eg)")
  case True
  then have "rs_seed st < length (rs_phase st)" using struct_invD(1) [OF inv(1)] by simp
  then show ?thesis
    by (cases "preds_of (eg_graph eg) (rs_seed st) = []") (blast intro: seed_root [OF refl] seed_other [OF refl])+
next
  case False
  note I = struct_invD [OF inv(1)]
  have "\<exists>i < node_count (eg_graph eg). rs_phase st ! i \<noteq> Left"
    using assms(5) I(7,8) n by (auto simp: filter_empty_conv)
  then obtain i where i: "i < node_count (eg_graph eg)" "rs_phase st ! i \<noteq> Left"
      "\<forall>k < i. k < node_count (eg_graph eg) \<longrightarrow> rs_phase st ! k = Left"
    using exists_least_iff [of "\<lambda>i. i < node_count (eg_graph eg) \<and> rs_phase st ! i \<noteq> Left"] by auto
  have "rs_phase st ! i \<noteq> Waiting"
  proof
    assume w: "rs_phase st ! i = Waiting"
    have "owed eg (rs_phase st) i = 0"
      unfolding owed_def
    proof (subst filter_False)
      show "\<forall>p \<in> set (preds_of (eg_graph eg) i). \<not> owing (rs_phase st ! p) i"
        using g i(1,3) unfolding graph_ok_def by force
    qed simp
    then show False using I(5) [OF i(1)] w False i(1) by (auto split: if_splits)
  qed
  then have "active (rs_phase st ! i)" using i(2) by (cases "rs_phase st ! i") auto
  moreover have "in_phase st i (rs_phase st ! i)" using i(1) I(1) by (simp add: in_phase_def)
  ultimately show ?thesis using active_steps [OF inv(2)] by blast
qed

section \<open>The number of steps\<close>

fun node_weight :: "nat \<Rightarrow> node_phase \<Rightarrow> nat" where
  "node_weight d Waiting = 7 + d"
| "node_weight d Ready = 6 + d"
| "node_weight d Started = 5 + d"
| "node_weight d Admitted = 4 + d"
| "node_weight d (Produced out) = 3 + d"
| "node_weight d (Leaving ss) = Suc (length ss)"
| "node_weight d Left = 0"

definition weight_of :: "'c engine \<Rightarrow> node_phase list \<Rightarrow> nat" where
  "weight_of eg ph = (\<Sum>i < node_count (eg_graph eg). node_weight (length (succs_of (eg_graph eg) i)) (ph ! i))"

definition run_left :: "'c engine \<Rightarrow> run_state \<Rightarrow> nat" where
  "run_left eg st = weight_of eg (rs_phase st) + (node_count (eg_graph eg) - rs_seed st) +
     (if rs_caller st = k_not_done then 1 else 0)"

lemma node_weight_update:
  assumes "i < node_count (eg_graph eg)" "length ph = node_count (eg_graph eg)"
    "node_weight (length (succs_of (eg_graph eg) i)) p < node_weight (length (succs_of (eg_graph eg) i)) (ph ! i)"
  shows "weight_of eg (ph[i := p]) < weight_of eg ph"
  unfolding weight_of_def
  by (rule sum_strict_mono_ex1) (use assms in \<open>auto simp: nth_list_update\<close>)

lemma run_left_less:
  assumes "struct_inv eg st" "in_phase st i p" "rs_phase st' = (rs_phase st)[i := q]"
    "rs_seed st' = rs_seed st" "rs_caller st' = rs_caller st"
    "node_weight (length (succs_of (eg_graph eg) i)) q < node_weight (length (succs_of (eg_graph eg) i)) p"
  shows "run_left eg st' < run_left eg st"
proof -
  have "weight_of eg ((rs_phase st)[i := q]) < weight_of eg (rs_phase st)"
    by (rule node_weight_update) (use assms struct_invD(1) [OF assms(1)] in \<open>auto simp: in_phase_def\<close>)
  then show ?thesis by (simp add: run_left_def assms)
qed

lemmas step_parts = set_node_def leave_def fail_run_def succ_ready_def count_off_def Let_def

lemma node_failed_parts:
  "rs_phase (node_failed eg i out e st) = (rs_phase st)[i := Leaving (succs_of (eg_graph eg) i)]"
  "rs_seed (node_failed eg i out e st) = rs_seed st" "rs_caller (node_failed eg i out e st) = rs_caller st"
  by (simp_all add: node_failed_def step_parts)

lemma run_step_decreases:
  assumes "run_step rj eg ev st st'" "graph_ok (eg_graph eg)" "struct_inv eg st"
  shows "run_left eg st' < run_left eg st"
  using assms
proof (induction rule: run_step.induct)
  case (seed_root st i)
  note w = struct_inv_seed(2) [OF seed_root(4,5,1,2,3)] and n = struct_invD(1,3) [OF seed_root(5)]
  have "weight_of eg ((rs_phase st)[i := Ready]) < weight_of eg (rs_phase st)"
    by (rule node_weight_update) (use seed_root(2) w n in auto)
  then show ?case using seed_root(1,2) n by (simp add: run_left_def set_node_def)
next
  case (seed_other st i)
  then show ?case using struct_invD(1) [OF seed_other(5)] by (simp add: run_left_def)
next
  case (node_propagate st i s ss)
  note S = struct_inv_signal [OF node_propagate(2,3,1)] and n = struct_invD(1) [OF node_propagate(3)]
  have i: "i < node_count (eg_graph eg)" "rs_phase st ! i = Leaving (s # ss)"
    using node_propagate(1) n by (auto simp: in_phase_def)
  let ?ph = "(rs_phase st)[i := Leaving ss]"
  have "weight_of eg ?ph < weight_of eg (rs_phase st)"
    by (rule node_weight_update) (use i n in auto)
  moreover have "weight_of eg (?ph[s := Ready]) < weight_of eg ?ph" if "rs_in_degree st ! s = 1"
    by (rule node_weight_update) (use i n S that in auto)
  ultimately show ?case by (auto simp: run_left_def step_parts)
next
  case (node_finish st i)
  then show ?case by (intro run_left_less [where i = i and p = "Leaving []" and q = Left]) (auto simp: step_parts)
next
  case (node_not_run st i)
  then show ?case by (intro run_left_less [where i = i and p = Ready]) (auto simp: step_parts)
next
  case (node_begin st i)
  then show ?case by (intro run_left_less [where i = i and p = Ready]) (auto simp: step_parts)
next
  case (node_skip st i)
  then show ?case by (intro run_left_less [where i = i and p = Started]) (auto simp: step_parts)
next
  case (node_admit st i)
  then show ?case by (intro run_left_less [where i = i and p = Started]) (auto simp: step_parts)
next
  case (node_execute st i out)
  then show ?case by (intro run_left_less [where i = i and p = Admitted]) (auto simp: step_parts)
next
  case (node_throw st i out e)
  then show ?case by (intro run_left_less [where i = i and p = Admitted]) (auto simp: node_failed_parts)
next
  case (node_apply st i out op f)
  then show ?case by (intro run_left_less [where i = i and p = "Produced out"]) (auto simp: step_parts)
next
  case (node_apply_throw st i out op f e)
  then show ?case by (intro run_left_less [where i = i and p = "Produced out"]) (auto simp: node_failed_parts)
qed (auto simp: run_left_def k_not_done_def k_canceled_def k_deadline_exceeded_def)

section \<open>Traces\<close>

lemma trace_inv:
  assumes "run_trace rj eg st0 tr st" "graph_ok (eg_graph eg)" "struct_inv eg st0"
  shows "struct_inv eg st \<and> length tr + run_left eg st \<le> run_left eg st0 \<and>
    (operators_ok (eg_operators eg) \<longrightarrow> data_inv st0 \<longrightarrow> data_inv st)"
  using assms
proof (induction rule: run_trace.induct)
  case (trace_step tr st ev st')
  then show ?case using run_step_struct run_step_data run_step_decreases by fastforce
qed simp

lemma data_inv_start: "frame_inv f \<Longrightarrow> frame_owned f \<Longrightarrow> data_inv (run_start eg c f)"
  by (simp add: data_inv_def run_start_def Let_def)

lemma built_graph_ok:
  assumes "build_dag cfg ex = Inr g"
  shows "graph_ok g" "node_count g = length (ex_sequence ex)"
proof -
  obtain full where f: "g = reduce full" "graph_ok full" "node_count full = length (ex_sequence ex)"
    using build_dag_Inr [OF assms] by blast
  note R = reduce_edges [OF f(2), folded f(1)]
  show "graph_ok g" "node_count g = length (ex_sequence ex)" using R f(3) by (simp_all add: same_nodes_def)
qed

end
