(* ===== verification/Scheduler_Theorems.thy ===== *)
theory Scheduler_Theorems
  imports Scheduler_Progress
begin

text \<open>
  What a run promises: it finishes; operators that access the same data in conflicting ways are kept
  apart; the error it reports is the first failure, or the caller's cancellation, or none, and then
  every operator was applied or skipped.
\<close>

section \<open>Nodes that touch the frame\<close>

fun touches :: "nat \<Rightarrow> run_event \<Rightarrow> bool" where
  "touches i (Skipped k) = (i = k)"
| "touches i (Checked k) = (i = k)"
| "touches i (Executed k) = (i = k)"
| "touches i (Applied k) = (i = k)"
| "touches i (Failed k e) = (i = k)"
| "touches i ev = False"

lemma ready_preds_settled:
  assumes "graph_ok (eg_graph eg)" "struct_inv eg st" "j < node_count (eg_graph eg)" "rs_phase st ! j \<noteq> Waiting"
    and "(i, j) \<in> edges (eg_graph eg)"
  shows "\<not> owing (rs_phase st ! i) j"
proof -
  have pred: "i \<in> set (preds_of (eg_graph eg) j)" using assms(1,5) by (simp add: edges_def pred_succ)
  then have "owed eg (rs_phase st) j = 0" using struct_invD(5) [OF assms(2,3)] assms(4) by (auto split: if_splits)
  then show ?thesis using pred by (auto simp: owed_def filter_empty_conv)
qed

text \<open>Once a node is submitted, all its ancestors are past their work on the frame.\<close>

fun past_work :: "node_phase \<Rightarrow> bool" where
  "past_work (Leaving ss) = True" | "past_work Left = True" | "past_work p = False"

lemma ancestors_past:
  assumes g: "graph_ok (eg_graph eg)" and inv: "struct_inv eg st"
    and "(i, j) \<in> (edges (eg_graph eg))\<^sup>+" "rs_phase st ! j \<noteq> Waiting"
  shows "past_work (rs_phase st ! i)"
  using assms(3,4)
proof (induction rule: trancl_induct)
  case (base j)
  then have "\<not> owing (rs_phase st ! i) j" using ready_preds_settled [OF g inv] graph_okD [OF g] by blast
  then show ?case by (cases "rs_phase st ! i") auto
next
  case (step j k)
  then have "\<not> owing (rs_phase st ! j) k" using ready_preds_settled [OF g inv] graph_okD [OF g] by blast
  then have "rs_phase st ! j \<noteq> Waiting" by auto
  then show ?case by (rule step.IH)
qed

lemma touching_step:
  assumes "run_step rj eg ev st st'" "touches i ev"
  shows "i < length (rs_phase st)" "rs_phase st ! i \<noteq> Waiting" "\<not> past_work (rs_phase st ! i)"
  using assms by (induction rule: run_step.induct) (auto simp: in_phase_def)

text \<open>The order of the phases of a node, and that no step takes a node back to waiting.\<close>

lemma not_waiting_update:
  "j < length ps \<Longrightarrow> ps ! j \<noteq> Waiting \<Longrightarrow> p \<noteq> Waiting \<Longrightarrow> ps[i := p] ! j \<noteq> Waiting"
  by (cases "i = j") auto

lemma phase_not_back:
  assumes "run_step rj eg ev st st'" "rs_phase st ! j \<noteq> Waiting" "j < length (rs_phase st)"
  shows "rs_phase st' ! j \<noteq> Waiting"
  using assms
  by (induction rule: run_step.induct) (simp_all add: step_parts node_failed_parts not_waiting_update)

lemma touched_not_waiting:
  assumes "run_trace rj eg st0 tr st" "graph_ok (eg_graph eg)" "struct_inv eg st0" "ev \<in> set tr" "touches j ev"
  shows "j < node_count (eg_graph eg) \<and> rs_phase st ! j \<noteq> Waiting"
  using assms
proof (induction rule: run_trace.induct)
  case (trace_step tr st ev' st')
  have inv: "struct_inv eg st" using trace_inv [OF trace_step(1,4,5)] by blast
  have "j < length (rs_phase st) \<and> rs_phase st ! j \<noteq> Waiting"
    using trace_step struct_invD(1) [OF inv] touching_step(1,2) [OF trace_step(2)] by auto
  then show ?case using phase_not_back [OF trace_step(2)] struct_invD(1) [OF inv] by simp
qed simp

lemma run_order:
  assumes "run_trace rj eg st0 tr st" "graph_ok (eg_graph eg)" "struct_inv eg st0" "(i, j) \<in> (edges (eg_graph eg))\<^sup>+"
    and "k < length tr" "l < length tr" "touches i (tr ! k)" "touches j (tr ! l)"
  shows "k < l"
  using assms
proof (induction arbitrary: k l rule: run_trace.induct)
  case (trace_step tr st ev st')
  have inv: "struct_inv eg st" using trace_inv [OF trace_step(1,4,5)] by blast
  show ?case
  proof (cases "k < length tr")
    case True
    then show ?thesis using trace_step by (cases "l < length tr") (auto simp: nth_append)
  next
    case False
    then have k: "k = length tr" "touches i ev" using trace_step.prems by (auto simp: nth_append)
    then have work: "\<not> past_work (rs_phase st ! i)" using touching_step(3) [OF trace_step(2)] by blast
    have "rs_phase st ! j \<noteq> Waiting"
    proof (cases "l < length tr")
      case True
      then have "tr ! l \<in> set tr" "touches j (tr ! l)" using trace_step.prems by (auto simp: nth_append)
      then show ?thesis using touched_not_waiting [OF trace_step(1,4,5)] by blast
    next
      case False
      then have "touches j ev" using trace_step.prems by (auto simp: nth_append)
      then show ?thesis using touching_step(2) [OF trace_step(2)] by blast
    qed
    then show ?thesis using ancestors_past [OF trace_step(4) inv trace_step(6)] work by blast
  qed
qed simp

section \<open>What the flags say of the trace\<close>

fun first_failure :: "run_event list \<Rightarrow> error option" where
  "first_failure [] = None"
| "first_failure (Failed i e # tr) = Some e"
| "first_failure (ev # tr) = first_failure tr"

fun ends :: "nat \<Rightarrow> run_event \<Rightarrow> bool" where
  "ends i (NotRun k) = (i = k)"
| "ends i (Skipped k) = (i = k)"
| "ends i (Applied k) = (i = k)"
| "ends i (Failed k e) = (i = k)"
| "ends i ev = False"

definition flags_inv :: "'c engine \<Rightarrow> run_event list \<Rightarrow> run_state \<Rightarrow> bool" where
  "flags_inv eg tr st \<longleftrightarrow>
     rs_fatal st = first_failure tr \<and> (rs_not_run st \<longleftrightarrow> (\<exists>i. NotRun i \<in> set tr)) \<and>
     (rs_not_run st \<longrightarrow> rs_cause st \<noteq> k_not_done) \<and> (rs_fatal st \<noteq> None \<longrightarrow> rs_cause st \<noteq> k_not_done) \<and>
     (rs_fatal st = None \<longrightarrow> rs_cause st = rs_caller st) \<and>
     (\<forall>i < length (rs_phase st). length (filter (ends i) tr) = (if past_work (rs_phase st ! i) then 1 else 0))"

lemma first_failure_snoc:
  "first_failure (tr @ [ev]) = (case first_failure tr of Some e \<Rightarrow> Some e | None \<Rightarrow> (case ev of Failed i e \<Rightarrow> Some e | _ \<Rightarrow> None))"
  by (induction tr rule: first_failure.induct; cases ev; simp)

lemma failed_counts: "Failed k e \<in> set tr \<Longrightarrow> first_failure tr \<noteq> None"
  by (induction tr rule: first_failure.induct) auto

lemma ends_update:
  assumes "\<forall>k < length (rs_phase st). length (filter (ends k) tr) = (if past_work (rs_phase st ! k) then 1 else 0)"
    and "rs_phase st' = (rs_phase st)[i := p]" "i < length (rs_phase st)"
    and "\<And>k. ends k ev \<longleftrightarrow> k = i \<and> past_work p \<and> \<not> past_work (rs_phase st ! i)"
    and "past_work (rs_phase st ! i) \<Longrightarrow> past_work p"
  shows "\<forall>k < length (rs_phase st'). length (filter (ends k) (tr @ [ev])) = (if past_work (rs_phase st' ! k) then 1 else 0)"
  using assms by (auto simp: nth_list_update)

lemma flags_inv_step:
  assumes "run_step rj eg ev st st'" "flags_inv eg tr st" "graph_ok (eg_graph eg)" "struct_inv eg st"
  shows "flags_inv eg (tr @ [ev]) st'"
proof -
  have E: "\<forall>k < length (rs_phase st). length (filter (ends k) tr) = (if past_work (rs_phase st ! k) then 1 else 0)"
    using assms(2) by (simp add: flags_inv_def)
  have "\<forall>k < length (rs_phase st'). length (filter (ends k) (tr @ [ev])) = (if past_work (rs_phase st' ! k) then 1 else 0)"
    using assms(1)
  proof (cases rule: run_step.cases)
    case (seed_root i)
    then have "rs_phase st ! i = Waiting" using struct_inv_seed(2) [OF assms(3,4)] by blast
    then show ?thesis using ends_update [OF E, of st' i Ready ev] seed_root by (auto simp: step_parts)
  next
    case (node_propagate i s ss)
    note S = struct_inv_signal [OF assms(3,4) node_propagate(3)]
    have i: "i < length (rs_phase st)" "rs_phase st ! i = Leaving (s # ss)" using node_propagate(3) by (auto simp: in_phase_def)
    show ?thesis
      using E i S node_propagate(1,2) struct_invD(1) [OF assms(4)] by (auto simp: step_parts nth_list_update)
  next
    case (node_finish i)
    then show ?thesis using ends_update [OF E, of st' i Left ev] by (auto simp: step_parts in_phase_def)
  next
    case (node_not_run i)
    then show ?thesis using ends_update [OF E, of st' i "Leaving (succs_of (eg_graph eg) i)" ev] by (auto simp: step_parts in_phase_def)
  next
    case (node_begin i)
    then show ?thesis using ends_update [OF E, of st' i Started ev] by (auto simp: step_parts in_phase_def)
  next
    case (node_skip i)
    then show ?thesis using ends_update [OF E, of st' i "Leaving (succs_of (eg_graph eg) i)" ev] by (auto simp: step_parts in_phase_def)
  next
    case (node_admit i)
    then show ?thesis using ends_update [OF E, of st' i Admitted ev] by (auto simp: step_parts in_phase_def)
  next
    case (node_execute i out)
    then show ?thesis using ends_update [OF E, of st' i "Produced out" ev] by (auto simp: step_parts in_phase_def)
  next
    case (node_throw i out e)
    then show ?thesis using ends_update [OF E, of st' i "Leaving (succs_of (eg_graph eg) i)" ev]
      by (auto simp: node_failed_parts in_phase_def)
  next
    case (node_apply i out op f)
    then show ?thesis using ends_update [OF E, of st' i "Leaving (succs_of (eg_graph eg) i)" ev] by (auto simp: step_parts in_phase_def)
  next
    case (node_apply_throw i out op f e)
    then show ?thesis using ends_update [OF E, of st' i "Leaving (succs_of (eg_graph eg) i)" ev]
      by (auto simp: node_failed_parts in_phase_def)
  qed (use E in auto)
  moreover have "rs_fatal st' = first_failure (tr @ [ev]) \<and> (rs_not_run st' \<longleftrightarrow> (\<exists>i. NotRun i \<in> set (tr @ [ev]))) \<and>
     (rs_not_run st' \<longrightarrow> rs_cause st' \<noteq> k_not_done) \<and> (rs_fatal st' \<noteq> None \<longrightarrow> rs_cause st' \<noteq> k_not_done) \<and>
     (rs_fatal st' = None \<longrightarrow> rs_cause st' = rs_caller st')"
    using assms(1,2)
    by (cases rule: run_step.cases)
      (auto simp: flags_inv_def first_failure_snoc step_parts node_failed_def k_not_done_def k_canceled_def k_deadline_exceeded_def
        split: option.splits)
  ultimately show ?thesis by (simp add: flags_inv_def)
qed

lemma flags_inv_trace:
  assumes "run_trace rj eg (run_start eg c f) tr st" "graph_ok (eg_graph eg)"
  shows "flags_inv eg tr st"
  using assms
proof (induction rule: run_trace.induct)
  case trace_start
  then show ?case by (simp add: flags_inv_def run_start_def Let_def)
next
  case (trace_step tr st ev st')
  have "struct_inv eg st" using trace_inv [OF trace_step(1,4) struct_inv_start [OF trace_step(4)]] by blast
  then show ?case using flags_inv_step [OF trace_step(2)] trace_step by blast
qed

section \<open>The properties\<close>

text \<open>In a trace, all events in which node \<open>i\<close> touches the frame come before those of node \<open>j\<close>.\<close>

definition works_before :: "nat \<Rightarrow> nat \<Rightarrow> run_event list \<Rightarrow> bool" where
  "works_before i j tr \<longleftrightarrow>
     (\<forall>k l. k < length tr \<longrightarrow> l < length tr \<longrightarrow> touches i (tr ! k) \<longrightarrow> touches j (tr ! l) \<longrightarrow> k < l)"

text \<open>The nodes whose turn ended with the given kind of event.\<close>

definition nodes_with :: "(nat \<Rightarrow> run_event) \<Rightarrow> run_event list \<Rightarrow> nat set" where
  "nodes_with kind tr = {i. kind i \<in> set tr}"

lemma run_completes:
  assumes "run_trace rj eg st0 tr st" "graph_ok (eg_graph eg)" "struct_inv eg st0" "data_inv st0"
    "operators_ok (eg_operators eg)" "0 < node_count (eg_graph eg)"
  shows "\<exists>tr' st'. run_trace rj eg st0 tr' st' \<and> rs_done st'"
  using assms
proof (induction "run_left eg st" arbitrary: tr st rule: less_induct)
  case less
  show ?case
  proof (cases "rs_done st")
    case False
    have inv: "struct_inv eg st" "data_inv st" using trace_inv [OF less(2-4)] less by auto
    obtain ev st' where "run_step rj eg ev st st'" using run_progress [OF less(3) inv less(7) False] by blast
    then show ?thesis
      using less run_step_decreases [OF _ less(3) inv(1)] trace_step by blast
  qed (use less in blast)
qed

definition demo_engine :: "graph \<Rightarrow> unit engine" where
  "demo_engine g = \<lparr>eg_config = demo_config, eg_expanded = demo_expanded, eg_graph = g,
     eg_operators = [(''a'', \<lambda>c inp out. (out, None)), (''b'', \<lambda>c inp out. (out, None))], eg_input_specs = [],
     eg_templated_plans = []\<rparr>"

lemma demo_engine_ok:
  "operators_ok (eg_operators (demo_engine g))" "eg_graph (demo_engine g) = g"
  "frame_inv demo_input_frame" "frame_owned demo_input_frame" "ex_sequence demo_expanded \<noteq> []"
proof -
  have "execute c inp out = (out, None)"
    if "fm_find (eg_operators (demo_engine g)) name = Some execute" for name execute c inp out
    using that by (subst (asm) fm_find_map_of) (auto simp: demo_engine_def fm_ok_def split: if_splits)
  then show "operators_ok (eg_operators (demo_engine g))" unfolding operators_ok_def by (metis fst_conv)
qed (simp_all add: demo_engine_def demo_input_ok demo_parallel_ok demo_expanded_def)

lemma demo_run:
  "\<exists>g tr st. build_dag demo_config demo_expanded = Inr g \<and>
     build_dag demo_config demo_expanded = Inr (eg_graph (demo_engine g)) \<and>
     run_trace (\<lambda>_. []) (demo_engine g) (run_start (demo_engine g) k_not_done demo_input_frame) tr st \<and> rs_done st"
proof -
  obtain g where g: "build_dag demo_config demo_expanded = Inr g" using demo_builds by blast
  have ok: "graph_ok (eg_graph (demo_engine g))" "node_count (eg_graph (demo_engine g)) = length (ex_sequence demo_expanded)"
    using built_graph_ok [OF g] by (simp_all add: demo_engine_ok(2))
  let ?st = "run_start (demo_engine g) k_not_done demo_input_frame"
  have "0 < node_count (eg_graph (demo_engine g))" using ok(2) by (simp add: demo_expanded_def demo_engine_ok(2))
  from run_completes [OF trace_start ok(1) struct_inv_start [OF ok(1)] data_inv_start [OF demo_engine_ok(3,4)] demo_engine_ok(1) this]
  show ?thesis using g by (auto simp: demo_engine_ok(2))
qed

text \<open>
  C7: every run finishes.  Whatever the pool, the operators and the caller do, a run of a graph the
  builder made takes at most a number of steps known at its start, and until the latch opens some
  step other than the caller's is possible: no node waits for ever, no signal is lost.
\<close>

theorem scheduler_finishes:
  assumes "build_dag cfg ex = Inr (eg_graph eg)" and "ex_sequence ex \<noteq> []" and "frame_inv f" "frame_owned f"
    and "operators_ok (eg_operators eg)" and "run_trace rj eg (run_start eg c f) tr st"
  shows "length tr + run_left eg st \<le> run_left eg (run_start eg c f) \<and>
    (rs_done st \<or> (\<exists>ev st'. run_step rj eg ev st st' \<and> (\<forall>c. ev \<noteq> CallerDone c)))"
proof -
  note g = built_graph_ok [OF assms(1)]
  note inv = trace_inv [OF assms(6) g(1) struct_inv_start [OF g(1)]]
  have n: "0 < node_count (eg_graph eg)" using g(2) assms(2) by simp
  have "struct_inv eg st" "data_inv st" using inv assms(5) data_inv_start [OF assms(3,4)] by blast+
  from run_progress [OF g(1) this n] show ?thesis using inv by blast
qed

theorem scheduler_finishes_witness:
  "\<exists>g ev st'. build_dag demo_config demo_expanded = Inr g \<and>
     run_step (\<lambda>_. []) (demo_engine g) ev (run_start (demo_engine g) k_not_done demo_input_frame) st'"
proof -
  obtain g where g: "build_dag demo_config demo_expanded = Inr g" using demo_builds by blast
  let ?st = "run_start (demo_engine g) k_not_done demo_input_frame"
  have "\<not> rs_done ?st" by (simp add: run_start_def Let_def)
  moreover have "build_dag demo_config demo_expanded = Inr (eg_graph (demo_engine g))" by (simp add: g demo_engine_ok(2))
  ultimately show ?thesis
    using scheduler_finishes [OF _ demo_engine_ok(5,3,4,1) trace_start] g by blast
qed

text \<open>
  C6: conflicting operators are kept apart.  If two operators access the same common field, item field
  or the row set in conflicting ways, then in every run the earlier one in the sequence is done with the
  frame (skip check, execution, application of its output or failure) before the later one touches it.
\<close>

theorem run_respects_hazards:
  assumes "build_dag cfg ex = Inr (eg_graph eg)" and "run_trace rj eg (run_start eg c f) tr st"
    and "i < j" "j < length (ex_sequence ex)"
    and "(field, a) \<in> set (op_accesses common (op_at cfg ex i))" "(field, b) \<in> set (op_accesses common (op_at cfg ex j))"
    and "conflicting a b"
  shows "works_before i j tr"
proof -
  obtain full where f: "eg_graph eg = reduce full" "graph_ok full" "ordered_hazards cfg ex full"
    using build_dag_Inr [OF assms(1)] by blast
  then have "(i, j) \<in> (edges (eg_graph eg))\<^sup>+"
    using assms(3-) reduce_paths [OF f(2)] unfolding ordered_hazards_def by simp
  note g = built_graph_ok(1) [OF assms(1)]
  show ?thesis
    unfolding works_before_def using run_order [OF assms(2) g struct_inv_start [OF g] \<open>(i, j) \<in> _\<close>] by blast
qed

theorem run_respects_hazards_witness:
  "\<exists>g tr st. build_dag demo_config demo_expanded = Inr g \<and> rs_done st \<and> works_before 0 1 tr \<and>
     run_trace (\<lambda>_. []) (demo_engine g) (run_start (demo_engine g) k_not_done demo_input_frame) tr st"
proof -
  obtain g tr st where g: "build_dag demo_config demo_expanded = Inr g" "build_dag demo_config demo_expanded = Inr (eg_graph (demo_engine g))"
    and run: "run_trace (\<lambda>_. []) (demo_engine g) (run_start (demo_engine g) k_not_done demo_input_frame) tr st" "rs_done st"
    using demo_run by blast
  have "(''y'', W) \<in> set (op_accesses False (op_at (case load_config demo_registry demo_root of Inr cfg \<Rightarrow> cfg | Inl e \<Rightarrow> undefined) demo_expanded 0))"
    "(''y'', R) \<in> set (op_accesses False (op_at (case load_config demo_registry demo_root of Inr cfg \<Rightarrow> cfg | Inl e \<Rightarrow> undefined) demo_expanded 1))"
    by code_simp+
  then have "works_before 0 1 tr"
    using run_respects_hazards [OF g(2) run(1), of 0 1 "''y''" W False R]
    by (simp add: demo_config_def demo_expanded_def conflicting_def)
  then show ?thesis using g run by blast
qed

text \<open>
  C8: what a finished run reports.  Every operator ended exactly once: it was not run, or skipped, or
  applied, or it failed.  The error is the first failure of the run; without a failure it is the
  cancellation by the caller, if some operator was not run for it; without an error every operator
  was skipped or applied.
\<close>

theorem run_outcome:
  assumes "build_dag cfg ex = Inr (eg_graph eg)" and "run_trace rj eg (run_start eg c f) tr st" and "rs_done st"
  shows "(\<forall>i < length (ex_sequence ex). length (filter (ends i) tr) = 1) \<and>
    (case run_error st of
       None \<Rightarrow> first_failure tr = None \<and> nodes_with NotRun tr = {} \<and>
         {..<length (ex_sequence ex)} \<subseteq> nodes_with Skipped tr \<union> nodes_with Applied tr
     | Some e \<Rightarrow> first_failure tr = Some e \<or>
         (first_failure tr = None \<and> nodes_with NotRun tr \<noteq> {} \<and> rs_caller st \<noteq> k_not_done \<and>
          e = CancelledError (rs_caller st = k_deadline_exceeded)))"
proof -
  note g = built_graph_ok [OF assms(1)]
  have inv: "struct_inv eg st" using trace_inv [OF assms(2) g(1) struct_inv_start [OF g(1)]] by blast
  note fl = flags_inv_trace [OF assms(2) g(1), unfolded flags_inv_def]
  have left: "rs_phase st ! i = Left" if "i < length (ex_sequence ex)" for i
    using that assms(3) struct_invD(7,8) [OF inv] g(2) by (auto simp: filter_empty_conv)
  then have once: "\<forall>i < length (ex_sequence ex). length (filter (ends i) tr) = 1"
    using fl struct_invD(1) [OF inv] g(2) by simp
  have "{..<length (ex_sequence ex)} \<subseteq> nodes_with Skipped tr \<union> nodes_with Applied tr"
    if "first_failure tr = None" "nodes_with NotRun tr = {}"
  proof
    fix i assume "i \<in> {..<length (ex_sequence ex)}"
    then have "filter (ends i) tr \<noteq> []" using once by fastforce
    then obtain ev where ev: "ev \<in> set tr" "ends i ev" by (auto simp: filter_empty_conv)
    moreover have "ev \<noteq> Failed k e" for k e using that(1) ev(1) failed_counts by blast
    ultimately show "i \<in> nodes_with Skipped tr \<union> nodes_with Applied tr"
      using that(2) by (auto simp: nodes_with_def elim!: ends.elims(2))
  qed
  then show ?thesis
    using once fl by (auto simp: run_error_def nodes_with_def split: option.splits)
qed

theorem run_outcome_witness:
  "\<exists>g tr st. build_dag demo_config demo_expanded = Inr g \<and>
     run_trace (\<lambda>_. []) (demo_engine g) (run_start (demo_engine g) k_not_done demo_input_frame) tr st \<and>
     length (filter (ends 0) tr) = 1"
proof -
  obtain g tr st where g: "build_dag demo_config demo_expanded = Inr g" "build_dag demo_config demo_expanded = Inr (eg_graph (demo_engine g))"
    and run: "run_trace (\<lambda>_. []) (demo_engine g) (run_start (demo_engine g) k_not_done demo_input_frame) tr st" "rs_done st"
    using demo_run by blast
  have "length (filter (ends 0) tr) = 1"
    using run_outcome [OF g(2) run] by (simp add: demo_expanded_def)
  then show ?thesis using g run(1) by blast
qed

text \<open>A graph without nodes is never done: its latch starts at zero and nobody opens it.\<close>

lemma empty_run_waits:
  assumes "run_trace rj eg (run_start eg c f) tr st" "g_nodes (eg_graph eg) = []"
  shows "\<not> rs_done st"
proof -
  have "graph_ok (eg_graph eg)" using assms(2) by (simp add: graph_ok_def succs_of_def preds_of_def)
  then have "struct_inv eg st" using trace_inv [OF assms(1)] struct_inv_start by blast
  from struct_invD(8) [OF this] show ?thesis using assms(2) by (simp add: node_count_def)
qed

end
