(* ===== verification/Engine.thy ===== *)
theory Engine
  imports Scheduler Registry
begin

text \<open>
  The engine (\<open>src/runtime/engine.cpp\<close>): its construction from a configuration, and the execution of
  a request: validation, the frame, the run, the projected result, which survives a failed run.
\<close>

section \<open>Construction\<close>

record engine_options =
  eo_debug :: "bool option"
  eo_log_prefix :: "string option"

text \<open>An operator without a debug flag of its own takes the global one.\<close>

definition with_global_debug :: "bool \<Rightarrow> operator_config \<Rightarrow> operator_config" where
  "with_global_debug debug op = (if oc_debug op = None then op\<lparr>oc_debug := Some debug\<rparr> else op)"

definition debug_config :: "engine_options \<Rightarrow> config \<Rightarrow> config" where
  "debug_config options cfg =
     (let global_debug = (case eo_debug options of Some b \<Rightarrow> b | None \<Rightarrow> cg_debug cfg)
      in cfg\<lparr>cg_operators := map (\<lambda>(name, op). (name, with_global_debug global_debug op)) (cg_operators cfg)\<rparr>)"

definition engine_log_prefix :: "engine_options \<Rightarrow> config \<Rightarrow> string" where
  "engine_log_prefix options cfg = (case eo_log_prefix options of Some p \<Rightarrow> p | None \<Rightarrow> cg_log_prefix cfg)"

text \<open>Skip control fields leave the declared common inputs before the operator sees its configuration.\<close>

definition without_skip_fields :: "operator_config \<Rightarrow> operator_config" where
  "without_skip_fields op =
     (if oc_skip op = [] then op
      else op\<lparr>oc_metadata := (oc_metadata op)\<lparr>common_input :=
             filter (\<lambda>f. f \<notin> set (oc_skip op)) (common_input (oc_metadata op))\<rparr>\<rparr>)"

text \<open>
  One iteration of the loop over the configured operators.  \<open>factory\<close> is the factory of the operator type
  followed by \<open>init\<close>: code of the operators, which may throw.
\<close>

definition add_operator_instance ::
  "registry \<Rightarrow> (string \<Rightarrow> operator_config \<Rightarrow> error + 'c op_fun) \<Rightarrow> string \<times> operator_config \<Rightarrow> 'c engine \<Rightarrow>
   error + 'c engine" where
  "add_operator_instance reg factory named eg =
     (case named of (op_name, op_cfg) \<Rightarrow>
        case registry_entry reg (oc_type_name op_cfg) of
          None \<Rightarrow> Inl (RegistryError None (''operator '' @ quoted op_name @ '': operator type not registered: '' @
                    quoted (oc_type_name op_cfg)))
        | Some entry \<Rightarrow>
            let op_cfg = without_skip_fields op_cfg
            in rbind (factory (oc_type_name op_cfg) op_cfg) (\<lambda>instance_fn.
               rbind (build_templated_param_plan op_name (en_schema entry) (oc_params op_cfg)) (\<lambda>plan.
               Inr (eg\<lparr>eg_config := (eg_config eg)\<lparr>cg_operators := fm_set op_name op_cfg (cg_operators (eg_config eg))\<rparr>,
                       eg_templated_plans := (if plan \<noteq> [] then fst (fm_emplace op_name plan (eg_templated_plans eg))
                                              else eg_templated_plans eg),
                       eg_operators := fst (fm_emplace op_name instance_fn (eg_operators eg)),
                       eg_input_specs := fst (fm_emplace op_name (compute_input_field_spec op_cfg) (eg_input_specs eg))\<rparr>))))"

definition new_engine ::
  "registry \<Rightarrow> (string \<Rightarrow> operator_config \<Rightarrow> error + 'c op_fun) \<Rightarrow> engine_options \<Rightarrow> config \<Rightarrow> error + 'c engine" where
  "new_engine reg factory options cfg =
     (let cfg = debug_config options cfg
      in rbind (expand_operator_sequence cfg) (\<lambda>ex.
         rbind (build_dag cfg ex) (\<lambda>g.
         rfold (add_operator_instance reg factory) (cg_operators cfg)
           \<lparr>eg_config = cfg, eg_expanded = ex, eg_graph = g, eg_operators = [], eg_input_specs = [],
            eg_templated_plans = []\<rparr>)))"

section \<open>Execution\<close>

text \<open>A request's own exception, or what \<open>execute_traced_into\<close> leaves behind: result, warnings, error.\<close>

type_synonym execution = "(result \<times> string list) option \<times> error option"

definition project_result :: "frame \<Rightarrow> flow_contract \<Rightarrow> error + result" where
  "project_result f contract = frame_result f (fc_common_output contract) (fc_item_output contract)"

inductive execute_traced_into ::
  "(writer_call list \<Rightarrow> string) \<Rightarrow> 'c engine \<Rightarrow> request \<Rightarrow> nat \<Rightarrow> execution \<Rightarrow> bool"
  for rj eg rq caller where
  ex_invalid: "validate_request rq (cg_flow_contract (eg_config eg)) = Inl e \<Longrightarrow>
     execute_traced_into rj eg rq caller (None, Some e)"
| ex_no_frame: "validate_request rq (cg_flow_contract (eg_config eg)) = Inr () \<Longrightarrow>
     make_frame (cg_storage_mode (eg_config eg)) (rq_common rq) (rq_items rq) = (f, Some e) \<Longrightarrow>
     execute_traced_into rj eg rq caller (None, Some e)"
| ex_run: "validate_request rq (cg_flow_contract (eg_config eg)) = Inr () \<Longrightarrow>
     make_frame (cg_storage_mode (eg_config eg)) (rq_common rq) (rq_items rq) = (f, None) \<Longrightarrow>
     run_trace rj eg (run_start eg caller f) tr st \<Longrightarrow> rs_done st \<Longrightarrow>
     project_result (rs_frame st) (cg_flow_contract (eg_config eg)) = Inr r \<Longrightarrow>
     execute_traced_into rj eg rq caller (Some (r, frame_warnings (rs_frame st)), run_error st)"
| ex_no_result: "validate_request rq (cg_flow_contract (eg_config eg)) = Inr () \<Longrightarrow>
     make_frame (cg_storage_mode (eg_config eg)) (rq_common rq) (rq_items rq) = (f, None) \<Longrightarrow>
     run_trace rj eg (run_start eg caller f) tr st \<Longrightarrow> rs_done st \<Longrightarrow>
     project_result (rs_frame st) (cg_flow_contract (eg_config eg)) = Inl e \<Longrightarrow>
     execute_traced_into rj eg rq caller (None, Some e)"

text \<open>\<open>execute\<close> has no place for a partial result.\<close>

inductive execute ::
  "(writer_call list \<Rightarrow> string) \<Rightarrow> 'c engine \<Rightarrow> request \<Rightarrow> nat \<Rightarrow> error + result \<Rightarrow> bool" for rj eg rq caller where
  execute_ok: "execute_traced_into rj eg rq caller (Some (r, ws), None) \<Longrightarrow> execute rj eg rq caller (Inr r)"
| execute_throws: "execute_traced_into rj eg rq caller (p, Some e) \<Longrightarrow> execute rj eg rq caller (Inl e)"

inductive_cases execute_traced_intoE: "execute_traced_into rj eg rq caller r"

end
