(* ===== verification/Execution_Theorems.thy ===== *)
theory Execution_Theorems
  imports Engine Scheduler_Theorems
begin

text \<open>
  The engine as a whole: a constructed engine is ready for every operator of its configuration, and a
  valid request always gets a projected result, partial when the run failed.
\<close>

section \<open>A constructed engine\<close>

definition ready_for ::
  "registry \<Rightarrow> (string \<Rightarrow> operator_config \<Rightarrow> error + 'c op_fun) \<Rightarrow> 'c engine \<Rightarrow> string \<Rightarrow> operator_config \<Rightarrow> bool" where
  "ready_for reg factory eg name op \<longleftrightarrow>
     (\<exists>entry run_fn plan. registry_entry reg (oc_type_name op) = Some entry \<and> factory (oc_type_name op) op = Inr run_fn \<and>
        build_templated_param_plan name (en_schema entry) (oc_params op) = Inr plan \<and>
        fm_find (cg_operators (eg_config eg)) name = Some op \<and> fm_find (eg_operators eg) name = Some run_fn \<and>
        fm_find (eg_input_specs eg) name = Some (compute_input_field_spec op) \<and>
        fm_find (eg_templated_plans eg) name = (if plan = [] then None else Some plan))"

definition engine_maps_ok :: "'c engine \<Rightarrow> bool" where
  "engine_maps_ok eg \<longleftrightarrow> fm_ok (cg_operators (eg_config eg)) \<and> fm_ok (eg_operators eg) \<and> fm_ok (eg_input_specs eg) \<and>
     fm_ok (eg_templated_plans eg)"

definition absent :: "'c engine \<Rightarrow> string \<Rightarrow> bool" where
  "absent eg name \<longleftrightarrow> fm_find (eg_operators eg) name = None \<and> fm_find (eg_input_specs eg) name = None \<and>
     fm_find (eg_templated_plans eg) name = None"

lemma type_name_kept [simp]: "oc_type_name (without_skip_fields op) = oc_type_name op" "oc_params (without_skip_fields op) = oc_params op"
  by (simp_all add: without_skip_fields_def)

lemma add_operator_step:
  assumes "add_operator_instance reg factory (name, op) eg = Inr eg'" "engine_maps_ok eg" "absent eg name"
  shows "engine_maps_ok eg'" "ready_for reg factory eg' name (without_skip_fields op)"
    and "n \<noteq> name \<Longrightarrow> absent eg n \<Longrightarrow> absent eg' n"
    and "n \<noteq> name \<Longrightarrow> ready_for reg factory eg n op' \<Longrightarrow> ready_for reg factory eg' n op'"
    and "eg_graph eg' = eg_graph eg \<and> eg_expanded eg' = eg_expanded eg \<and>
      cg_flow_contract (eg_config eg') = cg_flow_contract (eg_config eg) \<and>
      cg_storage_mode (eg_config eg') = cg_storage_mode (eg_config eg)"
proof -
  let ?op = "without_skip_fields op"
  obtain entry run_fn plan where parts: "registry_entry reg (oc_type_name op) = Some entry"
      "factory (oc_type_name op) ?op = Inr run_fn" "build_templated_param_plan name (en_schema entry) (oc_params op) = Inr plan"
    and eg': "eg' = eg\<lparr>eg_config := (eg_config eg)\<lparr>cg_operators := fm_set name ?op (cg_operators (eg_config eg))\<rparr>,
        eg_templated_plans := (if plan \<noteq> [] then fst (fm_emplace name plan (eg_templated_plans eg)) else eg_templated_plans eg),
        eg_operators := fst (fm_emplace name run_fn (eg_operators eg)),
        eg_input_specs := fst (fm_emplace name (compute_input_field_spec ?op) (eg_input_specs eg))\<rparr>"
    using assms(1) by (auto simp: add_operator_instance_def Let_def rbind_Inr_iff split: option.splits)
  have ab: "fm_find (eg_operators eg) name = None" "fm_find (eg_input_specs eg) name = None" "fm_find (eg_templated_plans eg) name = None"
    using assms(3) by (simp_all add: absent_def)
  note maps = assms(2) [unfolded engine_maps_ok_def]
  show "engine_maps_ok eg'"
    using maps ab by (simp add: eg' engine_maps_ok_def fm_emplace_set fm_ok_fm_set)
  show "ready_for reg factory eg' name ?op"
    using maps ab parts by (auto simp: ready_for_def eg' fm_emplace_set fm.lookup_put)
  show "n \<noteq> name \<Longrightarrow> absent eg n \<Longrightarrow> absent eg' n"
    using maps ab by (simp add: absent_def eg' fm_emplace_set fm.lookup_put)
  show "n \<noteq> name \<Longrightarrow> ready_for reg factory eg n op' \<Longrightarrow> ready_for reg factory eg' n op'"
    using maps ab by (fastforce simp: ready_for_def eg' fm_emplace_set fm.lookup_put)
qed (use assms(1) in \<open>auto simp: add_operator_instance_def Let_def rbind_Inr_iff split: option.splits\<close>)

lemma add_operators_loop:
  assumes "rfold (add_operator_instance reg factory) ops eg = Inr eg'" "engine_maps_ok eg" "distinct (map fst ops)"
    and "\<forall>name \<in> fst ` set ops. absent eg name"
  shows "engine_maps_ok eg' \<and> eg_graph eg' = eg_graph eg \<and> eg_expanded eg' = eg_expanded eg \<and>
    cg_flow_contract (eg_config eg') = cg_flow_contract (eg_config eg) \<and>
    cg_storage_mode (eg_config eg') = cg_storage_mode (eg_config eg) \<and>
    (\<forall>(name, op) \<in> set ops. ready_for reg factory eg' name (without_skip_fields op)) \<and>
    (\<forall>n op'. n \<notin> fst ` set ops \<longrightarrow> ready_for reg factory eg n op' \<longrightarrow> ready_for reg factory eg' n op')"
  using assms
proof (induction ops arbitrary: eg)
  case (Cons x ops)
  obtain name op where x: "x = (name, op)" by fastforce
  obtain eg1 where eg1: "add_operator_instance reg factory (name, op) eg = Inr eg1"
      "rfold (add_operator_instance reg factory) ops eg1 = Inr eg'"
    using Cons.prems(1) by (auto simp: x rbind_Inr_iff)
  have "absent eg name" using Cons.prems(4) by (simp add: x)
  note S = add_operator_step [OF eg1(1) Cons.prems(2) this]
  have "\<forall>n \<in> fst ` set ops. absent eg1 n" proof
    fix n assume "n \<in> fst ` set ops"
    moreover from this have "n \<noteq> name" using Cons.prems(3) by (auto simp: x)
    ultimately show "absent eg1 n" using S(3) Cons.prems(4) by auto
  qed
  note IH = Cons.IH [OF eg1(2) S(1) _ this]
  have "name \<notin> fst ` set ops" using Cons.prems(3) by (auto simp: x image_iff)
  then show ?case using IH S(2,4,5) Cons.prems(3) by (auto simp: x)
qed simp

text \<open>Every operator of the engine was made by the factory.\<close>

definition made_by :: "(string \<Rightarrow> operator_config \<Rightarrow> error + 'c op_fun) \<Rightarrow> 'c op_fun flat_map \<Rightarrow> bool" where
  "made_by factory ops \<longleftrightarrow> (\<forall>name run_fn. fm_find ops name = Some run_fn \<longrightarrow> (\<exists>t op. factory t op = Inr run_fn))"

definition factory_ok :: "(string \<Rightarrow> operator_config \<Rightarrow> error + 'c op_fun) \<Rightarrow> bool" where
  "factory_ok factory \<longleftrightarrow> (\<forall>t op run_fn. factory t op = Inr run_fn \<longrightarrow>
     (\<forall>c inp out. output_good out \<longrightarrow> output_good (fst (run_fn c inp out))))"

lemma fm_emplace_find:
  assumes "fm_ok es" "fm_find (fst (fm_emplace key v es)) name = Some w"
  shows "fm_find es name = Some w \<or> w = v"
proof (cases "fm_find es key")
  case None
  with assms show ?thesis by (auto simp: fm_emplace_set fm.lookup_put split: if_splits)
next
  case (Some u)
  with assms show ?thesis by (auto simp: fm_emplace_def fm_find_def Let_def split: if_splits)
qed

lemma fm_ok_emplace:
  assumes "fm_ok es"
  shows "fm_ok (fst (fm_emplace key v es))"
proof (cases "fm_find es key")
  case None
  with assms show ?thesis by (simp add: fm_emplace_set fm_ok_fm_set)
next
  case (Some u)
  with assms show ?thesis by (simp add: fm_emplace_def fm_find_def Let_def split: if_splits)
qed

lemma made_by_loop:
  assumes "rfold (add_operator_instance reg factory) ops eg = Inr eg'" "fm_ok (eg_operators eg)" "made_by factory (eg_operators eg)"
  shows "made_by factory (eg_operators eg')"
  using assms
proof (induction ops arbitrary: eg)
  case (Cons x ops)
  obtain name op where x: "x = (name, op)" by fastforce
  obtain eg1 where eg1: "add_operator_instance reg factory (name, op) eg = Inr eg1"
      "rfold (add_operator_instance reg factory) ops eg1 = Inr eg'"
    using Cons.prems(1) by (auto simp: x rbind_Inr_iff)
  obtain run_fn where run: "factory (oc_type_name op) (without_skip_fields op) = Inr run_fn"
      "eg_operators eg1 = fst (fm_emplace name run_fn (eg_operators eg))"
    using eg1(1) by (auto simp: add_operator_instance_def Let_def rbind_Inr_iff split: option.splits)
  have "fm_ok (eg_operators eg1)" using Cons.prems(2) by (simp add: run(2) fm_ok_emplace)
  moreover have "made_by factory (eg_operators eg1)"
    using Cons.prems(3) run fm_emplace_find [OF Cons.prems(2)] unfolding made_by_def by metis
  ultimately show ?case using Cons.IH [OF eg1(2)] by blast
qed simp

lemma new_engine_parts:
  assumes "new_engine reg factory options cfg = Inr eg" "fm_ok (cg_operators cfg)"
  shows "expand_operator_sequence (debug_config options cfg) = Inr (eg_expanded eg)"
    "build_dag (debug_config options cfg) (eg_expanded eg) = Inr (eg_graph eg)"
    "cg_flow_contract (eg_config eg) = cg_flow_contract cfg" "cg_storage_mode (eg_config eg) = cg_storage_mode cfg"
    "\<forall>(name, op) \<in> set (cg_operators (debug_config options cfg)). ready_for reg factory eg name (without_skip_fields op)"
proof -
  let ?cfg = "debug_config options cfg"
  obtain ex g where parts: "expand_operator_sequence ?cfg = Inr ex" "build_dag ?cfg ex = Inr g"
      "rfold (add_operator_instance reg factory) (cg_operators ?cfg)
         \<lparr>eg_config = ?cfg, eg_expanded = ex, eg_graph = g, eg_operators = [], eg_input_specs = [], eg_templated_plans = []\<rparr> = Inr eg"
    using assms(1) by (auto simp: new_engine_def Let_def rbind_Inr_iff)
  have keys: "map fst (cg_operators ?cfg) = map fst (cg_operators cfg)"
    by (simp add: debug_config_def Let_def case_prod_beta comp_def)
  then have ok: "fm_ok (cg_operators ?cfg)" "distinct (map fst (cg_operators ?cfg))"
    using assms(2) fm_ok_distinct [OF assms(2)] by (simp_all add: fm_ok_def)
  note L = add_operators_loop [OF parts(3)]
  show "expand_operator_sequence (debug_config options cfg) = Inr (eg_expanded eg)"
    "build_dag (debug_config options cfg) (eg_expanded eg) = Inr (eg_graph eg)"
    "cg_flow_contract (eg_config eg) = cg_flow_contract cfg" "cg_storage_mode (eg_config eg) = cg_storage_mode cfg"
    "\<forall>(name, op) \<in> set (cg_operators (debug_config options cfg)). ready_for reg factory eg name (without_skip_fields op)"
    using L ok parts(1,2)
    by (auto simp: engine_maps_ok_def absent_def fm_find_map_of fm_ok_def debug_config_def Let_def)
qed

lemma new_engine_operators:
  assumes "new_engine reg factory options cfg = Inr eg" "factory_ok factory"
  shows "operators_ok (eg_operators eg)"
proof -
  have "made_by factory (eg_operators eg)"
    using assms(1) by (auto simp: new_engine_def Let_def rbind_Inr_iff dest!: made_by_loop)
      (auto simp: made_by_def fm_ok_def fm_find_map_of)
  then show ?thesis using assms(2) unfolding operators_ok_def factory_ok_def made_by_def by blast
qed

section \<open>Requests\<close>

lemma run_exists:
  assumes "build_dag cfg ex = Inr (eg_graph eg)" "ex_sequence ex \<noteq> []" "operators_ok (eg_operators eg)"
    "frame_inv f" "frame_owned f"
  shows "\<exists>tr st. run_trace rj eg (run_start eg c f) tr st \<and> rs_done st"
proof -
  note g = built_graph_ok [OF assms(1)]
  have "0 < node_count (eg_graph eg)" using g(2) assms(2) by simp
  from run_completes [OF trace_start g(1) struct_inv_start [OF g(1)] data_inv_start [OF assms(4,5)] assms(3) this]
  show ?thesis .
qed

lemma run_frame_ok:
  assumes "build_dag cfg ex = Inr (eg_graph eg)" "operators_ok (eg_operators eg)" "frame_inv f" "frame_owned f"
    "run_trace rj eg (run_start eg c f) tr st"
  shows "frame_inv (rs_frame st)" "frame_owned (rs_frame st)"
proof -
  note g = built_graph_ok(1) [OF assms(1)]
  have "data_inv st" using trace_inv [OF assms(5) g struct_inv_start [OF g]] assms(2) data_inv_start [OF assms(3,4)] by blast
  then show "frame_inv (rs_frame st)" "frame_owned (rs_frame st)" by (simp_all add: data_inv_def)
qed

lemma dom_unsign_row: "dom (unsign_row m) = dom m"
  by (auto simp: unsign_row_def)

lemma renders_fields:
  assumes "renders r common_out item_out a"
  shows "fst ` set (res_common r) \<subseteq> set common_out" "row \<in> set (res_items r) \<Longrightarrow> fst ` set row \<subseteq> set item_out"
    "length (res_items r) = length (a_rows a)"
proof -
  have "dom (map_of (res_common r)) \<subseteq> set common_out" using assms by (simp add: renders_def)
  then show "fst ` set (res_common r) \<subseteq> set common_out" by (simp add: dom_map_of_conv_image_fst)
  have items: "map (\<lambda>row. unsign_row (map_of row)) (res_items r) = map (\<lambda>row. row |` set item_out) (a_rows a)"
    using assms by (simp add: renders_def)
  from arg_cong [OF this, of length] show "length (res_items r) = length (a_rows a)" by simp
  assume "row \<in> set (res_items r)"
  then have "unsign_row (map_of row) \<in> set (map (\<lambda>row. row |` set item_out) (a_rows a))"
    unfolding items [symmetric] by simp
  then obtain rowa where "unsign_row (map_of row) = rowa |` set item_out" by auto
  then have "dom (unsign_row (map_of row)) \<subseteq> set item_out" by (auto simp: dom_restrict)
  then show "fst ` set row \<subseteq> set item_out" by (simp add: dom_unsign_row dom_map_of_conv_image_fst)
qed

lemma execution_cases:
  assumes "execute_traced_into rj eg rq c r" "build_dag cfg ex = Inr (eg_graph eg)" "operators_ok (eg_operators eg)"
    "fm_ok (rq_common rq)" "items_ok (rq_items rq)" "validate_request rq (cg_flow_contract (eg_config eg)) = Inr ()"
  shows "\<exists>f tr st res. make_frame (cg_storage_mode (eg_config eg)) (rq_common rq) (rq_items rq) = (f, None) \<and>
    run_trace rj eg (run_start eg c f) tr st \<and> rs_done st \<and> r = (Some (res, frame_warnings (rs_frame st)), run_error st) \<and>
    renders res (fc_common_output (cg_flow_contract (eg_config eg))) (fc_item_output (cg_flow_contract (eg_config eg)))
      (frame_abs (rs_frame st))"
proof -
  obtain f where f: "make_frame (cg_storage_mode (eg_config eg)) (rq_common rq) (rq_items rq) = (f, None)" "frame_inv f" "frame_owned f"
    using make_frame_ok [OF assms(4,5)] by blast
  from assms(1) show ?thesis
  proof (cases rule: execute_traced_into.cases)
    case (ex_run f' tr st res)
    then have f': "f' = f" using f(1) by simp
    note ok = run_frame_ok [OF assms(2,3) f(2,3) ex_run(4) [unfolded f']]
    from fr.result_abs [OF ok] ex_run(6) have "renders res (fc_common_output (cg_flow_contract (eg_config eg)))
        (fc_item_output (cg_flow_contract (eg_config eg))) (frame_abs (rs_frame st))"
      unfolding project_result_def by (metis sum.inject(2))
    then show ?thesis using ex_run f' by blast
  next
    case (ex_no_result f' tr st e)
    then have "frame_inv (rs_frame st)" "frame_owned (rs_frame st)"
      using f run_frame_ok [OF assms(2,3) f(2,3)] by auto
    then show ?thesis using ex_no_result(6) fr.result_abs unfolding project_result_def by (metis Inl_Inr_False)
  qed (use assms(6) f in auto)
qed

section \<open>The properties\<close>

text \<open>
  C13: a constructed engine is ready for every operator of its configuration: the type is registered, its
  instance was made and initialised with the configuration the run will use, without the skip control
  fields; the input specification is the one of that configuration and the plan of templated parameters
  was computed from its schema.  So the errors of a missing operator or specification cannot arise in a run.
\<close>

theorem new_engine_is_ready:
  assumes "new_engine reg factory options cfg = Inr eg" and "fm_ok (cg_operators cfg)"
    and "(name, op) \<in> set (cg_operators (debug_config options cfg))"
  shows "ready_for reg factory eg name (without_skip_fields op)"
  using new_engine_parts(5) [OF assms(1,2)] assms(3) by blast

definition demo_factory :: "string \<Rightarrow> operator_config \<Rightarrow> error + unit op_fun" where
  "demo_factory t op = Inr (\<lambda>c inp out. (out, None))"

definition demo_options :: engine_options where
  "demo_options = \<lparr>eo_debug = Some True, eo_log_prefix = None\<rparr>"

lemma demo_factory_ok: "factory_ok demo_factory"
  by (auto simp: factory_ok_def demo_factory_def)

lemma demo_config_ok: "fm_ok (cg_operators demo_config)" "cg_operators demo_config \<noteq> []"
proof -
  have "let cfg = (case load_config demo_registry demo_root of Inr cfg \<Rightarrow> cfg | Inl e \<Rightarrow> undefined)
    in cg_operators cfg \<noteq> [] \<and> map fst (cg_operators cfg) = [''a'', ''b'']" by code_simp
  then show "fm_ok (cg_operators demo_config)" "cg_operators demo_config \<noteq> []"
    by (simp_all add: demo_config_def fm_ok_def Let_def)
qed

lemma demo_constructs: "\<exists>eg. new_engine demo_registry demo_factory demo_options demo_config = Inr eg"
proof -
  have "case new_engine demo_registry demo_factory demo_options
      (case load_config demo_registry demo_root of Inr cfg \<Rightarrow> cfg | Inl e \<Rightarrow> undefined) of Inr eg \<Rightarrow> True | Inl e \<Rightarrow> False"
    by code_simp
  then show ?thesis by (simp add: demo_config_def split: sum.splits)
qed

theorem new_engine_is_ready_witness:
  "\<exists>eg name op. new_engine demo_registry demo_factory demo_options demo_config = Inr eg \<and>
     ready_for demo_registry demo_factory eg name (without_skip_fields op)"
proof -
  obtain eg where eg: "new_engine demo_registry demo_factory demo_options demo_config = Inr eg" using demo_constructs by blast
  obtain name op where "(name, op) \<in> set (cg_operators (debug_config demo_options demo_config))"
    using demo_config_ok(2) by (cases "cg_operators demo_config") (auto simp: debug_config_def Let_def)
  from new_engine_is_ready [OF eg demo_config_ok(1) this] show ?thesis using eg by blast
qed

text \<open>
  C12: a valid request to a constructed engine with at least one operator always gets a result, even
  when the run fails or its caller cancels it: the run ends, and whatever it did to the frame until then
  is projected, one row per item, to fields of the flow contract's outputs only.
\<close>

theorem execute_always_projects:
  assumes "new_engine reg factory options cfg = Inr eg" and "fm_ok (cg_operators cfg)" and "ex_sequence (eg_expanded eg) \<noteq> []"
    and "factory_ok factory" and "fm_ok (rq_common rq)" "items_ok (rq_items rq)"
    and "validate_request rq (cg_flow_contract cfg) = Inr ()"
  shows "(\<exists>r. execute_traced_into rj eg rq c r) \<and>
    (\<forall>r. execute_traced_into rj eg rq c r \<longrightarrow> (\<exists>res ws err. r = (Some (res, ws), err) \<and>
       fst ` set (res_common res) \<subseteq> set (fc_common_output (cg_flow_contract cfg)) \<and>
       (\<forall>row \<in> set (res_items res). fst ` set row \<subseteq> set (fc_item_output (cg_flow_contract cfg)))))"
proof -
  note P = new_engine_parts [OF assms(1,2)]
  note ops = new_engine_operators [OF assms(1,4)]
  have valid: "validate_request rq (cg_flow_contract (eg_config eg)) = Inr ()" using assms(7) P(3) by simp
  obtain f where f: "make_frame (cg_storage_mode (eg_config eg)) (rq_common rq) (rq_items rq) = (f, None)" "frame_inv f" "frame_owned f"
    using make_frame_ok [OF assms(5,6)] by blast
  obtain tr st where run: "run_trace rj eg (run_start eg c f) tr st" "rs_done st"
    using run_exists [OF P(2) assms(3) ops f(2,3)] by blast
  have "\<exists>r. execute_traced_into rj eg rq c r"
    using fr.result_abs [OF run_frame_ok [OF P(2) ops f(2,3) run(1)]] ex_run [OF valid f(1) run]
    unfolding project_result_def by blast
  moreover have "\<exists>res ws err. r = (Some (res, ws), err) \<and>
       fst ` set (res_common res) \<subseteq> set (fc_common_output (cg_flow_contract cfg)) \<and>
       (\<forall>row \<in> set (res_items res). fst ` set row \<subseteq> set (fc_item_output (cg_flow_contract cfg)))"
    if ex: "execute_traced_into rj eg rq c r" for r
  proof -
    obtain res st where r: "r = (Some (res, frame_warnings (rs_frame st)), run_error st)"
        "renders res (fc_common_output (cg_flow_contract cfg)) (fc_item_output (cg_flow_contract cfg)) (frame_abs (rs_frame st))"
      using execution_cases [OF ex P(2) ops assms(5,6) valid] P(3) by auto
    then show ?thesis using renders_fields [OF r(2)] by blast
  qed
  ultimately show ?thesis by blast
qed

definition demo_request :: request where
  "demo_request = \<lparr>rq_common = [], rq_items = []\<rparr>"

theorem execute_always_projects_witness:
  "\<exists>eg r. new_engine demo_registry demo_factory demo_options demo_config = Inr eg \<and>
     execute_traced_into (\<lambda>_. []) eg demo_request k_not_done r \<and> fst r \<noteq> None"
proof -
  obtain eg where eg: "new_engine demo_registry demo_factory demo_options demo_config = Inr eg" using demo_constructs by blast
  have "let cfg = (case load_config demo_registry demo_root of Inr cfg \<Rightarrow> cfg | Inl e \<Rightarrow> undefined)
    in validate_request demo_request (cg_flow_contract cfg) = Inr () \<and>
       (case expand_operator_sequence (debug_config demo_options cfg) of Inr ex \<Rightarrow> ex_sequence ex \<noteq> [] | Inl e \<Rightarrow> False)"
    by code_simp
  then have ok: "validate_request demo_request (cg_flow_contract demo_config) = Inr ()" "ex_sequence (eg_expanded eg) \<noteq> []"
    using new_engine_parts(1) [OF eg demo_config_ok(1)] by (auto simp: demo_config_def [symmetric] Let_def)
  have "fm_ok (rq_common demo_request)" "items_ok (rq_items demo_request)"
    by (simp_all add: demo_request_def fm_ok_def items_ok_def)
  from execute_always_projects [OF eg demo_config_ok(1) ok(2) demo_factory_ok this ok(1)]
  show ?thesis using eg by fastforce
qed

end
