(* ===== verification/Float_Arith.thy ===== *)
theory Float_Arith
  imports Templates
begin

text \<open>
  The double arithmetic of the operators: comparison, sum, difference and quotient with one rounding
  to the nearest double, ties to even, as binary64 does in its default mode.
\<close>

section \<open>Operations\<close>

fun d_is_zero :: "double \<Rightarrow> bool" where
  "d_is_zero (DFin s q) = (q = 0)"
| "d_is_zero d = False"

fun d_neg :: "double \<Rightarrow> double" where
  "d_neg DNaN = DNaN"
| "d_neg (DInf s) = DInf (\<not> s)"
| "d_neg (DFin s q) = DFin (\<not> s) q"

text \<open>An exact zero sum is negative only when both summands are.\<close>

fun d_add :: "double \<Rightarrow> double \<Rightarrow> double" where
  "d_add DNaN b = DNaN"
| "d_add a DNaN = DNaN"
| "d_add (DInf s) (DInf t) = (if s = t then DInf s else DNaN)"
| "d_add (DInf s) (DFin t r) = DInf s"
| "d_add (DFin s q) (DInf t) = DInf t"
| "d_add (DFin s q) (DFin t r) =
     (let x = dval (DFin s q) + dval (DFin t r)
      in if x = 0 then DFin (s \<and> t \<and> q = 0) 0 else nearest (x < 0) \<bar>x\<bar>)"

definition d_sub :: "double \<Rightarrow> double \<Rightarrow> double" where
  "d_sub a b = d_add a (d_neg b)"

fun d_div :: "double \<Rightarrow> double \<Rightarrow> double" where
  "d_div DNaN b = DNaN"
| "d_div a DNaN = DNaN"
| "d_div (DInf s) (DInf t) = DNaN"
| "d_div (DInf s) (DFin t r) = DInf (s \<noteq> t)"
| "d_div (DFin s q) (DInf t) = DFin (s \<noteq> t) 0"
| "d_div (DFin s q) (DFin t r) =
     (if r = 0 then (if q = 0 then DNaN else DInf (s \<noteq> t)) else nearest (s \<noteq> t) (q / r))"

section \<open>Sorting\<close>

text \<open>
  \<open>std::stable_sort\<close>, and \<open>std::sort\<close> where the comparator leaves no two elements equivalent: both
  have one possible result.
\<close>

fun insert_by :: "('a \<Rightarrow> 'a \<Rightarrow> bool) \<Rightarrow> 'a \<Rightarrow> 'a list \<Rightarrow> 'a list" where
  "insert_by lt x [] = [x]"
| "insert_by lt x (y # ys) = (if lt y x then y # insert_by lt x ys else x # y # ys)"

definition sort_by :: "('a \<Rightarrow> 'a \<Rightarrow> bool) \<Rightarrow> 'a list \<Rightarrow> 'a list" where
  "sort_by lt xs = foldr (insert_by lt) xs []"

text \<open>\<open>std::min_element\<close> and \<open>std::max_element\<close>: the first of the smallest, the first of the largest.\<close>

fun min_element :: "double \<Rightarrow> double list \<Rightarrow> double" where
  "min_element best [] = best"
| "min_element best (x # xs) = min_element (if d_lt x best then x else best) xs"

fun max_element :: "double \<Rightarrow> double list \<Rightarrow> double" where
  "max_element best [] = best"
| "max_element best (x # xs) = max_element (if d_lt best x then x else best) xs"

end
