(* ===== verification/Row_Operators.thy ===== *)
theory Row_Operators
  imports Float_Arith Markers Engine_Checks
begin

text \<open>
  The built-in operators that recall, filter, merge and reorder items (\<open>operators/recall\<close>,
  \<open>operators/filter\<close>, \<open>operators/merge\<close>, \<open>operators/reorder\<close>): for each the members its \<open>init\<close>
  computes from the configuration, and its \<open>execute\<close>.  The only part of the context they use is
  the map \<open>resources()\<close> returns.  A \<open>static_cast<int>\<close> of a number that no \<open>int\<close> holds and an
  overflow of \<open>int\<close> are undefined in the source; here they give what x86-64 gives.  The number of items
  of a frame is an \<open>int\<close>.
\<close>

type_synonym builtin_fun = "object option op_fun"

definition vec_at :: "'a list \<Rightarrow> nat \<Rightarrow> error + 'a" where
  "vec_at xs i = (if i < length xs then Inr (xs ! i) else Inl (StdException ''vector::_M_range_check''))"

definition fm_at :: "'v flat_map \<Rightarrow> string \<Rightarrow> error + 'v" where
  "fm_at es key = (case fm_find es key of Some v \<Rightarrow> Inr v | None \<Rightarrow> Inl (StdException ''FlatMap::at: key not found''))"

definition exec_failure :: "string \<Rightarrow> error" where
  "exec_failure msg = ExecutionError None msg"

definition throws :: "error \<Rightarrow> operator_output \<Rightarrow> (operator_output, thrown) outcome" where
  "throws e out = (out, Some (Typed e))"

definition remove_where :: "(nat \<Rightarrow> variant \<Rightarrow> bool) \<Rightarrow> variant list \<Rightarrow> operator_output \<Rightarrow> operator_output" where
  "remove_where p col out = fold (\<lambda>(i, v) out. if p i v then remove_item (int i) out else out) (enumerate 0 col) out"

unbundle bit_operations_syntax

section \<open>Filters\<close>

record filter_condition_op =
  fcond_target :: string
  fcond_field :: string

definition filter_condition_init :: "operator_config \<Rightarrow> error + filter_condition_op" where
  "filter_condition_init op =
     rbind (as_object (oc_params op)) (\<lambda>ps.
     case fm_find ps ''value'' of
       None \<Rightarrow> Inl (exec_failure (''filter_condition: missing required param '' @ [CHR 0x27] @ ''value'' @ [CHR 0x27]))
     | Some v \<Rightarrow> rbind (vec_at (item_input (oc_metadata op)) 0) (\<lambda>field.
         Inr \<lparr>fcond_target = sprint_value v, fcond_field = field\<rparr>))"

definition filter_condition_execute :: "filter_condition_op \<Rightarrow> builtin_fun" where
  "filter_condition_execute m ctx inp out =
     (remove_where (\<lambda>i v. sprint_value v = fcond_target m) (in_item_column inp (fcond_field m)) out, None)"

record filter_paginate_op =
  fpag_page_field :: string
  fpag_size_field :: string

definition filter_paginate_init :: "operator_config \<Rightarrow> error + filter_paginate_op" where
  "filter_paginate_init op =
     rbind (vec_at (common_input (oc_metadata op)) 0) (\<lambda>page.
     rbind (vec_at (common_input (oc_metadata op)) 1) (\<lambda>sz.
     Inr \<lparr>fpag_page_field = page, fpag_size_field = sz\<rparr>))"

fun to_int :: "variant \<Rightarrow> int" where
  "to_int (VNum d) = d_to_int d"
| "to_int v = 0"

definition page_window :: "int \<Rightarrow> int \<Rightarrow> int \<Rightarrow> int \<times> int" where
  "page_window page sz n =
     (let sz = (if sz \<le> 0 then 10 else sz); page = (if page < 0 then 0 else page);
          start = int_wrap (page * sz); last = int_wrap (start + sz)
      in (start, if last > n then n else last))"

definition filter_paginate_execute :: "filter_paginate_op \<Rightarrow> builtin_fun" where
  "filter_paginate_execute m ctx inp out =
     (let n = in_item_count inp
      in if n = 0 then (out, None)
         else let (start, last) = page_window (to_int (in_common inp (fpag_page_field m)))
                    (to_int (in_common inp (fpag_size_field m))) (int n)
              in (fold (\<lambda>i out. if int i < start \<or> int i \<ge> last then remove_item (int i) out else out) [0..<n] out, None))"

definition negative_top_n :: "int \<Rightarrow> error" where
  "negative_top_n n = exec_failure (''filter_truncate: top_n must be non-negative, got '' @ string_of_int n)"

definition filter_truncate_init :: "operator_config \<Rightarrow> error + int" where
  "filter_truncate_init op =
     rbind (as_object (oc_params op)) (\<lambda>ps.
     rbind (fm_at ps ''top_n'') (\<lambda>tp.
     rbind (case tp of
              VNum d \<Rightarrow> Inr (d_to_int d)
            | VStr s \<Rightarrow> if \<not> is_bare_marker s then Inl (exec_failure ''filter_truncate: top_n must be numeric'') else Inr 0
            | _ \<Rightarrow> Inl (exec_failure ''filter_truncate: top_n must be numeric'')) (\<lambda>top_n.
     if top_n < 0 then Inl (negative_top_n top_n) else Inr top_n)))"

definition filter_truncate_execute :: "int \<Rightarrow> builtin_fun" where
  "filter_truncate_execute m ctx inp out =
     (let top_n = (case in_templated_param inp ''top_n'' of VNum d \<Rightarrow> d_to_int d | _ \<Rightarrow> m)
      in if top_n < 0 then throws (negative_top_n top_n) out
         else (fold (\<lambda>i. remove_item (int i)) [nat top_n..<in_item_count inp] out, None))"

section \<open>Merge\<close>

definition merge_dedup_init :: "operator_config \<Rightarrow> error + string" where
  "merge_dedup_init op = vec_at (item_input (oc_metadata op)) 0"

fun dedup_loop :: "(variant \<Rightarrow> string) \<Rightarrow> string list \<Rightarrow> nat \<Rightarrow> variant list \<Rightarrow> operator_output \<Rightarrow> operator_output" where
  "dedup_loop key seen i [] out = out"
| "dedup_loop key seen i (v # vs) out =
     (if key v \<in> set seen then dedup_loop key seen (Suc i) vs (remove_item (int i) out)
      else dedup_loop key (key v # seen) (Suc i) vs out)"

definition merge_dedup_execute :: "(writer_call list \<Rightarrow> string) \<Rightarrow> string \<Rightarrow> builtin_fun" where
  "merge_dedup_execute rj field ctx inp out = (dedup_loop (dedup_key rj) [] 0 (in_item_column inp field) out, None)"

section \<open>Recall\<close>

text \<open>\<open>row[key] = value\<close> over the entries of an object.\<close>

definition copy_object :: "object \<Rightarrow> object" where
  "copy_object ob = fold (\<lambda>(key, v). fm_set key v) ob []"

record recall_static_op =
  rstat_items :: "object list"
  rstat_set_common :: object

definition recall_static_init :: "operator_config \<Rightarrow> error + recall_static_op" where
  "recall_static_init op =
     rbind (as_object (oc_params op)) (\<lambda>ps.
     rbind (fm_at ps ''items'') (\<lambda>its.
     rbind (as_array its) (\<lambda>its.
     rbind (rmap (\<lambda>it. rbind (as_object it) (\<lambda>ob. Inr (copy_object ob))) its) (\<lambda>rows.
     case fm_find ps ''set_common'' of
       None \<Rightarrow> Inr \<lparr>rstat_items = rows, rstat_set_common = []\<rparr>
     | Some VNull \<Rightarrow> Inr \<lparr>rstat_items = rows, rstat_set_common = []\<rparr>
     | Some (VObj ob) \<Rightarrow> Inr \<lparr>rstat_items = rows, rstat_set_common = copy_object ob\<rparr>
     | Some v \<Rightarrow> Inl (RegistryError (Some (oc_name op))
                    (''recall_static: '' @ [CHR 0x27] @ ''set_common'' @ [CHR 0x27] @ '' must be a JSON object, got '' @
                     json_type_name v))))))"

definition recall_static_execute :: "recall_static_op \<Rightarrow> builtin_fun" where
  "recall_static_execute m ctx inp out =
     (fold add_item (rstat_items m) (fold (\<lambda>(key, v). set_common key v) (rstat_set_common m) out), None)"

definition recall_resource_init :: "operator_config \<Rightarrow> error + string" where
  "recall_resource_init op =
     rbind (as_object (oc_params op)) (\<lambda>ps.
     case fm_find ps ''resource_name'' of
       Some (VStr s) \<Rightarrow> Inr s
     | _ \<Rightarrow> Inl (exec_failure ''recall_resource: missing resource_name''))"

definition recall_resource_execute :: "string \<Rightarrow> builtin_fun" where
  "recall_resource_execute name resources inp out =
     (case resources of
        None \<Rightarrow> throws (exec_failure ''recall_resource: no resource provider in context'') out
      | Some rs \<Rightarrow>
          case fm_find rs name of
            None \<Rightarrow> throws (exec_failure (''recall_resource: resource '' @ quoted name @ '' not found'')) out
          | Some (VArr elems) \<Rightarrow>
              for_each (\<lambda>(i, elem) out.
                  case elem of
                    VObj ob \<Rightarrow> (add_item (copy_object ob) out, None)
                  | _ \<Rightarrow> throws (exec_failure (''recall_resource: items['' @ string_of_nat i @ ''] is '' @
                            json_type_name elem @ '', want map[string]any'')) out)
                (enumerate 0 elems) out
          | Some resource \<Rightarrow> throws (exec_failure (''recall_resource: resource '' @ quoted name @ '' is '' @
                  json_type_name resource @ '', want []map[string]any'')) out)"

section \<open>Reorder\<close>

text \<open>The loop that reads the numbers of a column, shared by two operators.\<close>

definition number_error :: "string \<Rightarrow> string \<Rightarrow> nat \<Rightarrow> string \<Rightarrow> error" where
  "number_error op field i msg = exec_failure (op @ '': item['' @ string_of_nat i @ ''].'' @ field @ '': '' @ msg)"

definition read_number :: "string \<Rightarrow> string \<Rightarrow> nat \<Rightarrow> variant \<Rightarrow> error + double" where
  "read_number op field i v =
     (if is_null v
      then Inl (number_error op field i (''required field '' @ quoted field @ '' is nil on item['' @ string_of_nat i @ '']''))
      else case to_double v of Inl e \<Rightarrow> Inl (number_error op field i (what e)) | Inr d \<Rightarrow> Inr d)"

definition read_numbers :: "string \<Rightarrow> string \<Rightarrow> variant list \<Rightarrow> error + double list" where
  "read_numbers op field col = rmap (\<lambda>(i, v). read_number op field i v) (enumerate 0 col)"

record reorder_sort_op =
  rsort_field :: string
  rsort_order :: string

definition reorder_sort_init :: "operator_config \<Rightarrow> error + reorder_sort_op" where
  "reorder_sort_init op =
     (case item_input (oc_metadata op) of
        [] \<Rightarrow> Inl (exec_failure ''reorder_sort requires item_input field'')
      | field # _ \<Rightarrow>
          rbind (as_object (oc_params op)) (\<lambda>ps.
          rbind (case fm_find ps ''order'' of None \<Rightarrow> Inr ''desc'' | Some v \<Rightarrow> as_string v) (\<lambda>order.
          Inr \<lparr>rsort_field = field, rsort_order = order\<rparr>)))"

definition sorted_indices :: "('a \<Rightarrow> 'a \<Rightarrow> bool) \<Rightarrow> 'a list \<Rightarrow> int list" where
  "sorted_indices lt vs = map (\<lambda>(i, v). int i) (sort_by (\<lambda>a b. lt (snd a) (snd b)) (enumerate 0 vs))"

definition reorder_sort_execute :: "reorder_sort_op \<Rightarrow> builtin_fun" where
  "reorder_sort_execute m ctx inp out =
     (if in_item_count inp = 0 then (out, None)
      else case read_numbers ''reorder_sort'' (rsort_field m) (in_item_column inp (rsort_field m)) of
        Inl e \<Rightarrow> throws e out
      | Inr vs \<Rightarrow>
          if rsort_order m = ''asc'' then (set_item_order (sorted_indices d_lt vs) out, None)
          else if rsort_order m = ''desc'' then (set_item_order (sorted_indices (\<lambda>a b. d_lt b a) vs) out, None)
          else throws (exec_failure (''reorder_sort: unsupported order '' @ quoted (rsort_order m))) out)"

text \<open>\<open>fnv64a\<close>, on bytes; the multiplication wraps.\<close>

definition fnv64a :: "string \<Rightarrow> 64 word" where
  "fnv64a s = fold (\<lambda>c hash. (hash XOR of_nat (of_char c)) * 1099511628211) s 14695981039346656037"

definition parse_uint64 :: "string \<Rightarrow> nat" where
  "parse_uint64 s = (let n = nat_of_digits (takeWhile is_digit s) in if n < 2 ^ 64 then n else 0)"

definition hash_unit :: "64 word \<Rightarrow> double" where
  "hash_unit h = d_div (nearest False (of_nat (unat h)))
     (d_add (nearest False (of_nat (2 ^ 64 - 1))) (DFin False 1))"

record shuffle_op =
  rshuf_common_inputs :: "string list"
  rshuf_item_field :: string

definition shuffle_init :: "operator_config \<Rightarrow> error + shuffle_op" where
  "shuffle_init op =
     rbind (vec_at (item_input (oc_metadata op)) 0) (\<lambda>field.
     Inr \<lparr>rshuf_common_inputs = common_input (oc_metadata op), rshuf_item_field = field\<rparr>)"

definition shuffle_salt :: "(writer_call list \<Rightarrow> string) \<Rightarrow> string list \<Rightarrow> operator_input \<Rightarrow> string" where
  "shuffle_salt rj names inp = join ''|'' (map (\<lambda>f. any_to_string rj (in_common inp f)) names) @ ''|''"

definition shuffle_rank :: "(writer_call list \<Rightarrow> string) \<Rightarrow> string \<Rightarrow> nat \<times> variant \<Rightarrow> nat \<times> double \<times> nat" where
  "shuffle_rank rj salt iv =
     (let item_val = any_to_string rj (snd iv)
      in (fst iv, hash_unit (fnv64a (salt @ item_val)), parse_uint64 item_val))"

fun ranked_before :: "nat \<times> double \<times> nat \<Rightarrow> nat \<times> double \<times> nat \<Rightarrow> bool" where
  "ranked_before (i, r, n) (i', r', n') =
     (if d_lt r r' \<or> d_lt r' r then d_lt r r' else if n \<noteq> n' then n < n' else i < i')"

definition shuffle_execute :: "(writer_call list \<Rightarrow> string) \<Rightarrow> shuffle_op \<Rightarrow> builtin_fun" where
  "shuffle_execute rj m ctx inp out =
     (if in_item_count inp = 0 then (out, None)
      else let salt = shuffle_salt rj (rshuf_common_inputs m) inp;
               ranked = map (shuffle_rank rj salt) (enumerate 0 (in_item_column inp (rshuf_item_field m)))
           in (set_item_order (map (int \<circ> fst) (sort_by ranked_before ranked)) out, None))"

end
