(* ===== verification/Field_Operators.thy ===== *)
theory Field_Operators
  imports Row_Operators Registry
begin

text \<open>
  The built-in operators that write fields or observe (\<open>operators/transform\<close>, \<open>operators/observe\<close>),
  and the table of the built-in operators: their schemas, their traits and the factory that makes
  and initialises an instance.  The operators that talk to Lua, Redis or another server and the
  sleeping benchmark operator are not modelled.
\<close>

section \<open>Transforms\<close>

record transform_copy_op =
  tcopy_direction :: string
  tcopy_skip :: "string list"
  tcopy_common_input :: "string list"
  tcopy_common_output :: "string list"
  tcopy_item_input :: "string list"
  tcopy_item_output :: "string list"

definition transform_copy_init :: "operator_config \<Rightarrow> error + transform_copy_op" where
  "transform_copy_init op =
     rbind (as_object (oc_params op)) (\<lambda>ps.
     rbind (fm_at ps ''direction'') (\<lambda>d.
     rbind (as_string d) (\<lambda>direction.
     Inr \<lparr>tcopy_direction = direction, tcopy_skip = oc_skip op,
         tcopy_common_input = common_input (oc_metadata op), tcopy_common_output = common_output (oc_metadata op),
         tcopy_item_input = item_input (oc_metadata op), tcopy_item_output = item_output (oc_metadata op)\<rparr>)))"

definition active_inputs :: "transform_copy_op \<Rightarrow> string list \<Rightarrow> string list" where
  "active_inputs m src_list = filter (\<lambda>f. f \<notin> set (tcopy_skip m)) src_list"

text \<open>One loop per direction: the \<open>i\<close>-th active input goes to the \<open>i\<close>-th output, which must exist.\<close>

definition copy_each ::
  "(string \<Rightarrow> string \<Rightarrow> operator_output \<Rightarrow> operator_output) \<Rightarrow> string list \<Rightarrow> string list \<Rightarrow> operator_output \<Rightarrow>
   (operator_output, thrown) outcome" where
  "copy_each put srcs dsts out =
     for_each (\<lambda>(i, src) out. case vec_at dsts i of Inl e \<Rightarrow> throws e out | Inr dst \<Rightarrow> (put src dst out, None))
       (enumerate 0 srcs) out"

definition write_column :: "string \<Rightarrow> variant list \<Rightarrow> operator_output \<Rightarrow> operator_output" where
  "write_column dst col out = fold (\<lambda>(j, v). set_item (int j) dst v) (enumerate 0 col) out"

definition transform_copy_execute :: "transform_copy_op \<Rightarrow> builtin_fun" where
  "transform_copy_execute m ctx inp out =
     (if tcopy_direction m = ''common_to_item''
      then copy_each (\<lambda>src dst. write_column dst (replicate (in_item_count inp) (in_common inp src)))
             (active_inputs m (tcopy_common_input m)) (tcopy_item_output m) out
      else if tcopy_direction m = ''common_to_common''
      then copy_each (\<lambda>src dst. set_common dst (in_common inp src))
             (active_inputs m (tcopy_common_input m)) (tcopy_common_output m) out
      else if tcopy_direction m = ''item_to_item''
      then copy_each (\<lambda>src dst. write_column dst (in_item_column inp src))
             (active_inputs m (tcopy_item_input m)) (tcopy_item_output m) out
      else if tcopy_direction m = ''item_to_common''
      then copy_each (\<lambda>src dst. set_common dst (VArr (in_item_column inp src)))
             (active_inputs m (tcopy_item_input m)) (tcopy_common_output m) out
      else throws (exec_failure (''transform_copy: unsupported direction '' @ quoted (tcopy_direction m))) out)"

record transform_dispatch_op =
  tdisp_src :: string
  tdisp_dst :: string

definition transform_dispatch_init :: "operator_config \<Rightarrow> error + transform_dispatch_op" where
  "transform_dispatch_init op =
     rbind (vec_at (common_input (oc_metadata op)) 0) (\<lambda>src.
     rbind (vec_at (item_output (oc_metadata op)) 0) (\<lambda>dst.
     Inr \<lparr>tdisp_src = src, tdisp_dst = dst\<rparr>))"

definition transform_dispatch_execute :: "transform_dispatch_op \<Rightarrow> builtin_fun" where
  "transform_dispatch_execute m ctx inp out =
     (let v = in_common inp (tdisp_src m)
      in (fold (\<lambda>j. set_item (int j) (tdisp_dst m) v) [0..<in_item_count inp] out, None))"

record transform_normalize_op =
  tnorm_op_name :: string
  tnorm_item_input :: "string list"
  tnorm_item_output :: "string list"

definition transform_normalize_init :: "operator_config \<Rightarrow> error + transform_normalize_op" where
  "transform_normalize_init op =
     rbind (as_object (oc_params op)) (\<lambda>ps.
     rbind (case fm_find ps ''method'' of
              None \<Rightarrow> Inr ''min_max''
            | Some v \<Rightarrow> if is_null v then Inr ''min_max'' else as_string v) (\<lambda>how.
     if how \<noteq> ''min_max'' then Inl (RegistryError (Some (oc_name op)) (''unsupported method '' @ quoted how))
     else Inr \<lparr>tnorm_op_name = oc_name op, tnorm_item_input = item_input (oc_metadata op),
              tnorm_item_output = item_output (oc_metadata op)\<rparr>))"

definition min_max_normalized :: "double list \<Rightarrow> double list" where
  "min_max_normalized vals =
     (let minv = min_element (hd vals) (tl vals); maxv = max_element (hd vals) (tl vals); rng = d_sub maxv minv
      in if \<not> d_is_zero rng then map (\<lambda>v. d_div (d_sub v minv) rng) vals else map (\<lambda>_. DFin False 0) vals)"

definition transform_normalize_execute :: "transform_normalize_op \<Rightarrow> builtin_fun" where
  "transform_normalize_execute m ctx inp out =
     (if in_item_count inp = 0 then (out, None)
      else case (tnorm_item_input m, tnorm_item_output m) of
        ([], _) \<Rightarrow> throws (ExecutionError (Some (tnorm_op_name m)) ''transform_normalize: item_input is empty'') out
      | (_, []) \<Rightarrow> throws (ExecutionError (Some (tnorm_op_name m)) ''transform_normalize: item_output is empty'') out
      | (field # _, out_field # _) \<Rightarrow>
          case read_numbers ''transform_normalize'' field (in_item_column inp field) of
            Inl e \<Rightarrow> throws e out
          | Inr vals \<Rightarrow> (set_item_column_double out_field (min_max_normalized vals) out, None))"

definition transform_size_init :: "operator_config \<Rightarrow> error + string" where
  "transform_size_init op = vec_at (common_output (oc_metadata op)) 0"

definition transform_size_execute :: "string \<Rightarrow> builtin_fun" where
  "transform_size_execute out_field ctx inp out =
     (set_common out_field (VNum (double_of_int (int (in_item_count inp)))) out, None)"

record resource_lookup_op =
  tlook_resource_name :: string
  tlook_lookup_key :: string
  tlook_output_field :: string
  tlook_default :: "variant option"

definition string_param :: "string \<Rightarrow> object \<Rightarrow> error + string" where
  "string_param key ps =
     (case fm_find ps key of
        Some (VStr s) \<Rightarrow> Inr s
      | _ \<Rightarrow> Inl (exec_failure (''transform_resource_lookup: missing '' @ key)))"

definition resource_lookup_init :: "operator_config \<Rightarrow> error + resource_lookup_op" where
  "resource_lookup_init op =
     rbind (as_object (oc_params op)) (\<lambda>ps.
     rbind (string_param ''resource_name'' ps) (\<lambda>resource_name.
     rbind (string_param ''lookup_key'' ps) (\<lambda>lookup_key.
     rbind (string_param ''output_field'' ps) (\<lambda>output_field.
     Inr \<lparr>tlook_resource_name = resource_name, tlook_lookup_key = lookup_key, tlook_output_field = output_field,
         tlook_default = fm_find ps ''default_value''\<rparr>))))"

definition lookup_key_of :: "variant \<Rightarrow> string" where
  "lookup_key_of v = (case v of VStr s \<Rightarrow> s | VNum d \<Rightarrow> go_format_lookup_key d | _ \<Rightarrow> sprint_value v)"

text \<open>What the loop writes for one value of the key column, if anything.\<close>

definition looked_up :: "resource_lookup_op \<Rightarrow> object \<Rightarrow> variant \<Rightarrow> variant option" where
  "looked_up m table field_val =
     (if is_null field_val then tlook_default m
      else case fm_find table (lookup_key_of field_val) of Some v \<Rightarrow> Some v | None \<Rightarrow> tlook_default m)"

definition resource_lookup_execute :: "resource_lookup_op \<Rightarrow> builtin_fun" where
  "resource_lookup_execute m resources inp out =
     (let name = tlook_resource_name m
      in case resources of
           None \<Rightarrow> throws (exec_failure ''transform_resource_lookup: no resource provider in context'') out
         | Some rs \<Rightarrow>
             case fm_find rs name of
               None \<Rightarrow> throws (exec_failure (''transform_resource_lookup: resource '' @ quoted name @ '' not found'')) out
             | Some (VObj table) \<Rightarrow>
                 (fold (\<lambda>(i, field_val) out.
                      case looked_up m table field_val of
                        Some v \<Rightarrow> set_item (int i) (tlook_output_field m) v out
                      | None \<Rightarrow> out)
                    (enumerate 0 (in_item_column inp (tlook_lookup_key m))) out, None)
             | Some resource \<Rightarrow> throws (exec_failure (''transform_resource_lookup: resource '' @ quoted name @ '' is '' @
                     json_type_name resource @ '', want map[string]any'')) out)"

text \<open>The CPU benchmark: \<open>fib(32)\<close> fits an \<open>int64_t\<close>.\<close>

fun fib_loop :: "nat \<Rightarrow> int \<Rightarrow> int \<Rightarrow> int" where
  "fib_loop 0 a b = b"
| "fib_loop (Suc k) a b = fib_loop k b (a + b)"

definition fib :: "nat \<Rightarrow> int" where
  "fib n = (if n \<le> 1 then int n else fib_loop (n - 1) 0 1)"

definition cpu_work :: "int \<Rightarrow> double" where
  "cpu_work iterations =
     ((\<lambda>acc. d_div (d_add acc (double_of_int (fib 32))) (nearest False (1000001 / 1000000))) ^^ nat iterations)
       (DFin False 0)"

definition bench_cpu_init :: "operator_config \<Rightarrow> error + int" where
  "bench_cpu_init op =
     rbind (as_object (oc_params op)) (\<lambda>ps.
     Inr (case fm_find ps ''iterations'' of Some (VNum d) \<Rightarrow> d_to_int d | _ \<Rightarrow> 100))"

definition bench_cpu_execute :: "int \<Rightarrow> builtin_fun" where
  "bench_cpu_execute iterations ctx inp out =
     (fold (\<lambda>i. set_item (int i) ''_bench_result'' (VNum (cpu_work iterations))) [0..<in_item_count inp] out, None)"

section \<open>Observation\<close>

record observe_log_op =
  olog_prefix :: string
  olog_common_input :: "string list"
  olog_item_input :: "string list"

definition observe_log_init :: "operator_config \<Rightarrow> error + observe_log_op" where
  "observe_log_init op =
     rbind (as_object (oc_params op)) (\<lambda>ps.
     rbind (case fm_find ps ''log_prefix'' of
              None \<Rightarrow> Inr []
            | Some v \<Rightarrow> if is_null v then Inr [] else as_string v) (\<lambda>prefix.
     Inr \<lparr>olog_prefix = prefix, olog_common_input = common_input (oc_metadata op),
         olog_item_input = item_input (oc_metadata op)\<rparr>))"

definition observed_snapshot :: "observe_log_op \<Rightarrow> operator_input \<Rightarrow> object" where
  "observed_snapshot m inp =
     set_when (olog_item_input m \<noteq> [] \<and> in_item_count inp > 0) ''items''
       (VArr (map (\<lambda>i. VObj (fold (\<lambda>k row. fm_set k (in_item_column inp k ! i) row) (olog_item_input m) []))
          [0..<in_item_count inp]))
       (set_when (olog_common_input m \<noteq> []) ''common''
          (VObj (fold (\<lambda>k ob. fm_set k (in_common inp k) ob) (olog_common_input m) [])) [])"

text \<open>The line the operator logs; its text has no effect on the run.\<close>

definition observe_log_line ::
  "(writer_call list \<Rightarrow> string) \<Rightarrow> string \<Rightarrow> observe_log_op \<Rightarrow> operator_input \<Rightarrow> string" where
  "observe_log_line rj engine_prefix m inp =
     (let json = compact_json rj (VObj (observed_snapshot m inp));
          txt = rev (dropWhile (\<lambda>c. c = CHR 0x0A) (rev json))
      in engine_prefix @ ''[observe_log] '' @ (if olog_prefix m \<noteq> [] then olog_prefix m @ '' '' else []) @ txt)"

definition observe_log_execute :: "observe_log_op \<Rightarrow> builtin_fun" where
  "observe_log_execute m ctx inp out = (out, None)"

end
