(* ===== verification/Builtins.thy ===== *)
theory Builtins
  imports Field_Operators
begin

text \<open>
  The table of the built-in operators: the schema each file passes to \<open>PINE_REGISTER_OPERATOR_T\<close>
  (without the documentation strings of the metadata contract), the traits its class derives from,
  and the factory.  All twenty operators of the library are registered; the table of factories has the fifteen that
  need no connection, no timer and no interpreter, and those of the other five are an argument.  The registrations run before \<open>main\<close>, in an order that does not matter.
\<close>

section \<open>Schemas\<close>

definition param_doc :: "string \<Rightarrow> bool \<Rightarrow> variant \<Rightarrow> string \<Rightarrow> bool \<Rightarrow> param_schema" where
  "param_doc ty req dflt descr templatable =
     \<lparr>ps_type = ty, ps_required = req, ps_default = dflt, ps_description = descr, ps_templatable = templatable\<rparr>"

definition k_filter_condition_schema :: operator_schema where
  "k_filter_condition_schema =
     \<lparr>os_name = ''filter_condition'', os_type = Filter,
      os_description = ''Removes items where a specified field equals a given value.'',
      os_params =
         [(''value'', param_doc ''any'' True VNull
             ''Items where field == value are removed.'' False)]\<rparr>"

definition k_filter_paginate_schema :: operator_schema where
  "k_filter_paginate_schema =
     \<lparr>os_name = ''filter_paginate'', os_type = Filter,
      os_description = ''Keeps only items in the [page*size, page*size+size) range, removes the rest.'',
      os_params =
         []\<rparr>"

definition k_filter_truncate_schema :: operator_schema where
  "k_filter_truncate_schema =
     \<lparr>os_name = ''filter_truncate'', os_type = Filter,
      os_description = ''Keeps only the first N items, removing the rest.'',
      os_params =
         [(''top_n'', param_doc ''int64'' True VNull
             ''Number of items to keep. Supports {{field}} interpolation.'' True)]\<rparr>"

definition k_merge_dedup_schema :: operator_schema where
  "k_merge_dedup_schema =
     \<lparr>os_name = ''merge_dedup'', os_type = Merge,
      os_description = ''Deduplicates items by a key field, keeping the first occurrence.'',
      os_params =
         [(''strategy'', param_doc ''string'' False (VStr ''first'')
             (''Dedup strategy '' @ [CHR 0xE2, CHR 0x80, CHR 0x94] @ '' '' @ [CHR 0x22] @ ''first'' @ [CHR 0x22] @ '' keeps first occurrence.'') False)]\<rparr>"

definition k_observe_log_schema :: operator_schema where
  "k_observe_log_schema =
     \<lparr>os_name = ''observe_log'', os_type = Observe,
      os_description = (''Reads declared input fields and writes them to the engine'' @ [CHR 0x27] @ ''s logger. This is a read-only operator: it produces no output fields and does not modify the DataFrame. It is exempt from dead-code detection.''),
      os_params =
         [(''log_prefix'', param_doc ''string'' False (VStr [])
             ''Prefix prepended to each log line.'' False)]\<rparr>"

definition k_recall_resource_schema :: operator_schema where
  "k_recall_resource_schema =
     \<lparr>os_name = ''recall_resource'', os_type = Recall,
      os_description = ''Recalls items from a named resource.'',
      os_params =
         [(''resource_name'', param_doc ''string'' True VNull
             ''Name of the resource to read.'' False)]\<rparr>"

definition k_recall_static_schema :: operator_schema where
  "k_recall_static_schema =
     \<lparr>os_name = ''recall_static'', os_type = Recall,
      os_description = ''Emits a configurable static set of items for testing and validation.'',
      os_params =
         [(''items'', param_doc ''any'' True VNull
             ''JSON array of item maps to emit as candidates.'' False),
          (''set_common'', param_doc ''any'' False VNull
             ''JSON object of common fields the recall writes.'' False)]\<rparr>"

definition k_reorder_shuffle_by_salt_schema :: operator_schema where
  "k_reorder_shuffle_by_salt_schema =
     \<lparr>os_name = ''reorder_shuffle_by_salt'', os_type = Reorder,
      os_description = ''Deterministic hash-based shuffle using a caller-provided salt.'',
      os_params =
         []\<rparr>"

definition k_reorder_sort_schema :: operator_schema where
  "k_reorder_sort_schema =
     \<lparr>os_name = ''reorder_sort'', os_type = Reorder,
      os_description = ''Sorts items by a numeric field in ascending or descending order.'',
      os_params =
         [(''order'', param_doc ''string'' False (VStr ''desc'')
             (''Sort direction '' @ [CHR 0xE2, CHR 0x80, CHR 0x94] @ '' '' @ [CHR 0x22] @ ''asc'' @ [CHR 0x22] @ '' or '' @ [CHR 0x22] @ ''desc'' @ [CHR 0x22] @ ''.'') False)]\<rparr>"

definition k_transform_bench_cpu_schema :: operator_schema where
  "k_transform_bench_cpu_schema =
     \<lparr>os_name = ''transform_bench_cpu'', os_type = Transform,
      os_description = ''Benchmark-only CPU-bound operator. Computes iterative fib per item. Not available in pine-python.'',
      os_params =
         [(''iterations'', param_doc ''int'' False (VNum (DFin False 100))
             ''Number of fib(32) computations per item.'' False)]\<rparr>"

definition k_transform_bench_sleep_schema :: operator_schema where
  "k_transform_bench_sleep_schema =
     \<lparr>os_name = ''transform_bench_sleep'', os_type = Transform,
      os_description = ''Benchmark-only I/O-simulating operator. Sleeps for delay_ms per invocation. Not available in pine-python.'',
      os_params =
         [(''delay_ms'', param_doc ''int'' False (VNum (DFin False 5))
             ''Milliseconds to sleep per operator invocation.'' False)]\<rparr>"

definition k_transform_by_lua_schema :: operator_schema where
  "k_transform_by_lua_schema =
     \<lparr>os_name = ''transform_by_lua'', os_type = Transform,
      os_description = ''Executes a Lua script for per-item or per-common computation.'',
      os_params =
         [(''function_for_common'', param_doc ''string'' False (VStr [])
             ''Function name to call once for all items.'' False),
          (''function_for_item'', param_doc ''string'' False (VStr [])
             ''Function name to call per item.'' False),
          (''lua_script'', param_doc ''string'' True VNull
             ''Lua source code defining the function to call.'' False)]\<rparr>"

definition k_transform_by_remote_pineapple_schema :: operator_schema where
  "k_transform_by_remote_pineapple_schema =
     \<lparr>os_name = ''transform_by_remote_pineapple'', os_type = Transform,
      os_description = ''Calls a downstream Pineapple service and maps response fields back to the local frame.'',
      os_params =
         [(''allow_private'', param_doc ''bool'' False (VBool False)
             ''Allow connections to private/loopback addresses (dev/internal use).'' False),
          (''common_request'', param_doc ''any'' False VNull
             ''Downstream common field names, positionally mapped to common_input.'' False),
          (''common_response'', param_doc ''any'' False VNull
             ''Downstream common response field names, positionally mapped to common_output.'' False),
          (''endpoint'', param_doc ''string'' False (VStr ''/execute'')
             ''Downstream endpoint path.'' False),
          (''fail_on_error'', param_doc ''bool'' False (VBool True)
             ''true=fatal on downstream error; false=warning and skip.'' False),
          (''host'', param_doc ''string'' True VNull
             ''Downstream service host.'' False),
          (''item_request'', param_doc ''any'' False VNull
             ''Downstream item field names, positionally mapped to item_input.'' False),
          (''item_response'', param_doc ''any'' False VNull
             ''Downstream item response field names, positionally mapped to item_output.'' False),
          (''max_response_size'', param_doc ''int64'' False (VNum (DFin False 10485760))
             ''Maximum response body size in bytes (default 10 MB).'' False),
          (''port'', param_doc ''int64'' True VNull
             ''Downstream service port.'' False),
          (''timeout'', param_doc ''float64'' False (VNum (DFin False 5))
             ''Request timeout in seconds.'' False)]\<rparr>"

definition k_transform_copy_schema :: operator_schema where
  "k_transform_copy_schema =
     \<lparr>os_name = ''transform_copy'', os_type = Transform,
      os_description = ''Copies field values between common and item dimensions.'',
      os_params =
         [(''direction'', param_doc ''string'' True VNull
             (''Copy direction: '' @ [CHR 0x22] @ ''common_to_item'' @ [CHR 0x22] @ '', '' @ [CHR 0x22] @ ''item_to_common'' @ [CHR 0x22] @ '', '' @ [CHR 0x22] @ ''common_to_common'' @ [CHR 0x22] @ '', or '' @ [CHR 0x22] @ ''item_to_item'' @ [CHR 0x22] @ ''.'') False)]\<rparr>"

definition k_transform_dispatch_schema :: operator_schema where
  "k_transform_dispatch_schema =
     \<lparr>os_name = ''transform_dispatch'', os_type = Transform,
      os_description = ''Copies a common-side field value to every item as an item-side field.'',
      os_params =
         []\<rparr>"

definition k_transform_normalize_schema :: operator_schema where
  "k_transform_normalize_schema =
     \<lparr>os_name = ''transform_normalize'', os_type = Transform,
      os_description = ''Normalizes a numeric item field using min-max scaling to [0, 1].'',
      os_params =
         [(''method'', param_doc ''string'' False (VStr ''min_max'')
             ''Normalization method.'' False)]\<rparr>"

definition k_transform_redis_get_schema :: operator_schema where
  "k_transform_redis_get_schema =
     \<lparr>os_name = ''transform_redis_get'', os_type = Transform,
      os_description = ''Generic Redis read operator. Reads a value by key and outputs the result and a cache-hit flag.'',
      os_params =
         [(''data_type'', param_doc ''string'' False (VStr ''string'')
             (''Redis data type: '' @ [CHR 0x22] @ ''set'' @ [CHR 0x22] @ '', '' @ [CHR 0x22] @ ''string'' @ [CHR 0x22] @ '', or '' @ [CHR 0x22] @ ''list'' @ [CHR 0x22] @ ''.'') False),
          (''fail_on_error'', param_doc ''bool'' False (VBool False)
             ''Return fatal error on Redis infrastructure failure instead of treating as cache miss.'' False),
          (''key_prefix'', param_doc ''string'' True VNull
             ''Key prefix prepended to the suffix built from common_input fields. Supports {{field}} interpolation.'' True),
          (''resource_name'', param_doc ''string'' True VNull
             ''Name of a redis_connection resource to borrow the client from.'' False)]\<rparr>"

definition k_transform_redis_set_schema :: operator_schema where
  "k_transform_redis_set_schema =
     \<lparr>os_name = ''transform_redis_set'', os_type = Transform,
      os_description = ''Generic Redis write operator. Writes a value by key with optional TTL.'',
      os_params =
         [(''data_type'', param_doc ''string'' False (VStr ''string'')
             (''Redis data type: '' @ [CHR 0x22] @ ''set'' @ [CHR 0x22] @ '', '' @ [CHR 0x22] @ ''string'' @ [CHR 0x22] @ '', or '' @ [CHR 0x22] @ ''list'' @ [CHR 0x22] @ ''.'') False),
          (''fail_on_error'', param_doc ''bool'' False (VBool False)
             ''Return fatal error on Redis infrastructure failure instead of logging and continuing.'' False),
          (''key_prefix'', param_doc ''string'' True VNull
             ''Key prefix prepended to the suffix built from common_input fields. Supports {{field}} interpolation.'' True),
          (''resource_name'', param_doc ''string'' True VNull
             ''Name of a redis_connection resource to borrow the client from.'' False),
          (''ttl'', param_doc ''int'' False (VNum (DFin False 0))
             ''TTL in seconds. 0 means no expiry. Supports {{field}} interpolation.'' True)]\<rparr>"

definition k_transform_resource_lookup_schema :: operator_schema where
  "k_transform_resource_lookup_schema =
     \<lparr>os_name = ''transform_resource_lookup'', os_type = Transform,
      os_description = ''Enriches items by looking up values from a named resource.'',
      os_params =
         [(''default_value'', param_doc ''any'' False VNull
             ''Value to use when the key is not found. Missing keys are skipped if unset.'' False),
          (''lookup_key'', param_doc ''string'' True VNull
             ''Item field whose value is used as the lookup key.'' False),
          (''output_field'', param_doc ''string'' True VNull
             ''Item field to write the looked-up value to.'' False),
          (''resource_name'', param_doc ''string'' True VNull
             ''Name of the resource to read.'' False)]\<rparr>"

definition k_transform_size_schema :: operator_schema where
  "k_transform_size_schema =
     \<lparr>os_name = ''transform_size'', os_type = Transform,
      os_description = ''Outputs the current item count to a common field.'',
      os_params =
         []\<rparr>"

section \<open>Registration\<close>

type_synonym registration = "operator_schema \<times> bool \<times> bool \<times> bool \<times> bool"

definition registrations :: "registration list" where
  "registrations =
     [(k_filter_condition_schema, True, True, False, False),
      (k_filter_paginate_schema, True, True, False, False),
      (k_filter_truncate_schema, True, True, False, False),
      (k_merge_dedup_schema, True, True, False, False),
      (k_observe_log_schema, False, False, False, False),
      (k_recall_resource_schema, False, False, True, False),
      (k_recall_static_schema, False, False, True, False),
      (k_reorder_shuffle_by_salt_schema, True, True, False, False),
      (k_reorder_sort_schema, True, True, False, False),
      (k_transform_bench_cpu_schema, False, False, False, True),
      (k_transform_bench_sleep_schema, False, False, False, True),
      (k_transform_by_lua_schema, False, False, False, True),
      (k_transform_by_remote_pineapple_schema, True, False, False, True),
      (k_transform_copy_schema, False, False, False, True),
      (k_transform_dispatch_schema, False, False, False, True),
      (k_transform_normalize_schema, False, False, False, False),
      (k_transform_redis_get_schema, False, False, False, True),
      (k_transform_redis_set_schema, False, False, False, True),
      (k_transform_resource_lookup_schema, False, False, False, True),
      (k_transform_size_schema, True, False, False, True)]"

definition register_builtin :: "registration \<Rightarrow> registry \<Rightarrow> (registry, error) outcome" where
  "register_builtin r reg =
     (case r of (schema, consumes, mutates, adds, safe) \<Rightarrow>
        register_operator_with_traits schema True consumes mutates adds safe reg)"

definition builtin_registry :: registry where
  "builtin_registry = fst (for_each register_builtin registrations [])"

section \<open>The factory\<close>

definition instantiate :: "(operator_config \<Rightarrow> error + 'm) \<Rightarrow> ('m \<Rightarrow> builtin_fun) \<Rightarrow> operator_config \<Rightarrow> error + builtin_fun" where
  "instantiate init execute op = rbind (init op) (\<lambda>m. Inr (execute m))"

definition builtin_factories ::
  "(writer_call list \<Rightarrow> string) \<Rightarrow> (string \<times> (operator_config \<Rightarrow> error + builtin_fun)) list" where
  "builtin_factories rj =
     [(''filter_condition'', instantiate filter_condition_init filter_condition_execute),
      (''filter_paginate'', instantiate filter_paginate_init filter_paginate_execute),
      (''filter_truncate'', instantiate filter_truncate_init filter_truncate_execute),
      (''merge_dedup'', instantiate merge_dedup_init (merge_dedup_execute rj)),
      (''observe_log'', instantiate observe_log_init observe_log_execute),
      (''recall_resource'', instantiate recall_resource_init recall_resource_execute),
      (''recall_static'', instantiate recall_static_init recall_static_execute),
      (''reorder_shuffle_by_salt'', instantiate shuffle_init (shuffle_execute rj)),
      (''reorder_sort'', instantiate reorder_sort_init reorder_sort_execute),
      (''transform_bench_cpu'', instantiate bench_cpu_init bench_cpu_execute),
      (''transform_copy'', instantiate transform_copy_init transform_copy_execute),
      (''transform_dispatch'', instantiate transform_dispatch_init transform_dispatch_execute),
      (''transform_normalize'', instantiate transform_normalize_init transform_normalize_execute),
      (''transform_resource_lookup'', instantiate resource_lookup_init resource_lookup_execute),
      (''transform_size'', instantiate transform_size_init transform_size_execute)]"

text \<open>\<open>others\<close> are the factories of the five other operators.\<close>

definition builtin_factory ::
  "(writer_call list \<Rightarrow> string) \<Rightarrow> (string \<times> (operator_config \<Rightarrow> error + builtin_fun)) list \<Rightarrow> string \<Rightarrow>
   operator_config \<Rightarrow> error + builtin_fun" where
  "builtin_factory rj others type_name op =
     (case map_of (builtin_factories rj @ others) type_name of
        Some build \<Rightarrow> build op
      | None \<Rightarrow> Inl (RegistryError None (''operator '' @ quoted (oc_name op) @ '': operator type not registered: '' @
                  quoted type_name)))"

end
