(* ===== verification/Operator_Laws.thy ===== *)
theory Operator_Laws
  imports Field_Operators Decimal_Laws "HOL-Library.Multiset"
begin

text \<open>
  Laws the built-in operators rest on: rounding is monotone, a stable sort orders by key and
  position, and which parts of an output the writers of an operator touch.
\<close>

section \<open>Rounding\<close>

lemma round_even_mono: "x \<le> y \<Longrightarrow> round_even x \<le> round_even y"
proof -
  assume le: "x \<le> y"
  then have "\<lfloor>x\<rfloor> \<le> \<lfloor>y\<rfloor>" by (rule floor_mono)
  then consider "\<lfloor>x\<rfloor> = \<lfloor>y\<rfloor>" | "\<lfloor>x\<rfloor> + 1 \<le> \<lfloor>y\<rfloor>" by linarith
  then show ?thesis using le by cases (auto simp: round_even_def Let_def)
qed

lemma round64_parts:
  assumes "0 < x"
  defines "k \<equiv> max (binary_exponent x - 52) (- 1074)"
  shows "x < pow2 (k + 53)" "- 1074 < k \<Longrightarrow> pow2 (k + 52) \<le> x"
    "round64 x = (if k < 971 \<or> k = 971 \<and> round_even (x / pow2 k) < 2 ^ 53 then Some (of_int (round_even (x / pow2 k)) * pow2 k)
       else None)"
proof -
  note b = binary_exponent_bounds [OF assms(1)]
  have "pow2 (binary_exponent x + 1) \<le> pow2 (k + 53)"
    using pow2_mono [of "k + 53" "binary_exponent x + 1"] by (simp add: k_def not_less [symmetric])
  then show "x < pow2 (k + 53)" using b(2) by simp
  show "- 1074 < k \<Longrightarrow> pow2 (k + 52) \<le> x" using b(1) by (simp add: k_def)
  show "round64 x = (if k < 971 \<or> k = 971 \<and> round_even (x / pow2 k) < 2 ^ 53 then Some (of_int (round_even (x / pow2 k)) * pow2 k)
       else None)"
    unfolding round64_def Let_def k_def by (rule if_not_P) (use assms(1) in simp)
qed

lemma round64_mono:
  assumes "0 \<le> x" "x \<le> y" "round64 y = Some b"
  shows "\<exists>a. round64 x = Some a \<and> 0 \<le> a \<and> a \<le> b"
proof (cases "x = 0")
  case True
  have "0 \<le> b" using round64_idem [of y b] assms by simp
  then show ?thesis by (simp add: True round64_def)
next
  case False
  then have pos: "0 < x" "0 < y" using assms by simp_all
  define k where "k = max (binary_exponent x - 52) (- 1074)"
  define l where "l = max (binary_exponent y - 52) (- 1074)"
  define m where "m = round_even (x / pow2 k)"
  define n where "n = round_even (y / pow2 l)"
  note X = round64_parts [OF pos(1), folded k_def, folded m_def]
  note Y = round64_parts [OF pos(2), folded l_def, folded n_def]
  have "pow2 (binary_exponent x) < pow2 (binary_exponent y + 1)"
    using binary_exponent_bounds [OF pos(1)] binary_exponent_bounds [OF pos(2)] assms(2) by simp
  then have kl: "k \<le> l" by (simp add: pow2_mono k_def l_def)
  have b: "b = of_int n * pow2 l" "l < 971 \<or> l = 971 \<and> n < 2 ^ 53"
    using assms(3) Y(3) by (auto split: if_splits)
  have m0: "0 \<le> m" unfolding m_def using pos pow2_pos [of k] by (intro round_even_bounds) simp
  show ?thesis
  proof (cases "k = l")
    case True
    have "m \<le> n" unfolding m_def n_def True using assms(2) pow2_pos [of l] by (intro round_even_mono divide_right_mono) auto
    then show ?thesis using X(3) b m0 pow2_pos [of l] by (auto simp: True mult_right_mono)
  next
    case False
    then have l: "k + 1 \<le> l" "- 1074 < l" using kl by (auto simp: k_def)
    have "x / pow2 k < of_int (2 ^ 53)"
      using X(1) pow2_add [of 53 k] pow2_pos [of k] by (simp add: divide_less_eq add.commute pow2_nat [of 53, simplified])
    then have "m \<le> 2 ^ 53" unfolding m_def by (rule round_even_bounds)
    then have "of_int m * pow2 k \<le> of_int (2 ^ 53) * pow2 k" using pow2_pos [of k] by (intro mult_right_mono) (simp_all del: of_int_power)
    also have "\<dots> = pow2 (k + 53)" using pow2_add [of 53 k] by (simp add: add.commute pow2_nat [of 53, simplified])
    also have "\<dots> \<le> pow2 (l + 52)" using pow2_mono [of "l + 52" "k + 53"] l(1) by (simp add: not_less [symmetric])
    also have "\<dots> = of_int (2 ^ 52) * pow2 l" using pow2_add [of 52 l] by (simp add: add.commute pow2_nat [of 52, simplified])
    also have "\<dots> \<le> b"
    proof -
      have "of_int (2 ^ 52) \<le> y / pow2 l"
        using Y(2) [OF l(2)] pow2_add [of 52 l] pow2_pos [of l] by (simp add: le_divide_eq add.commute pow2_nat [of 52, simplified])
      then have "2 ^ 52 \<le> n" unfolding n_def using round_even_mono [of "of_int (2 ^ 52)" "y / pow2 l"] by (simp only: round_even_of_int)
      then have "(of_int (2 ^ 52) :: rat) \<le> of_int n" by (simp only: of_int_le_iff)
      then show ?thesis using b(1) pow2_pos [of l] by (simp add: mult_right_mono)
    qed
    finally have "of_int m * pow2 k \<le> b" .
    moreover have "k < 971" using l(1) b(2) by auto
    ultimately show ?thesis using X(3) m0 pow2_pos [of k] by simp
  qed
qed

lemma round64_one: "round64 1 = Some 1"
proof -
  have "binary_exponent 1 = 0" by (rule binary_exponent_eq) (simp_all add: pow2_def)
  moreover have "1 / pow2 (- 52) = of_int (2 ^ 52)" by (simp add: pow2_def)
  ultimately show ?thesis unfolding round64_def by (simp add: Let_def round_even_of_int [of 4503599627370496, simplified] pow2_def)
qed

lemma nearest_unit:
  assumes "0 \<le> q" "q \<le> 1"
  obtains a where "nearest s q = DFin s a" "0 \<le> a" "a \<le> 1" "round64 q = Some a"
  using round64_mono [OF assms round64_one] by (auto simp: nearest_def)

lemma d_div_unit:
  assumes "0 \<le> p" "p \<le> r" "0 < r"
  shows "\<exists>a. d_div (DFin s p) (DFin t r) = DFin (s \<noteq> t) a \<and> round64 (p / r) = Some a \<and> 0 \<le> a \<and> a \<le> 1"
proof -
  have "0 \<le> p / r" "p / r \<le> 1" using assms by (simp_all add: divide_le_eq)
  from nearest_unit [OF this] obtain a where "nearest (s \<noteq> t) (p / r) = DFin (s \<noteq> t) a" "0 \<le> a" "a \<le> 1" "round64 (p / r) = Some a"
    by blast
  then show ?thesis using assms(3) by simp
qed

lemma d_sub_fin:
  "d_sub (DFin s q) (DFin t r) =
     (let x = dval (DFin s q) - dval (DFin t r) in if x = 0 then DFin (s \<and> \<not> t \<and> q = 0) 0 else nearest (x < 0) \<bar>x\<bar>)"
proof -
  have "dval (DFin (\<not> t) r) = - dval (DFin t r)" by simp
  then show ?thesis by (simp only: d_sub_def d_neg.simps d_add.simps diff_conv_add_uminus)
qed

text \<open>A difference that is not negative: its value is the rounded exact difference.\<close>

lemma d_sub_value:
  assumes "isfinite a" "isfinite b" "dval b \<le> dval a" "round64 (dval a - dval b) = Some x"
  shows "\<exists>s. d_sub a b = DFin s x \<and> (s \<longrightarrow> x = 0)"
proof -
  obtain s q where a: "a = DFin s q" using assms(1) by (cases a) auto
  obtain t r where b: "b = DFin t r" using assms(2) by (cases b) auto
  show ?thesis
  proof (cases "dval a - dval b = 0")
    case True
    then have "x = 0" using assms(4) by (simp add: round64_def)
    then show ?thesis using True by (simp add: a b d_sub_fin Let_def)
  next
    case False
    then have "d_sub a b = nearest False (dval a - dval b)"
      using assms(3) by (simp add: a b d_sub_fin Let_def del: dval.simps)
    then have "d_sub a b = DFin False x" using assms(4) by (simp add: nearest_def)
    then show ?thesis by blast
  qed
qed

section \<open>Sorting\<close>

text \<open>
  The contract of a comparator: on the elements it is used on, a strict weak order.  A stable sort
  then orders by key and, among equivalent keys, by position.
\<close>

locale weak_order =
  fixes ok :: "'k \<Rightarrow> bool" and lt :: "'k \<Rightarrow> 'k \<Rightarrow> bool"
  assumes irrefl: "ok a \<Longrightarrow> \<not> lt a a"
    and lt_trans: "ok a \<Longrightarrow> ok b \<Longrightarrow> ok c \<Longrightarrow> lt a b \<Longrightarrow> lt b c \<Longrightarrow> lt a c"
    and ge_trans: "ok a \<Longrightarrow> ok b \<Longrightarrow> ok c \<Longrightarrow> \<not> lt a b \<Longrightarrow> \<not> lt b c \<Longrightarrow> \<not> lt a c"
begin

lemma insert_stable:
  assumes "sorted_wrt (\<lambda>a b. lt (snd a) (snd b) \<or> \<not> lt (snd b) (snd a) \<and> fst a < fst b) ys"
    and "\<forall>y \<in> set ys. fst x < fst y \<and> ok (snd y)" "ok (snd x)"
  shows "sorted_wrt (\<lambda>a b. lt (snd a) (snd b) \<or> \<not> lt (snd b) (snd a) \<and> fst (a :: nat \<times> 'k) < fst b)
    (insert_by (\<lambda>a b. lt (snd a) (snd b)) x ys) \<and> set (insert_by (\<lambda>a b. lt (snd a) (snd b)) x ys) = insert x (set ys)"
  using assms
proof (induction ys)
  case (Cons y ys)
  show ?case
  proof (cases "lt (snd y) (snd x)")
    case True
    then show ?thesis using Cons by auto
  next
    case False
    have "\<not> lt (snd z) (snd x)" if "z \<in> set ys" for z
    proof -
      have oks: "ok (snd y)" "ok (snd z)" using Cons.prems(2) that by simp_all
      have "lt (snd y) (snd z) \<or> \<not> lt (snd z) (snd y)" using Cons.prems(1) that by auto
      then have "\<not> lt (snd z) (snd y)" using lt_trans [OF oks(1,2,1)] irrefl [OF oks(1)] by blast
      then show ?thesis using ge_trans [OF oks(2,1) Cons.prems(3)] False by blast
    qed
    then show ?thesis using False Cons.prems by auto
  qed
qed simp

lemma sort_by_stable:
  assumes "sorted_wrt (\<lambda>a b. fst a < fst b) xs" "\<forall>x \<in> set xs. ok (snd x)"
  shows "sorted_wrt (\<lambda>a b. lt (snd a) (snd b) \<or> \<not> lt (snd b) (snd a) \<and> fst (a :: nat \<times> 'k) < fst b)
    (sort_by (\<lambda>a b. lt (snd a) (snd b)) xs) \<and> set (sort_by (\<lambda>a b. lt (snd a) (snd b)) xs) = set xs"
  using assms
proof (induction xs)
  case (Cons x xs)
  let ?ys = "sort_by (\<lambda>a b. lt (snd a) (snd b)) xs"
  have "sort_by (\<lambda>a b. lt (snd a) (snd b)) (x # xs) = insert_by (\<lambda>a b. lt (snd a) (snd b)) x ?ys"
    by (simp add: sort_by_def)
  then show ?case using Cons insert_stable [of ?ys x] by auto
qed (simp add: sort_by_def)

end

lemma mset_insert_by: "mset (insert_by lt x ys) = add_mset x (mset ys)"
  by (induction ys) auto

lemma mset_sort_by [simp]: "mset (sort_by lt xs) = mset xs"
  by (induction xs) (simp_all add: sort_by_def mset_insert_by)

lemma set_sort_by [simp]: "set (sort_by lt xs) = set xs"
  by (metis mset_sort_by set_mset_mset)

lemma length_sort_by [simp]: "length (sort_by lt xs) = length xs"
  by (metis mset_sort_by size_mset)

lemma d_lt_dval: "isfinite a \<Longrightarrow> isfinite b \<Longrightarrow> d_lt a b \<longleftrightarrow> dval a < dval b"
  by (cases a; cases b) (simp_all del: dval.simps)

lemma d_lt_laws:
  "\<not> d_lt a a" "d_lt a b \<Longrightarrow> d_lt b c \<Longrightarrow> d_lt a c"
  "b \<noteq> DNaN \<Longrightarrow> \<not> d_lt a b \<Longrightarrow> \<not> d_lt b c \<Longrightarrow> \<not> d_lt a c"
  by (cases a; cases b; cases c; auto simp del: dval.simps)+

interpretation ascending: weak_order "\<lambda>d. d \<noteq> DNaN" d_lt
  by unfold_locales (use d_lt_laws in \<open>blast+\<close>)

interpretation descending: weak_order "\<lambda>d. d \<noteq> DNaN" "\<lambda>a b. d_lt b a"
  by unfold_locales (use d_lt_laws in \<open>blast+\<close>)

section \<open>The parts of an output\<close>

lemma fold_keeps:
  assumes "\<And>x out. x \<in> set xs \<Longrightarrow> part (f x out) = part out"
  shows "part (fold f xs out) = part out"
  using assms by (induction xs arbitrary: out) simp_all

end
