(* ===== verification/Operator_Theorems.thy ===== *)
theory Operator_Theorems
  imports Builtins Operator_Laws Engine_Theorems Config_Theorems Input_Theorems
begin

text \<open>
  The built-in operators: what they write is allowed for their registered type, and what the filters,
  the deduplication, the reordering and the normalisation do to a frame.
\<close>

section \<open>What an operator type may write\<close>

definition type_allows :: "op_type \<Rightarrow> operator_output \<Rightarrow> bool" where
  "type_allows ty out \<longleftrightarrow>
     (common_writes out = [] \<or> ty \<in> {Recall, Transform}) \<and>
     (item_writes out = [] \<and> column_writes out = [] \<or> ty \<in> {Transform, Merge}) \<and>
     (added_items out = [] \<or> ty = Recall) \<and> (removed_items out = [] \<or> ty \<in> {Filter, Merge}) \<and>
     (\<not> has_item_order out \<or> ty = Reorder)"

lemma validate_type_iff:
  "validate_output_against_type name (op_type_to_string ty) out = Inr () \<longleftrightarrow> type_allows ty out"
  by (cases ty) (auto simp: type_allows_def validate_output_against_type_def type_violations_def flagged_def
      has_cw_def has_iw_def has_ai_def has_ri_def)

lemmas write_defs = set_common_def set_item_def set_item_column_double_def add_item_def remove_item_def set_item_order_def

lemma fold_set_item_parts:
  "common_writes (fold (\<lambda>x. set_item (i x) (k x) (v x)) xs out) = common_writes out"
  "column_writes (fold (\<lambda>x. set_item (i x) (k x) (v x)) xs out) = column_writes out"
  "added_items (fold (\<lambda>x. set_item (i x) (k x) (v x)) xs out) = added_items out"
  "removed_items (fold (\<lambda>x. set_item (i x) (k x) (v x)) xs out) = removed_items out"
  "has_item_order (fold (\<lambda>x. set_item (i x) (k x) (v x)) xs out) = has_item_order out"
  by (induction xs arbitrary: out) (simp_all add: set_item_def)

lemma fold_add_item_parts:
  "common_writes (fold add_item rows out) = common_writes out" "item_writes (fold add_item rows out) = item_writes out"
  "column_writes (fold add_item rows out) = column_writes out" "removed_items (fold add_item rows out) = removed_items out"
  "has_item_order (fold add_item rows out) = has_item_order out"
  by (induction rows arbitrary: out) (simp_all add: add_item_def)

lemma fold_set_common_parts:
  "item_writes (fold (\<lambda>(k, v). set_common k v) kvs out) = item_writes out"
  "column_writes (fold (\<lambda>(k, v). set_common k v) kvs out) = column_writes out"
  "removed_items (fold (\<lambda>(k, v). set_common k v) kvs out) = removed_items out"
  "has_item_order (fold (\<lambda>(k, v). set_common k v) kvs out) = has_item_order out"
  by (induction kvs arbitrary: out) (simp_all add: set_common_def case_prod_beta)

lemma write_column_parts:
  "write_column dst col out = fold (\<lambda>x. set_item (int (fst x)) dst (snd x)) (enumerate 0 col) out"
  by (simp add: write_column_def case_prod_unfold)

text \<open>Removals in ascending order pile up in order.\<close>

definition removing :: "nat list \<Rightarrow> operator_output" where
  "removing is = empty_output\<lparr>removed_items := map int is\<rparr>"

lemma remove_next:
  assumes "\<forall>j \<in> set js. j < i"
  shows "remove_item (int i) (removing js) = removing (js @ [i])"
proof -
  have "List.insort_insert (int i) (map int js) = map int js @ [int i]"
  proof -
    have "int i \<notin> set (map int js)" using assms by auto
    moreover have "insort (int i) (map int js) = map int js @ [int i]"
      using assms by (induction js) auto
    ultimately show ?thesis by (simp add: insort_insert_insort)
  qed
  then show ?thesis by (simp add: removing_def remove_item_def empty_output_def)
qed

lemma fold_removes:
  assumes "\<forall>j \<in> set js. j < a"
  shows "fold (\<lambda>i out. if P i then remove_item (int i) out else out) [a..<b] (removing js) = removing (js @ filter P [a..<b])"
  using assms
proof (induction "b - a" arbitrary: js a)
  case (Suc d)
  then have a: "[a..<b] = a # [Suc a..<b]" and d: "d = b - Suc a" by (simp_all add: upt_conv_Cons)
  show ?case
  proof (cases "P a")
    case True
    have "\<forall>j \<in> set (js @ [a]). j < Suc a" using Suc.prems by auto
    from Suc.hyps(1) [OF d this] remove_next [OF Suc.prems] True show ?thesis unfolding a by simp
  next
    case False
    have "\<forall>j \<in> set js. j < Suc a" using Suc.prems by auto
    from Suc.hyps(1) [OF d this] False show ?thesis unfolding a by simp
  qed
qed simp

lemma removing_parts:
  "type_allows Filter (removing is)" "type_allows Merge (removing is)" "removing [] = empty_output"
  "has_warning (removing is) = False" "removed_items (removing is) = map int is"
  by (simp_all add: type_allows_def removing_def empty_output_def)

section \<open>The row filters\<close>

lemma enumerate_upt: "enumerate 0 xs = map (\<lambda>i. (i, xs ! i)) [0..<length xs]"
  by (rule nth_equalityI) (simp_all add: nth_enumerate_eq)

lemma filter_condition_removes:
  "filter_condition_execute m ctx inp empty_output =
     (let col = in_item_column inp (fcond_field m)
      in (removing (filter (\<lambda>i. sprint_value (col ! i) = fcond_target m) [0..<length col]), None))"
  using fold_removes [of "[]" 0]
  by (simp add: filter_condition_execute_def remove_where_def Let_def enumerate_upt fold_map comp_def removing_parts(3))

lemma filter_paginate_removes:
  "filter_paginate_execute m ctx inp empty_output =
     (let n = in_item_count inp; (start, last) = page_window (to_int (in_common inp (fpag_page_field m)))
              (to_int (in_common inp (fpag_size_field m))) (int n)
      in (removing (filter (\<lambda>i. int i < start \<or> int i \<ge> last) [0..<n]), None))"
  using fold_removes [of "[]" 0]
  by (simp add: filter_paginate_execute_def Let_def case_prod_beta removing_parts(3))

lemma fold_remove_all: "fold (\<lambda>i. remove_item (int i)) [a..<b] empty_output = removing [a..<b]"
  using fold_removes [of "[]" a "\<lambda>_. True" b] by (simp add: removing_parts(3))

lemma filter_truncate_removes:
  "filter_truncate_execute m ctx inp empty_output =
     (let top_n = (case in_templated_param inp ''top_n'' of VNum d \<Rightarrow> d_to_int d | _ \<Rightarrow> m)
      in if top_n < 0 then (empty_output, Some (Typed (negative_top_n top_n)))
         else (removing [nat top_n..<in_item_count inp], None))"
  by (simp add: filter_truncate_execute_def throws_def Let_def fold_remove_all)

lemma dedup_loop_removes:
  assumes "\<forall>j \<in> set js. j < i" "set seen = key ` set (take i col)" "i \<le> length col"
  shows "dedup_loop key seen i (drop i col) (removing js) =
    removing (js @ filter (\<lambda>j. key (col ! j) \<in> key ` set (take j col)) [i..<length col])"
  using assms
proof (induction "length col - i" arbitrary: i js seen)
  case (Suc d)
  then have i: "i < length col" "[i..<length col] = i # [Suc i..<length col]" "drop i col = col ! i # drop (Suc i) col"
    by (simp_all add: upt_conv_Cons Cons_nth_drop_Suc)
  have d: "d = length col - Suc i" using Suc by simp
  have take: "set (take (Suc i) col) = insert (col ! i) (set (take i col))" using i(1) by (simp add: take_Suc_conv_app_nth)
  show ?case
  proof (cases "key (col ! i) \<in> set seen")
    case True
    then have seen: "set seen = key ` set (take (Suc i) col)" using Suc.prems(2) by (simp add: take insert_absorb)
    have "\<forall>j \<in> set (js @ [i]). j < Suc i" using Suc.prems(1) by auto
    from Suc.hyps(1) [OF d this seen] remove_next [OF Suc.prems(1)] True i(1) Suc.prems(2) show ?thesis
      unfolding i(2,3) by simp
  next
    case False
    have seen: "set (key (col ! i) # seen) = key ` set (take (Suc i) col)" using Suc.prems(2) by (simp add: take)
    have "\<forall>j \<in> set js. j < Suc i" using Suc.prems(1) by auto
    from Suc.hyps(1) [OF d this seen] False i(1) Suc.prems(2) show ?thesis unfolding i(2,3) by simp
  qed
qed simp

lemma merge_dedup_removes:
  "merge_dedup_execute rj field ctx inp empty_output =
     (let col = in_item_column inp field
      in (removing (filter (\<lambda>i. dedup_key rj (col ! i) \<in> dedup_key rj ` set (take i col)) [0..<length col]), None))"
  using dedup_loop_removes [of "[]" 0 "[]" "dedup_key rj"] by (simp add: merge_dedup_execute_def Let_def removing_parts(3))

section \<open>Every built-in operator keeps to its type\<close>

text \<open>Registrations with descriptions and new names all succeed, and each is found under its name.\<close>

definition entry_of :: "registration \<Rightarrow> operator_entry" where
  "entry_of r = (case r of (schema, consumes, mutates, adds, safe) \<Rightarrow>
     \<lparr>en_schema = schema, en_consumes_row_set = consumes, en_mutates_row_set = mutates, en_additive_writes_row_set = adds,
      en_concurrent_safe = safe\<rparr>)"

definition described :: "registration \<Rightarrow> bool" where
  "described r \<longleftrightarrow> os_name (fst r) \<noteq> [] \<and> os_description (fst r) \<noteq> [] \<and>
     list_all (\<lambda>p. ps_description (snd p) \<noteq> []) (os_params (fst r))"

lemma registrations_succeed:
  assumes "list_all described rs" "distinct (map (\<lambda>r. os_name (fst r)) rs)" "fm_ok reg"
    and "\<forall>r \<in> set rs. map_of reg (os_name (fst r)) = None"
  shows "\<exists>reg'. for_each register_builtin rs reg = (reg', None) \<and> fm_ok reg' \<and>
    map_of reg' = map_of reg ++ map_of (map (\<lambda>r. (os_name (fst r), entry_of r)) rs)"
  using assms
proof (induction rs arbitrary: reg)
  case (Cons r rs)
  obtain schema c m a s where r: "r = (schema, c, m, a, s)" by (cases r)
  let ?reg = "fm_set (os_name schema) (entry_of r) reg"
  have new: "map_of reg (os_name schema) = None" using Cons.prems(4) by (simp add: r)
  have "find (\<lambda>p. ps_description (snd p) = []) (os_params schema) = None"
    using Cons.prems(1) by (auto simp: r described_def find_None_iff list_all_iff)
  then have step: "register_builtin r reg = (?reg, None)"
    using Cons.prems(1,3) new by (simp add: r register_builtin_def register_operator_with_traits_def described_def fm_count_def
        fm_find_map_of fm_emplace_set entry_of_def)
  have unused: "os_name schema \<notin> (\<lambda>r. os_name (fst r)) ` set rs" using Cons.prems(2) by (simp add: r)
  then have "os_name (fst r') \<noteq> os_name schema" if "r' \<in> set rs" for r' using that by (metis imageI)
  then have "\<forall>r' \<in> set rs. map_of ?reg (os_name (fst r')) = None"
    using Cons.prems(3,4) by (simp add: map_of_fm_set)
  note fresh = this
  have "list_all described rs" "distinct (map (\<lambda>r. os_name (fst r)) rs)" "fm_ok ?reg"
    using Cons.prems(1-3) by (simp_all add: fm_ok_fm_set)
  from Cons.IH [OF this fresh] obtain reg' where "for_each register_builtin rs ?reg = (reg', None)" "fm_ok reg'"
      "map_of reg' = map_of ?reg ++ map_of (map (\<lambda>r. (os_name (fst r), entry_of r)) rs)"
    by blast
  moreover have "os_name schema \<notin> dom (map_of (map (\<lambda>r. (os_name (fst r), entry_of r)) rs))"
    using unused by (simp add: dom_map_of_conv_image_fst image_image)
  ultimately show ?case
    using Cons.prems(3) step by (simp add: r map_of_fm_set map_add_upd_left) (simp add: fun_eq_iff map_add_def)
qed simp

lemmas builtin_schema_defs = k_filter_condition_schema_def k_filter_paginate_schema_def k_filter_truncate_schema_def
  k_merge_dedup_schema_def k_observe_log_schema_def k_recall_resource_schema_def k_recall_static_schema_def
  k_reorder_shuffle_by_salt_schema_def k_reorder_sort_schema_def k_transform_bench_cpu_schema_def
  k_transform_bench_sleep_schema_def k_transform_by_lua_schema_def k_transform_by_remote_pineapple_schema_def
  k_transform_copy_schema_def k_transform_dispatch_schema_def k_transform_normalize_schema_def
  k_transform_redis_get_schema_def k_transform_redis_set_schema_def k_transform_resource_lookup_schema_def
  k_transform_size_schema_def

lemma registered_types: "map (\<lambda>r. (os_name (fst r), os_type (fst r))) registrations =
     [(''filter_condition'', Filter), (''filter_paginate'', Filter), (''filter_truncate'', Filter), (''merge_dedup'', Merge),
      (''observe_log'', Observe), (''recall_resource'', Recall), (''recall_static'', Recall),
      (''reorder_shuffle_by_salt'', Reorder), (''reorder_sort'', Reorder), (''transform_bench_cpu'', Transform),
      (''transform_bench_sleep'', Transform), (''transform_by_lua'', Transform), (''transform_by_remote_pineapple'', Transform),
      (''transform_copy'', Transform), (''transform_dispatch'', Transform), (''transform_normalize'', Transform),
      (''transform_redis_get'', Transform), (''transform_redis_set'', Transform),
      (''transform_resource_lookup'', Transform), (''transform_size'', Transform)]"
  by (simp add: registrations_def builtin_schema_defs)

lemma builtin_registry_entries:
  "map_of builtin_registry = map_of (map (\<lambda>r. (os_name (fst r), entry_of r)) registrations)" "fm_ok builtin_registry"
proof -
  have "list_all described registrations"
    by (simp add: registrations_def described_def builtin_schema_defs param_doc_def)
  moreover have "map (\<lambda>r. os_name (fst r)) registrations = map fst (map (\<lambda>r. (os_name (fst r), os_type (fst r))) registrations)" by simp
  then have "distinct (map (\<lambda>r. os_name (fst r)) registrations)" unfolding registered_types by simp
  ultimately obtain reg where "for_each register_builtin registrations [] = (reg, None)" "fm_ok reg"
      "map_of reg = map_of (map (\<lambda>r. (os_name (fst r), entry_of r)) registrations)"
    using registrations_succeed [of registrations "[]"] by (auto simp: fm_ok_def)
  then show "map_of builtin_registry = map_of (map (\<lambda>r. (os_name (fst r), entry_of r)) registrations)" "fm_ok builtin_registry"
    by (simp_all add: builtin_registry_def)
qed

lemma builtin_entry_type:
  assumes "registry_entry builtin_registry type_name = Some entry"
  shows "map_of (map (\<lambda>r. (os_name (fst r), os_type (fst r))) registrations) type_name = Some (os_type (en_schema entry))"
proof -
  have "map_of (map (\<lambda>r. (os_name (fst r), entry_of r)) registrations) type_name = Some entry"
    using assms by (simp add: registry_entry_def fm_find_map_of builtin_registry_entries)
  then have "map_option (os_type \<circ> en_schema) (map_of (map (\<lambda>r. (os_name (fst r), entry_of r)) registrations) type_name) =
      Some (os_type (en_schema entry))" by simp
  moreover have "map_option (os_type \<circ> en_schema) (map_of (map (\<lambda>r. (os_name (fst r), entry_of r)) rs) type_name) =
      map_of (map (\<lambda>r. (os_name (fst r), os_type (fst r))) rs) type_name" for rs
    by (induction rs) (auto simp: entry_of_def split: prod.splits)
  ultimately show ?thesis by simp
qed

lemma copy_each_allowed:
  assumes "copy_each put srcs dsts out = (out', None)" "type_allows Transform out"
    and "\<And>src dst out. type_allows Transform out \<Longrightarrow> type_allows Transform (put src dst out)"
  shows "type_allows Transform out'"
  using assms(1) unfolding copy_each_def
  by (rule for_each_invariant) (use assms(2,3) in \<open>auto simp: throws_def split: sum.splits\<close>)

lemma transform_copy_allowed:
  assumes "transform_copy_execute m ctx inp empty_output = (out, None)"
  shows "type_allows Transform out"
proof -
  have col: "type_allows Transform o' \<Longrightarrow> type_allows Transform (write_column dst col o')" for dst col o'
    by (simp add: type_allows_def write_column_parts fold_set_item_parts)
  have com: "type_allows Transform o' \<Longrightarrow> type_allows Transform (set_common dst v o')" for dst v o'
    by (simp add: type_allows_def set_common_def)
  have empty: "type_allows Transform empty_output" by (simp add: type_allows_def empty_output_def)
  note each = copy_each_allowed [OF _ empty]
  show ?thesis using assms
    by (auto simp: transform_copy_execute_def throws_def split: if_splits intro: each [OF _ col] each [OF _ com])
qed

lemma recall_resource_allowed:
  assumes "recall_resource_execute name rs inp empty_output = (out, None)"
  shows "type_allows Recall out"
proof -
  have "type_allows Recall out"
    if "for_each (\<lambda>(i, elem) out. case elem of VObj ob \<Rightarrow> (add_item (copy_object ob) out, None) | _ \<Rightarrow> throws (e i elem) out)
          xs empty_output = (out, None)" for e xs
    using that by (rule for_each_invariant)
      (auto simp: type_allows_def empty_output_def add_item_def throws_def split: variant.splits prod.splits)
  then show ?thesis using assms by (auto simp: recall_resource_execute_def throws_def split: option.splits variant.splits)
qed

lemma looked_up_parts:
  "common_writes (fold (\<lambda>(i, w) out. case u w of Some v \<Rightarrow> set_item (int i) k v out | None \<Rightarrow> out) xs out) = common_writes out"
  "added_items (fold (\<lambda>(i, w) out. case u w of Some v \<Rightarrow> set_item (int i) k v out | None \<Rightarrow> out) xs out) = added_items out"
  "removed_items (fold (\<lambda>(i, w) out. case u w of Some v \<Rightarrow> set_item (int i) k v out | None \<Rightarrow> out) xs out) = removed_items out"
  "has_item_order (fold (\<lambda>(i, w) out. case u w of Some v \<Rightarrow> set_item (int i) k v out | None \<Rightarrow> out) xs out) = has_item_order out"
  by (induction xs arbitrary: out) (auto simp: set_item_def split: option.splits)

lemma builtin_execute_allowed:
  "filter_condition_execute fc ctx inp empty_output = (out, None) \<Longrightarrow> type_allows Filter out"
  "filter_paginate_execute fp ctx inp empty_output = (out, None) \<Longrightarrow> type_allows Filter out"
  "filter_truncate_execute ft ctx inp empty_output = (out, None) \<Longrightarrow> type_allows Filter out"
  "merge_dedup_execute rj md ctx inp empty_output = (out, None) \<Longrightarrow> type_allows Merge out"
  "observe_log_execute ol ctx inp empty_output = (out, None) \<Longrightarrow> type_allows Observe out"
  "recall_static_execute rs ctx inp empty_output = (out, None) \<Longrightarrow> type_allows Recall out"
  "shuffle_execute rj sh ctx inp empty_output = (out, None) \<Longrightarrow> type_allows Reorder out"
  "reorder_sort_execute so ctx inp empty_output = (out, None) \<Longrightarrow> type_allows Reorder out"
  "bench_cpu_execute bc ctx inp empty_output = (out, None) \<Longrightarrow> type_allows Transform out"
  "transform_dispatch_execute td ctx inp empty_output = (out, None) \<Longrightarrow> type_allows Transform out"
  "transform_normalize_execute tn ctx inp empty_output = (out, None) \<Longrightarrow> type_allows Transform out"
  "resource_lookup_execute rl ctx inp empty_output = (out, None) \<Longrightarrow> type_allows Transform out"
  "transform_size_execute ts ctx inp empty_output = (out, None) \<Longrightarrow> type_allows Transform out"
proof -
  have e: "common_writes empty_output = []" "item_writes empty_output = []" "column_writes empty_output = []"
    "added_items empty_output = []" "removed_items empty_output = []" "has_item_order empty_output = False"
    by (simp_all add: empty_output_def)
  note parts = e fold_set_item_parts fold_add_item_parts fold_set_common_parts looked_up_parts
  show "filter_condition_execute fc ctx inp empty_output = (out, None) \<Longrightarrow> type_allows Filter out"
    by (auto simp: filter_condition_removes removing_parts Let_def)
  show "filter_paginate_execute fp ctx inp empty_output = (out, None) \<Longrightarrow> type_allows Filter out"
    by (auto simp: filter_paginate_removes removing_parts Let_def case_prod_beta)
  show "filter_truncate_execute ft ctx inp empty_output = (out, None) \<Longrightarrow> type_allows Filter out"
    by (auto simp: filter_truncate_removes removing_parts Let_def split: if_splits)
  show "merge_dedup_execute rj md ctx inp empty_output = (out, None) \<Longrightarrow> type_allows Merge out"
    by (auto simp: merge_dedup_removes removing_parts Let_def)
  show "observe_log_execute ol ctx inp empty_output = (out, None) \<Longrightarrow> type_allows Observe out"
    by (auto simp: observe_log_execute_def type_allows_def e)
  show "recall_static_execute rs ctx inp empty_output = (out, None) \<Longrightarrow> type_allows Recall out"
    by (auto simp: recall_static_execute_def type_allows_def parts)
  show "shuffle_execute rj sh ctx inp empty_output = (out, None) \<Longrightarrow> type_allows Reorder out"
    by (auto simp: shuffle_execute_def type_allows_def e set_item_order_def Let_def split: if_splits)
  show "reorder_sort_execute so ctx inp empty_output = (out, None) \<Longrightarrow> type_allows Reorder out"
    by (auto simp: reorder_sort_execute_def throws_def type_allows_def e set_item_order_def split: if_splits sum.splits)
  show "bench_cpu_execute bc ctx inp empty_output = (out, None) \<Longrightarrow> type_allows Transform out"
    by (auto simp: bench_cpu_execute_def type_allows_def parts)
  show "transform_dispatch_execute td ctx inp empty_output = (out, None) \<Longrightarrow> type_allows Transform out"
    by (auto simp: transform_dispatch_execute_def type_allows_def parts Let_def)
  show "transform_normalize_execute tn ctx inp empty_output = (out, None) \<Longrightarrow> type_allows Transform out"
    by (auto simp: transform_normalize_execute_def throws_def type_allows_def e set_item_column_double_def
        split: if_splits list.splits sum.splits)
  show "resource_lookup_execute rl ctx inp empty_output = (out, None) \<Longrightarrow> type_allows Transform out"
    by (auto simp: resource_lookup_execute_def throws_def type_allows_def parts Let_def split: option.splits variant.splits)
  show "transform_size_execute ts ctx inp empty_output = (out, None) \<Longrightarrow> type_allows Transform out"
    by (auto simp: transform_size_execute_def type_allows_def e set_common_def)
qed

lemma instance_allowed:
  assumes "instantiate init execute op = Inr run_fn" "run_fn ctx inp empty_output = (out, None)"
    and "\<And>m. execute m ctx inp empty_output = (out, None) \<Longrightarrow> type_allows ty out"
  shows "type_allows ty out"
  using assms by (auto simp: instantiate_def rbind_Inr_iff)

lemma builtin_allowed:
  assumes "(n, build) \<in> set (builtin_factories rj)" "build op = Inr run_fn" "run_fn ctx inp empty_output = (out, None)"
    and "map_of (map (\<lambda>r. (os_name (fst r), os_type (fst r))) registrations) n = Some ty"
  shows "type_allows ty out"
proof -
  have "list_all (\<lambda>(n, build). build op = Inr run_fn \<longrightarrow> map_of (map (\<lambda>r. (os_name (fst r), os_type (fst r))) registrations) n = Some ty \<longrightarrow>
      type_allows ty out) (builtin_factories rj)"
    unfolding builtin_factories_def list.pred_inject prod.case
    by (intro conjI TrueI impI)
      (rule instance_allowed [where run_fn = run_fn and ctx = ctx and inp = inp], assumption, rule assms(3),
        simp add: registered_types, hypsubst, erule builtin_execute_allowed transform_copy_allowed recall_resource_allowed | simp)+
  then show ?thesis using assms(1,2,4) by (auto simp: list_all_iff)
qed

text \<open>
  C26: the fifteen operators of \<open>builtin_factories\<close> (three filters, one merge, two recalls, two reorders, six transforms and
  \<open>observe_log\<close>) never break the contract of their type.  Whatever the configuration that
  initialised one, its input and its context: if it returns, its output passes the check the engine
  makes for the operator type its schema is registered with.
\<close>

theorem builtin_outputs_allowed:
  assumes "registry_entry builtin_registry type_name = Some entry" and "type_name \<in> fst ` set (builtin_factories rj)"
    and "builtin_factory rj others type_name op = Inr run_fn" and "run_fn ctx inp empty_output = (out, None)"
  shows "validate_output_against_type name (op_type_to_string (os_type (en_schema entry))) out = Inr ()"
proof -
  from assms(2) obtain build where build: "map_of (builtin_factories rj) type_name = Some build"
    by (auto simp: dom_map_of_conv_image_fst [symmetric])
  then have "build op = Inr run_fn" using assms(3) by (simp add: builtin_factory_def)
  from builtin_allowed [OF map_of_SomeD [OF build] this assms(4) builtin_entry_type [OF assms(1)]]
  have "type_allows (os_type (en_schema entry)) out" .
  then show ?thesis by (simp add: validate_type_iff)
qed

definition demo_sort_config :: operator_config where
  "demo_sort_config = demo_input_config\<lparr>oc_metadata := (oc_metadata demo_input_config)\<lparr>item_input := [''boost'']\<rparr>,
     oc_params := VObj [(''order'', VStr ''asc'')]\<rparr>"

definition demo_sort :: reorder_sort_op where
  "demo_sort = \<lparr>rsort_field = ''boost'', rsort_order = ''asc''\<rparr>"

definition demo_boost :: operator_input where
  "demo_boost = operator_input_of demo_input_frame (compute_input_field_spec demo_input_config)"

lemma demo_sort_made: "builtin_factory rj others ''reorder_sort'' demo_sort_config = Inr (reorder_sort_execute demo_sort)"
  by (simp add: builtin_factory_def builtin_factories_def instantiate_def reorder_sort_init_def demo_sort_config_def
      demo_input_config_def fm_find_map_of fm_ok_def demo_sort_def)

lemma demo_owned: "frame_owned demo_input_frame"
  by code_simp

lemma demo_boost_column: "in_item_column demo_boost ''boost'' = [VNum (dbl 3), VNum (dbl 1)]" "in_item_count demo_boost = 2"
  by code_simp+

lemma demo_sorts: "reorder_sort_execute demo_sort ctx demo_boost empty_output = (set_item_order [1, 0] empty_output, None)"
proof -
  have "sorted_indices d_lt [dbl 3, dbl 1] = [1, 0]" by code_simp
  moreover have "read_numbers ''reorder_sort'' ''boost'' [VNum (dbl 3), VNum (dbl 1)] = Inr [dbl 3, dbl 1]"
    by (simp add: read_numbers_def read_number_def is_null_def)
  ultimately show ?thesis by (simp add: reorder_sort_execute_def demo_sort_def demo_boost_column)
qed

theorem builtin_outputs_allowed_witness:
  "\<exists>entry. registry_entry builtin_registry ''reorder_sort'' = Some entry \<and>
     validate_output_against_type ''sort'' (op_type_to_string (os_type (en_schema entry)))
       (set_item_order [1, 0] empty_output) = Inr ()"
proof -
  have "''reorder_sort'' \<in> fst ` set (map (\<lambda>r. (os_name (fst r), os_type (fst r))) registrations)"
    unfolding registered_types by simp
  then have "\<exists>e. map_of builtin_registry ''reorder_sort'' = Some e"
    using map_of_eq_None_iff [of builtin_registry "''reorder_sort''"]
      map_of_eq_None_iff [of "map (\<lambda>r. (os_name (fst r), entry_of r)) registrations" "''reorder_sort''"]
    by (force simp: builtin_registry_entries(1) image_image)
  then obtain entry where e: "registry_entry builtin_registry ''reorder_sort'' = Some entry"
    by (auto simp: registry_entry_def fm_find_map_of builtin_registry_entries(2))
  have "''reorder_sort'' \<in> fst ` set (builtin_factories (\<lambda>_. []))" by (simp add: builtin_factories_def)
  from builtin_outputs_allowed [OF e this demo_sort_made demo_sorts] show ?thesis using e by blast
qed

section \<open>What the filters and the deduplication keep\<close>

lemma length_item_column:
  assumes "frame_inv f"
  shows "length (in_item_column (operator_input_of f spec) field) = frame_item_count f"
  using arg_cong [OF fr.column_abs [OF assms, of field], of length] fr.count_abs [OF assms]
  by (simp add: in_item_column_def operator_input_of_def a_column_def Let_def split: option.split)

lemma length_frame_rows: "frame_inv f \<Longrightarrow> length (frame_rows f) = frame_item_count f"
  by (simp add: frame_rows_def fr.count_abs)

lemma apply_removing:
  assumes "frame_inv f" "frame_owned f"
  shows "\<exists>g. frame_apply (removing (filter P [0..<frame_item_count f])) name r f = Some (g, None) \<and>
    frame_rows g = map ((!) (frame_rows f)) (filter (\<lambda>i. \<not> P i) [0..<frame_item_count f])"
proof -
  let ?out = "removing (filter P [0..<frame_item_count f])"
  have out: "output_ok ?out" "output_num_ok ?out" "added_items ?out = []"
    by (auto simp: removing_def empty_output_def output_ok_def output_num_ok_def sorted_wrt_map sorted_wrt_filter
        intro!: sorted_wrt_mono_rel [OF _ sorted_wrt_filter [OF sorted_wrt_upt]])
  obtain g e where g: "frame_apply ?out name r f = Some (g, e)" "frame_inv g"
      "e = snd (af_apply_output ?out name r (frame_abs f))" "frame_abs g = fst (af_apply_output ?out name r (frame_abs f))"
    using fr.apply_step [OF assms out(1,2), of name r] out(3) by auto
  have n: "frame_item_count f = length (a_rows (frame_abs f))" using fr.count_abs [OF assms(1)] by simp
  have "check_removed name (length (a_rows (frame_abs f))) (map int (filter P [0..<length (a_rows (frame_abs f))])) = None"
    by (auto simp: check_removed_None_iff in_range_def list_all_iff)
  moreover have "kept_indices k (map int (filter P [0..<k])) = filter (\<lambda>i. \<not> P i) [0..<k]" for k
    unfolding kept_indices_def by (rule filter_cong) auto
  ultimately have "af_apply_output ?out name r (frame_abs f) = ((frame_abs f)
      \<lparr>a_rows := map ((!) (a_rows (frame_abs f))) (filter (\<lambda>i. \<not> P i) [0..<length (a_rows (frame_abs f))])\<rparr>, None)"
    by (simp add: af_apply_output_def removing_def empty_output_def af_removals_def af_reorder_def frame_warning_def
        check_then_def n)
  then show ?thesis using g(1,3,4) by (simp add: frame_rows_def n)
qed

end
