(* ===== verification/Operator_Effects.thy ===== *)
theory Operator_Effects
  imports Operator_Theorems Frame_Theorems
begin

text \<open>
  What the built-in filters, the deduplication, the reordering and the normalisation do to the rows
  of a frame.
\<close>

section \<open>Filters and deduplication\<close>

text \<open>
  C28: deduplication keeps exactly the first item of every key.  The output is accepted by the frame;
  the rows that stay keep their order, no two of them have the same key, every key still occurs, and
  no removed item came before the one that stays.
\<close>

theorem merge_dedup_keeps_first:
  fixes rj :: "writer_call list \<Rightarrow> string" and field :: string
  assumes "frame_inv f" "frame_owned f" and "inp = operator_input_of f spec"
  defines "key \<equiv> \<lambda>i. dedup_key rj (in_item_column inp field ! i)"
  shows "\<exists>out g kept. merge_dedup_execute rj field ctx inp empty_output = (out, None) \<and>
    frame_apply out name False f = Some (g, None) \<and> frame_rows g = map ((!) (frame_rows f)) kept \<and>
    sorted_wrt (<) kept \<and> distinct (map key kept) \<and> set (map key kept) = key ` {..<frame_item_count f} \<and>
    (\<forall>i \<in> set kept. i < frame_item_count f \<and> (\<forall>j < i. key j \<noteq> key i))"
proof -
  let ?n = "frame_item_count f"
  let ?col = "in_item_column inp field"
  have len: "length ?col = ?n" using length_item_column [OF assms(1)] assms(3) by simp
  define dup where "dup i \<longleftrightarrow> (\<exists>j < i. key j = key i)" for i
  have dup: "dedup_key rj (?col ! i) \<in> dedup_key rj ` set (take i ?col) \<longleftrightarrow> dup i" if "i < ?n" for i
  proof -
    have "set (take i ?col) = (!) ?col ` {0..<i}" using that len by (simp add: nth_image)
    then have "dedup_key rj (?col ! i) \<in> dedup_key rj ` set (take i ?col) \<longleftrightarrow>
        (\<exists>j \<in> {0..<i}. dedup_key rj (?col ! i) = dedup_key rj (?col ! j))"
      by (simp only: image_image image_iff)
    also have "\<dots> \<longleftrightarrow> dup i" unfolding dup_def key_def by (metis atLeastLessThan_iff zero_le)
    finally show ?thesis .
  qed
  define kept where "kept = filter (\<lambda>i. \<not> dup i) [0..<?n]"
  have out: "merge_dedup_execute rj field ctx inp empty_output = (removing (filter dup [0..<?n]), None)"
    unfolding merge_dedup_removes Let_def len
    by (rule arg_cong [of _ _ "\<lambda>is. (removing is, None)"], rule filter_cong) (use dup in simp_all)
  obtain g where g: "frame_apply (removing (filter dup [0..<?n])) name False f = Some (g, None)"
      "frame_rows g = map ((!) (frame_rows f)) kept"
    using apply_removing [OF assms(1,2)] unfolding kept_def by blast
  have first: "\<exists>j \<in> set kept. key j = key i" if "i < ?n" for i
    using that
  proof (induction i rule: less_induct)
    case (less i)
    show ?case
    proof (cases "dup i")
      case True
      then obtain j where j: "j < i" "key j = key i" by (auto simp: dup_def)
      then have "j < ?n" using less.prems by simp
      from less.IH [OF j(1) this] show ?thesis by (simp only: j(2))
    next
      case False
      then show ?thesis using less.prems by (auto simp: kept_def)
    qed
  qed
  have "distinct (map key kept)"
  proof -
    have "inj_on key (set kept)"
    proof (rule inj_onI)
      fix i j
      assume "i \<in> set kept" "j \<in> set kept" and eq: "key i = key j"
      then have "\<not> dup i" "\<not> dup j" by (simp_all add: kept_def)
      then show "i = j" using eq unfolding dup_def by (metis linorder_neqE_nat)
    qed
    then show ?thesis by (simp add: distinct_map kept_def)
  qed
  moreover have "set (map key kept) = key ` {..<?n}"
  proof -
    have "key i \<in> key ` set kept" if i: "i < ?n" for i
    proof -
      obtain j where "j \<in> set kept" "key j = key i" using first [OF i] by blast
      then show ?thesis by (auto intro: rev_image_eqI)
    qed
    moreover have "set kept \<subseteq> {..<?n}" by (auto simp: kept_def)
    ultimately show ?thesis unfolding set_map by blast
  qed
  ultimately show ?thesis using out g by (auto simp: kept_def dup_def sorted_wrt_filter intro!: exI [of _ g])
qed

theorem merge_dedup_keeps_first_witness:
  "\<exists>out g kept. merge_dedup_execute (\<lambda>_. []) ''boost'' None demo_boost empty_output = (out, None) \<and>
     frame_apply out ''dedup'' False demo_input_frame = Some (g, None) \<and> frame_rows g = map ((!) (frame_rows demo_input_frame)) kept"
  using merge_dedup_keeps_first [OF demo_input_ok(1) demo_owned demo_boost_def] by blast

lemma filter_upt: "filter (\<lambda>i. s \<le> i \<and> i < l) [0..<n] = [s..<min l n]"
  by (induction n) auto

lemma map_nth_upt: "map ((!) xs) [s..<min l (length xs)] = take (l - s) (drop s xs)"
  by (rule nth_equalityI) (auto simp: less_diff_conv add.commute)

text \<open>
  C30: \<open>filter_paginate\<close> keeps one page and \<open>filter_truncate\<close> the first items: the rows after the
  step are that slice of the rows before.  A page size that is not positive counts as ten and a negative
  page as the first.  The numbers are read as \<open>int\<close>, and the page is the one asked for when its end is an \<open>int\<close>:
  \<open>page * size\<close> overflows otherwise.  A negative \<open>top_n\<close>, which is what a number beyond \<open>int\<close> is read as, is an error that
  writes nothing.
\<close>

theorem filters_keep_a_slice:
  fixes pm :: filter_paginate_op and tm :: int
  assumes "frame_inv f" "frame_owned f" and "in_frame inp = f" "in_item_count inp = frame_item_count f"
  defines "page \<equiv> to_int (in_common inp (fpag_page_field pm))" and "sz \<equiv> to_int (in_common inp (fpag_size_field pm))"
    and "top_n \<equiv> (case in_templated_param inp ''top_n'' of VNum d \<Rightarrow> d_to_int d | _ \<Rightarrow> tm)"
  shows "((max page 0 + 1) * (if sz \<le> 0 then 10 else sz) < 2 ^ 31 \<longrightarrow>
      (\<exists>out g. filter_paginate_execute pm ctx inp empty_output = (out, None) \<and>
        frame_apply out name False f = Some (g, None) \<and>
        frame_rows g = (let k = (if sz \<le> 0 then 10 else nat sz) in take k (drop (nat page * k) (frame_rows f))))) \<and>
    (if top_n < 0
     then filter_truncate_execute tm ctx inp empty_output = (empty_output, Some (Typed (negative_top_n top_n)))
     else \<exists>out g. filter_truncate_execute tm ctx inp empty_output = (out, None) \<and>
       frame_apply out name False f = Some (g, None) \<and> frame_rows g = take (nat top_n) (frame_rows f))"
proof (rule conjI impI)+
  assume fits: "(max page 0 + 1) * (if sz \<le> 0 then 10 else sz) < 2 ^ 31"
  let ?n = "frame_item_count f"
  note len = length_frame_rows [OF assms(1)]
  define k where "k = (if sz \<le> 0 then 10 else nat sz)"
  define s where "s = nat page * k"
  have win: "page_window page sz (int ?n) = (int s, min (int (s + k)) (int ?n))"
  proof -
    have k: "int k = (if sz \<le> 0 then 10 else sz)" "0 < k" by (auto simp: k_def)
    have s: "int s = max page 0 * int k" by (simp add: s_def max_def)
    have "int s + int k < 2 ^ 31" using fits unfolding s k(1) [symmetric] by (simp add: algebra_simps)
    then have "int_wrap (int s) = int s" "int_wrap (int s + int k) = int s + int k" by (simp_all add: int_wrap_small)
    moreover have "(if page < 0 then 0 else page) * (if sz \<le> 0 then 10 else sz) = int s" by (auto simp: s k(1) max_def)
    ultimately show ?thesis unfolding page_window_def Let_def k(1) [symmetric] by simp
  qed
  let ?P = "\<lambda>i. int i < int s \<or> min (int (s + k)) (int ?n) \<le> int i"
  have kept: "filter (\<lambda>i. \<not> ?P i) [0..<?n] = [s..<min (s + k) ?n]"
    unfolding filter_upt [symmetric] by (rule filter_cong) auto
  have "filter_paginate_execute pm ctx inp empty_output = (removing (filter ?P [0..<?n]), None)"
    using win by (simp add: filter_paginate_removes Let_def assms(4) page_def sz_def del: of_nat_add)
  moreover obtain g where "frame_apply (removing (filter ?P [0..<?n])) name False f = Some (g, None)"
      "frame_rows g = map ((!) (frame_rows f)) [s..<min (s + k) ?n]"
    using apply_removing [OF assms(1,2), of ?P name False] unfolding kept by blast
  moreover have "map ((!) (frame_rows f)) [s..<min (s + k) ?n] = take k (drop s (frame_rows f))"
    using map_nth_upt [of "frame_rows f" s "s + k"] by (simp add: len)
  ultimately show "\<exists>out g. filter_paginate_execute pm ctx inp empty_output = (out, None) \<and>
        frame_apply out name False f = Some (g, None) \<and>
        frame_rows g = (let k = (if sz \<le> 0 then 10 else nat sz) in take k (drop (nat page * k) (frame_rows f)))"
    by (auto simp: Let_def k_def [symmetric] s_def [symmetric])
next
  let ?n = "frame_item_count f"
  note len = length_frame_rows [OF assms(1)]
  have tail: "filter (\<lambda>i. nat top_n \<le> i) [0..<?n] = [nat top_n..<?n]"
  proof -
    have "filter (\<lambda>i. nat top_n \<le> i) [0..<?n] = filter (\<lambda>i. nat top_n \<le> i \<and> i < ?n) [0..<?n]" by (rule filter_cong) auto
    then show ?thesis using filter_upt [of "nat top_n" ?n ?n] by simp
  qed
  obtain g where g: "frame_apply (removing [nat top_n..<?n]) name False f = Some (g, None)"
      "frame_rows g = map ((!) (frame_rows f)) (filter (\<lambda>i. \<not> nat top_n \<le> i) [0..<?n])"
    using apply_removing [OF assms(1,2), of "\<lambda>i. nat top_n \<le> i" name False] unfolding tail by blast
  have "filter (\<lambda>i. \<not> nat top_n \<le> i) [0..<?n] = [0..<min (nat top_n) ?n]"
    using filter_upt [of 0 "nat top_n" ?n] by (simp add: not_le)
  then have "frame_rows g = take (nat top_n) (frame_rows f)"
    using g(2) map_nth_upt [of "frame_rows f" 0 "nat top_n"] by (simp add: len)
  then show "if top_n < 0
     then filter_truncate_execute tm ctx inp empty_output = (empty_output, Some (Typed (negative_top_n top_n)))
     else \<exists>out g. filter_truncate_execute tm ctx inp empty_output = (out, None) \<and>
       frame_apply out name False f = Some (g, None) \<and> frame_rows g = take (nat top_n) (frame_rows f)"
    using g(1) by (auto simp: filter_truncate_removes top_n_def Let_def assms(4))
qed

theorem filters_keep_a_slice_witness:
  "(\<exists>out g. filter_paginate_execute \<lparr>fpag_page_field = ''page'', fpag_size_field = ''size''\<rparr> None demo_boost empty_output = (out, None) \<and>
     frame_apply out ''top'' False demo_input_frame = Some (g, None) \<and> frame_rows g = take 10 (frame_rows demo_input_frame)) \<and>
   (\<exists>out g. filter_truncate_execute 1 None demo_boost empty_output = (out, None) \<and>
     frame_apply out ''top'' False demo_input_frame = Some (g, None) \<and> frame_rows g = take 1 (frame_rows demo_input_frame))"
proof -
  have demo: "in_templated_param demo_boost ''top_n'' = VNull" "in_frame demo_boost = demo_input_frame"
      "in_item_count demo_boost = frame_item_count demo_input_frame"
    by (simp_all add: demo_boost_def operator_input_of_def in_templated_param_def)
  have common: "in_common demo_boost ''page'' = VNull" "in_common demo_boost ''size'' = VNull" by code_simp+
  show ?thesis
    using filters_keep_a_slice [OF demo_input_ok(1) demo_owned demo(2,3), where tm = 1 and ctx = None and name = "''top''"
        and pm = "\<lparr>fpag_page_field = ''page'', fpag_size_field = ''size''\<rparr>"]
    by (simp add: demo common)
qed

text \<open>A page number whose product with the size is no \<open>int\<close>: the window begins at item 4.\<close>

lemma page_product_wraps: "page_window 429496730 10 20 = (4, 14)"
  by (simp add: page_window_def int_wrap_def)

section \<open>Reordering\<close>

text \<open>Two indices in the order of a sort: by key, and by position when the keys are equivalent.\<close>

definition in_order :: "('k \<Rightarrow> 'k \<Rightarrow> bool) \<Rightarrow> (nat \<Rightarrow> 'k) \<Rightarrow> nat \<Rightarrow> nat \<Rightarrow> bool" where
  "in_order lt key i j \<longleftrightarrow> lt (key i) (key j) \<or> \<not> lt (key j) (key i) \<and> i < j"

lemma apply_order:
  assumes "frame_inv f" "frame_owned f" and "mset is = mset [0..<frame_item_count f]"
  shows "\<exists>g. frame_apply (set_item_order (map int is) empty_output) name r f = Some (g, None) \<and>
    frame_rows g = map ((!) (frame_rows f)) is"
proof -
  let ?out = "set_item_order (map int is) empty_output"
  have "length is = frame_item_count f" "distinct is" "set is = {..<frame_item_count f}"
    using assms(3) by (metis length_upt diff_zero size_mset, metis distinct_upt mset_eq_imp_distinct_iff,
        metis atLeast_upt set_mset_mset)
  then have perm: "length (map int is) = frame_item_count f" "is_perm (map int is)"
    by (simp_all add: is_perm_def distinct_map)
  obtain g e where g: "frame_apply ?out name r f = Some (g, e)" "e = snd (af_apply_output ?out name r (frame_abs f))"
      "frame_abs g = fst (af_apply_output ?out name r (frame_abs f))"
    using fr.apply_step [OF assms(1,2), of ?out name r] by auto
  have "check_item_order name (length (a_rows (frame_abs f))) (map int is) = None"
    using perm by (simp add: check_item_order_iff_perm fr.count_abs [OF assms(1)])
  then show ?thesis using g by (simp add: af_order_only frame_rows_def)
qed

lemma sorted_indices_order:
  assumes "weak_order ok lt" "\<forall>v \<in> set vs. ok v"
  shows "\<exists>is. sorted_indices lt vs = map int is \<and> mset is = mset [0..<length vs] \<and> sorted_wrt (in_order lt ((!) vs)) is"
proof -
  let ?xs = "enumerate 0 vs"
  let ?ys = "sort_by (\<lambda>a b. lt (snd a) (snd b)) ?xs"
  have asc: "sorted_wrt (\<lambda>a b. fst a < fst b) ?xs"
    by (simp add: enumerate_upt sorted_wrt_map)
  have ok: "\<forall>x \<in> set ?xs. ok (snd x)" using assms(2) by (auto simp: enumerate_upt)
  have at: "snd x = vs ! fst x" if "x \<in> set ?xs" for x using that by (auto simp: enumerate_upt)
  have "sorted_wrt (\<lambda>a b. in_order lt ((!) vs) (fst a) (fst b)) ?ys"
    using weak_order.sort_by_stable [OF assms(1) asc ok] at
    by (auto simp: in_order_def intro: sorted_wrt_mono_rel [rotated])
  moreover have "mset (map fst ?ys) = mset (map fst ?xs)" by (simp only: mset_map mset_sort_by)
  moreover have "map fst ?xs = [0..<length vs]" by (simp add: enumerate_upt comp_def)
  moreover have "sorted_indices lt vs = map int (map fst ?ys)"
    by (simp add: sorted_indices_def case_prod_unfold)
  ultimately show ?thesis by (intro exI [of _ "map fst ?ys"]) (simp add: sorted_wrt_map)
qed

fun num_of :: "variant \<Rightarrow> double" where
  "num_of (VNum d) = d"
| "num_of v = DNaN"

lemma read_number_cases:
  "read_number op field i v = (if is_number v then Inr (num_of v) else
     Inl (number_error op field i (if is_null v then ''required field '' @ quoted field @ '' is nil on item['' @ string_of_nat i @ '']''
       else case to_double v of Inl e \<Rightarrow> what e | Inr d \<Rightarrow> [])))"
  by (cases v) (simp_all add: read_number_def is_null_def)

lemma rmap_first_error:
  "rmap f xs = Inl e \<Longrightarrow> \<exists>ys x zs. xs = ys @ x # zs \<and> f x = Inl e \<and> (\<forall>y \<in> set ys. \<exists>r. f y = Inr r)"
proof (induction xs)
  case (Cons x xs)
  show ?case
  proof (cases "f x")
    case (Inl e')
    then show ?thesis using Cons.prems by (intro exI [of _ "[]"]) simp
  next
    case (Inr y)
    then have "rmap f xs = Inl e" using Cons.prems by (auto simp: rbind_Inl_iff)
    then obtain ys x' zs where "xs = ys @ x' # zs" "f x' = Inl e" "\<forall>y \<in> set ys. \<exists>r. f y = Inr r" using Cons.IH by blast
    then show ?thesis using Inr by (intro exI [of _ "x # ys"]) auto
  qed
qed simp

lemma read_numbers_ok:
  "read_numbers op field col = Inr vs \<Longrightarrow> list_all is_number col \<and> vs = map num_of col"
proof -
  have "rmap (\<lambda>(i, v). read_number op field i v) (enumerate k col) = Inr vs \<Longrightarrow> list_all is_number col \<and> vs = map num_of col" for k
    by (induction col arbitrary: k vs) (auto simp: read_number_cases rbind_Inr_iff split: if_splits)
  then show "read_numbers op field col = Inr vs \<Longrightarrow> list_all is_number col \<and> vs = map num_of col"
    unfolding read_numbers_def .
qed

lemma read_numbers_error:
  assumes "read_numbers op field col = Inl e"
  shows "\<exists>i < length col. \<not> is_number (col ! i) \<and> (\<forall>j < i. is_number (col ! j)) \<and> (\<exists>msg. e = number_error op field i msg)"
proof -
  obtain ys x zs where split: "enumerate 0 col = ys @ x # zs" "(\<lambda>(i, v). read_number op field i v) x = Inl e"
      "\<forall>y \<in> set ys. \<exists>r. (\<lambda>(i, v). read_number op field i v) y = Inr r"
    using rmap_first_error [OF assms [unfolded read_numbers_def]] by blast
  have len: "length ys < length col" using arg_cong [OF split(1), of length] by simp
  have x: "x = (length ys, col ! length ys)"
    using arg_cong [OF split(1), of "\<lambda>l. l ! length ys"] len by (simp add: nth_enumerate_eq)
  have "is_number (col ! j)" if "j < length ys" for j
  proof -
    have "ys ! j = (j, col ! j)"
      using arg_cong [OF split(1), of "\<lambda>l. l ! j"] len that by (simp add: nth_enumerate_eq nth_append)
    then show ?thesis using split(3) that by (force simp: read_number_cases in_set_conv_nth split: if_splits)
  qed
  then show ?thesis using split(2) len by (auto simp: x read_number_cases split: if_splits)
qed

text \<open>
  C27: the sort operator on every branch.  If it returns, its order is accepted by the frame and the
  rows come out sorted by the number in the field, ascending or descending as configured, rows with
  equal numbers in their old order.  If it throws, it has written nothing, and either the first value
  that is no number is named, or all are numbers and the configured order is neither of the two.
\<close>

theorem reorder_sort_sorts:
  fixes m :: reorder_sort_op
  assumes "frame_inv f" "frame_owned f" and "inp = operator_input_of f spec"
    and "VNum DNaN \<notin> set (in_item_column inp (rsort_field m))"
  defines "col \<equiv> in_item_column inp (rsort_field m)"
  shows "case reorder_sort_execute m ctx inp empty_output of
      (out, None) \<Rightarrow> \<exists>g is. frame_apply out name False f = Some (g, None) \<and> frame_rows g = map ((!) (frame_rows f)) is \<and>
        mset is = mset [0..<frame_item_count f] \<and>
        sorted_wrt (in_order (if rsort_order m = ''asc'' then d_lt else (\<lambda>a b. d_lt b a)) (\<lambda>i. num_of (col ! i))) is
    | (out, Some t) \<Rightarrow> out = empty_output \<and>
        ((\<exists>i < length col. \<not> is_number (col ! i) \<and> (\<forall>j < i. is_number (col ! j)) \<and>
            (\<exists>msg. t = Typed (number_error ''reorder_sort'' (rsort_field m) i msg))) \<or>
         list_all is_number col \<and> rsort_order m \<notin> {''asc'', ''desc''} \<and>
            t = Typed (exec_failure (''reorder_sort: unsupported order '' @ quoted (rsort_order m))))"
proof -
  let ?n = "frame_item_count f"
  have len: "length col = ?n" using length_item_column [OF assms(1)] assms(3) by (simp add: col_def)
  show ?thesis
  proof (cases "?n = 0")
    case True
    have "in_item_count inp = 0" using True assms(3) by (simp add: operator_input_of_def)
    moreover obtain g where "frame_apply empty_output name False f = Some (g, None)" "frame_rows g = map ((!) (frame_rows f)) []"
      using apply_removing [OF assms(1,2), of "\<lambda>_. False" name False] True by (auto simp: removing_parts(3))
    ultimately show ?thesis using True by (auto simp: reorder_sort_execute_def)
  next
    case False
    have n: "in_item_count inp \<noteq> 0" using False assms(3) by (simp add: operator_input_of_def)
    show ?thesis
    proof (cases "read_numbers ''reorder_sort'' (rsort_field m) col")
      case (Inl e)
      then show ?thesis using n read_numbers_error [OF Inl] by (auto simp: reorder_sort_execute_def col_def [symmetric] throws_def)
    next
      case (Inr vs)
      have vs: "list_all is_number col" "vs = map num_of col" using read_numbers_ok [OF Inr] by simp_all
      have ok: "\<forall>v \<in> set vs. v \<noteq> DNaN"
        using vs assms(4) by (auto simp: col_def [symmetric] list_all_iff) (metis is_number.elims(2) num_of.simps(1))
      have sorted: "\<exists>g is. frame_apply (set_item_order (sorted_indices lt vs) empty_output) name False f = Some (g, None) \<and>
          frame_rows g = map ((!) (frame_rows f)) is \<and> mset is = mset [0..<?n] \<and>
          sorted_wrt (in_order lt (\<lambda>i. num_of (col ! i))) is" if wo: "weak_order (\<lambda>d. d \<noteq> DNaN) lt" for lt
      proof -
        obtain is' where is': "sorted_indices lt vs = map int is'" "mset is' = mset [0..<?n]" "sorted_wrt (in_order lt ((!) vs)) is'"
          using sorted_indices_order [OF wo ok] by (auto simp: vs(2) len)
        have "set is' = {..<?n}" using is'(2) by (metis atLeast_upt set_mset_mset)
        then have "sorted_wrt (in_order lt (\<lambda>i. num_of (col ! i))) is'"
          using is'(3) by (auto simp: in_order_def vs(2) len intro: sorted_wrt_mono_rel [rotated])
        then show ?thesis using apply_order [OF assms(1,2) is'(2)] is'(1,2) by metis
      qed
      show ?thesis
        using n sorted [OF ascending.weak_order_axioms] sorted [OF descending.weak_order_axioms] vs(1)
        by (simp add: reorder_sort_execute_def col_def [symmetric] Inr throws_def)
    qed
  qed
qed

theorem reorder_sort_sorts_witness:
  "\<exists>g is. frame_apply (set_item_order [1, 0] empty_output) ''sort'' False demo_input_frame = Some (g, None) \<and>
     frame_rows g = map ((!) (frame_rows demo_input_frame)) is \<and>
     sorted_wrt (in_order d_lt (\<lambda>i. num_of ([VNum (dbl 3), VNum (dbl 1)] ! i))) is"
proof -
  have col: "in_item_column demo_boost (rsort_field demo_sort) = [VNum (dbl 3), VNum (dbl 1)]"
    by (simp add: demo_boost_column demo_sort_def)
  have no_nan: "VNum DNaN \<notin> set (in_item_column demo_boost (rsort_field demo_sort))" by (simp add: col dbl_def)
  have asc: "rsort_order demo_sort = ''asc''" by (simp add: demo_sort_def)
  from reorder_sort_sorts [OF demo_input_ok(1) demo_owned demo_boost_def no_nan, where ctx = None and name = "''sort''"]
  show ?thesis unfolding demo_sorts col asc by auto
qed

section \<open>Normalisation\<close>

lemma dval_of_sign: "(s \<longrightarrow> q = 0) \<Longrightarrow> dval (DFin s q) = q"
  by (cases s) simp_all

lemma min_element_least:
  assumes "isfinite best" "list_all isfinite xs"
  shows "isfinite (min_element best xs) \<and> min_element best xs \<in> set (best # xs) \<and>
    (\<forall>x \<in> set (best # xs). dval (min_element best xs) \<le> dval x)"
  using assms
proof (induction xs arbitrary: best)
  case (Cons x xs)
  have "isfinite (if d_lt x best then x else best)" using Cons.prems by simp
  from Cons.IH [OF this] Cons.prems show ?case using d_lt_dval [of x best] by (auto split: if_splits)
qed simp

lemma max_element_greatest:
  assumes "isfinite best" "list_all isfinite xs"
  shows "isfinite (max_element best xs) \<and> max_element best xs \<in> set (best # xs) \<and>
    (\<forall>x \<in> set (best # xs). dval x \<le> dval (max_element best xs))"
  using assms
proof (induction xs arbitrary: best)
  case (Cons x xs)
  have "isfinite (if d_lt best x then x else best)" using Cons.prems by simp
  from Cons.IH [OF this] Cons.prems show ?case using d_lt_dval [of best x] by (auto split: if_splits)
qed simp

lemma d_sub_finite:
  assumes "isfinite a" "isfinite b" "dval b \<le> dval a" "isfinite (d_sub a b)"
  shows "\<exists>x. round64 (dval a - dval b) = Some x \<and> 0 \<le> x"
proof -
  obtain s q t r where ab: "a = DFin s q" "b = DFin t r" using assms(1,2) by (cases a; cases b) auto
  have "round64 (dval a - dval b) \<noteq> None"
  proof (cases "dval a - dval b = 0")
    case False
    then have "d_sub a b = nearest False (dval a - dval b)"
      using assms(3) by (simp add: ab d_sub_fin Let_def del: dval.simps)
    then show ?thesis using assms(4) by (auto simp: nearest_def split: option.splits)
  qed (simp add: round64_def)
  then show ?thesis using round64_idem [of "dval a - dval b"] assms(3) by fastforce
qed

text \<open>The normalised values, by the exact differences to the smallest value.\<close>

definition unit_of :: "rat \<Rightarrow> rat \<Rightarrow> rat" where
  "unit_of rng x = the (round64 (the (round64 x) / rng))"

lemma unit_of_mono:
  assumes "0 \<le> x" "x \<le> y" "round64 y = Some b" "b \<le> rng" "0 < rng"
  shows "0 \<le> unit_of rng x" "unit_of rng x \<le> unit_of rng y" "unit_of rng y \<le> 1"
proof -
  obtain a where a: "round64 x = Some a" "0 \<le> a" "a \<le> b" using round64_mono [OF assms(1-3)] by blast
  have "0 \<le> a / rng" "a / rng \<le> b / rng" "b / rng \<le> 1" using a assms(4,5) by (simp_all add: divide_right_mono)
  then obtain d where d: "round64 (b / rng) = Some d" "0 \<le> d" "d \<le> 1"
    using round64_mono [OF _ _ round64_one, of "b / rng"] by fastforce
  then obtain c where "round64 (a / rng) = Some c" "0 \<le> c" "c \<le> d"
    using round64_mono [OF \<open>0 \<le> a / rng\<close> \<open>a / rng \<le> b / rng\<close>] by blast
  then show "0 \<le> unit_of rng x" "unit_of rng x \<le> unit_of rng y" "unit_of rng y \<le> 1"
    using a(1) assms(3) d by (simp_all add: unit_of_def)
qed

lemma normalized_value:
  assumes "isfinite v" "isfinite lo" "isfinite hi" "dval lo \<le> dval v" "dval v \<le> dval hi"
    and "d_sub hi lo = DFin s rng" "s \<longrightarrow> rng = 0" "0 < rng" "round64 (dval hi - dval lo) = Some rng"
  shows "isfinite (d_div (d_sub v lo) (d_sub hi lo)) \<and>
    dval (d_div (d_sub v lo) (d_sub hi lo)) = unit_of rng (dval v - dval lo)"
proof -
  obtain a where a: "round64 (dval v - dval lo) = Some a" "0 \<le> a" "a \<le> rng"
    using round64_mono [of "dval v - dval lo" "dval hi - dval lo" rng] assms(4,5,9) by auto
  obtain t where t: "d_sub v lo = DFin t a" "t \<longrightarrow> a = 0" using d_sub_value [OF assms(1,2,4) a(1)] by blast
  obtain c where c: "d_div (DFin t a) (DFin s rng) = DFin (t \<noteq> s) c" "round64 (a / rng) = Some c" "0 \<le> c"
    using d_div_unit [OF a(2,3) assms(8)] by blast
  have "t \<noteq> s \<longrightarrow> c = 0" using t(2) assms(7,8) c(2) by (auto simp: round64_def)
  then have "dval (DFin (t \<noteq> s) c) = c" by (rule dval_of_sign)
  then show ?thesis using c a(1) by (simp add: t(1) assms(6) unit_of_def del: dval.simps)
qed

lemma min_max_facts:
  assumes "vals \<noteq> []" "list_all isfinite vals"
  defines "lo \<equiv> min_element (hd vals) (tl vals)" and "hi \<equiv> max_element (hd vals) (tl vals)"
  assumes "isfinite (d_sub hi lo)"
  shows "length (min_max_normalized vals) = length vals"
    "\<forall>i < length vals. isfinite (min_max_normalized vals ! i) \<and> 0 \<le> dval (min_max_normalized vals ! i) \<and>
       dval (min_max_normalized vals ! i) \<le> 1"
    "\<forall>i < length vals. \<forall>j < length vals. dval (vals ! i) \<le> dval (vals ! j) \<longrightarrow>
       dval (min_max_normalized vals ! i) \<le> dval (min_max_normalized vals ! j)"
proof -
  obtain v0 vs where v0: "vals = v0 # vs" using assms(1) by (cases vals) auto
  note lo = min_element_least [of v0 vs] and hi = max_element_greatest [of v0 vs]
  have L: "isfinite lo" "\<forall>v \<in> set vals. dval lo \<le> dval v" and H: "isfinite hi" "\<forall>v \<in> set vals. dval v \<le> dval hi"
    using lo hi assms(2) by (simp_all add: v0 lo_def hi_def)
  have le: "dval lo \<le> dval hi" using L H by (force simp: v0)
  obtain rng where rng: "round64 (dval hi - dval lo) = Some rng" "0 \<le> rng"
    using d_sub_finite [OF H(1) L(1) le assms(5)] by blast
  obtain s where s: "d_sub hi lo = DFin s rng" "s \<longrightarrow> rng = 0" using d_sub_value [OF H(1) L(1) le rng(1)] by blast
  have norm: "min_max_normalized vals = (if rng = 0 then map (\<lambda>_. DFin False 0) vals
      else map (\<lambda>v. d_div (d_sub v lo) (d_sub hi lo)) vals)"
    by (simp add: min_max_normalized_def Let_def lo_def [symmetric] hi_def [symmetric] s(1))
  show "length (min_max_normalized vals) = length vals" by (simp add: norm)
  have "(\<forall>i < length vals. isfinite (min_max_normalized vals ! i) \<and> 0 \<le> dval (min_max_normalized vals ! i) \<and>
       dval (min_max_normalized vals ! i) \<le> 1) \<and>
    (\<forall>i < length vals. \<forall>j < length vals. dval (vals ! i) \<le> dval (vals ! j) \<longrightarrow>
       dval (min_max_normalized vals ! i) \<le> dval (min_max_normalized vals ! j))"
  proof (cases "rng = 0")
    case False
    then have pos: "0 < rng" using rng(2) by simp
    have at: "isfinite (min_max_normalized vals ! i) \<and> dval (min_max_normalized vals ! i) = unit_of rng (dval (vals ! i) - dval lo)"
      if "i < length vals" for i
      using normalized_value [OF _ L(1) H(1) _ _ s(1,2) pos rng(1), of "vals ! i"] that L(2) H(2) assms(2) False
      by (simp add: norm list_all_length)
    have mono: "0 \<le> unit_of rng (dval (vals ! i) - dval lo) \<and>
        unit_of rng (dval (vals ! i) - dval lo) \<le> unit_of rng (dval (vals ! j) - dval lo) \<and> unit_of rng (dval (vals ! j) - dval lo) \<le> 1"
      if ij: "i < length vals" "j < length vals" "dval (vals ! i) \<le> dval (vals ! j)" for i j
    proof -
      have b: "dval lo \<le> dval (vals ! i)" "dval (vals ! j) \<le> dval hi" using ij L(2) H(2) by simp_all
      then obtain b where "round64 (dval (vals ! j) - dval lo) = Some b" "b \<le> rng"
        using round64_mono [of "dval (vals ! j) - dval lo" "dval hi - dval lo" rng] rng(1) ij(3) by auto
      then show ?thesis
        using unit_of_mono [of "dval (vals ! i) - dval lo" "dval (vals ! j) - dval lo" b rng] b(1) ij(3) pos by simp
    qed
    have "\<forall>i < length vals. isfinite (min_max_normalized vals ! i) \<and> 0 \<le> dval (min_max_normalized vals ! i) \<and>
       dval (min_max_normalized vals ! i) \<le> 1"
      using at mono by fastforce
    moreover have "\<forall>i < length vals. \<forall>j < length vals. dval (vals ! i) \<le> dval (vals ! j) \<longrightarrow>
       dval (min_max_normalized vals ! i) \<le> dval (min_max_normalized vals ! j)"
      using at mono by simp
    ultimately show ?thesis by blast
  qed (simp add: norm)
  then show "\<forall>i < length vals. isfinite (min_max_normalized vals ! i) \<and> 0 \<le> dval (min_max_normalized vals ! i) \<and>
       dval (min_max_normalized vals ! i) \<le> 1"
    "\<forall>i < length vals. \<forall>j < length vals. dval (vals ! i) \<le> dval (vals ! j) \<longrightarrow>
       dval (min_max_normalized vals ! i) \<le> dval (min_max_normalized vals ! j)"
    by blast+
qed

lemma apply_column:
  assumes "frame_inv f" "frame_owned f" and "length vals = frame_item_count f" "list_all isfinite vals"
  shows "\<exists>g. frame_apply (set_item_column_double field vals empty_output) name r f = Some (g, None)"
proof -
  let ?out = "set_item_column_double field vals empty_output"
  have out: "output_ok ?out" "output_num_ok ?out"
    by (simp_all add: set_item_column_double_def empty_output_def output_ok_def output_num_ok_def)
  have "list_all isfinite ds \<Longrightarrow> first_non_finite k ds = None" for k ds
    by (induction ds arbitrary: k) auto
  then have "check_column_write name (length (a_rows (frame_abs f))) (field, vals) = None"
    using assms(3,4) by (simp add: check_column_write_def fr.count_abs [OF assms(1)])
  moreover have "af_removals name [] b = (b, None)" for b
    using map_nth [of "a_rows b"] by (simp add: af_removals_def check_then_def kept_indices_def)
  ultimately have "snd (af_apply_output ?out name r (frame_abs f)) = None"
    by (simp add: af_apply_output_def set_item_column_double_def empty_output_def af_column_write_def check_then_def
        af_reorder_def frame_warning_def)
  then show ?thesis using fr.apply_step [OF assms(1,2) out, of name r] by auto
qed

text \<open>
  C29: normalisation stays in the unit interval.  On a field of finite numbers whose range does not
  overflow, the operator writes one number per item, finite, between 0 and 1, larger values never
  below smaller ones, whatever the roundings of the subtraction and the division; and the frame
  accepts the column.
\<close>

theorem normalize_bounds:
  fixes m :: transform_normalize_op
  assumes "frame_inv f" "frame_owned f" "0 < frame_item_count f" and "inp = operator_input_of f spec"
    and "tnorm_item_input m = field # fs" "tnorm_item_output m = out_field # os"
  defines "vals \<equiv> map num_of (in_item_column inp field)"
  assumes "list_all is_number (in_item_column inp field)" "list_all isfinite vals"
    and "isfinite (d_sub (max_element (hd vals) (tl vals)) (min_element (hd vals) (tl vals)))"
  shows "\<exists>norms g. transform_normalize_execute m ctx inp empty_output = (set_item_column_double out_field norms empty_output, None) \<and>
    frame_apply (set_item_column_double out_field norms empty_output) name False f = Some (g, None) \<and>
    length norms = frame_item_count f \<and> (\<forall>d \<in> set norms. isfinite d \<and> 0 \<le> dval d \<and> dval d \<le> 1) \<and>
    (\<forall>i < length norms. \<forall>j < length norms. dval (vals ! i) \<le> dval (vals ! j) \<longrightarrow> dval (norms ! i) \<le> dval (norms ! j))"
proof -
  let ?norms = "min_max_normalized vals"
  have len: "length vals = frame_item_count f" using length_item_column [OF assms(1)] assms(4) by (simp add: vals_def)
  have "vals \<noteq> []" using len assms(3) by auto
  note facts = min_max_facts [OF this assms(9,10)]
  have "read_numbers op field (in_item_column inp field) = Inr vals" for op
    using assms(8) read_numbers_ok [of op field "in_item_column inp field"] read_numbers_error [of op field "in_item_column inp field"]
    by (cases "read_numbers op field (in_item_column inp field)") (auto simp: vals_def list_all_length)
  moreover have "in_item_count inp \<noteq> 0" using assms(3,4) by (simp add: operator_input_of_def)
  ultimately have out: "transform_normalize_execute m ctx inp empty_output = (set_item_column_double out_field ?norms empty_output, None)"
    using assms(5,6) by (simp add: transform_normalize_execute_def)
  have "list_all isfinite ?norms" using facts(1,2) by (simp add: list_all_length)
  from apply_column [OF assms(1,2) facts(1) [unfolded len] this] obtain g
    where "frame_apply (set_item_column_double out_field ?norms empty_output) name False f = Some (g, None)"
    by blast
  then show ?thesis using out facts len by (auto simp: in_set_conv_nth intro!: exI [of _ ?norms])
qed

definition demo_normalize :: transform_normalize_op where
  "demo_normalize = \<lparr>tnorm_op_name = ''norm'', tnorm_item_input = [''boost''], tnorm_item_output = [''unit'']\<rparr>"

theorem normalize_bounds_witness:
  "\<exists>norms g. transform_normalize_execute demo_normalize None demo_boost empty_output =
       (set_item_column_double ''unit'' norms empty_output, None) \<and>
     frame_apply (set_item_column_double ''unit'' norms empty_output) ''norm'' False demo_input_frame = Some (g, None) \<and>
     length norms = 2"
proof -
  have col: "map num_of (in_item_column demo_boost ''boost'') = [DFin False 3, DFin False 1]"
      "list_all is_number (in_item_column demo_boost ''boost'')"
    by (simp_all add: demo_boost_column dbl_def)
  have "isfinite (d_sub (max_element (DFin False 3) [DFin False 1]) (min_element (DFin False 3) [DFin False 1]))" by code_simp
  then have rng: "isfinite (d_sub (max_element (hd (map num_of (in_item_column demo_boost ''boost'')))
      (tl (map num_of (in_item_column demo_boost ''boost''))))
    (min_element (hd (map num_of (in_item_column demo_boost ''boost''))) (tl (map num_of (in_item_column demo_boost ''boost'')))))"
    by (simp add: col(1))
  have "tnorm_item_input demo_normalize = [''boost'']" "tnorm_item_output demo_normalize = [''unit'']"
      "0 < frame_item_count demo_input_frame" "list_all isfinite (map num_of (in_item_column demo_boost ''boost''))"
    by (simp_all add: demo_normalize_def demo_input_ok(2) col(1))
  from normalize_bounds [OF demo_input_ok(1) demo_owned this(3) demo_boost_def this(1,2) col(2) this(4) rng,
      where ctx = None and name = "''norm''"]
  show ?thesis unfolding demo_input_ok(2) by blast
qed

end
