(* ===== verification/Ssrf.thy ===== *)
theory Ssrf
  imports Values
begin

text \<open>
  The guard against server-side request forgery (\<open>src/http/ssrf.cpp\<close>).  The address parsers, the
  resolver and the printer of addresses are functions of the C library: \<open>net\<close> collects them as
  parameters.  An IPv6 address is its sixteen bytes.
\<close>

unbundle bit_operations_syntax

section \<open>Addresses\<close>

type_synonym in6_addr = "8 word list"

definition octet :: "32 word \<Rightarrow> nat \<Rightarrow> 8 word" where
  "octet ip k = ucast (drop_bit k ip AND 0xff)"

definition ipv4_is_private :: "32 word \<Rightarrow> bool" where
  "ipv4_is_private ip =
     (let a = octet ip 24; b = octet ip 16; c = octet ip 8
      in if a = 0 \<or> a = 10 \<or> a = 127 then True
         else if a = 172 \<and> b AND 0xf0 = 16 then True
         else if a = 169 \<and> b = 254 then True
         else if a = 192 \<and> b = 168 then True
         else if a = 100 \<and> b AND 0xc0 = 64 then True
         else if a = 192 \<and> b = 0 \<and> c = 0 then True
         else if a = 192 \<and> b = 0 \<and> c = 2 then True
         else if a = 192 \<and> b = 88 \<and> c = 99 then True
         else if a = 198 \<and> b = 51 \<and> c = 100 then True
         else if a = 203 \<and> b = 0 \<and> c = 113 then True
         else if a = 198 \<and> (b = 18 \<or> b = 19) then True
         else a \<ge> 224)"

text \<open>The classification macros of \<open>netinet/in.h\<close>.\<close>

definition is_loopback :: "in6_addr \<Rightarrow> bool" where "is_loopback a \<longleftrightarrow> a = replicate 15 0 @ [1]"
definition is_unspecified :: "in6_addr \<Rightarrow> bool" where "is_unspecified a \<longleftrightarrow> a = replicate 16 0"
definition is_linklocal :: "in6_addr \<Rightarrow> bool" where "is_linklocal a \<longleftrightarrow> a ! 0 = 0xfe \<and> a ! 1 AND 0xc0 = 0x80"
definition is_sitelocal :: "in6_addr \<Rightarrow> bool" where "is_sitelocal a \<longleftrightarrow> a ! 0 = 0xfe \<and> a ! 1 AND 0xc0 = 0xc0"
definition is_multicast :: "in6_addr \<Rightarrow> bool" where "is_multicast a \<longleftrightarrow> a ! 0 = 0xff"
definition is_v4mapped :: "in6_addr \<Rightarrow> bool" where "is_v4mapped a \<longleftrightarrow> take 12 a = replicate 10 0 @ [0xff, 0xff]"

definition mapped_ipv4 :: "in6_addr \<Rightarrow> 32 word" where
  "mapped_ipv4 a =
     push_bit 24 (ucast (a ! 12)) OR push_bit 16 (ucast (a ! 13)) OR push_bit 8 (ucast (a ! 14)) OR ucast (a ! 15)"

definition ipv6_is_private :: "in6_addr \<Rightarrow> bool" where
  "ipv6_is_private a =
     (if is_loopback a then True
      else if is_linklocal a then True
      else if is_sitelocal a then True
      else if is_unspecified a then True
      else if is_multicast a then True
      else if a ! 0 AND 0xfe = 0xfc then True
      else if a ! 0 = 0x01 \<and> a ! 1 = 0 \<and> a ! 2 = 0 \<and> a ! 3 = 0 \<and> a ! 4 = 0 \<and> a ! 5 = 0 \<and> a ! 6 = 0 \<and> a ! 7 = 0 then True
      else if a ! 0 = 0x20 \<and> a ! 1 = 0x01 \<and> a ! 2 = 0x0d \<and> a ! 3 = 0xb8 then True
      else if is_v4mapped a then ipv4_is_private (mapped_ipv4 a)
      else False)"

datatype sockaddr = SockIn "32 word" | SockIn6 in6_addr | SockOther

definition sockaddr_is_private :: "sockaddr option \<Rightarrow> bool" where
  "sockaddr_is_private sa =
     (case sa of
        None \<Rightarrow> False
      | Some (SockIn ip) \<Rightarrow> ipv4_is_private ip
      | Some (SockIn6 a) \<Rightarrow> ipv6_is_private a
      | Some SockOther \<Rightarrow> False)"

section \<open>Hosts\<close>

text \<open>
  \<open>nt_pton4\<close> and \<open>nt_pton6\<close> are \<open>inet_pton\<close>, \<open>nt_resolve\<close> is \<open>getaddrinfo\<close> (\<open>None\<close> on failure),
  \<open>nt_ntop\<close> is \<open>inet_ntop\<close>.
\<close>

record net =
  nt_pton4 :: "string \<Rightarrow> 32 word option"
  nt_pton6 :: "string \<Rightarrow> in6_addr option"
  nt_resolve :: "string \<Rightarrow> sockaddr list option"
  nt_ntop :: "sockaddr \<Rightarrow> string"

definition ip_literal_is_private :: "net \<Rightarrow> string \<Rightarrow> bool" where
  "ip_literal_is_private nt ip =
     (case nt_pton4 nt ip of
        Some v4 \<Rightarrow> ipv4_is_private v4
      | None \<Rightarrow> (case nt_pton6 nt ip of Some v6 \<Rightarrow> ipv6_is_private v6 | None \<Rightarrow> False))"

text \<open>\<open>std::tolower\<close>, \<open>std::isdigit\<close> and \<open>std::isalnum\<close> in the C locale.\<close>

definition char_lower :: "char \<Rightarrow> char" where
  "char_lower c = (let n = of_char c :: nat in if 65 \<le> n \<and> n \<le> 90 then char_of (n + 32) else c)"

definition char_digit :: "char \<Rightarrow> bool" where
  "char_digit c \<longleftrightarrow> (let n = of_char c :: nat in 48 \<le> n \<and> n \<le> 57)"

definition char_alnum :: "char \<Rightarrow> bool" where
  "char_alnum c \<longleftrightarrow> char_digit c \<or> (let n = of_char (char_lower c) :: nat in 97 \<le> n \<and> n \<le> 122)"

definition to_lower :: "string \<Rightarrow> string" where
  "to_lower s = map char_lower s"

text \<open>The loop over a host with a dot: whether it met only digits and dots, and one more than the dots.\<close>

fun scan_segments :: "string \<Rightarrow> nat \<Rightarrow> bool \<times> nat" where
  "scan_segments [] segments = (True, segments)"
| "scan_segments (c # cs) segments =
     (if c = CHR ''.'' then scan_segments cs (Suc segments)
      else if \<not> char_digit c then (False, segments)
      else scan_segments cs segments)"

definition looks_like_obfuscated_ipv4 :: "string \<Rightarrow> bool" where
  "looks_like_obfuscated_ipv4 host =
     (if host = [] then False
      else if length host \<ge> 2 \<and> host ! 0 = CHR ''0'' \<and> (host ! 1 = CHR ''x'' \<or> host ! 1 = CHR ''X'') then True
      else if list_all char_digit host then True
      else if CHR ''.'' \<in> set host
      then let (all_numeric, segments) = scan_segments host 1 in all_numeric \<and> segments \<noteq> 4
      else False)"

definition host_char :: "char \<Rightarrow> bool" where
  "host_char c \<longleftrightarrow> char_alnum c \<or> c = CHR ''-'' \<or> c = CHR ''.'' \<or> c = CHR '':''"

text \<open>The verdict and, when it is positive, the reason.\<close>

definition host_is_private :: "net \<Rightarrow> string \<Rightarrow> string option" where
  "host_is_private nt host =
     (if to_lower host = [] \<or> to_lower host = ''localhost''
      then Some (''host '' @ quoted host @ '' is not allowed (private/loopback)'')
      else if \<not> list_all host_char host
      then Some (''host '' @ quoted host @
             '' contains invalid character; only RFC 1123 hostnames and IPv6 literals are accepted'')
      else if looks_like_obfuscated_ipv4 host
      then Some (''host '' @ quoted host @
             '' looks like a non-canonical IPv4 literal (rejected to defeat SSRF evasion)'')
      else case nt_pton4 nt host of
        Some v4 \<Rightarrow>
          if ipv4_is_private v4 then Some (''host '' @ quoted host @ '' is a private/loopback address'') else None
      | None \<Rightarrow>
          case nt_pton6 nt host of
            Some v6 \<Rightarrow>
              if ipv6_is_private v6 then Some (''host '' @ quoted host @ '' is a private/loopback address'') else None
          | None \<Rightarrow>
              case nt_resolve nt host of
                None \<Rightarrow> None
              | Some addrs \<Rightarrow>
                  case find (\<lambda>sa. sockaddr_is_private (Some sa)) addrs of
                    Some sa \<Rightarrow> Some (''host '' @ quoted host @ '' resolves to private address '' @ nt_ntop nt sa)
                  | None \<Rightarrow> None)"

text \<open>Safe to use, or the reason why not.\<close>

definition validate_remote_host :: "net \<Rightarrow> string \<Rightarrow> bool \<times> string" where
  "validate_remote_host nt host = (case host_is_private nt host of Some reason \<Rightarrow> (False, reason) | None \<Rightarrow> (True, []))"

end
