(* ===== verification/Ssrf_Theorems.thy ===== *)
theory Ssrf_Theorems
  imports Ssrf
begin

text \<open>
  What the guard rejects: the IPv4 test against the registry of special-purpose blocks it cites, and
  what an accepted host can denote.
\<close>

section \<open>The blocks\<close>

text \<open>The blocks of the comment in the source: the first address and the length of the prefix.\<close>

definition dotted :: "nat \<Rightarrow> nat \<Rightarrow> nat \<Rightarrow> nat \<Rightarrow> nat" where
  "dotted a b c d = ((a * 256 + b) * 256 + c) * 256 + d"

definition special_blocks :: "(nat \<times> nat) list" where
  "special_blocks =
     [(dotted 0 0 0 0, 8), (dotted 10 0 0 0, 8), (dotted 100 64 0 0, 10), (dotted 127 0 0 0, 8), (dotted 169 254 0 0, 16),
      (dotted 172 16 0 0, 12), (dotted 192 0 0 0, 24), (dotted 192 0 2 0, 24), (dotted 192 88 99 0, 24),
      (dotted 192 168 0 0, 16), (dotted 198 18 0 0, 15), (dotted 198 51 100 0, 24), (dotted 203 0 113 0, 24),
      (dotted 224 0 0 0, 4), (dotted 240 0 0 0, 4)]"

definition in_block :: "32 word \<Rightarrow> nat \<times> nat \<Rightarrow> bool" where
  "in_block ip blk \<longleftrightarrow> unat ip div 2 ^ (32 - snd blk) = fst blk div 2 ^ (32 - snd blk)"

lemma unat_octet: "unat (octet ip k) = unat ip div 2 ^ k mod 256"
proof -
  have "drop_bit k ip AND 0xff = take_bit 8 (drop_bit k ip)"
    by (simp add: take_bit_eq_mask mask_eq_exp_minus_1)
  moreover have "unat ip < 4294967296" using unsigned_less [of ip, where 'a = nat] by simp
  ultimately show ?thesis
    by (simp add: octet_def unsigned_ucast_eq unsigned_take_bit_eq unsigned_drop_bit_eq)
      (simp add: take_bit_eq_mod drop_bit_eq_div)
qed

lemma and_prefix: "(b :: 8 word) AND push_bit k (mask (8 - k)) = push_bit k (drop_bit k b)"
  by (rule bit_word_eqI) (auto simp: bit_simps)

lemma unat_prefix: "unat (push_bit k (drop_bit k (b :: 8 word))) = unat b div 2 ^ k * 2 ^ k"
proof -
  have b: "unat b < 2 ^ 8" using unsigned_less [of b, where 'a = nat] by simp
  then have "unat b div 2 ^ k * 2 ^ k < 2 ^ 8" by (rule le_less_trans [OF div_times_less_eq_dividend])
  moreover have "unat (drop_bit k b) = unat b div 2 ^ k"
    unfolding unsigned_drop_bit_eq using b by (simp add: drop_bit_eq_div take_bit_eq_mod)
  ultimately show ?thesis
    unfolding unsigned_push_bit_eq by (simp add: push_bit_eq_mult take_bit_eq_mod)
qed

lemma and_high:
  "unat ((b :: 8 word) AND 0xf0) = unat b div 16 * 16" "unat (b AND 0xc0) = unat b div 64 * 64"
  "unat (b AND 0xfe) = unat b div 2 * 2"
  using and_prefix [of b 4] and_prefix [of b 6] and_prefix [of b 1] unat_prefix [of 4 b] unat_prefix [of 6 b] unat_prefix [of 1 b]
  by (simp_all add: mask_eq_exp_minus_1 push_bit_eq_mult)

lemma word8_eq: "(w :: 8 word) = v \<longleftrightarrow> unat w = unat v"
  by (simp add: word_unat_eq_iff)

text \<open>The tests on the octets, over the whole address.\<close>

lemma octet_tests:
  fixes n :: nat
  assumes "n < 2 ^ 32"
  defines "a \<equiv> n div 2 ^ 24 mod 256" and "b \<equiv> n div 2 ^ 16 mod 256" and "c \<equiv> n div 2 ^ 8 mod 256"
  shows "a = n div 2 ^ 24" "a * 256 + b = n div 2 ^ 16" "(a * 256 + b) * 256 + c = n div 2 ^ 8"
proof -
  show a: "a = n div 2 ^ 24" using assms(1) by (simp add: a_def less_mult_imp_div_less)
  have "n div 2 ^ 24 = n div 2 ^ 16 div 256" by (simp add: div_mult2_eq [symmetric])
  then show b: "a * 256 + b = n div 2 ^ 16" unfolding a b_def by (simp add: mult.commute)
  have "n div 2 ^ 16 = n div 2 ^ 8 div 256" by (simp add: div_mult2_eq [symmetric])
  then show "(a * 256 + b) * 256 + c = n div 2 ^ 8" unfolding b c_def by (simp add: mult.commute)
qed

lemma octet_prefixes:
  fixes a b n :: nat
  assumes "a * 256 + b = n div 2 ^ 16" "b < 256" "a = n div 2 ^ 24"
  shows "n div 2 ^ 20 = a * 16 + b div 16" "n div 2 ^ 22 = a * 4 + b div 64" "n div 2 ^ 17 = a * 128 + b div 2" "n div 2 ^ 28 = a div 16"
proof -
  have shift: "(a * 256 + b) div 16 = a * 16 + b div 16" "(a * 256 + b) div 64 = a * 4 + b div 64"
      "(a * 256 + b) div 2 = a * 128 + b div 2"
    by presburger+
  have "n div 2 ^ 20 = (n div 2 ^ 16) div 16" "n div 2 ^ 22 = (n div 2 ^ 16) div 64" "n div 2 ^ 17 = (n div 2 ^ 16) div 2"
      "n div 2 ^ 28 = n div 2 ^ 24 div 16"
    by (simp_all add: div_mult2_eq [symmetric])
  then show "n div 2 ^ 20 = a * 16 + b div 16" "n div 2 ^ 22 = a * 4 + b div 64" "n div 2 ^ 17 = a * 128 + b div 2"
      "n div 2 ^ 28 = a div 16"
    unfolding assms(1) [symmetric] assms(3) [symmetric] by (simp_all only: shift)
qed

lemma digit_eq:
  fixes a b m x y :: nat
  assumes "b < m" "y < m"
  shows "a * m + b = x * m + y \<longleftrightarrow> a = x \<and> b = y"
proof
  assume eq: "a * m + b = x * m + y"
  have "(a * m + b) div m = a" "(x * m + y) div m = x" using assms by simp_all
  then show "a = x \<and> b = y" using eq by simp
qed simp

text \<open>
  C39: the IPv4 test of the guard is membership in the registry of special-purpose blocks: an address
  is rejected exactly when it lies in one of the fifteen blocks the comment lists.
\<close>

theorem ipv4_is_private_iff: "ipv4_is_private ip \<longleftrightarrow> list_ex (in_block ip) special_blocks"
proof -
  let ?n = "unat ip"
  define a where "a = ?n div 2 ^ 24 mod 256"
  define b where "b = ?n div 2 ^ 16 mod 256"
  define c where "c = ?n div 2 ^ 8 mod 256"
  have n: "?n < 2 ^ 32" using unsigned_less [of ip, where 'a = nat] by simp
  have lt: "a < 256" "b < 256" "c < 256" by (simp_all add: a_def b_def c_def)
  note T = octet_tests [OF n, folded a_def b_def c_def]
  note P = octet_prefixes [OF T(2) lt(2) T(1)]
  have code: "ipv4_is_private ip \<longleftrightarrow> a = 0 \<or> a = 10 \<or> a = 127 \<or> (a = 172 \<and> b div 16 * 16 = 16) \<or> (a = 169 \<and> b = 254) \<or>
      (a = 192 \<and> b = 168) \<or> (a = 100 \<and> b div 64 * 64 = 64) \<or> (a = 192 \<and> b = 0 \<and> c = 0) \<or> (a = 192 \<and> b = 0 \<and> c = 2) \<or>
      (a = 192 \<and> b = 88 \<and> c = 99) \<or> (a = 198 \<and> b = 51 \<and> c = 100) \<or> (a = 203 \<and> b = 0 \<and> c = 113) \<or>
      (a = 198 \<and> (b = 18 \<or> b = 19)) \<or> 224 \<le> a"
  proof -
    have chain: "(if P then True else Q) \<longleftrightarrow> P \<or> Q" for P Q by simp
    have nums: "unat (0 :: 8 word) = 0" "unat (2 :: 8 word) = 2" "unat (10 :: 8 word) = 10" "unat (16 :: 8 word) = 16"
      "unat (18 :: 8 word) = 18" "unat (19 :: 8 word) = 19" "unat (51 :: 8 word) = 51" "unat (64 :: 8 word) = 64"
      "unat (88 :: 8 word) = 88" "unat (99 :: 8 word) = 99" "unat (100 :: 8 word) = 100" "unat (113 :: 8 word) = 113"
      "unat (127 :: 8 word) = 127" "unat (168 :: 8 word) = 168" "unat (169 :: 8 word) = 169" "unat (172 :: 8 word) = 172"
      "unat (192 :: 8 word) = 192" "unat (198 :: 8 word) = 198" "unat (203 :: 8 word) = 203" "unat (224 :: 8 word) = 224"
      "unat (254 :: 8 word) = 254"
      by simp_all
    show ?thesis
      unfolding ipv4_is_private_def Let_def chain word8_eq word_le_nat_alt and_high nums unat_octet a_def b_def c_def by argo
  qed
  have spec: "list_ex (in_block ip) special_blocks \<longleftrightarrow>
      a = 0 \<or> a = 10 \<or> ?n div 2 ^ 22 = 401 \<or> a = 127 \<or> ?n div 2 ^ 16 = 43518 \<or> ?n div 2 ^ 20 = 2753 \<or>
      ?n div 2 ^ 8 = 12582912 \<or> ?n div 2 ^ 8 = 12582914 \<or> ?n div 2 ^ 8 = 12605539 \<or> ?n div 2 ^ 16 = 49320 \<or>
      ?n div 2 ^ 17 = 25353 \<or> ?n div 2 ^ 8 = 12989284 \<or> ?n div 2 ^ 8 = 13303921 \<or> ?n div 2 ^ 28 = 14 \<or> ?n div 2 ^ 28 = 15"
    unfolding T(1) by (simp add: special_blocks_def in_block_def dotted_def)
  note two = digit_eq [where m = 256, OF lt(2)]
  have three: "(a * 256 + b) * 256 + c = (x * 256 + y) * 256 + z \<longleftrightarrow> a = x \<and> b = y \<and> c = z" if "y < 256" "z < 256" for x y z
    by (simp only: digit_eq [where m = 256, OF lt(3) that(2)] two [OF that(1)] conj_assoc)
  have F1: "(a = 172 \<and> b div 16 * 16 = 16) \<longleftrightarrow> a * 16 + b div 16 = 2753"
    using digit_eq [of "b div 16" 16 1 a 172] lt(2) by (simp add: less_mult_imp_div_less)
  have F2: "(a = 169 \<and> b = 254) \<longleftrightarrow> a * 256 + b = 43518" using two [of 254 a 169] by simp
  have F3: "(a = 192 \<and> b = 168) \<longleftrightarrow> a * 256 + b = 49320" using two [of 168 a 192] by simp
  have F4: "(a = 100 \<and> b div 64 * 64 = 64) \<longleftrightarrow> a * 4 + b div 64 = 401"
    using digit_eq [of "b div 64" 4 1 a 100] lt(2) by (simp add: less_mult_imp_div_less)
  have F5: "(a = 192 \<and> b = 0 \<and> c = 0) \<longleftrightarrow> (a * 256 + b) * 256 + c = 12582912" using three [of 0 0 192] by simp
  have F6: "(a = 192 \<and> b = 0 \<and> c = 2) \<longleftrightarrow> (a * 256 + b) * 256 + c = 12582914" using three [of 0 2 192] by simp
  have F7: "(a = 192 \<and> b = 88 \<and> c = 99) \<longleftrightarrow> (a * 256 + b) * 256 + c = 12605539" using three [of 88 99 192] by simp
  have F8: "(a = 198 \<and> b = 51 \<and> c = 100) \<longleftrightarrow> (a * 256 + b) * 256 + c = 12989284" using three [of 51 100 198] by simp
  have F9: "(a = 203 \<and> b = 0 \<and> c = 113) \<longleftrightarrow> (a * 256 + b) * 256 + c = 13303921" using three [of 0 113 203] by simp
  have F10: "(a = 198 \<and> (b = 18 \<or> b = 19)) \<longleftrightarrow> a * 128 + b div 2 = 25353"
    using digit_eq [of "b div 2" 128 9 a 198] lt(2) by (auto simp: less_mult_imp_div_less)
  have F11: "224 \<le> a \<longleftrightarrow> a div 16 = 14 \<or> a div 16 = 15"
  proof -
    have "a div 16 < 16" using lt(1) by (simp add: less_mult_imp_div_less)
    moreover have "224 \<le> a \<longleftrightarrow> 14 \<le> a div 16" by (simp add: less_eq_div_iff_mult_less_eq)
    ultimately show ?thesis by (auto simp: le_less_Suc_eq)
  qed
  show ?thesis
    unfolding code spec P T(2,3) [symmetric] F1 F2 F3 F4 F5 F6 F7 F8 F9 F10 F11 by (simp only: disj_ac)
qed

text \<open>
  What the operating system may connect to for a host: the literal address, or the addresses its name
  resolves to.
\<close>

fun denotes :: "net \<Rightarrow> string \<Rightarrow> sockaddr list" where
  "denotes nt host =
     (case nt_pton4 nt host of
        Some v4 \<Rightarrow> [SockIn v4]
      | None \<Rightarrow> (case nt_pton6 nt host of
          Some v6 \<Rightarrow> [SockIn6 v6]
        | None \<Rightarrow> (case nt_resolve nt host of Some addrs \<Rightarrow> addrs | None \<Rightarrow> [])))"

lemma scan_segments_numeric:
  "scan_segments s k = (True, m) \<Longrightarrow> list_all (\<lambda>c. c = CHR ''.'' \<or> char_digit c) s \<and> m = k + count_list s CHR ''.''"
  by (induction s k rule: scan_segments.induct) (auto split: if_splits)

lemma scan_segments_stops:
  "list_all (\<lambda>c. c = CHR ''.'' \<or> char_digit c) s \<Longrightarrow> scan_segments s k = (True, k + count_list s CHR ''.'')"
  by (induction s arbitrary: k) (auto simp: char_digit_def)

lemma not_obfuscated:
  assumes "host \<noteq> []" "\<not> looks_like_obfuscated_ipv4 host"
  shows "\<not> list_all char_digit host"
    "CHR ''.'' \<in> set host \<Longrightarrow> fst (scan_segments host 1) \<Longrightarrow> snd (scan_segments host 1) = 4"
  using assms unfolding looks_like_obfuscated_ipv4_def
  by (simp_all add: case_prod_beta split: if_split_asm)

text \<open>
  C38: what an accepted host can be.  None of the addresses it denotes at that moment is private; it is
  neither empty nor \<open>localhost\<close> in any case, and only has letters, digits, dots, hyphens and colons; it does not begin like a hexadecimal number,
  with \<open>0x\<close> or \<open>0X\<close>; and if it has only digits and dots, it has exactly the three dots of a canonical IPv4 address.
\<close>

theorem accepted_host_is_public:
  assumes "validate_remote_host nt host = (True, reason)"
  shows "list_all (\<lambda>sa. \<not> sockaddr_is_private (Some sa)) (denotes nt host) \<and>
    host \<noteq> [] \<and> to_lower host \<noteq> ''localhost'' \<and> list_all host_char host \<and>
    take 2 host \<noteq> ''0x'' \<and> take 2 host \<noteq> ''0X'' \<and>
    (list_all (\<lambda>c. c = CHR ''.'' \<or> char_digit c) host \<longrightarrow> count_list host CHR ''.'' = 3)"
proof -
  have none: "host_is_private nt host = None"
    using assms by (simp add: validate_remote_host_def split: option.splits)
  then have syn: "host \<noteq> []" "list_all host_char host" "\<not> looks_like_obfuscated_ipv4 host"
    by (auto simp: host_is_private_def to_lower_def split: if_splits)
  have local: "to_lower host \<noteq> ''localhost''" using none by (auto simp: host_is_private_def)
  have hex: "take 2 host \<noteq> ''0x''" "take 2 host \<noteq> ''0X''"
  proof -
    have "looks_like_obfuscated_ipv4 (a # b # rest)" if "a = CHR ''0''" "b = CHR ''x'' \<or> b = CHR ''X''" for a b rest
      using that by (auto simp: looks_like_obfuscated_ipv4_def)
    then show "take 2 host \<noteq> ''0x''" "take 2 host \<noteq> ''0X''"
      using syn(3) by (cases host; cases "tl host"; auto)+
  qed
  have "list_all (\<lambda>sa. \<not> sockaddr_is_private (Some sa)) (denotes nt host)"
    using none by (auto simp: host_is_private_def sockaddr_is_private_def list_all_iff find_None_iff
        split: if_splits option.splits)
  moreover have "count_list host CHR ''.'' = 3" if num: "list_all (\<lambda>c. c = CHR ''.'' \<or> char_digit c) host"
  proof -
    have "CHR ''.'' \<in> set host"
    proof (rule ccontr)
      assume "CHR ''.'' \<notin> set host"
      then have "list_all char_digit host" using num by (induction host) auto
      then show False using not_obfuscated [OF syn(1,3)] by blast
    qed
    then have "snd (scan_segments host 1) = 4"
      using not_obfuscated [OF syn(1,3)] scan_segments_stops [OF num, of 1] by auto
    then show ?thesis by (simp add: scan_segments_stops [OF num])
  qed
  ultimately show ?thesis using syn(1,2) local hex by blast
qed

definition demo_net :: net where
  "demo_net = \<lparr>nt_pton4 = (\<lambda>s. if s = ''8.8.8.8'' then Some 0x08080808 else None), nt_pton6 = (\<lambda>_. None),
     nt_resolve = (\<lambda>_. None), nt_ntop = (\<lambda>_. [])\<rparr>"

theorem accepted_host_is_public_witness:
  "count_list ''8.8.8.8'' CHR ''.'' = 3 \<and> take 2 ''8.8.8.8'' \<noteq> ''0x'' \<and> \<not> sockaddr_is_private (Some (SockIn 0x08080808))"
proof -
  have "\<not> ipv4_is_private 0x08080808" by (simp add: ipv4_is_private_def octet_def)
  then have "validate_remote_host demo_net ''8.8.8.8'' = (True, [])"
    by (simp add: validate_remote_host_def host_is_private_def demo_net_def to_lower_def char_lower_def host_char_def
        char_alnum_def char_digit_def looks_like_obfuscated_ipv4_def)
  note accepted = accepted_host_is_public [OF this]
  have num: "list_all (\<lambda>c. c = CHR ''.'' \<or> char_digit c) ''8.8.8.8''" by (simp add: char_digit_def)
  have den: "denotes demo_net ''8.8.8.8'' = [SockIn 0x08080808]" by (simp add: demo_net_def)
  show ?thesis using accepted num unfolding den by simp
qed

end
