(* ===== verification/Render.thy ===== *)
theory Render
  imports Dag Engine
begin

text \<open>
  The renderers of the DAG (\<open>src/render/render.cpp\<close>): Graphviz and Mermaid texts of the whole graph,
  and of the graph with every sub-flow collapsed to one node.  A node always has a configuration:
  the builder refuses unknown operators.
\<close>

section \<open>Texts\<close>

text \<open>A line: \<open>quoted\<close> pieces are written out, \<open>nl\<close> is the newline.\<close>

definition nl :: string where "nl = [CHR 0x0A]"
definition dq :: string where "dq = [CHR 0x22]"

definition name_char :: "char \<Rightarrow> bool" where
  "name_char c \<longleftrightarrow> (let n = of_char c :: nat in 48 \<le> n \<and> n \<le> 57 \<or> 65 \<le> n \<and> n \<le> 90 \<or> 97 \<le> n \<and> n \<le> 122) \<or> c = CHR ''_''"

definition sanitize :: "string \<Rightarrow> string" where
  "sanitize name = map (\<lambda>c. if name_char c then c else CHR ''_'') name"

definition dot_colors :: "(string \<times> string) list" where
  "dot_colors =
     [(''recall'', ''#E8F5E9''), (''transform'', ''#E3F2FD''), (''filter'', ''#FFF3E0''),
      (''merge'', ''#F3E5F5''), (''reorder'', ''#FFFDE7''), (''observe'', ''#F5F5F5'')]"

definition color_for :: "string \<Rightarrow> string" where
  "color_for t = (case map_of dot_colors t of Some c \<Rightarrow> c | None \<Rightarrow> ''#F5F5F5'')"

section \<open>Collapsing\<close>

fun split_slash :: "string \<Rightarrow> string list" where
  "split_slash [] = [[]]"
| "split_slash (c # s) =
     (if c = CHR ''/'' then [] # split_slash s
      else case split_slash s of p # ps \<Rightarrow> (c # p) # ps | [] \<Rightarrow> [[c]])"

definition collapse_key :: "string \<Rightarrow> int \<Rightarrow> string" where
  "collapse_key subflow level =
     (if subflow = [] then []
      else let parts = split_slash subflow
           in if level \<ge> int (length parts) then subflow else join ''/'' (take (nat level) parts))"

record group =
  gr_key :: string
  gr_label :: string
  gr_subflow :: bool
  gr_operator_type :: string

record collapse_state =
  cl_groups :: "group list"
  cl_key_to_group :: "nat flat_map"
  cl_node_to_group :: "nat list"

definition collapse_node :: "int \<Rightarrow> nat \<times> node \<Rightarrow> collapse_state \<Rightarrow> collapse_state" where
  "collapse_node level numbered st =
     (case numbered of (i, node) \<Rightarrow>
        let key = collapse_key (nd_subflow node) level; fresh = length (cl_groups st)
        in if key = []
           then st\<lparr>cl_node_to_group := cl_node_to_group st @ [fresh],
                   cl_groups := cl_groups st @ [\<lparr>gr_key = ''standalone_'' @ string_of_nat i, gr_label = nd_name node,
                     gr_subflow = False, gr_operator_type = oc_operator_type (nd_config node)\<rparr>]\<rparr>
           else case fm_find (cl_key_to_group st) key of
             None \<Rightarrow>
               st\<lparr>cl_key_to_group := fm_set key fresh (cl_key_to_group st),
                  cl_node_to_group := cl_node_to_group st @ [fresh],
                  cl_groups := cl_groups st @ [\<lparr>gr_key = key, gr_label = key, gr_subflow = True, gr_operator_type = []\<rparr>]\<rparr>
           | Some k \<Rightarrow> st\<lparr>cl_node_to_group := cl_node_to_group st @ [k]\<rparr>)"

definition collapse_nodes :: "graph \<Rightarrow> int \<Rightarrow> collapse_state" where
  "collapse_nodes g level =
     fold (collapse_node level) (enumerate 0 (g_nodes g)) \<lparr>cl_groups = [], cl_key_to_group = [], cl_node_to_group = []\<rparr>"

text \<open>\<open>edges_seen\<close> holds the edges listed so far.\<close>

definition collapse_edge :: "nat list \<Rightarrow> nat \<Rightarrow> nat \<Rightarrow> (nat \<times> nat) list \<Rightarrow> (nat \<times> nat) list" where
  "collapse_edge assign i s es =
     (let a = assign ! i; b = assign ! s in if a \<noteq> b \<and> (a, b) \<notin> set es then es @ [(a, b)] else es)"

definition build_collapsed :: "graph \<Rightarrow> int \<Rightarrow> group list \<times> (nat \<times> nat) list" where
  "build_collapsed g level =
     (let st = collapse_nodes g level
      in (cl_groups st,
          fold (\<lambda>(i, node). fold (collapse_edge (cl_node_to_group st) i) (nd_succs node)) (enumerate 0 (g_nodes g)) []))"

section \<open>The renderers\<close>

definition dot_head :: string where
  "dot_head = ''digraph pipeline {'' @ nl @ ''    rankdir=TB;'' @ nl @
     ''    node [shape=box, style=filled, fontname='' @ dq @ ''Helvetica'' @ dq @ ''];'' @ nl @ nl"

definition dot_node :: "string \<Rightarrow> string \<Rightarrow> string \<Rightarrow> string" where
  "dot_node id_text label color =
     ''    '' @ dq @ id_text @ dq @ '' [label='' @ dq @ label @ dq @ '', fillcolor='' @ dq @ color @ dq @ ''];'' @ nl"

definition dot_edge :: "string \<Rightarrow> string \<Rightarrow> string" where
  "dot_edge a b = ''    '' @ dq @ a @ dq @ '' -> '' @ dq @ b @ dq @ '';'' @ nl"

definition render_dot :: "graph \<Rightarrow> string" where
  "render_dot g =
     dot_head @
     concat (map (\<lambda>node. dot_node (nd_name node) (nd_name node) (color_for (oc_operator_type (nd_config node)))) (g_nodes g)) @
     nl @
     concat (map (\<lambda>node. concat (map (\<lambda>s. dot_edge (nd_name node) (nd_name (g_nodes g ! s))) (nd_succs node))) (g_nodes g)) @
     ''}'' @ nl"

definition mermaid_node :: "string \<Rightarrow> string \<Rightarrow> string \<Rightarrow> string" where
  "mermaid_node id_text label cls = ''    '' @ id_text @ ''['' @ dq @ label @ dq @ '']:::'' @ cls @ nl"

definition mermaid_edge :: "string \<Rightarrow> string \<Rightarrow> string" where
  "mermaid_edge a b = ''    '' @ a @ '' --> '' @ b @ nl"

definition class_line :: "string \<times> string \<times> string \<Rightarrow> string" where
  "class_line c = (case c of (name, fill, stroke) \<Rightarrow>
     ''    classDef '' @ name @ '' fill:'' @ fill @ '',stroke:'' @ stroke @ nl)"

definition type_classes :: string where
  "type_classes = concat (map class_line
     [(''recall'', ''#E8F5E9'', ''#4CAF50''), (''transform'', ''#E3F2FD'', ''#2196F3''), (''filter'', ''#FFF3E0'', ''#FF9800''),
      (''merge'', ''#F3E5F5'', ''#9C27B0''), (''reorder'', ''#FFFDE7'', ''#FFC107''), (''observe'', ''#F5F5F5'', ''#9E9E9E'')])"

definition render_mermaid :: "graph \<Rightarrow> string" where
  "render_mermaid g =
     ''graph TB'' @ nl @
     concat (map (\<lambda>node. mermaid_node (sanitize (nd_name node)) (nd_name node) (oc_operator_type (nd_config node))) (g_nodes g)) @
     nl @
     concat (map (\<lambda>node. concat (map (\<lambda>s. mermaid_edge (sanitize (nd_name node)) (sanitize (nd_name (g_nodes g ! s))))
       (nd_succs node))) (g_nodes g)) @
     nl @ type_classes"

definition group_color :: "group \<Rightarrow> string" where
  "group_color gr =
     (if gr_subflow gr then ''#BBDEFB''
      else if gr_operator_type gr \<noteq> []
      then (case map_of dot_colors (gr_operator_type gr) of Some c \<Rightarrow> c | None \<Rightarrow> ''#E0E0E0'')
      else ''#E0E0E0'')"

definition group_id :: "nat \<Rightarrow> string" where
  "group_id i = CHR ''g'' # string_of_nat i"

definition render_collapsed_dot :: "graph \<Rightarrow> int \<Rightarrow> string" where
  "render_collapsed_dot g level =
     (let (groups, es) = build_collapsed g level
      in dot_head @ concat (map (\<lambda>(i, gr). dot_node (group_id i) (gr_label gr) (group_color gr)) (enumerate 0 groups)) @ nl @
         concat (map (\<lambda>(a, b). dot_edge (group_id a) (group_id b)) es) @ ''}'' @ nl)"

definition group_class :: "group \<Rightarrow> string" where
  "group_class gr =
     (if gr_subflow gr then ''subflow'' else if gr_operator_type gr \<noteq> [] then gr_operator_type gr else ''standalone'')"

definition render_collapsed_mermaid :: "graph \<Rightarrow> int \<Rightarrow> string" where
  "render_collapsed_mermaid g level =
     (let (groups, es) = build_collapsed g level
      in ''graph TB'' @ nl @
         concat (map (\<lambda>(i, gr). mermaid_node (group_id i) (gr_label gr) (group_class gr)) (enumerate 0 groups)) @ nl @
         concat (map (\<lambda>(a, b). mermaid_edge (group_id a) (group_id b)) es) @ nl @
         class_line (''subflow'', ''#BBDEFB'', ''#1976D2'') @ class_line (''standalone'', ''#E0E0E0'', ''#616161'') @
         type_classes)"

definition render_dag :: "'c engine \<Rightarrow> string \<Rightarrow> int \<Rightarrow> error + string" where
  "render_dag eg format collapse =
     (if format = ''dot''
      then Inr (if collapse > 0 then render_collapsed_dot (eg_graph eg) collapse else render_dot (eg_graph eg))
      else if format = ''mermaid''
      then Inr (if collapse > 0 then render_collapsed_mermaid (eg_graph eg) collapse else render_mermaid (eg_graph eg))
      else Inl (ValidationError (''unsupported DAG format '' @ quoted format @ '' (use '' @ quoted ''dot'' @ '' or '' @
             quoted ''mermaid'' @ '')'')))"

end
