(* ===== verification/Render_Theorems.thy ===== *)
theory Render_Theorems
  imports Render Dag_Theorems
begin

text \<open>
  The collapsed graph is the quotient of the DAG by its sub-flows.
\<close>

definition node_key :: "graph \<Rightarrow> int \<Rightarrow> nat \<Rightarrow> string" where
  "node_key g level i = collapse_key (nd_subflow (g_nodes g ! i)) level"

definition group_of :: "graph \<Rightarrow> int \<Rightarrow> nat \<Rightarrow> nat" where
  "group_of g level i = cl_node_to_group (collapse_nodes g level) ! i"

text \<open>The state after the first \<open>k\<close> nodes.\<close>

definition collapse_inv :: "(nat \<Rightarrow> string) \<Rightarrow> (nat \<Rightarrow> string) \<Rightarrow> nat \<Rightarrow> collapse_state \<Rightarrow> bool" where
  "collapse_inv key name k st \<longleftrightarrow> fm_ok (cl_key_to_group st) \<and> length (cl_node_to_group st) = k \<and>
     (\<forall>i < k. cl_node_to_group st ! i < length (cl_groups st) \<and>
        (if key i = [] then gr_label (cl_groups st ! (cl_node_to_group st ! i)) = name i
         else gr_label (cl_groups st ! (cl_node_to_group st ! i)) = key i \<and>
              fm_find (cl_key_to_group st) (key i) = Some (cl_node_to_group st ! i))) \<and>
     (\<forall>s j. fm_find (cl_key_to_group st) s = Some j \<longrightarrow> s \<noteq> [] \<and> (\<exists>i < k. key i = s \<and> cl_node_to_group st ! i = j)) \<and>
     (\<forall>i < k. \<forall>j < k. cl_node_to_group st ! i = cl_node_to_group st ! j \<longleftrightarrow> i = j \<or> key i = key j \<and> key i \<noteq> []) \<and>
     (\<forall>h < length (cl_groups st). h \<in> set (cl_node_to_group st))"

lemma collapse_node_inv:
  assumes "collapse_inv key name k st" "key k = collapse_key (nd_subflow node) level" "name k = nd_name node"
  shows "collapse_inv key name (Suc k) (collapse_node level (k, node) st)"
proof -
  have inv: "fm_ok (cl_key_to_group st)" "length (cl_node_to_group st) = k"
      "\<And>i. i < k \<Longrightarrow> cl_node_to_group st ! i < length (cl_groups st)"
      "\<And>i. i < k \<Longrightarrow> key i = [] \<Longrightarrow> gr_label (cl_groups st ! (cl_node_to_group st ! i)) = name i"
      "\<And>i. i < k \<Longrightarrow> key i \<noteq> [] \<Longrightarrow> gr_label (cl_groups st ! (cl_node_to_group st ! i)) = key i"
      "\<And>i. i < k \<Longrightarrow> key i \<noteq> [] \<Longrightarrow> fm_find (cl_key_to_group st) (key i) = Some (cl_node_to_group st ! i)"
      "\<And>s j. fm_find (cl_key_to_group st) s = Some j \<Longrightarrow> s \<noteq> [] \<and> (\<exists>i < k. key i = s \<and> cl_node_to_group st ! i = j)"
      "\<And>i j. i < k \<Longrightarrow> j < k \<Longrightarrow> cl_node_to_group st ! i = cl_node_to_group st ! j \<longleftrightarrow> i = j \<or> key i = key j \<and> key i \<noteq> []"
      "\<And>h. h < length (cl_groups st) \<Longrightarrow> h \<in> set (cl_node_to_group st)"
    using assms(1) unfolding collapse_inv_def by (auto split: if_splits)
  have nth: "(cl_node_to_group st @ [x]) ! i = (if i < k then cl_node_to_group st ! i else x)" if "i < Suc k" for x i
    using that inv(2) by (auto simp: nth_append)
  consider (alone) "key k = []" | (fresh) "key k \<noteq> []" "fm_find (cl_key_to_group st) (key k) = None"
    | (known) h where "key k \<noteq> []" "fm_find (cl_key_to_group st) (key k) = Some h" by fastforce
  then show ?thesis
  proof cases
    case alone
    define st' where "st' = collapse_node level (k, node) st"
    have st': "cl_key_to_group st' = cl_key_to_group st" "cl_node_to_group st' = cl_node_to_group st @ [length (cl_groups st)]"
        "\<exists>gr. cl_groups st' = cl_groups st @ [gr] \<and> gr_label gr = name k"
      using alone assms(2,3) by (simp_all add: st'_def collapse_node_def Let_def)
    then obtain gr where gr: "cl_groups st' = cl_groups st @ [gr]" "gr_label gr = name k" by blast
    show ?thesis
      unfolding st'_def [symmetric] collapse_inv_def
    proof (intro conjI allI impI)
      show "fm_ok (cl_key_to_group st')" "length (cl_node_to_group st') = Suc k" using inv st' by simp_all
    next
      fix i assume "i < Suc k"
      then show "cl_node_to_group st' ! i < length (cl_groups st')"
        using nth [of i] inv(3) [of i] by (auto simp: st'(2) gr(1) less_Suc_eq)
    next
      fix i assume i: "i < Suc k"
      show "if key i = [] then gr_label (cl_groups st' ! (cl_node_to_group st' ! i)) = name i
         else gr_label (cl_groups st' ! (cl_node_to_group st' ! i)) = key i \<and>
              fm_find (cl_key_to_group st') (key i) = Some (cl_node_to_group st' ! i)"
        using i alone nth [OF i] inv(3-6) [of i] by (auto simp: st'(1,2) gr nth_append less_Suc_eq)
    next
      fix s j assume "fm_find (cl_key_to_group st') s = Some j"
      then show "s \<noteq> []" "\<exists>i < Suc k. key i = s \<and> cl_node_to_group st' ! i = j"
        using inv(7) [of s j] nth by (auto simp: st'(1,2) intro: less_SucI)
    next
      fix i j assume ij: "i < Suc k" "j < Suc k"
      show "cl_node_to_group st' ! i = cl_node_to_group st' ! j \<longleftrightarrow> i = j \<or> key i = key j \<and> key i \<noteq> []"
        using ij nth [OF ij(1)] nth [OF ij(2)] inv(3) [of i] inv(3) [of j] inv(8) [of i j] alone
        by (auto simp: st'(2) less_Suc_eq)
    next
      fix h assume "h < length (cl_groups st')"
      then show "h \<in> set (cl_node_to_group st')" using inv(9) [of h] by (auto simp: st'(2) gr(1) less_Suc_eq)
    qed
  next
    case fresh
    define st' where "st' = collapse_node level (k, node) st"
    have st': "cl_key_to_group st' = fm_set (key k) (length (cl_groups st)) (cl_key_to_group st)"
        "cl_node_to_group st' = cl_node_to_group st @ [length (cl_groups st)]"
        "\<exists>gr. cl_groups st' = cl_groups st @ [gr] \<and> gr_label gr = key k"
      using fresh assms(2,3) by (simp_all add: st'_def collapse_node_def Let_def)
    then obtain gr where gr: "cl_groups st' = cl_groups st @ [gr]" "gr_label gr = key k" by blast
    have other: "key i \<noteq> key k" if "i < k" "key i \<noteq> []" for i using inv(6) [OF that] fresh(2) by auto
    have find: "fm_find (cl_key_to_group st') s = (if s = key k then Some (length (cl_groups st)) else fm_find (cl_key_to_group st) s)" for s
      using inv(1) by (simp add: st'(1) fm.lookup_put)
    show ?thesis
      unfolding st'_def [symmetric] collapse_inv_def
    proof (intro conjI allI impI)
      show "fm_ok (cl_key_to_group st')" "length (cl_node_to_group st') = Suc k" using inv st' by (simp_all add: fm_ok_fm_set)
    next
      fix i assume "i < Suc k"
      then show "cl_node_to_group st' ! i < length (cl_groups st')"
        using nth [of i] inv(3) [of i] by (auto simp: st'(2) gr(1) less_Suc_eq)
    next
      fix i assume i: "i < Suc k"
      show "if key i = [] then gr_label (cl_groups st' ! (cl_node_to_group st' ! i)) = name i
         else gr_label (cl_groups st' ! (cl_node_to_group st' ! i)) = key i \<and>
              fm_find (cl_key_to_group st') (key i) = Some (cl_node_to_group st' ! i)"
        using i fresh(1) nth [OF i] inv(3-6) [of i] other [of i] by (auto simp: find st'(2) gr nth_append less_Suc_eq)
    next
      fix s j assume s: "fm_find (cl_key_to_group st') s = Some j"
      then show "s \<noteq> []" using inv(7) [of s j] fresh(1) by (auto simp: find split: if_splits)
      show "\<exists>i < Suc k. key i = s \<and> cl_node_to_group st' ! i = j"
      proof (cases "s = key k")
        case True
        then show ?thesis using s nth [of k] by (intro exI [of _ k]) (simp add: find st'(2))
      next
        case False
        then show ?thesis using s inv(7) [of s j] nth by (auto simp: find st'(2) intro: less_SucI)
      qed
    next
      fix i j assume ij: "i < Suc k" "j < Suc k"
      show "cl_node_to_group st' ! i = cl_node_to_group st' ! j \<longleftrightarrow> i = j \<or> key i = key j \<and> key i \<noteq> []"
        using ij nth [OF ij(1)] nth [OF ij(2)] inv(3) [of i] inv(3) [of j] inv(8) [of i j] other [of i] other [of j]
        by (auto simp: st'(2) less_Suc_eq)
    next
      fix h assume "h < length (cl_groups st')"
      then show "h \<in> set (cl_node_to_group st')" using inv(9) [of h] by (auto simp: st'(2) gr(1) less_Suc_eq)
    qed
  next
    case known
    define st' where "st' = collapse_node level (k, node) st"
    have st': "cl_key_to_group st' = cl_key_to_group st" "cl_node_to_group st' = cl_node_to_group st @ [h]"
        "cl_groups st' = cl_groups st"
      using known assms(2,3) by (simp_all add: st'_def collapse_node_def Let_def)
    obtain i0 where i0: "i0 < k" "key i0 = key k" "cl_node_to_group st ! i0 = h" using inv(7) [OF known(2)] by blast
    have h: "h < length (cl_groups st)" "gr_label (cl_groups st ! h) = key k"
      using inv(3,5) [OF i0(1)] i0 known(1) by auto
    have same: "cl_node_to_group st ! i = h \<longleftrightarrow> key i = key k" if "i < k" for i
      using inv(8) [OF that i0(1)] i0 known(1) by auto
    show ?thesis
      unfolding st'_def [symmetric] collapse_inv_def
    proof (intro conjI allI impI)
      show "fm_ok (cl_key_to_group st')" "length (cl_node_to_group st') = Suc k" using inv st' by simp_all
    next
      fix i assume "i < Suc k"
      then show "cl_node_to_group st' ! i < length (cl_groups st')"
        using nth inv(3) h by (simp add: st'(2,3))
    next
      fix i assume i: "i < Suc k"
      show "if key i = [] then gr_label (cl_groups st' ! (cl_node_to_group st' ! i)) = name i
         else gr_label (cl_groups st' ! (cl_node_to_group st' ! i)) = key i \<and>
              fm_find (cl_key_to_group st') (key i) = Some (cl_node_to_group st' ! i)"
        using i known nth [OF i] inv(3-6) [of i] h by (auto simp: st' less_Suc_eq)
    next
      fix s j assume "fm_find (cl_key_to_group st') s = Some j"
      then show "s \<noteq> []" "\<exists>i < Suc k. key i = s \<and> cl_node_to_group st' ! i = j"
        using inv(7) [of s j] nth by (auto simp: st'(1,2) intro: less_SucI)
    next
      fix i j assume ij: "i < Suc k" "j < Suc k"
      show "cl_node_to_group st' ! i = cl_node_to_group st' ! j \<longleftrightarrow> i = j \<or> key i = key j \<and> key i \<noteq> []"
        using ij nth [OF ij(1)] nth [OF ij(2)] inv(8) [of i j] same [of i] same [of j] known(1)
        by (auto simp: st'(2) less_Suc_eq)
    next
      fix h' assume "h' < length (cl_groups st')"
      then show "h' \<in> set (cl_node_to_group st')" using inv(9) [of h'] by (auto simp: st'(2,3))
    qed
  qed
qed

lemma collapse_nodes_inv:
  "collapse_inv (node_key g level) (\<lambda>i. nd_name (g_nodes g ! i)) (length (g_nodes g)) (collapse_nodes g level)"
proof -
  have "collapse_inv (node_key g level) (\<lambda>i. nd_name (g_nodes g ! i)) k
      (fold (collapse_node level) (enumerate 0 (take k (g_nodes g))) \<lparr>cl_groups = [], cl_key_to_group = [], cl_node_to_group = []\<rparr>)"
    if "k \<le> length (g_nodes g)" for k
    using that
  proof (induction k)
    case 0
    then show ?case by (simp add: collapse_inv_def fm_find_def fm_hit_def)
  next
    case (Suc k)
    then have k: "k < length (g_nodes g)" by simp
    show ?case
      using Suc collapse_node_inv [OF Suc.IH, of "g_nodes g ! k" level] k
      by (simp add: take_Suc_conv_app_nth enumerate_append_eq node_key_def)
  qed
  from this [OF order_refl] show ?thesis by (simp add: collapse_nodes_def)
qed

text \<open>The edges kept are the listed ones without loops and repetitions.\<close>

lemma collapse_edge_laws:
  "set (collapse_edge assign i s es) = set es \<union> (if assign ! i = assign ! s then {} else {(assign ! i, assign ! s)})"
  "distinct es \<Longrightarrow> distinct (collapse_edge assign i s es)"
  by (auto simp: collapse_edge_def Let_def)

lemma collapse_edges_laws:
  "set (fold (collapse_edge assign i) ss es) =
     set es \<union> {(assign ! i, assign ! s) | s. s \<in> set ss \<and> assign ! i \<noteq> assign ! s}"
  "distinct es \<Longrightarrow> distinct (fold (collapse_edge assign i) ss es)"
  by (induction ss arbitrary: es) (auto simp: collapse_edge_laws split: if_splits)

lemma all_edges_laws:
  "set (fold (\<lambda>(i, node). fold (collapse_edge assign i) (nd_succs node)) xs es) =
     set es \<union> (\<Union>p \<in> set xs. {(assign ! fst p, assign ! s) | s. s \<in> set (nd_succs (snd p)) \<and> assign ! fst p \<noteq> assign ! s})"
  "distinct es \<Longrightarrow> distinct (fold (\<lambda>(i, node). fold (collapse_edge assign i) (nd_succs node)) xs es)"
  by (induction xs arbitrary: es) (simp_all add: collapse_edges_laws split_beta Un_assoc)

lemma edge_image:
  "(\<Union>i < n. {(f i, f s) | s. s \<in> S i \<and> f i \<noteq> f s}) = {(f u, f v) | u v. u < (n :: nat) \<and> v \<in> S u \<and> f u \<noteq> f v}"
  by blast

lemma numbered_image: "(\<Union>p \<in> set (enumerate 0 xs). F (fst p) (snd p)) = (\<Union>i < length xs. F i (xs ! i))"
  by (auto simp: in_set_enumerate_eq nth_enumerate_eq intro!: bexI [of _ "(i, xs ! i)" for i])

text \<open>
  C40: Collapsing the DAG gives its quotient by the sub-flows.  Two nodes share a group exactly when
  they have the same sub-flow prefix at the level, and a node outside the sub-flows stands alone; a
  group is labelled by that prefix, or by the node's name; no group is empty; and the edges are those
  between nodes of different groups, each listed once.
\<close>

theorem collapsed_graph_is_quotient:
  assumes "build_collapsed g level = (groups, es)"
  shows "(\<forall>u < length (g_nodes g). \<forall>v < length (g_nodes g).
            group_of g level u = group_of g level v \<longleftrightarrow> u = v \<or> node_key g level u = node_key g level v \<and> node_key g level u \<noteq> []) \<and>
         (\<forall>u < length (g_nodes g). group_of g level u < length groups \<and>
            gr_label (groups ! group_of g level u) =
              (if node_key g level u = [] then nd_name (g_nodes g ! u) else node_key g level u)) \<and>
         (\<forall>h < length groups. \<exists>u < length (g_nodes g). group_of g level u = h) \<and>
         distinct es \<and>
         set es = {(group_of g level u, group_of g level v) | u v.
           u < length (g_nodes g) \<and> v \<in> set (nd_succs (g_nodes g ! u)) \<and> group_of g level u \<noteq> group_of g level v}"
proof -
  define st where "st = collapse_nodes g level"
  have inv: "collapse_inv (node_key g level) (\<lambda>i. nd_name (g_nodes g ! i)) (length (g_nodes g)) st"
    unfolding st_def by (rule collapse_nodes_inv)
  have built: "groups = cl_groups st"
      "es = fold (\<lambda>(i, node). fold (collapse_edge (cl_node_to_group st) i) (nd_succs node)) (enumerate 0 (g_nodes g)) []"
    using assms by (simp_all add: build_collapsed_def Let_def st_def)
  show ?thesis
  proof (intro conjI)
    show "\<forall>u < length (g_nodes g). \<forall>v < length (g_nodes g).
        group_of g level u = group_of g level v \<longleftrightarrow> u = v \<or> node_key g level u = node_key g level v \<and> node_key g level u \<noteq> []"
      using inv unfolding collapse_inv_def group_of_def st_def [symmetric] by simp
    show "\<forall>u < length (g_nodes g). group_of g level u < length groups \<and>
        gr_label (groups ! group_of g level u) = (if node_key g level u = [] then nd_name (g_nodes g ! u) else node_key g level u)"
      using inv unfolding collapse_inv_def group_of_def st_def [symmetric] built(1) by (simp split: if_splits)
    show "\<forall>h < length groups. \<exists>u < length (g_nodes g). group_of g level u = h"
      using inv unfolding collapse_inv_def group_of_def st_def [symmetric] built(1) by (auto simp: in_set_conv_nth)
    show "distinct es" by (simp add: built(2) all_edges_laws(2))
    show "set es = {(group_of g level u, group_of g level v) | u v.
        u < length (g_nodes g) \<and> v \<in> set (nd_succs (g_nodes g ! u)) \<and> group_of g level u \<noteq> group_of g level v}"
      unfolding built(2) all_edges_laws(1) group_of_def st_def [symmetric] numbered_image
          [of "\<lambda>i node. {(cl_node_to_group st ! i, cl_node_to_group st ! s) | s. s \<in> set (nd_succs node) \<and>
            cl_node_to_group st ! i \<noteq> cl_node_to_group st ! s}"] edge_image
      by simp
  qed
qed

text \<open>Two nodes of one sub-flow, and a node outside it that reads from the second.\<close>

definition flow_graph :: graph where
  "flow_graph = (let nd = (\<lambda>n flow p s. \<lparr>nd_name = n, nd_subflow = flow, nd_preds = p, nd_succs = s, nd_config = source_op n []\<rparr>)
     in \<lparr>g_nodes = [nd ''p'' ''a/b'' [] [1, 2], nd ''q'' ''a/c'' [0] [2], nd ''r'' [] [1, 0] []], g_name_to_index = []\<rparr>)"

theorem collapsed_graph_is_quotient_witness:
  "\<exists>groups es. build_collapsed flow_graph 1 = (groups, es) \<and> map gr_label groups = [''a'', ''r''] \<and> es = [(0, 1)] \<and>
     group_of flow_graph 1 0 = group_of flow_graph 1 1"
proof -
  obtain groups es where b: "build_collapsed flow_graph 1 = (groups, es)" by fastforce
  have "map gr_label (fst (build_collapsed flow_graph 1)) = [''a'', ''r''] \<and> snd (build_collapsed flow_graph 1) = [(0, 1)]"
    by code_simp
  moreover have "node_key flow_graph 1 0 = ''a'' \<and> node_key flow_graph 1 1 = ''a'' \<and> length (g_nodes flow_graph) = 3" by code_simp
  moreover have "(0 :: nat) < 3" "(1 :: nat) < 3" by simp_all
  ultimately show ?thesis using collapsed_graph_is_quotient [OF b] b by (metis fst_conv snd_conv list.distinct(1))
qed

end
