(* ===== verification/Effects.thy ===== *)
theory Effects
  imports Prelude
begin

text \<open>
  Statements that change a state and return a value or throw: a function of the state to the new
  state and a result.  The code that talks to a peer is written with these combinators, so the state
  a failed statement leaves behind is part of the model.
\<close>

type_synonym ('s, 'e, 'a) effect = "'s \<Rightarrow> 's \<times> ('e + 'a)"

definition mret :: "'a \<Rightarrow> ('s, 'e, 'a) effect" where
  "mret x s = (s, Inr x)"

definition mfail :: "'e \<Rightarrow> ('s, 'e, 'a) effect" where
  "mfail e s = (s, Inl e)"

definition mlift :: "'e + 'a \<Rightarrow> ('s, 'e, 'a) effect" where
  "mlift r s = (s, r)"

definition mbind :: "('s, 'e, 'a) effect \<Rightarrow> ('a \<Rightarrow> ('s, 'e, 'b) effect) \<Rightarrow> ('s, 'e, 'b) effect" where
  "mbind m f s = (case m s of (s', Inl e) \<Rightarrow> (s', Inl e) | (s', Inr x) \<Rightarrow> f x s')"

definition mthen :: "('s, 'e, 'a) effect \<Rightarrow> ('s, 'e, 'b) effect \<Rightarrow> ('s, 'e, 'b) effect" where
  "mthen m k = mbind m (\<lambda>_. k)"

text \<open>A loop over a list whose body returns nothing.\<close>

fun mfor :: "('a \<Rightarrow> ('s, 'e, unit) effect) \<Rightarrow> 'a list \<Rightarrow> ('s, 'e, unit) effect" where
  "mfor f [] = mret ()"
| "mfor f (x # xs) = mthen (f x) (mfor f xs)"

text \<open>\<open>try { m } catch (...) { }\<close>: whatever \<open>m\<close> throws is dropped, what it did to the state stays.\<close>

definition mswallow :: "('s, 'e, 'a) effect \<Rightarrow> ('s, 'e, unit) effect" where
  "mswallow m s = (fst (m s), Inr ())"

lemma meffect_simps [simp]:
  "mret x s = (s, Inr x)" "mfail e s = (s, Inl e)" "mlift r s = (s, r)" "mswallow m s = (fst (m s), Inr ())"
  by (simp_all add: mret_def mfail_def mlift_def mswallow_def)

lemma mbind_ok [simp]: "m s = (s', Inr x) \<Longrightarrow> mbind m f s = f x s'"
  by (simp add: mbind_def)

lemma mbind_throw [simp]: "m s = (s', Inl e) \<Longrightarrow> mbind m f s = (s', Inl e)"
  by (simp add: mbind_def)

lemma mbind_Inr_iff: "mbind m f s = (s'', Inr y) \<longleftrightarrow> (\<exists>s' x. m s = (s', Inr x) \<and> f x s' = (s'', Inr y))"
  by (auto simp: mbind_def split: prod.splits sum.splits)

lemma mthen_ok [simp]: "m s = (s', Inr x) \<Longrightarrow> mthen m k s = k s'"
  by (simp add: mthen_def)

lemma mthen_throw [simp]: "m s = (s', Inl e) \<Longrightarrow> mthen m k s = (s', Inl e)"
  by (simp add: mthen_def)

text \<open>
  A relation every statement keeps between the states before and after, whether it throws or not.
  The collection \<open>keeps_intros\<close> holds the rules of the combinators and of the statements.
\<close>

named_theorems keeps_intros \<open>statements that keep a relation between the state before and after\<close>

definition keeps :: "('s \<Rightarrow> 's \<Rightarrow> bool) \<Rightarrow> ('s, 'e, 'a) effect \<Rightarrow> bool" where
  "keeps R m \<longleftrightarrow> (\<forall>s. R s (fst (m s)))"

lemma keepsI [intro]: "(\<And>s. R s (fst (m s))) \<Longrightarrow> keeps R m"
  by (simp add: keeps_def)

lemma keepsD: "keeps R m \<Longrightarrow> m s = (s', r) \<Longrightarrow> R s s'"
  by (metis keeps_def fst_conv)

lemma keeps_basic [keeps_intros]:
  assumes "reflp R"
  shows "keeps R (mret x)" "keeps R (mfail e)" "keeps R (mlift r)"
  using assms by (auto simp: reflp_def)

lemma keeps_swallow [keeps_intros]: "keeps R m \<Longrightarrow> keeps R (mswallow m)"
  by (auto simp: keeps_def)

lemma keeps_mbind [keeps_intros]:
  assumes "transp R" "keeps R m" "\<And>x. keeps R (f x)"
  shows "keeps R (mbind m f)"
proof
  fix s
  obtain s' r where m: "m s = (s', r)" by fastforce
  then have "R s s'" using assms(2) by (rule keepsD [rotated])
  then show "R s (fst (mbind m f s))"
    using m assms(1,3) by (cases r) (auto simp: keeps_def dest: transpD)
qed

lemma keeps_mthen [keeps_intros]: "transp R \<Longrightarrow> keeps R m \<Longrightarrow> keeps R k \<Longrightarrow> keeps R (mthen m k)"
  by (simp add: mthen_def keeps_mbind)

lemma keeps_mfor [keeps_intros]: "reflp R \<Longrightarrow> transp R \<Longrightarrow> (\<And>x. keeps R (f x)) \<Longrightarrow> keeps R (mfor f xs)"
  by (induction xs) (auto intro: keeps_intros)

end
