(* ===== verification/Redis_Client.thy ===== *)
theory Redis_Client
  imports Effects Templates
begin

text \<open>
  The Redis client (\<open>src/redis/redis_client.cpp\<close>): the encoding of commands, the buffered reader of
  replies and the commands.  A socket is what its next calls do: \<open>rc_arrivals\<close> holds what arrives,
  one segment per \<open>read\<close>, and an empty segment is a \<open>read\<close> that fails (a timeout, or the end);
  \<open>rc_accepts\<close> holds how many bytes the next calls of \<open>send\<close> take, none being a failure.  The read
  position is not kept: \<open>rc_buffer\<close> is the unread part of \<open>read_buf_\<close>.
\<close>

section \<open>The socket\<close>

record client =
  rc_fd :: int
  rc_buffer :: string
  rc_arrivals :: "string list"
  rc_accepts :: "nat list"
  rc_sent :: string

type_synonym 'a cmd = "(client, error, 'a) effect"

text \<open>\<open>read(fd, dst, n)\<close>: the bytes got, none on failure.\<close>

definition sock_read :: "nat \<Rightarrow> client \<Rightarrow> string \<times> client" where
  "sock_read n c =
     (if rc_fd c < 0 then ([], c)
      else case rc_arrivals c of
        [] \<Rightarrow> ([], c)
      | s # ss \<Rightarrow> if length s \<le> n then (s, c\<lparr>rc_arrivals := ss\<rparr>)
                 else (take n s, c\<lparr>rc_arrivals := drop n s # ss\<rparr>))"

text \<open>\<open>send(fd, data, size, MSG_NOSIGNAL)\<close>: how many bytes it took.\<close>

definition sock_send :: "string \<Rightarrow> client \<Rightarrow> nat \<times> client" where
  "sock_send data c =
     (if rc_fd c < 0 then (0, c)
      else let (n, c) = (case rc_accepts c of [] \<Rightarrow> (length data, c) | a # as \<Rightarrow> (min a (length data), c\<lparr>rc_accepts := as\<rparr>))
           in (n, c\<lparr>rc_sent := rc_sent c @ take n data\<rparr>))"

definition connected :: "client \<Rightarrow> bool" where
  "connected c \<longleftrightarrow> rc_fd c \<ge> 0"

section \<open>Commands\<close>

definition crlf :: string where "crlf = [CHR 0x0D, CHR 0x0A]"

definition encode_bulk :: "string \<Rightarrow> string" where
  "encode_bulk s = CHR ''$'' # string_of_nat (length s) @ crlf @ s @ crlf"

definition encode_command :: "string list \<Rightarrow> string" where
  "encode_command args = CHR ''*'' # string_of_nat (length args) @ crlf @ concat (map encode_bulk args)"

definition fails :: "string \<Rightarrow> 'a cmd" where
  "fails msg = mfail (StdException msg)"

function send_all :: "string \<Rightarrow> unit cmd" where
  "send_all data c =
     (if data = [] then (c, Inr ())
      else let (n, c') = sock_send data c
           in if n = 0 then fails ''redis write failed'' c' else send_all (drop n data) c')"
  by pat_completeness auto
termination by (relation "measure (\<lambda>(data, c). length data)") auto

declare send_all.simps [simp del]

definition send_command :: "string list \<Rightarrow> unit cmd" where
  "send_command args = send_all (encode_command args)"

section \<open>The reader\<close>

function ensure_bytes :: "nat \<Rightarrow> unit cmd" where
  "ensure_bytes need c =
     (if length (rc_buffer c) < need
      then let (chunk, c') = sock_read 4096 c
           in if chunk = [] then fails ''redis read failed'' c'
              else ensure_bytes need (c'\<lparr>rc_buffer := rc_buffer c' @ chunk\<rparr>)
      else (c, Inr ()))"
  by pat_completeness auto

lemma sock_read_buffer: "sock_read n c = (chunk, c') \<Longrightarrow> rc_buffer c' = rc_buffer c"
  by (auto simp: sock_read_def split: if_splits list.splits)

termination ensure_bytes
  by (relation "measure (\<lambda>(need, c). need - length (rc_buffer c))")
    (auto dest!: sym [of "(_, _)"] sock_read_buffer simp: length_greater_0_conv [symmetric] simp del: length_greater_0_conv)

declare ensure_bytes.simps [simp del]

definition read_byte :: "char cmd" where
  "read_byte = mthen (ensure_bytes 1) (\<lambda>c. (c\<lparr>rc_buffer := tl (rc_buffer c)\<rparr>, Inr (hd (rc_buffer c))))"

text \<open>\<open>read_into\<close> returns what it wrote, after \<open>got\<close>: first the buffer, then straight from the socket.\<close>

function read_into :: "string \<Rightarrow> nat \<Rightarrow> string cmd" where
  "read_into got n c =
     (if n = 0 then (c, Inr got)
      else if rc_buffer c = []
      then let (chunk, c') = sock_read n c
           in if chunk = [] then fails ''redis read failed'' c' else read_into (got @ chunk) (n - length chunk) c'
      else let k = min (length (rc_buffer c)) n
           in read_into (got @ take k (rc_buffer c)) (n - k) (c\<lparr>rc_buffer := drop k (rc_buffer c)\<rparr>))"
  by pat_completeness auto
termination by (relation "measure (\<lambda>(got, n, c). n)") auto

declare read_into.simps [simp del]

text \<open>What the socket and the buffer still hold bounds the reads that can succeed.\<close>

definition pending :: "client \<Rightarrow> nat" where
  "pending c = length (rc_buffer c) + length (concat (rc_arrivals c))"

lemma sock_read_pending:
  "sock_read n c = (chunk, c') \<Longrightarrow> length chunk + length (concat (rc_arrivals c')) = length (concat (rc_arrivals c))"
  by (auto simp: sock_read_def split: if_splits list.splits)

lemma ensure_bytes_pending: "pending (fst (ensure_bytes need c)) = pending c"
proof (induction need c rule: ensure_bytes.induct)
  case (1 need c)
  obtain chunk c' where r: "sock_read 4096 c = (chunk, c')" by fastforce
  have p: "length chunk + pending c' = pending c"
    using sock_read_pending [OF r] sock_read_buffer [OF r] by (simp add: pending_def)
  show ?case
    using 1 [OF _ r [symmetric] refl] p
    by (cases "chunk = []"; subst ensure_bytes.simps) (auto simp: r fails_def pending_def)
qed

lemma ensure_bytes_ok: "ensure_bytes need c = (c', Inr u) \<Longrightarrow> need \<le> length (rc_buffer c')"
proof (induction need c arbitrary: c' rule: ensure_bytes.induct)
  case (1 need c)
  from "1.prems" show ?case
    by (subst (asm) ensure_bytes.simps) (auto simp: fails_def split: if_splits prod.splits intro: "1.IH")
qed

lemma read_byte_pending: "read_byte c = (c', Inr b) \<Longrightarrow> pending c' < pending c"
proof -
  assume "read_byte c = (c', Inr b)"
  then obtain c1 u where e: "ensure_bytes 1 c = (c1, Inr u)" "c' = c1\<lparr>rc_buffer := tl (rc_buffer c1)\<rparr>"
    by (auto simp: read_byte_def mthen_def mbind_def split: prod.splits sum.splits)
  from ensure_bytes_ok [OF e(1)] ensure_bytes_pending [of 1 c] show ?thesis
    by (cases "rc_buffer c1") (auto simp: e pending_def simp del: One_nat_def)
qed

function read_line_from :: "string \<Rightarrow> string cmd" where
  "read_line_from line c =
     (case read_byte c of
        (c1, Inl e) \<Rightarrow> (c1, Inl e)
      | (c1, Inr b) \<Rightarrow>
          if b = CHR 0x0D
          then mbind read_byte (\<lambda>lf. if lf \<noteq> CHR 0x0A then fails ''redis protocol error'' else mret line) c1
          else read_line_from (line @ [b]) c1)"
  by pat_completeness auto
termination by (relation "measure (\<lambda>(line, c). pending c)") (auto dest!: sym [of "(_, _)"] read_byte_pending)

declare read_line_from.simps [simp del]

definition read_line :: "string cmd" where
  "read_line = read_line_from []"

text \<open>
  \<open>std::stoi\<close> and \<open>std::stoll\<close>: blanks, a sign, digits, then anything; the exceptions they throw
  are named after the function.
\<close>

definition sto :: "string \<Rightarrow> nat \<Rightarrow> string \<Rightarrow> error + int" where
  "sto name bits s =
     (let (neg, t) = split_sign (skip_ws s); ds = takeWhile is_digit t;
          v = (if neg then - int (nat_of_digits ds) else int (nat_of_digits ds))
      in if ds = [] \<or> v < - (2 ^ (bits - 1)) \<or> v \<ge> 2 ^ (bits - 1) then Inl (StdException name) else Inr v)"

definition stoi :: "string \<Rightarrow> error + int" where "stoi = sto ''stoi'' 32"
definition stoll :: "string \<Rightarrow> error + int" where "stoll = sto ''stoll'' 64"

definition read_integer :: "int cmd" where
  "read_integer = mbind read_line (\<lambda>line. mlift (stoll line))"

definition read_bulk_string :: "string option cmd" where
  "read_bulk_string =
     mbind read_line (\<lambda>len_str.
     mbind (mlift (stoi len_str)) (\<lambda>len.
     if len < 0 then mret None
     else mbind (read_into [] (nat len)) (\<lambda>data.
          mbind read_byte (\<lambda>cr.
          mbind read_byte (\<lambda>lf.
          if cr \<noteq> CHR 0x0D \<or> lf \<noteq> CHR 0x0A then fails ''redis protocol error: missing CRLF after bulk''
          else mret (Some data))))))"

definition throw_reply :: "'a cmd" where
  "throw_reply = mbind read_line (\<lambda>msg. fails (''redis error: '' @ msg))"

definition read_element :: "string option cmd" where
  "read_element =
     mbind read_byte (\<lambda>ty.
     if ty = CHR ''$'' then read_bulk_string
     else if ty = CHR ''+'' then mbind read_line (\<lambda>line. mret (Some line))
     else if ty = CHR '':'' then mbind read_integer (\<lambda>i. mret (Some (string_of_int i)))
     else if ty = CHR ''-'' then throw_reply
     else fails ''redis: unexpected type in array'')"

fun read_elements :: "nat \<Rightarrow> string option list cmd" where
  "read_elements 0 = mret []"
| "read_elements (Suc k) = mbind read_element (\<lambda>x. mbind (read_elements k) (\<lambda>xs. mret (x # xs)))"

definition read_array :: "string option list cmd" where
  "read_array =
     mbind read_line (\<lambda>count_str.
     mbind (mlift (stoi count_str)) (\<lambda>count.
     if count < 0 then mret [] else read_elements (nat count)))"

definition expect_ok :: "unit cmd" where
  "expect_ok =
     mbind read_byte (\<lambda>ty.
     if ty = CHR ''+'' then mthen read_line (mret ())
     else if ty = CHR ''-'' then throw_reply
     else if ty = CHR ''$'' then mthen read_bulk_string (mret ())
     else if ty = CHR '':'' then mthen read_integer (mret ())
     else fails ''redis: unexpected response type'')"

section \<open>The client\<close>

definition ping :: "bool cmd" where
  "ping =
     mthen (send_command [''PING'']) (mbind read_byte (\<lambda>ty.
     if ty = CHR ''+'' then mbind read_line (\<lambda>line. mret (line = ''PONG''))
     else if ty = CHR ''$'' then mbind read_bulk_string (\<lambda>bulk. mret (bulk = Some ''PONG''))
     else if ty = CHR ''-'' then throw_reply
     else fails ''redis: unexpected response type for PING''))"

definition redis_get :: "string \<Rightarrow> string option cmd" where
  "redis_get key =
     mthen (send_command [''GET'', key]) (mbind read_byte (\<lambda>ty.
     if ty = CHR ''$'' then read_bulk_string
     else if ty = CHR ''-'' then throw_reply
     else if ty = CHR ''+'' then mbind read_line (\<lambda>line. mret (Some line))
     else fails ''redis: unexpected response type for GET''))"

definition redis_set :: "string \<Rightarrow> string \<Rightarrow> int \<Rightarrow> unit cmd" where
  "redis_set key v ttl_seconds =
     mthen (if ttl_seconds > 0 then send_command [''SET'', key, v, ''EX'', string_of_int ttl_seconds]
            else send_command [''SET'', key, v])
       expect_ok"

text \<open>The reply of \<open>SMEMBERS\<close> and \<open>LRANGE\<close>: an array, whose null elements are dropped.\<close>

definition present :: "string option list \<Rightarrow> string list" where
  "present xs = map the (filter (\<lambda>x. x \<noteq> None) xs)"

definition expect_strings :: "string \<Rightarrow> string list cmd" where
  "expect_strings name =
     mbind read_byte (\<lambda>ty.
     if ty = CHR ''*'' then mbind read_array (\<lambda>xs. mret (present xs))
     else if ty = CHR ''-'' then throw_reply
     else fails (''redis: unexpected response type for '' @ name))"

definition smembers :: "string \<Rightarrow> string list cmd" where
  "smembers key = mthen (send_command [''SMEMBERS'', key]) (expect_strings ''SMEMBERS'')"

definition lrange :: "string \<Rightarrow> int \<Rightarrow> int \<Rightarrow> string list cmd" where
  "lrange key start stop =
     mthen (send_command [''LRANGE'', key, string_of_int start, string_of_int stop]) (expect_strings ''LRANGE'')"

text \<open>The reply of the commands that return an integer, which is read and dropped.\<close>

definition expect_integer :: "string \<Rightarrow> unit cmd" where
  "expect_integer name =
     mbind read_byte (\<lambda>ty.
     if ty = CHR '':'' then mthen read_integer (mret ())
     else if ty = CHR ''-'' then throw_reply
     else fails (''redis: unexpected response type for '' @ name))"

definition sadd :: "string \<Rightarrow> string list \<Rightarrow> unit cmd" where
  "sadd key members = mthen (send_command ([''SADD'', key] @ members)) (expect_integer ''SADD'')"

definition rpush :: "string \<Rightarrow> string list \<Rightarrow> unit cmd" where
  "rpush key vs = mthen (send_command ([''RPUSH'', key] @ vs)) (expect_integer ''RPUSH'')"

definition redis_del :: "string \<Rightarrow> unit cmd" where
  "redis_del key = mthen (send_command [''DEL'', key]) (expect_integer ''DEL'')"

definition expire :: "string \<Rightarrow> int \<Rightarrow> unit cmd" where
  "expire key seconds = mthen (send_command [''EXPIRE'', key, string_of_int seconds]) (expect_integer ''EXPIRE'')"

text \<open>A transaction; a command the server refuses to queue is reported after \<open>DISCARD\<close>.\<close>

definition queue_command :: "string list \<Rightarrow> unit cmd" where
  "queue_command args =
     mthen (send_command args) (mbind read_byte (\<lambda>ty.
     if ty = CHR ''-''
     then mbind read_line (\<lambda>err.
          mthen (mswallow (mthen (send_command [''DISCARD'']) read_line))
            (fails (''redis error: '' @ err)))
     else if ty = CHR ''+'' then mthen read_line (mret ())
     else fails ''redis: unexpected queued response''))"

definition write_multiexec :: "string list list \<Rightarrow> unit cmd" where
  "write_multiexec commands =
     mthen (send_command [''MULTI'']) (mbind read_byte (\<lambda>ty.
     if ty = CHR ''-'' then throw_reply
     else if ty = CHR ''+''
     then mthen read_line (mthen (mfor queue_command commands) (mthen (send_command [''EXEC''])
            (mbind read_byte (\<lambda>ty.
             if ty = CHR ''*'' then mthen read_array (mret ())
             else if ty = CHR ''-'' then throw_reply
             else fails ''redis: unexpected response type for EXEC''))))
     else fails ''redis: unexpected MULTI response''))"

text \<open>
  The constructor: the first address whose socket connects within the timeout, then \<open>AUTH\<close> and
  \<open>SELECT\<close>, whose failure closes the socket.  Each attempt is the fresh socket (its descriptor is
  negative when \<open>socket\<close> fails) and whether \<open>connect_with_timeout\<close> succeeds on it; a failed
  \<open>getaddrinfo\<close> gives no attempt.
\<close>

definition no_client :: client where
  "no_client = \<lparr>rc_fd = -1, rc_buffer = [], rc_arrivals = [], rc_accepts = [], rc_sent = []\<rparr>"

fun connect_any :: "(client \<times> bool) list \<Rightarrow> client" where
  "connect_any [] = no_client"
| "connect_any ((c, ok) # attempts) = (if connected c \<and> ok then c else connect_any attempts)"

definition handshake :: "string \<Rightarrow> int \<Rightarrow> unit cmd" where
  "handshake password db =
     mthen (if password \<noteq> [] then mthen (send_command [''AUTH'', password]) expect_ok else mret ())
       (if db \<noteq> 0 then mthen (send_command [''SELECT'', string_of_int db]) expect_ok else mret ())"

definition new_client :: "(client \<times> bool) list \<Rightarrow> string \<Rightarrow> int \<Rightarrow> client" where
  "new_client attempts password db =
     (let c = connect_any attempts
      in if \<not> connected c then c
         else case handshake password db c of
           (c', Inl e) \<Rightarrow> c'\<lparr>rc_fd := -1\<rparr>
         | (c', Inr _) \<Rightarrow> c')"

end
