(* ===== verification/Redis_Theorems.thy ===== *)
theory Redis_Theorems
  imports Redis_Client Decimal_Laws
begin

text \<open>
  What the Redis client guarantees on a socket that flows: no read or write fails, however the bytes
  are cut into segments.  \<open>talks m request reply r\<close> says that \<open>m\<close> writes \<open>request\<close>, reads exactly
  \<open>reply\<close> and ends with \<open>r\<close>; its rules follow the combinators.
\<close>

definition stream :: "client \<Rightarrow> string" where
  "stream c = rc_buffer c @ concat (rc_arrivals c)"

definition flowing :: "client \<Rightarrow> bool" where
  "flowing c \<longleftrightarrow> connected c \<and> [] \<notin> set (rc_arrivals c) \<and> 0 \<notin> set (rc_accepts c)"

definition talks :: "'a cmd \<Rightarrow> string \<Rightarrow> string \<Rightarrow> error + 'a \<Rightarrow> bool" where
  "talks m request reply r \<longleftrightarrow>
     (\<forall>c rest. flowing c \<longrightarrow> stream c = reply @ rest \<longrightarrow>
        (\<exists>c'. m c = (c', r) \<and> flowing c' \<and> stream c' = rest \<and> rc_sent c' = rc_sent c @ request))"

lemma talksD:
  assumes "talks m request reply r" "flowing c" "stream c = reply @ rest"
  obtains c' where "m c = (c', r)" "flowing c'" "stream c' = rest" "rc_sent c' = rc_sent c @ request"
  using assms unfolding talks_def by blast

named_theorems talks_rules \<open>conversations with the peer\<close>

lemma talks_basic [talks_rules]:
  "talks (mret x) [] [] (Inr x)" "talks (fails msg) [] [] (Inl (StdException msg))" "talks (mlift r) [] [] r"
  by (simp_all add: talks_def fails_def)

lemma talks_bind:
  assumes "talks m q r (Inr x)" "talks (f x) q' r' res"
  shows "talks (mbind m f) (q @ q') (r @ r') res"
  unfolding talks_def
proof (intro allI impI)
  fix c rest assume c: "flowing c" "stream c = (r @ r') @ rest"
  then obtain c1 where 1: "m c = (c1, Inr x)" "flowing c1" "stream c1 = r' @ rest" "rc_sent c1 = rc_sent c @ q"
    using talksD [OF assms(1)] by (metis append.assoc)
  with assms(2) obtain c2 where "f x c1 = (c2, res)" "flowing c2" "stream c2 = rest" "rc_sent c2 = rc_sent c1 @ q'"
    using talksD by metis
  with 1 show "\<exists>c'. mbind m f c = (c', res) \<and> flowing c' \<and> stream c' = rest \<and> rc_sent c' = rc_sent c @ q @ q'" by simp
qed

lemma talks_then: "talks m q r (Inr x) \<Longrightarrow> talks k q' r' res \<Longrightarrow> talks (mthen m k) (q @ q') (r @ r') res"
  by (simp add: mthen_def talks_bind)

section \<open>The socket\<close>

lemma sock_read_flowing:
  assumes "flowing c" "concat (rc_arrivals c) \<noteq> []" "0 < n"
  obtains chunk c' where "sock_read n c = (chunk, c')" "chunk \<noteq> []" "length chunk \<le> n" "flowing c'"
    "rc_buffer c' = rc_buffer c" "chunk @ concat (rc_arrivals c') = concat (rc_arrivals c)" "rc_sent c' = rc_sent c"
proof -
  obtain s ss where a: "rc_arrivals c = s # ss" using assms(2) by (cases "rc_arrivals c") auto
  have "sock_read n c = (take n s, c\<lparr>rc_arrivals := (if length s \<le> n then ss else drop n s # ss)\<rparr>)"
    using assms(1) a by (simp add: sock_read_def flowing_def connected_def)
  from that [OF this] show thesis
    using assms a by (auto simp: flowing_def connected_def)
qed

lemma ensure_bytes_flowing:
  assumes "flowing c" "need \<le> length (stream c)"
  obtains c' where "ensure_bytes need c = (c', Inr ())" "flowing c'" "stream c' = stream c"
    "need \<le> length (rc_buffer c')" "rc_sent c' = rc_sent c"
  using assms
proof (induction need c arbitrary: thesis rule: ensure_bytes.induct)
  case (1 need c)
  show ?case
  proof (cases "length (rc_buffer c) < need")
    case False
    then show ?thesis using "1.prems" by (auto simp: ensure_bytes.simps [of need c])
  next
    case True
    then have "concat (rc_arrivals c) \<noteq> []"
      using "1.prems"(3) by (auto simp: stream_def simp del: concat_eq_Nil_conv)
    with "1.prems"(2) obtain chunk c' where r: "sock_read 4096 c = (chunk, c')" "chunk \<noteq> []" "flowing c'"
        "rc_buffer c' = rc_buffer c" "chunk @ concat (rc_arrivals c') = concat (rc_arrivals c)" "rc_sent c' = rc_sent c"
      by (rule sock_read_flowing [where n = 4096]) simp
    let ?c = "c'\<lparr>rc_buffer := rc_buffer c' @ chunk\<rparr>"
    have c: "flowing ?c" "stream ?c = stream c" using r by (simp_all add: flowing_def stream_def connected_def)
    have "ensure_bytes need c = ensure_bytes need ?c"
      using True r(1,2) by (simp add: ensure_bytes.simps [of need c])
    moreover obtain c2 where "ensure_bytes need ?c = (c2, Inr ())" "flowing c2" "stream c2 = stream ?c"
        "need \<le> length (rc_buffer c2)" "rc_sent c2 = rc_sent ?c"
      using "1.IH" [OF True r(1) [symmetric] refl r(2)] c "1.prems"(3) by metis
    ultimately show ?thesis using "1.prems"(1) c r(6) by simp
  qed
qed

lemma talks_read_byte [talks_rules]: "talks read_byte [] [b] (Inr b)"
  unfolding talks_def
proof (intro allI impI)
  fix c rest assume c: "flowing c" "stream c = [b] @ rest"
  obtain c' where c': "ensure_bytes 1 c = (c', Inr ())" "flowing c'" "stream c' = stream c"
      "1 \<le> length (rc_buffer c')" "rc_sent c' = rc_sent c"
    by (rule ensure_bytes_flowing [of c 1]) (use c in auto)
  then obtain b' t where t: "rc_buffer c' = b' # t" by (cases "rc_buffer c'") auto
  with c(2) c'(3) have "b' = b" "t @ concat (rc_arrivals c') = rest" by (simp_all add: stream_def)
  with c' t show "\<exists>c'. read_byte c = (c', Inr b) \<and> flowing c' \<and> stream c' = rest \<and> rc_sent c' = rc_sent c @ []"
    by (simp add: read_byte_def flowing_def stream_def connected_def del: One_nat_def)
qed

lemma split_at: "length a = k \<Longrightarrow> k \<le> n \<Longrightarrow> take n (a @ b) = a @ take (n - k) b \<and> drop n (a @ b) = drop (n - k) b"
  by auto

lemma read_into_flowing:
  assumes "flowing c" "n \<le> length (stream c)"
  obtains c' where "read_into got n c = (c', Inr (got @ take n (stream c)))" "flowing c'"
    "stream c' = drop n (stream c)" "rc_sent c' = rc_sent c"
  using assms
proof (induction got n c arbitrary: thesis rule: read_into.induct)
  case (1 got n c)
  consider "n = 0" | "0 < n" "rc_buffer c = []" | "0 < n" "rc_buffer c \<noteq> []" by auto
  then show ?case
  proof cases
    case 1
    then have "read_into got n c = (c, Inr (got @ take n (stream c)))" by (subst read_into.simps) simp
    with "1.prems"(1,2) 1 show ?thesis by simp
  next
    case 2
    then have "concat (rc_arrivals c) \<noteq> []"
      using "1.prems"(3) by (auto simp: stream_def simp del: concat_eq_Nil_conv)
    with "1.prems"(2) 2 obtain chunk c' where r: "sock_read n c = (chunk, c')" "chunk \<noteq> []" "length chunk \<le> n" "flowing c'"
        "rc_buffer c' = rc_buffer c" "chunk @ concat (rc_arrivals c') = concat (rc_arrivals c)" "rc_sent c' = rc_sent c"
      using sock_read_flowing [where n = n] by metis
    have s: "stream c = chunk @ stream c'" using r 2 by (simp add: stream_def)
    have n: "n \<noteq> 0" and l: "n - length chunk \<le> length (stream c')" using 2 "1.prems"(3) by (simp_all add: s)
    obtain c2 where "read_into (got @ chunk) (n - length chunk) c' = (c2, Inr ((got @ chunk) @ take (n - length chunk) (stream c')))"
        "flowing c2" "stream c2 = drop (n - length chunk) (stream c')" "rc_sent c2 = rc_sent c'"
      by (rule "1.IH"(1) [OF n 2(2) r(1) [symmetric] refl r(2) _ r(4) l])
    then show ?thesis
      using "1.prems"(1) 2 r by (simp add: read_into.simps [of got n c] s)
  next
    case 3
    define k where "k = min (length (rc_buffer c)) n"
    let ?c = "c\<lparr>rc_buffer := drop k (rc_buffer c)\<rparr>"
    have k: "k \<le> n" "k \<le> length (rc_buffer c)" by (simp_all add: k_def)
    have s: "stream c = take k (rc_buffer c) @ stream ?c" by (simp add: stream_def flip: append_assoc)
    have f: "flowing ?c" using "1.prems"(2) by (simp add: flowing_def connected_def)
    have l: "n - k \<le> length (stream ?c)" using "1.prems"(3) k by (simp add: s)
    have n: "n \<noteq> 0" using 3 by simp
    obtain c2 where c2: "read_into (got @ take k (rc_buffer c)) (n - k) ?c =
          (c2, Inr ((got @ take k (rc_buffer c)) @ take (n - k) (stream ?c)))"
        "flowing c2" "stream c2 = drop (n - k) (stream ?c)" "rc_sent c2 = rc_sent ?c"
      by (rule "1.IH"(2) [OF n 3(2) refl, folded k_def, OF _ f l])
    have eq: "read_into got n c = read_into (got @ take k (rc_buffer c)) (n - k) ?c"
      by (subst read_into.simps) (simp add: n 3 k_def Let_def)
    have "length (take k (rc_buffer c)) = k" using k by simp
    note split = split_at [OF this k(1), of "stream ?c", folded s]
    show ?thesis
    proof (rule "1.prems"(1) [OF _ c2(2)])
      show "read_into got n c = (c2, Inr (got @ take n (stream c)))"
        unfolding eq c2(1) split [THEN conjunct1] by simp
      show "stream c2 = drop n (stream c)" unfolding c2(3) split [THEN conjunct2] ..
      show "rc_sent c2 = rc_sent c" using c2(4) by simp
    qed
  qed
qed

lemma talks_read_into [talks_rules]: "talks (read_into got (length s)) [] s (Inr (got @ s))"
  unfolding talks_def
proof (intro allI impI)
  fix c rest assume c: "flowing c" "stream c = s @ rest"
  then have "length s \<le> length (stream c)" by simp
  with c(1) obtain c' where "read_into got (length s) c = (c', Inr (got @ take (length s) (stream c)))" "flowing c'"
      "stream c' = drop (length s) (stream c)" "rc_sent c' = rc_sent c"
    by (rule read_into_flowing)
  then show "\<exists>c'. read_into got (length s) c = (c', Inr (got @ s)) \<and> flowing c' \<and> stream c' = rest \<and> rc_sent c' = rc_sent c @ []"
    by (simp add: c(2))
qed

lemma talks_read_line [talks_rules]:
  assumes "CHR 0x0D \<notin> set line"
  shows "talks read_line [] (line @ crlf) (Inr line)"
proof -
  have "talks (read_line_from acc) [] (line @ crlf) (Inr (acc @ line))" for acc
    using assms
  proof (induction line arbitrary: acc)
    case Nil
    show ?case
      unfolding talks_def
    proof (intro allI impI)
      fix c rest assume c: "flowing c" "stream c = ([] @ crlf) @ rest"
      obtain c1 where c1: "read_byte c = (c1, Inr (CHR 0x0D))" "flowing c1" "stream c1 = CHR 0x0A # rest" "rc_sent c1 = rc_sent c"
        using talksD [OF talks_read_byte c(1), of "CHR 0x0D" "CHR 0x0A # rest"] c(2) by (auto simp: crlf_def)
      obtain c2 where c2: "read_byte c1 = (c2, Inr (CHR 0x0A))" "flowing c2" "stream c2 = rest" "rc_sent c2 = rc_sent c1"
        using talksD [OF talks_read_byte c1(2), of "CHR 0x0A" rest] c1(3) by auto
      show "\<exists>c'. read_line_from acc c = (c', Inr (acc @ [])) \<and> flowing c' \<and> stream c' = rest \<and> rc_sent c' = rc_sent c @ []"
        by (subst read_line_from.simps) (simp add: c1 c2)
    qed
  next
    case (Cons b line)
    show ?case
      unfolding talks_def
    proof (intro allI impI)
      fix c rest assume c: "flowing c" "stream c = ((b # line) @ crlf) @ rest"
      obtain c1 where c1: "read_byte c = (c1, Inr b)" "flowing c1" "stream c1 = (line @ crlf) @ rest" "rc_sent c1 = rc_sent c"
        using talksD [OF talks_read_byte c(1), of b "(line @ crlf) @ rest"] c(2) by auto
      obtain c2 where "read_line_from (acc @ [b]) c1 = (c2, Inr ((acc @ [b]) @ line))" "flowing c2" "stream c2 = rest" "rc_sent c2 = rc_sent c1"
        using talksD [OF Cons.IH c1(2,3), of "acc @ [b]"] Cons.prems by auto
      then show "\<exists>c'. read_line_from acc c = (c', Inr (acc @ b # line)) \<and> flowing c' \<and> stream c' = rest \<and> rc_sent c' = rc_sent c @ []"
        using c1 Cons.prems by (subst read_line_from.simps) auto
    qed
  qed
  from this [of "[]"] show ?thesis by (simp add: read_line_def)
qed

section \<open>Conversations\<close>

text \<open>The rules in the order of execution: one statement, then the rest.\<close>

named_theorems steps \<open>a conversation from its first statement\<close>

lemma mbind_assoc: "mbind (mbind m f) g = mbind m (\<lambda>x. mbind (f x) g)"
  by (auto simp: mbind_def fun_eq_iff split: prod.splits sum.splits)

lemma mthen_assoc: "mthen (mbind m f) k = mbind m (\<lambda>x. mthen (f x) k)" "mthen (mthen m k') k = mthen m (mthen k' k)"
  by (simp_all add: mthen_def mbind_assoc)

lemma mthen_mbind: "mbind (mthen m k') f = mthen m (mbind k' f)"
  by (simp add: mthen_def mbind_assoc)

lemma step_ret [steps]: "res = Inr x \<Longrightarrow> talks (mret x) [] [] res"
  "res = Inl (StdException msg) \<Longrightarrow> talks (fails msg) [] [] res"
  by (simp_all add: talks_basic)

lemma step_byte [steps]: "talks (f b) q r res \<Longrightarrow> talks (mbind read_byte f) q (b # r) res"
  using talks_bind [OF talks_read_byte, of f b q r res] by simp

lemma step_line [steps]:
  "CHR 0x0D \<notin> set line \<Longrightarrow> talks (f line) q r res \<Longrightarrow> talks (mbind read_line f) q (line @ crlf @ r) res"
  "CHR 0x0D \<notin> set line \<Longrightarrow> talks k q r res \<Longrightarrow> talks (mthen read_line k) q (line @ crlf @ r) res"
  using talks_bind [OF talks_read_line, of line f q r res] talks_then [OF talks_read_line, of line k q r res] by simp_all

lemma step_into [steps]: "n = length s \<Longrightarrow> talks (f s) q r res \<Longrightarrow> talks (mbind (read_into [] n) f) q (s @ r) res"
  using talks_bind [OF talks_read_into [of "[]" s], of f q r res] by simp

lemma step_lift [steps]: "x = Inr v \<Longrightarrow> talks (f v) q r res \<Longrightarrow> talks (mbind (mlift x) f) q r res"
  using talks_bind [OF talks_basic(3) [of "Inr v"], of f q r res] by simp

lemma send_all_flowing:
  assumes "flowing c"
  obtains c' where "send_all data c = (c', Inr ())" "flowing c'" "stream c' = stream c" "rc_sent c' = rc_sent c @ data"
  using assms
proof (induction data c arbitrary: thesis rule: send_all.induct)
  case (1 data c)
  show ?case
  proof (cases "data = []")
    case True
    then show ?thesis using "1.prems" by (simp add: send_all.simps)
  next
    case False
    obtain n c' where n: "sock_send data c = (n, c')" by fastforce
    with False "1.prems"(2) have laws: "n \<noteq> 0" "flowing c'" "stream c' = stream c" "rc_sent c' = rc_sent c @ take n data"
      by (auto simp: sock_send_def flowing_def connected_def stream_def split: list.splits)
    obtain c2 where c2: "send_all (drop n data) c' = (c2, Inr ())" "flowing c2" "stream c2 = stream c'"
        "rc_sent c2 = rc_sent c' @ drop n data"
      by (rule "1.IH" [OF False n [symmetric] refl laws(1) _ laws(2)])
    show ?thesis
    proof (rule "1.prems"(1) [OF _ c2(2)])
      show "send_all data c = (c2, Inr ())" using c2(1) False laws(1) by (subst send_all.simps) (simp add: n)
    qed (use c2 laws in simp_all)
  qed
qed

lemma step_send [steps]: "talks k q r res \<Longrightarrow> talks (mthen (send_command args) k) (encode_command args @ q) r res"
proof -
  assume k: "talks k q r res"
  have "talks (send_command args) (encode_command args) [] (Inr ())"
    unfolding talks_def
  proof (intro allI impI)
    fix c rest assume c: "flowing c" "stream c = [] @ rest"
    obtain c' where "send_all (encode_command args) c = (c', Inr ())" "flowing c'" "stream c' = stream c"
        "rc_sent c' = rc_sent c @ encode_command args"
      by (rule send_all_flowing [OF c(1)])
    then show "\<exists>c'. send_command args c = (c', Inr ()) \<and> flowing c' \<and> stream c' = rest \<and>
        rc_sent c' = rc_sent c @ encode_command args"
      using c(2) by (simp add: send_command_def)
  qed
  from talks_then [OF this k] show ?thesis by simp
qed

lemma mbind_value: "mbind (mret x) f = f x" "mbind (fails msg) f = fails msg"
  "mbind (if b then m else m') f = (if b then mbind m f else mbind m' f)"
  by (auto simp: mbind_def fails_def)

lemma mthen_value: "mthen (mret x) k = k" "mthen (if b then m else m') k = (if b then mthen m k else mthen m' k)"
  by (auto simp: mbind_def mthen_def)

text \<open>Branches on a byte that was read.\<close>

lemma step_if [steps]:
  "talks m q r res \<Longrightarrow> talks (if (b :: char) = b then m else m') q r res"
  "b \<noteq> c \<Longrightarrow> talks m' q r res \<Longrightarrow> talks (if (b :: char) = c then m else m') q r res"
  by simp_all

lemma step_if_then [steps]:
  "talks (mthen m k) q r res \<Longrightarrow> talks (mthen (if (b :: char) = b then m else m') k) q r res"
  "b \<noteq> c \<Longrightarrow> talks (mthen m' k) q r res \<Longrightarrow> talks (mthen (if (b :: char) = c then m else m') k) q r res"
  by simp_all

lemma step_if_bind [steps]:
  "talks (mbind m f) q r res \<Longrightarrow> talks (mbind (if (b :: char) = b then m else m') f) q r res"
  "b \<noteq> c \<Longrightarrow> talks (mbind m' f) q r res \<Longrightarrow> talks (mbind (if (b :: char) = c then m else m') f) q r res"
  by simp_all

lemma step_bind_bind [steps]: "talks (mbind m (\<lambda>x. mbind (f x) g)) q r res \<Longrightarrow> talks (mbind (mbind m f) g) q r res"
  by (simp add: mbind_assoc)

lemma step_bind_then [steps]: "talks (mbind m (\<lambda>x. mthen (f x) k)) q r res \<Longrightarrow> talks (mthen (mbind m f) k) q r res"
  by (simp add: mthen_assoc)

lemma step_then_then [steps]: "talks (mthen m (mthen k' k)) q r res \<Longrightarrow> talks (mthen (mthen m k') k) q r res"
  by (simp add: mthen_assoc)

lemma step_then_bind [steps]: "talks (mthen m (mbind k' f)) q r res \<Longrightarrow> talks (mbind (mthen m k') f) q r res"
  by (simp add: mthen_mbind)

lemma step_value_bind [steps]: "talks (f x) q r res \<Longrightarrow> talks (mbind (mret x) f) q r res"
  by (simp add: mbind_value)

lemma step_value_then [steps]: "talks k q r res \<Longrightarrow> talks (mthen (mret x) k) q r res"
  by (simp add: mthen_value)

lemmas step_forms = mbind_assoc mthen_assoc mthen_mbind mbind_value mthen_value

section \<open>Replies\<close>

lemma digits_head: "string_of_nat n = d # ds \<Longrightarrow> is_digit d"
  using string_of_nat_laws(1) [of n] by simp

lemma digit_not:
  assumes "is_digit c"
  shows "\<not> is_space c" "c \<noteq> CHR ''-''" "c \<noteq> CHR ''+''" "c \<noteq> CHR 0x0D"
  using assms by (auto simp: is_digit_def is_space_def Let_def)

lemma take_all_digits: "list_all P xs \<Longrightarrow> takeWhile P xs = xs"
  by (induction xs) auto

lemma sto_string_of_nat:
  assumes "n < 2 ^ (bits - 1)"
  shows "sto name bits (string_of_nat n) = Inr (int n)"
proof -
  obtain d ds where d: "string_of_nat n = d # ds" using string_of_nat_laws(2) by (cases "string_of_nat n") auto
  from digits_head [OF d] have "split_sign (skip_ws (string_of_nat n)) = (False, string_of_nat n)"
    by (simp add: d skip_ws_def split_sign_def digit_not)
  note start = this
  have digits: "takeWhile is_digit (string_of_nat n) = string_of_nat n"
    by (rule take_all_digits) simp
  have "int n < 2 ^ (bits - 1)" using assms by (metis of_nat_less_iff of_nat_numeral of_nat_power)
  moreover have "\<not> int n < - (2 ^ (bits - 1))"
    by (metis neg_0_le_iff_le neg_le_0_iff_le not_less of_nat_0_le_iff order_trans zero_le_numeral zero_le_power)
  ultimately show ?thesis by (simp add: sto_def Let_def start digits)
qed

lemma no_cr_in_nat [simp]: "CHR 0x0D \<notin> set (string_of_nat n)"
  using string_of_nat_laws(1) [of n] by (auto simp: list_all_iff dest: digit_not(4))

text \<open>The lengths an \<open>int\<close> holds.\<close>

definition short :: "'a list \<Rightarrow> bool" where
  "short xs \<longleftrightarrow> length xs < 2 ^ 31"

lemma short_map [simp]: "short (map f xs) \<longleftrightarrow> short xs"
  by (simp add: short_def)

lemma stoi_length [simp]: "short xs \<Longrightarrow> stoi (string_of_nat (length xs)) = Inr (int (length xs))"
  by (simp add: stoi_def short_def sto_string_of_nat)

lemma step_bulk [steps]:
  assumes "short s" "talks (f (Some s)) q r res"
  shows "talks (mbind read_bulk_string f) q (string_of_nat (length s) @ crlf @ s @ crlf @ r) res"
proof -
  have "talks (mbind read_bulk_string f) q (string_of_nat (length s) @ crlf @ s @ CHR 0x0D # CHR 0x0A # r) res"
    unfolding read_bulk_string_def
    by (rule steps no_cr_in_nat stoi_length assms refl | simp add: mbind_value)+
  then show ?thesis by (simp add: crlf_def)
qed

lemma step_last:
  assumes "talks (mbind m mret) q r res"
  shows "talks m q r res"
proof -
  have "mbind m mret = m" by (auto simp: mbind_def fun_eq_iff split: prod.splits sum.splits)
  with assms show ?thesis by simp
qed

text \<open>Replies as a server encodes them, and the optional text the client makes of one in an array.\<close>

datatype resp = Bulk string | NilBulk | SimpleString string | Integer int

fun encode_resp :: "resp \<Rightarrow> string" where
  "encode_resp (Bulk s) = encode_bulk s"
| "encode_resp NilBulk = CHR ''$'' # string_of_int (-1) @ crlf"
| "encode_resp (SimpleString s) = CHR ''+'' # s @ crlf"
| "encode_resp (Integer i) = CHR '':'' # string_of_int i @ crlf"

fun resp_text :: "resp \<Rightarrow> string option" where
  "resp_text (Bulk s) = Some s"
| "resp_text NilBulk = None"
| "resp_text (SimpleString s) = Some s"
| "resp_text (Integer i) = Some (string_of_int i)"

fun resp_ok :: "resp \<Rightarrow> bool" where
  "resp_ok (Bulk s) \<longleftrightarrow> short s"
| "resp_ok NilBulk \<longleftrightarrow> True"
| "resp_ok (SimpleString s) \<longleftrightarrow> CHR 0x0D \<notin> set s"
| "resp_ok (Integer i) \<longleftrightarrow> - (2 ^ 63) \<le> i \<and> i < 2 ^ 63"

definition encode_array :: "resp list \<Rightarrow> string" where
  "encode_array xs = CHR ''*'' # string_of_nat (length xs) @ crlf @ concat (map encode_resp xs)"

lemma sto_string_of_int:
  assumes "- (2 ^ (bits - 1)) \<le> i" "i < 2 ^ (bits - 1)"
  shows "sto name bits (string_of_int i) = Inr i"
proof (cases "i < 0")
  case False
  then have "nat i < 2 ^ (bits - 1)" using assms(2) by (simp add: nat_less_iff)
  from sto_string_of_nat [OF this, of name] show ?thesis using False by (simp add: string_of_int_def)
next
  case True
  have digits: "takeWhile is_digit (string_of_nat (nat (- i))) = string_of_nat (nat (- i))"
    by (rule take_all_digits) simp
  have "split_sign (skip_ws (string_of_int i)) = (True, string_of_nat (nat (- i)))"
    using True by (simp add: string_of_int_def skip_ws_def split_sign_def is_space_def Let_def)
  then show ?thesis using True assms by (simp add: sto_def Let_def digits)
qed

lemma no_cr_in_int [simp]: "CHR 0x0D \<notin> set (string_of_int i)"
  by (simp add: string_of_int_def)

lemma stoi_minus_one: "stoi (string_of_int (-1)) = Inr (-1)"
  by (simp add: stoi_def sto_string_of_int)

lemma step_nil [steps]: "talks (f None) q r res \<Longrightarrow> talks (mbind read_bulk_string f) q (string_of_int (-1) @ crlf @ r) res"
  unfolding read_bulk_string_def
  by (rule steps no_cr_in_int stoi_minus_one | simp add: mbind_value)+

lemma step_integer [steps]:
  assumes "- (2 ^ 63) \<le> i" "i < 2 ^ 63" "talks (f i) q r res"
  shows "talks (mbind read_integer f) q (string_of_int i @ crlf @ r) res"
proof -
  have ok: "stoll (string_of_int i) = Inr i" using assms by (simp add: stoll_def sto_string_of_int)
  show ?thesis
    unfolding read_integer_def by (rule steps no_cr_in_int ok assms(3))+
qed

lemma step_element:
  assumes "resp_ok x" "talks (f (resp_text x)) q r res"
  shows "talks (mbind read_element f) q (encode_resp x @ r) res"
proof (cases x)
  case (Bulk s)
  have "talks (mbind read_element f) q (CHR ''$'' # string_of_nat (length s) @ crlf @ s @ crlf @ r) res"
    unfolding read_element_def by (rule steps)+ (use assms Bulk in simp_all)
  then show ?thesis by (simp add: Bulk encode_bulk_def)
next
  case NilBulk
  have "talks (mbind read_element f) q (CHR ''$'' # string_of_int (-1) @ crlf @ r) res"
    unfolding read_element_def by (rule steps)+ (use assms NilBulk in simp_all)
  then show ?thesis by (simp add: NilBulk)
next
  case (SimpleString s)
  have "talks (mbind read_element f) q (CHR ''+'' # s @ crlf @ r) res"
    unfolding read_element_def by (rule steps | simp)+ (use assms SimpleString in \<open>simp_all add: mbind_value\<close>)
  then show ?thesis by (simp add: SimpleString)
next
  case (Integer i)
  have "talks (mbind read_element f) q (CHR '':'' # string_of_int i @ crlf @ r) res"
    unfolding read_element_def by (rule steps | simp)+ (use assms Integer in \<open>simp_all add: mbind_value\<close>)
  then show ?thesis by (simp add: Integer)
qed

lemma step_elements [steps]:
  "list_all resp_ok xs \<Longrightarrow> talks (f (map resp_text xs)) q r res \<Longrightarrow>
     talks (mbind (read_elements (length xs)) f) q (concat (map encode_resp xs) @ r) res"
proof (induction xs arbitrary: f)
  case (Cons x xs)
  have "talks (mbind (read_elements (length (x # xs))) f) q (encode_resp x @ concat (map encode_resp xs) @ r) res"
    unfolding list.size(4) add_Suc_right add_0_right read_elements.simps
    by (intro step_bind_bind step_element) (use Cons in \<open>simp_all add: step_forms\<close>)
  then show ?case by simp
qed (simp add: mbind_value)

lemma step_array [steps]:
  assumes "short xs" "list_all resp_ok xs" "talks (f (map resp_text xs)) q r res"
  shows "talks (mbind read_array f) q (string_of_nat (length xs) @ crlf @ concat (map encode_resp xs) @ r) res"
  unfolding read_array_def
  by (rule steps no_cr_in_nat stoi_length assms | simp)+

lemma step_array_then [steps]:
  assumes "short xs" "list_all resp_ok xs" "talks k q r res"
  shows "talks (mthen read_array k) q (string_of_nat (length xs) @ crlf @ concat (map encode_resp xs) @ r) res"
  unfolding mthen_def by (rule step_array [OF assms])

lemma encode_bulks: "encode_command args = encode_array (map Bulk args)"
  by (simp add: encode_command_def encode_array_def comp_def)

lemma present_some [simp]: "present (map Some xs) = xs"
  by (induction xs) (simp_all add: present_def)

lemma step_strings:
  assumes "short members" "list_all short members"
  shows "talks (expect_strings name) [] (encode_command members) (Inr members)"
proof -
  have "talks (expect_strings name) []
      (CHR ''*'' # string_of_nat (length (map Bulk members)) @ crlf @ concat (map encode_resp (map Bulk members)) @ []) (Inr members)"
    unfolding expect_strings_def
    by (rule steps)+ (use assms in \<open>simp_all add: list_all_map_iff comp_def steps\<close>)
  then show ?thesis by (simp add: encode_bulks encode_array_def)
qed

text \<open>The requests and replies of a transaction that the server accepts.\<close>

definition transaction_request :: "string list list \<Rightarrow> string" where
  "transaction_request commands =
     encode_command [''MULTI''] @ concat (map encode_command commands) @ encode_command [''EXEC'']"

definition transaction_reply :: "string list list \<Rightarrow> resp list \<Rightarrow> string" where
  "transaction_reply commands results =
     encode_resp (SimpleString ''OK'') @ concat (map (\<lambda>_. encode_resp (SimpleString ''QUEUED'')) commands) @ encode_array results"

lemma step_queue_command:
  assumes "talks k q r res"
  shows "talks (mthen (queue_command c) k) (encode_command c @ q) (encode_resp (SimpleString ''QUEUED'') @ r) res"
proof -
  have "talks (mthen (queue_command c) k) (encode_command c @ q) (CHR ''+'' # ''QUEUED'' @ crlf @ r) res"
    unfolding queue_command_def by (rule steps assms | simp)+
  then show ?thesis by simp
qed

lemma step_queue:
  "talks k q r res \<Longrightarrow> talks (mthen (mfor queue_command commands) k) (concat (map encode_command commands) @ q)
     (concat (map (\<lambda>_. encode_resp (SimpleString ''QUEUED'')) commands) @ r) res"
proof (induction commands)
  case (Cons c cs)
  from step_queue_command [OF Cons.IH [OF Cons.prems]] show ?case by (simp add: mthen_assoc)
qed (simp add: mthen_value)

lemma step_exec:
  assumes "short results" "list_all resp_ok results"
  shows "talks (write_multiexec commands) (transaction_request commands) (transaction_reply commands results) (Inr ())"
proof -
  have "talks (write_multiexec commands) (encode_command [''MULTI''] @ concat (map encode_command commands) @ encode_command [''EXEC''] @ [])
      (CHR ''+'' # ''OK'' @ crlf @ concat (map (\<lambda>_. encode_resp (SimpleString ''QUEUED'')) commands) @
       CHR ''*'' # string_of_nat (length results) @ crlf @ concat (map encode_resp results) @ []) (Inr ())"
    unfolding write_multiexec_def
    by (rule steps step_queue assms | (simp; fail))+
  then show ?thesis by (simp add: transaction_request_def transaction_reply_def encode_array_def)
qed

lemma talks_get:
  "short v \<Longrightarrow> talks (redis_get key) (encode_command [''GET'', key]) (encode_bulk v) (Inr (Some v))"
  "talks (redis_get key) (encode_command [''GET'', key]) (encode_resp NilBulk) (Inr None)"
proof -
  assume v: "short v"
  have "talks (redis_get key) (encode_command [''GET'', key] @ []) (CHR ''$'' # string_of_nat (length v) @ crlf @ v @ crlf @ []) (Inr (Some v))"
    unfolding redis_get_def by (rule steps)+ (rule step_last, (rule steps v refl)+)
  then show "talks (redis_get key) (encode_command [''GET'', key]) (encode_bulk v) (Inr (Some v))"
    by (simp add: encode_bulk_def)
next
  have "talks (redis_get key) (encode_command [''GET'', key] @ []) (CHR ''$'' # string_of_int (-1) @ crlf @ []) (Inr None)"
    unfolding redis_get_def by (rule steps)+ (rule step_last, (rule steps refl)+)
  then show "talks (redis_get key) (encode_command [''GET'', key]) (encode_resp NilBulk) (Inr None)" by simp
qed

section \<open>The commands\<close>

text \<open>
  C37: On a socket that flows the commands speak the protocol, whatever the segments: each writes the
  encoding of its command, reads exactly one reply and returns what the server encoded.  The strings of
  a value, of a set and of a list come back as they were, the encoding of a command being the array of
  its strings; a null value is the absent one; and a transaction reads one reply per command and the
  array of \<open>EXEC\<close>, whose results are simple strings without a carriage return, integers of 64 bits, strings or nulls.  The lengths of the
  strings and the arrays are below \<open>2 ^ 31\<close>, as the client reads them into an \<open>int\<close>.
\<close>

theorem commands_speak_resp:
  assumes "short v" "short members" "list_all short members" "short results" "list_all resp_ok results"
  shows "talks (redis_get key) (encode_command [''GET'', key]) (encode_resp (Bulk v)) (Inr (Some v)) \<and>
         talks (redis_get key) (encode_command [''GET'', key]) (encode_resp NilBulk) (Inr None) \<and>
         talks (smembers key) (encode_command [''SMEMBERS'', key]) (encode_command members) (Inr members) \<and>
         talks (lrange key start stop) (encode_command [''LRANGE'', key, string_of_int start, string_of_int stop])
           (encode_command members) (Inr members) \<and>
         talks (redis_set key v ttl)
           (encode_command ([''SET'', key, v] @ (if ttl > 0 then [''EX'', string_of_int ttl] else [])))
           (encode_resp (SimpleString ''OK'')) (Inr ()) \<and>
         talks (write_multiexec commands) (transaction_request commands) (transaction_reply commands results) (Inr ())"
proof (intro conjI)
  show "talks (redis_get key) (encode_command [''GET'', key]) (encode_resp (Bulk v)) (Inr (Some v))"
    "talks (redis_get key) (encode_command [''GET'', key]) (encode_resp NilBulk) (Inr None)"
    using talks_get assms(1) by simp_all
  note strings = step_send [OF step_strings [OF assms(2,3)]]
  from strings show "talks (smembers key) (encode_command [''SMEMBERS'', key]) (encode_command members) (Inr members)"
    unfolding smembers_def by (metis append_Nil2)
  from strings show "talks (lrange key start stop) (encode_command [''LRANGE'', key, string_of_int start, string_of_int stop])
      (encode_command members) (Inr members)"
    unfolding lrange_def by (metis append_Nil2)
  have ok: "talks expect_ok [] (CHR ''+'' # ''OK'' @ crlf @ []) (Inr ())"
    unfolding expect_ok_def by (rule steps | simp)+
  show "talks (redis_set key v ttl)
      (encode_command ([''SET'', key, v] @ (if ttl > 0 then [''EX'', string_of_int ttl] else [])))
      (encode_resp (SimpleString ''OK'')) (Inr ())"
    using step_send [OF ok] by (simp add: redis_set_def)
  show "talks (write_multiexec commands) (transaction_request commands) (transaction_reply commands results) (Inr ())"
    by (rule step_exec [OF assms(4,5)])
qed

text \<open>A socket whose replies come in segments that cut the protocol anywhere.\<close>

definition demo_socket :: client where
  "demo_socket = \<lparr>rc_fd = 7, rc_buffer = ''*2'', rc_arrivals = [[CHR 0x0D], CHR 0x0A # ''$1'' @ crlf @ ''a'', crlf @ ''$2'' @ crlf @ ''b'', ''c'' @ crlf],
     rc_accepts = [3, 1, 100], rc_sent = []\<rparr>"

theorem commands_speak_resp_witness:
  "\<exists>c'. smembers ''k'' demo_socket = (c', Inr [''a'', ''bc'']) \<and> stream c' = [] \<and> rc_sent c' = encode_command [''SMEMBERS'', ''k'']"
proof -
  have "short ''a''" "short [''a'', ''bc'']" "list_all short [''a'', ''bc'']" "short ([] :: resp list)" "list_all resp_ok []"
    by (simp_all add: short_def)
  from commands_speak_resp [OF this, of "''k''" 0 0 0 "[]"]
  have t: "talks (smembers ''k'') (encode_command [''SMEMBERS'', ''k'']) (encode_command [''a'', ''bc'']) (Inr [''a'', ''bc''])" by blast
  have "flowing demo_socket" by (simp add: flowing_def connected_def demo_socket_def crlf_def)
  moreover have "stream demo_socket = encode_command [''a'', ''bc''] @ []" by code_simp
  ultimately obtain c' where "smembers ''k'' demo_socket = (c', Inr [''a'', ''bc''])" "stream c' = []"
      "rc_sent c' = rc_sent demo_socket @ encode_command [''SMEMBERS'', ''k'']" by (rule talksD [OF t])
  then show ?thesis by (simp add: demo_socket_def)
qed

section \<open>Errors\<close>

lemma step_fail [steps]:
  "res = Inl (StdException msg) \<Longrightarrow> talks (mbind (fails msg) f) [] [] res"
  "res = Inl (StdException msg) \<Longrightarrow> talks (mthen (fails msg) k) [] [] res"
  by (simp_all add: talks_def fails_def mbind_def mthen_def)

lemma step_throw [steps]:
  assumes "CHR 0x0D \<notin> set msg" "res = Inl (StdException (''redis error: '' @ msg))"
  shows "talks throw_reply [] (msg @ crlf) res"
proof -
  have "talks throw_reply [] (msg @ crlf @ []) res"
    unfolding throw_reply_def by (rule steps assms)+
  then show ?thesis by simp
qed

lemma step_throw_then [steps]:
  assumes "CHR 0x0D \<notin> set msg" "res = Inl (StdException (''redis error: '' @ msg))"
  shows "talks (mthen throw_reply k) [] (msg @ crlf) res"
proof -
  have "talks (mthen throw_reply k) [] (msg @ crlf @ []) res"
    unfolding throw_reply_def by (rule steps assms)+
  then show ?thesis by simp
qed

definition encode_error :: "string \<Rightarrow> string" where
  "encode_error msg = CHR ''-'' # msg @ crlf"

text \<open>
  An error the server answers with is thrown with its text and leaves the connection in step: the
  reply is read to its end, for every command and for the first command of a transaction.
\<close>

theorem server_errors_stay_in_step:
  assumes "CHR 0x0D \<notin> set msg"
  shows "talks (redis_get key) (encode_command [''GET'', key]) (encode_error msg) (Inl (StdException (''redis error: '' @ msg))) \<and>
         talks (smembers key) (encode_command [''SMEMBERS'', key]) (encode_error msg) (Inl (StdException (''redis error: '' @ msg))) \<and>
         talks (redis_set key v 0) (encode_command [''SET'', key, v]) (encode_error msg) (Inl (StdException (''redis error: '' @ msg))) \<and>
         talks (sadd key members) (encode_command ([''SADD'', key] @ members)) (encode_error msg) (Inl (StdException (''redis error: '' @ msg))) \<and>
         talks (write_multiexec commands) (encode_command [''MULTI'']) (encode_error msg) (Inl (StdException (''redis error: '' @ msg)))"
proof -
  have "talks (redis_get key) (encode_command [''GET'', key] @ []) (CHR ''-'' # msg @ crlf) (Inl (StdException (''redis error: '' @ msg)))"
    "talks (smembers key) (encode_command [''SMEMBERS'', key] @ []) (CHR ''-'' # msg @ crlf) (Inl (StdException (''redis error: '' @ msg)))"
    "talks (mthen (send_command [''SET'', key, v]) expect_ok) (encode_command [''SET'', key, v] @ []) (CHR ''-'' # msg @ crlf)
       (Inl (StdException (''redis error: '' @ msg)))"
    "talks (sadd key members) (encode_command ([''SADD'', key] @ members) @ []) (CHR ''-'' # msg @ crlf) (Inl (StdException (''redis error: '' @ msg)))"
    "talks (write_multiexec commands) (encode_command [''MULTI''] @ []) (CHR ''-'' # msg @ crlf) (Inl (StdException (''redis error: '' @ msg)))"
    unfolding redis_get_def smembers_def expect_strings_def sadd_def expect_integer_def write_multiexec_def expect_ok_def
    by (rule steps assms refl | (simp; fail))+
  then show ?thesis by (simp add: redis_set_def encode_error_def)
qed

theorem server_errors_stay_in_step_witness:
  "talks (redis_get ''k'') (encode_command [''GET'', ''k'']) (encode_error ''WRONGTYPE'') (Inl (StdException ''redis error: WRONGTYPE''))"
  using server_errors_stay_in_step [of "''WRONGTYPE''" "''k''"] by simp

end
