(* ===== verification/Redis_Pool.thy ===== *)
theory Redis_Pool
  imports Redis_Client "HOL-Library.AList"
begin

text \<open>
  The connection pool (\<open>src/redis/connection_pool.hpp\<close>, \<open>connection_pool.cpp\<close>) and the resource
  that owns it: borrowing, returning, the RAII handle, the command wrapper with its records, and the
  probe.  Times are nanoseconds of the steady clock.  An operation is one step: its parts are the
  critical section of \<open>mu_\<close> and one access to the atomic \<open>in_use_\<close>.
\<close>

section \<open>The pool\<close>

datatype pool_key = PoolKey (pk_host: string) (pk_port: int) (pk_password: string) (pk_db: int)

record idle_entry =
  ie_client :: client
  ie_queued_at :: int

record conn_pool =
  pl_idle :: "(pool_key \<times> idle_entry list) list"
  pl_in_use :: "64 word"
  pl_max_idle_per_key :: nat

definition k_max_idle_per_key :: nat where "k_max_idle_per_key = 16"
definition k_idle_timeout :: int where "k_idle_timeout = 60 * 10 ^ 9"

definition empty_pool :: conn_pool where
  "empty_pool = \<lparr>pl_idle = [], pl_in_use = 0, pl_max_idle_per_key = k_max_idle_per_key\<rparr>"

definition set_max_idle_per_key :: "nat \<Rightarrow> conn_pool \<Rightarrow> conn_pool" where
  "set_max_idle_per_key cap p = p\<lparr>pl_max_idle_per_key := (if cap = 0 then k_max_idle_per_key else cap)\<rparr>"

definition bucket :: "pool_key \<Rightarrow> conn_pool \<Rightarrow> idle_entry list" where
  "bucket key p = (case map_of (pl_idle p) key of Some es \<Rightarrow> es | None \<Rightarrow> [])"

definition set_bucket :: "pool_key \<Rightarrow> idle_entry list \<Rightarrow> conn_pool \<Rightarrow> conn_pool" where
  "set_bucket key es p = p\<lparr>pl_idle := AList.update key es (pl_idle p)\<rparr>"

text \<open>The loop that pops from the back, given newest first: the first usable client and what is left.\<close>

fun pop_fresh :: "int \<Rightarrow> idle_entry list \<Rightarrow> client option \<times> idle_entry list" where
  "pop_fresh now [] = (None, [])"
| "pop_fresh now (e # es) =
     (if now - ie_queued_at e \<le> k_idle_timeout \<and> connected (ie_client e) then (Some (ie_client e), es)
      else pop_fresh now es)"

text \<open>\<open>attempts\<close> are the connections a new client would try.\<close>

definition pool_acquire :: "int \<Rightarrow> pool_key \<Rightarrow> (client \<times> bool) list \<Rightarrow> conn_pool \<Rightarrow> client \<times> conn_pool" where
  "pool_acquire now key attempts p =
     (let (found, left) = pop_fresh now (rev (bucket key p));
          p = (if bucket key p = [] then p else set_bucket key (rev left) p);
          p = p\<lparr>pl_in_use := pl_in_use p + 1\<rparr>
      in (case found of Some c \<Rightarrow> c | None \<Rightarrow> new_client attempts (pk_password key) (pk_db key), p))"

definition pool_release :: "int \<Rightarrow> pool_key \<Rightarrow> client \<Rightarrow> conn_pool \<Rightarrow> conn_pool" where
  "pool_release now key c p =
     (let p = p\<lparr>pl_in_use := pl_in_use p - 1\<rparr>
      in if \<not> connected c then p
         else if length (bucket key p) \<ge> pl_max_idle_per_key p then set_bucket key (bucket key p) p
         else set_bucket key (bucket key p @ [\<lparr>ie_client = c, ie_queued_at = now\<rparr>]) p)"

definition idle_count :: "conn_pool \<Rightarrow> nat" where
  "idle_count p = sum_list (map (length \<circ> snd) (pl_idle p))"

definition in_use_count :: "conn_pool \<Rightarrow> 64 word" where
  "in_use_count p = pl_in_use p"

text \<open>
  \<open>acquire_scoped\<close>: what is done with the handle, whose destructor returns the client, also when the
  body throws.  \<open>t\<close> and \<open>t'\<close> are the times of the two calls.
\<close>

definition with_client :: "int \<Rightarrow> int \<Rightarrow> pool_key \<Rightarrow> (client \<times> bool) list \<Rightarrow> 'a cmd \<Rightarrow> (conn_pool, error, 'a) effect" where
  "with_client t t' key attempts m p =
     (let (c, p) = pool_acquire t key attempts p; (c, r) = m c in (pool_release t' key c p, r))"

section \<open>The resource\<close>

text \<open>\<open>rr_recorded\<close> lists the labels of every \<open>record_command\<close>; without metrics nothing is recorded.\<close>

record redis_resource =
  rr_key :: pool_key
  rr_pool :: conn_pool
  rr_metrics :: bool
  rr_recorded :: "(string \<times> string) list"

definition new_redis_resource :: "pool_key \<Rightarrow> string \<Rightarrow> bool \<Rightarrow> nat \<Rightarrow> redis_resource" where
  "new_redis_resource key metrics_name provider pool_size =
     \<lparr>rr_key = key, rr_pool = set_max_idle_per_key pool_size empty_pool,
      rr_metrics = (metrics_name \<noteq> [] \<and> provider), rr_recorded = []\<rparr>"

definition record_command :: "string \<Rightarrow> string \<Rightarrow> redis_resource \<Rightarrow> redis_resource" where
  "record_command command status r =
     (if \<not> rr_metrics r then r else r\<lparr>rr_recorded := rr_recorded r @ [(command, status)]\<rparr>)"

text \<open>The body of \<open>run_command\<close> once a client is borrowed.\<close>

definition checked :: "'a cmd \<Rightarrow> 'a cmd" where
  "checked m c = (if \<not> connected c then fails ''connection failed'' c else m c)"

definition command_status :: "error + 'a \<Rightarrow> string" where
  "command_status r = (case r of Inr _ \<Rightarrow> ''ok'' | Inl _ \<Rightarrow> ''error'')"

text \<open>\<open>cause\<close> is what \<open>ctx.err()\<close> returns: nothing, or whether the deadline passed.\<close>

definition run_command ::
  "int \<Rightarrow> int \<Rightarrow> (client \<times> bool) list \<Rightarrow> bool option \<Rightarrow> string \<Rightarrow> 'a cmd \<Rightarrow> (redis_resource, error, 'a) effect" where
  "run_command t t' attempts cause command m r =
     (case cause of
        Some deadline \<Rightarrow>
          (record_command command (if deadline then ''timeout'' else ''error'') r, Inl (ContextError deadline))
      | None \<Rightarrow>
          let (p, res) = with_client t t' (rr_key r) attempts (checked m) (rr_pool r)
          in (record_command command (command_status res) (r\<lparr>rr_pool := p\<rparr>), res))"

text \<open>One round of the probe: the two gauges of the pool and whether the server answered.\<close>

definition probe_ok :: "int \<Rightarrow> int \<Rightarrow> (client \<times> bool) list \<Rightarrow> redis_resource \<Rightarrow> redis_resource \<times> 64 word \<times> nat \<times> bool" where
  "probe_ok t t' attempts r =
     (let (p, res) = with_client t t' (rr_key r) attempts ping (rr_pool r)
      in (r\<lparr>rr_pool := p\<rparr>, in_use_count (rr_pool r) + of_nat (idle_count (rr_pool r)), idle_count (rr_pool r), res = Inr True))"

end
