(* ===== verification/Redis_Pool_Theorems.thy ===== *)
theory Redis_Pool_Theorems
  imports Redis_Pool Redis_Theorems
begin

text \<open>
  What the connection pool guarantees to its borrowers, over any interleaving of acquires, uses and
  releases; and what happens to a connection whose command failed half-way.
\<close>

section \<open>Commands keep the socket\<close>

definition same_fd :: "client \<Rightarrow> client \<Rightarrow> bool" where
  "same_fd c c' \<longleftrightarrow> rc_fd c' = rc_fd c"

lemma same_fd_laws [keeps_intros]: "reflp same_fd" "transp same_fd"
  by (auto simp: same_fd_def reflp_def transp_def)

lemma keeps_if [keeps_intros]: "keeps R m \<Longrightarrow> keeps R m' \<Longrightarrow> keeps R (if b then m else m')"
  by simp

lemma keeps_fails [keeps_intros]: "keeps same_fd (fails msg)"
  by (auto simp: fails_def same_fd_def)

lemma sock_read_fd: "sock_read n c = (chunk, c') \<Longrightarrow> same_fd c c'"
  by (auto simp: sock_read_def same_fd_def split: if_splits list.splits)

lemma sock_send_fd: "sock_send data c = (n, c') \<Longrightarrow> same_fd c c'"
  by (auto simp: sock_send_def same_fd_def Let_def split: if_splits list.splits prod.splits)

lemma same_fd_trans: "same_fd a b \<Longrightarrow> same_fd b c \<Longrightarrow> same_fd a c"
  by (simp add: same_fd_def)

lemma keeps_send [keeps_intros]: "keeps same_fd (send_command args)"
proof -
  have "same_fd c (fst (send_all data c))" for data c
  proof (induction data c rule: send_all.induct)
    case (1 data c)
    obtain n c' where s: "sock_send data c = (n, c')" by fastforce
    show ?case using 1 [OF _ s [symmetric] refl] sock_send_fd [OF s]
      by (subst send_all.simps) (auto simp: s fails_def same_fd_def)
  qed
  then show ?thesis by (auto simp: send_command_def)
qed

lemma ensure_bytes_fd: "same_fd c (fst (ensure_bytes need c))"
proof (induction need c rule: ensure_bytes.induct)
  case (1 need c)
  obtain chunk c' where s: "sock_read 4096 c = (chunk, c')" by fastforce
  show ?case using 1 [OF _ s [symmetric] refl] sock_read_fd [OF s]
    by (subst ensure_bytes.simps) (auto simp: s fails_def same_fd_def)
qed

lemma keeps_read_byte [keeps_intros]: "keeps same_fd read_byte"
  unfolding read_byte_def
  by (intro keeps_intros) (auto simp: ensure_bytes_fd, auto simp: same_fd_def)

lemma keeps_read_into [keeps_intros]: "keeps same_fd (read_into got n)"
proof
  show "same_fd c (fst (read_into got n c))" for c
  proof (induction got n c rule: read_into.induct)
    case (1 got n c)
    obtain chunk c' where s: "sock_read n c = (chunk, c')" by fastforce
    show ?case using 1(1) [OF _ _ s [symmetric] refl] 1(2) [OF _ _ refl] sock_read_fd [OF s]
      by (subst read_into.simps) (auto simp: s fails_def same_fd_def Let_def)
  qed
qed

lemma keeps_read_line [keeps_intros]: "keeps same_fd read_line"
proof -
  have "same_fd c (fst (read_line_from line c))" for line c
  proof (induction line c rule: read_line_from.induct)
    case (1 line c)
    obtain c1 r where r: "read_byte c = (c1, r)" by fastforce
    have fd: "same_fd c c1" by (rule keepsD [OF keeps_read_byte r])
    have last: "same_fd c1 (fst (mbind read_byte (\<lambda>lf. if lf \<noteq> CHR 0x0A then fails ''redis protocol error'' else mret line) c1))"
      using keeps_mbind [OF same_fd_laws(2) keeps_read_byte, of "\<lambda>lf. if lf \<noteq> CHR 0x0A then fails ''redis protocol error'' else mret line"]
      by (auto simp: keeps_def same_fd_def fails_def)
    show ?case
      using 1 [OF r [symmetric]] fd last by (subst read_line_from.simps) (auto simp: r split: sum.split intro: same_fd_trans)
  qed
  then show ?thesis by (auto simp: read_line_def)
qed

lemma keeps_readers [keeps_intros]:
  "keeps same_fd throw_reply" "keeps same_fd read_integer" "keeps same_fd read_bulk_string"
  unfolding throw_reply_def read_integer_def read_bulk_string_def by (intro keeps_intros)+

lemma keeps_read_elements [keeps_intros]: "keeps same_fd (read_elements k)"
proof (induction k)
  case (Suc k)
  then show ?case unfolding read_elements.simps read_element_def by (intro keeps_intros)
qed (simp only: read_elements.simps, intro keeps_intros)

lemma keeps_replies [keeps_intros]:
  "keeps same_fd read_array" "keeps same_fd expect_ok" "keeps same_fd (expect_strings name)" "keeps same_fd (expect_integer name)"
  unfolding read_array_def expect_ok_def expect_strings_def expect_integer_def
  by (intro keeps_intros)+

lemma commands_keep_fd:
  "keeps same_fd ping" "keeps same_fd (redis_get key)" "keeps same_fd (redis_set key v ttl)" "keeps same_fd (smembers key)"
  "keeps same_fd (lrange key start stop)" "keeps same_fd (write_multiexec commands)"
  unfolding ping_def redis_get_def redis_set_def smembers_def lrange_def write_multiexec_def queue_command_def
  by (intro keeps_intros)+

section \<open>The pool in use\<close>

text \<open>
  The pool with the time and the clients that are out.  A new descriptor is one no open client has:
  that is what \<open>socket\<close> gives.  A borrowed client changes by commands, which keep its descriptor
  (\<open>commands_keep_fd\<close>).
\<close>

record pool_run =
  pr_pool :: conn_pool
  pr_now :: int
  pr_borrowed :: "(pool_key \<times> client) list"

definition idle_fds :: "pool_key \<Rightarrow> conn_pool \<Rightarrow> int list" where
  "idle_fds key p = map (rc_fd \<circ> ie_client) (bucket key p)"

definition borrowed_fds :: "pool_run \<Rightarrow> int list" where
  "borrowed_fds s = map rc_fd (filter connected (map snd (pr_borrowed s)))"

definition fresh_attempts :: "pool_run \<Rightarrow> (client \<times> bool) list \<Rightarrow> bool" where
  "fresh_attempts s attempts \<longleftrightarrow>
     (\<forall>(c, ok) \<in> set attempts. connected c \<longrightarrow> rc_fd c \<notin> set (borrowed_fds s) \<and> (\<forall>key. rc_fd c \<notin> set (idle_fds key (pr_pool s))))"

inductive pool_step :: "pool_run \<Rightarrow> pool_run \<Rightarrow> bool" where
  pass: "t \<ge> pr_now s \<Longrightarrow> pool_step s (s\<lparr>pr_now := t\<rparr>)"
| borrow: "pool_acquire (pr_now s) key attempts (pr_pool s) = (c, p) \<Longrightarrow> fresh_attempts s attempts \<Longrightarrow>
     pool_step s (s\<lparr>pr_pool := p, pr_borrowed := pr_borrowed s @ [(key, c)]\<rparr>)"
| command: "i < length (pr_borrowed s) \<Longrightarrow> pr_borrowed s ! i = (key, c) \<Longrightarrow> same_fd c c' \<Longrightarrow>
     pool_step s (s\<lparr>pr_borrowed := (pr_borrowed s)[i := (key, c')]\<rparr>)"
| return_client: "pr_borrowed s = xs @ (key, c) # ys \<Longrightarrow>
     pool_step s (s\<lparr>pr_pool := pool_release (pr_now s) key c (pr_pool s), pr_borrowed := xs @ ys\<rparr>)"

inductive pool_reachable :: "nat \<Rightarrow> pool_run \<Rightarrow> bool" for cap where
  pool_start: "pool_reachable cap \<lparr>pr_pool = set_max_idle_per_key cap empty_pool, pr_now = t, pr_borrowed = []\<rparr>"
| pool_next: "pool_reachable cap s \<Longrightarrow> pool_step s s' \<Longrightarrow> pool_reachable cap s'"

definition pool_cap :: "nat \<Rightarrow> nat" where
  "pool_cap cap = (if cap = 0 then k_max_idle_per_key else cap)"

definition pool_ok :: "nat \<Rightarrow> pool_run \<Rightarrow> bool" where
  "pool_ok cap s \<longleftrightarrow>
     pl_in_use (pr_pool s) = of_nat (length (pr_borrowed s)) \<and>
     pl_max_idle_per_key (pr_pool s) = pool_cap cap \<and>
     (\<forall>key. length (bucket key (pr_pool s)) \<le> pool_cap cap) \<and>
     (\<forall>key. \<forall>e \<in> set (bucket key (pr_pool s)). connected (ie_client e) \<and> ie_queued_at e \<le> pr_now s) \<and>
     distinct (borrowed_fds s) \<and>
     (\<forall>key. distinct (idle_fds key (pr_pool s)) \<and> set (idle_fds key (pr_pool s)) \<inter> set (borrowed_fds s) = {}) \<and>
     (\<forall>key key'. key \<noteq> key' \<longrightarrow> set (idle_fds key (pr_pool s)) \<inter> set (idle_fds key' (pr_pool s)) = {})"

lemma bucket_simps [simp]:
  "bucket key (set_bucket key' es p) = (if key = key' then es else bucket key p)"
  "bucket key (p\<lparr>pl_in_use := n\<rparr>) = bucket key p" "bucket key empty_pool = []"
  "bucket key (set_max_idle_per_key cap p) = bucket key p"
  by (simp_all add: bucket_def set_bucket_def update_conv' empty_pool_def set_max_idle_per_key_def)

lemma pool_field_simps [simp]:
  "pl_in_use (set_bucket key es p) = pl_in_use p" "pl_max_idle_per_key (set_bucket key es p) = pl_max_idle_per_key p"
  by (simp_all add: set_bucket_def)

text \<open>What a search of the idle clients finds and leaves.\<close>

definition usable :: "int \<Rightarrow> idle_entry \<Rightarrow> bool" where
  "usable now e \<longleftrightarrow> now - ie_queued_at e \<le> k_idle_timeout \<and> connected (ie_client e)"

lemma pop_fresh_none: "pop_fresh now es = (None, left) \<Longrightarrow> left = [] \<and> (\<forall>e \<in> set es. \<not> usable now e)"
  by (induction es) (auto simp: usable_def split: if_splits)

lemma pop_fresh_some:
  "pop_fresh now es = (Some c, left) \<Longrightarrow>
     \<exists>dropped e. es = dropped @ e # left \<and> ie_client e = c \<and> usable now e \<and> (\<forall>d \<in> set dropped. \<not> usable now d)"
proof (induction es)
  case (Cons e es)
  show ?case
  proof (cases "usable now e")
    case True
    with Cons.prems show ?thesis by (intro exI [of _ "[]"]) (auto simp: usable_def)
  next
    case False
    then obtain dropped e' where "es = dropped @ e' # left \<and> ie_client e' = c \<and> usable now e' \<and> (\<forall>d \<in> set dropped. \<not> usable now d)"
      using Cons by (auto simp: usable_def)
    with False show ?thesis by (intro exI [of _ "e # dropped"]) auto
  qed
qed simp

lemma connect_any_fd:
  "connected (connect_any attempts) \<Longrightarrow> \<exists>(c, ok) \<in> set attempts. connect_any attempts = c \<and> connected c"
  by (induction attempts) (auto simp: no_client_def connected_def split: if_splits)

lemma new_client_fd:
  assumes "connected (new_client attempts password db)"
  shows "\<exists>(c, ok) \<in> set attempts. connected c \<and> rc_fd (new_client attempts password db) = rc_fd c"
proof -
  define c where "c = connect_any attempts"
  obtain c' r where h: "handshake password db c = (c', r)" by fastforce
  have "keeps same_fd (handshake password db)" unfolding handshake_def by (intro keeps_intros)
  from keepsD [OF this h] have "rc_fd c' = rc_fd c" by (simp add: same_fd_def)
  with assms h have "connected c" "rc_fd (new_client attempts password db) = rc_fd c"
    by (auto simp: new_client_def c_def [symmetric] Let_def connected_def split: if_splits sum.splits)
  then show ?thesis using connect_any_fd [of attempts] by (auto simp: c_def)
qed

lemma pool_acquire_effect:
  assumes "pool_acquire now key attempts p = (c, p')"
  shows "pl_in_use p' = pl_in_use p + 1" "pl_max_idle_per_key p' = pl_max_idle_per_key p"
    "\<And>k. k \<noteq> key \<Longrightarrow> bucket k p' = bucket k p"
  using assms by (auto simp: pool_acquire_def Let_def split: prod.splits if_splits)

lemma pool_acquire_cases:
  assumes "pool_acquire now key attempts p = (c, p')"
  obtains (idle) kept e dropped where "bucket key p = kept @ e # dropped" "bucket key p' = kept" "ie_client e = c"
      "usable now e" "\<And>d. d \<in> set dropped \<Longrightarrow> \<not> usable now d"
  | (created) "bucket key p' = []" "c = new_client attempts (pk_password key) (pk_db key)"
      "\<And>d. d \<in> set (bucket key p) \<Longrightarrow> \<not> usable now d"
proof -
  obtain found left where pop: "pop_fresh now (rev (bucket key p)) = (found, left)" by fastforce
  have p': "bucket key p' = rev left"
    using assms pop by (auto simp: pool_acquire_def Let_def split: if_splits)
  have c: "c = (case found of Some c \<Rightarrow> c | None \<Rightarrow> new_client attempts (pk_password key) (pk_db key))"
    using assms pop by (auto simp: pool_acquire_def Let_def)
  show thesis
  proof (cases found)
    case None
    with pop_fresh_none [of now "rev (bucket key p)" left] pop p' c show thesis by (intro created) auto
  next
    case (Some x)
    with pop_fresh_some [of now "rev (bucket key p)" x left] pop obtain dropped e where
        e: "rev (bucket key p) = dropped @ e # left" "ie_client e = x" "usable now e" "\<forall>d \<in> set dropped. \<not> usable now d" by auto
    from e(1) have "bucket key p = rev left @ e # rev dropped" by (metis append.assoc append_Cons append_Nil rev.simps(2) rev_append rev_rev_ident)
    with e Some p' c show thesis by (intro idle [of "rev left" e "rev dropped"]) auto
  qed
qed

lemma idle_fds_simps [simp]: "idle_fds k (p\<lparr>pl_in_use := n\<rparr>) = idle_fds k p"
  "idle_fds k (set_bucket key es p) = (if k = key then map (rc_fd \<circ> ie_client) es else idle_fds k p)"
  by (simp_all add: idle_fds_def)

lemma borrowed_fds_simps [simp]:
  "borrowed_fds (s\<lparr>pr_now := t\<rparr>) = borrowed_fds s"
  "borrowed_fds (s\<lparr>pr_pool := p\<rparr>) = borrowed_fds s"
  "borrowed_fds (s\<lparr>pr_pool := p, pr_borrowed := bs\<rparr>) = map rc_fd (filter connected (map snd bs))"
  "borrowed_fds (s\<lparr>pr_borrowed := bs\<rparr>) = map rc_fd (filter connected (map snd bs))"
  by (simp_all add: borrowed_fds_def)

lemma pool_ok_borrow:
  assumes ok: "pool_ok cap s" and acq: "pool_acquire (pr_now s) key attempts (pr_pool s) = (c, p)" and fresh: "fresh_attempts s attempts"
  shows "pool_ok cap (s\<lparr>pr_pool := p, pr_borrowed := pr_borrowed s @ [(key, c)]\<rparr>)"
proof -
  note effect = pool_acquire_effect [OF acq]
  note inv = ok [unfolded pool_ok_def]
  have other: "bucket k p = bucket k (pr_pool s)" "idle_fds k p = idle_fds k (pr_pool s)" if "k \<noteq> key" for k
    using effect(3) [OF that] by (simp_all add: idle_fds_def)
  have sub: "set (bucket key p) \<subseteq> set (bucket key (pr_pool s))" "length (bucket key p) \<le> length (bucket key (pr_pool s))"
      "distinct (idle_fds key p)" "set (idle_fds key p) \<subseteq> set (idle_fds key (pr_pool s))"
  proof -
    have "\<exists>tail. bucket key (pr_pool s) = bucket key p @ tail" by (rule pool_acquire_cases [OF acq]) auto
    then obtain tail where "bucket key (pr_pool s) = bucket key p @ tail" ..
    moreover have "distinct (idle_fds key (pr_pool s))" using inv by blast
    ultimately show "set (bucket key p) \<subseteq> set (bucket key (pr_pool s))"
        "length (bucket key p) \<le> length (bucket key (pr_pool s))"
        "distinct (idle_fds key p)" "set (idle_fds key p) \<subseteq> set (idle_fds key (pr_pool s))"
      by (simp_all add: idle_fds_def)
  qed
  have fd: "rc_fd c \<notin> set (borrowed_fds s) \<and> (\<forall>k. rc_fd c \<notin> set (idle_fds k p))" if "connected c"
    using acq
  proof (cases rule: pool_acquire_cases)
    case (idle kept e dropped)
    have "rc_fd c \<in> set (idle_fds key (pr_pool s))" using idle(1,3) by (auto simp: idle_fds_def)
    moreover have "distinct (idle_fds key (pr_pool s))" using inv by blast
    then have "rc_fd c \<notin> set (idle_fds key p)" using idle(1-3) by (auto simp: idle_fds_def)
    ultimately show ?thesis using inv other by (metis (no_types, lifting) disjoint_iff)
  next
    case created
    with new_client_fd [of attempts] that obtain c' ok' where "(c', ok') \<in> set attempts" "connected c'" "rc_fd c = rc_fd c'"
      by fastforce
    with fresh have c: "rc_fd c \<notin> set (borrowed_fds s)" "\<And>k. rc_fd c \<notin> set (idle_fds k (pr_pool s))"
      by (fastforce simp: fresh_attempts_def)+
    moreover have "idle_fds key p = []" using created(1) by (simp add: idle_fds_def)
    ultimately show ?thesis using other by (metis empty_iff list.set(1))
  qed
  have set_eq: "set (bucket k p) \<subseteq> set (bucket k (pr_pool s)) \<and> length (bucket k p) \<le> length (bucket k (pr_pool s)) \<and>
      distinct (idle_fds k p) \<and> set (idle_fds k p) \<subseteq> set (idle_fds k (pr_pool s))" for k
    using sub other [of k] inv by (cases "k = key") auto
  define s' where "s' = s\<lparr>pr_pool := p, pr_borrowed := pr_borrowed s @ [(key, c)]\<rparr>"
  have s': "pr_pool s' = p" "pr_now s' = pr_now s" "pr_borrowed s' = pr_borrowed s @ [(key, c)]" by (simp_all add: s'_def)
  have out': "borrowed_fds s' = borrowed_fds s @ (if connected c then [rc_fd c] else [])"
    by (simp add: borrowed_fds_def s')
  have "pool_ok cap s'"
    unfolding pool_ok_def s'
  proof (intro conjI allI impI ballI)
    show "pl_in_use p = word_of_nat (length (pr_borrowed s @ [(key, c)]))" "pl_max_idle_per_key p = pool_cap cap"
      using inv effect by simp_all
  next
    fix k
    have "length (bucket k (pr_pool s)) \<le> pool_cap cap" using inv by blast
    then show "length (bucket k p) \<le> pool_cap cap" using set_eq [of k] by linarith
    show "distinct (idle_fds k p)" using set_eq by blast
    have "set (idle_fds k (pr_pool s)) \<inter> set (borrowed_fds s) = {}" using inv by blast
    then show "set (idle_fds k p) \<inter> set (borrowed_fds s') = {}"
      using set_eq [of k] fd by (auto simp: out' split: if_splits)
  next
    fix k e assume e: "e \<in> set (bucket k p)"
    have "\<forall>e \<in> set (bucket k (pr_pool s)). connected (ie_client e) \<and> ie_queued_at e \<le> pr_now s" using inv by blast
    with e set_eq [of k] show "connected (ie_client e)" "ie_queued_at e \<le> pr_now s" by auto
  next
    fix k k' :: pool_key assume "k \<noteq> k'"
    then have "set (idle_fds k (pr_pool s)) \<inter> set (idle_fds k' (pr_pool s)) = {}" using inv by blast
    then show "set (idle_fds k p) \<inter> set (idle_fds k' p) = {}" using set_eq [of k] set_eq [of k'] by blast
  next
    have "distinct (borrowed_fds s)" using inv by blast
    then show "distinct (borrowed_fds s')" using fd by (simp add: out')
  qed
  then show ?thesis by (simp only: s'_def)
qed

lemma pool_ok_return:
  assumes ok: "pool_ok cap s" and out: "pr_borrowed s = xs @ (key, c) # ys"
  shows "pool_ok cap (s\<lparr>pr_pool := pool_release (pr_now s) key c (pr_pool s), pr_borrowed := xs @ ys\<rparr>)"
proof -
  note inv = ok [unfolded pool_ok_def]
  define p where "p = pool_release (pr_now s) key c (pr_pool s)"
  define pooled where "pooled = (if connected c \<and> length (bucket key (pr_pool s)) < pl_max_idle_per_key (pr_pool s)
    then [\<lparr>ie_client = c, ie_queued_at = pr_now s\<rparr>] else [])"
  have p: "pl_in_use p = pl_in_use (pr_pool s) - 1" "pl_max_idle_per_key p = pl_max_idle_per_key (pr_pool s)"
      "\<And>k. bucket k p = (if k = key then bucket key (pr_pool s) @ pooled else bucket k (pr_pool s))"
    by (auto simp: p_def pool_release_def pooled_def Let_def)
  have fds: "idle_fds k p = (if k = key then idle_fds key (pr_pool s) @ map (rc_fd \<circ> ie_client) pooled else idle_fds k (pr_pool s))" for k
    by (simp add: idle_fds_def p(3))
  have pooled: "length (bucket key (pr_pool s) @ pooled) \<le> pl_max_idle_per_key (pr_pool s)" "length pooled \<le> 1"
      "\<And>e. e \<in> set pooled \<Longrightarrow> ie_client e = c \<and> connected c \<and> ie_queued_at e = pr_now s"
    using inv by (auto simp: pooled_def)
  have out_fds: "borrowed_fds s = map rc_fd (filter connected (map snd xs)) @ (if connected c then [rc_fd c] else []) @
      map rc_fd (filter connected (map snd ys))"
    by (simp add: borrowed_fds_def out)
  have own: "rc_fd c \<notin> set (map rc_fd (filter connected (map snd (xs @ ys))))" "\<And>k. rc_fd c \<notin> set (idle_fds k (pr_pool s))" if "connected c"
  proof -
    have "distinct (borrowed_fds s)" using inv by blast
    with that show "rc_fd c \<notin> set (map rc_fd (filter connected (map snd (xs @ ys))))" by (auto simp: out_fds)
    show "rc_fd c \<notin> set (idle_fds k (pr_pool s))" for k
    proof -
      have "set (idle_fds k (pr_pool s)) \<inter> set (borrowed_fds s) = {}" using inv by blast
      with that show ?thesis by (auto simp: out_fds)
    qed
  qed
  have pooled_fds: "set (map (rc_fd \<circ> ie_client) pooled) \<subseteq> (if connected c then {rc_fd c} else {})"
    using pooled(3) by (auto simp: pooled_def)
  have distinct: "distinct (idle_fds k p)" for k
  proof -
    have "distinct (idle_fds k (pr_pool s))" using inv by blast
    then show ?thesis using own(2) [of key] by (auto simp: fds pooled_def)
  qed
  define s' where "s' = s\<lparr>pr_pool := p, pr_borrowed := xs @ ys\<rparr>"
  have s': "pr_pool s' = p" "pr_now s' = pr_now s" "pr_borrowed s' = xs @ ys" by (simp_all add: s'_def)
  have out': "borrowed_fds s' = map rc_fd (filter connected (map snd xs)) @ map rc_fd (filter connected (map snd ys))"
    by (simp add: borrowed_fds_def s')
  then have less: "set (borrowed_fds s') \<subseteq> set (borrowed_fds s)" "connected c \<Longrightarrow> rc_fd c \<notin> set (borrowed_fds s')"
    using own(1) by (auto simp: out_fds)
  have idle: "set (idle_fds k p) \<subseteq> set (idle_fds k (pr_pool s)) \<union> (if k = key \<and> connected c then {rc_fd c} else {})" for k
    using pooled_fds by (auto simp: fds split: if_splits)
  have "pool_ok cap s'"
    unfolding pool_ok_def s'
  proof (intro conjI allI impI ballI)
    fix k e assume e: "e \<in> set (bucket k p)"
    have "\<forall>e \<in> set (bucket k (pr_pool s)). connected (ie_client e) \<and> ie_queued_at e \<le> pr_now s" using inv by blast
    with e pooled(3) show "connected (ie_client e)" "ie_queued_at e \<le> pr_now s"
      by (auto simp: p(3) split: if_splits)
  next
    fix k
    have "set (idle_fds k (pr_pool s)) \<inter> set (borrowed_fds s) = {}" using inv by blast
    then show "set (idle_fds k p) \<inter> set (borrowed_fds s') = {}"
      using less idle [of k] by (auto split: if_splits)
  next
    fix k k' :: pool_key assume k: "k \<noteq> k'"
    then have "set (idle_fds k (pr_pool s)) \<inter> set (idle_fds k' (pr_pool s)) = {}" using inv by blast
    then show "set (idle_fds k p) \<inter> set (idle_fds k' p) = {}"
      using k own(2) [of k] own(2) [of k'] idle [of k] idle [of k'] by (auto split: if_splits)
  next
    fix k
    have "length (bucket k (pr_pool s)) \<le> pool_cap cap" using inv by blast
    then show "length (bucket k p) \<le> pool_cap cap" using inv pooled(1) by (simp add: p)
  next
    have "distinct (borrowed_fds s)" using inv by blast
    then show "distinct (borrowed_fds s')" by (simp add: out' out_fds split: if_splits)
  next
    show "distinct (idle_fds k p)" for k by (rule distinct)
    show "pl_in_use p = word_of_nat (length (xs @ ys))" "pl_max_idle_per_key p = pool_cap cap"
      using inv out by (simp_all add: p)
  qed
  then show ?thesis by (simp only: s'_def p_def)
qed

lemma pool_ok_command:
  assumes ok: "pool_ok cap s" and i: "i < length (pr_borrowed s)" "pr_borrowed s ! i = (key, c)" and fd: "same_fd c c'"
  shows "pool_ok cap (s\<lparr>pr_borrowed := (pr_borrowed s)[i := (key, c')]\<rparr>)"
proof -
  have "borrowed_fds (s\<lparr>pr_borrowed := (pr_borrowed s)[i := (key, c')]\<rparr>) = borrowed_fds s"
  proof -
    have fds: "map rc_fd (filter connected cs) = filter (\<lambda>fd. fd \<ge> 0) (map rc_fd cs)" for cs
      by (simp add: filter_map comp_def connected_def [abs_def])
    have "map rc_fd (map snd ((pr_borrowed s)[i := (key, c')])) = map rc_fd (map snd (pr_borrowed s))"
      using i fd by (intro nth_equalityI) (auto simp: nth_list_update same_fd_def)
    then show ?thesis by (simp only: borrowed_fds_simps fds) (simp only: borrowed_fds_def fds)
  qed
  then show ?thesis using ok by (simp add: pool_ok_def)
qed

lemma pool_ok_reachable: "pool_reachable cap s \<Longrightarrow> pool_ok cap s"
proof (induction rule: pool_reachable.induct)
  case (pool_start t)
  show ?case by (simp add: pool_ok_def borrowed_fds_def idle_fds_def set_max_idle_per_key_def empty_pool_def bucket_def pool_cap_def)
next
  case (pool_next s s')
  from pool_next(2) show ?case
  proof cases
    case (pass t)
    with pool_next.IH show ?thesis by (fastforce simp: pool_ok_def)
  qed (use pool_next.IH pool_ok_borrow pool_ok_command pool_ok_return in auto)
qed

text \<open>
  Whatever the borrowers do, the pool keeps its books.  The count of clients in use is the number
  of borrowed ones; no key has more idle clients than the cap; an idle client is connected and no one
  else, idle or borrowed, has its descriptor; and a client that is borrowed is either an idle one of
  that key queued within the last minute or a new one.
\<close>

theorem pool_keeps_its_books:
  assumes "pool_reachable cap s"
  shows "pl_in_use (pr_pool s) = of_nat (length (pr_borrowed s)) \<and>
         (\<forall>key. length (bucket key (pr_pool s)) \<le> (if cap = 0 then 16 else cap)) \<and>
         (\<forall>key. \<forall>e \<in> set (bucket key (pr_pool s)). connected (ie_client e) \<and> rc_fd (ie_client e) \<notin> set (borrowed_fds s)) \<and>
         (\<forall>key. distinct (map (rc_fd \<circ> ie_client) (bucket key (pr_pool s)))) \<and> distinct (borrowed_fds s) \<and>
         (\<forall>key attempts c p. pool_acquire (pr_now s) key attempts (pr_pool s) = (c, p) \<longrightarrow>
            (\<exists>e \<in> set (bucket key (pr_pool s)). ie_client e = c \<and> pr_now s - ie_queued_at e \<le> k_idle_timeout) \<or>
            c = new_client attempts (pk_password key) (pk_db key))"
proof (intro conjI allI ballI impI)
  note inv = pool_ok_reachable [OF assms, unfolded pool_ok_def]
  show "pl_in_use (pr_pool s) = of_nat (length (pr_borrowed s))" "distinct (borrowed_fds s)" using inv by blast+
  fix key
  have "length (bucket key (pr_pool s)) \<le> pool_cap cap" using inv by blast
  then show "length (bucket key (pr_pool s)) \<le> (if cap = 0 then 16 else cap)" by (simp add: pool_cap_def k_max_idle_per_key_def split: if_splits)
  show "distinct (map (rc_fd \<circ> ie_client) (bucket key (pr_pool s)))" using inv by (simp add: idle_fds_def)
  have idle: "\<forall>e \<in> set (bucket key (pr_pool s)). connected (ie_client e)" "set (idle_fds key (pr_pool s)) \<inter> set (borrowed_fds s) = {}"
    using inv by blast+
  fix e assume "e \<in> set (bucket key (pr_pool s))"
  with idle show "connected (ie_client e)" "rc_fd (ie_client e) \<notin> set (borrowed_fds s)" by (auto simp: idle_fds_def)
next
  fix key attempts c p assume "pool_acquire (pr_now s) key attempts (pr_pool s) = (c, p)"
  then show "(\<exists>e \<in> set (bucket key (pr_pool s)). ie_client e = c \<and> pr_now s - ie_queued_at e \<le> k_idle_timeout) \<or>
      c = new_client attempts (pk_password key) (pk_db key)"
    by (cases rule: pool_acquire_cases) (auto simp: usable_def)
qed

text \<open>A client borrowed and given back.\<close>

definition demo_key :: pool_key where
  "demo_key = PoolKey ''localhost'' 6379 [] 0"

definition demo_out :: conn_pool where
  "demo_out = \<lparr>pl_idle = [], pl_in_use = 1, pl_max_idle_per_key = 16\<rparr>"

lemma demo_acquired: "connected c \<Longrightarrow> pool_acquire 5 demo_key [(c, True)] (set_max_idle_per_key 0 empty_pool) = (c, demo_out)"
  by (simp add: pool_acquire_def demo_key_def new_client_def handshake_def mthen_def mbind_def Let_def demo_out_def
      set_max_idle_per_key_def empty_pool_def bucket_def k_max_idle_per_key_def)

definition demo_returned :: pool_run where
  "demo_returned = \<lparr>pr_pool = pool_release 5 demo_key demo_socket demo_out, pr_now = 5, pr_borrowed = []\<rparr>"

lemma demo_returned_reachable: "pool_reachable 0 demo_returned"
proof -
  let ?s = "\<lparr>pr_pool = set_max_idle_per_key 0 empty_pool, pr_now = 5, pr_borrowed = []\<rparr>"
  have "pool_step ?s (?s\<lparr>pr_pool := demo_out, pr_borrowed := [(demo_key, demo_socket)]\<rparr>)"
    using borrow [of ?s demo_key "[(demo_socket, True)]" demo_socket demo_out] demo_acquired [of demo_socket]
    by (simp add: fresh_attempts_def borrowed_fds_def idle_fds_def connected_def demo_socket_def)
  then have 1: "pool_reachable 0 (?s\<lparr>pr_pool := demo_out, pr_borrowed := [(demo_key, demo_socket)]\<rparr>)"
    using pool_start pool_next by blast
  have "pool_step (?s\<lparr>pr_pool := demo_out, pr_borrowed := [(demo_key, demo_socket)]\<rparr>) demo_returned"
    using return_client [of "?s\<lparr>pr_pool := demo_out, pr_borrowed := [(demo_key, demo_socket)]\<rparr>" "[]" demo_key demo_socket "[]"]
    by (simp add: demo_returned_def)
  with 1 show ?thesis by (rule pool_next)
qed

theorem pool_keeps_its_books_witness:
  "pl_in_use (pr_pool demo_returned) = 0 \<and> map ie_client (bucket demo_key (pr_pool demo_returned)) = [demo_socket]"
proof -
  have "pl_in_use (pr_pool demo_returned) = of_nat (length (pr_borrowed demo_returned))"
    using pool_keeps_its_books [OF demo_returned_reachable] by blast
  moreover have "length (pr_borrowed demo_returned) = 0" by (simp add: demo_returned_def)
  moreover have "map ie_client (bucket demo_key (pr_pool demo_returned)) = [demo_socket]"
    by (simp add: demo_returned_def pool_release_def connected_def demo_socket_def Let_def demo_out_def bucket_def set_bucket_def)
  ultimately show ?thesis by simp
qed

section \<open>A command that fails half-way\<close>

lemma get_times_out:
  assumes "connected c" "rc_buffer c = []" "rc_accepts c = []" "rc_arrivals c = [] # ss"
  obtains c' where "redis_get key c = (c', Inl (StdException ''redis read failed''))" "connected c'"
    "rc_buffer c' = []" "rc_accepts c' = []" "rc_arrivals c' = ss"
proof -
  define c1 where "c1 = c\<lparr>rc_sent := rc_sent c @ encode_command [''GET'', key]\<rparr>"
  have "encode_command [''GET'', key] \<noteq> []" by (simp add: encode_command_def)
  then have "sock_send (encode_command [''GET'', key]) c = (length (encode_command [''GET'', key]), c1)"
    using assms by (simp add: sock_send_def connected_def c1_def)
  with \<open>encode_command [''GET'', key] \<noteq> []\<close> have send: "send_command [''GET'', key] c = (c1, Inr ())"
    unfolding send_command_def by (subst send_all.simps) (simp add: send_all.simps)
  have "sock_read 4096 c1 = ([], c1\<lparr>rc_arrivals := ss\<rparr>)" using assms by (simp add: sock_read_def connected_def c1_def)
  then have "ensure_bytes 1 c1 = (c1\<lparr>rc_arrivals := ss\<rparr>, Inl (StdException ''redis read failed''))"
    using assms by (subst ensure_bytes.simps) (simp add: c1_def fails_def)
  then have "read_byte c1 = (c1\<lparr>rc_arrivals := ss\<rparr>, Inl (StdException ''redis read failed''))"
    by (simp add: read_byte_def del: One_nat_def)
  with send have "redis_get key c = (c1\<lparr>rc_arrivals := ss\<rparr>, Inl (StdException ''redis read failed''))"
    by (simp add: redis_get_def)
  from that [OF this] show thesis using assms by (simp add: c1_def connected_def)
qed

text \<open>
  A connection is pooled again after a command that failed half-way, and the reply it missed is
  taken for the reply of the next command: when the reading of a \<open>GET\<close> times out and its reply
  arrives later, the next \<open>GET\<close> on the resource, for whatever key, returns the value of the first.
\<close>

theorem late_reply_answers_next_command:
  assumes "pool_acquire t (rr_key r) attempts (rr_pool r) = (c, p)" "connected c" "rc_buffer c = []" "rc_accepts c = []"
    and "rc_arrivals c = [[], encode_bulk v]" "short v" "length (bucket (rr_key r) p) < pl_max_idle_per_key p"
    and "t2 \<le> t1 + k_idle_timeout"
    and "run_command t t1 attempts None ''GET'' (redis_get key1) r = (r1, res1)"
    and "run_command t2 t3 attempts2 None ''GET'' (redis_get key2) r1 = (r2, res2)"
  shows "res1 = Inl (StdException ''redis read failed'') \<and> res2 = Inr (Some v)"
proof -
  obtain c1 where c1: "redis_get key1 c = (c1, Inl (StdException ''redis read failed''))" "connected c1"
      "rc_buffer c1 = []" "rc_accepts c1 = []" "rc_arrivals c1 = [encode_bulk v]"
    by (rule get_times_out [OF assms(2-5)])
  have first: "rr_pool r1 = pool_release t1 (rr_key r) c1 p" "rr_key r1 = rr_key r" "res1 = Inl (StdException ''redis read failed'')"
    using assms(9) assms(1,2) c1(1) by (auto simp: run_command_def with_client_def checked_def record_command_def)
  have "bucket (rr_key r) (rr_pool r1) = bucket (rr_key r) p @ [\<lparr>ie_client = c1, ie_queued_at = t1\<rparr>]"
    using c1(2) assms(7) by (simp add: first pool_release_def Let_def)
  then have "fst (pool_acquire t2 (rr_key r1) attempts2 (rr_pool r1)) = c1"
    using c1(2) assms(8) by (simp add: pool_acquire_def Let_def first)
  then obtain p2 where acq: "pool_acquire t2 (rr_key r1) attempts2 (rr_pool r1) = (c1, p2)" by (metis prod.collapse)
  have "encode_bulk v \<noteq> []" by (simp add: encode_bulk_def)
  with c1 have "flowing c1" "stream c1 = encode_bulk v @ []" by (simp_all add: flowing_def stream_def)
  then obtain c2 where "redis_get key2 c1 = (c2, Inr (Some v))" by (rule talksD [OF talks_get(1) [OF assms(6)]])
  with assms(10) acq c1(2) have "res2 = Inr (Some v)"
    by (auto simp: run_command_def with_client_def checked_def)
  with first(3) show ?thesis by simp
qed

text \<open>A resource whose first connection answers too late.\<close>

definition late_socket :: client where
  "late_socket = \<lparr>rc_fd = 7, rc_buffer = [], rc_arrivals = [[], encode_bulk ''mine''], rc_accepts = [], rc_sent = []\<rparr>"

theorem late_reply_answers_next_command_witness:
  "\<exists>r1 r2. run_command 5 6 [(late_socket, True)] None ''GET'' (redis_get ''a'') (new_redis_resource demo_key [] False 0) =
       (r1, Inl (StdException ''redis read failed'')) \<and>
     run_command 7 8 [] None ''GET'' (redis_get ''b'') r1 = (r2, Inr (Some ''mine''))"
proof -
  let ?r = "new_redis_resource demo_key [] False 0"
  obtain r1 res1 where 1: "run_command 5 6 [(late_socket, True)] None ''GET'' (redis_get ''a'') ?r = (r1, res1)" by fastforce
  obtain r2 res2 where 2: "run_command 7 8 [] None ''GET'' (redis_get ''b'') r1 = (r2, res2)" by fastforce
  have late: "connected late_socket" "rc_buffer late_socket = []" "rc_accepts late_socket = []"
      "rc_arrivals late_socket = [[], encode_bulk ''mine'']" "short ''mine''"
    by (simp_all add: late_socket_def connected_def short_def)
  have acq: "pool_acquire 5 (rr_key ?r) [(late_socket, True)] (rr_pool ?r) = (late_socket, demo_out)"
    using demo_acquired [OF late(1)] by (simp add: new_redis_resource_def)
  have room: "length (bucket (rr_key ?r) demo_out) < pl_max_idle_per_key demo_out" "(7 :: int) \<le> 6 + k_idle_timeout"
    by (simp_all add: demo_out_def bucket_def k_idle_timeout_def)
  from late_reply_answers_next_command [OF acq late room 1 2] 1 2 show ?thesis by blast
qed

end
