(* ===== verification/Redis_Operators.thy ===== *)
theory Redis_Operators
  imports Redis_Pool Row_Operators
begin

text \<open>
  The Redis operators (\<open>operators/transform/transform_redis_get.cpp\<close>, \<open>transform_redis_set.cpp\<close>) and
  the resource they borrow (\<open>redis_connection.cpp\<close>).  What \<open>provider->borrow\<close> returns is an
  argument, the resource if there is one; an operator returns it as its command left it.
\<close>

section \<open>The resource\<close>

definition int_param_or_default :: "object \<Rightarrow> string \<Rightarrow> int \<Rightarrow> int" where
  "int_param_or_default ps key fallback = (case fm_find ps key of Some (VNum d) \<Rightarrow> d_to_int d | _ \<Rightarrow> fallback)"

definition string_param_or :: "object \<Rightarrow> string \<Rightarrow> string \<Rightarrow> string" where
  "string_param_or ps key fallback = (case fm_find ps key of Some (VStr s) \<Rightarrow> s | _ \<Rightarrow> fallback)"

text \<open>The address is cut at its last colon.\<close>

definition split_address :: "string \<Rightarrow> error + string \<times> int" where
  "split_address addr =
     (if CHR '':'' \<in> set addr
      then rbind (stoi (rev (takeWhile (\<lambda>c. c \<noteq> CHR '':'') (rev addr)))) (\<lambda>port.
           Inr (rev (tl (dropWhile (\<lambda>c. c \<noteq> CHR '':'') (rev addr))), port))
      else Inr (addr, 6379))"

text \<open>
  The fetcher of the type \<open>redis_connection\<close>; the timeouts only reach the socket.  \<open>pool_size\<close> is
  converted to \<open>size_t\<close>.
\<close>

definition redis_connection_fetcher :: "variant \<Rightarrow> bool \<Rightarrow> error + redis_resource" where
  "redis_connection_fetcher params provider =
     rbind (as_object params) (\<lambda>ps.
     rbind (case fm_find ps ''addr'' of Some (VStr addr) \<Rightarrow> split_address addr | _ \<Rightarrow> Inr ([], 6379)) (\<lambda>(host, port).
     if host = [] then Inl (StdException ''redis_connection: addr is required'')
     else Inr (new_redis_resource
            (PoolKey host port (string_param_or ps ''password'' []) (int_param_or_default ps ''db'' 0))
            (string_param_or ps ''metrics_name'' []) provider
            (nat (int_param_or_default ps ''pool_size'' 0 mod 2 ^ 64)))))"

text \<open>When a command of an operator runs: the times of borrowing and returning, and what a dial finds.\<close>

record call_env =
  ce_borrowed_at :: int
  ce_returned_at :: int
  ce_attempts :: "(client \<times> bool) list"

definition on_resource :: "call_env \<Rightarrow> bool option \<Rightarrow> string \<Rightarrow> 'a cmd \<Rightarrow> (redis_resource, error, 'a) effect" where
  "on_resource env cause command m = run_command (ce_borrowed_at env) (ce_returned_at env) (ce_attempts env) cause command m"

section \<open>Reading\<close>

record redis_get_op =
  rget_resource_name :: string
  rget_key_prefix :: string
  rget_data_type :: string
  rget_fail_on_error :: bool
  rget_result_field :: string
  rget_cache_hit_field :: string
  rget_common_input :: "string list"

definition bool_param_or :: "object \<Rightarrow> string \<Rightarrow> bool \<Rightarrow> bool" where
  "bool_param_or ps key fallback = (case fm_find ps key of Some (VBool b) \<Rightarrow> b | _ \<Rightarrow> fallback)"

definition redis_get_init :: "operator_config \<Rightarrow> error + redis_get_op" where
  "redis_get_init op =
     rbind (as_object (oc_params op)) (\<lambda>ps.
     rbind (vec_at (common_output (oc_metadata op)) 0) (\<lambda>result.
     rbind (vec_at (common_output (oc_metadata op)) 1) (\<lambda>hit.
     Inr \<lparr>rget_resource_name = string_param_or ps ''resource_name'' [], rget_key_prefix = string_param_or ps ''key_prefix'' [],
         rget_data_type = string_param_or ps ''data_type'' ''string'', rget_fail_on_error = bool_param_or ps ''fail_on_error'' False,
         rget_result_field = result, rget_cache_hit_field = hit, rget_common_input = common_input (oc_metadata op)\<rparr>)))"

text \<open>The key: the prefix, resolved for the request when it is a template, and the fields.\<close>

definition redis_key :: "string \<Rightarrow> string list \<Rightarrow> operator_input \<Rightarrow> string" where
  "redis_key key_prefix fs inp =
     (case in_templated_param inp ''key_prefix'' of VStr s \<Rightarrow> s | _ \<Rightarrow> key_prefix) @ build_key_suffix inp fs"

definition redis_get_failed ::
  "redis_get_op \<Rightarrow> string \<Rightarrow> string \<Rightarrow> string \<Rightarrow> operator_output \<Rightarrow> (operator_output, thrown) outcome" where
  "redis_get_failed m name key msg out =
     (let txt = ''transform_redis_get: '' @ name @ ''('' @ key @ ''): '' @ msg; out = set_warning txt out
      in if rget_fail_on_error m then throws (exec_failure txt) out
         else (set_common (rget_cache_hit_field m) (VBool False) out, None))"

text \<open>What a command found: the value, unless it is absent or empty.\<close>

definition redis_get_hit :: "redis_get_op \<Rightarrow> variant option \<Rightarrow> operator_output \<Rightarrow> operator_output" where
  "redis_get_hit m found out =
     (case found of
        Some v \<Rightarrow> set_common (rget_cache_hit_field m) (VBool True) (set_common (rget_result_field m) v out)
      | None \<Rightarrow> set_common (rget_cache_hit_field m) (VBool False) out)"

definition found_text :: "string option \<Rightarrow> variant option" where
  "found_text r = (case r of Some s \<Rightarrow> if s = [] then None else Some (VStr s) | None \<Rightarrow> None)"

definition found_texts :: "string list \<Rightarrow> variant option" where
  "found_texts xs = (if xs = [] then None else Some (VArr (map VStr xs)))"

definition redis_get_run ::
  "redis_get_op \<Rightarrow> string \<Rightarrow> string \<Rightarrow> redis_resource \<times> (error + 'a) \<Rightarrow> ('a \<Rightarrow> variant option) \<Rightarrow> operator_output \<Rightarrow>
   redis_resource option \<times> (operator_output, thrown) outcome" where
  "redis_get_run m name key run found out =
     (case run of
        (r, Inl e) \<Rightarrow> (Some r, redis_get_failed m name key (what e) out)
      | (r, Inr x) \<Rightarrow> (Some r, (redis_get_hit m (found x) out, None)))"

definition redis_get_execute ::
  "redis_get_op \<Rightarrow> call_env \<Rightarrow> bool option \<Rightarrow> redis_resource option \<Rightarrow> operator_input \<Rightarrow> operator_output \<Rightarrow>
   redis_resource option \<times> (operator_output, thrown) outcome" where
  "redis_get_execute m env cause conn inp out =
     (case conn of
        None \<Rightarrow> (None, (set_common (rget_cache_hit_field m) (VBool False) out, None))
      | Some r \<Rightarrow>
          let key = redis_key (rget_key_prefix m) (rget_common_input m) inp
          in if rget_data_type m = ''string''
             then redis_get_run m ''Get'' key (on_resource env cause ''GET'' (redis_get key) r) found_text out
             else if rget_data_type m = ''set''
             then redis_get_run m ''SMembers'' key (on_resource env cause ''SMEMBERS'' (smembers key) r) found_texts out
             else if rget_data_type m = ''list''
             then redis_get_run m ''LRange'' key (on_resource env cause ''LRANGE'' (lrange key 0 (- 1)) r) found_texts out
             else (Some r, throws (exec_failure (''transform_redis_get: unsupported data_type '' @ quoted (rget_data_type m))) out))"

section \<open>Writing\<close>

record redis_set_op =
  rset_resource_name :: string
  rset_key_prefix :: string
  rset_data_type :: string
  rset_ttl :: int
  rset_fail_on_error :: bool
  rset_key_fields :: "string list"
  rset_value_field :: string

definition redis_set_init :: "operator_config \<Rightarrow> error + redis_set_op" where
  "redis_set_init op =
     rbind (as_object (oc_params op)) (\<lambda>ps.
     rbind (case fm_find ps ''ttl'' of
              None \<Rightarrow> Inr 0
            | Some (VNum d) \<Rightarrow> Inr (d_to_int d)
            | Some (VStr s) \<Rightarrow> if \<not> is_bare_marker s then Inl (exec_failure ''transform_redis_set: ttl must be numeric'') else Inr 0
            | Some _ \<Rightarrow> Inl (exec_failure ''transform_redis_set: ttl must be numeric'')) (\<lambda>ttl.
     let fs = common_input (oc_metadata op)
     in if length fs < 2
        then Inl (exec_failure ''transform_redis_set: common_input must have at least 2 fields (key fields + value field)'')
        else Inr \<lparr>rset_resource_name = string_param_or ps ''resource_name'' [], rset_key_prefix = string_param_or ps ''key_prefix'' [],
               rset_data_type = string_param_or ps ''data_type'' ''string'', rset_ttl = ttl,
               rset_fail_on_error = bool_param_or ps ''fail_on_error'' False,
               rset_key_fields = butlast fs, rset_value_field = last fs\<rparr>))"

definition redis_set_failed :: "redis_set_op \<Rightarrow> string \<Rightarrow> string \<Rightarrow> operator_output \<Rightarrow> (operator_output, thrown) outcome" where
  "redis_set_failed m key msg out =
     (let txt = ''transform_redis_set: write key '' @ key @ '': '' @ msg
      in if rset_fail_on_error m then throws (exec_failure txt) out else (set_warning txt out, None))"

definition redis_set_run ::
  "redis_set_op \<Rightarrow> string \<Rightarrow> redis_resource \<times> (error + unit) \<Rightarrow> operator_output \<Rightarrow>
   redis_resource option \<times> (operator_output, thrown) outcome" where
  "redis_set_run m key run out =
     (case run of (r, Inl e) \<Rightarrow> (Some r, redis_set_failed m key (what e) out) | (r, Inr _) \<Rightarrow> (Some r, (out, None)))"

text \<open>The transaction that replaces a collection: delete, add every member, expire.\<close>

definition replace_commands :: "string \<Rightarrow> string \<Rightarrow> string list \<Rightarrow> int \<Rightarrow> string list list" where
  "replace_commands verb key members ttl =
     [[''DEL'', key], [verb, key] @ members] @ (if ttl > 0 then [[''EXPIRE'', key, string_of_int ttl]] else [])"

definition redis_set_execute ::
  "redis_set_op \<Rightarrow> call_env \<Rightarrow> bool option \<Rightarrow> redis_resource option \<Rightarrow> operator_input \<Rightarrow> operator_output \<Rightarrow>
   redis_resource option \<times> (operator_output, thrown) outcome" where
  "redis_set_execute m env cause conn inp out =
     (case conn of
        None \<Rightarrow> (None, (out, None))
      | Some r \<Rightarrow>
          let ttl = (case in_templated_param inp ''ttl'' of VNum d \<Rightarrow> d_to_int d | _ \<Rightarrow> rset_ttl m);
              key = redis_key (rset_key_prefix m) (rset_key_fields m) inp;
              v = in_common inp (rset_value_field m);
              members = json_to_string_slice v
          in if rset_data_type m = ''string''
             then case v of
                    VStr s \<Rightarrow> redis_set_run m key (on_resource env cause ''SET'' (redis_set key s ttl) r) out
                  | _ \<Rightarrow> (Some r, (out, None))
             else if rset_data_type m = ''set''
             then if members = [] then (Some r, (out, None))
                  else redis_set_run m key (on_resource env cause ''SADD'' (write_multiexec (replace_commands ''SADD'' key members ttl)) r) out
             else if rset_data_type m = ''list''
             then if members = [] then (Some r, (out, None))
                  else redis_set_run m key (on_resource env cause ''RPUSH'' (write_multiexec (replace_commands ''RPUSH'' key members ttl)) r) out
             else (Some r, throws (exec_failure (''transform_redis_set: unsupported data_type '' @ quoted (rset_data_type m))) out))"

end
