(* ===== verification/Redis_Operator_Theorems.thy ===== *)
theory Redis_Operator_Theorems
  imports Redis_Operators
begin

text \<open>
  The Redis operators never leak a connection, and without \<open>fail_on_error\<close> a failure of Redis never
  fails the request.
\<close>

lemma with_client_balances:
  assumes "with_client t t' key attempts m p = (p', res)"
  shows "pl_in_use p' = pl_in_use p"
  using assms
  by (auto simp: with_client_def pool_acquire_def pool_release_def set_bucket_def Let_def split: prod.splits if_splits)

lemma run_command_balances:
  assumes "run_command t t' attempts cause command m r = (r', res)"
  shows "pl_in_use (rr_pool r') = pl_in_use (rr_pool r)"
  using assms with_client_balances
  by (auto simp: run_command_def record_command_def Let_def split: prod.splits option.splits if_splits)

lemma redis_get_run_cases:
  assumes "\<not> rget_fail_on_error m"
  shows "\<exists>out'. redis_get_run m name key run found out = (Some (fst run), (out', None)) \<and>
     (common_writes out' = fm_set (rget_cache_hit_field m) (VBool False) (common_writes out) \<or>
      (\<exists>x v. snd run = Inr x \<and> found x = Some v \<and> has_warning out' = has_warning out \<and>
         common_writes out' = fm_set (rget_cache_hit_field m) (VBool True) (fm_set (rget_result_field m) v (common_writes out))))"
  using assms
  by (cases run; cases "snd run")
    (auto simp: redis_get_run_def redis_get_failed_def redis_get_hit_def Let_def set_common_def set_warning_def split: option.splits)

definition redis_type :: "string \<Rightarrow> bool" where
  "redis_type t \<longleftrightarrow> t = ''string'' \<or> t = ''set'' \<or> t = ''list''"

definition connections :: "redis_resource option \<Rightarrow> 64 word option" where
  "connections conn = map_option (\<lambda>r. pl_in_use (rr_pool r)) conn"

lemma on_resource_balances: "pl_in_use (rr_pool (fst (on_resource env cause command m r))) = pl_in_use (rr_pool r)"
  by (metis on_resource_def run_command_balances prod.collapse)

lemma on_resource_needs_no_cause: "snd (on_resource env cause command m r) = Inr x \<Longrightarrow> cause = None"
  by (cases cause) (simp_all add: on_resource_def run_command_def)

text \<open>What a read leaves: the hit flag alone, or the result with it.\<close>

definition read_degrades ::
  "redis_get_op \<Rightarrow> bool option \<Rightarrow> redis_resource option \<Rightarrow> operator_output \<Rightarrow> redis_resource option \<times> (operator_output, thrown) outcome \<Rightarrow> bool" where
  "read_degrades g cause conn out res \<longleftrightarrow>
     (\<exists>conn' out'. res = (conn', (out', None)) \<and>
        (common_writes out' = fm_set (rget_cache_hit_field g) (VBool False) (common_writes out) \<or>
         conn \<noteq> None \<and> cause = None \<and>
         (\<exists>v. common_writes out' = fm_set (rget_cache_hit_field g) (VBool True) (fm_set (rget_result_field g) v (common_writes out)))) \<and>
        connections conn' = connections conn)"

definition write_degrades ::
  "redis_resource option \<Rightarrow> operator_output \<Rightarrow> redis_resource option \<times> (operator_output, thrown) outcome \<Rightarrow> bool" where
  "write_degrades conn out res \<longleftrightarrow>
     (\<exists>conn' out'. res = (conn', (out', None)) \<and> common_writes out' = common_writes out \<and> item_writes out' = item_writes out \<and>
        connections conn' = connections conn)"

lemma read_run_degrades:
  assumes "\<not> rget_fail_on_error g"
  shows "read_degrades g cause (Some r) out (redis_get_run g name key (on_resource env cause command m r) found out)"
proof -
  let ?run = "on_resource env cause command m r"
  obtain out' where out': "redis_get_run g name key ?run found out = (Some (fst ?run), (out', None))"
    and writes: "common_writes out' = fm_set (rget_cache_hit_field g) (VBool False) (common_writes out) \<or>
      (\<exists>x v. snd ?run = Inr x \<and> found x = Some v \<and> has_warning out' = has_warning out \<and>
         common_writes out' = fm_set (rget_cache_hit_field g) (VBool True) (fm_set (rget_result_field g) v (common_writes out)))"
    using redis_get_run_cases [OF assms] by blast
  have "connections (Some (fst ?run)) = connections (Some r)" by (simp add: connections_def on_resource_balances)
  moreover have "cause = None" if "snd ?run = Inr x" for x using that by (rule on_resource_needs_no_cause)
  ultimately show ?thesis unfolding read_degrades_def out'
    using writes by (intro exI [of _ "Some (fst ?run)"] exI [of _ out']) auto
qed

lemma no_write_degrades: "write_degrades conn out (conn, (out, None))"
  by (simp add: write_degrades_def)

lemma write_run_degrades:
  assumes "\<not> rset_fail_on_error w"
  shows "write_degrades (Some r) out (redis_set_run w key (on_resource env cause command m r) out)"
proof (cases "on_resource env cause command m r")
  case (Pair r' res)
  have "connections (Some r') = connections (Some r)"
    using Pair on_resource_balances [of env cause command m r] by (simp add: connections_def)
  then show ?thesis using assms Pair
    by (cases res) (auto simp: write_degrades_def redis_set_run_def redis_set_failed_def set_warning_def Let_def)
qed

text \<open>
  Redis flakiness degrades to a cache miss.  Without \<open>fail_on_error\<close>, and with a known data type,
  reading returns without an error whatever the connection, the server and the context do: either the
  hit flag is false and nothing else is written, or it is true and the result was written just before,
  which needs a connection.  Writing returns without an error and writes nothing.  And neither of them
  leaks a connection: the count of those in use is the one before.
\<close>

theorem redis_operators_degrade:
  assumes "redis_type (rget_data_type g)" "\<not> rget_fail_on_error g" "redis_type (rset_data_type w)" "\<not> rset_fail_on_error w"
  shows "read_degrades g cause conn out (redis_get_execute g env cause conn inp out) \<and>
         write_degrades conn out (redis_set_execute w env cause conn inp out)"
proof (cases conn)
  case None
  then show ?thesis
    by (simp add: redis_get_execute_def redis_set_execute_def read_degrades_def write_degrades_def set_common_def)
next
  case (Some r)
  have read: "read_degrades g cause conn out (redis_get_execute g env cause conn inp out)"
    using assms(1) by (auto simp: redis_type_def redis_get_execute_def Some Let_def read_run_degrades [OF assms(2)])
  have "write_degrades conn out (redis_set_execute w env cause conn inp out)"
    using assms(3)
    by (cases "in_common inp (rset_value_field w)")
      (auto simp: redis_type_def redis_set_execute_def Some Let_def no_write_degrades write_run_degrades [OF assms(4)])
  with read show ?thesis by blast
qed

definition demo_get :: redis_get_op where
  "demo_get = \<lparr>rget_resource_name = ''r'', rget_key_prefix = ''k'', rget_data_type = ''string'', rget_fail_on_error = False,
     rget_result_field = ''v'', rget_cache_hit_field = ''hit'', rget_common_input = []\<rparr>"

definition demo_set :: redis_set_op where
  "demo_set = \<lparr>rset_resource_name = ''r'', rset_key_prefix = ''k'', rset_data_type = ''string'', rset_ttl = 0,
     rset_fail_on_error = False, rset_key_fields = [''a''], rset_value_field = ''b''\<rparr>"

lemma redis_operators_degrade_witness:
  "read_degrades demo_get (Some True) (Some (new_redis_resource (PoolKey ''h'' 1 [] 0) [] True 4)) empty_output
     (redis_get_execute demo_get \<lparr>ce_borrowed_at = 0, ce_returned_at = 0, ce_attempts = []\<rparr> (Some True)
        (Some (new_redis_resource (PoolKey ''h'' 1 [] 0) [] True 4)) (operator_input_of (RowF (rf_new [] [])) 
          \<lparr>sp_strict_common = [], sp_defaulted_common = [], sp_nullable_common = [], sp_strict_item = [],
            sp_defaulted_item = [], sp_nullable_item = [], sp_excluded_common = []\<rparr>)
        empty_output)"
  using redis_operators_degrade [of demo_get demo_set]
  by (simp add: demo_get_def demo_set_def redis_type_def)

end
