(* ===== verification/Resource.thy ===== *)
theory Resource
  imports Effects Config_Data
begin

text \<open>
  The resource manager (\<open>src/resource/resource.cpp\<close>, \<open>include/pine/resource.hpp\<close>): the registries of
  fetcher factories and schemas, and the manager with its named resources.  A fetcher is what a call
  at a time does: how many seconds it takes, and what it returns or throws.
\<close>

section \<open>Values\<close>

text \<open>A shared pointer is a handle or null.\<close>

datatype 'h resource_value = Data variant | Handle "'h option"

definition is_handle :: "'h resource_value \<Rightarrow> bool" where
  "is_handle v = (case v of Handle _ \<Rightarrow> True | Data _ \<Rightarrow> False)"

definition is_data :: "'h resource_value \<Rightarrow> bool" where
  "is_data v = (\<not> is_handle v)"

definition as_data :: "'h resource_value \<Rightarrow> variant" where
  "as_data v = (case v of Data x \<Rightarrow> x | Handle _ \<Rightarrow> VNull)"

definition raw_handle :: "'h resource_value \<Rightarrow> 'h option" where
  "raw_handle v = (case v of Handle h \<Rightarrow> h | Data _ \<Rightarrow> None)"

type_synonym 'h fetcher = "int \<Rightarrow> int \<times> (error + 'h resource_value)"

text \<open>A factory gets the parameters and whether there is a metrics provider.\<close>

type_synonym 'h fetcher_factory = "variant \<Rightarrow> bool \<Rightarrow> error + 'h fetcher"

section \<open>The registries\<close>

definition register_fetcher_factory ::
  "string \<Rightarrow> 'h fetcher_factory \<Rightarrow> ('h fetcher_factory flat_map, error, unit) effect" where
  "register_fetcher_factory type_name factory reg =
     (if fm_count reg type_name > 0
      then (reg, Inl (StdException (''resource: duplicate fetcher type '' @ quoted type_name)))
      else (fst (fm_emplace type_name factory reg), Inr ()))"

definition static_factory :: "'h fetcher_factory" where
  "static_factory params provider =
     rbind (as_object params) (\<lambda>ps.
     Inr (\<lambda>now. (0, Inr (Data (case fm_find ps ''value'' of Some v \<Rightarrow> v | None \<Rightarrow> VNull)))))"

definition lookup_fetcher_factory :: "string \<Rightarrow> 'h fetcher_factory flat_map \<Rightarrow> 'h fetcher_factory option" where
  "lookup_fetcher_factory type_name reg = fm_find reg type_name"

definition registered_fetcher_types :: "'h fetcher_factory flat_map \<Rightarrow> string list" where
  "registered_fetcher_types reg = map fst reg"

record resource_schema =
  sc_name :: string
  sc_description :: string
  sc_default_interval :: int
  sc_params :: "param_schema flat_map"

definition register_resource_schema :: "resource_schema \<Rightarrow> (resource_schema flat_map, error, unit) effect" where
  "register_resource_schema schema reg =
     (if sc_name schema = [] then (reg, Inl (StdException ''resource: register_resource_schema called with empty name''))
      else if fm_count reg (sc_name schema) > 0
      then (reg, Inl (StdException (''resource: duplicate ResourceSchema '' @ quoted (sc_name schema))))
      else (fst (fm_emplace (sc_name schema) schema reg), Inr ()))"

definition all_resource_schemas :: "resource_schema flat_map \<Rightarrow> resource_schema list" where
  "all_resource_schemas reg = map snd reg"

section \<open>The manager\<close>

record 'h managed =
  mg_fetcher :: "'h fetcher"
  mg_interval :: int
  mg_value :: "'h resource_value"
  mg_loaded :: bool

text \<open>\<open>mn_refreshing\<close> names the resources that have a refresh thread.\<close>

record 'h manager =
  mn_resources :: "'h managed flat_map"
  mn_started :: bool
  mn_refreshing :: "string list"

definition new_manager :: "'h manager" where
  "new_manager = \<lparr>mn_resources = [], mn_started = False, mn_refreshing = []\<rparr>"

text \<open>Zero is the default of ten minutes, a negative interval is never.\<close>

definition refresh_interval :: "int \<Rightarrow> int" where
  "refresh_interval i = (if i = 0 then 600 else if i < 0 then - 1 else i)"

definition register_resource :: "string \<Rightarrow> 'h fetcher \<Rightarrow> int \<Rightarrow> ('h manager, error, unit) effect" where
  "register_resource name fetcher interval m =
     (if mn_started m then (m, Inl (StdException ''resource: register_resource called after start()''))
      else if fm_count (mn_resources m) name > 0
      then (m, Inl (StdException (''resource: duplicate resource name '' @ quoted name)))
      else (m\<lparr>mn_resources := fst (fm_emplace name
                \<lparr>mg_fetcher = fetcher, mg_interval = refresh_interval interval, mg_value = Data VNull, mg_loaded = False\<rparr>
                (mn_resources m))\<rparr>, Inr ()))"

text \<open>An operator that names a resource nobody registered.\<close>

definition missing_dep :: "'h managed flat_map \<Rightarrow> string \<times> operator_config \<Rightarrow> error + string list" where
  "missing_dep rs named =
     rbind (as_object (oc_params (snd named))) (\<lambda>ps.
     case fm_find ps ''resource_name'' of
       Some (VStr name) \<Rightarrow>
         Inr (if name = [] \<or> fm_count rs name > 0 then []
              else [name @ '' (operator '' @ oc_type_name (snd named) @ ''/'' @ fst named @ '')''])
     | _ \<Rightarrow> Inr [])"

definition validate_resource_deps :: "config \<Rightarrow> ('h manager, error, unit) effect" where
  "validate_resource_deps cfg m =
     (m, rbind (rmap (missing_dep (mn_resources m)) (cg_operators cfg)) (\<lambda>missing.
         throw_if (concat missing \<noteq> []) (ConfigError (''resource: missing resource definitions: '' @ join '', '' (concat missing)))))"

definition load_entry ::
  "'h fetcher_factory flat_map \<Rightarrow> bool \<Rightarrow> string \<times> resource_entry \<Rightarrow> ('h manager, error, unit) effect" where
  "load_entry factories provider named =
     (case lookup_fetcher_factory (re_type (snd named)) factories of
        None \<Rightarrow> mfail (StdException (''resource: unknown fetcher type '' @ quoted (re_type (snd named)) @
                  '' for resource '' @ quoted (fst named)))
      | Some factory \<Rightarrow>
          mbind (mlift (factory (re_params (snd named)) provider)) (\<lambda>fetcher.
          register_resource (fst named) fetcher (re_interval (snd named))))"

definition load_from_config :: "'h fetcher_factory flat_map \<Rightarrow> bool \<Rightarrow> config \<Rightarrow> ('h manager, error, unit) effect" where
  "load_from_config factories provider cfg =
     (if cg_resource_config cfg = [] then mret ()
      else mthen (mfor (load_entry factories provider) (cg_resource_config cfg)) (validate_resource_deps cfg))"

text \<open>The initial load: every fetcher in turn, each within half a minute.\<close>

definition load_one :: "int \<Rightarrow> string \<Rightarrow> 'h managed \<Rightarrow> error + 'h managed" where
  "load_one now name r =
     (case mg_fetcher r now of
        (took, res) \<Rightarrow>
          if took > 30
          then Inl (StdException (''resource: initial fetch of '' @ quoted name @ '' timed out after 30s''))
          else rbind res (\<lambda>v. Inr (r\<lparr>mg_value := v, mg_loaded := True\<rparr>)))"

fun load_all :: "int \<Rightarrow> 'h managed flat_map \<Rightarrow> ('h managed flat_map, error) outcome" where
  "load_all now [] = ([], None)"
| "load_all now ((name, r) # rs) =
     (case load_one now name r of
        Inl e \<Rightarrow> ((name, r) # rs, Some e)
      | Inr r' \<Rightarrow> let (rs', e) = load_all (now + fst (mg_fetcher r now)) rs in ((name, r') # rs', e))"

definition start_manager :: "int \<Rightarrow> ('h manager, error, unit) effect" where
  "start_manager now m =
     (if mn_started m then (m, Inl (StdException ''resource: already started''))
      else case load_all now (mn_resources m) of
        (rs, Some e) \<Rightarrow> (m\<lparr>mn_resources := rs\<rparr>, Inl e)
      | (rs, None) \<Rightarrow>
          (m\<lparr>mn_resources := rs, mn_started := True,
             mn_refreshing := mn_refreshing m @ map fst (filter (\<lambda>(_, r). mg_interval r > 0) rs)\<rparr>, Inr ()))"

text \<open>What a refresh thread does after waiting: fetch, then store; a failure is logged.\<close>

definition refresh_resource :: "int \<Rightarrow> string \<Rightarrow> 'h manager \<Rightarrow> 'h manager \<times> string" where
  "refresh_resource now name m =
     (case fm_find (mn_resources m) name of
        None \<Rightarrow> (m, [])
      | Some r \<Rightarrow>
          (case snd (mg_fetcher r now) of
             Inr v \<Rightarrow> (m\<lparr>mn_resources := fm_set name (r\<lparr>mg_value := v\<rparr>) (mn_resources m)\<rparr>, [])
           | Inl e \<Rightarrow> (m, ''[resource] refresh '' @ quoted name @ '' failed: '' @ what e @ '' (keeping old value)'' @ [CHR 0x0A])))"

definition released :: "'h managed \<Rightarrow> 'h managed" where
  "released r = (if mg_loaded r \<and> is_handle (mg_value r) then r\<lparr>mg_value := Data VNull, mg_loaded := False\<rparr> else r)"

text \<open>\<open>stop()\<close> once the refresh threads have been joined; how they end is in the theory of the refresh threads.\<close>

definition stop_manager :: "'h manager \<Rightarrow> 'h manager" where
  "stop_manager m =
     (if \<not> mn_started m then m
      else m\<lparr>mn_resources := map (\<lambda>(name, r). (name, released r)) (mn_resources m), mn_started := False, mn_refreshing := []\<rparr>)"

section \<open>Reading\<close>

fun loaded_data :: "'h managed flat_map \<Rightarrow> object" where
  "loaded_data [] = []"
| "loaded_data ((name, r) # rs) =
     (if mg_loaded r \<and> is_data (mg_value r) then (name, as_data (mg_value r)) # loaded_data rs else loaded_data rs)"

definition snapshot :: "'h manager \<Rightarrow> object" where
  "snapshot m = loaded_data (mn_resources m)"

definition borrow :: "string \<Rightarrow> 'h manager \<Rightarrow> 'h option" where
  "borrow name m =
     (case fm_find (mn_resources m) name of
        None \<Rightarrow> None
      | Some r \<Rightarrow> if mg_loaded r then raw_handle (mg_value r) else None)"

definition resource_names :: "'h manager \<Rightarrow> string list" where
  "resource_names m = map fst (mn_resources m)"

end
