(* ===== verification/Resource_Theorems.thy ===== *)
theory Resource_Theorems
  imports Resource Execution_Theorems
begin

text \<open>
  The resource manager as a table: every operation is an update of the map from names to loaded
  values, and a configuration that loads and starts serves every resource its operators name.
\<close>

definition table :: "'h manager \<Rightarrow> string \<Rightarrow> 'h resource_value option" where
  "table m name = (case fm_find (mn_resources m) name of Some r \<Rightarrow> if mg_loaded r then Some (mg_value r) else None | None \<Rightarrow> None)"

definition timed :: "'h managed flat_map \<Rightarrow> string list" where
  "timed rs = map fst (filter (\<lambda>(_, r). mg_interval r > 0) rs)"

definition manager_ok :: "'h manager \<Rightarrow> bool" where
  "manager_ok m \<longleftrightarrow> fm_ok (mn_resources m) \<and>
     (\<forall>r \<in> snd ` set (mn_resources m). (mg_interval r > 0 \<or> mg_interval r = - 1) \<and> (mn_started m \<longrightarrow> mg_loaded r)) \<and>
     mn_refreshing m = (if mn_started m then timed (mn_resources m) else [])"

inductive manager_reachable :: "'h manager \<Rightarrow> bool" where
  "manager_reachable new_manager"
| "manager_reachable m \<Longrightarrow> manager_reachable (fst (register_resource name fetcher interval m))"
| "manager_reachable m \<Longrightarrow> manager_reachable (fst (load_from_config factories provider cfg m))"
| "manager_reachable m \<Longrightarrow> manager_reachable (fst (start_manager now m))"
| "manager_reachable m \<Longrightarrow> name \<in> set (mn_refreshing m) \<Longrightarrow> manager_reachable (fst (refresh_resource now name m))"
| "manager_reachable m \<Longrightarrow> manager_reachable (stop_manager m)"

section \<open>The invariant\<close>

definition preserves :: "'h manager \<Rightarrow> 'h manager \<Rightarrow> bool" where
  "preserves m m' \<longleftrightarrow> (manager_ok m \<longrightarrow> manager_ok m')"

lemma preserves_refl [keeps_intros]: "reflp preserves"
  by (simp add: reflp_def preserves_def)

lemma preserves_trans [keeps_intros]: "transp preserves"
  by (auto simp: transp_def preserves_def)

lemma fm_set_elements: "x \<in> set (fm_set key v es) \<Longrightarrow> x = (key, v) \<or> x \<in> set es"
  by (auto simp: fm_set_def Let_def dest: in_set_takeD in_set_dropD set_update_subset_insert [THEN subsetD] split: if_splits)

lemma fm_emplace_new: "fm_count es key = 0 \<Longrightarrow> fst (fm_emplace key v es) = fm_set key v es"
  by (simp add: fm_emplace_set fm_count_zero)

lemma register_resource_ok: "preserves m (fst (register_resource name fetcher interval m))"
  by (auto simp: preserves_def register_resource_def manager_ok_def fm_emplace_new refresh_interval_def
      dest!: fm_set_elements intro: fm_ok_fm_set)

lemma load_from_config_ok: "preserves m (fst (load_from_config factories provider cfg m))"
proof -
  have "keeps preserves (register_resource name fetcher interval)" for name interval and fetcher :: "'a fetcher"
    by (rule keepsI) (rule register_resource_ok)
  moreover have "keeps preserves (validate_resource_deps cfg :: ('a manager, error, unit) effect)"
    by (auto simp: validate_resource_deps_def preserves_def)
  ultimately have "keeps preserves (load_from_config factories provider cfg :: ('a manager, error, unit) effect)"
    by (auto simp: load_from_config_def load_entry_def split: option.split
        intro!: keeps_mthen keeps_mfor keeps_mbind keeps_basic preserves_refl preserves_trans)
  then show ?thesis by (simp add: keeps_def)
qed

lemma load_one_fetches:
  assumes "load_one now name r = Inr r'"
  shows "\<exists>v. snd (mg_fetcher r now) = Inr v \<and> r' = r\<lparr>mg_value := v, mg_loaded := True\<rparr>"
  using assms by (auto simp: load_one_def rbind_def split: prod.splits if_splits sum.splits)

lemma load_all_keys: "map fst (fst (load_all now rs)) = map fst rs"
  by (induction now rs rule: load_all.induct) (auto split: sum.splits prod.splits simp: Let_def)

lemma load_all_elements:
  "(name, r') \<in> set (fst (load_all now rs)) \<Longrightarrow> \<exists>r. (name, r) \<in> set rs \<and> (r' = r \<or> (\<exists>v t. snd (mg_fetcher r t) = Inr v \<and> r' = r\<lparr>mg_value := v, mg_loaded := True\<rparr>))"
proof (induction now rs rule: load_all.induct)
  case (2 now n r rs)
  show ?case
  proof (cases "load_one now n r")
    case (Inl e)
    then show ?thesis using "2.prems" by auto
  next
    case (Inr r1)
    obtain rs' e where l: "load_all (now + fst (mg_fetcher r now)) rs = (rs', e)" by fastforce
    from load_one_fetches [OF Inr] "2.IH" [OF Inr] "2.prems" l show ?thesis by (auto simp: Inr)
  qed
qed simp

lemma load_all_loaded:
  "load_all now rs = (rs', None) \<Longrightarrow> (name, r') \<in> set rs' \<Longrightarrow>
     mg_loaded r' \<and> (\<exists>r t. (name, r) \<in> set rs \<and> snd (mg_fetcher r t) = Inr (mg_value r'))"
proof (induction now rs arbitrary: rs' rule: load_all.induct)
  case (2 now n r rs)
  from "2.prems"(1) obtain r1 rs1 where one: "load_one now n r = Inr r1"
    and l: "load_all (now + fst (mg_fetcher r now)) rs = (rs1, None)" and rs': "rs' = (n, r1) # rs1"
    by (auto split: sum.splits prod.splits simp: Let_def)
  show ?case
  proof (cases "(name, r') = (n, r1)")
    case True
    from load_one_fetches [OF one] obtain v where "snd (mg_fetcher r now) = Inr v" "r1 = r\<lparr>mg_value := v, mg_loaded := True\<rparr>" by blast
    with True have "mg_loaded r' \<and> (n, r) \<in> set ((n, r) # rs) \<and> snd (mg_fetcher r now) = Inr (mg_value r')" by simp
    with True show ?thesis by blast
  next
    case False
    with "2.prems"(2) "2.IH" [OF one l] show ?thesis by (auto simp: rs')
  qed
qed simp

lemma load_all_interval: "map (\<lambda>(n, r). (n, mg_interval r)) (fst (load_all now rs)) = map (\<lambda>(n, r). (n, mg_interval r)) rs"
proof (induction now rs rule: load_all.induct)
  case (2 now n r rs)
  show ?case
  proof (cases "load_one now n r")
    case (Inr r1)
    then show ?thesis using "2.IH" [OF Inr] load_one_fetches [OF Inr] by (auto simp: Let_def split: prod.splits)
  qed simp
qed simp

lemma timed_intervals: "timed rs = map fst (filter (\<lambda>(_, i). i > 0) (map (\<lambda>(n, r). (n, mg_interval r)) rs))"
  by (induction rs) (auto simp: timed_def)

lemma timed_cong: "map (\<lambda>(n, r). (n, mg_interval r)) rs = map (\<lambda>(n, r). (n, mg_interval r)) rs' \<Longrightarrow> timed rs = timed rs'"
  by (simp only: timed_intervals)

lemma start_manager_ok:
  assumes ok: "manager_ok m"
  shows "manager_ok (fst (start_manager now m))"
proof -
  obtain rs e where l: "load_all now (mn_resources m) = (rs, e)" by fastforce
  have keys: "map fst rs = map fst (mn_resources m)" using load_all_keys [of now "mn_resources m"] l by simp
  have positive: "mg_interval r > 0" if "(n, r) \<in> set rs" "mg_interval r \<noteq> - 1" for n r
  proof -
    have "(n, mg_interval r) \<in> set (map (\<lambda>(n, r). (n, mg_interval r)) rs)" using that(1) by force
    moreover have "map (\<lambda>(n, r). (n, mg_interval r)) rs = map (\<lambda>(n, r). (n, mg_interval r)) (mn_resources m)"
      using load_all_interval [of now "mn_resources m"] l by simp
    ultimately have "(n, mg_interval r) \<in> set (map (\<lambda>(n, r). (n, mg_interval r)) (mn_resources m))" by simp
    then show ?thesis using ok that(2) by (fastforce simp: manager_ok_def)
  qed
  show ?thesis using ok keys positive load_all_loaded [of now "mn_resources m" rs]
    by (cases e) (auto simp: start_manager_def l manager_ok_def fm_ok_def timed_def)
qed

lemma fm_find_in: "fm_ok es \<Longrightarrow> fm_find es k = Some v \<longleftrightarrow> (k, v) \<in> set es"
  by (simp add: fm_find_map_of map_of_eq_Some_iff fm_ok_distinct)

lemma timed_fm_set:
  assumes "fm_ok es" "fm_find es k = Some r" "mg_interval r' = mg_interval r"
  shows "timed (fm_set k r' es) = timed es"
proof -
  let ?f = "\<lambda>(n, r). (n, mg_interval r)"
  have "(k, r) \<in> set es" using assms by (simp add: fm_find_in)
  then obtain t d where es: "es = t @ (k, r) # d" by (metis split_list)
  have less: "\<forall>e \<in> set t. fst e < k" using assms(1) by (auto simp: es fm_ok_def sorted_wrt_append)
  have "fm_set k r' es = t @ (k, r') # d"
    using less by (simp add: es fm_set_def fm_hit_def fm_lower_bound_def takeWhile_append2 list_update_append nth_append)
  then show ?thesis by (simp add: timed_def es assms(3))
qed

lemma refresh_resource_ok:
  assumes ok: "manager_ok m"
  shows "manager_ok (fst (refresh_resource now name m))"
proof (cases "fm_find (mn_resources m) name")
  case None
  then show ?thesis using ok by (simp add: refresh_resource_def)
next
  case (Some r)
  have fm: "fm_ok (mn_resources m)" using ok by (simp add: manager_ok_def)
  have "(name, r) \<in> set (mn_resources m)" using Some by (simp add: fm_find_in [OF fm])
  then show ?thesis using ok Some timed_fm_set [OF fm Some]
    by (cases "snd (mg_fetcher r now)")
      (fastforce simp: refresh_resource_def manager_ok_def fm_ok_fm_set dest!: fm_set_elements)+
qed

lemma released_interval [simp]: "mg_interval (released r) = mg_interval r"
  by (simp add: released_def)

lemma stop_manager_ok: "manager_ok m \<Longrightarrow> manager_ok (stop_manager m)"
  by (auto simp: stop_manager_def manager_ok_def fm_ok_def case_prod_unfold comp_def)

lemma manager_reachable_ok: "manager_reachable m \<Longrightarrow> manager_ok m"
proof (induction rule: manager_reachable.induct)
  case 1
  then show ?case by (simp add: new_manager_def manager_ok_def timed_def)
next
  case (2 m name fetcher interval)
  then show ?case using register_resource_ok by (metis preserves_def)
next
  case (3 m factories provider cfg)
  then show ?case using load_from_config_ok by (metis preserves_def)
qed (auto intro: start_manager_ok refresh_resource_ok stop_manager_ok)

section \<open>The table\<close>

lemma snapshot_find:
  assumes "fm_ok rs"
  shows "fm_find (loaded_data rs) name =
     (case fm_find rs name of Some r \<Rightarrow> if mg_loaded r \<and> is_data (mg_value r) then Some (as_data (mg_value r)) else None | None \<Rightarrow> None)"
proof -
  have keys: "set (map fst (loaded_data rs)) \<subseteq> set (map fst rs)" for rs :: "'a managed flat_map"
    by (induction rs rule: loaded_data.induct) auto
  have ok: "fm_ok rs \<Longrightarrow> fm_ok (loaded_data rs)" for rs :: "'a managed flat_map"
  proof (induction rs rule: loaded_data.induct)
    case (2 n r rs)
    then show ?case using keys [of rs] by (fastforce simp: fm_ok_def)
  qed simp
  have "map_of (loaded_data rs) name =
     (case map_of rs name of Some r \<Rightarrow> if mg_loaded r \<and> is_data (mg_value r) then Some (as_data (mg_value r)) else None | None \<Rightarrow> None)"
    using assms
  proof (induction rs rule: loaded_data.induct)
    case (2 n r rs)
    then have "n \<notin> set (map fst rs)" by (auto simp: fm_ok_def)
    then have "map_of (loaded_data rs) n = None" using keys [of rs] by (auto simp: map_of_eq_None_iff)
    with 2 show ?case by (auto simp: fm_ok_def)
  qed simp
  then show ?thesis by (simp add: fm_find_map_of assms ok)
qed

lemma table_refresh:
  assumes "fm_ok (mn_resources m)" "fm_find (mn_resources m) name = Some r" "mg_loaded r"
  shows "table (fst (refresh_resource now name m)) =
     (case snd (mg_fetcher r now) of Inr v \<Rightarrow> (table m)(name \<mapsto> v) | Inl e \<Rightarrow> table m)"
  using assms by (auto simp: refresh_resource_def table_def fun_eq_iff fm.lookup_put split: sum.split)

lemma fm_find_map_values:
  "fm_ok rs \<Longrightarrow> fm_find (map (\<lambda>(k, v). (k, f v)) rs) name = map_option f (fm_find rs name)"
proof -
  assume ok: "fm_ok rs"
  then have "fm_ok (map (\<lambda>(k, v). (k, f v)) rs)" by (simp add: fm_ok_def case_prod_unfold comp_def)
  then show ?thesis using ok by (simp add: fm_find_map_of map_of_map)
qed

lemma table_stop:
  assumes "fm_ok (mn_resources m)" "mn_started m"
  shows "table (stop_manager m) name = (case table m name of Some (Data v) \<Rightarrow> Some (Data v) | _ \<Rightarrow> None)"
  using assms
  by (auto simp: table_def stop_manager_def fm_find_map_values released_def is_handle_def split: option.split resource_value.splits)

lemma table_start:
  assumes "fm_ok (mn_resources m)" "start_manager now m = (m', Inr ())" "fm_find (mn_resources m) name = Some r"
  shows "\<exists>t v. snd (mg_fetcher r t) = Inr v \<and> table m' name = Some v"
proof -
  obtain rs where l: "load_all now (mn_resources m) = (rs, None)" and m': "mn_resources m' = rs"
    using assms(2) by (auto simp: start_manager_def split: if_splits prod.splits option.splits)
  have keys: "map fst rs = map fst (mn_resources m)" using load_all_keys [of now "mn_resources m"] l by simp
  then have ok: "fm_ok rs" using assms(1) by (simp add: fm_ok_def)
  have "(name, r) \<in> set (mn_resources m)" using assms(1,3) by (simp add: fm_find_in)
  then have "name \<in> set (map fst rs)" unfolding keys by force
  then obtain r' where r': "(name, r') \<in> set rs" by auto
  from load_all_loaded [OF l r'] obtain r0 t where "mg_loaded r'" "(name, r0) \<in> set (mn_resources m)" "snd (mg_fetcher r0 t) = Inr (mg_value r')"
    by blast
  moreover from this(2) have "r0 = r" using assms(1,3) by (metis fm_find_in option.inject)
  ultimately show ?thesis using r' by (auto simp: table_def m' fm_find_in [OF ok, THEN iffD2])
qed

section \<open>What a borrower relies on\<close>

text \<open>
  A provider of resources seen through its table: data is exported in the snapshot a run gets, handles are
  lent by name.
\<close>

locale resource_provider =
  fixes invar :: "'m \<Rightarrow> bool"
    and lookup :: "'m \<Rightarrow> string \<Rightarrow> 'h resource_value option"
    and export :: "'m \<Rightarrow> object"
    and lend :: "string \<Rightarrow> 'm \<Rightarrow> 'h option"
  assumes export_law: "invar m \<Longrightarrow> fm_find (export m) name = (case lookup m name of Some (Data v) \<Rightarrow> Some v | _ \<Rightarrow> None)"
    and lend_law: "invar m \<Longrightarrow> lend name m = (case lookup m name of Some (Handle h) \<Rightarrow> h | _ \<Rightarrow> None)"
begin

lemma served:
  "invar m \<Longrightarrow> lookup m name = Some v \<Longrightarrow> case v of Data d \<Rightarrow> fm_find (export m) name = Some d | Handle h \<Rightarrow> lend name m = h"
  by (simp add: export_law lend_law split: resource_value.split)

lemma exported_iff: "invar m \<Longrightarrow> fm_find (export m) name = Some d \<longleftrightarrow> lookup m name = Some (Data d)"
  by (auto simp: export_law split: option.split resource_value.split)

end

interpretation mgr: resource_provider "manager_ok :: 'h manager \<Rightarrow> bool" table snapshot borrow
proof
  fix m :: "'h manager" and name
  assume "manager_ok m"
  then have fm: "fm_ok (mn_resources m)" by (simp add: manager_ok_def)
  show "fm_find (snapshot m) name = (case table m name of Some (Data v) \<Rightarrow> Some v | _ \<Rightarrow> None)"
    by (auto simp: snapshot_def snapshot_find [OF fm] table_def is_data_def is_handle_def as_data_def split: option.split resource_value.split)
  show "borrow name m = (case table m name of Some (Handle h) \<Rightarrow> h | _ \<Rightarrow> None)"
    by (auto simp: borrow_def table_def raw_handle_def split: option.split resource_value.split)
qed

text \<open>
  The manager is a table of loaded values.  In every reachable state the snapshot holds exactly the
  data values of the table and a borrow gives exactly its handles; while it is started every registered
  resource is in the table, and those with a positive interval, and no others, are refreshed; a refresh
  stores what was fetched, and a failed one keeps the old value; and stopping keeps the data and drops
  every handle.
\<close>

theorem manager_is_a_table:
  assumes "manager_reachable m"
  shows "fm_find (snapshot m) name = (case table m name of Some (Data v) \<Rightarrow> Some v | _ \<Rightarrow> None) \<and>
         borrow name m = (case table m name of Some (Handle h) \<Rightarrow> h | _ \<Rightarrow> None) \<and>
         (mn_started m \<longrightarrow> (name \<in> set (resource_names m) \<longleftrightarrow> table m name \<noteq> None)) \<and>
         (name \<in> set (mn_refreshing m) \<longleftrightarrow> mn_started m \<and> (\<exists>r. fm_find (mn_resources m) name = Some r \<and> mg_interval r > 0)) \<and>
         (name \<in> set (mn_refreshing m) \<longrightarrow>
            table (fst (refresh_resource now name m)) =
              (case snd (mg_fetcher (the (fm_find (mn_resources m) name)) now) of Inr v \<Rightarrow> (table m)(name \<mapsto> v) | Inl e \<Rightarrow> table m)) \<and>
         (mn_started m \<longrightarrow> table (stop_manager m) name = (case table m name of Some (Data v) \<Rightarrow> Some (Data v) | _ \<Rightarrow> None))"
proof -
  have ok: "manager_ok m" using assms by (rule manager_reachable_ok)
  then have fm: "fm_ok (mn_resources m)" by (simp add: manager_ok_def)
  have loaded: "mg_loaded r" if "mn_started m" "fm_find (mn_resources m) n = Some r" for n r
    using ok that by (auto simp: manager_ok_def fm_find_in [OF fm])
  have refreshing: "name \<in> set (mn_refreshing m) \<longleftrightarrow> mn_started m \<and> (\<exists>r. fm_find (mn_resources m) name = Some r \<and> mg_interval r > 0)"
    using ok by (auto simp: manager_ok_def timed_def fm_find_in [OF fm] image_iff)
  note mgr.export_law [OF ok, of name] mgr.lend_law [OF ok, of name]
  moreover have "name \<in> set (resource_names m) \<longleftrightarrow> table m name \<noteq> None" if "mn_started m"
    using loaded [OF that] fm_find_in [OF fm] by (force simp: resource_names_def table_def split: option.split)
  moreover have "table (fst (refresh_resource now name m)) =
      (case snd (mg_fetcher (the (fm_find (mn_resources m) name)) now) of Inr v \<Rightarrow> (table m)(name \<mapsto> v) | Inl e \<Rightarrow> table m)"
    if "name \<in> set (mn_refreshing m)"
    using that table_refresh [OF fm] loaded by (auto simp: refreshing)
  ultimately show ?thesis using refreshing table_stop [OF fm] by blast
qed

definition demo_manager :: "unit manager" where
  "demo_manager = fst (start_manager 0 (fst (register_resource ''words'' (\<lambda>now. (1, Inr (Data (VStr ''hi'')))) 0 new_manager)))"

lemma manager_is_a_table_witness:
  "fm_find (snapshot demo_manager) ''words'' = (case table demo_manager ''words'' of Some (Data v) \<Rightarrow> Some v | _ \<Rightarrow> None)"
proof -
  have "manager_reachable demo_manager" unfolding demo_manager_def by (intro manager_reachable.intros)
  from manager_is_a_table [OF this, of "''words''" 0] show ?thesis by (rule conjunct1)
qed

section \<open>From a configuration to the operators\<close>

definition comes_from ::
  "'h fetcher_factory flat_map \<Rightarrow> bool \<Rightarrow> (string \<times> resource_entry) list \<Rightarrow> string \<Rightarrow> 'h fetcher \<Rightarrow> bool" where
  "comes_from factories provider entries name fetcher \<longleftrightarrow>
     (\<exists>e factory. (name, e) \<in> set entries \<and> lookup_fetcher_factory (re_type e) factories = Some factory \<and>
        factory (re_params e) provider = Inr fetcher)"

lemma load_entry_registers:
  assumes "load_entry factories provider (n, e) m = (m', Inr u)" "fm_ok (mn_resources m)"
  shows "\<exists>r. mn_resources m' = fm_set n r (mn_resources m) \<and> comes_from factories provider [(n, e)] n (mg_fetcher r)"
  using assms
  by (auto simp: load_entry_def comes_from_def mbind_Inr_iff register_resource_def fm_emplace_new
      split: option.splits if_splits)

lemma load_entries:
  assumes "mfor (load_entry factories provider) es m = (m', Inr u)" "fm_ok (mn_resources m)"
    and "fm_find (mn_resources m') name = Some r"
  shows "fm_ok (mn_resources m') \<and> (fm_find (mn_resources m) name = Some r \<or> comes_from factories provider es name (mg_fetcher r))"
  using assms
proof (induction es arbitrary: m)
  case (Cons ne es)
  obtain n e where ne: "ne = (n, e)" by fastforce
  from Cons.prems(1) obtain m1 where one: "load_entry factories provider (n, e) m = (m1, Inr ())"
    and rest: "mfor (load_entry factories provider) es m1 = (m', Inr u)"
    by (auto simp: ne mthen_def mbind_Inr_iff)
  from load_entry_registers [OF one Cons.prems(2)] obtain r1
    where r1: "mn_resources m1 = fm_set n r1 (mn_resources m)" "comes_from factories provider [(n, e)] n (mg_fetcher r1)" by blast
  from Cons.IH [OF rest _ Cons.prems(3)] have "fm_ok (mn_resources m')"
    and "fm_find (mn_resources m1) name = Some r \<or> comes_from factories provider es name (mg_fetcher r)"
    using Cons.prems(2) by (simp_all add: r1(1) fm_ok_fm_set)
  then show ?case using r1(2) Cons.prems(2)
    by (auto simp: r1(1) ne fm.lookup_put comes_from_def split: if_splits)
qed simp

lemma load_entries_ok:
  "mfor (load_entry factories provider) es m = (m', Inr u) \<Longrightarrow> fm_ok (mn_resources m) \<Longrightarrow> fm_ok (mn_resources m')"
proof (induction es arbitrary: m)
  case (Cons ne es)
  obtain n e where ne: "ne = (n, e)" by fastforce
  from Cons.prems(1) obtain m1 where one: "load_entry factories provider (n, e) m = (m1, Inr ())"
    and rest: "mfor (load_entry factories provider) es m1 = (m', Inr u)"
    by (auto simp: ne mthen_def mbind_Inr_iff)
  from load_entry_registers [OF one Cons.prems(2)] Cons.prems(2) have "fm_ok (mn_resources m1)" by (auto simp: fm_ok_fm_set)
  with Cons.IH [OF rest] show ?case .
qed simp

lemma rmap_ok: "rmap f xs = Inr ys \<Longrightarrow> x \<in> set xs \<Longrightarrow> \<exists>y \<in> set ys. f x = Inr y"
proof (induction xs arbitrary: ys)
  case (Cons a xs)
  then show ?case by (auto simp: rbind_def split: sum.splits)
qed simp

lemma validated_dep:
  assumes "validate_resource_deps cfg m = (m', Inr u)" "(key, op) \<in> set (cg_operators cfg)"
    and "as_object (oc_params op) = Inr ps" "fm_find ps ''resource_name'' = Some (VStr name)" "name \<noteq> []"
  shows "m' = m \<and> (\<exists>r. fm_find (mn_resources m) name = Some r)"
proof -
  have m': "m' = m" using assms(1) by (simp add: validate_resource_deps_def)
  obtain missing where r: "rmap (missing_dep (mn_resources m)) (cg_operators cfg) = Inr missing"
    using assms(1) by (cases "rmap (missing_dep (mn_resources m)) (cg_operators cfg)") (simp_all add: validate_resource_deps_def rbind_def)
  have none: "concat missing = []"
    using assms(1) by (cases "concat missing = []") (simp_all add: validate_resource_deps_def rbind_def throw_if_def r del: concat_eq_Nil_conv)
  from rmap_ok [OF r assms(2)] none have "missing_dep (mn_resources m) (key, op) = Inr []" by fastforce
  then have "fm_count (mn_resources m) name \<noteq> 0"
    using assms(3-5) by (simp add: missing_dep_def rbind_def split: if_splits)
  then show ?thesis using m' by (simp add: fm_count_zero)
qed

text \<open>
  A configuration that loads and starts serves its operators.  When the resources of a configuration
  load into a new manager and it starts, every operator that names a resource finds it in the table: the
  value one of the entries of the configuration fetched, through the factory of its type, and as a
  snapshot entry or a handle as the value has it.
\<close>

theorem configured_resources_are_served:
  assumes "load_from_config factories provider cfg new_manager = (m, Inr ())" "cg_resource_config cfg \<noteq> []"
    and "start_manager now m = (m', Inr ())" "(key, op) \<in> set (cg_operators cfg)"
    and "as_object (oc_params op) = Inr ps" "fm_find ps ''resource_name'' = Some (VStr name)" "name \<noteq> []"
  shows "\<exists>fetcher t v. comes_from factories provider (cg_resource_config cfg) name fetcher \<and> snd (fetcher t) = Inr v \<and>
           table m' name = Some v \<and>
           (case v of Data x \<Rightarrow> fm_find (snapshot m') name = Some x | Handle h \<Rightarrow> borrow name m' = h)"
proof -
  from assms(1,2) obtain m1 where entries: "mfor (load_entry factories provider) (cg_resource_config cfg) new_manager = (m1, Inr ())"
    and deps: "validate_resource_deps cfg m1 = (m, Inr ())"
    by (auto simp: load_from_config_def mthen_def mbind_Inr_iff)
  from validated_dep [OF deps assms(4-7)] obtain r where m: "m = m1" and r: "fm_find (mn_resources m1) name = Some r" by blast
  have ok1: "fm_ok (mn_resources m1)" using load_entries_ok [OF entries] by (simp add: new_manager_def)
  from load_entries [OF entries _ r] have source: "comes_from factories provider (cg_resource_config cfg) name (mg_fetcher r)"
    by (simp add: new_manager_def fm_find_def fm_hit_def)
  from table_start [OF _ assms(3), of name r] ok1 r obtain t v where v: "snd (mg_fetcher r t) = Inr v" "table m' name = Some v"
    by (auto simp: m)
  have "manager_ok (fst (load_from_config factories provider cfg new_manager))"
    by (rule manager_reachable_ok) (intro manager_reachable.intros)
  then have "manager_ok m" by (simp add: assms(1))
  then have "manager_ok m'" using start_manager_ok [of m now] assms(3) by simp
  from mgr.served [OF this v(2)] have "case v of Data x \<Rightarrow> fm_find (snapshot m') name = Some x | Handle h \<Rightarrow> borrow name m' = h" .
  then show ?thesis using source v by blast
qed

definition demo_factories :: "unit fetcher_factory flat_map" where
  "demo_factories = [(''static'', static_factory)]"

definition demo_resources :: config where
  "demo_resources =
     \<lparr>cg_operators = [(''look'', demo_input_config\<lparr>oc_params := VObj [(''resource_name'', VStr ''words'')]\<rparr>)],
      cg_pipeline_map = [], cg_pipeline_group = [],
      cg_flow_contract = \<lparr>fc_common_input = [], fc_item_input = [], fc_common_output = [], fc_item_output = []\<rparr>,
      cg_storage_mode = [], cg_debug = False, cg_log_prefix = [], cg_pineapple_version = [], cg_pineapple_create_time = [],
      cg_resource_config = [(''words'', \<lparr>re_type = ''static'', re_interval = 0, re_params = VObj [(''value'', VStr ''hi'')]\<rparr>)]\<rparr>"

definition demo_loaded :: "unit manager" where
  "demo_loaded = fst (load_from_config demo_factories True demo_resources new_manager)"

lemma configured_resources_are_served_witness:
  "\<exists>v. table (fst (start_manager 0 demo_loaded)) ''words'' = Some v \<and>
     (case v of Data x \<Rightarrow> fm_find (snapshot (fst (start_manager 0 demo_loaded))) ''words'' = Some x
      | Handle h \<Rightarrow> borrow ''words'' (fst (start_manager 0 demo_loaded)) = h)"
proof -
  have "snd (load_from_config demo_factories True demo_resources new_manager) = Inr ()" by code_simp
  then have l: "load_from_config demo_factories True demo_resources new_manager = (demo_loaded, Inr ())"
    by (simp add: demo_loaded_def prod_eq_iff)
  have "snd (start_manager 0 demo_loaded) = Inr ()" by code_simp
  then have st: "start_manager 0 demo_loaded = (fst (start_manager 0 demo_loaded), Inr ())" by (simp add: prod_eq_iff)
  have name: "fm_find [(''resource_name'', VStr ''words'')] ''resource_name'' = Some (VStr ''words'')" by code_simp
  show ?thesis
    using configured_resources_are_served [OF l _ st _ _ name, of "''look''"
        "demo_input_config\<lparr>oc_params := VObj [(''resource_name'', VStr ''words'')]\<rparr>"]
    by (simp add: demo_resources_def) blast
qed

end
