(* ===== verification/Resource_Refresh.thy ===== *)
theory Resource_Refresh
  imports Resource
begin

text \<open>
  The refresh threads of a manager and \<open>stop()\<close> (\<open>src/resource/resource.cpp\<close>), interleaved.  Every
  access to the atomic \<open>stopping_\<close>, to \<open>stop_mu_\<close>, to the condition variable and to the table is a
  step of its own, except that a fetch and the storing of its result are one: nobody else writes that
  entry.  \<open>stop()\<close> is called once, by one thread.
\<close>

section \<open>States\<close>

text \<open>
  Where a refresh thread is: at the loop condition; about to lock \<open>stop_mu_\<close>; holding \<open>stop_mu_\<close> before the predicate of
  \<open>wait_for\<close>; holding it after the predicate was false, about to block; blocked; woken, waiting for
  \<open>stop_mu_\<close> and the predicate again (the flag says whether the interval has passed); fetching; gone.
\<close>

datatype refresher = AtLoop | Locking | AtWait | GoingToSleep | Asleep | Woken bool | Fetching | Gone

text \<open>Where \<open>stop()\<close> is.\<close>

datatype stopper = NotCalled | Stored | Joining | Returned

record 'h refreshing =
  rf_manager :: "'h manager"
  rf_stopping :: bool
  rf_threads :: "(string \<times> refresher) list"
  rf_stopper :: stopper
  rf_log :: "string list"

definition refresh_threads :: "'h manager \<Rightarrow> 'h refreshing" where
  "refresh_threads m =
     \<lparr>rf_manager = m, rf_stopping = False, rf_threads = map (\<lambda>name. (name, AtLoop)) (mn_refreshing m),
      rf_stopper = NotCalled, rf_log = []\<rparr>"

definition at_thread :: "nat \<Rightarrow> refresher \<Rightarrow> 'h refreshing \<Rightarrow> 'h refreshing" where
  "at_thread i pc s = s\<lparr>rf_threads := (rf_threads s)[i := (fst (rf_threads s ! i), pc)]\<rparr>"

text \<open>Who holds \<open>stop_mu_\<close>.\<close>

definition holds_mutex :: "refresher \<Rightarrow> bool" where
  "holds_mutex pc \<longleftrightarrow> pc = AtWait \<or> pc = GoingToSleep"

definition mutex_free :: "'h refreshing \<Rightarrow> bool" where
  "mutex_free s \<longleftrightarrow> (\<forall>t \<in> set (rf_threads s). \<not> holds_mutex (snd t))"

definition fetch_and_store :: "int \<Rightarrow> string \<Rightarrow> 'h refreshing \<Rightarrow> 'h refreshing" where
  "fetch_and_store now name s =
     (case refresh_resource now name (rf_manager s) of
        (m, line) \<Rightarrow> s\<lparr>rf_manager := m, rf_log := rf_log s @ (if line = [] then [] else [line])\<rparr>)"

definition wake :: "refresher \<Rightarrow> refresher" where
  "wake pc = (if pc = Asleep then Woken False else pc)"

section \<open>Steps\<close>

text \<open>One step of \<open>refresh_loop\<close> in thread \<open>i\<close>.\<close>

inductive refresh_step :: "nat \<Rightarrow> 'h refreshing \<Rightarrow> 'h refreshing \<Rightarrow> bool" where
  leave: "\<lbrakk>i < length (rf_threads s); snd (rf_threads s ! i) = AtLoop; rf_stopping s\<rbrakk> \<Longrightarrow> refresh_step i s (at_thread i Gone s)"
| enter: "\<lbrakk>i < length (rf_threads s); snd (rf_threads s ! i) = AtLoop; \<not> rf_stopping s\<rbrakk> \<Longrightarrow> refresh_step i s (at_thread i Locking s)"
| lock: "\<lbrakk>i < length (rf_threads s); snd (rf_threads s ! i) = Locking; mutex_free s\<rbrakk>
     \<Longrightarrow> refresh_step i s (at_thread i AtWait s)"
| test_true: "\<lbrakk>i < length (rf_threads s); snd (rf_threads s ! i) = AtWait; rf_stopping s\<rbrakk> \<Longrightarrow> refresh_step i s (at_thread i Gone s)"
| test_false: "\<lbrakk>i < length (rf_threads s); snd (rf_threads s ! i) = AtWait; \<not> rf_stopping s\<rbrakk>
     \<Longrightarrow> refresh_step i s (at_thread i GoingToSleep s)"
| block: "\<lbrakk>i < length (rf_threads s); snd (rf_threads s ! i) = GoingToSleep\<rbrakk> \<Longrightarrow> refresh_step i s (at_thread i Asleep s)"
| time_out: "\<lbrakk>i < length (rf_threads s); snd (rf_threads s ! i) = Asleep\<rbrakk> \<Longrightarrow> refresh_step i s (at_thread i (Woken True) s)"
| spurious: "\<lbrakk>i < length (rf_threads s); snd (rf_threads s ! i) = Asleep\<rbrakk> \<Longrightarrow> refresh_step i s (at_thread i (Woken False) s)"
| retest_true: "\<lbrakk>i < length (rf_threads s); snd (rf_threads s ! i) = Woken timed_out; mutex_free s; rf_stopping s\<rbrakk>
     \<Longrightarrow> refresh_step i s (at_thread i Gone s)"
| retest_false: "\<lbrakk>i < length (rf_threads s); snd (rf_threads s ! i) = Woken timed_out; mutex_free s; \<not> rf_stopping s\<rbrakk>
     \<Longrightarrow> refresh_step i s (at_thread i (if timed_out then Fetching else GoingToSleep) s)"
| fetch: "\<lbrakk>i < length (rf_threads s); snd (rf_threads s ! i) = Fetching\<rbrakk>
     \<Longrightarrow> refresh_step i s (at_thread i AtLoop (fetch_and_store now (fst (rf_threads s ! i)) s))"

text \<open>One step of \<open>stop()\<close>; the last one follows the joins.\<close>

inductive stop_step :: "'h refreshing \<Rightarrow> 'h refreshing \<Rightarrow> bool" where
  not_started: "\<lbrakk>rf_stopper s = NotCalled; \<not> mn_started (rf_manager s)\<rbrakk> \<Longrightarrow> stop_step s (s\<lparr>rf_stopper := Returned\<rparr>)"
| store: "\<lbrakk>rf_stopper s = NotCalled; mn_started (rf_manager s)\<rbrakk> \<Longrightarrow> stop_step s (s\<lparr>rf_stopping := True, rf_stopper := Stored\<rparr>)"
| notify: "rf_stopper s = Stored
     \<Longrightarrow> stop_step s (s\<lparr>rf_threads := map (\<lambda>(name, pc). (name, wake pc)) (rf_threads s), rf_stopper := Joining\<rparr>)"
| join_all: "\<lbrakk>rf_stopper s = Joining; \<forall>t \<in> set (rf_threads s). snd t = Gone\<rbrakk>
     \<Longrightarrow> stop_step s (s\<lparr>rf_manager := stop_manager (rf_manager s), rf_stopping := False, rf_threads := [], rf_stopper := Returned\<rparr>)"

inductive manager_step :: "'h refreshing \<Rightarrow> 'h refreshing \<Rightarrow> bool" where
  "refresh_step i s s' \<Longrightarrow> manager_step s s'"
| "stop_step s s' \<Longrightarrow> manager_step s s'"

text \<open>A step that is not the passing of an interval, nor a wakeup out of nothing.\<close>

inductive prompt_step :: "'h refreshing \<Rightarrow> 'h refreshing \<Rightarrow> bool" where
  "\<lbrakk>refresh_step i s s'; snd (rf_threads s ! i) \<noteq> Asleep\<rbrakk> \<Longrightarrow> prompt_step s s'"
| "stop_step s s' \<Longrightarrow> prompt_step s s'"

inductive manager_steps :: "nat \<Rightarrow> 'h refreshing \<Rightarrow> 'h refreshing \<Rightarrow> bool" where
  no_step: "manager_steps 0 s s"
| one_more: "\<lbrakk>manager_steps n s s'; manager_step s' s''\<rbrakk> \<Longrightarrow> manager_steps (Suc n) s s''"

end
