(* ===== verification/Resource_Stop.thy ===== *)
theory Resource_Stop
  imports Resource_Refresh Resource_Theorems
begin

text \<open>
  \<open>stop()\<close> ends: every schedule of the refresh threads lets it return after a bounded number of steps,
  and after it nothing writes.  But it can wait for an interval to pass: its notification is lost on a
  thread that has tested the predicate and is not asleep yet.
\<close>

inductive_cases refresh_stepE: "refresh_step i s s'"
inductive_cases stop_stepE: "stop_step s s'"

definition refresh_ok :: "'h refreshing \<Rightarrow> bool" where
  "refresh_ok s \<longleftrightarrow> manager_reachable (rf_manager s) \<and>
     (rf_stopping s \<longleftrightarrow> rf_stopper s = Stored \<or> rf_stopper s = Joining) \<and>
     (rf_stopping s \<longrightarrow> mn_started (rf_manager s)) \<and>
     map fst (rf_threads s) = mn_refreshing (rf_manager s) \<and>
     (rf_stopper s = Returned \<longrightarrow> \<not> mn_started (rf_manager s))"

lemma at_thread_fields [simp]:
  "rf_manager (at_thread i pc s) = rf_manager s" "rf_stopping (at_thread i pc s) = rf_stopping s"
  "rf_stopper (at_thread i pc s) = rf_stopper s" "length (rf_threads (at_thread i pc s)) = length (rf_threads s)"
  "i < length (rf_threads s) \<Longrightarrow> map fst (rf_threads (at_thread i pc s)) = map fst (rf_threads s)"
  by (simp_all add: at_thread_def map_update) (metis list_update_id nth_map)

lemma fetch_and_store_fields [simp]:
  "rf_manager (fetch_and_store now name s) = fst (refresh_resource now name (rf_manager s))"
  "rf_stopping (fetch_and_store now name s) = rf_stopping s" "rf_stopper (fetch_and_store now name s) = rf_stopper s"
  "rf_threads (fetch_and_store now name s) = rf_threads s"
  by (simp_all add: fetch_and_store_def split: prod.splits)

lemma refresh_keeps_threads:
  "mn_refreshing (fst (refresh_resource now name m)) = mn_refreshing m" "mn_started (fst (refresh_resource now name m)) = mn_started m"
  by (simp_all add: refresh_resource_def split: option.splits sum.splits)

lemma refresh_step_ok: "refresh_step i s s' \<Longrightarrow> refresh_ok s \<Longrightarrow> refresh_ok s'"
proof (induction rule: refresh_step.induct)
  case (fetch i s now)
  have "fst (rf_threads s ! i) \<in> set (mn_refreshing (rf_manager s))"
    using fetch by (metis length_map nth_map nth_mem refresh_ok_def)
  then show ?case using fetch by (auto simp: refresh_ok_def refresh_keeps_threads intro: manager_reachable.intros)
qed (auto simp: refresh_ok_def)

lemma stop_step_ok: "stop_step s s' \<Longrightarrow> refresh_ok s \<Longrightarrow> refresh_ok s'"
proof (induction rule: stop_step.induct)
  case (notify s)
  then show ?case by (auto simp: refresh_ok_def comp_def case_prod_unfold)
next
  case (join_all s)
  then have "manager_reachable (stop_manager (rf_manager s))" by (auto simp: refresh_ok_def intro: manager_reachable.intros)
  with join_all show ?case by (auto simp: refresh_ok_def stop_manager_def)
qed (auto simp: refresh_ok_def)

lemma manager_step_ok: "manager_step s s' \<Longrightarrow> refresh_ok s \<Longrightarrow> refresh_ok s'"
  by (auto elim!: manager_step.cases intro: refresh_step_ok stop_step_ok)

lemma manager_steps_ok: "manager_steps n s s' \<Longrightarrow> refresh_ok s \<Longrightarrow> refresh_ok s'"
  by (induction rule: manager_steps.induct) (auto intro: manager_step_ok)

lemma refresh_threads_ok: "manager_reachable m \<Longrightarrow> refresh_ok (refresh_threads m)"
  by (simp add: refresh_ok_def refresh_threads_def comp_def)

section \<open>The bound\<close>

fun steps_left :: "refresher \<Rightarrow> nat" where
  "steps_left Gone = 0"
| "steps_left AtLoop = 1"
| "steps_left AtWait = 1"
| "steps_left (Woken _) = 1"
| "steps_left Locking = 2"
| "steps_left Asleep = 2"
| "steps_left Fetching = 2"
| "steps_left GoingToSleep = 3"

fun stop_left :: "stopper \<Rightarrow> nat" where
  "stop_left Stored = 2"
| "stop_left Joining = 1"
| "stop_left _ = 0"

definition work_left :: "'h refreshing \<Rightarrow> nat" where
  "work_left s = sum_list (map (steps_left \<circ> snd) (rf_threads s)) + stop_left (rf_stopper s)"

lemma work_at_thread:
  assumes "i < length (rf_threads s)" "steps_left pc < steps_left (snd (rf_threads s ! i))"
  shows "work_left (at_thread i pc s) < work_left s"
proof -
  have "sum_list (map (steps_left \<circ> snd) ((rf_threads s)[i := (fst (rf_threads s ! i), pc)])) + steps_left (snd (rf_threads s ! i)) =
      sum_list (map (steps_left \<circ> snd) (rf_threads s)) + steps_left pc"
    using assms(1) member_le_sum_list [of "steps_left (snd (rf_threads s ! i))" "map (steps_left \<circ> snd) (rf_threads s)"]
    by (simp add: map_update sum_list_update)
  then show ?thesis using assms(2) by (simp add: work_left_def at_thread_def)
qed

lemma refresh_step_work: "refresh_step i s s' \<Longrightarrow> rf_stopping s \<Longrightarrow> work_left s' < work_left s"
proof (induction rule: refresh_step.induct)
  case (fetch i s now)
  have "work_left (at_thread i AtLoop (fetch_and_store now (fst (rf_threads s ! i)) s)) < work_left (fetch_and_store now (fst (rf_threads s ! i)) s)"
    by (rule work_at_thread) (use fetch in simp_all)
  then show ?case by (simp add: work_left_def)
qed (auto intro!: work_at_thread)

lemma wake_less: "steps_left (wake pc) \<le> steps_left pc"
  by (simp add: wake_def)

lemma stop_step_work: "stop_step s s' \<Longrightarrow> rf_stopping s \<Longrightarrow> refresh_ok s \<Longrightarrow> work_left s' < work_left s"
proof (induction rule: stop_step.induct)
  case (notify s)
  have "sum_list (map (steps_left \<circ> snd) (map (\<lambda>(n, pc). (n, wake pc)) ts)) \<le> sum_list (map (steps_left \<circ> snd) ts)" for ts :: "(string \<times> refresher) list"
  proof (induction ts)
    case (Cons t ts)
    then show ?case using wake_less [of "snd t"] by (simp add: case_prod_unfold comp_def)
  qed simp
  then show ?case using notify by (simp add: work_left_def le_imp_less_Suc)
qed (auto simp: refresh_ok_def work_left_def)

lemma manager_step_work: "manager_step s s' \<Longrightarrow> rf_stopping s \<Longrightarrow> refresh_ok s \<Longrightarrow> work_left s' < work_left s"
  by (auto elim!: manager_step.cases intro: refresh_step_work stop_step_work)

lemma returned_is_final:
  assumes "refresh_ok s" "rf_stopper s = Returned"
  shows "rf_threads s = [] \<and> \<not> manager_step s s'"
proof -
  have "mn_refreshing (rf_manager s) = []"
    using assms manager_reachable_ok [of "rf_manager s"] by (simp add: refresh_ok_def manager_ok_def)
  then have "rf_threads s = []" using assms(1) by (simp add: refresh_ok_def)
  then show ?thesis using assms(2) by (auto elim!: manager_step.cases refresh_step.cases stop_step.cases)
qed

text \<open>Stopping ends only by returning.\<close>

definition stopped :: "'h refreshing \<Rightarrow> bool" where
  "stopped s \<longleftrightarrow> rf_stopper s = Returned \<and> (\<exists>m. manager_reachable m \<and> mn_started m \<and> rf_manager s = stop_manager m)"

lemma stopping_goes_on:
  assumes "manager_step s s'" "refresh_ok s" "rf_stopping s"
  shows "rf_stopping s' \<or> stopped s'"
  using assms by (auto simp: stopped_def refresh_ok_def elim!: manager_step.cases refresh_step.cases stop_step.cases)

lemma manager_steps_bounded:
  assumes "manager_steps n s s'" "refresh_ok s" "rf_stopping s"
  shows "n + work_left s' \<le> work_left s \<and> (rf_stopping s' \<or> stopped s')"
  using assms
proof (induction rule: manager_steps.induct)
  case (one_more n s s' s'')
  then have ok: "refresh_ok s'" by (auto intro: manager_steps_ok)
  have IH: "n + work_left s' \<le> work_left s" "rf_stopping s' \<or> stopped s'" using one_more by auto
  have "rf_stopper s' \<noteq> Returned" using returned_is_final [OF ok] one_more.hyps(2) by blast
  then have stopping: "rf_stopping s'" using IH(2) by (auto simp: stopped_def)
  from manager_step_work [OF one_more.hyps(2) stopping ok] stopping_goes_on [OF one_more.hyps(2) ok stopping] IH(1)
  show ?case by linarith
qed simp

lemma steps_left_3: "steps_left pc \<le> 3"
  by (cases pc) simp_all

lemma work_left_bound: "work_left s \<le> 3 * length (rf_threads s) + 2"
proof -
  have "sum_list (map (steps_left \<circ> snd) ts) \<le> 3 * length ts" for ts :: "(string \<times> refresher) list"
    by (induction ts) (auto intro: order_trans [OF add_mono [OF steps_left_3]])
  moreover have "stop_left (rf_stopper s) \<le> 2" by (cases "rf_stopper s") simp_all
  ultimately show ?thesis unfolding work_left_def by (metis add_mono)
qed

text \<open>While it is stopping somebody can move.\<close>

lemma stopping_progress:
  assumes "refresh_ok s" "rf_stopping s"
  shows "\<exists>s'. manager_step s s'"
proof (cases "\<forall>t \<in> set (rf_threads s). snd t = Gone")
  case True
  then have "\<exists>s'. stop_step s s'" using assms by (auto simp: refresh_ok_def intro: stop_step.intros)
  then show ?thesis by (auto intro: manager_step.intros)
next
  case False
  have holder: "\<exists>s'. refresh_step i s s'" if "i < length (rf_threads s)" "holds_mutex (snd (rf_threads s ! i))" for i
    using that assms(2) by (auto simp: holds_mutex_def intro: refresh_step.intros)
  show ?thesis
  proof (cases "mutex_free s")
    case True
    from False obtain i where i: "i < length (rf_threads s)" "snd (rf_threads s ! i) \<noteq> Gone" by (auto simp: in_set_conv_nth)
    have "\<exists>s'. refresh_step i s s'"
      using i assms(2) True by (cases "snd (rf_threads s ! i)") (auto intro: refresh_step.intros)
    then show ?thesis by (auto intro: manager_step.intros)
  next
    case False
    then obtain i where "i < length (rf_threads s)" "holds_mutex (snd (rf_threads s ! i))"
      by (auto simp: mutex_free_def in_set_conv_nth)
    from holder [OF this] show ?thesis by (auto intro: manager_step.intros)
  qed
qed

text \<open>
  Stopping returns.  Once \<open>stop()\<close> has set its flag, whatever the schedule, at most three steps per
  refresh thread and two of its own are left, and until it has returned somebody can take one; when it
  has returned no thread is left, nothing writes the table any more and no handle can be borrowed.
\<close>

theorem stop_returns:
  assumes "manager_reachable m" "manager_steps k (refresh_threads m) s" "rf_stopping s" "manager_steps n s s'"
  shows "n \<le> 3 * length (rf_threads s) + 2 \<and>
         (if rf_stopper s' = Returned
          then rf_threads s' = [] \<and> (\<nexists>s''. manager_step s' s'') \<and> (\<forall>name. borrow name (rf_manager s') = None)
          else (\<exists>s''. manager_step s' s''))"
proof -
  have ok: "refresh_ok s" by (rule manager_steps_ok [OF assms(2) refresh_threads_ok [OF assms(1)]])
  have ok': "refresh_ok s'" by (rule manager_steps_ok [OF assms(4) ok])
  have bound: "n + work_left s' \<le> work_left s" and ends: "rf_stopping s' \<or> stopped s'"
    using manager_steps_bounded [OF assms(4) ok assms(3)] by simp_all
  have n: "n \<le> 3 * length (rf_threads s) + 2" using bound work_left_bound [of s] by linarith
  show ?thesis
  proof (cases "rf_stopper s' = Returned")
    case True
    then have "\<not> rf_stopping s'" using ok' by (simp add: refresh_ok_def)
    with ends obtain m' where m': "manager_reachable m'" "mn_started m'" "rf_manager s' = stop_manager m'" by (auto simp: stopped_def)
    have "borrow name (rf_manager s') = None" for name
      using m' manager_reachable_ok [OF m'(1)]
      by (auto simp: stop_manager_def borrow_def manager_ok_def fm_find_map_values released_def raw_handle_def is_handle_def
          split: option.split resource_value.splits)
    then show ?thesis using True n returned_is_final [OF ok' True] by auto
  next
    case False
    then have "rf_stopping s'" using ends by (auto simp: stopped_def)
    from stopping_progress [OF ok' this] show ?thesis using False n by simp
  qed
qed

section \<open>The lost notification\<close>

lemma demo_manager_facts:
  "manager_reachable demo_manager" "mn_refreshing demo_manager = [''words'']" "mn_started demo_manager"
proof -
  show "manager_reachable demo_manager" unfolding demo_manager_def by (intro manager_reachable.intros)
  show "mn_refreshing demo_manager = [''words'']" "mn_started demo_manager" by code_simp+
qed

definition demo_refresh :: "bool \<Rightarrow> refresher \<Rightarrow> stopper \<Rightarrow> unit refreshing" where
  "demo_refresh stopping pc stop =
     \<lparr>rf_manager = demo_manager, rf_stopping = stopping, rf_threads = [(''words'', pc)], rf_stopper = stop, rf_log = []\<rparr>"

lemma demo_refresh_thread:
  "at_thread 0 pc' (demo_refresh stopping pc stop) = demo_refresh stopping pc' stop"
  "rf_threads (demo_refresh stopping pc stop) = [(''words'', pc)]" "rf_stopping (demo_refresh stopping pc stop) = stopping"
  "rf_stopper (demo_refresh stopping pc stop) = stop" "rf_manager (demo_refresh stopping pc stop) = demo_manager"
  by (simp_all add: demo_refresh_def at_thread_def)

lemma demo_start: "refresh_threads demo_manager = demo_refresh False AtLoop NotCalled"
  by (simp add: refresh_threads_def demo_refresh_def demo_manager_facts)

lemma demo_store: "manager_step (demo_refresh False pc NotCalled) (demo_refresh True pc Stored)"
  using stop_step.store [of "demo_refresh False pc NotCalled"]
  by (auto simp: demo_refresh_def demo_manager_facts intro!: manager_step.intros(2))

lemma demo_notify: "manager_step (demo_refresh True pc Stored) (demo_refresh True (wake pc) Joining)"
  using stop_step.notify [of "demo_refresh True pc Stored"]
  by (auto simp: demo_refresh_def intro!: manager_step.intros(2))

lemma demo_thread_step:
  "refresh_step 0 (demo_refresh stopping pc stop) (at_thread 0 pc' (demo_refresh stopping pc stop)) \<Longrightarrow>
   manager_step (demo_refresh stopping pc stop) (demo_refresh stopping pc' stop)"
  by (auto simp: demo_refresh_thread intro: manager_step.intros)

text \<open>
  The notification is lost: a schedule brings the manager to where \<open>stop()\<close> waits in its joins and only
  the passing of an interval, or a spurious wakeup, lets anybody move.
\<close>

lemma stop_can_miss_a_sleeper:
  "\<exists>n s. manager_steps n (refresh_threads demo_manager) s \<and> rf_stopping s \<and> rf_stopper s = Joining \<and> (\<nexists>s'. prompt_step s s')"
proof -
  let ?s = demo_refresh
  have run: "manager_step (?s False AtLoop NotCalled) (?s False Locking NotCalled)"
    "manager_step (?s False Locking NotCalled) (?s False AtWait NotCalled)"
    "manager_step (?s False AtWait NotCalled) (?s False GoingToSleep NotCalled)"
    "manager_step (?s False GoingToSleep NotCalled) (?s True GoingToSleep Stored)"
    "manager_step (?s True GoingToSleep Stored) (?s True GoingToSleep Joining)"
    "manager_step (?s True GoingToSleep Joining) (?s True Asleep Joining)"
    using demo_store [of GoingToSleep] demo_notify [of GoingToSleep]
    by (auto intro!: demo_thread_step intro: refresh_step.intros simp: demo_refresh_thread mutex_free_def holds_mutex_def wake_def)
  have "manager_steps 6 (refresh_threads demo_manager) (?s True Asleep Joining)"
    using manager_steps.no_step [of "refresh_threads demo_manager"] run
    by (auto simp: demo_start eval_nat_numeral intro!: manager_steps.one_more intro: run)
  moreover have "\<nexists>s'. prompt_step (?s True Asleep Joining) s'"
    by (auto simp: demo_refresh_thread elim!: prompt_step.cases refresh_step.cases stop_step.cases)
  ultimately show ?thesis by (metis demo_refresh_thread(3,4))
qed

lemma stop_returns_witness:
  "\<exists>s'. manager_steps 3 (demo_refresh True AtLoop Stored) s' \<and> rf_stopper s' = Returned \<and> rf_threads s' = [] \<and>
     borrow ''words'' (rf_manager s') = None"
proof -
  let ?final = "(demo_refresh True Gone Joining)\<lparr>rf_manager := stop_manager demo_manager, rf_stopping := False, rf_threads := [], rf_stopper := Returned\<rparr>"
  have start: "manager_steps 1 (refresh_threads demo_manager) (demo_refresh True AtLoop Stored)"
    using manager_steps.one_more [OF manager_steps.no_step demo_store [of AtLoop]] by (simp add: demo_start)
  have "manager_step (demo_refresh True AtLoop Stored) (demo_refresh True AtLoop Joining)"
    using demo_notify [of AtLoop] by (simp add: wake_def)
  moreover have "manager_step (demo_refresh True AtLoop Joining) (demo_refresh True Gone Joining)"
    by (auto intro!: demo_thread_step intro: refresh_step.intros simp: demo_refresh_thread)
  moreover have "manager_step (demo_refresh True Gone Joining) ?final"
    using stop_step.join_all [of "demo_refresh True Gone Joining"] by (auto simp: demo_refresh_thread intro!: manager_step.intros(2))
  ultimately have run: "manager_steps 3 (demo_refresh True AtLoop Stored) ?final"
    unfolding numeral_3_eq_3 by (blast intro: manager_steps.intros)
  have "rf_stopping (demo_refresh True AtLoop Stored)" by (simp add: demo_refresh_thread)
  from stop_returns [OF demo_manager_facts(1) start this run] run show ?thesis by auto
qed

end
