(* ===== verification/Http_Wire.thy ===== *)
theory Http_Wire
  imports Redis_Client Json_Text "HOL-Library.Sublist"
begin

text \<open>
  The HTTP side of the server (\<open>src/server/server.cpp\<close>): reading a request from a socket, the query
  parameters, and writing a response.  A connection is what its next calls do, as for the Redis client:
  one segment per \<open>recv\<close>, an empty one being a failure, a timeout or the end; and how many bytes the
  next calls of \<open>send\<close> take.
\<close>

section \<open>Reading a request\<close>

record http_request =
  hr_method :: string
  hr_path :: string
  hr_query_string :: string
  hr_body :: string
  hr_content_length :: int
  hr_connection_close :: bool
  hr_http_version :: string
  hr_connection_keep_alive :: bool

definition new_http_request :: http_request where
  "new_http_request =
     \<lparr>hr_method = [], hr_path = [], hr_query_string = [], hr_body = [], hr_content_length = - 1,
      hr_connection_close = False, hr_http_version = ''HTTP/1.1'', hr_connection_keep_alive = False\<rparr>"

definition net_recv :: "nat \<Rightarrow> string list \<Rightarrow> string \<times> string list" where
  "net_recv n ss =
     (case ss of [] \<Rightarrow> ([], []) | s # ss \<Rightarrow> if length s \<le> n then (s, ss) else (take n s, drop n s # ss))"

text \<open>\<open>std::string::find\<close>: where the pattern first occurs.\<close>

fun str_find :: "string \<Rightarrow> string \<Rightarrow> nat option" where
  "str_find pat [] = (if pat = [] then Some 0 else None)"
| "str_find pat (c # cs) = (if prefix pat (c # cs) then Some 0 else map_option Suc (str_find pat cs))"

definition k_max_header_size :: nat where "k_max_header_size = 1024 * 1024"

lemma net_recv_bytes: "net_recv n ss = (chunk, ss') \<Longrightarrow> length chunk + length (concat ss') = length (concat ss)"
  by (auto simp: net_recv_def split: list.splits if_splits)

text \<open>Receive until the headers are complete: the buffer and where they end.\<close>

function recv_headers :: "string \<Rightarrow> string list \<Rightarrow> (string \<times> nat) option \<times> string list" where
  "recv_headers buf ss =
     (let (chunk, ss') = net_recv 4096 ss; buf = buf @ chunk
      in if chunk = [] then (None, ss')
         else if length buf > k_max_header_size then (None, ss')
         else case str_find (crlf @ crlf) buf of
           Some i \<Rightarrow> (Some (buf, i), ss')
         | None \<Rightarrow> recv_headers buf ss')"
  by pat_completeness auto
termination
  by (relation "measure (\<lambda>(buf, ss). length (concat ss))")
    (auto dest!: sym [of "(_, _)"] net_recv_bytes simp: length_greater_0_conv [symmetric] simp del: length_greater_0_conv length_concat)

declare recv_headers.simps [simp del]

text \<open>A string cut at the first occurrence of a character.\<close>

definition cut_at :: "char \<Rightarrow> string \<Rightarrow> (string \<times> string) option" where
  "cut_at c s = (if c \<in> set s then Some (takeWhile (\<lambda>d. d \<noteq> c) s, tl (dropWhile (\<lambda>d. d \<noteq> c) s)) else None)"

text \<open>The request line: \<open>METHOD uri version\<close>.\<close>

definition parse_request_line :: "string \<Rightarrow> http_request \<Rightarrow> http_request option" where
  "parse_request_line line req =
     (case cut_at CHR '' '' line of
        None \<Rightarrow> None
      | Some (m, rest) \<Rightarrow>
          (case cut_at CHR '' '' rest of
             None \<Rightarrow> None
           | Some (uri, version) \<Rightarrow>
               let req = req\<lparr>hr_method := m, hr_http_version := version\<rparr>
               in Some (case cut_at CHR ''?'' uri of
                    Some (p, q) \<Rightarrow> req\<lparr>hr_path := p, hr_query_string := q\<rparr>
                  | None \<Rightarrow> req\<lparr>hr_path := uri\<rparr>)))"

definition lower_case :: "string \<Rightarrow> string" where
  "lower_case s = map (\<lambda>c. let n = of_char c :: nat in if 65 \<le> n \<and> n \<le> 90 then char_of (n + 32) else c) s"

text \<open>\<open>std::getline\<close>; a line without text changes nothing, so the empty one after the last is harmless.\<close>

fun lines_of :: "string \<Rightarrow> string list" where
  "lines_of [] = [[]]"
| "lines_of (c # cs) =
     (if c = CHR 0x0A then [] # lines_of cs
      else case lines_of cs of l # ls \<Rightarrow> (c # l) # ls | [] \<Rightarrow> [[c]])"

text \<open>A content length: a whole number that is not negative, and nothing after it.\<close>

definition content_length_of :: "string \<Rightarrow> int option" where
  "content_length_of val =
     (case stoll val of
        Inl _ \<Rightarrow> None
      | Inr v \<Rightarrow> if dropWhile is_digit (snd (split_sign (skip_ws val))) \<noteq> [] \<or> v < 0 then None else Some v)"

text \<open>One header line; the flag is \<open>invalid_content_length\<close>.\<close>

definition parse_header :: "string \<Rightarrow> http_request \<times> bool \<Rightarrow> http_request \<times> bool" where
  "parse_header l st =
     (let (req, invalid) = st; line = (if l \<noteq> [] \<and> last l = CHR 0x0D then butlast l else l)
      in case cut_at CHR '':'' line of
           None \<Rightarrow> (req, invalid)
         | Some (key, v) \<Rightarrow>
             let val = dropWhile (\<lambda>c. c = CHR '' '') v
             in if lower_case key = ''content-length''
                then case content_length_of val of
                       None \<Rightarrow> (req, True)
                     | Some n \<Rightarrow> (req\<lparr>hr_content_length := n\<rparr>, invalid)
                else if lower_case key = ''connection''
                then if lower_case val = ''close'' then (req\<lparr>hr_connection_close := True\<rparr>, invalid)
                     else if lower_case val = ''keep-alive'' then (req\<lparr>hr_connection_keep_alive := True\<rparr>, invalid)
                     else (req, invalid)
                else (req, invalid))"

text \<open>
  The header lines lie between the end of the first line and the end of the headers.  The length that
  \<open>substr\<close> gets is unsigned: when there is no header it wraps, and everything after the first line is
  taken.
\<close>

definition header_text :: "string \<Rightarrow> nat \<Rightarrow> nat \<Rightarrow> string" where
  "header_text buf first_line_end header_end =
     (if header_end < first_line_end + 2 then drop (first_line_end + 2) buf
      else take (header_end - first_line_end - 2) (drop (first_line_end + 2) buf))"

definition parse_head :: "string \<Rightarrow> nat \<Rightarrow> (http_request \<times> bool) option" where
  "parse_head buf header_end =
     (case str_find crlf buf of
        None \<Rightarrow> None
      | Some first_line_end \<Rightarrow>
          (case parse_request_line (take first_line_end buf) new_http_request of
             None \<Rightarrow> None
           | Some req \<Rightarrow>
               Some (fold parse_header (lines_of (header_text buf first_line_end header_end))
                       (req\<lparr>hr_content_length := 0\<rparr>, False))))"

text \<open>The rest of the body, up to one byte past the limit; a failed \<open>recv\<close> ends it.\<close>

function recv_body :: "int \<Rightarrow> string \<Rightarrow> int \<Rightarrow> string list \<Rightarrow> string \<times> string list" where
  "recv_body hard_cap body need ss =
     (if need > 0 \<and> int (length body) < hard_cap
      then let want = min (min 4096 (nat need)) (nat (hard_cap - int (length body)));
               (chunk, ss') = net_recv want ss
           in if chunk = [] then (body, ss')
              else recv_body hard_cap (body @ chunk) (need - int (length chunk)) ss'
      else (body, ss))"
  by pat_completeness auto
termination
  by (relation "measure (\<lambda>(hard_cap, body, need, ss). length (concat ss))")
    (auto dest!: sym [of "(_, _)"] net_recv_bytes simp: length_greater_0_conv [symmetric] simp del: length_greater_0_conv length_concat)

declare recv_body.simps [simp del]

definition read_http_request :: "int \<Rightarrow> string list \<Rightarrow> http_request option \<times> string list" where
  "read_http_request max_body_size ss =
     (case recv_headers [] ss of
        (None, ss) \<Rightarrow> (None, ss)
      | (Some (buf, header_end), ss) \<Rightarrow>
          (case parse_head buf header_end of
             None \<Rightarrow> (None, ss)
           | Some (req, True) \<Rightarrow> (Some (req\<lparr>hr_content_length := - 2, hr_body := []\<rparr>), ss)
           | Some (req, False) \<Rightarrow>
               if hr_content_length req > max_body_size
               then (Some (req\<lparr>hr_content_length := max_body_size + 1, hr_body := []\<rparr>), ss)
               else let so_far = drop (header_end + 4) buf;
                        (body, ss) = recv_body (max_body_size + 1) so_far (hr_content_length req - int (length so_far)) ss
                    in if int (length body) > max_body_size
                       then (Some (req\<lparr>hr_content_length := max_body_size + 1, hr_body := []\<rparr>), ss)
                       else (Some (req\<lparr>hr_body := body\<rparr>), ss)))"

section \<open>Query parameters\<close>

fun split_amp :: "string \<Rightarrow> string list" where
  "split_amp [] = []"
| "split_amp (c # cs) =
     (if c = CHR ''&'' then [] # split_amp cs
      else case split_amp cs of p # ps \<Rightarrow> (c # p) # ps | [] \<Rightarrow> [[c]])"

definition url_decode_query_param :: "string \<Rightarrow> string \<Rightarrow> string" where
  "url_decode_query_param qs key =
     (case find (\<lambda>param. prefix (key @ ''='') param) (split_amp qs) of
        Some param \<Rightarrow> drop (length key + 1) param
      | None \<Rightarrow> [])"

section \<open>Responses\<close>

definition status_text :: "int \<Rightarrow> string" where
  "status_text code =
     (if code = 200 then ''OK'' else if code = 400 then ''Bad Request'' else if code = 405 then ''Method Not Allowed''
      else if code = 413 then ''Request Entity Too Large'' else if code = 404 then ''Not Found''
      else if code = 500 then ''Internal Server Error'' else if code = 503 then ''Service Unavailable''
      else ''Unknown'')"

definition json_escape :: "string \<Rightarrow> string" where
  "json_escape s =
     (let out = write_go_string s in if length out \<ge> 2 then take (length out - 2) (drop 1 out) else [])"

record http_response =
  ht_status :: int
  ht_content_type :: string
  ht_body :: string

definition response_text :: "bool \<Rightarrow> http_response \<Rightarrow> string" where
  "response_text keep_alive r =
     ''HTTP/1.1 '' @ string_of_int (ht_status r) @ '' '' @ status_text (ht_status r) @ crlf @
     ''Content-Type: '' @ ht_content_type r @ crlf @
     ''Content-Length: '' @ string_of_nat (length (ht_body r)) @ crlf @
     (if keep_alive then ''Connection: keep-alive'' else ''Connection: close'') @ crlf @ crlf @ ht_body r"

definition json_response :: "int \<Rightarrow> string \<Rightarrow> http_response" where
  "json_response status body = \<lparr>ht_status = status, ht_content_type = ''application/json'', ht_body = body\<rparr>"

definition error_response :: "int \<Rightarrow> string \<Rightarrow> http_response" where
  "error_response status message =
     json_response status (''{'' @ quoted ''error'' @ '':'' @ quoted (json_escape message) @ ''}'' @ [CHR 0x0A])"

record http_conn =
  hc_accepts :: "nat list"
  hc_sent :: string
  hc_open :: bool

function send_bytes :: "string \<Rightarrow> http_conn \<Rightarrow> http_conn" where
  "send_bytes data c =
     (if data = [] then c
      else let (n, rest) = (case hc_accepts c of [] \<Rightarrow> (length data, []) | a # as \<Rightarrow> (min a (length data), as));
               c' = c\<lparr>hc_accepts := rest, hc_sent := hc_sent c @ take n data\<rparr>
           in if n = 0 then c' else send_bytes (drop n data) c')"
  by pat_completeness auto
termination by (relation "measure (\<lambda>(data, c). length data)") auto

declare send_bytes.simps [simp del]

definition send_response :: "bool \<Rightarrow> http_response \<Rightarrow> http_conn \<Rightarrow> http_conn" where
  "send_response keep_alive r c = send_bytes (response_text keep_alive r) c"

end
