(* ===== verification/Http_Theorems.thy ===== *)
theory Http_Theorems
  imports Http_Wire Redis_Theorems
begin

text \<open>
  The HTTP reader reads back what a client writes, however the bytes are cut into segments, and never
  holds more than its limits.
\<close>

section \<open>Finding the end of the headers\<close>

lemma str_find_take:
  assumes "str_find pat s = Some i" "pat \<noteq> []"
  shows "i + length pat \<le> length s \<and> str_find pat (take k s) = (if i + length pat \<le> k then Some i else None)"
  using assms
proof (induction pat s arbitrary: i k rule: str_find.induct)
  case (2 pat c cs)
  show ?case
  proof (cases "prefix pat (c # cs)")
    case True
    then have i: "i = 0" using "2.prems" by simp
    show ?thesis
    proof (cases "length pat \<le> k")
      case le: True
      obtain t where t: "c # cs = pat @ t" using True by (auto elim: prefixE)
      have "prefix pat (take k (c # cs))" unfolding t using le by simp
      moreover obtain k' where "k = Suc k'" using le "2.prems"(2) by (cases k) auto
      moreover have "length pat \<le> length (c # cs)" using True by (rule prefix_length_le)
      ultimately show ?thesis using True le i by simp
    next
      case False
      have no: "str_find pat t = None" if "length t < length pat" for t
        using that by (induction t) (auto dest: prefix_length_le)
      show ?thesis using False True i no [of "take k (c # cs)"] by (auto dest: prefix_length_le)
    qed
  next
    case False
    then obtain j where j: "str_find pat cs = Some j" "i = Suc j" using "2.prems" by auto
    show ?thesis
    proof (cases k)
      case 0
      then show ?thesis using "2.IH" [OF False j(1)] "2.prems"(2) j by auto
    next
      case (Suc k')
      have "\<not> prefix pat (take k (c # cs))" using False take_is_prefix prefix_order.trans by blast
      then show ?thesis using "2.IH" [OF False j(1) "2.prems"(2), of k'] False j by (auto simp: Suc)
    qed
  qed
qed simp

lemma net_recv_flowing:
  assumes "[] \<notin> set ss" "concat ss \<noteq> []" "0 < n"
  obtains chunk ss' where "net_recv n ss = (chunk, ss')" "chunk \<noteq> []" "length chunk \<le> n" "[] \<notin> set ss'"
    "chunk @ concat ss' = concat ss"
proof -
  obtain s rest where ss: "ss = s # rest" using assms(2) by (cases ss) auto
  show thesis using that [of "take n s" "if length s \<le> n then rest else drop n s # rest"] assms
    by (auto simp: ss net_recv_def)
qed

lemma recv_headers_flowing:
  assumes "[] \<notin> set ss" "str_find (crlf @ crlf) (buf @ concat ss) = Some i" "length buf < i + 4" "i + 4 + 4096 \<le> k_max_header_size"
  obtains k ss' where "recv_headers buf ss = (Some (take k (buf @ concat ss), i), ss')" "[] \<notin> set ss'"
    "take k (buf @ concat ss) @ concat ss' = buf @ concat ss" "i + 4 \<le> k" "k < i + 4 + 4096" "k \<le> length (buf @ concat ss)"
  using assms
proof (induction buf ss arbitrary: thesis rule: recv_headers.induct)
  case (1 buf ss)
  have four: "length (crlf @ crlf) = 4" "crlf @ crlf \<noteq> []" by (simp_all add: crlf_def)
  have len: "i + 4 \<le> length (buf @ concat ss)" using str_find_take [OF "1.prems"(3) four(2)] four(1) by simp
  have "concat ss \<noteq> []"
  proof
    assume "concat ss = []"
    with len "1.prems"(4) show False by (simp del: concat_eq_Nil_conv)
  qed
  then obtain chunk ss1 where r: "net_recv 4096 ss = (chunk, ss1)" "chunk \<noteq> []" "length chunk \<le> 4096" "[] \<notin> set ss1" "chunk @ concat ss1 = concat ss"
    using net_recv_flowing [OF "1.prems"(2), of 4096] by auto
  let ?k = "length (buf @ chunk)"
  have whole: "buf @ concat ss = (buf @ chunk) @ concat ss1" using r(5) by simp
  then have taken: "buf @ chunk = take ?k (buf @ concat ss)" by simp
  have size: "\<not> length (buf @ chunk) > k_max_header_size" using r(3) "1.prems"(4,5) by simp
  have find: "str_find (crlf @ crlf) (buf @ chunk) = (if i + 4 \<le> ?k then Some i else None)"
    using str_find_take [OF "1.prems"(3) four(2), of ?k] four(1) taken by simp
  show ?case
  proof (cases "i + 4 \<le> ?k")
    case True
    then have "recv_headers buf ss = (Some (buf @ chunk, i), ss1)"
      using r size find by (subst recv_headers.simps) (simp add: Let_def)
    then have "recv_headers buf ss = (Some (take ?k (buf @ concat ss), i), ss1)" using taken by simp
    moreover have "take ?k (buf @ concat ss) @ concat ss1 = buf @ concat ss" using taken whole by metis
    moreover have "?k < i + 4 + 4096" "?k \<le> length (buf @ concat ss)" using r(3) "1.prems"(4) whole
      by (simp, metis le_add1 length_append)
    ultimately show ?thesis using "1.prems"(1) [of ?k ss1] True r(4) by blast
  next
    case False
    then have step: "recv_headers buf ss = recv_headers (buf @ chunk) ss1"
      using r size find by (subst recv_headers.simps) (simp add: Let_def)
    have found: "str_find (crlf @ crlf) ((buf @ chunk) @ concat ss1) = Some i" using "1.prems"(3) whole by simp
    have none: "str_find (crlf @ crlf) (buf @ chunk) = None" "length (buf @ chunk) < i + 4" using find False by simp_all
    show ?thesis
    proof (rule "1.IH" [OF r(1) [symmetric] refl refl r(2) size none(1) _ r(4) found none(2) "1.prems"(5)])
      fix k ss'
      assume "recv_headers (buf @ chunk) ss1 = (Some (take k ((buf @ chunk) @ concat ss1), i), ss')" "[] \<notin> set ss'"
        "take k ((buf @ chunk) @ concat ss1) @ concat ss' = (buf @ chunk) @ concat ss1" "i + 4 \<le> k" "k < i + 4 + 4096"
        "k \<le> length ((buf @ chunk) @ concat ss1)"
      then show thesis using "1.prems"(1) [of k ss'] unfolding step whole [symmetric] by blast
    qed
  qed
qed

lemma recv_body_flowing:
  assumes "[] \<notin> set ss" "concat ss = drop (length body) whole" "body = take (length body) whole" "int (length whole) < hard_cap"
    and "need = int (length whole) - int (length body)"
  shows "recv_body hard_cap body need ss = (whole, [])"
  using assms
proof (induction hard_cap body need ss rule: recv_body.induct)
  case (1 hard_cap body need ss)
  have le: "length body \<le> length whole" using "1.prems"(3) by (metis length_take min.cobounded1)
  show ?case
  proof (cases "length body = length whole")
    case True
    then have "concat ss = []" "body = whole" using "1.prems"(2,3) by simp_all
    moreover from this(1) have "ss = []" using "1.prems"(1) by (cases ss) auto
    ultimately show ?thesis using "1.prems"(5) by (subst recv_body.simps) simp
  next
    case False
    then have less: "length body < length whole" using le by simp
    let ?want = "min (min 4096 (nat need)) (nat (hard_cap - int (length body)))"
    have cond: "need > 0 \<and> int (length body) < hard_cap" using less "1.prems"(4,5) by simp
    have "concat ss \<noteq> []" using less "1.prems"(2) by simp
    then obtain chunk ss1 where r: "net_recv ?want ss = (chunk, ss1)" "chunk \<noteq> []" "length chunk \<le> ?want" "[] \<notin> set ss1" "chunk @ concat ss1 = concat ss"
      using net_recv_flowing [OF "1.prems"(1), of ?want] cond by auto
    have split: "body @ chunk @ concat ss1 = whole" using r(5) "1.prems"(2,3) by (metis append_take_drop_id)
    have step: "recv_body hard_cap body need ss = recv_body hard_cap (body @ chunk) (need - int (length chunk)) ss1"
      using cond r by (subst recv_body.simps) (simp add: Let_def)
    have rest: "concat ss1 = drop (length (body @ chunk)) whole" "body @ chunk = take (length (body @ chunk)) whole"
      by (simp_all flip: split)
    have "need - int (length chunk) = int (length whole) - int (length (body @ chunk))" using "1.prems"(5) by simp
    from "1.IH" [OF cond refl r(1) [symmetric] refl r(2) r(4) rest "1.prems"(4) this] show ?thesis unfolding step .
  qed
qed

section \<open>The head\<close>

definition plain :: "string \<Rightarrow> bool" where
  "plain s \<longleftrightarrow> CHR 0x0D \<notin> set s \<and> CHR 0x0A \<notin> set s"

definition lines_text :: "string list \<Rightarrow> string" where
  "lines_text ls = concat (map (\<lambda>l. l @ crlf) ls)"

lemma prefix_crlf: "prefix crlf s \<longleftrightarrow> (\<exists>t. s = CHR 0x0D # CHR 0x0A # t)"
  by (auto simp: crlf_def prefix_def)

lemma str_find_crlf: "CHR 0x0D \<notin> set l \<Longrightarrow> str_find crlf (l @ crlf @ t) = Some (length l)"
proof (induction l)
  case Nil
  then show ?case by (simp add: crlf_def)
next
  case (Cons c l)
  then show ?case by (auto simp: prefix_crlf)
qed

lemma str_find_crlf2_here: "CHR 0x0D \<notin> set l \<Longrightarrow> str_find (crlf @ crlf) (l @ crlf @ crlf @ t) = Some (length l)"
proof (induction l)
  case Nil
  then show ?case by (simp add: crlf_def)
next
  case (Cons c l)
  then show ?case by (simp add: crlf_def)
qed

lemma str_find_crlf2_later:
  assumes "CHR 0x0D \<notin> set l" "d \<noteq> CHR 0x0D"
  shows "str_find (crlf @ crlf) (l @ crlf @ d # t) = map_option ((+) (length l + 2)) (str_find (crlf @ crlf) (d # t))"
  using assms
proof (induction l)
  case Nil
  then show ?case by (cases "str_find (crlf @ crlf) t") (auto simp: crlf_def option.map_comp comp_def)
next
  case (Cons c l)
  then show ?case by (cases "str_find (crlf @ crlf) t") (auto simp: crlf_def option.map_comp comp_def)
qed

lemma str_find_head:
  assumes "\<forall>l \<in> set (l # ls). plain l" "\<forall>l \<in> set ls. l \<noteq> []"
  shows "str_find (crlf @ crlf) (lines_text (l # ls) @ crlf @ t) = Some (length (lines_text (l # ls)) - 2)"
  using assms
proof (induction ls arbitrary: l)
  case Nil
  then show ?case using str_find_crlf2_here [of l t] by (simp add: lines_text_def plain_def crlf_def)
next
  case (Cons m ls)
  obtain d m' where m: "m = d # m'" "d \<noteq> CHR 0x0D" using Cons.prems by (cases m) (auto simp: plain_def)
  have "str_find (crlf @ crlf) (lines_text (m # ls) @ crlf @ t) = Some (length (lines_text (m # ls)) - 2)"
    using Cons by simp
  moreover have "lines_text (l # m # ls) @ crlf @ t = l @ crlf @ d # (m' @ crlf @ lines_text ls @ crlf @ t)"
    "lines_text (m # ls) @ crlf @ t = d # (m' @ crlf @ lines_text ls @ crlf @ t)"
    by (simp_all add: lines_text_def m)
  moreover have "length (lines_text (m # ls)) \<ge> 2" by (simp add: lines_text_def crlf_def)
  moreover have "length (lines_text (l # m # ls)) = length l + 2 + length (lines_text (m # ls))"
    by (simp add: lines_text_def crlf_def)
  ultimately show ?case using str_find_crlf2_later [of l d] Cons.prems(1) m(2) by (simp add: plain_def)
qed

lemma lines_of_plain:
  "CHR 0x0A \<notin> set l \<Longrightarrow> lines_of (l @ CHR 0x0A # t) = l # lines_of t"
  "CHR 0x0A \<notin> set l \<Longrightarrow> lines_of l = [l]"
  by (induction l) auto

lemma lines_of_header:
  assumes "\<forall>l \<in> set ls. plain l" "plain m"
  shows "lines_of (lines_text ls @ m) = map (\<lambda>l. l @ [CHR 0x0D]) ls @ [m]"
  using assms(1)
proof (induction ls)
  case Nil
  then show ?case using assms(2) by (simp add: lines_text_def plain_def lines_of_plain)
next
  case (Cons l ls)
  have "lines_text (l # ls) @ m = (l @ [CHR 0x0D]) @ CHR 0x0A # (lines_text ls @ m)" by (simp add: lines_text_def crlf_def)
  moreover have "CHR 0x0A \<notin> set (l @ [CHR 0x0D])" using Cons.prems by (simp add: plain_def)
  ultimately have "lines_of (lines_text (l # ls) @ m) = (l @ [CHR 0x0D]) # lines_of (lines_text ls @ m)"
    by (metis lines_of_plain(1))
  then show ?case using Cons by simp
qed

lemma parse_header_cr: "plain l \<Longrightarrow> parse_header (l @ [CHR 0x0D]) st = parse_header l st"
  by (cases st) (auto simp: parse_header_def plain_def Let_def dest: last_in_set)

lemma fold_headers:
  assumes "\<forall>l \<in> set ls. plain l"
  shows "fold parse_header (map (\<lambda>l. l @ [CHR 0x0D]) ls) st = fold parse_header ls st"
  using assms by (induction ls arbitrary: st) (auto simp: parse_header_cr)

lemma header_text_here:
  "header_text (lines_text (l # ls @ [m]) @ crlf @ t) (length l) (length (lines_text (l # ls @ [m])) - 2) = lines_text ls @ m"
  by (simp add: header_text_def lines_text_def crlf_def)

lemma take_prefix: "k \<le> length s \<Longrightarrow> k' \<le> k \<Longrightarrow> take k' (take k s) = take k' s"
  by simp

text \<open>The head is read from any buffer that holds it whole.\<close>

lemma parse_head_reads:
  assumes "\<forall>h \<in> set (l # ls @ [m]). plain h"
    and "parse_request_line l new_http_request = Some req"
  shows "parse_head (lines_text (l # ls @ [m]) @ crlf @ t) (length (lines_text (l # ls @ [m])) - 2) =
     Some (fold parse_header (ls @ [m]) (req\<lparr>hr_content_length := 0\<rparr>, False))"
proof -
  have "lines_text (l # ls @ [m]) @ crlf @ t = l @ crlf @ (lines_text (ls @ [m]) @ crlf @ t)" by (simp add: lines_text_def)
  moreover have "CHR 0x0D \<notin> set l" using assms(1) by (simp add: plain_def)
  ultimately have first: "str_find crlf (lines_text (l # ls @ [m]) @ crlf @ t) = Some (length l)"
    "take (length l) (lines_text (l # ls @ [m]) @ crlf @ t) = l"
    by (simp_all add: str_find_crlf)
  have "lines_of (lines_text ls @ m) = map (\<lambda>l. l @ [CHR 0x0D]) ls @ [m]" using assms(1) by (simp add: lines_of_header)
  then show ?thesis
    using assms fold_headers [of ls] unfolding parse_head_def first option.case header_text_here by simp
qed

lemma cut_at_here: "c \<notin> set a \<Longrightarrow> cut_at c (a @ c # b) = Some (a, b)"
  by (induction a) (auto simp: cut_at_def)

lemma cut_at_absent: "c \<notin> set a \<Longrightarrow> cut_at c a = None"
  by (simp add: cut_at_def)

section \<open>The round trip\<close>

text \<open>What a client sends: \<open>hs\<close> are header lines of its own.\<close>

definition request_text :: "string \<Rightarrow> string \<Rightarrow> string \<Rightarrow> string \<Rightarrow> string list \<Rightarrow> string \<Rightarrow> string" where
  "request_text m path query version hs body =
     lines_text ((m @ '' '' @ path @ ''?'' @ query @ '' '' @ version) # hs @ [''Content-Length: '' @ string_of_nat (length body)]) @
     crlf @ body"

text \<open>A header line the reader ignores.\<close>

definition other_header :: "string \<Rightarrow> bool" where
  "other_header l \<longleftrightarrow> plain l \<and> l \<noteq> [] \<and>
     (case cut_at CHR '':'' l of Some (k, _) \<Rightarrow> lower_case k \<noteq> ''content-length'' \<and> lower_case k \<noteq> ''connection'' | None \<Rightarrow> True)"

lemma parse_plain_header:
  assumes "plain l" "cut_at CHR '':'' l = Some (key, v)"
  shows "parse_header l (req, bad) =
    (let val = dropWhile (\<lambda>c. c = CHR '' '') v
     in if lower_case key = ''content-length''
        then case content_length_of val of None \<Rightarrow> (req, True) | Some n \<Rightarrow> (req\<lparr>hr_content_length := n\<rparr>, bad)
        else if lower_case key = ''connection''
        then if lower_case val = ''close'' then (req\<lparr>hr_connection_close := True\<rparr>, bad)
             else if lower_case val = ''keep-alive'' then (req\<lparr>hr_connection_keep_alive := True\<rparr>, bad) else (req, bad)
        else (req, bad))"
proof -
  have "(l \<noteq> [] \<and> last l = CHR 0x0D) = False" using assms(1) by (metis last_in_set plain_def)
  then show ?thesis unfolding parse_header_def Let_def prod.case by (simp only: if_False assms(2) option.case prod.case)
qed

lemma parse_other_header:
  assumes "other_header l"
  shows "parse_header l st = st"
proof (cases "cut_at CHR '':'' l")
  case None
  have "(l \<noteq> [] \<and> last l = CHR 0x0D) = False" using assms by (metis last_in_set other_header_def plain_def)
  then show ?thesis using None by (cases st) (simp only: parse_header_def Let_def prod.case if_False option.case)
next
  case (Some kv)
  obtain k v where kv: "kv = (k, v)" by fastforce
  have "plain l" "lower_case k \<noteq> ''content-length''" "lower_case k \<noteq> ''connection''"
    using assms Some by (simp_all add: other_header_def kv)
  then show ?thesis using Some by (cases st) (simp only: parse_plain_header kv Let_def if_False)
qed

lemma fold_other_headers: "\<forall>l \<in> set hs. other_header l \<Longrightarrow> fold parse_header hs st = st"
  by (induction hs) (auto simp: parse_other_header)

lemma no_lf_in_nat: "CHR 0x0A \<notin> set (string_of_nat n)"
  using string_of_nat_laws(1) [of n] by (auto simp: list_all_iff is_digit_def)

lemma content_length_nat:
  assumes "n < 2 ^ 63"
  shows "content_length_of (string_of_nat n) = Some (int n)"
proof -
  obtain d ds where d: "string_of_nat n = d # ds" using string_of_nat_laws(2) by (cases "string_of_nat n") auto
  from digits_head [OF d] have start: "split_sign (skip_ws (string_of_nat n)) = (False, string_of_nat n)"
    by (simp add: d skip_ws_def split_sign_def digit_not)
  have "dropWhile is_digit (string_of_nat n) = []" using string_of_nat_laws(1) [of n] by (simp add: dropWhile_eq_Nil_conv list_all_iff)
  then show ?thesis using assms by (simp add: content_length_of_def stoll_def sto_string_of_nat start)
qed

lemma content_length_line:
  assumes "n < 2 ^ 63"
  shows "plain (''Content-Length: '' @ string_of_nat n)"
    and "parse_header (''Content-Length: '' @ string_of_nat n) (req, bad) = (req\<lparr>hr_content_length := int n\<rparr>, bad)"
proof -
  show p: "plain (''Content-Length: '' @ string_of_nat n)" by (simp add: plain_def no_lf_in_nat)
  have cut: "cut_at CHR '':'' (''Content-Length: '' @ string_of_nat n) = Some (''Content-Length'', '' '' @ string_of_nat n)"
    using cut_at_here [of "CHR '':''" "''Content-Length''" "'' '' @ string_of_nat n"] by simp
  obtain d ds where d: "string_of_nat n = d # ds" using string_of_nat_laws(2) by (cases "string_of_nat n") auto
  have "d \<noteq> CHR '' ''" using digits_head [OF d] by (auto simp: is_digit_def)
  then have val: "dropWhile (\<lambda>c. c = CHR '' '') ('' '' @ string_of_nat n) = string_of_nat n" by (simp add: d)
  have key: "lower_case ''Content-Length'' = ''content-length''" by code_simp
  show "parse_header (''Content-Length: '' @ string_of_nat n) (req, bad) = (req\<lparr>hr_content_length := int n\<rparr>, bad)"
    unfolding parse_plain_header [OF p cut] Let_def val key content_length_nat [OF assms] by (simp only: if_True option.case simp_thms)
qed

lemma request_line_reads:
  assumes "CHR '' '' \<notin> set m" "CHR '' '' \<notin> set path" "CHR ''?'' \<notin> set path" "CHR '' '' \<notin> set query"
  shows "parse_request_line (m @ '' '' @ path @ ''?'' @ query @ '' '' @ version) req =
     Some (req\<lparr>hr_method := m, hr_http_version := version, hr_path := path, hr_query_string := query\<rparr>)"
proof -
  have 1: "cut_at CHR '' '' (m @ '' '' @ path @ ''?'' @ query @ '' '' @ version) = Some (m, path @ ''?'' @ query @ '' '' @ version)"
    using cut_at_here [OF assms(1), of "path @ ''?'' @ query @ '' '' @ version"] by simp
  have "CHR '' '' \<notin> set (path @ ''?'' @ query)" using assms by auto
  from cut_at_here [OF this, of version] have 2: "cut_at CHR '' '' (path @ ''?'' @ query @ '' '' @ version) = Some (path @ ''?'' @ query, version)"
    by simp
  have 3: "cut_at CHR ''?'' (path @ ''?'' @ query) = Some (path, query)" using cut_at_here [OF assms(3), of query] by simp
  show ?thesis unfolding parse_request_line_def 1 option.case prod.case 2 Let_def 3 by simp
qed

text \<open>
  The reader reads back what a client writes.  A request whose method, path and query hold no blank
  and whose own headers are none the server interprets is read with its method, path, query, version and
  body, whatever the segments it arrives in, as long as its head leaves room for one more read under the
  limit of the headers and its body is within the limit of the server; and nothing of it is left.
\<close>

theorem http_request_roundtrip:
  assumes "CHR '' '' \<notin> set m" "CHR '' '' \<notin> set path" "CHR ''?'' \<notin> set path" "CHR '' '' \<notin> set query"
    and "plain m" "plain path" "plain query" "plain version" "\<forall>h \<in> set hs. other_header h"
    and "int (length body) \<le> max_body_size" "length body < 2 ^ 63"
    and "length (request_text m path query version hs body) - length body + 4096 \<le> 1024 * 1024"
    and "concat ss = request_text m path query version hs body" "[] \<notin> set ss"
  shows "read_http_request max_body_size ss =
     (Some \<lparr>hr_method = m, hr_path = path, hr_query_string = query, hr_body = body, hr_content_length = int (length body),
        hr_connection_close = False, hr_http_version = version, hr_connection_keep_alive = False\<rparr>, [])"
proof -
  let ?l = "m @ '' '' @ path @ ''?'' @ query @ '' '' @ version"
  let ?cl = "''Content-Length: '' @ string_of_nat (length body)"
  define head where "head = lines_text (?l # hs @ [?cl])"
  have whole: "concat ss = head @ crlf @ body" using assms(13) unfolding request_text_def head_def by simp
  have lines: "\<forall>h \<in> set (?l # hs @ [?cl]). plain h" "\<forall>h \<in> set (hs @ [?cl]). h \<noteq> []"
    using assms(5-9) content_length_line(1) [OF assms(11)] by (auto simp: plain_def other_header_def)
  have two: "length head \<ge> 2" by (simp add: head_def lines_text_def crlf_def)
  have found: "str_find (crlf @ crlf) ([] @ concat ss) = Some (length head - 2)"
    using str_find_head [OF lines] by (simp add: whole head_def)
  have room: "length head - 2 + 4 + 4096 \<le> k_max_header_size"
    using assms(12,13) two by (simp add: whole k_max_header_size_def crlf_def flip: assms(13))
  obtain k ss1 where r: "recv_headers [] ss = (Some (take k ([] @ concat ss), length head - 2), ss1)" "[] \<notin> set ss1"
    "take k ([] @ concat ss) @ concat ss1 = [] @ concat ss" "length head - 2 + 4 \<le> k"
    by (rule recv_headers_flowing [OF assms(14) found _ room]) simp_all
  define so_far where "so_far = take (k - (length head + 2)) body"
  have buf: "take k ([] @ concat ss) = head @ crlf @ so_far"
    using r(4) two by (simp add: whole so_far_def crlf_def take_Cons')
  have rest: "so_far @ concat ss1 = body" using r(3) unfolding buf by (simp add: whole)
  have req: "parse_head (head @ crlf @ so_far) (length head - 2) =
      Some (\<lparr>hr_method = m, hr_path = path, hr_query_string = query, hr_body = [], hr_content_length = int (length body),
        hr_connection_close = False, hr_http_version = version, hr_connection_keep_alive = False\<rparr>, False)"
    unfolding head_def parse_head_reads [OF lines(1) request_line_reads [OF assms(1-4)]]
    by (simp only: fold_append comp_apply fold_other_headers [OF assms(9)] fold_simps(1,2) content_length_line(2) [OF assms(11)])
      (simp add: new_http_request_def)
  have drops: "drop (length head - 2 + 4) (head @ crlf @ so_far) = so_far" using two by (simp add: crlf_def)
  have body: "recv_body (max_body_size + 1) so_far (int (length body) - int (length so_far)) ss1 = (body, [])"
    by (rule recv_body_flowing [OF r(2)]) (use assms(10) in \<open>simp_all flip: rest\<close>)
  show ?thesis using assms(10)
    unfolding read_http_request_def r(1) [unfolded buf] prod.case option.case req bool.case Let_def drops
    by (simp add: body)
qed

definition demo_request_text :: string where
  "demo_request_text = request_text ''GET'' ''/x'' ''a'' ''HTTP/1.1'' [''Host: h''] ''hi''"

lemma http_request_roundtrip_witness:
  "read_http_request 10 [demo_request_text] =
     (Some \<lparr>hr_method = ''GET'', hr_path = ''/x'', hr_query_string = ''a'', hr_body = ''hi'', hr_content_length = 2,
        hr_connection_close = False, hr_http_version = ''HTTP/1.1'', hr_connection_keep_alive = False\<rparr>, [])"
proof -
  have 1: "CHR '' '' \<notin> set ''GET''" "CHR '' '' \<notin> set ''/x''" "CHR ''?'' \<notin> set ''/x''" "CHR '' '' \<notin> set ''a''"
    "plain ''GET''" "plain ''/x''" "plain ''a''" "plain ''HTTP/1.1''" "\<forall>h \<in> set [''Host: h'']. other_header h"
    by code_simp+
  have "length demo_request_text \<le> 100" by code_simp
  then have 2: "length demo_request_text - 2 + 4096 \<le> 1024 * 1024" by simp
  have 3: "demo_request_text \<noteq> []" by code_simp
  show ?thesis
    using http_request_roundtrip [OF 1, of "''hi''" 10 "[demo_request_text]"] 2 3 by (simp add: demo_request_text_def)
qed

section \<open>Bounds\<close>

lemma net_recv_length: "net_recv n ss = (chunk, ss') \<Longrightarrow> length chunk \<le> n"
  by (auto simp: net_recv_def split: list.splits if_splits)

lemma recv_headers_bound:
  assumes "recv_headers buf ss = (r, ss')" "length buf \<le> k_max_header_size"
  shows "length buf + length (concat ss) \<le> k_max_header_size + 4096 + length (concat ss') \<and>
     (\<forall>b i. r = Some (b, i) \<longrightarrow> length buf + length (concat ss) \<le> k_max_header_size + length (concat ss'))"
  using assms
proof (induction buf ss arbitrary: r ss' rule: recv_headers.induct)
  case (1 buf ss)
  obtain chunk ss1 where c: "net_recv 4096 ss = (chunk, ss1)" by fastforce
  note bytes = net_recv_bytes [OF c] net_recv_length [OF c]
  show ?case
  proof (cases "chunk = [] \<or> length (buf @ chunk) > k_max_header_size \<or> str_find (crlf @ crlf) (buf @ chunk) \<noteq> None")
    case True
    then show ?thesis using "1.prems" bytes
      by (subst (asm) recv_headers.simps) (auto simp: c Let_def split: if_splits option.splits)
  next
    case False
    then have step: "recv_headers (buf @ chunk) ss1 = (r, ss')"
      using "1.prems"(1) by (subst (asm) recv_headers.simps) (simp add: c Let_def)
    from "1.IH" [OF c [symmetric] refl refl _ _ _ step] False bytes show ?thesis by (simp add: algebra_simps)
  qed
qed

lemma recv_body_bound:
  assumes "recv_body hard_cap body need ss = (b, ss')" "0 \<le> hard_cap"
  shows "length b + length (concat ss') = length body + length (concat ss) \<and> int (length b) \<le> max hard_cap (int (length body))"
  using assms
proof (induction hard_cap body need ss rule: recv_body.induct)
  case (1 hard_cap body need ss)
  show ?case
  proof (cases "need > 0 \<and> int (length body) < hard_cap")
    case False
    then show ?thesis using "1.prems" by (subst (asm) recv_body.simps) auto
  next
    case True
    let ?want = "min (min 4096 (nat need)) (nat (hard_cap - int (length body)))"
    obtain chunk ss1 where c: "net_recv ?want ss = (chunk, ss1)" by fastforce
    note bytes = net_recv_bytes [OF c] net_recv_length [OF c]
    show ?thesis
    proof (cases "chunk = []")
      case empty: True
      then show ?thesis using "1.prems" True bytes by (subst (asm) recv_body.simps) (simp add: c Let_def)
    next
      case False
      then have step: "recv_body hard_cap (body @ chunk) (need - int (length chunk)) ss1 = (b, ss')"
        using "1.prems"(1) True by (subst (asm) recv_body.simps) (simp add: c Let_def)
      have "length chunk \<le> nat (hard_cap - int (length body))" using bytes by simp
      then have "int (length (body @ chunk)) \<le> hard_cap" using True by (simp add: le_nat_iff)
      with "1.IH" [OF True refl c [symmetric] refl False step "1.prems"(2)] bytes show ?thesis by (simp add: max_def)
    qed
  qed
qed

lemma parse_header_length: "hr_content_length (fst st) \<ge> 0 \<Longrightarrow> hr_content_length (fst (parse_header l st)) \<ge> 0"
proof (cases st)
  case (Pair req bad)
  have "n \<ge> 0" if "content_length_of val = Some n" for val n
    using that by (auto simp: content_length_of_def split: sum.splits if_splits)
  then have set: "hr_content_length (fst (case content_length_of val of None \<Rightarrow> (req, True) | Some n \<Rightarrow> (req\<lparr>hr_content_length := n\<rparr>, bad))) \<ge> 0"
    if "hr_content_length req \<ge> 0" for val
    using that by (auto split: option.split)
  assume "hr_content_length (fst st) \<ge> 0"
  then have ok: "hr_content_length req \<ge> 0" by (simp add: Pair)
  have "hr_content_length (fst (if P then x else if Q then if R then (req\<lparr>hr_connection_close := True\<rparr>, bad)
      else if R' then (req\<lparr>hr_connection_keep_alive := True\<rparr>, bad) else (req, bad) else (req, bad))) \<ge> 0"
    if "hr_content_length (fst x) \<ge> 0" for P Q R R' and x :: "http_request \<times> bool"
    using that ok by simp
  with set [OF ok] ok show ?thesis
    unfolding Pair parse_header_def Let_def prod.case by (cases "cut_at CHR '':'' (if l \<noteq> [] \<and> last l = CHR 0x0D then butlast l else l)") auto
qed

lemma parse_head_length: "case parse_head b i of Some (req, bad) \<Rightarrow> hr_content_length req \<ge> 0 | None \<Rightarrow> True"
proof -
  have "hr_content_length (fst (fold parse_header ls st)) \<ge> 0" if "hr_content_length (fst st) \<ge> 0" for ls st
    using that by (induction ls arbitrary: st) (simp_all add: parse_header_length)
  note kept = this
  have "hr_content_length (fst (fold parse_header ls (req\<lparr>hr_content_length := 0\<rparr>, False))) \<ge> 0" for ls req
    by (rule kept) simp
  then show ?thesis unfolding parse_head_def
    by (simp split: option.split) (metis fst_conv)
qed

text \<open>
  The reader is bounded.  Whatever a peer sends, a request takes no more bytes from the socket than
  the limit of the headers, one read, the limit of the body and one byte; a body that reaches a handler
  is within its limit; and a declared length above it, or an invalid one, is reported as such with no
  body.
\<close>

theorem http_reader_bounded:
  assumes "read_http_request max_body_size ss = (r, ss')" "0 \<le> max_body_size"
  shows "int (length (concat ss)) - int (length (concat ss')) \<le> 1024 * 1024 + 4096 + max_body_size + 1 \<and>
     (case r of Some req \<Rightarrow>
        int (length (hr_body req)) \<le> max_body_size \<and> hr_content_length req \<le> max_body_size + 1 \<and>
        (hr_content_length req > max_body_size \<or> hr_content_length req = - 2 \<longrightarrow> hr_body req = [] ) | None \<Rightarrow> True)"
proof -
  obtain hd ss1 where h: "recv_headers [] ss = (hd, ss1)" by fastforce
  have hb: "length (concat ss) \<le> k_max_header_size + 4096 + length (concat ss1)" using recv_headers_bound [OF h] by simp
  have k: "int k_max_header_size = 1024 * 1024" by (simp add: k_max_header_size_def)
  show ?thesis
  proof (cases hd)
    case None
    then show ?thesis using assms hb k by (simp add: read_http_request_def h)
  next
    case (Some bi)
    obtain b i where bi: "bi = (b, i)" by fastforce
    have hb': "length (concat ss) \<le> k_max_header_size + length (concat ss1)"
      using recv_headers_bound [OF h] by (simp add: Some bi)
    show ?thesis
    proof (cases "parse_head b i")
      case None
      then show ?thesis using assms hb k by (simp add: read_http_request_def h Some bi)
    next
      case parsed: (Some rq)
      obtain req bad where rq: "rq = (req, bad)" by fastforce
      have cl: "hr_content_length req \<ge> 0" using parse_head_length [of b i] by (simp add: parsed rq)
      let ?far = "drop (i + 4) b"
      obtain body ss2 where body: "recv_body (max_body_size + 1) ?far (hr_content_length req - int (length ?far)) ss1 = (body, ss2)"
        by fastforce
      from recv_body_bound [OF body] assms(2)
      have bb: "length body + length (concat ss2) = length ?far + length (concat ss1)"
        "int (length body) \<le> max (max_body_size + 1) (int (length ?far))" by simp_all
      then have "int (length (concat ss1)) - int (length (concat ss2)) \<le> max_body_size + 1" using assms(2) by linarith
      with hb' k have total: "int (length (concat ss)) - int (length (concat ss2)) \<le> 1024 * 1024 + 4096 + max_body_size + 1"
        by linarith
      have early: "int (length (concat ss)) - int (length (concat ss1)) \<le> 1024 * 1024 + 4096 + max_body_size + 1"
        using hb k assms(2) by linarith
      have run: "read_http_request max_body_size ss =
          (if bad then (Some (req\<lparr>hr_content_length := - 2, hr_body := []\<rparr>), ss1)
           else if hr_content_length req > max_body_size then (Some (req\<lparr>hr_content_length := max_body_size + 1, hr_body := []\<rparr>), ss1)
           else if int (length body) > max_body_size then (Some (req\<lparr>hr_content_length := max_body_size + 1, hr_body := []\<rparr>), ss2)
           else (Some (req\<lparr>hr_body := body\<rparr>), ss2))"
        unfolding read_http_request_def h Some bi prod.case option.case parsed rq Let_def body by (cases bad) simp_all
      show ?thesis using assms total early cl unfolding run by (auto split: if_splits)
    qed
  qed
qed

lemma http_reader_bounded_witness:
  "int (length (concat [demo_request_text])) - int (length (concat (snd (read_http_request 1 [demo_request_text])))) \<le>
     1024 * 1024 + 4096 + 1 + 1"
  using http_reader_bounded [of 1 "[demo_request_text]" "fst (read_http_request 1 [demo_request_text])"
      "snd (read_http_request 1 [demo_request_text])"] by simp

section \<open>Two surprises\<close>

lemma recv_headers_segment:
  assumes "length s \<le> 4096" "s \<noteq> []" "str_find (crlf @ crlf) s = Some i"
  shows "recv_headers [] [s] = (Some (s, i), [])"
  using assms by (subst recv_headers.simps) (simp add: net_recv_def k_max_header_size_def)

lemma read_segment:
  assumes "length s \<le> 4096" "s \<noteq> []" "str_find (crlf @ crlf) s = Some i" "parse_head s i = Some (req, False)"
    and "hr_content_length req = 0" "int (length (drop (i + 4) s)) \<le> max_body_size" "0 \<le> max_body_size"
  shows "read_http_request max_body_size [s] = (Some (req\<lparr>hr_body := drop (i + 4) s\<rparr>), [])"
  using assms by (simp add: read_http_request_def recv_headers_segment recv_body.simps [where ss = "[]"])

text \<open>Whatever follows a request in the same segment is taken for its body, and the connection forgets it.\<close>

definition two_requests :: string where
  "two_requests = ''GET /a HTTP/1.1'' @ crlf @ ''A: b'' @ crlf @ crlf @ ''GET /b HTTP/1.1'' @ crlf @ ''A: b'' @ crlf @ crlf"

lemma pipelined_request_is_swallowed:
  "case read_http_request 100 [two_requests] of
     (Some r, ss) \<Rightarrow> hr_path r = ''/a'' \<and> hr_content_length r = 0 \<and> length (hr_body r) = 25 \<and> \<not> hr_connection_close r \<and> ss = []
   | _ \<Rightarrow> False"
proof -
  have "case str_find (crlf @ crlf) two_requests of Some i \<Rightarrow> (case parse_head two_requests i of
      Some (req, bad) \<Rightarrow> \<not> bad \<and> hr_content_length req = 0 \<and> length two_requests \<le> 90 \<and> two_requests \<noteq> [] \<and>
        hr_path req = ''/a'' \<and> length (drop (i + 4) two_requests) = 25 \<and> \<not> hr_connection_close req | None \<Rightarrow> False) | None \<Rightarrow> False"
    by code_simp
  then obtain i req where f: "str_find (crlf @ crlf) two_requests = Some i" "parse_head two_requests i = Some (req, False)"
    "hr_content_length req = 0" "length two_requests \<le> 90" "two_requests \<noteq> []" "hr_path req = ''/a''" "length (drop (i + 4) two_requests) = 25" "\<not> hr_connection_close req"
    by (auto split: option.splits prod.splits)
  have "int (length (drop (i + 4) two_requests)) \<le> 100" using f(4) by simp
  from read_segment [OF _ f(5,1,2,3) this] f show ?thesis by simp
qed

text \<open>Without a header line the length of the header text wraps, and the body is read as headers.\<close>

definition headless_request :: string where
  "headless_request = ''POST /a HTTP/1.1'' @ crlf @ crlf @ ''Connection: close''"

lemma body_read_as_headers:
  "case read_http_request 100 [headless_request] of
     (Some r, ss) \<Rightarrow> hr_body r = ''Connection: close'' \<and> hr_connection_close r
   | _ \<Rightarrow> False"
proof -
  have "case str_find (crlf @ crlf) headless_request of Some i \<Rightarrow> (case parse_head headless_request i of
      Some (req, bad) \<Rightarrow> \<not> bad \<and> hr_content_length req = 0 \<and> length headless_request \<le> 90 \<and> headless_request \<noteq> [] \<and>
        drop (i + 4) headless_request = ''Connection: close'' \<and> hr_connection_close req | None \<Rightarrow> False) | None \<Rightarrow> False"
    by code_simp
  then obtain i req where f: "str_find (crlf @ crlf) headless_request = Some i" "parse_head headless_request i = Some (req, False)"
    "hr_content_length req = 0" "length headless_request \<le> 90" "headless_request \<noteq> []" "drop (i + 4) headless_request = ''Connection: close''" "hr_connection_close req"
    by (auto split: option.splits prod.splits)
  have "int (length (drop (i + 4) headless_request)) \<le> 100" using f(4) by simp
  from read_segment [OF _ f(5,1,2,3) this] f show ?thesis by simp
qed

end
