(* ===== verification/Server_Stats.thy ===== *)
theory Server_Stats
  imports Http_Wire Float_Arith "HOL-Library.Signed_Division"
begin

text \<open>
  What the server counts: the metrics collector (\<open>src/runtime/metrics_collector.cpp\<close>), the operator
  statistics (\<open>src/server/server.cpp\<close>) and the HTTP statistics (\<open>src/server/http_stats.cpp\<close>,
  \<open>http_metrics.cpp\<close>), and the custom routes (\<open>src/server/routes.cpp\<close>).  Every operation is one
  critical section.  The 64-bit counters are integers.
\<close>

section \<open>The collector\<close>

definition label_key :: "string list \<Rightarrow> string" where
  "label_key vs = join '' '' vs"

record hist_cell =
  hist_count :: int
  hist_sum_ns :: int

record collector =
  cl_counters :: "double flat_map flat_map"
  cl_gauges :: "double flat_map flat_map"
  cl_histograms :: "hist_cell flat_map flat_map"

definition new_collector :: collector where
  "new_collector = \<lparr>cl_counters = [], cl_gauges = [], cl_histograms = []\<rparr>"

text \<open>A handle is the name of a metric and a key; \<open>with\<close> narrows it to the key of its labels.\<close>

type_synonym metric_handle = "string \<times> string"

definition with_labels :: "string list \<Rightarrow> metric_handle \<Rightarrow> metric_handle" where
  "with_labels label_values h = (fst h, label_key label_values)"

text \<open>\<open>m[name][key] = f(m[name][key])\<close>, absent cells being created with \<open>zero\<close>; \<open>m[name]\<close> alone.\<close>

definition touch_cell :: "'c \<Rightarrow> ('c \<Rightarrow> 'c) \<Rightarrow> metric_handle \<Rightarrow> 'c flat_map flat_map \<Rightarrow> 'c flat_map flat_map" where
  "touch_cell zero f h m =
     (let cells = (case fm_find m (fst h) of Some cells \<Rightarrow> cells | None \<Rightarrow> []);
          cell = (case fm_find cells (snd h) of Some c \<Rightarrow> c | None \<Rightarrow> zero)
      in fm_set (fst h) (fm_set (snd h) (f cell) cells) m)"

definition touch_name :: "string \<Rightarrow> 'c flat_map flat_map \<Rightarrow> 'c flat_map flat_map" where
  "touch_name name m = fst (fm_emplace name [] m)"

definition new_counter :: "string \<Rightarrow> collector \<Rightarrow> metric_handle \<times> collector" where
  "new_counter name c = ((name, []), c\<lparr>cl_counters := touch_name name (cl_counters c)\<rparr>)"

definition new_gauge :: "string \<Rightarrow> collector \<Rightarrow> metric_handle \<times> collector" where
  "new_gauge name c = ((name, []), c\<lparr>cl_gauges := touch_name name (cl_gauges c)\<rparr>)"

definition new_histogram :: "string \<Rightarrow> collector \<Rightarrow> metric_handle \<times> collector" where
  "new_histogram name c = ((name, []), c\<lparr>cl_histograms := touch_name name (cl_histograms c)\<rparr>)"

definition inc_counter :: "metric_handle \<Rightarrow> collector \<Rightarrow> collector" where
  "inc_counter h c = c\<lparr>cl_counters := touch_cell (DFin False 0) (\<lambda>v. d_add v (DFin False 1)) h (cl_counters c)\<rparr>"

definition set_gauge :: "double \<Rightarrow> metric_handle \<Rightarrow> collector \<Rightarrow> collector" where
  "set_gauge v h c = c\<lparr>cl_gauges := touch_cell (DFin False 0) (\<lambda>_. v) h (cl_gauges c)\<rparr>"

definition add_gauge :: "double \<Rightarrow> metric_handle \<Rightarrow> collector \<Rightarrow> collector" where
  "add_gauge delta h c = c\<lparr>cl_gauges := touch_cell (DFin False 0) (\<lambda>v. d_add v delta) h (cl_gauges c)\<rparr>"

text \<open>\<open>ns\<close> is \<open>llround(value * 1e9)\<close> of the observed seconds.\<close>

definition observe_hist :: "int \<Rightarrow> metric_handle \<Rightarrow> collector \<Rightarrow> collector" where
  "observe_hist ns h c =
     c\<lparr>cl_histograms := touch_cell \<lparr>hist_count = 0, hist_sum_ns = 0\<rparr>
         (\<lambda>cell. cell\<lparr>hist_count := hist_count cell + 1, hist_sum_ns := hist_sum_ns cell + ns\<rparr>) h (cl_histograms c)\<rparr>"

text \<open>An object whose values are text already.\<close>

definition json_members :: "(string \<times> string) list \<Rightarrow> string" where
  "json_members ms = ''{'' @ join '','' (map (\<lambda>(k, v). quoted (json_escape k) @ '':'' @ v) ms) @ ''}''"

definition hist_cell_json :: "hist_cell \<Rightarrow> string" where
  "hist_cell_json cell =
     ''{'' @ quoted ''count'' @ '':'' @ string_of_int (hist_count cell) @ '','' @ quoted ''sum_ns'' @ '':'' @
     string_of_int (hist_sum_ns cell) @ ''}''"

definition cells_json :: "('c \<Rightarrow> string) \<Rightarrow> 'c flat_map flat_map \<Rightarrow> string flat_map \<Rightarrow> string flat_map" where
  "cells_json show_cell m by_name =
     fold (\<lambda>(name, cells). fm_set name (json_members (map (\<lambda>(k, v). (k, show_cell v)) cells))) m by_name"

definition collector_to_json :: "collector \<Rightarrow> string" where
  "collector_to_json c =
     json_members (cells_json hist_cell_json (cl_histograms c)
       (cells_json go_format_json_number (cl_gauges c) (cells_json go_format_json_number (cl_counters c) [])))"

text \<open>
  The provider that fans out: a handle is one of each child, and every call is made on each child.
  What a call does to a child is an argument.
\<close>

definition tee_new :: "('p \<Rightarrow> 'h \<times> 'p) \<Rightarrow> 'p list \<Rightarrow> 'h list \<times> 'p list" where
  "tee_new create ps = (map (fst \<circ> create) ps, map (snd \<circ> create) ps)"

definition tee_with :: "('h \<Rightarrow> 'h) \<Rightarrow> 'h list \<Rightarrow> 'h list" where
  "tee_with narrow hs = map narrow hs"

definition tee_call :: "('h \<Rightarrow> 'p \<Rightarrow> 'p) \<Rightarrow> 'h list \<Rightarrow> 'p list \<Rightarrow> 'p list" where
  "tee_call call hs ps = map (\<lambda>(h, p). call h p) (zip hs ps)"

section \<open>Operator statistics\<close>

record op_stats =
  st_exec_count :: int
  st_skip_count :: int
  st_error_count :: int
  st_total_duration_ns :: int
  st_max_duration_ns :: int

definition new_op_stats :: op_stats where
  "new_op_stats = \<lparr>st_exec_count = 0, st_skip_count = 0, st_error_count = 0, st_total_duration_ns = 0, st_max_duration_ns = 0\<rparr>"

text \<open>\<open>sr_order\<close> is the order the names were first seen in.\<close>

record stats =
  sr_ops :: "op_stats flat_map"
  sr_order :: "string list"

definition new_stats :: stats where
  "new_stats = \<lparr>sr_ops = [], sr_order = []\<rparr>"

definition ensure_op :: "string \<Rightarrow> stats \<Rightarrow> stats" where
  "ensure_op name s =
     (if fm_count (sr_ops s) name > 0 then s
      else s\<lparr>sr_ops := fm_set name new_op_stats (sr_ops s), sr_order := sr_order s @ [name]\<rparr>)"

definition pre_init :: "string list \<Rightarrow> stats \<Rightarrow> stats" where
  "pre_init names s = fold ensure_op names s"

definition get_or_create :: "string \<Rightarrow> stats \<Rightarrow> op_stats \<times> stats" where
  "get_or_create name s =
     (let s = ensure_op name s in (case fm_find (sr_ops s) name of Some st \<Rightarrow> st | None \<Rightarrow> new_op_stats, s))"

definition update_op :: "(op_stats \<Rightarrow> op_stats) \<Rightarrow> string \<Rightarrow> stats \<Rightarrow> stats" where
  "update_op f name s = (let (st, s) = get_or_create name s in s\<lparr>sr_ops := fm_set name (f st) (sr_ops s)\<rparr>)"

definition took :: "int \<Rightarrow> op_stats \<Rightarrow> op_stats" where
  "took ns st = st\<lparr>st_total_duration_ns := st_total_duration_ns st + ns, st_max_duration_ns := max (st_max_duration_ns st) ns\<rparr>"

definition record_exec :: "string \<Rightarrow> int \<Rightarrow> stats \<Rightarrow> stats" where
  "record_exec name ns = update_op (\<lambda>st. took ns (st\<lparr>st_exec_count := st_exec_count st + 1\<rparr>)) name"

definition record_skip :: "string \<Rightarrow> stats \<Rightarrow> stats" where
  "record_skip name = update_op (\<lambda>st. st\<lparr>st_skip_count := st_skip_count st + 1\<rparr>) name"

definition record_error :: "string \<Rightarrow> int \<Rightarrow> stats \<Rightarrow> stats" where
  "record_error name ns = update_op (\<lambda>st. took ns (st\<lparr>st_error_count := st_error_count st + 1\<rparr>)) name"

text \<open>A snapshot is the statistics and the average, which C++ truncates.\<close>

definition stats_snapshot :: "stats \<Rightarrow> (string \<times> op_stats \<times> int) list" where
  "stats_snapshot s =
     concat (map (\<lambda>name. case fm_find (sr_ops s) name of
         Some st \<Rightarrow> [(name, st, if st_exec_count st > 0 then st_total_duration_ns st sdiv st_exec_count st else 0)]
       | None \<Rightarrow> []) (sr_order s))"

section \<open>HTTP statistics\<close>

record http_stats =
  hs_requests :: "int flat_map"
  hs_durations :: "hist_cell flat_map"

definition new_http_stats :: http_stats where
  "new_http_stats = \<lparr>hs_requests = [], hs_durations = []\<rparr>"

definition record_request :: "string \<Rightarrow> string \<Rightarrow> string \<Rightarrow> int \<Rightarrow> http_stats \<Rightarrow> http_stats" where
  "record_request m path status_bucket duration_ns s =
     (let req_key = m @ '' '' @ path @ '' '' @ status_bucket; dur_key = m @ '' '' @ path;
          count = (case fm_find (hs_requests s) req_key of Some n \<Rightarrow> n | None \<Rightarrow> 0);
          cell = (case fm_find (hs_durations s) dur_key of Some c \<Rightarrow> c | None \<Rightarrow> \<lparr>hist_count = 0, hist_sum_ns = 0\<rparr>)
      in s\<lparr>hs_requests := fm_set req_key (count + 1) (hs_requests s),
           hs_durations := fm_set dur_key (cell\<lparr>hist_count := hist_count cell + 1, hist_sum_ns := hist_sum_ns cell + duration_ns\<rparr>)
             (hs_durations s)\<rparr>)"

definition status_bucket :: "int \<Rightarrow> string" where
  "status_bucket code =
     (if code \<ge> 500 then ''5xx'' else if code \<ge> 400 then ''4xx'' else if code \<ge> 300 then ''3xx''
      else if code \<ge> 200 then ''2xx'' else ''other'')"

section \<open>Custom routes\<close>

text \<open>
  A route with its two callbacks, either of which may be missing.  Ingress makes a request or throws;
  egress stages a response from the result or the text of the error.
\<close>

record route_request =
  rr_method :: string
  rr_path :: string
  rr_query :: string
  rr_body :: string

record ('req, 'res) route =
  rt_method :: string
  rt_path :: string
  rt_ingress :: "(route_request \<Rightarrow> error + 'req) option"
  rt_egress :: "(route_request \<Rightarrow> 'res option \<Rightarrow> string \<Rightarrow> http_response) option"

definition k_default_known_paths :: "string list" where
  "k_default_known_paths = [''/execute'', ''/health'', ''/stats'', ''/dag'']"

text \<open>The checks of one route, in order.\<close>

definition check_route :: "('req, 'res) route \<Rightarrow> unit flat_map \<Rightarrow> unit flat_map \<Rightarrow> string option" where
  "check_route r builtins known =
     (if rt_path r = [] \<or> hd (rt_path r) \<noteq> CHR ''/''
      then Some (''custom route path '' @ quoted (rt_path r) @ '' must start with '' @ [CHR 0x27, CHR ''/'', CHR 0x27])
      else if rt_path r = ''/''
      then Some (''custom route path '' @ quoted ''/'' @ '' conflicts with the built-in not-found handler'')
      else if fm_count builtins (rt_path r) \<noteq> 0
      then Some (''custom route '' @ quoted (rt_path r) @ '' conflicts with built-in endpoint'')
      else if fm_count known (rt_path r) \<noteq> 0
      then Some (''duplicate custom route '' @ quoted (rt_path r))
      else if rt_ingress r = None then Some (''custom route '' @ quoted (rt_path r) @ '' has nil Ingress'')
      else if rt_egress r = None then Some (''custom route '' @ quoted (rt_path r) @ '' has nil Egress'')
      else None)"

fun add_routes :: "unit flat_map \<Rightarrow> ('req, 'res) route list \<Rightarrow> unit flat_map \<Rightarrow> unit flat_map \<times> string option" where
  "add_routes builtins [] known = (known, None)"
| "add_routes builtins (r # rs) known =
     (case check_route r builtins known of
        Some err \<Rightarrow> (known, Some err)
      | None \<Rightarrow> add_routes builtins rs (fm_set (rt_path r) () known))"

text \<open>The known paths and the error, if there is one.\<close>

definition validate_routes :: "('req, 'res) route list \<Rightarrow> unit flat_map \<times> string option" where
  "validate_routes routes =
     (let builtins = fold (\<lambda>p. fm_set p ()) k_default_known_paths [] in add_routes builtins routes builtins)"

definition normalize_path :: "string \<Rightarrow> unit flat_map \<Rightarrow> string" where
  "normalize_path path known = (if fm_count known path \<noteq> 0 then path else ''_other'')"

end
