(* ===== verification/Server.thy ===== *)
theory Server
  imports Server_Stats Resource Engine_Checks
begin

text \<open>
  The server (\<open>src/server/server.cpp\<close>, \<open>server.hpp\<close>): executing a request with traces and statistics,
  the handlers, the custom routes, the middleware chain, the loop of a connection and the reload of the
  configuration.  A handler is one step: it returns its response, which the connection then sends, and
  the server as it leaves it.  The engine is a record of its operations, so what is proved holds for
  every engine.
\<close>

section \<open>The engine a server runs\<close>

record op_trace =
  ot_name :: string
  ot_start_time_us :: int
  ot_duration_us :: int
  ot_skipped :: bool
  ot_input_snapshot :: "variant option"
  ot_output_snapshot :: "variant option"

record traced_result =
  tr_result :: result
  tr_trace :: "op_trace list"
  tr_warnings :: "string list"

text \<open>
  \<open>ep_execute\<close> is \<open>execute_traced_into\<close>: what it leaves in its out-parameter and the exception, if it
  throws; its third argument is what happens to the context of the request (the client that goes away,
  the server that stops).
\<close>

record ('e, 'x) engine_ops =
  ep_execute :: "'e \<Rightarrow> request \<Rightarrow> object \<Rightarrow> 'x \<Rightarrow> 'e \<times> traced_result \<times> error option"
  ep_render_dag :: "'e \<Rightarrow> string \<Rightarrow> int \<Rightarrow> error + string"
  ep_custom_stats :: "'e \<Rightarrow> int flat_map flat_map"
  ep_peak_concurrency :: "'e \<Rightarrow> int"

record ('e, 'h) server =
  sv_engine :: "'e option"
  sv_resource_manager :: "'h manager option"
  sv_resource_metrics :: "collector option"
  sv_stats :: "stats option"
  sv_http_stats :: "http_stats option"
  sv_run_count :: int
  sv_reload_count :: int
  sv_reload_error_count :: int
  sv_last_reload_duration_ns :: int
  sv_max_request_body_size :: int
  sv_route_map :: "(request, result) route flat_map"
  sv_known_paths :: "unit flat_map"

section \<open>Executing\<close>

record trace_entry =
  te_name :: string
  te_duration_ms :: double
  te_skipped :: bool
  te_input_snapshot :: "variant option"
  te_output_snapshot :: "variant option"

record execute_result =
  er_result :: result
  er_warnings :: "string list"
  er_trace :: "trace_entry list"
  er_error :: string
  er_is_validation_error :: bool
  er_has_error :: bool
  er_engine_not_loaded :: bool
  er_has_result :: bool

definition empty_result :: result where
  "empty_result = \<lparr>res_common = [], res_items = []\<rparr>"

definition new_execute_result :: execute_result where
  "new_execute_result =
     \<lparr>er_result = empty_result, er_warnings = [], er_trace = [], er_error = [], er_is_validation_error = False,
      er_has_error = False, er_engine_not_loaded = False, er_has_result = False\<rparr>"

definition record_trace :: "op_trace \<Rightarrow> stats \<Rightarrow> stats" where
  "record_trace t = (if ot_skipped t then record_skip (ot_name t) else record_exec (ot_name t) (ot_duration_us t * 1000))"

definition trace_entry_of :: "op_trace \<Rightarrow> trace_entry" where
  "trace_entry_of t =
     \<lparr>te_name = ot_name t, te_duration_ms = d_div (double_of_int (ot_duration_us t)) (DFin False 1000), te_skipped = ot_skipped t,
      te_input_snapshot = ot_input_snapshot t, te_output_snapshot = ot_output_snapshot t\<rparr>"

text \<open>The exception handlers: a validation error has no result, any other keeps the partial one.\<close>

fun with_error :: "error option \<Rightarrow> execute_result \<Rightarrow> execute_result" where
  "with_error None r = r"
| "with_error (Some (ValidationError m)) r =
     r\<lparr>er_has_error := True, er_is_validation_error := True, er_error := what (ValidationError m),
       er_has_result := False, er_result := empty_result\<rparr>"
| "with_error (Some e) r = r\<lparr>er_has_error := True, er_error := what e\<rparr>"

definition resource_snapshot :: "('e, 'h) server \<Rightarrow> object" where
  "resource_snapshot sv = (case sv_resource_manager sv of Some m \<Rightarrow> snapshot m | None \<Rightarrow> [])"

definition execute_with_trace ::
  "('e, 'x) engine_ops \<Rightarrow> 'x \<Rightarrow> request \<Rightarrow> bool \<Rightarrow> ('e, 'h) server \<Rightarrow> execute_result \<times> ('e, 'h) server" where
  "execute_with_trace ep x rq return_trace sv =
     (case sv_engine sv of
        None \<Rightarrow>
          (new_execute_result\<lparr>er_engine_not_loaded := True, er_has_error := True, er_error := ''engine not loaded''\<rparr>, sv)
      | Some e \<Rightarrow>
          let (e, traced, err) = ep_execute ep e rq (resource_snapshot sv) x;
              sv = sv\<lparr>sv_engine := Some e, sv_run_count := sv_run_count sv + 1,
                      sv_stats := map_option (fold record_trace (tr_trace traced)) (sv_stats sv)\<rparr>;
              r = new_execute_result\<lparr>er_result := tr_result traced, er_warnings := tr_warnings traced, er_has_result := True,
                    er_trace := (if return_trace then map trace_entry_of (tr_trace traced) else [])\<rparr>
          in (with_error err r, sv))"

section \<open>The handlers\<close>

definition newline :: string where "newline = [CHR 0x0A]"

definition method_not_allowed :: http_response where "method_not_allowed = error_response 405 ''method not allowed''"
definition not_loaded :: http_response where "not_loaded = error_response 503 ''engine not loaded''"

definition handle_health :: "string \<Rightarrow> http_response" where
  "handle_health m =
     (if m \<noteq> ''GET'' then method_not_allowed
      else json_response 200 (''{'' @ quoted ''status'' @ '':'' @ quoted ''ok'' @ ''}'' @ newline))"

text \<open>A member of a response; \<open>rj\<close> is the third-party JSON writer.\<close>

definition member :: "string \<Rightarrow> string \<Rightarrow> string" where
  "member key v = quoted key @ '':'' @ v"

definition trace_entry_json :: "(writer_call list \<Rightarrow> string) \<Rightarrow> trace_entry \<Rightarrow> string" where
  "trace_entry_json rj t =
     ''{'' @ member ''name'' (quoted (json_escape (te_name t))) @ '','' @
     member ''duration_ms'' (go_format_json_number (te_duration_ms t)) @
     (if te_skipped t then '','' @ member ''skipped'' ''true'' else []) @
     (case te_input_snapshot t of Some v \<Rightarrow> '','' @ member ''input_snapshot'' (rj (write_json_value v)) | None \<Rightarrow> []) @
     (case te_output_snapshot t of Some v \<Rightarrow> '','' @ member ''output_snapshot'' (rj (write_json_value v)) | None \<Rightarrow> []) @ ''}''"

definition execute_response_body :: "(writer_call list \<Rightarrow> string) \<Rightarrow> execute_result \<Rightarrow> string" where
  "execute_response_body rj r =
     ''{'' @
     (if \<not> er_has_result r then member ''common'' ''null'' @ '','' @ member ''items'' ''null''
      else member ''common'' (result_common_to_json rj (res_common (er_result r))) @ '','' @
           member ''items'' (result_items_to_json rj (res_items (er_result r)))) @
     (if er_warnings r = [] then []
      else '','' @ member ''warnings'' (''['' @ join '','' (map (\<lambda>w. quoted (json_escape w)) (er_warnings r)) @ '']'')) @
     (if er_trace r = [] then []
      else '','' @ member ''trace'' (''['' @ join '','' (map (trace_entry_json rj) (er_trace r)) @ '']'')) @
     (if er_has_error r then '','' @ member ''error'' (quoted (json_escape (er_error r))) else []) @ ''}'' @ newline"

text \<open>The request of a body: its common fields, if there are any, and its items.\<close>

definition request_of :: "object \<Rightarrow> bool \<times> request" where
  "request_of ob =
     (let (has_common, common) = (case fm_find ob ''common'' of
            Some (VObj c) \<Rightarrow> (True, c) | Some VNull \<Rightarrow> (False, []) | Some _ \<Rightarrow> (True, []) | None \<Rightarrow> (False, []));
          items = (case fm_find ob ''items'' of
            Some (VArr xs) \<Rightarrow> map (\<lambda>v. case v of VObj it \<Rightarrow> it | _ \<Rightarrow> []) xs | _ \<Rightarrow> [])
      in (has_common, \<lparr>rq_common = common, rq_items = items\<rparr>))"

definition nil_common_response :: http_response where
  "nil_common_response =
     json_response 400 (''{'' @ member ''common'' ''null'' @ '','' @ member ''items'' ''null'' @ '','' @
       member ''error'' (quoted ''pine: validation error: request.Common must not be nil'') @ ''}'' @ newline)"

definition wants_trace :: "request \<Rightarrow> bool" where
  "wants_trace rq = (case fm_find (rq_common rq) ''_return_trace'' of Some (VBool b) \<Rightarrow> b | _ \<Rightarrow> False)"

definition execute_status :: "execute_result \<Rightarrow> int" where
  "execute_status r = (if er_has_error r then if er_is_validation_error r then 400 else 500 else 200)"

definition run_request ::
  "(writer_call list \<Rightarrow> string) \<Rightarrow> ('e, 'x) engine_ops \<Rightarrow> 'x \<Rightarrow> request \<Rightarrow> ('e, 'h) server \<Rightarrow> http_response \<times> ('e, 'h) server" where
  "run_request rj ep x rq sv =
     (let (r, sv) = execute_with_trace ep x rq (wants_trace rq) sv
      in (if er_engine_not_loaded r then not_loaded else json_response (execute_status r) (execute_response_body rj r), sv))"

text \<open>The parser always returns.\<close>

definition handle_execute ::
  "(writer_call list \<Rightarrow> string) \<Rightarrow> ('e, 'x) engine_ops \<Rightarrow> 'x \<Rightarrow> string \<Rightarrow> string \<Rightarrow> int \<Rightarrow> ('e, 'h) server \<Rightarrow>
   http_response \<times> ('e, 'h) server" where
  "handle_execute rj ep x m body content_length sv =
     (if m \<noteq> ''POST'' then (method_not_allowed, sv)
      else if sv_engine sv = None then (not_loaded, sv)
      else if content_length > sv_max_request_body_size sv then (error_response 413 ''request body too large'', sv)
      else case parse_json body of
        Some (Inr (VObj ob)) \<Rightarrow>
          (case request_of ob of
             (False, _) \<Rightarrow> (nil_common_response, sv)
           | (True, rq) \<Rightarrow> run_request rj ep x rq sv)
      | Some (Inr _) \<Rightarrow> (error_response 400 ''invalid request: expected JSON object'', sv)
      | Some (Inl e) \<Rightarrow> (error_response 400 (''invalid request: '' @ what e), sv)
      | None \<Rightarrow> (error_response 400 ''invalid request: '', sv))"

definition op_stats_json :: "op_stats \<Rightarrow> int \<Rightarrow> string" where
  "op_stats_json st avg =
     ''{'' @ join '','' [member ''exec_count'' (string_of_int (st_exec_count st)), member ''skip_count'' (string_of_int (st_skip_count st)),
       member ''error_count'' (string_of_int (st_error_count st)), member ''total_duration_ns'' (string_of_int (st_total_duration_ns st)),
       member ''max_duration_ns'' (string_of_int (st_max_duration_ns st)), member ''avg_duration_ns'' (string_of_int avg)] @ ''}''"

definition operators_json :: "stats \<Rightarrow> string" where
  "operators_json st = json_members (map (\<lambda>(name, s, avg). (name, op_stats_json s avg)) (sort_key fst (stats_snapshot st)))"

definition scheduler_json :: "('e, 'x) engine_ops \<Rightarrow> ('e, 'h) server \<Rightarrow> string" where
  "scheduler_json ep sv =
     ''{'' @ member ''run_count'' (string_of_int (sv_run_count sv)) @ '','' @
     member ''peak_concurrency'' (string_of_int (case sv_engine sv of Some e \<Rightarrow> ep_peak_concurrency ep e | None \<Rightarrow> 0)) @ ''}''"

definition server_json :: "('e, 'h) server \<Rightarrow> string" where
  "server_json sv =
     json_members (map (\<lambda>(k, v). (k, string_of_int v)) (fold (\<lambda>(k, v). fm_set k v)
       [(''reload_count'', sv_reload_count sv), (''reload_error_count'', sv_reload_error_count sv),
        (''last_reload_duration_ns'', sv_last_reload_duration_ns sv)] []))"

definition http_json :: "http_stats \<Rightarrow> string" where
  "http_json h =
     ''{'' @ member ''request_duration_seconds'' (json_members (map (\<lambda>(k, c). (k, hist_cell_json c)) (hs_durations h))) @ '','' @
     member ''requests_total'' (json_members (map (\<lambda>(k, n). (k, string_of_int n)) (hs_requests h))) @ ''}''"

definition operator_detail_json :: "int flat_map flat_map \<Rightarrow> string" where
  "operator_detail_json custom =
     json_members (map (\<lambda>(op, st). (op, json_members (map (\<lambda>(k, v). (k, string_of_int v)) st))) custom)"

definition stats_members :: "('e, 'x) engine_ops \<Rightarrow> stats \<Rightarrow> ('e, 'h) server \<Rightarrow> string flat_map" where
  "stats_members ep st sv =
     (let ms = fold (\<lambda>(k, v). fm_set k v)
            [(''operators'', operators_json st), (''scheduler'', scheduler_json ep sv), (''server'', server_json sv)] [];
          ms = (case sv_http_stats sv of Some h \<Rightarrow> fm_set ''http'' (http_json h) ms | None \<Rightarrow> ms);
          ms = (case sv_resource_metrics sv of Some c \<Rightarrow> fm_set ''resources'' (collector_to_json c) ms | None \<Rightarrow> ms)
      in case sv_engine sv of
           Some e \<Rightarrow> if ep_custom_stats ep e = [] then ms
                     else fm_set ''operator_detail'' (operator_detail_json (ep_custom_stats ep e)) ms
         | None \<Rightarrow> ms)"

definition handle_stats :: "('e, 'x) engine_ops \<Rightarrow> string \<Rightarrow> ('e, 'h) server \<Rightarrow> http_response" where
  "handle_stats ep m sv =
     (if m \<noteq> ''GET'' then method_not_allowed
      else case sv_stats sv of None \<Rightarrow> not_loaded
      | Some st \<Rightarrow> json_response 200 (json_members (stats_members ep st sv) @ newline))"

definition bad_collapse :: http_response where
  "bad_collapse = error_response 400 ''collapse must be a non-negative integer''"

definition handle_dag :: "('e, 'x) engine_ops \<Rightarrow> string \<Rightarrow> string \<Rightarrow> ('e, 'h) server \<Rightarrow> http_response" where
  "handle_dag ep m query_string sv =
     (if m \<noteq> ''GET'' then method_not_allowed
      else case sv_engine sv of None \<Rightarrow> not_loaded
      | Some e \<Rightarrow>
          let format = url_decode_query_param query_string ''format'';
              format = (if format = [] then ''dot'' else format);
              collapse_str = url_decode_query_param query_string ''collapse''
          in case (if collapse_str = [] then Inr 0 else stoi collapse_str) of
               Inl _ \<Rightarrow> bad_collapse
             | Inr collapse \<Rightarrow>
                 if collapse < 0 then bad_collapse
                 else case ep_render_dag ep e format collapse of
                   Inl err \<Rightarrow> error_response 400 (what err)
                 | Inr out \<Rightarrow>
                     \<lparr>ht_status = 200,
                      ht_content_type = (if format = ''dot'' then ''text/vnd.graphviz; charset=utf-8'' else ''text/plain; charset=utf-8''),
                      ht_body = out\<rparr>)"

definition handle_not_found :: http_response where
  "handle_not_found = error_response 404 ''not found''"

text \<open>A route in the map has both callbacks: \<open>validate_routes\<close> accepted it.\<close>

definition handle_custom_route ::
  "('e, 'x) engine_ops \<Rightarrow> 'x \<Rightarrow> (request, result) route \<Rightarrow> route_request \<Rightarrow> ('e, 'h) server \<Rightarrow> http_response \<times> ('e, 'h) server" where
  "handle_custom_route ep x r rq sv =
     (if rt_method r \<noteq> [] \<and> rr_method rq \<noteq> rt_method r then (method_not_allowed, sv)
      else case the (rt_ingress r) rq of
        Inl e \<Rightarrow> (the (rt_egress r) rq None (what e), sv)
      | Inr req \<Rightarrow>
          let (res, sv) = execute_with_trace ep x req False sv
          in (if er_has_error res then the (rt_egress r) rq None (er_error res)
              else the (rt_egress r) rq (Some (er_result res)) [], sv))"

definition dispatch ::
  "(writer_call list \<Rightarrow> string) \<Rightarrow> ('e, 'x) engine_ops \<Rightarrow> 'x \<Rightarrow> http_request \<Rightarrow> ('e, 'h) server \<Rightarrow> http_response \<times> ('e, 'h) server" where
  "dispatch rj ep x req sv =
     (if hr_path req = ''/health'' then (handle_health (hr_method req), sv)
      else if hr_path req = ''/execute'' then handle_execute rj ep x (hr_method req) (hr_body req) (hr_content_length req) sv
      else if hr_path req = ''/stats'' then (handle_stats ep (hr_method req) sv, sv)
      else if hr_path req = ''/dag'' then (handle_dag ep (hr_method req) (hr_query_string req) sv, sv)
      else case fm_find (sv_route_map sv) (hr_path req) of
        Some r \<Rightarrow> handle_custom_route ep x r
            \<lparr>rr_method = hr_method req, rr_path = hr_path req, rr_query = hr_query_string req, rr_body = hr_body req\<rparr> sv
      | None \<Rightarrow> (handle_not_found, sv))"

end
