(* ===== verification/Server_Loop.thy ===== *)
theory Server_Loop
  imports Server Engine
begin

text \<open>
  The connection of a client and the life of the server (\<open>src/server/server.cpp\<close>): the middleware
  chain, the keep-alive loop, loading and reloading the configuration.  A connection is a list of
  segments to receive and what was sent; the requests of a connection are served one after another.
\<close>

section \<open>Middlewares\<close>

record mw_context =
  mw_method :: string
  mw_path :: string
  mw_normalized_path :: string
  mw_request_bytes :: int
  mw_status :: int
  mw_keep_alive :: bool

text \<open>What a handler works on: the context of the request, the server and the connection.\<close>

record ('e, 'h) exchange =
  xc_context :: mw_context
  xc_server :: "('e, 'h) server"
  xc_conn :: http_conn

type_synonym ('e, 'h) handler = "('e, 'h) exchange \<Rightarrow> ('e, 'h) exchange"
type_synonym ('e, 'h) middleware = "('e, 'h) handler \<Rightarrow> ('e, 'h) handler"

text \<open>\<open>send_response\<close> under the context of a request.\<close>

definition respond :: "http_response \<Rightarrow> ('e, 'h) handler" where
  "respond r xc =
     xc\<lparr>xc_context := (xc_context xc)\<lparr>mw_status := ht_status r\<rparr>,
        xc_conn := send_response (mw_keep_alive (xc_context xc)) r (xc_conn xc)\<rparr>"

definition dispatch_handler ::
  "(writer_call list \<Rightarrow> string) \<Rightarrow> ('e, 'x) engine_ops \<Rightarrow> 'x \<Rightarrow> http_request \<Rightarrow> ('e, 'h) handler" where
  "dispatch_handler rj ep x req xc =
     (let (r, sv) = dispatch rj ep x req (xc_server xc) in respond r (xc\<lparr>xc_server := sv\<rparr>))"

text \<open>The middleware the server installs; the counters of the external provider are not modelled.\<close>

definition http_metrics_middleware :: "int \<Rightarrow> ('e, 'h) middleware" where
  "http_metrics_middleware duration_ns next xc =
     (let xc = next xc; c = xc_context xc; sv = xc_server xc
      in xc\<lparr>xc_server := sv\<lparr>sv_http_stats :=
            map_option (record_request (mw_method c) (mw_normalized_path c) (status_bucket (mw_status c)) duration_ns) (sv_http_stats sv)\<rparr>\<rparr>)"

definition chain :: "('e, 'h) middleware list \<Rightarrow> ('e, 'h) handler \<Rightarrow> ('e, 'h) handler" where
  "chain mws handler = foldr (\<lambda>mw next. mw next) mws handler"

section \<open>The connection\<close>

definition keep_alive :: "http_request \<Rightarrow> bool" where
  "keep_alive req =
     (if hr_http_version req = ''HTTP/1.0'' then hr_connection_keep_alive req \<and> \<not> hr_connection_close req
      else \<not> hr_connection_close req)"

definition new_context :: "unit flat_map \<Rightarrow> http_request \<Rightarrow> mw_context" where
  "new_context known req =
     \<lparr>mw_method = hr_method req, mw_path = hr_path req, mw_normalized_path = normalize_path (hr_path req) known,
      mw_request_bytes = (if hr_content_length req > 0 then hr_content_length req else 0), mw_status = 200,
      mw_keep_alive = keep_alive req\<rparr>"

definition close_conn :: "http_conn \<Rightarrow> http_conn" where
  "close_conn c = c\<lparr>hc_open := False\<rparr>"

text \<open>One request: whether the loop goes on, the server and the connection.\<close>

definition serve_request ::
  "(writer_call list \<Rightarrow> string) \<Rightarrow> ('e, 'x) engine_ops \<Rightarrow> ('e, 'h) middleware list \<Rightarrow> 'x \<Rightarrow> http_request \<Rightarrow>
   ('e, 'h) server \<Rightarrow> http_conn \<Rightarrow> bool \<times> ('e, 'h) server \<times> http_conn" where
  "serve_request rj ep mws x req sv c =
     (if hr_content_length req = - 2
      then (False, sv, close_conn (send_response False (error_response 400 ''invalid Content-Length header'') c))
      else if hr_content_length req > sv_max_request_body_size sv
      then (False, sv, close_conn (send_response False (error_response 413 ''request body too large'') c))
      else let xc = chain mws (dispatch_handler rj ep x req)
                      \<lparr>xc_context = new_context (sv_known_paths sv) req, xc_server = sv, xc_conn = c\<rparr>
           in if \<not> keep_alive req then (False, xc_server xc, close_conn (xc_conn xc))
              else (True, xc_server xc, xc_conn xc))"

lemma recv_headers_consumes:
  "recv_headers buf ss = (Some bi, ss') \<Longrightarrow> length (concat ss') < length (concat ss)"
proof (induction buf ss arbitrary: ss' rule: recv_headers.induct)
  case (1 buf ss)
  obtain chunk ss1 where c: "net_recv 4096 ss = (chunk, ss1)" by fastforce
  have less: "chunk \<noteq> [] \<Longrightarrow> length (concat ss1) < length (concat ss)"
    using net_recv_bytes [OF c] by (cases chunk) simp_all
  from "1.prems" show ?case
    using less "1.IH" [OF c [symmetric] refl]
    by (subst (asm) recv_headers.simps) (force simp: c Let_def split: if_splits option.splits)
qed

lemma recv_body_consumes: "length (concat (snd (recv_body hard_cap body need ss))) \<le> length (concat ss)"
proof (induction hard_cap body need ss rule: recv_body.induct)
  case (1 hard_cap body need ss)
  let ?want = "min (min 4096 (nat need)) (nat (hard_cap - int (length body)))"
  obtain chunk ss1 where c: "net_recv ?want ss = (chunk, ss1)" by fastforce
  show ?case
    using net_recv_bytes [OF c] "1.IH" [OF _ refl c [symmetric] refl]
    by (subst recv_body.simps) (auto simp: c Let_def)
qed

lemma read_http_request_consumes:
  assumes "read_http_request max_body_size ss = (Some req, ss')"
  shows "length (concat ss') < length (concat ss)"
proof -
  obtain hd ss1 where h: "recv_headers [] ss = (hd, ss1)" by fastforce
  then obtain b i where hd: "hd = Some (b, i)" using assms by (cases hd) (auto simp: read_http_request_def)
  have "length (concat ss') \<le> length (concat ss1)"
  proof (cases "parse_head b i")
    case (Some rq)
    obtain r bad where rq: "rq = (r, bad)" by fastforce
    let ?far = "drop (i + 4) b"
    obtain body ss2 where body: "recv_body (max_body_size + 1) ?far (hr_content_length r - int (length ?far)) ss1 = (body, ss2)" by fastforce
    have "length (concat ss2) \<le> length (concat ss1)"
      using recv_body_consumes [of "max_body_size + 1" ?far "hr_content_length r - int (length ?far)" ss1] by (simp only: body snd_conv)
    with assms show ?thesis
      unfolding read_http_request_def h hd prod.case option.case Some rq Let_def body by (cases bad) (auto split: if_splits)
  qed (use assms in \<open>simp add: read_http_request_def h hd\<close>)
  with recv_headers_consumes [OF h [unfolded hd]] show ?thesis by simp
qed

text \<open>
  The loop: \<open>env\<close> gives, for each request of the connection, what happens to its context and the
  middlewares with the time the server's own one measures.
\<close>

function serve_connection ::
  "(writer_call list \<Rightarrow> string) \<Rightarrow> ('e, 'x) engine_ops \<Rightarrow> (nat \<Rightarrow> ('e, 'h) middleware list \<times> 'x) \<Rightarrow> nat \<Rightarrow> string list \<Rightarrow>
   ('e, 'h) server \<Rightarrow> http_conn \<Rightarrow> ('e, 'h) server \<times> http_conn" where
  "serve_connection rj ep env n ss sv c =
     (case read_http_request (sv_max_request_body_size sv) ss of
        (None, _) \<Rightarrow> (sv, close_conn c)
      | (Some req, ss') \<Rightarrow>
          (case serve_request rj ep (fst (env n)) (snd (env n)) req sv c of
             (True, sv, c) \<Rightarrow> serve_connection rj ep env (Suc n) ss' sv c
           | (False, sv, c) \<Rightarrow> (sv, c)))"
  by pat_completeness auto
termination
  by (relation "measure (\<lambda>(rj, ep, env, n, ss, sv, c). length (concat ss))")
    (auto dest!: sym [of "(_, _)"] read_http_request_consumes simp del: length_concat)

declare serve_connection.simps [simp del]

section \<open>Loading and reloading\<close>

text \<open>
  How a server builds what it serves: the file as it is, the factories of the resources, the engine on a
  configuration, and closing an engine.
\<close>

record ('e, 'h) builder =
  bd_load_config :: "error + config"
  bd_factories :: "'h fetcher_factory flat_map"
  bd_engine :: "config \<Rightarrow> error + 'e"
  bd_close :: "'e \<Rightarrow> 'e"
  bd_now :: int

text \<open>A started manager for a configuration and the engine on it.\<close>

definition build_pair :: "('e, 'h) builder \<Rightarrow> config \<Rightarrow> error + 'h manager \<times> 'e" where
  "build_pair bd cfg =
     (case mthen (load_from_config (bd_factories bd) True cfg)
             (mthen (validate_resource_deps cfg) (start_manager (bd_now bd))) new_manager of
        (m, Inl e) \<Rightarrow> Inl e
      | (m, Inr _) \<Rightarrow> rbind (bd_engine bd cfg) (\<lambda>e. Inr (m, e)))"

text \<open>
  \<open>reload_config\<close>: whether it succeeded, and what was retired: the old engine, closed, and the old
  manager, stopped, in this order.
\<close>

definition reload_config ::
  "('e, 'h) builder \<Rightarrow> ('e, 'h) server \<Rightarrow> (bool \<times> 'e option \<times> 'h manager option) \<times> ('e, 'h) server" where
  "reload_config bd sv =
     (case rbind (bd_load_config bd) (\<lambda>cfg. rbind (build_pair bd cfg) (\<lambda>pair.
             rbind (expand_operator_sequence cfg) (\<lambda>ex. Inr (pair, ex)))) of
        Inl e \<Rightarrow> ((False, None, None), sv)
      | Inr ((m, e), ex) \<Rightarrow>
          ((True, map_option (bd_close bd) (sv_engine sv), map_option stop_manager (sv_resource_manager sv)),
           sv\<lparr>sv_engine := Some e, sv_resource_manager := Some m, sv_resource_metrics := Some new_collector,
              sv_stats := map_option (pre_init (ex_sequence ex)) (sv_stats sv)\<rparr>))"

text \<open>
  One round of \<open>watch_config\<close>: the modification time, if the file can be examined, the last one seen and
  how long a reload takes.
\<close>

definition watch_round ::
  "('e, 'h) builder \<Rightarrow> int option \<Rightarrow> int \<Rightarrow> int \<times> ('e, 'h) server \<Rightarrow> int \<times> ('e, 'h) server" where
  "watch_round bd mtime duration_ns st =
     (case st of (last_mod, sv) \<Rightarrow>
      case mtime of None \<Rightarrow> (last_mod, sv)
      | Some t \<Rightarrow>
          if t \<le> last_mod then (last_mod, sv)
          else case reload_config bd sv of
            ((True, _), sv) \<Rightarrow> (t, sv\<lparr>sv_reload_count := sv_reload_count sv + 1, sv_last_reload_duration_ns := duration_ns\<rparr>)
          | ((False, _), sv) \<Rightarrow> (t, sv\<lparr>sv_reload_error_count := sv_reload_error_count sv + 1\<rparr>))"

text \<open>What \<open>run\<close> sets up before it listens; an error ends it with status 1.\<close>

definition init_server ::
  "('e, 'h) builder \<Rightarrow> string \<Rightarrow> (request, result) route list \<Rightarrow> int \<Rightarrow> string + ('e, 'h) server" where
  "init_server bd config_path routes max_request_body_size =
     (if config_path = [] then Inl ''usage: pineapple-server -config <path-to-config.json>''
      else case validate_routes routes of
        (_, Some err) \<Rightarrow> Inl err
      | (known, None) \<Rightarrow>
          (case rbind (bd_load_config bd) (\<lambda>cfg. rbind (build_pair bd cfg) (\<lambda>(m, e). Inr (cfg, m, e))) of
             Inl e \<Rightarrow> Inl (''failed to load engine/resources: '' @ what e)
           | Inr (cfg, m, e) \<Rightarrow>
               Inr \<lparr>sv_engine = Some e, sv_resource_manager = Some m, sv_resource_metrics = Some new_collector,
                 sv_stats = Some (case expand_operator_sequence cfg of
                     Inr ex \<Rightarrow> pre_init (ex_sequence ex) new_stats | Inl _ \<Rightarrow> new_stats),
                 sv_http_stats = Some new_http_stats, sv_run_count = 0, sv_reload_count = 0, sv_reload_error_count = 0,
                 sv_last_reload_duration_ns = 0, sv_max_request_body_size = max_request_body_size,
                 sv_route_map = fold (\<lambda>r. fm_set (rt_path r) r) routes [], sv_known_paths = known\<rparr>))"

end
