(* ===== verification/Server_Theorems.thy ===== *)
theory Server_Theorems
  imports Server_Loop Resource_Theorems Json_Theorems
begin

text \<open>
  What the server promises: what \<open>/execute\<close> answers, which routes are accepted and where requests go,
  that the operators of the configuration being served find their resources across reloads, and what a
  connection writes.
\<close>

section \<open>\<open>/execute\<close>\<close>

text \<open>When the engine runs, and on what.\<close>

definition runs :: "string \<Rightarrow> string \<Rightarrow> int \<Rightarrow> ('e, 'h) server \<Rightarrow> 'e \<Rightarrow> request \<Rightarrow> bool" where
  "runs m body content_length sv e rq \<longleftrightarrow>
     m = ''POST'' \<and> sv_engine sv = Some e \<and> content_length \<le> sv_max_request_body_size sv \<and>
     (\<exists>ob. parse_json body = Some (Inr (VObj ob)) \<and> request_of ob = (True, rq))"

fun status_of_error :: "error option \<Rightarrow> int" where
  "status_of_error None = 200"
| "status_of_error (Some (ValidationError m)) = 400"
| "status_of_error (Some e) = 500"

lemma with_error_unfold:
  "with_error err r = (case err of None \<Rightarrow> r
     | Some e \<Rightarrow> if status_of_error err = 400
        then r\<lparr>er_has_error := True, er_is_validation_error := True, er_error := what e, er_has_result := False, er_result := empty_result\<rparr>
        else r\<lparr>er_has_error := True, er_error := what e\<rparr>)"
  by (cases "(err, r)" rule: with_error.cases) (simp_all del: what.simps)

lemma status_of_error_cases: "status_of_error err \<in> {200, 400, 500} \<and> (status_of_error err = 200 \<longleftrightarrow> err = None)"
  by (cases err rule: status_of_error.cases) simp_all

lemma with_error_status:
  assumes "\<not> er_has_error r" "\<not> er_is_validation_error r"
  shows "execute_status (with_error err r) = status_of_error err"
    and "er_engine_not_loaded (with_error err r) = er_engine_not_loaded r"
  using assms status_of_error_cases [of err] by (auto simp: with_error_unfold execute_status_def split: option.split)

text \<open>
  What \<open>/execute\<close> answers.  If the method, the engine, the length and the body allow it, the engine
  runs once, on the request the body holds and the resources of this moment: the status is 200, 400 or
  500 as it returns, rejects the request or fails, the body reports its result, warnings and error, the
  run is counted and the statistics of every operator in the trace move.  In every other case nothing is
  run, the server is as before and the status says why: 405, 503, 413 or 400.
\<close>

theorem execute_contract:
  "(\<forall>e rq e' tr err. runs m body content_length sv e rq \<longrightarrow> ep_execute ep e rq (resource_snapshot sv) x = (e', tr, err) \<longrightarrow>
      handle_execute rj ep x m body content_length sv =
        (json_response (status_of_error err) (execute_response_body rj (with_error err (new_execute_result\<lparr>
            er_result := tr_result tr, er_warnings := tr_warnings tr, er_has_result := True,
            er_trace := (if wants_trace rq then map trace_entry_of (tr_trace tr) else [])\<rparr>))),
         sv\<lparr>sv_engine := Some e', sv_run_count := sv_run_count sv + 1,
            sv_stats := map_option (fold record_trace (tr_trace tr)) (sv_stats sv)\<rparr>)) \<and>
   ((\<nexists>e rq. runs m body content_length sv e rq) \<longrightarrow>
      snd (handle_execute rj ep x m body content_length sv) = sv \<and>
      ht_status (fst (handle_execute rj ep x m body content_length sv)) =
        (if m \<noteq> ''POST'' then 405 else if sv_engine sv = None then 503
         else if content_length > sv_max_request_body_size sv then 413 else 400))"
proof (intro conjI allI impI)
  fix e rq e' tr err
  assume "runs m body content_length sv e rq" and ep: "ep_execute ep e rq (resource_snapshot sv) x = (e', tr, err)"
  then obtain ob where ob: "parse_json body = Some (Inr (VObj ob))" "request_of ob = (True, rq)"
    and ok: "m = ''POST''" "sv_engine sv = Some e" "\<not> content_length > sv_max_request_body_size sv"
    by (auto simp: runs_def)
  have run: "handle_execute rj ep x m body content_length sv = run_request rj ep x rq sv"
    unfolding handle_execute_def ob by (simp add: ok ob)
  show "handle_execute rj ep x m body content_length sv =
        (json_response (status_of_error err) (execute_response_body rj (with_error err (new_execute_result\<lparr>
            er_result := tr_result tr, er_warnings := tr_warnings tr, er_has_result := True,
            er_trace := (if wants_trace rq then map trace_entry_of (tr_trace tr) else [])\<rparr>))),
         sv\<lparr>sv_engine := Some e', sv_run_count := sv_run_count sv + 1,
            sv_stats := map_option (fold record_trace (tr_trace tr)) (sv_stats sv)\<rparr>)"
    unfolding run run_request_def execute_with_trace_def ok(2) option.case ep Let_def prod.case
    by (simp add: with_error_status new_execute_result_def)
next
  assume no: "\<nexists>e rq. runs m body content_length sv e rq"
  show "snd (handle_execute rj ep x m body content_length sv) = sv"
    using no by (auto simp: runs_def handle_execute_def split: option.split sum.split variant.split bool.split prod.split)
  show "ht_status (fst (handle_execute rj ep x m body content_length sv)) =
        (if m \<noteq> ''POST'' then 405 else if sv_engine sv = None then 503
         else if content_length > sv_max_request_body_size sv then 413 else 400)"
    using no by (auto simp: runs_def handle_execute_def method_not_allowed_def not_loaded_def error_response_def json_response_def
        nil_common_response_def split: option.split sum.split variant.split bool.split prod.split)
qed

section \<open>Routes\<close>

definition route_ok :: "('req, 'res) route \<Rightarrow> bool" where
  "route_ok r \<longleftrightarrow> rt_path r \<noteq> [] \<and> hd (rt_path r) = CHR ''/'' \<and> rt_path r \<noteq> ''/'' \<and> rt_path r \<notin> set k_default_known_paths \<and>
     rt_ingress r \<noteq> None \<and> rt_egress r \<noteq> None"

definition known_builtins :: "unit flat_map" where
  "known_builtins = fold (\<lambda>p. fm_set p ()) k_default_known_paths []"

lemma fold_set_known: "fm_ok m \<Longrightarrow> fm_ok (fold (\<lambda>p. fm_set p ()) ps m) \<and> (fm_find (fold (\<lambda>p. fm_set p ()) ps m) k \<noteq> None \<longleftrightarrow> fm_find m k \<noteq> None \<or> k \<in> set ps)"
  by (induction ps arbitrary: m) (auto simp: fm_ok_fm_set fm.lookup_put)

lemma known_builtins: "fm_ok known_builtins" "fm_find known_builtins k \<noteq> None \<longleftrightarrow> k \<in> set k_default_known_paths"
  using fold_set_known [of "[]" k_default_known_paths k] by (simp_all add: known_builtins_def fm_find_def fm_hit_def)

lemma fm_count_pos: "fm_count m k \<noteq> 0 \<longleftrightarrow> fm_find m k \<noteq> None"
  by (simp add: fm_count_def)

lemma check_route_ok:
  "check_route r known_builtins known = None \<longleftrightarrow> route_ok r \<and> fm_find known (rt_path r) = None"
  unfolding check_route_def fm_count_pos known_builtins(2) route_ok_def
  by (cases "fm_find known (rt_path r)") auto

lemma add_routes_ok:
  assumes "fm_ok known"
  shows "snd (add_routes known_builtins rs known) = None \<longleftrightarrow>
    (\<forall>r \<in> set rs. route_ok r \<and> fm_find known (rt_path r) = None) \<and> distinct (map rt_path rs)"
  using assms
proof (induction rs arbitrary: known)
  case (Cons r rs)
  have "fm_ok (fm_set (rt_path r) () known)" using Cons.prems by (rule fm_ok_fm_set)
  note IH = Cons.IH [OF this]
  show ?case
  proof (cases "check_route r known_builtins known")
    case None
    then have r: "route_ok r" "fm_find known (rt_path r) = None" by (simp_all add: check_route_ok)
    have "(\<forall>q \<in> set rs. route_ok q \<and> fm_find (fm_set (rt_path r) () known) (rt_path q) = None) \<longleftrightarrow>
        (\<forall>q \<in> set rs. route_ok q \<and> fm_find known (rt_path q) = None) \<and> rt_path r \<notin> rt_path ` set rs"
      by (simp add: fm.lookup_put [OF Cons.prems] image_iff ball_conj_distrib eq_commute [of "rt_path r"] cong: conj_cong) (simp only: conj_ac)
    then have "snd (add_routes known_builtins (r # rs) known) = None \<longleftrightarrow>
        ((\<forall>q \<in> set rs. route_ok q \<and> fm_find known (rt_path q) = None) \<and> rt_path r \<notin> rt_path ` set rs) \<and> distinct (map rt_path rs)"
      unfolding add_routes.simps None option.case IH by simp
    then show ?thesis using r by simp
  next
    case (Some err)
    then have "\<not> (route_ok r \<and> fm_find known (rt_path r) = None)" using check_route_ok [of r known] by simp
    then show ?thesis by (auto simp: Some)
  qed
qed simp

lemma add_routes_known:
  assumes "fm_ok known" "add_routes known_builtins rs known = (known', None)"
  shows "fm_find known' k \<noteq> None \<longleftrightarrow> fm_find known k \<noteq> None \<or> k \<in> rt_path ` set rs"
  using assms
proof (induction rs arbitrary: known)
  case (Cons r rs)
  have "fm_ok (fm_set (rt_path r) () known)" using Cons.prems(1) by (rule fm_ok_fm_set)
  from Cons.IH [OF this] Cons.prems show ?case
    by (auto simp: fm.lookup_put [OF Cons.prems(1)] split: option.splits if_splits)
qed simp

lemma route_map_find:
  assumes "distinct (map rt_path rs)" "fm_ok m"
  shows "fm_find (fold (\<lambda>r. fm_set (rt_path r) r) rs m) k = (case find (\<lambda>r. rt_path r = k) rs of Some r \<Rightarrow> Some r | None \<Rightarrow> fm_find m k)"
  using assms
proof (induction rs arbitrary: m)
  case (Cons r rs)
  note IH = Cons.IH [OF _ fm_ok_fm_set [OF Cons.prems(2), of "rt_path r" r]]
  have "rt_path q \<noteq> rt_path r" if "q \<in> set rs" for q
    using Cons.prems(1) that by (metis distinct.simps(2) imageI list.set_map list.simps(9))
  then have "find (\<lambda>q. rt_path q = rt_path r) rs = None" by (simp add: find_None_iff)
  then show ?case using IH Cons.prems(1)
    by (cases "k = rt_path r") (auto simp: fm.lookup_put [OF Cons.prems(2)] split: option.split)
qed simp

lemma validate_routes_ok:
  "snd (validate_routes rs) = None \<longleftrightarrow> (\<forall>r \<in> set rs. route_ok r) \<and> distinct (map rt_path rs)"
proof -
  have new: "fm_find known_builtins (rt_path r) = None" if "route_ok r" for r :: "('a, 'b) route"
    using that known_builtins(2) [of "rt_path r"] unfolding route_ok_def by meson
  have "(\<forall>r \<in> set rs. route_ok r \<and> fm_find known_builtins (rt_path r) = None) \<longleftrightarrow> (\<forall>r \<in> set rs. route_ok r)"
    using new by (simp cong: conj_cong)
  then show ?thesis
    unfolding validate_routes_def Let_def known_builtins_def [symmetric] add_routes_ok [OF known_builtins(1)] by simp
qed

lemma validate_routes_known:
  assumes "validate_routes rs = (known, None)"
  shows "normalize_path p known = (if p \<in> set k_default_known_paths \<union> rt_path ` set rs then p else ''_other'')"
proof -
  have "add_routes known_builtins rs known_builtins = (known, None)"
    using assms by (simp add: validate_routes_def known_builtins_def Let_def)
  from add_routes_known [OF known_builtins(1) this, of p]
  show ?thesis unfolding normalize_path_def fm_count_pos known_builtins(2) by simp
qed

section \<open>What a handler leaves alone\<close>

definition same_set_up :: "('e, 'h) server \<Rightarrow> ('e, 'h) server \<Rightarrow> bool" where
  "same_set_up sv sv' \<longleftrightarrow>
     sv_resource_manager sv' = sv_resource_manager sv \<and> sv_route_map sv' = sv_route_map sv \<and>
     sv_known_paths sv' = sv_known_paths sv \<and> sv_max_request_body_size sv' = sv_max_request_body_size sv \<and>
     sv_http_stats sv' = sv_http_stats sv \<and> (sv_engine sv' = None \<longleftrightarrow> sv_engine sv = None)"

lemma same_set_up_refl [simp]: "same_set_up sv sv"
  by (simp add: same_set_up_def)

lemma execute_with_trace_set_up: "same_set_up sv (snd (execute_with_trace ep x rq return_trace sv))"
  by (simp add: execute_with_trace_def same_set_up_def Let_def split: option.split prod.split)

lemma run_request_set_up: "same_set_up sv (snd (run_request rj ep x rq sv))"
  using execute_with_trace_set_up [of sv ep x rq "wants_trace rq"]
  by (auto simp: run_request_def Let_def split: prod.split)

lemma handle_execute_runs:
  "snd (handle_execute rj ep x m body content_length sv) = sv \<or>
   (\<exists>rq. snd (handle_execute rj ep x m body content_length sv) = snd (run_request rj ep x rq sv))"
  by (auto simp: handle_execute_def split: option.split sum.split variant.split bool.split prod.split)

lemma handle_custom_route_set_up: "same_set_up sv (snd (handle_custom_route ep x r rq sv))"
proof (cases "the (rt_ingress r) rq")
  case (Inr req)
  then show ?thesis using execute_with_trace_set_up [of sv ep x req False]
    by (auto simp: handle_custom_route_def Let_def split: prod.split)
qed (simp add: handle_custom_route_def)

lemma dispatch_set_up: "same_set_up sv (snd (dispatch rj ep x req sv))"
  using handle_execute_runs [of rj ep x "hr_method req" "hr_body req" "hr_content_length req" sv] run_request_set_up [of sv]
    handle_custom_route_set_up [of sv]
  unfolding dispatch_def by (auto split: option.split)

section \<open>The life of a server\<close>

text \<open>
  \<open>serving ep routes cfg sv\<close>: a server that runs engines with the operations \<open>ep\<close>, with these routes, whose
  last configuration to load was \<open>cfg\<close>.
\<close>

inductive serving ::
  "('e, 'x) engine_ops \<Rightarrow> (request, result) route list \<Rightarrow> config \<Rightarrow> ('e, 'h) server \<Rightarrow> bool" for ep routes where
  started: "init_server bd path routes max_body = Inr sv \<Longrightarrow> bd_load_config bd = Inr cfg \<Longrightarrow> serving ep routes cfg sv"
| requested: "serving ep routes cfg sv \<Longrightarrow> serving ep routes cfg (snd (dispatch rj ep x req sv))"
| refreshed: "serving ep routes cfg sv \<Longrightarrow> sv_resource_manager sv = Some m \<Longrightarrow> name \<in> set (mn_refreshing m) \<Longrightarrow>
    serving ep routes cfg (sv\<lparr>sv_resource_manager := Some (fst (refresh_resource now name m))\<rparr>)"
| reloaded: "serving ep routes cfg sv \<Longrightarrow> bd_load_config bd = Inr cfg' \<Longrightarrow> last_mod < t \<Longrightarrow>
    fst (fst (reload_config bd sv)) \<Longrightarrow> serving ep routes cfg' (snd (watch_round bd (Some t) duration (last_mod, sv)))"
| not_reloaded: "serving ep routes cfg sv \<Longrightarrow> \<not> fst (fst (reload_config bd sv)) \<Longrightarrow>
    serving ep routes cfg (snd (watch_round bd mtime duration (last_mod, sv)))"

definition deps_found :: "config \<Rightarrow> 'h manager \<Rightarrow> bool" where
  "deps_found cfg m \<longleftrightarrow>
     (\<forall>key op ps name. (key, op) \<in> set (cg_operators cfg) \<longrightarrow> as_object (oc_params op) = Inr ps \<longrightarrow>
        fm_find ps ''resource_name'' = Some (VStr name) \<longrightarrow> name \<noteq> [] \<longrightarrow> table m name \<noteq> None)"

definition well_served :: "(request, result) route list \<Rightarrow> config \<Rightarrow> ('e, 'h) server \<Rightarrow> bool" where
  "well_served routes cfg sv \<longleftrightarrow>
     sv_engine sv \<noteq> None \<and>
     (\<exists>m. sv_resource_manager sv = Some m \<and> manager_ok m \<and> mn_started m \<and> deps_found cfg m) \<and>
     validate_routes routes = (sv_known_paths sv, None) \<and>
     sv_route_map sv = fold (\<lambda>r. fm_set (rt_path r) r) routes []"

lemma start_manager_started: "start_manager now m = (m', Inr u) \<Longrightarrow> mn_started m'"
  by (auto simp: start_manager_def split: if_splits prod.splits option.splits)

lemma build_pair_serves:
  assumes "build_pair bd cfg = Inr (m, e)"
  shows "manager_ok m \<and> mn_started m \<and> deps_found cfg m"
proof -
  from assms obtain m1 m2 where load: "load_from_config (bd_factories bd) True cfg new_manager = (m1, Inr ())"
    and deps: "validate_resource_deps cfg m1 = (m2, Inr ())" and start: "start_manager (bd_now bd) m2 = (m, Inr ())"
    by (auto simp: build_pair_def mthen_def mbind_Inr_iff rbind_Inr_iff split: prod.splits sum.splits)
  have m2: "m2 = m1" using deps by (simp add: validate_resource_deps_def)
  have "manager_ok (fst (load_from_config (bd_factories bd) True cfg new_manager))"
    by (rule manager_reachable_ok) (intro manager_reachable.intros)
  then have ok1: "manager_ok m1" by (simp add: load)
  have ok: "manager_ok m" using start_manager_ok [OF ok1, of "bd_now bd"] start by (simp add: m2)
  have "table m name \<noteq> None" if "(key, op) \<in> set (cg_operators cfg)" "as_object (oc_params op) = Inr ps"
    "fm_find ps ''resource_name'' = Some (VStr name)" "name \<noteq> []" for key op ps name
  proof -
    from validated_dep [OF deps that] obtain r where "fm_find (mn_resources m1) name = Some r" by blast
    moreover have "fm_ok (mn_resources m1)" using ok1 by (simp add: manager_ok_def)
    ultimately show ?thesis using table_start [OF _ start, of name r] by (auto simp: m2)
  qed
  then have "deps_found cfg m" by (simp add: deps_found_def)
  then show ?thesis using ok start_manager_started [OF start] by blast
qed

lemma init_server_serves:
  assumes "init_server bd path routes max_body = Inr sv" "bd_load_config bd = Inr cfg"
  shows "well_served routes cfg sv"
proof -
  obtain known where routes: "validate_routes routes = (known, None)"
    using assms(1) by (auto simp: init_server_def split: if_splits prod.splits option.splits)
  obtain m e where pair: "build_pair bd cfg = Inr (m, e)"
    using assms by (cases "build_pair bd cfg") (auto simp: init_server_def routes rbind_def split: if_splits)
  have "sv_engine sv = Some e \<and> sv_resource_manager sv = Some m \<and> sv_known_paths sv = known \<and>
      sv_route_map sv = fold (\<lambda>r. fm_set (rt_path r) r) routes []"
    using assms by (auto simp: init_server_def routes rbind_def pair split: if_splits)
  then show ?thesis using build_pair_serves [OF pair] routes by (simp add: well_served_def)
qed

lemma refresh_keeps_deps:
  assumes "manager_ok m" "mn_started m" "deps_found cfg m" "name \<in> set (mn_refreshing m)"
  shows "manager_ok (fst (refresh_resource now name m)) \<and> mn_started (fst (refresh_resource now name m)) \<and>
    deps_found cfg (fst (refresh_resource now name m))"
proof (cases "fm_find (mn_resources m) name")
  case None
  then show ?thesis using assms refresh_resource_ok [OF assms(1), of now name] by (simp add: refresh_resource_def)
next
  case (Some r)
  have fm: "fm_ok (mn_resources m)" using assms(1) by (simp add: manager_ok_def)
  have "mg_loaded r" using assms(1,2) Some by (auto simp: manager_ok_def fm_find_in [OF fm])
  from table_refresh [OF fm Some this, of now]
  have "table (fst (refresh_resource now name m)) n \<noteq> None" if "table m n \<noteq> None" for n
    using that by (auto split: sum.split)
  then have "deps_found cfg (fst (refresh_resource now name m))"
    using assms(3) unfolding deps_found_def by blast
  moreover have "mn_started (fst (refresh_resource now name m))"
    using assms(2) Some by (simp add: refresh_resource_def split: sum.split)
  ultimately show ?thesis using refresh_resource_ok [OF assms(1)] by blast
qed

lemma reload_succeeded:
  assumes "fst (fst (reload_config bd sv))" "bd_load_config bd = Inr cfg"
  shows "\<exists>m e st. build_pair bd cfg = Inr (m, e) \<and>
    snd (reload_config bd sv) = sv\<lparr>sv_engine := Some e, sv_resource_manager := Some m, sv_resource_metrics := Some new_collector,
       sv_stats := st\<rparr>"
  using assms by (auto simp: reload_config_def rbind_def split: sum.splits prod.splits)

lemma reload_failed: "\<not> fst (fst (reload_config bd sv)) \<Longrightarrow> snd (reload_config bd sv) = sv"
  by (auto simp: reload_config_def split: sum.splits prod.splits)

lemma serving_well: "serving ep routes cfg sv \<Longrightarrow> well_served routes cfg sv"
proof (induction rule: serving.induct)
  case (started bd path max_body sv cfg)
  then show ?case by (rule init_server_serves)
next
  case (requested cfg sv rj x req)
  then show ?case using dispatch_set_up [of sv rj ep x req] by (simp add: well_served_def same_set_up_def)
next
  case (refreshed cfg sv m name now)
  then show ?case using refresh_keeps_deps [of m cfg name now] by (simp add: well_served_def)
next
  case (reloaded cfg sv bd cfg' last_mod t duration)
  from reload_succeeded [OF reloaded.hyps(4,2)] obtain m e st where pair: "build_pair bd cfg' = Inr (m, e)"
    and sv': "snd (reload_config bd sv) = sv\<lparr>sv_engine := Some e, sv_resource_manager := Some m,
      sv_resource_metrics := Some new_collector, sv_stats := st\<rparr>" by blast
  obtain old sv1 where "reload_config bd sv = ((True, old), sv1)" using reloaded.hyps(4) by (metis prod.collapse)
  then show ?case using reloaded.IH reloaded.hyps(3) build_pair_serves [OF pair] sv'
    by (simp add: watch_round_def well_served_def)
next
  case (not_reloaded cfg sv bd mtime duration last_mod)
  obtain old sv1 where r: "reload_config bd sv = ((False, old), sv1)" using not_reloaded.hyps(2) by (metis prod.collapse)
  then have "sv1 = sv" using reload_failed [of bd sv] by simp
  then show ?case using not_reloaded.IH r by (auto simp: watch_round_def well_served_def split: option.split)
qed

text \<open>
  C35: Requests find their resources.  Whatever the server has been through (requests, refreshes, reloads
  that worked and reloads that failed), an engine is loaded, the manager is started, and every operator of
  the configuration in force that names a resource finds it: as an entry of the snapshot the run gets if it
  is data, by borrowing if it is a handle.
\<close>

theorem requests_find_their_resources:
  assumes "serving ep routes cfg sv" "(key, op) \<in> set (cg_operators cfg)" "as_object (oc_params op) = Inr ps"
    and "fm_find ps ''resource_name'' = Some (VStr name)" "name \<noteq> []"
  shows "\<exists>e m v. sv_engine sv = Some e \<and> sv_resource_manager sv = Some m \<and> mn_started m \<and> table m name = Some v \<and>
           (case v of Data d \<Rightarrow> fm_find (resource_snapshot sv) name = Some d | Handle h \<Rightarrow> borrow name m = h)"
proof -
  from serving_well [OF assms(1)] obtain e m where e: "sv_engine sv = Some e" and m: "sv_resource_manager sv = Some m"
    and ok: "manager_ok m" "mn_started m" and deps: "deps_found cfg m" by (auto simp: well_served_def)
  from deps assms(2-5) obtain v where v: "table m name = Some v" unfolding deps_found_def by blast
  have eq: "resource_snapshot sv = snapshot m" by (simp add: resource_snapshot_def m)
  have "case v of Data d \<Rightarrow> fm_find (resource_snapshot sv) name = Some d | Handle h \<Rightarrow> borrow name m = h"
    unfolding eq by (rule mgr.served [OF ok(1) v])
  with e m ok(2) v show ?thesis by blast
qed

text \<open>
  Routes.  The routes of a server are well formed and distinct, and in whatever state it is a request
  for the path of a route goes to that route, one for a path that is neither built in nor a route gets 404
  and changes nothing, and the metrics label every path with itself or \<open>_other\<close>.
\<close>

theorem routes_are_served:
  assumes "serving ep routes cfg sv"
  shows "(\<forall>r \<in> set routes. route_ok r) \<and> distinct (map rt_path routes) \<and>
         (\<forall>r \<in> set routes. rt_path r = hr_path req \<longrightarrow>
            dispatch rj ep x req sv = handle_custom_route ep x r
              \<lparr>rr_method = hr_method req, rr_path = hr_path req, rr_query = hr_query_string req, rr_body = hr_body req\<rparr> sv) \<and>
         (hr_path req \<notin> set k_default_known_paths \<union> rt_path ` set routes \<longrightarrow>
            dispatch rj ep x req sv = (handle_not_found, sv)) \<and>
         normalize_path p (sv_known_paths sv) =
           (if p \<in> set k_default_known_paths \<union> rt_path ` set routes then p else ''_other'')"
proof -
  from serving_well [OF assms] have valid: "validate_routes routes = (sv_known_paths sv, None)"
    and map: "sv_route_map sv = fold (\<lambda>r. fm_set (rt_path r) r) routes []" by (simp_all add: well_served_def)
  have ok: "\<forall>r \<in> set routes. route_ok r" and distinct: "distinct (map rt_path routes)"
    using validate_routes_ok [of routes] by (simp_all add: valid)
  have found: "fm_find (sv_route_map sv) k = find (\<lambda>r. rt_path r = k) routes" for k
    unfolding map using route_map_find [OF distinct fm_ok_Nil, of k] by (simp add: fm_find_def fm_hit_def split: option.split)
  have "dispatch rj ep x req sv = handle_custom_route ep x r
      \<lparr>rr_method = hr_method req, rr_path = hr_path req, rr_query = hr_query_string req, rr_body = hr_body req\<rparr> sv"
    if r: "r \<in> set routes" "rt_path r = hr_path req" for r
  proof -
    have "hr_path req \<notin> set k_default_known_paths" using ok r by (auto simp: route_ok_def)
    moreover have "find (\<lambda>r. rt_path r = hr_path req) routes = Some r"
      using distinct r by (induction routes) (auto simp: rev_image_eqI)
    ultimately show ?thesis unfolding dispatch_def found by (simp add: k_default_known_paths_def)
  qed
  moreover have "dispatch rj ep x req sv = (handle_not_found, sv)"
    if away: "hr_path req \<notin> set k_default_known_paths \<union> rt_path ` set routes"
  proof -
    have "rt_path r \<noteq> hr_path req" if "r \<in> set routes" for r using away that by (metis UnCI imageI)
    then have "find (\<lambda>r. rt_path r = hr_path req) routes = None" by (simp add: find_None_iff)
    then show ?thesis using away unfolding dispatch_def found by (simp add: k_default_known_paths_def)
  qed
  ultimately show ?thesis using ok distinct validate_routes_known [OF valid, of p] by blast
qed

section \<open>A small server\<close>

text \<open>A server of one configuration, whose engine answers every request with nothing, and one route.\<close>

definition demo_builder :: "(unit, unit) builder" where
  "demo_builder =
     \<lparr>bd_load_config = Inr demo_resources, bd_factories = demo_factories, bd_engine = (\<lambda>_. Inr ()), bd_close = (\<lambda>e. e), bd_now = 0\<rparr>"

definition demo_ops :: "(unit, unit) engine_ops" where
  "demo_ops =
     \<lparr>ep_execute = (\<lambda>e rq resources x. (e, \<lparr>tr_result = empty_result, tr_trace = [], tr_warnings = []\<rparr>, None)),
      ep_render_dag = (\<lambda>e format collapse. Inr []), ep_custom_stats = (\<lambda>e. []), ep_peak_concurrency = (\<lambda>e. 0)\<rparr>"

definition demo_route :: "(request, result) route" where
  "demo_route =
     \<lparr>rt_method = [], rt_path = ''/x'', rt_ingress = Some (\<lambda>_. Inr \<lparr>rq_common = [], rq_items = []\<rparr>),
      rt_egress = Some (\<lambda>_ _ _. json_response 200 [])\<rparr>"

definition demo_server :: "(unit, unit) server" where
  "demo_server = projr (init_server demo_builder ''c.json'' [demo_route] 100)"

lemma demo_started: "init_server demo_builder ''c.json'' [demo_route] 100 = Inr demo_server"
proof -
  have "\<not> isl (init_server demo_builder ''c.json'' [demo_route] 100)" by code_simp
  then show ?thesis by (simp add: demo_server_def)
qed

lemma demo_serving: "serving demo_ops [demo_route] demo_resources demo_server"
  by (rule serving.started [OF demo_started]) (simp add: demo_builder_def)

lemma requests_find_their_resources_witness:
  "\<exists>v. table (the (sv_resource_manager demo_server)) ''words'' = Some v \<and>
     (case v of Data d \<Rightarrow> fm_find (resource_snapshot demo_server) ''words'' = Some d
      | Handle h \<Rightarrow> borrow ''words'' (the (sv_resource_manager demo_server)) = h)"
proof -
  have name: "fm_find [(''resource_name'', VStr ''words'')] ''resource_name'' = Some (VStr ''words'')" by code_simp
  show ?thesis
    using requests_find_their_resources [OF demo_serving _ _ name, of "''look''"
        "demo_input_config\<lparr>oc_params := VObj [(''resource_name'', VStr ''words'')]\<rparr>"]
    by (auto simp: demo_resources_def split: resource_value.split)
qed

lemma routes_are_served_witness:
  "dispatch (\<lambda>_. []) demo_ops () (new_http_request\<lparr>hr_path := ''/x''\<rparr>) demo_server =
     handle_custom_route demo_ops () demo_route \<lparr>rr_method = [], rr_path = ''/x'', rr_query = [], rr_body = []\<rparr> demo_server \<and>
   dispatch (\<lambda>_. []) demo_ops () (new_http_request\<lparr>hr_path := ''/y''\<rparr>) demo_server = (handle_not_found, demo_server)"
  using routes_are_served [OF demo_serving, of "new_http_request\<lparr>hr_path := ''/x''\<rparr>" "\<lambda>_. []" "()"]
    routes_are_served [OF demo_serving, of "new_http_request\<lparr>hr_path := ''/y''\<rparr>" "\<lambda>_. []" "()"]
  by (simp add: demo_route_def new_http_request_def k_default_known_paths_def)

lemma execute_contract_witness:
  "ht_status (fst (handle_execute (\<lambda>_. []) demo_ops () ''GET'' [] 0 demo_server)) = 405 \<and>
   fst (handle_execute (\<lambda>_. []) demo_ops () ''POST'' (''{'' @ quoted ''common'' @ '':{}}'') 13 demo_server) =
     json_response 200 (execute_response_body (\<lambda>_. []) (new_execute_result\<lparr>er_has_result := True\<rparr>))"
proof -
  let ?body = "''{'' @ quoted ''common'' @ '':{}}''"
  have engine: "sv_engine demo_server = Some ()" "sv_max_request_body_size demo_server = 100" by code_simp+
  have "parse_json ?body = Some (Inr (VObj [(''common'', VObj [])]))" by code_simp
  moreover have "request_of [(''common'', VObj [])] = (True, \<lparr>rq_common = [], rq_items = []\<rparr>)" by code_simp
  ultimately have "runs ''POST'' ?body 13 demo_server () \<lparr>rq_common = [], rq_items = []\<rparr>" unfolding runs_def engine by simp
  moreover have "\<nexists>e rq. runs ''GET'' [] 0 demo_server e rq" by (simp add: runs_def)
  ultimately show ?thesis
    using execute_contract [of "''POST''" ?body 13 demo_server demo_ops "()" "\<lambda>_. []"]
      execute_contract [of "''GET''" "[]" 0 demo_server demo_ops "()" "\<lambda>_. []"]
    by (simp add: demo_ops_def new_execute_result_def)
qed

end
