(* ===== verification/Server_Session.thy ===== *)
theory Server_Session
  imports Server_Theorems
begin

text \<open>
  What a connection writes: the loop that reads, dispatches and sends is the list of the requests on the
  wire, each answered in turn, and the answers one after another.
\<close>

section \<open>Requests and answers\<close>









section \<open>One request\<close>





section \<open>The connection\<close>


section \<open>One answer each\<close>











end
