(* ===== verification/Remote_Operator.thy ===== *)
theory Remote_Operator
  imports Ssrf Redis_Operators
begin

text \<open>
  The operator that calls another Pineapple server
  (\<open>operators/transform/transform_remote_pineapple.cpp\<close>) and the HTTP client under it
  (\<open>src/http/http_client.cpp\<close>).  libcurl is an argument: what it makes of a URL and how a transfer
  goes, chunk by chunk; what the client does with it, its callbacks included, is modelled.
\<close>

section \<open>The HTTP client\<close>

record post_options =
  po_url :: string
  po_body :: string
  po_content_type :: string
  po_timeout_ms :: int
  po_max_response_size :: int
  po_allow_private :: bool

record post_result =
  pr_ok :: bool
  pr_status_code :: int
  pr_body :: string
  pr_error :: string
  pr_cancelled :: bool

definition new_post_result :: post_result where
  "new_post_result = \<lparr>pr_ok = False, pr_status_code = 0, pr_body = [], pr_error = [], pr_cancelled = False\<rparr>"

definition post_failed :: "string \<Rightarrow> post_result \<Rightarrow> post_result" where
  "post_failed msg r = r\<lparr>pr_error := ''transform_by_remote_pineapple: '' @ msg\<rparr>"

text \<open>
  \<open>write_callback\<close>: the buffer and whether the whole chunk was taken.  A chunk that overruns the limit
  is cut to one byte more than it.
\<close>

definition write_callback :: "int \<Rightarrow> string \<Rightarrow> string \<Rightarrow> string \<times> bool" where
  "write_callback cap buf chunk =
     (if cap \<ge> 0 \<and> int (length buf) + int (length chunk) > cap
      then (buf @ take (min (nat ((cap - int (length buf) + 1) mod 2 ^ 64)) (length chunk)) chunk, False)
      else (buf @ chunk, True))"

text \<open>Whether libcurl gets a socket for an address.\<close>

definition opensocket_ssrf_callback :: "bool \<Rightarrow> sockaddr option \<Rightarrow> bool" where
  "opensocket_ssrf_callback allow_private address =
     (address \<noteq> None \<and> (allow_private \<or> \<not> sockaddr_is_private address))"

text \<open>The chunks libcurl hands over, up to one that is not taken: the buffer, and whether all were.\<close>

fun receive_chunks :: "int \<Rightarrow> string \<Rightarrow> string list \<Rightarrow> string \<times> bool" where
  "receive_chunks cap buf [] = (buf, True)"
| "receive_chunks cap buf (chunk # chunks) =
     (case write_callback cap buf chunk of
        (buf, True) \<Rightarrow> receive_chunks cap buf chunks
      | (buf, False) \<Rightarrow> (buf, False))"

datatype curl_code = CurlOk | CouldntConnect | CouldntResolveHost | WriteError | CurlOther nat

text \<open>
  libcurl: the host in a URL (\<open>None\<close>: malformed, \<open>Some None\<close>: no host), whether its handles can be made,
  and a transfer: whether the request is stopped before it ends or polling it fails, the chunks of the
  body, the code it ends with when every chunk is taken and the one when not, and the status.
\<close>

record transfer =
  tf_stopped :: bool
  tf_poll_error :: "string option"
  tf_chunks :: "string list"
  tf_code :: "bool \<Rightarrow> curl_code"
  tf_status :: int

record curl =
  cu_url_handle :: bool
  cu_url_host :: "string \<Rightarrow> string option option"
  cu_easy_handle :: bool
  cu_multi_handle :: bool
  cu_strerror :: "curl_code \<Rightarrow> string"
  cu_transfer :: "post_options \<Rightarrow> (sockaddr option \<Rightarrow> bool) \<Rightarrow> transfer"

text \<open>The guard before the transfer: the reason to refuse, if there is one.\<close>

definition post_guard :: "net \<Rightarrow> curl \<Rightarrow> post_options \<Rightarrow> string option" where
  "post_guard nt cu opts =
     (if po_allow_private opts then None
      else if \<not> cu_url_handle cu then Some ''curl_url init failed''
      else case cu_url_host cu (po_url opts) of
        None \<Rightarrow> Some (''malformed URL: '' @ po_url opts)
      | Some None \<Rightarrow> Some (''cannot extract host from URL: '' @ po_url opts)
      | Some (Some host) \<Rightarrow>
          (case validate_remote_host nt host of (False, reason) \<Rightarrow> Some reason | (True, _) \<Rightarrow> None))"

definition post_outcome :: "curl \<Rightarrow> int \<Rightarrow> curl_code \<Rightarrow> int \<Rightarrow> post_result \<Rightarrow> post_result" where
  "post_outcome cu max_response_size rc status r =
     (if rc = CurlOk then r\<lparr>pr_status_code := status, pr_ok := True\<rparr>
      else if rc = WriteError \<and> max_response_size \<ge> 0 \<and> int (length (pr_body r)) > max_response_size
      then post_failed (''response body exceeds '' @ string_of_int max_response_size @ '' bytes limit'') r
      else if rc = CouldntConnect \<or> rc = CouldntResolveHost
      then post_failed (''request failed: '' @ cu_strerror cu rc @
             '' (peer rejected by SSRF dial-time guard if hostname resolved to a private address)'') r
      else post_failed (''request failed: '' @ cu_strerror cu rc) r)"

text \<open>
  \<open>post\<close>; \<open>stop_possible\<close> says whether the context can be cancelled, and so whether the transfer is driven
  through a multi handle.
\<close>

definition post :: "net \<Rightarrow> curl \<Rightarrow> bool \<Rightarrow> post_options \<Rightarrow> post_result" where
  "post nt cu stop_possible opts =
     (case post_guard nt cu opts of
        Some reason \<Rightarrow> post_failed reason new_post_result
      | None \<Rightarrow>
          if \<not> cu_easy_handle cu then post_failed ''curl_easy_init failed'' new_post_result
          else if stop_possible \<and> \<not> cu_multi_handle cu then post_failed ''curl_multi_init failed'' new_post_result
          else
            let tf = cu_transfer cu opts (opensocket_ssrf_callback (po_allow_private opts));
                (buf, taken) = receive_chunks (po_max_response_size opts) [] (tf_chunks tf);
                r = new_post_result\<lparr>pr_body := buf\<rparr>
            in if stop_possible \<and> tf_stopped tf then r\<lparr>pr_cancelled := True\<rparr>
               else case (stop_possible, tf_poll_error tf) of
                 (True, Some msg) \<Rightarrow> post_failed (''request failed: '' @ msg) r
               | _ \<Rightarrow> post_outcome cu (po_max_response_size opts) (tf_code tf taken) (tf_status tf) r)"

section \<open>The operator\<close>

text \<open>A string that is no number, or too large a one, counts as 0.\<close>

fun to_int64_param :: "variant \<Rightarrow> int" where
  "to_int64_param (VNum d) = d_to_int64 d"
| "to_int64_param (VBool b) = (if b then 1 else 0)"
| "to_int64_param (VStr s) = (case stoll s of Inr n \<Rightarrow> n | Inl _ \<Rightarrow> 0)"
| "to_int64_param v = 0"

fun to_string_slice :: "variant \<Rightarrow> string list" where
  "to_string_slice (VArr xs) = concat (map (\<lambda>v. case v of VStr s \<Rightarrow> [s] | _ \<Rightarrow> []) xs)"
| "to_string_slice v = []"

record remote_op =
  rm_url :: string
  rm_timeout_ms :: int
  rm_max_response_size :: int
  rm_fail_on_error :: bool
  rm_allow_private :: bool
  rm_common_req :: "string list"
  rm_item_req :: "string list"
  rm_common_resp :: "string list"
  rm_item_resp :: "string list"
  rm_common_input :: "string list"
  rm_common_output :: "string list"
  rm_item_input :: "string list"
  rm_item_output :: "string list"

definition int64_param_or :: "object \<Rightarrow> string \<Rightarrow> int \<Rightarrow> int" where
  "int64_param_or ps key fallback = (case fm_find ps key of Some v \<Rightarrow> to_int64_param v | None \<Rightarrow> fallback)"

definition slice_param :: "object \<Rightarrow> string \<Rightarrow> string list" where
  "slice_param ps key = (case fm_find ps key of Some v \<Rightarrow> to_string_slice v | None \<Rightarrow> [])"

definition endpoint_param :: "object \<Rightarrow> string" where
  "endpoint_param ps = (let s = string_param_or ps ''endpoint'' [] in if s = [] then ''/execute'' else s)"

text \<open>The seconds in milliseconds: one rounded product, then the conversion to an integer.\<close>

fun to_millis :: "double \<Rightarrow> int" where
  "to_millis (DFin s q) = d_to_int64 (nearest s (q * 1000))"
| "to_millis d = d_to_int64 d"

definition timeout_param :: "object \<Rightarrow> int" where
  "timeout_param ps = (case fm_find ps ''timeout'' of Some (VNum d) \<Rightarrow> to_millis d | _ \<Rightarrow> 5000)"

definition remote_init :: "net \<Rightarrow> operator_config \<Rightarrow> error + remote_op" where
  "remote_init nt op =
     (case oc_params op of
        VObj ps \<Rightarrow>
          let host = string_param_or ps ''host'' []; allow_private = bool_param_or ps ''allow_private'' False; md = oc_metadata op;
              m = \<lparr>rm_url = ''http://'' @ host @ '':'' @ string_of_int (int64_param_or ps ''port'' 0) @ endpoint_param ps,
                   rm_timeout_ms = timeout_param ps,
                   rm_max_response_size = int64_param_or ps ''max_response_size'' (10 * 1024 * 1024),
                   rm_fail_on_error = bool_param_or ps ''fail_on_error'' True, rm_allow_private = allow_private,
                   rm_common_req = slice_param ps ''common_request'', rm_item_req = slice_param ps ''item_request'',
                   rm_common_resp = slice_param ps ''common_response'', rm_item_resp = slice_param ps ''item_response'',
                   rm_common_input = common_input md, rm_common_output = common_output md,
                   rm_item_input = item_input md, rm_item_output = item_output md\<rparr>
          in (case (allow_private, validate_remote_host nt host) of
                (False, (False, reason)) \<Rightarrow> Inl (exec_failure (''transform_by_remote_pineapple: '' @ reason))
              | _ \<Rightarrow> Inr m)
      | _ \<Rightarrow> Inl (exec_failure ''transform_by_remote_pineapple: params must be an object''))"

definition or_fields :: "string list \<Rightarrow> string list \<Rightarrow> string list" where
  "or_fields mapped fs = (if mapped = [] then fs else mapped)"

text \<open>The fields of the request: the value of each input under the name it has downstream.\<close>

definition renamed :: "string list \<Rightarrow> string list \<Rightarrow> (string \<Rightarrow> variant) \<Rightarrow> object" where
  "renamed names fs value_of = fold (\<lambda>(name, field) ob. fst (fm_emplace name (value_of field) ob)) (zip names fs) []"

definition remote_request :: "remote_op \<Rightarrow> operator_input \<Rightarrow> request" where
  "remote_request m inp =
     \<lparr>rq_common = renamed (or_fields (rm_common_req m) (rm_common_input m)) (rm_common_input m) (in_common inp),
      rq_items = map (\<lambda>j. renamed (or_fields (rm_item_req m) (rm_item_input m)) (rm_item_input m) (\<lambda>field. in_item_column inp field ! j))
        [0..<in_item_count inp]\<rparr>"

definition request_body :: "(writer_call list \<Rightarrow> string) \<Rightarrow> request \<Rightarrow> string" where
  "request_body rj rq =
     compact_json rj (VObj [(''common'', VObj (rq_common rq)), (''items'', VArr (map VObj (rq_items rq)))])"

definition post_options_of :: "(writer_call list \<Rightarrow> string) \<Rightarrow> remote_op \<Rightarrow> operator_input \<Rightarrow> post_options" where
  "post_options_of rj m inp =
     \<lparr>po_url = rm_url m, po_body = request_body rj (remote_request m inp), po_content_type = ''application/json'',
      po_timeout_ms = rm_timeout_ms m, po_max_response_size = rm_max_response_size m, po_allow_private = rm_allow_private m\<rparr>"

definition handle_error :: "remote_op \<Rightarrow> string \<Rightarrow> operator_output \<Rightarrow> (operator_output, thrown) outcome" where
  "handle_error m msg out = (if rm_fail_on_error m then throws (exec_failure msg) out else (set_warning msg out, None))"

text \<open>\<open>err\<close> is \<open>ctx.err()\<close>.\<close>

definition handle_cancelled :: "remote_op \<Rightarrow> error option \<Rightarrow> operator_output \<Rightarrow> (operator_output, thrown) outcome" where
  "handle_cancelled m err out =
     handle_error m (''transform_by_remote_pineapple: request failed: Post '' @ quoted (rm_url m) @ '': '' @
       what (case err of Some e \<Rightarrow> e | None \<Rightarrow> ContextError False)) out"

definition k_error_body_max :: nat where "k_error_body_max = 1024"

definition truncate_body :: "string \<Rightarrow> string" where
  "truncate_body body =
     (if length body \<le> k_error_body_max then body
      else take k_error_body_max body @ ''...(truncated, total '' @ string_of_nat (length body) @ '' bytes)'')"

text \<open>Writing the fields of a response back, positionally.\<close>

definition write_fields :: "string list \<Rightarrow> string list \<Rightarrow> (string \<Rightarrow> variant \<Rightarrow> operator_output \<Rightarrow> operator_output) \<Rightarrow> object \<Rightarrow>
    operator_output \<Rightarrow> operator_output" where
  "write_fields names fs put ob out =
     fold (\<lambda>(name, field) out. case fm_find ob name of Some v \<Rightarrow> put field v out | None \<Rightarrow> out) (zip names fs) out"

definition write_response :: "remote_op \<Rightarrow> operator_input \<Rightarrow> object \<Rightarrow> operator_output \<Rightarrow> operator_output" where
  "write_response m inp ob out =
     (let out = (case fm_find ob ''common'' of
            Some (VObj common) \<Rightarrow> write_fields (or_fields (rm_common_resp m) (rm_common_output m)) (rm_common_output m) set_common common out
          | _ \<Rightarrow> out)
      in case fm_find ob ''items'' of
           Some (VArr xs) \<Rightarrow>
             fold (\<lambda>(j, v) out. case v of
                 VObj it \<Rightarrow> write_fields (or_fields (rm_item_resp m) (rm_item_output m)) (rm_item_output m) (set_item (int j)) it out
               | _ \<Rightarrow> out) (enumerate 0 (take (in_item_count inp) xs)) out
         | _ \<Rightarrow> out)"

text \<open>What is done with an answer; the parser always returns.\<close>

definition handle_response :: "remote_op \<Rightarrow> operator_input \<Rightarrow> post_result \<Rightarrow> operator_output \<Rightarrow> (operator_output, thrown) outcome" where
  "handle_response m inp res out =
     (if pr_status_code res \<noteq> 200
      then handle_error m (''transform_by_remote_pineapple: HTTP '' @ string_of_int (pr_status_code res) @ '': '' @ truncate_body (pr_body res)) out
      else case parse_json (pr_body res) of
        Some (Inr (VObj ob)) \<Rightarrow>
          (case fm_find ob ''error'' of
             Some (VStr msg) \<Rightarrow>
               if msg = [] then (write_response m inp ob out, None)
               else handle_error m (''transform_by_remote_pineapple: downstream error: '' @ msg) out
           | _ \<Rightarrow> (write_response m inp ob out, None))
      | Some (Inr _) \<Rightarrow> handle_error m ''transform_by_remote_pineapple: unmarshal response: not an object'' out
      | Some (Inl e) \<Rightarrow> handle_error m (''transform_by_remote_pineapple: unmarshal response: '' @ what e) out
      | None \<Rightarrow> handle_error m ''transform_by_remote_pineapple: unmarshal response: '' out)"

text \<open>
  \<open>execute\<close>: \<open>call\<close> is \<open>http::post\<close>, \<open>before\<close> and \<open>after\<close> what \<open>ctx.err()\<close> is before and after it; a context is
  cancelled when there is an error.
\<close>

definition remote_execute ::
  "(writer_call list \<Rightarrow> string) \<Rightarrow> (post_options \<Rightarrow> post_result) \<Rightarrow> remote_op \<Rightarrow> error option \<Rightarrow> error option \<Rightarrow> operator_input \<Rightarrow>
   operator_output \<Rightarrow> (operator_output, thrown) outcome" where
  "remote_execute rj call m before after inp out =
     (if before \<noteq> None then handle_cancelled m before out
      else let res = call (post_options_of rj m inp)
           in if pr_cancelled res then handle_cancelled m after out
              else if \<not> pr_ok res then handle_error m (pr_error res) out
              else handle_response m inp res out)"

end
