(* ===== verification/Remote_Theorems.thy ===== *)
theory Remote_Theorems
  imports Remote_Operator Server_Session
begin

text \<open>
  The operator that calls another server, and that server: what the operator sends is the request the
  server runs, and what the server answers is what the operator writes.  Also the limits of the client.
\<close>

section \<open>The limits of the client\<close>

lemma write_callback_limit:
  assumes "write_callback cap buf chunk = (buf', taken)" "0 \<le> cap" "cap < 2 ^ 63" "int (length buf) \<le> cap"
  shows "int (length buf') \<le> cap + 1 \<and> (taken \<longrightarrow> int (length buf') \<le> cap)"
proof (cases "int (length buf) + int (length chunk) > cap")
  case True
  have "(cap - int (length buf) + 1) mod 2 ^ 64 = cap - int (length buf) + 1"
    using assms(2-4) by (intro mod_pos_pos_trivial) simp_all
  then show ?thesis using assms True by (auto simp: write_callback_def)
qed (use assms in \<open>auto simp: write_callback_def\<close>)

lemma receive_chunks_limit:
  "0 \<le> cap \<Longrightarrow> cap < 2 ^ 63 \<Longrightarrow> int (length buf) \<le> cap \<Longrightarrow> int (length (fst (receive_chunks cap buf chunks))) \<le> cap + 1"
proof (induction cap buf chunks rule: receive_chunks.induct)
  case (2 cap buf chunk chunks)
  obtain buf' taken where w: "write_callback cap buf chunk = (buf', taken)" by fastforce
  from write_callback_limit [OF w "2.prems"] "2.IH" [OF w [symmetric]] "2.prems" show ?case by (cases taken) (auto simp: w)
qed simp

lemma post_body_limit:
  assumes "0 \<le> po_max_response_size opts" "po_max_response_size opts < 2 ^ 63"
  shows "int (length (pr_body (post nt cu stop_possible opts))) \<le> po_max_response_size opts + 1"
proof -
  obtain buf taken where r: "receive_chunks (po_max_response_size opts) []
      (tf_chunks (cu_transfer cu opts (opensocket_ssrf_callback (po_allow_private opts)))) = (buf, taken)" by fastforce
  have "int (length buf) \<le> po_max_response_size opts + 1"
    using receive_chunks_limit [OF assms, of "[]" "tf_chunks (cu_transfer cu opts (opensocket_ssrf_callback (po_allow_private opts)))"] assms r
    by simp
  then show ?thesis using assms
    by (auto simp: post_def Let_def r post_failed_def post_outcome_def new_post_result_def split: option.split bool.split)
qed

section \<open>The request on the wire\<close>

lemma renamed_ok:
  assumes "\<forall>field \<in> set fs. json_ok (value_of field)"
  shows "json_ok (VObj (renamed names fs value_of))"
proof -
  have "json_ok (VObj (fold (\<lambda>(name, field) ob. fst (fm_emplace name (value_of field) ob)) nfs ob))"
    if "json_ok (VObj ob)" "\<forall>nf \<in> set nfs. json_ok (value_of (snd nf))" for nfs ob
    using that
  proof (induction nfs arbitrary: ob)
    case (Cons nf nfs)
    obtain name field where nf: "nf = (name, field)" by fastforce
    have "json_ok (VObj (fst (fm_emplace name (value_of field) ob)))"
      using Cons.prems by (intro json_ok_emplace) (simp_all add: nf del: json_ok.simps(3))
    from Cons.IH [OF this] Cons.prems(2) show ?case by (simp add: nf del: json_ok.simps(3))
  qed simp
  moreover have "\<forall>nf \<in> set (zip names fs). json_ok (value_of (snd nf))" using assms by (auto dest: set_zip_rightD)
  moreover have "json_ok (VObj [])" by (simp add: fm_ok_Nil)
  ultimately show ?thesis unfolding renamed_def by blast
qed

definition request_object :: "request \<Rightarrow> object" where
  "request_object rq = [(''common'', VObj (rq_common rq)), (''items'', VArr (map VObj (rq_items rq)))]"

lemma request_of_object: "request_of (request_object rq) = (True, rq)"
proof -
  have "fm_find (request_object rq) ''common'' = Some (VObj (rq_common rq))"
    and "fm_find (request_object rq) ''items'' = Some (VArr (map VObj (rq_items rq)))"
    by (simp_all add: request_object_def fm_find_def fm_hit_def fm_lower_bound_def)
  then show ?thesis by (simp add: request_of_def comp_def)
qed

lemma document_ok:
  assumes "json_ok (VObj (rq_common rq))" "\<forall>it \<in> set (rq_items rq). json_ok (VObj it)"
  shows "json_ok (VObj (request_object rq))"
  using assms by (simp add: request_object_def fm_ok_def del: json_ok.simps(3)) (simp add: fm_ok_def)

lemma writer_text:
  "compact_writer rj \<Longrightarrow> json_ok v \<Longrightarrow> rj (write_json_value v) = json_text v"
  by (simp add: compact_writer_def write_is_doc)

lemma request_body_parses:
  assumes "compact_writer rj" "json_ok (VObj (rq_common rq))" "\<forall>it \<in> set (rq_items rq). json_ok (VObj it)"
  shows "parse_json (request_body rj rq) = Some (Inr (VObj (request_object rq)))"
proof -
  have ok: "json_ok (VObj (request_object rq))" by (rule document_ok [OF assms(2,3)])
  have "request_body rj rq = json_text (VObj (request_object rq)) @ []"
    using writer_text [OF assms(1) ok] by (simp add: request_body_def compact_json_def dump_json_def request_object_def)
  then show ?thesis using reads_document [OF reads_json_text [OF ok], of "[]"] by simp
qed

section \<open>The answer\<close>

definition result_of :: "result \<Rightarrow> object" where
  "result_of r = request_object \<lparr>rq_common = res_common r, rq_items = res_items r\<rparr>"

lemma key_texts: "write_go_string ''common'' = quoted ''common''" "write_go_string ''items'' = quoted ''items''"
  by code_simp+

lemma newline_ends: "ends_number newline" "skip_ws newline = []"
  by (simp_all add: newline_def ends_number_def is_digit_def skip_ws_def is_space_def)

lemma response_body_parses:
  assumes "compact_writer rj" "json_ok (VObj (res_common r))" "\<forall>it \<in> set (res_items r). json_ok (VObj it)"
  shows "parse_json (execute_response_body rj (new_execute_result\<lparr>er_result := r, er_has_result := True\<rparr>)) =
    Some (Inr (VObj (result_of r)))"
proof -
  have ok: "json_ok (VObj (result_of r))" unfolding result_of_def by (rule document_ok) (use assms(2,3) in simp_all)
  have items: "json_ok (VArr (map VObj (res_items r)))" using assms(3) by simp
  have "execute_response_body rj (new_execute_result\<lparr>er_result := r, er_has_result := True\<rparr>) = json_text (VObj (result_of r)) @ newline"
    using writer_text [OF assms(1,2)] writer_text [OF assms(1) items]
    by (simp add: execute_response_body_def new_execute_result_def member_def result_common_to_json_def result_items_to_json_def
        result_of_def request_object_def key_texts)
  then show ?thesis using reads_document [OF reads_json_text [OF ok] newline_ends] by simp
qed

section \<open>What is written back\<close>

definition picked :: "string list \<Rightarrow> string list \<Rightarrow> object \<Rightarrow> (string \<times> variant) list" where
  "picked names fs ob = concat (map (\<lambda>(name, field). case fm_find ob name of Some v \<Rightarrow> [(field, v)] | None \<Rightarrow> []) (zip names fs))"

lemma write_fields_common:
  "write_fields names fs set_common ob out = out\<lparr>common_writes := fold (\<lambda>(k, v). fm_set k v) (picked names fs ob) (common_writes out)\<rparr>"
proof -
  have "fold (\<lambda>(name, field) out. case fm_find ob name of Some v \<Rightarrow> set_common field v out | None \<Rightarrow> out) nfs out =
    out\<lparr>common_writes := fold (\<lambda>(k, v). fm_set k v)
      (concat (map (\<lambda>(name, field). case fm_find ob name of Some v \<Rightarrow> [(field, v)] | None \<Rightarrow> []) nfs)) (common_writes out)\<rparr>" for nfs
    by (induction nfs arbitrary: out) (auto simp: set_common_def split: option.split)
  then show ?thesis by (simp add: write_fields_def picked_def)
qed

lemma write_fields_item:
  "write_fields names fs (set_item j) ob out = out\<lparr>item_writes := item_writes out @ map (\<lambda>(k, v). (j, k, v)) (picked names fs ob)\<rparr>"
proof -
  have "fold (\<lambda>(name, field) out. case fm_find ob name of Some v \<Rightarrow> set_item j field v out | None \<Rightarrow> out) nfs out =
    out\<lparr>item_writes := item_writes out @ map (\<lambda>(k, v). (j, k, v))
      (concat (map (\<lambda>(name, field). case fm_find ob name of Some v \<Rightarrow> [(field, v)] | None \<Rightarrow> []) nfs))\<rparr>" for nfs
    by (induction nfs arbitrary: out) (auto simp: set_item_def split: option.split)
  then show ?thesis by (simp add: write_fields_def picked_def)
qed

text \<open>The writes of a result: the common fields and, for each item both sides have, its fields.\<close>

definition result_writes :: "remote_op \<Rightarrow> operator_input \<Rightarrow> result \<Rightarrow> operator_output \<Rightarrow> operator_output" where
  "result_writes m inp r out =
     out\<lparr>common_writes := fold (\<lambda>(k, v). fm_set k v)
           (picked (or_fields (rm_common_resp m) (rm_common_output m)) (rm_common_output m) (res_common r)) (common_writes out),
         item_writes := item_writes out @ concat (map (\<lambda>(j, it). map (\<lambda>(k, v). (int j, k, v))
           (picked (or_fields (rm_item_resp m) (rm_item_output m)) (rm_item_output m) it))
           (enumerate 0 (take (in_item_count inp) (res_items r))))\<rparr>"

lemma write_response_writes: "write_response m inp (result_of r) out = result_writes m inp r out"
proof -
  have common: "fm_find (result_of r) ''common'' = Some (VObj (res_common r))"
    and items: "fm_find (result_of r) ''items'' = Some (VArr (map VObj (res_items r)))"
    by (simp_all add: result_of_def request_object_def fm_find_def fm_hit_def fm_lower_bound_def)
  have "fold (\<lambda>(j, v) out. case v of VObj it \<Rightarrow> write_fields names fs (set_item (int j)) it out | _ \<Rightarrow> out) (enumerate n (map VObj its)) out =
    out\<lparr>item_writes := item_writes out @
      concat (map (\<lambda>(j, it). map (\<lambda>(k, v). (int j, k, v)) (picked names fs it)) (enumerate n its))\<rparr>" for names fs n its out
    by (induction its arbitrary: n out) (simp_all add: write_fields_item)
  then show ?thesis
    by (simp add: write_response_def common items write_fields_common result_writes_def take_map Let_def)
qed

section \<open>A call is a run\<close>

definition delivered :: "http_response \<Rightarrow> post_result" where
  "delivered r = new_post_result\<lparr>pr_ok := True, pr_status_code := ht_status r, pr_body := ht_body r\<rparr>"

lemma json_response_parts [simp]: "ht_status (json_response s b) = s" "ht_body (json_response s b) = b"
  by (simp_all add: json_response_def)

lemma execute_on_request:
  assumes "compact_writer rj" "json_ok (VObj (rq_common rq))" "\<forall>it \<in> set (rq_items rq). json_ok (VObj it)"
    and "sv_engine sv = Some e" "content_length \<le> sv_max_request_body_size sv" "\<not> wants_trace rq"
    and "ep_execute ep e rq (resource_snapshot sv) x = (e', tr, err)"
  shows "fst (handle_execute rj ep x ''POST'' (request_body rj rq) content_length sv) =
    json_response (status_of_error err) (execute_response_body rj (with_error err (new_execute_result\<lparr>
      er_result := tr_result tr, er_warnings := tr_warnings tr, er_has_result := True\<rparr>)))"
proof -
  have "\<not> content_length > sv_max_request_body_size sv" using assms(5) by simp
  then have run: "handle_execute rj ep x ''POST'' (request_body rj rq) content_length sv = run_request rj ep x rq sv"
    unfolding handle_execute_def request_body_parses [OF assms(1-3)] by (simp add: assms(4) request_of_object)
  show ?thesis
    unfolding run run_request_def execute_with_trace_def assms(4) option.case assms(7) Let_def prod.case
    using assms(6) by (simp add: with_error_status new_execute_result_def)
qed

text \<open>
  C36: A remote call is a run.  Suppose the network delivers (the call gets back, whole, the answer of \<open>/execute\<close> to the body it
  posted), the server has an engine, the declared length is within its limit, the values sent are JSON values with finite numbers
  and the request asks for no trace.  If the run of that engine on the renamed fields of the caller's frame
  succeeds without warnings, with a result of JSON values, the operator
  writes exactly the fields of the result, renamed back, for the common part and for the items both sides
  have; if the run fails, the operator fails or, with \<open>fail_on_error\<close> off, leaves one warning and writes
  nothing.
\<close>

theorem remote_call_is_a_run:
  assumes "compact_writer rj" "\<forall>field \<in> set (rm_common_input m). json_ok (in_common inp field)"
    and "\<forall>field \<in> set (rm_item_input m). \<forall>j < in_item_count inp. json_ok (in_item_column inp field ! j)"
    and "sv_engine sv = Some e" "content_length \<le> sv_max_request_body_size sv" "\<not> wants_trace (remote_request m inp)"
    and "ep_execute ep e (remote_request m inp) (resource_snapshot sv) x = (e', tr, err)"
    and "call (post_options_of rj m inp) =
      delivered (fst (handle_execute rj ep x ''POST'' (po_body (post_options_of rj m inp)) content_length sv))"
  shows "(err = None \<longrightarrow> tr_warnings tr = [] \<longrightarrow> json_ok (VObj (res_common (tr_result tr))) \<longrightarrow>
            (\<forall>it \<in> set (res_items (tr_result tr)). json_ok (VObj it)) \<longrightarrow>
            remote_execute rj call m None after inp out = (result_writes m inp (tr_result tr) out, None)) \<and>
         (err \<noteq> None \<longrightarrow>
            (\<exists>msg. remote_execute rj call m None after inp out =
               (if rm_fail_on_error m then (out, Some (Typed (ExecutionError None msg))) else (set_warning msg out, None))))"
proof -
  let ?rq = "remote_request m inp"
  have common: "json_ok (VObj (rq_common ?rq))" using renamed_ok [OF assms(2)] by (simp add: remote_request_def)
  have items: "\<forall>it \<in> set (rq_items ?rq). json_ok (VObj it)"
    using assms(3) by (auto simp: remote_request_def simp del: json_ok.simps(3) intro!: renamed_ok)
  let ?body = "execute_response_body rj (with_error err (new_execute_result\<lparr>er_result := tr_result tr, er_warnings := tr_warnings tr, er_has_result := True\<rparr>))"
  have res: "call (post_options_of rj m inp) = new_post_result\<lparr>pr_ok := True, pr_status_code := status_of_error err, pr_body := ?body\<rparr>"
    unfolding assms(8) using execute_on_request [OF assms(1) common items assms(4-7)]
    by (simp add: post_options_of_def delivered_def)
  have got: "remote_execute rj call m None after inp out =
      handle_response m inp (new_post_result\<lparr>pr_ok := True, pr_status_code := status_of_error err, pr_body := ?body\<rparr>) out"
    unfolding remote_execute_def res by (simp add: new_post_result_def)
  have "remote_execute rj call m None after inp out = (result_writes m inp (tr_result tr) out, None)"
    if "err = None" "tr_warnings tr = []" "json_ok (VObj (res_common (tr_result tr)))" "\<forall>it \<in> set (res_items (tr_result tr)). json_ok (VObj it)"
  proof -
    have body: "?body = execute_response_body rj (new_execute_result\<lparr>er_result := tr_result tr, er_has_result := True\<rparr>)"
      using that by (simp add: new_execute_result_def)
    have "fm_find (result_of (tr_result tr)) ''error'' = None"
      by (simp add: result_of_def request_object_def fm_find_def fm_hit_def fm_lower_bound_def)
    then show ?thesis
      unfolding got body handle_response_def using response_body_parses [OF assms(1) that(3,4)] that(1)
      by (simp add: write_response_writes)
  qed
  moreover have "\<exists>msg. remote_execute rj call m None after inp out =
      (if rm_fail_on_error m then (out, Some (Typed (ExecutionError None msg))) else (set_warning msg out, None))" if "err \<noteq> None"
    unfolding got handle_response_def using that status_of_error_cases [of err] by (auto simp: handle_error_def throws_def exec_failure_def)
  ultimately show ?thesis by blast
qed

text \<open>An engine that answers with its request.\<close>

definition echo_ops :: "(unit, unit) engine_ops" where
  "echo_ops = demo_ops\<lparr>ep_execute := (\<lambda>e rq resources x.
     (e, \<lparr>tr_result = \<lparr>res_common = rq_common rq, res_items = rq_items rq\<rparr>, tr_trace = [], tr_warnings = []\<rparr>, None))\<rparr>"

definition demo_remote :: remote_op where
  "demo_remote =
     \<lparr>rm_url = ''http://example.com:80/execute'', rm_timeout_ms = 5000, rm_max_response_size = 1000, rm_fail_on_error = True,
      rm_allow_private = False, rm_common_req = [''u''], rm_item_req = [], rm_common_resp = [''u''], rm_item_resp = [''id''],
      rm_common_input = [''user''], rm_common_output = [''who''], rm_item_input = [''id''], rm_item_output = [''got'']\<rparr>"

definition demo_remote_input :: operator_input where
  "demo_remote_input = operator_input_of demo_input_frame (compute_input_field_spec demo_input_config)"

definition demo_call :: "post_options \<Rightarrow> post_result" where
  "demo_call opts = delivered (fst (handle_execute (emit []) echo_ops () ''POST'' (po_body opts) 50 demo_server))"

lemma remote_call_is_a_run_witness:
  "remote_execute (emit []) demo_call demo_remote None None demo_remote_input empty_output =
     (empty_output\<lparr>common_writes := [(''who'', VStr ''u1'')],
        item_writes := [(0, ''got'', VStr ''a''), (1, ''got'', VStr ''b'')]\<rparr>, None)"
proof -
  have engine: "sv_engine demo_server = Some ()" "50 \<le> sv_max_request_body_size demo_server" by code_simp+
  have rq: "remote_request demo_remote demo_remote_input =
      \<lparr>rq_common = [(''u'', VStr ''u1'')], rq_items = [[(''id'', VStr ''a'')], [(''id'', VStr ''b'')]]\<rparr>" by code_simp
  have inputs: "\<forall>field \<in> set (rm_common_input demo_remote). json_ok (in_common demo_remote_input field)"
    "\<forall>field \<in> set (rm_item_input demo_remote). \<forall>j < in_item_count demo_remote_input. json_ok (in_item_column demo_remote_input field ! j)"
  proof -
    have "in_common demo_remote_input ''user'' = VStr ''u1''" "in_item_column demo_remote_input ''id'' = [VStr ''a'', VStr ''b'']"
      "in_item_count demo_remote_input = 2" by code_simp+
    then show "\<forall>field \<in> set (rm_common_input demo_remote). json_ok (in_common demo_remote_input field)"
      "\<forall>field \<in> set (rm_item_input demo_remote). \<forall>j < in_item_count demo_remote_input. json_ok (in_item_column demo_remote_input field ! j)"
      by (simp_all add: demo_remote_def less_2_cases_iff)
  qed
  have trace: "\<not> wants_trace (remote_request demo_remote demo_remote_input)" unfolding rq by code_simp
  have run: "ep_execute echo_ops () (remote_request demo_remote demo_remote_input) (resource_snapshot demo_server) () =
      ((), \<lparr>tr_result = \<lparr>res_common = [(''u'', VStr ''u1'')], res_items = [[(''id'', VStr ''a'')], [(''id'', VStr ''b'')]]\<rparr>,
        tr_trace = [], tr_warnings = []\<rparr>, None)" by (simp add: echo_ops_def rq)
  have out: "result_writes demo_remote demo_remote_input \<lparr>res_common = [(''u'', VStr ''u1'')], res_items = [[(''id'', VStr ''a'')], [(''id'', VStr ''b'')]]\<rparr>
      empty_output = empty_output\<lparr>common_writes := [(''who'', VStr ''u1'')], item_writes := [(0, ''got'', VStr ''a''), (1, ''got'', VStr ''b'')]\<rparr>"
    by code_simp
  show ?thesis
    using remote_call_is_a_run [OF compact_writer_emit inputs engine trace run, of demo_call None empty_output]
    by (simp add: demo_call_def out fm_ok_def)
qed

end
