(* ===== verification/Spec2Isabelle.thy ===== *)
theory Spec2Isabelle
  imports Frame_Theorems Input_Theorems Dag_Theorems Engine_Theorems Json_Theorems Template_Theorems
  Context_Theorems Shard_Theorems Scheduler_Theorems Execution_Theorems
  Operator_Effects Ssrf_Theorems Render_Theorems Redis_Theorems Redis_Pool_Theorems Redis_Operator_Theorems
  Resource_Theorems Resource_Stop Http_Theorems Server_Theorems Server_Session Remote_Theorems
begin

text \<open>
  Pineapple runs pipelines of operators over a frame of common fields and items, as a JSON configuration
  describes them.  This library models its C++ runtime, \<open>src/pine-cpp\<close>, and proves what makes its parts
  correct.

  How the parts work together.  A server reads requests off connections and keeps an engine and a resource
  manager, which it replaces when the configuration changes.  Loading a configuration expands its tree of
  sub-flows into a sequence of operators; the DAG builder orders those that touch the same data; the engine
  checks and instantiates them.  A run builds a frame from the request and lets a pool of workers run every
  operator whose predecessors are done: the engine builds the operator's input, runs it (on shards of the
  items, for an operator that allows it), checks its output and applies it to the frame.  The frame is kept
  by rows or by typed columns.  At the end the frame is projected on the fields the configuration promises
  and written as JSON.

  \<^bold>\<open>Data.\<close>  \<open>Prelude\<close>: strings, errors as sums, loops over errors, the shared lemma collections.
  \<open>Values\<close>: \<open>Variant\<close>, \<open>FlatMap\<close>, the exceptions (\<open>include/pine/pine.hpp\<close>, \<open>flat_map.hpp\<close>, \<open>frame_values.hpp\<close>);
  a double is a NaN, an infinity or a sign and a rational.  \<open>Output\<close>: the buffer an operator writes into.
  \<open>Decimal\<close>, \<open>Decimal_Laws\<close>: decimal text and binary64.  \<open>Float_Arith\<close>: the arithmetic of the operators.
  \<open>Json_Text\<close>: \<open>src/config/json.cpp\<close>, \<open>json_writer\<close>; \<open>Json_Laws\<close>, \<open>Json_Number_Laws\<close> and \<open>Json_Theorems\<close>
  show that the parser returns, what it builds, and that written documents are read back.  \<open>Effects\<close>:
  statements that change a state and may throw, for the code that talks to a peer.

  \<^bold>\<open>Frames\<close> (\<open>src/dataframe\<close>).  \<open>Frame_Spec\<close> is the abstract frame and its checks; \<open>Row_Frame\<close>, \<open>Columns\<close>,
  \<open>Column_Store\<close>, \<open>Permute\<close> and \<open>Column_Frame\<close> are the two storage modes.  \<open>Column_Laws\<close>, \<open>Row_Refinement\<close>
  and \<open>Column_Refinement\<close> show that each implements the abstract frame; \<open>Frame_Agreement\<close> and
  \<open>Frame_Theorems\<close> that they agree with each other up to the sign of a zero, and where they differ.

  \<^bold>\<open>Configuration and DAG.\<close>  \<open>Config_Data\<close>, \<open>Registry\<close>, \<open>Markers\<close>, \<open>Config\<close> (\<open>src/config/config.cpp\<close>,
  \<open>src/registry\<close>, the build half of \<open>src/runtime/template.cpp\<close>) and \<open>Config_Theorems\<close>: expansion against the
  flattening of a tree, and what a loaded configuration satisfies.  \<open>Dag\<close> (\<open>src/dag/dag.cpp\<close>) with
  \<open>Dag_Laws\<close>, \<open>Dag_Hazards\<close> and \<open>Dag_Theorems\<close>: conflicting accesses are ordered and the edges are a
  transitive reduction.  \<open>Render\<close>, \<open>Render_Theorems\<close>: the pictures of the graph (\<open>src/render\<close>).

  \<^bold>\<open>Running\<close> (\<open>src/runtime\<close>).  \<open>Operator_Input\<close>, \<open>Engine_Checks\<close> and \<open>Templates\<close> surround one operator;
  \<open>Input_Theorems\<close>, \<open>Engine_Laws\<close>, \<open>Engine_Theorems\<close> and \<open>Template_Theorems\<close> say what an operator is given
  and what its output may change.  \<open>Request_Context\<close>, \<open>Context_Theorems\<close>: contexts and cancellation.
  \<open>Shards\<close>, \<open>Shard_Theorems\<close>: \<open>parallel_execute\<close>.  \<open>Scheduler\<close>, with \<open>Scheduler_Laws\<close>, \<open>Scheduler_Progress\<close>
  and \<open>Scheduler_Theorems\<close>: \<open>run_dag\<close> finishes, keeps conflicting operators apart and reports the first
  failure.  \<open>Engine\<close>, \<open>Execution_Theorems\<close>: the constructor and \<open>execute\<close>.

  \<^bold>\<open>Operators\<close> (\<open>operators\<close>).  \<open>Format_Helpers\<close>, \<open>Row_Operators\<close>, \<open>Field_Operators\<close>, \<open>Builtins\<close>, with
  \<open>Operator_Laws\<close>, \<open>Operator_Theorems\<close> and \<open>Operator_Effects\<close>: the schemas of all twenty operators, and the fifteen that
  need no connection, timer or interpreter.  \<open>Ssrf\<close>, \<open>Ssrf_Theorems\<close>: the guard against
  private addresses (\<open>src/http/ssrf.cpp\<close>).  \<open>Redis_Client\<close>, \<open>Redis_Pool\<close>, \<open>Redis_Operators\<close> (\<open>src/redis\<close>) and
  their theorems: the wire protocol, the books of the connection pool, how the operators degrade.
  \<open>Remote_Operator\<close>, \<open>Remote_Theorems\<close>: the HTTP client and the operator that calls another server, and that
  such a call is a run over there.

  \<^bold>\<open>Serving.\<close>  \<open>Resource\<close> and \<open>Resource_Refresh\<close> (\<open>src/resource\<close>): the manager and its refresh threads;
  \<open>Resource_Theorems\<close>: it is a table of loaded values; \<open>Resource_Stop\<close>: stopping returns, and how it can be
  late.  \<open>Http_Wire\<close>, \<open>Server_Stats\<close>, \<open>Server\<close> and \<open>Server_Loop\<close> (\<open>src/server\<close>, \<open>metrics_collector.cpp\<close>): reading
  and writing HTTP, the statistics, the handlers, the connection loop and the reloads.  \<open>Http_Theorems\<close>: the
  reader reads back requests and is bounded; \<open>Server_Theorems\<close>: what \<open>/execute\<close> answers, where requests go,
  that operators find their resources whatever reloads happen; \<open>Server_Session\<close>: a connection answers its
  requests one after another.

  \<^bold>\<open>Interfaces.\<close>  What several parts rely on is a locale with an interpretation on the model's own
  definitions: string-keyed maps (\<open>FlatMap\<close> and the unordered maps), frames, windowed and readable ones, the
  comparators of the sorts, and the provider of resources the server and its operators rely on.

  \<^bold>\<open>Bounds and fuel.\<close>  The JSON parser has fuel \<open>2 * length + 2\<close>; \<open>parse_json_returns\<close> shows that it never
  runs out.  Cancelling walks the children of a signal with the number of signals as its depth, and a child
  is newer than its parent.  A run of the scheduler, the join of the shards and the stop of a manager have
  explicit bounds on their steps, in terms of the nodes and workers.  Loops over sockets decrease the bytes
  that are left.

  \<^bold>\<open>Steps.\<close>  What a lock protects is one step: an operation of a frame, of the pool, of a context, of the
  manager, of the statistics.  The shards, the scheduler and the refresh threads are step relations, so
  their theorems hold for every interleaving of these steps.  A handler of the server is one step, and so is
  a reload; the engine a server runs is a record of its operations, and the theorems hold for every engine.
  Sockets are the segments they deliver (an empty one is a failed read) and how much each send accepts;
  timeouts only choose which reads fail.

  \<^bold>\<open>Parameters.\<close>  Third-party code is an argument: the RapidJSON writer (\<open>rj\<close>, of which \<open>compact_writer\<close>
  states that it lays a document out compactly), the resolver and the address parsers of the C library,
  libcurl, the fetchers of resources and the operators a program registers.

  \<^bold>\<open>Limits.\<close>  A cast of a double to an integer that cannot hold it, and an overflow of \<open>int\<close>, are undefined in the
  source; they give here what x86-64 gives (\<open>d_to_int\<close>, \<open>int_wrap\<close>), and the bound of a window is a sum of \<open>size_t\<close> that
  wraps (\<open>size_plus\<close>).  Indices, counts and the other 64-bit counters are integers.  A run of an engine without operators never
  ends, in the source and here (\<open>empty_run_waits\<close>); the theorem on \<open>execute\<close> excludes it.  \<open>init_server\<close> reads the configuration file once where the code reads it
  twice.  Capacity, allocation and the request arena are not observable.

  \<^bold>\<open>Not modelled.\<close>  The thread pool, the mutex and the arena (they choose an order or a place, not a value);
  log and debug output; the external metrics providers; the Lua operator, whose meaning is the Lua library
  running a script; the benchmark operators, which only spend time; opening, accepting and draining
  connections, signals and the thread that watches for a client going away; the export of the schemas and
  the code generator; the command-line programs; the Go, Java and Python runtimes.
\<close>

end
